(* ===== verification/Prelude.thy ===== *)
theory Prelude
  imports Main "HOL-Library.Word"
begin

text \<open>
  Shared vocabulary of the development: the C integer types of the kernel (32-bit MIPS:
  \<^verbatim>\<open>unsigned int\<close>, \<^verbatim>\<open>unsigned long\<close> and pointers are 32 bits wide, \<^verbatim>\<open>unsigned char\<close>
  is 8 bits), the result type of operations that may stop (an endless \<^verbatim>\<open>while (1);\<close>, an access
  outside an array, a fuel bound of the model), checked array access, and the
  arithmetic on words that several components need.
\<close>

unbundle bit_operations_syntax

type_synonym u8 = "8 word"
type_synonym u16 = "16 word"
type_synonym u32 = "32 word"

section \<open>Operations that may stop\<close>

text \<open>
  \<open>Hang\<close> is a loop of the source that never ends, \<open>Fault\<close> an access outside an
  object (undefined in C; a trap or a corruption on the machine), \<open>OutOfFuel\<close> the
  model's own bound on a loop, never a behaviour of the code: each use comes with a lemma
  that says when the fuel is enough.
\<close>

datatype stop = Hang | Fault | OutOfFuel

type_synonym 'a res = "stop + 'a"

definition rbind :: "'a res \<Rightarrow> ('a \<Rightarrow> 'b res) \<Rightarrow> 'b res" where
  "rbind m f = (case m of Inl e \<Rightarrow> Inl e | Inr x \<Rightarrow> f x)"

named_theorems res_simps \<open>rules that open a result\<close>

lemma rbind_Inr [simp]: "rbind (Inr x) f = f x"
  by (simp add: rbind_def)

lemma rbind_Inl [simp]: "rbind (Inl e) f = Inl e"
  by (simp add: rbind_def)

lemma rbind_eq_Inr [res_simps]:
  "rbind m f = Inr y \<longleftrightarrow> (\<exists>x. m = Inr x \<and> f x = Inr y)"
  by (cases m) (auto simp: rbind_def)

lemma rbind_eq_Inl [res_simps]:
  "rbind m f = Inl e \<longleftrightarrow> m = Inl e \<or> (\<exists>x. m = Inr x \<and> f x = Inl e)"
  by (cases m) (auto simp: rbind_def)

lemma rbind_assoc: "rbind (rbind m f) g = rbind m (\<lambda>x. rbind (f x) g)"
  by (cases m) (auto simp: rbind_def)

lemma rbind_cong [fundef_cong]:
  "m = m' \<Longrightarrow> (\<And>x. m' = Inr x \<Longrightarrow> f x = f' x) \<Longrightarrow> rbind m f = rbind m' f'"
  by (cases m') (auto simp: rbind_def)

text \<open>A \<^verbatim>\<open>for\<close> loop over a list of indices whose body may stop.\<close>

fun rfold :: "('b \<Rightarrow> 'a \<Rightarrow> 'a res) \<Rightarrow> 'b list \<Rightarrow> 'a \<Rightarrow> 'a res" where
  "rfold f [] s = Inr s"
| "rfold f (x # xs) s = rbind (f x s) (rfold f xs)"

lemma rfold_append: "rfold f (xs @ ys) s = rbind (rfold f xs s) (rfold f ys)"
  by (induction xs arbitrary: s) (auto simp: rbind_assoc intro: arg_cong [of _ _ "rbind _"])

text \<open>A loop that returns nothing never ends.\<close>

definition ends :: "'a option \<Rightarrow> 'a res" where
  "ends m = (case m of None \<Rightarrow> Inl Hang | Some x \<Rightarrow> Inr x)"

lemma ends_simps [simp]: "ends (Some x) = Inr x" "ends None = Inl Hang"
  by (simp_all add: ends_def)

section \<open>Checked array access\<close>

definition rd :: "'a list \<Rightarrow> u32 \<Rightarrow> 'a res" where
  "rd xs i = (if unat i < length xs then Inr (xs ! unat i) else Inl Fault)"

definition wr :: "'a list \<Rightarrow> u32 \<Rightarrow> 'a \<Rightarrow> 'a list res" where
  "wr xs i v = (if unat i < length xs then Inr (xs[unat i := v]) else Inl Fault)"

lemma rd_in_range [simp]: "unat i < length xs \<Longrightarrow> rd xs i = Inr (xs ! unat i)"
  by (simp add: rd_def)

lemma wr_in_range [simp]: "unat i < length xs \<Longrightarrow> wr xs i v = Inr (xs[unat i := v])"
  by (simp add: wr_def)

lemma rd_eq_Inr [res_simps]: "rd xs i = Inr v \<longleftrightarrow> unat i < length xs \<and> v = xs ! unat i"
  by (auto simp: rd_def)

lemma wr_eq_Inr [res_simps]:
  "wr xs i v = Inr ys \<longleftrightarrow> unat i < length xs \<and> ys = xs[unat i := v]"
  by (auto simp: wr_def)

section \<open>Lists updated by index\<close>

lemma take_update_last:
  "k < length xs \<Longrightarrow> take (Suc k) (xs[k := v]) = take k xs @ [v]"
  by (simp add: take_Suc_conv_app_nth)

lemma drop_update_first:
  "k < length xs \<Longrightarrow> drop k (xs[k := v]) = v # drop (Suc k) xs"
  by (simp add: Cons_nth_drop_Suc [symmetric])

lemma list_split_at: "k < length xs \<Longrightarrow> xs = take k xs @ xs ! k # drop (Suc k) xs"
  by (rule id_take_nth_drop)

section \<open>Words\<close>

lemma unat_Suc_less:
  fixes i n :: "'a::len word"
  assumes "i < n"
  shows "unat (i + 1) = Suc (unat i)"
proof -
  have "unat i < unat n" using assms by (simp add: word_less_nat_alt)
  moreover have "unat n < 2 ^ LENGTH('a)" by (rule unsigned_less)
  ultimately have "Suc (unat i) < 2 ^ LENGTH('a)" by linarith
  then show ?thesis by (simp add: unat_word_ariths)
qed

lemma unat_pred_pos:
  fixes i :: "'a::len word"
  shows "i \<noteq> 0 \<Longrightarrow> unat (i - 1) = unat i - 1"
  by (metis unat_minus_one)

lemma unat_pred:
  fixes i :: "'a::len word"
  shows "0 < unat i \<Longrightarrow> unat (i - 1) = unat i - 1"
  by (rule unat_pred_pos) auto

lemma unat_add_no_wrap:
  fixes a b :: u32
  shows "unat a + unat b < 4294967296 \<Longrightarrow> unat (a + b) = unat a + unat b"
  by (simp add: unat_word_ariths)

lemma unat_pow2: "l < 32 \<Longrightarrow> unat (push_bit l 1 :: u32) = 2 ^ l"
proof -
  assume "l < 32"
  then have "(2 :: nat) ^ l < 2 ^ 32" by (intro power_strict_increasing) simp_all
  then have "take_bit 32 ((2 :: nat) ^ l) = 2 ^ l" by (rule take_bit_nat_eq_self)
  then show ?thesis unfolding unsigned_push_bit_eq by (simp add: push_bit_eq_mult)
qed

lemma unat_two_power: "l < 32 \<Longrightarrow> unat (2 ^ l :: u32) = 2 ^ l"
  using unat_pow2 [of l] by (simp add: push_bit_eq_mult)

lemma unat_less_2p32 [simp]: "unat (a :: u32) < 4294967296"
  using unsigned_less [of a, where 'a = nat] by simp

lemma unat_and_not_mask: "unat ((a :: u32) AND NOT (mask n)) = 2 ^ n * (unat a div 2 ^ n)"
proof -
  have "a AND NOT (mask n) = push_bit n (drop_bit n a)" by (rule bit_word_eqI) (auto simp: bit_simps)
  then have "unat (a AND NOT (mask n)) = unat (push_bit n (drop_bit n a))" by simp
  also have "\<dots> = take_bit 32 (2 ^ n * (unat a div 2 ^ n))"
    unfolding unsigned_push_bit_eq unsigned_drop_bit_eq
    by (simp add: push_bit_eq_mult drop_bit_eq_div mult.commute take_bit_nat_eq_self [of "unat a" 32])
  finally have "unat (a AND NOT (mask n)) = take_bit 32 (2 ^ n * (unat a div 2 ^ n))" .
  moreover have "2 ^ n * (unat a div 2 ^ n) \<le> unat a" by simp
  then have "2 ^ n * (unat a div 2 ^ n) < 4294967296" using unat_less_2p32 by (rule le_less_trans)
  ultimately show ?thesis by (simp add: take_bit_nat_eq_self)
qed

end
