(* ===== verification/KMem.thy ===== *)
theory KMem
  imports Prelude
begin

text \<open>
  The memory routines of \<^verbatim>\<open>utils/utils.c\<close>: \<^verbatim>\<open>kernel_memcpy\<close>, \<^verbatim>\<open>kernel_memset\<close>,
  \<^verbatim>\<open>kernel_memset_word\<close> and \<^verbatim>\<open>kernel_memmove\<close>, over a byte memory indexed by 32-bit addresses.
  The \<^verbatim>\<open>int\<close> counters run down to zero and nothing else is read of them, so they are
  words; pointers wrap as addresses do.
\<close>

type_synonym memory = "u32 \<Rightarrow> u8"

function kernel_memcpy :: "memory \<Rightarrow> u32 \<Rightarrow> u32 \<Rightarrow> u32 \<Rightarrow> memory" where
  "kernel_memcpy mem dest src len =
     (if len = 0 then mem
      else kernel_memcpy (mem(dest := mem src)) (dest + 1) (src + 1) (len - 1))"
  by pat_completeness auto
termination
  by (relation "measure (\<lambda>(mem, dest, src, len). unat len)") (auto simp: unat_pred_pos unat_gt_0)

function memset_loop :: "memory \<Rightarrow> u32 \<Rightarrow> u8 \<Rightarrow> u32 \<Rightarrow> memory" where
  "memset_loop mem dest content len =
     (if len = 0 then mem
      else memset_loop (mem(dest := content)) (dest + 1) content (len - 1))"
  by pat_completeness auto
termination
  by (relation "measure (\<lambda>(mem, dest, content, len). unat len)") (auto simp: unat_pred_pos unat_gt_0)

text \<open>The byte stored is all ones or zero: only whether \<^verbatim>\<open>b\<close> is zero matters.\<close>

definition kernel_memset :: "memory \<Rightarrow> u32 \<Rightarrow> u32 \<Rightarrow> u32 \<Rightarrow> memory" where
  "kernel_memset mem dest b len = memset_loop mem dest (if b \<noteq> 0 then -1 else 0) len"

text \<open>Words of the screen memory: the pointer moves by one word, here by one index.\<close>

function kernel_memset_word :: "(u32 \<Rightarrow> u32) \<Rightarrow> u32 \<Rightarrow> u32 \<Rightarrow> u32 \<Rightarrow> (u32 \<Rightarrow> u32)" where
  "kernel_memset_word vram dest w len =
     (if len = 0 then vram
      else kernel_memset_word (vram(dest := w)) (dest + 1) w (len - 1))"
  by pat_completeness auto
termination
  by (relation "measure (\<lambda>(vram, dest, w, len). unat len)") (auto simp: unat_pred_pos unat_gt_0)

function memmove_back :: "memory \<Rightarrow> u32 \<Rightarrow> u32 \<Rightarrow> u32 \<Rightarrow> memory" where
  "memmove_back mem pto pfrom count =
     (if count = 0 then mem
      else memmove_back (mem(pto := mem pfrom)) (pto - 1) (pfrom - 1) (count - 1))"
  by pat_completeness auto
termination
  by (relation "measure (\<lambda>(mem, pto, pfrom, count). unat count)") (auto simp: unat_pred_pos unat_gt_0)

text \<open>The forward loop of \<^verbatim>\<open>kernel_memmove\<close> is statement for statement that of \<^verbatim>\<open>kernel_memcpy\<close>.\<close>

definition kernel_memmove :: "memory \<Rightarrow> u32 \<Rightarrow> u32 \<Rightarrow> u32 \<Rightarrow> memory" where
  "kernel_memmove mem to from count =
     (if to < from \<or> to > from + count - 1
      then kernel_memcpy mem to from count
      else memmove_back mem (to + count - 1) (from + count - 1) count)"

declare kernel_memcpy.simps [simp del] memset_loop.simps [simp del]
  kernel_memset_word.simps [simp del] memmove_back.simps [simp del]

section \<open>What they compute\<close>

text \<open>\<open>a - d < len\<close> says that address \<open>a\<close> is one of the \<open>len\<close> bytes from \<open>d\<close> on.\<close>

lemma in_block_step:
  fixes a d len :: "'a::len word"
  assumes "len \<noteq> 0" and "a \<noteq> d"
  shows "a - (d + 1) < len - 1 \<longleftrightarrow> a - d < len"
proof -
  have "a - d \<noteq> 0" using assms(2) by simp
  then have "unat (a - d - 1) = unat (a - d) - 1" and "0 < unat (a - d)"
    by (auto simp: unat_pred_pos unat_gt_0)
  moreover have "unat (len - 1) = unat len - 1" and "0 < unat len"
    using assms(1) by (auto simp: unat_pred_pos unat_gt_0)
  moreover have "a - (d + 1) = a - d - 1" by simp
  ultimately show ?thesis by (simp only: word_less_nat_alt) linarith
qed

lemma memset_loop_apply:
  "memset_loop mem d c len a = (if a - d < len then c else mem a)"
proof (induction mem d c len rule: memset_loop.induct)
  case (1 mem d c len)
  show ?case
  proof (cases "len = 0")
    case True then show ?thesis by (simp add: memset_loop.simps)
  next
    case False
    have z: "(d - d :: u32) < len" "\<not> d - (d + 1) < len - 1"
      using False by (simp_all add: word_gt_0 not_less)
    have unf: "memset_loop mem d c len = memset_loop (mem(d := c)) (d + 1) c (len - 1)"
      using False by (subst memset_loop.simps) (rule if_not_P)
    show ?thesis using in_block_step [OF False, of a d] z
      unfolding unf 1 [OF False] by (cases "a = d") auto
  qed
qed

lemma kernel_memset_apply:
  "kernel_memset mem d b len a = (if a - d < len then (if b \<noteq> 0 then -1 else 0) else mem a)"
  by (simp add: kernel_memset_def memset_loop_apply)

lemma kernel_memset_word_apply:
  "kernel_memset_word vram d w len a = (if a - d < len then w else vram a)"
proof (induction vram d w len rule: kernel_memset_word.induct)
  case (1 vram d w len)
  show ?case
  proof (cases "len = 0")
    case True then show ?thesis by (simp add: kernel_memset_word.simps)
  next
    case False
    have z: "(d - d :: u32) < len" "\<not> d - (d + 1) < len - 1"
      using False by (simp_all add: word_gt_0 not_less)
    have unf: "kernel_memset_word vram d w len = kernel_memset_word (vram(d := w)) (d + 1) w (len - 1)"
      using False by (subst kernel_memset_word.simps) (rule if_not_P)
    show ?thesis using in_block_step [OF False, of a d] z
      unfolding unf 1 [OF False] by (cases "a = d") auto
  qed
qed

text \<open>
  Copying upwards is right unless the destination starts inside the source, above its
  first byte.
\<close>

lemma kernel_memcpy_apply:
  assumes "d = s \<or> len \<le> d - s"
  shows "kernel_memcpy mem d s len a = (if a - d < len then mem (s + (a - d)) else mem a)"
  using assms
proof (induction mem d s len rule: kernel_memcpy.induct)
  case (1 mem d s len)
  show ?case
  proof (cases "len = 0")
    case True then show ?thesis by (simp add: kernel_memcpy.simps)
  next
    case False
    let ?m = "mem(d := mem s)"
    have "len - 1 \<le> len" using False by (simp add: word_le_nat_alt unat_pred_pos)
    then have c: "d + 1 = s + 1 \<or> len - 1 \<le> d + 1 - (s + 1)" using 1(2) by auto
    have IH: "kernel_memcpy ?m (d + 1) (s + 1) (len - 1) a
        = (if a - (d + 1) < len - 1 then ?m (s + 1 + (a - (d + 1))) else ?m a)"
      using 1(1) [OF False c] .
    show ?thesis
    proof (cases "a = d")
      case True
      have "\<not> d - (d + 1) < len - 1" "(d - d :: u32) < len"
        using False by (simp_all add: word_gt_0 not_less)
      then show ?thesis using IH True False by (simp add: kernel_memcpy.simps [of mem d s len])
    next
      case ne: False
      have "a - d = d - s" if "s + (a - d) = d" using that by (metis add_diff_cancel_left')
      then have "s + (a - d) \<noteq> d \<or> d = s \<or> \<not> a - d < len"
        using 1(2) by fastforce
      moreover have "s + 1 + (a - (d + 1)) = s + (a - d)" by simp
      ultimately show ?thesis
        using IH ne False in_block_step [OF False ne]
        by (auto simp: kernel_memcpy.simps [of mem d s len])
    qed
  qed
qed

lemma memmove_back_apply:
  assumes "e = f \<or> len \<le> f - e"
  shows "memmove_back mem (e + len - 1) (f + len - 1) len a
    = (if a - e < len then mem (f + (a - e)) else mem a)"
  using assms
proof (induction "unat len" arbitrary: len mem)
  case 0
  then have "len = 0" by (simp add: unat_eq_0)
  then show ?case by (simp add: memmove_back.simps)
next
  case (Suc k)
  then have nz: "len \<noteq> 0" by auto
  let ?d = "e + len - 1" and ?s = "f + len - 1"
  let ?m = "mem(?d := mem ?s)"
  have k: "k = unat (len - 1)" using Suc.hyps(2) nz by (simp add: unat_pred_pos)
  have "len - 1 \<le> len" using Suc.hyps(2) k by (simp add: word_le_nat_alt)
  then have c: "e = f \<or> len - 1 \<le> f - e" using Suc.prems by auto
  have lt: "x < len \<longleftrightarrow> x < len - 1 \<or> x = len - 1" for x
    using Suc.hyps(2) k by (auto simp: word_less_nat_alt word_unat_eq_iff)
  have eq: "e + (len - 1) - 1 = ?d - 1" "f + (len - 1) - 1 = ?s - 1" by simp_all
  have IH: "memmove_back ?m (?d - 1) (?s - 1) (len - 1) a
      = (if a - e < len - 1 then ?m (f + (a - e)) else ?m a)"
    using Suc.hyps(1) [OF k c, of ?m] unfolding eq .
  have unf: "memmove_back mem ?d ?s len = memmove_back ?m (?d - 1) (?s - 1) (len - 1)"
    using nz by (simp add: memmove_back.simps [of mem ?d ?s len])
  have a: "a - e = len - 1 \<longleftrightarrow> a = ?d" by (auto simp: algebra_simps)
  show ?case
  proof (cases "a = ?d")
    case True
    then have ae: "a - e = len - 1" by (simp add: a)
    then have "f + (a - e) = ?s" by simp
    then show ?thesis using ae True unfolding unf lt IH by (simp add: add_diff_eq)
  next
    case ne: False
    have "f + (a - e) \<noteq> ?d" if x: "a - e < len - 1"
    proof
      assume "f + (a - e) = ?d"
      then have fe: "f - e = len - 1 - (a - e)" by (simp add: algebra_simps)
      have "unat (len - 1 - (a - e)) = unat (len - 1) - unat (a - e)"
        using x by (intro unat_sub less_imp_le)
      then have "unat (f - e) < unat len" unfolding fe using Suc.hyps(2) k by linarith
      moreover have "e \<noteq> f"
      proof
        assume "e = f"
        then have "len - 1 - (a - e) = 0" using fe by (simp only: diff_self)
        then show False using x by (simp only: right_minus_eq)
      qed
      ultimately show False using Suc.prems by (simp add: word_le_nat_alt)
    qed
    then show ?thesis using ne a unfolding unf lt IH by auto
  qed
qed

text \<open>
  \<^verbatim>\<open>kernel_memmove\<close> chooses the direction by comparing the pointers. It is right for every
  overlap as long as neither block runs past the end of the address space.
\<close>

lemma kernel_memmove_apply:
  assumes "unat to + unat count \<le> 4294967296" and "unat from + unat count \<le> 4294967296"
  shows "kernel_memmove mem to from count a
    = (if a - to < count then mem (from + (a - to)) else mem a)"
proof (cases "to < from \<or> to > from + count - 1")
  case True
  have "to = from \<or> count \<le> to - from"
  proof (cases "to < from")
    case True
    then show ?thesis using assms
      by (auto simp: word_less_nat_alt word_le_nat_alt unat_sub_if')
  next
    case False
    show ?thesis
    proof (cases "count = 0")
      case nz: False
      have "unat (from + (count - 1)) = unat from + (unat count - 1)"
        using assms(2) nz unat_pred_pos [OF nz] unat_gt_0 [of count]
        by (subst unat_add_no_wrap) auto
      then have "unat (from + count - 1) = unat from + unat count - 1"
        using nz unat_gt_0 [of count] by (simp add: add_diff_eq)
      moreover have "from + count - 1 < to" using True False by blast
      ultimately have "unat from + unat count \<le> unat to"
        using unat_gt_0 [of count] nz by (simp add: word_less_nat_alt)
      then show ?thesis by (simp add: word_le_nat_alt unat_sub_if') linarith
    qed simp
  qed
  then show ?thesis using True by (simp add: kernel_memmove_def kernel_memcpy_apply)
next
  case False
  have "to = from \<or> count \<le> from - to"
    using False assms
    by (cases "to = from") (auto simp: word_less_nat_alt word_le_nat_alt unat_sub_if' word_unat_eq_iff)
  with memmove_back_apply [OF this] False show ?thesis
    by (simp add: kernel_memmove_def)
qed

text \<open>
  \<^verbatim>\<open>kernel_memmove\<close> copies correctly for every overlap: each byte of the destination block
  gets the byte the source block held before the call, and no other byte changes.
\<close>

lemma kernel_memmove_correct:
  assumes "unat to + unat count \<le> 4294967296" and "unat from + unat count \<le> 4294967296"
  shows "(\<forall>i. unat i < unat count \<longrightarrow> kernel_memmove mem to from count (to + i) = mem (from + i))
    \<and> (\<forall>a. \<not> a - to < count \<longrightarrow> kernel_memmove mem to from count a = mem a)"
  using kernel_memmove_apply [OF assms] by (simp add: word_less_nat_alt)

lemma kernel_memmove_correct_witness:
  "kernel_memmove (\<lambda>a. ucast a) 11 10 4 12 = 11 \<and> kernel_memmove (\<lambda>a. ucast a) 11 10 4 15 = 15"
proof -
  let ?m = "\<lambda>a :: u32. ucast a :: u8"
  have a: "unat (11 :: u32) + unat (4 :: u32) \<le> 4294967296"
    and b: "unat (10 :: u32) + unat (4 :: u32) \<le> 4294967296" by simp_all
  note t = kernel_memmove_correct [OF a b, of ?m]
  have "kernel_memmove ?m 11 10 4 (11 + 1) = ?m (10 + 1)"
    using t [THEN conjunct1] by (rule allE [where x = 1]) simp
  moreover have "kernel_memmove ?m 11 10 4 15 = ?m 15"
    using t [THEN conjunct2] by (rule allE [where x = 15]) simp
  ultimately show ?thesis by simp
qed

end
