(* ===== verification/BootMM.thy ===== *)
theory BootMM
  imports KMem
begin

text \<open>
  The boot memory manager, \<^verbatim>\<open>kernel/mm/bootmm.c\<close>: a byte map with one byte per page frame and a
  table of at most \<^verbatim>\<open>MAX_INFO\<close> segments that records what each used range is for. The state is
  the global \<^verbatim>\<open>bmm\<close>; \<^verbatim>\<open>s_map\<close> is the byte memory it points to, indexed from the start of
  the map. Despite their names the fields \<^verbatim>\<open>start_pn\<close> and \<^verbatim>\<open>end_pn\<close> of a segment are byte
  addresses: every caller passes addresses.
\<close>

section \<open>Data\<close>

definition PAGE_SHIFT :: nat where "PAGE_SHIFT = 12"
definition PAGE_FREE :: u8 where "PAGE_FREE = 0"
definition PAGE_USED :: u8 where "PAGE_USED = 0xff"
definition MAX_INFO :: nat where "MAX_INFO = 10"
definition MACHINE_MMSIZE :: u32 where "MACHINE_MMSIZE = 128 * 1024 * 1024"
definition KERNAL_MMSIZE :: u32 where "KERNAL_MMSIZE = 16 * 1024 * 1024"

datatype mm_usage = MM_KERNEL | MM_MMMAP | MM_VGABUFF | MM_PDTABLE | MM_PTABLE | MM_DYNAMIC | MM_RESERVED

record bootmm_info =
  start_pn :: u32
  end_pn :: u32
  seg_type :: mm_usage

record bootmm =
  phy_size :: u32
  max_pn :: u32
  s_map :: memory
  map_size :: u32  \<comment> \<open>\<^verbatim>\<open>e_map - s_map\<close>\<close>
  last_alloc :: u32
  count :: u32
  info :: "bootmm_info list"  \<comment> \<open>\<^verbatim>\<open>MAX_INFO\<close> entries\<close>

text \<open>The array \<^verbatim>\<open>info\<close> has \<^verbatim>\<open>MAX_INFO\<close> entries: an access outside it is a fault.\<close>

definition info_at :: "bootmm \<Rightarrow> u32 \<Rightarrow> bootmm_info res" where
  "info_at mm i = (if unat i < MAX_INFO then Inr (info mm ! unat i) else Inl Fault)"

definition set_info :: "bootmm \<Rightarrow> u32 \<Rightarrow> bootmm_info \<Rightarrow> bootmm res" where
  "set_info mm i v =
     (if unat i < MAX_INFO then Inr (mm\<lparr>info := (info mm)[unat i := v]\<rparr>) else Inl Fault)"

section \<open>The segment table\<close>

definition set_mminfo :: "bootmm \<Rightarrow> u32 \<Rightarrow> u32 \<Rightarrow> u32 \<Rightarrow> mm_usage \<Rightarrow> bootmm res" where
  "set_mminfo mm i start fin ty = set_info mm i \<lparr>start_pn = start, end_pn = fin, seg_type = ty\<rparr>"

text \<open>\<^verbatim>\<open>for (i = index + 1; i < mm->count; i++) mm->info[i - 1] = mm->info[i];\<close>\<close>

function remove_loop :: "bootmm \<Rightarrow> u32 \<Rightarrow> bootmm res" where
  "remove_loop mm i =
     (if i < count mm then
        rbind (info_at mm i) (\<lambda>seg. rbind (set_info mm (i - 1) seg) (\<lambda>mm'. remove_loop mm' (i + 1)))
      else Inr mm)"
  by pat_completeness auto

lemma set_info_fields:
  "set_info mm i v = Inr mm' \<Longrightarrow> count mm' = count mm \<and> max_pn mm' = max_pn mm \<and> s_map mm' = s_map mm
     \<and> last_alloc mm' = last_alloc mm \<and> length (info mm') = length (info mm)
     \<and> phy_size mm' = phy_size mm \<and> map_size mm' = map_size mm"
  by (auto simp: set_info_def split: if_splits)

lemma count_up_measure: "(i :: u32) < n \<Longrightarrow> unat n - unat (i + 1) < unat n - unat i"
  by (simp add: unat_Suc_less word_less_nat_alt)

termination remove_loop
  by (relation "measure (\<lambda>(mm, i). unat (count mm) - unat i)") (auto dest!: set_info_fields intro: count_up_measure)

definition remove_mminfo :: "bootmm \<Rightarrow> u32 \<Rightarrow> (u32 \<times> bootmm) res" where
  "remove_mminfo mm index =
     (if index \<ge> count mm then Inr (0, mm)
      else rbind (remove_loop mm (index + 1)) (\<lambda>mm'. Inr (1, mm'\<lparr>count := count mm' - 1\<rparr>)))"

text \<open>The test at the end of the loop body of \<^verbatim>\<open>insert_mminfo\<close>: the new block ends just before segment \<open>i\<close>.\<close>

definition merge_before :: "bootmm \<Rightarrow> u32 \<Rightarrow> u32 \<Rightarrow> u32 \<Rightarrow> bootmm option res" where
  "merge_before mm start fin i =
     rbind (info_at mm i) (\<lambda>seg.
       if start_pn seg - 1 = fin
       then rbind (set_info mm i (seg\<lparr>start_pn := start\<rparr>)) (\<lambda>mm'. Inr (Some mm'))
       else Inr None)"

text \<open>
  The loop body up to that test: \<open>Inr (Inl r)\<close> is a \<^verbatim>\<open>return\<close>, \<open>Inr (Inr mm')\<close> goes on
  to the test with the table \<open>mm'\<close>.
\<close>

definition merge_after :: "bootmm \<Rightarrow> u32 \<Rightarrow> u32 \<Rightarrow> mm_usage \<Rightarrow> u32 \<Rightarrow> (u32 \<times> bootmm + bootmm) res" where
  "merge_after mm start fin ty i =
     rbind (info_at mm i) (\<lambda>seg.
       if end_pn seg = start - 1 then
         if i + 1 < count mm then
           rbind (info_at mm (i + 1)) (\<lambda>nseg.
             if seg_type nseg \<noteq> ty then
               rbind (set_info mm i (seg\<lparr>end_pn := fin\<rparr>)) (\<lambda>mm'. Inr (Inl (2, mm')))
             else if start_pn nseg - 1 = fin then
               rbind (set_info mm i (seg\<lparr>end_pn := end_pn nseg\<rparr>)) (\<lambda>mm'.
                 rbind (remove_mminfo mm' (i + 1)) (\<lambda>(r, mm'').
                   if r \<noteq> 0 then Inr (Inl (5, mm'')) else Inr (Inr mm'')))
             else Inr (Inr mm))
         else rbind (set_info mm i (seg\<lparr>end_pn := fin\<rparr>)) (\<lambda>mm'. Inr (Inl (4, mm')))
       else Inr (Inr mm))"

lemma remove_mminfo_0: "remove_mminfo mm j = Inr (0, mm') \<Longrightarrow> mm' = mm"
  by (auto simp: remove_mminfo_def res_simps split: if_splits)

lemma merge_after_count: "merge_after mm s e t i = Inr (Inr mm') \<Longrightarrow> count mm' = count mm"
  by (auto simp: merge_after_def res_simps split: if_splits dest!: remove_mminfo_0 set_info_fields)

function insert_loop :: "bootmm \<Rightarrow> u32 \<Rightarrow> u32 \<Rightarrow> mm_usage \<Rightarrow> u32 \<Rightarrow> (u32 \<times> bootmm) res" where
  "insert_loop mm start fin ty i =
     (if i < count mm then
        rbind (info_at mm i) (\<lambda>seg.
          if seg_type seg \<noteq> ty then insert_loop mm start fin ty (i + 1)
          else rbind (merge_after mm start fin ty i) (\<lambda>r.
            case r of Inl ret \<Rightarrow> Inr ret
            | Inr mm' \<Rightarrow> rbind (merge_before mm' start fin i) (\<lambda>o'.
                case o' of Some mm'' \<Rightarrow> Inr (3, mm'')
                | None \<Rightarrow> insert_loop mm' start fin ty (i + 1))))
      else if unat (count mm) \<ge> MAX_INFO then Inr (0, mm)
      else rbind (set_mminfo mm (count mm) start fin ty) (\<lambda>mm'.
             Inr (1, mm'\<lparr>count := count mm' + 1\<rparr>)))"
  by pat_completeness auto
termination
  by (relation "measure (\<lambda>(mm, s, e, t, i). unat (count mm) - unat i)")
    (auto dest!: merge_after_count intro: count_up_measure)

declare remove_loop.simps [simp del] insert_loop.simps [simp del]

definition insert_mminfo :: "bootmm \<Rightarrow> u32 \<Rightarrow> u32 \<Rightarrow> mm_usage \<Rightarrow> (u32 \<times> bootmm) res" where
  "insert_mminfo mm start fin ty = insert_loop mm start fin ty 0"

text \<open>
  \<^verbatim>\<open>for (tmp = mm->count - 1; tmp >= index; --tmp) mm->info[tmp + 1] = mm->info[tmp];\<close> with the
  unsigned \<^verbatim>\<open>tmp\<close>: for \<open>index = 0\<close> the guard never fails and \<^verbatim>\<open>tmp\<close> wraps to \<^verbatim>\<open>0xffffffff\<close>.
\<close>

function split_loop :: "bootmm \<Rightarrow> u32 \<Rightarrow> u32 \<Rightarrow> bootmm res" where
  "split_loop mm tmp index =
     (if tmp \<ge> index then
        rbind (info_at mm tmp) (\<lambda>seg. rbind (set_info mm (tmp + 1) seg) (\<lambda>mm'.
          split_loop mm' (tmp - 1) index))
      else Inr mm)"
  by pat_completeness auto
termination
proof (relation "measure (\<lambda>(mm, tmp, index). if unat tmp < MAX_INFO then Suc (unat tmp) else 0)", goal_cases)
  case (2 mm tmp index seg mm')
  then have "unat tmp < MAX_INFO" by (simp add: info_at_def split: if_splits)
  moreover have "unat (- 1 :: u32) = 4294967295" by (simp add: unsigned_minus_1_eq_mask mask_eq_exp_minus_1)
  ultimately show ?case by (cases "tmp = 0") (auto simp: unat_pred_pos unat_gt_0 MAX_INFO_def)
qed simp

declare split_loop.simps [simp del]

definition split_mminfo :: "bootmm \<Rightarrow> u32 \<Rightarrow> u32 \<Rightarrow> (u32 \<times> bootmm) res" where
  "split_mminfo mm index split_start =
     rbind (info_at mm index) (\<lambda>seg.
       let split_start = split_start AND NOT (push_bit PAGE_SHIFT 1 - 1) in
       if split_start \<le> start_pn seg \<or> split_start \<ge> end_pn seg then Inr (0, mm)
       else if unat (count mm) = MAX_INFO then Inr (0, mm)
       else rbind (split_loop mm (count mm - 1) index) (\<lambda>mm1.
         rbind (info_at mm1 index) (\<lambda>s1.
         rbind (set_info mm1 index (s1\<lparr>end_pn := split_start - 1\<rparr>)) (\<lambda>mm2.
         rbind (info_at mm2 (index + 1)) (\<lambda>s2.
         rbind (set_info mm2 (index + 1) (s2\<lparr>start_pn := split_start\<rparr>)) (\<lambda>mm3.
           Inr (1, mm3\<lparr>count := count mm3 + 1\<rparr>)))))))"

section \<open>The page map\<close>

function set_maps :: "memory \<Rightarrow> u32 \<Rightarrow> u32 \<Rightarrow> u8 \<Rightarrow> memory" where
  "set_maps m s_pn cnt v =
     (if cnt = 0 then m else set_maps (m(s_pn := v)) (s_pn + 1) (cnt - 1) v)"
  by pat_completeness auto
termination
  by (relation "measure (\<lambda>(m, s, cnt, v). unat cnt)") (auto simp: unat_pred_pos unat_gt_0)

text \<open>
  The inner \<^verbatim>\<open>while (cnt)\<close> loop of \<^verbatim>\<open>find_pages\<close>: \<open>Inr None\<close> is its \<^verbatim>\<open>return 0\<close>,
  \<open>Inr (Some (tmp, cnt))\<close> leaves the loop. A byte that is neither free nor used changes nothing
  and is looked at for ever.
\<close>

function scan_run :: "memory \<Rightarrow> u32 \<Rightarrow> u32 \<Rightarrow> u32 \<Rightarrow> (u32 \<times> u32) option res" where
  "scan_run m e_pn tmp cnt =
     (if cnt = 0 then Inr (Some (tmp, cnt))
      else if tmp \<ge> e_pn then Inr None
      else if m tmp = PAGE_FREE then
        (if m (tmp + 1) = PAGE_USED then Inr (Some (tmp + 1, cnt - 1))
         else scan_run m e_pn (tmp + 1) (cnt - 1))
      else if m tmp = PAGE_USED then Inr (Some (tmp, cnt))
      else Inl Hang)"
  by pat_completeness auto
termination
  by (relation "measure (\<lambda>(m, e, tmp, cnt). unat cnt)") (auto simp: unat_pred_pos unat_gt_0)

declare set_maps.simps [simp del] scan_run.simps [simp del]

text \<open>
  The outer loop. Its index grows by one or to \<^verbatim>\<open>tmp + align_pn\<close>; the fuel counts the
  iterations.
\<close>

fun find_loop :: "nat \<Rightarrow> memory \<Rightarrow> u32 \<Rightarrow> u32 \<Rightarrow> u32 \<Rightarrow> u32 \<Rightarrow> (u32 \<times> u32) option res" where
  "find_loop 0 m cnt index e_pn align_pn = (if index < e_pn then Inl OutOfFuel else Inr None)"
| "find_loop (Suc fuel) m cnt index e_pn align_pn =
     (if index < e_pn then
        if m index = PAGE_USED then find_loop fuel m cnt (index + 1) e_pn align_pn
        else rbind (scan_run m e_pn index cnt) (\<lambda>r.
          case r of None \<Rightarrow> Inr None
          | Some (tmp, c) \<Rightarrow>
              if c = 0 then Inr (Some (index, tmp))
              else find_loop fuel m cnt (tmp + align_pn) e_pn align_pn)
      else Inr None)"

text \<open>\<^verbatim>\<open>find_pages\<close> returns an address, 0 for failure. One iteration per page below \<^verbatim>\<open>e_pn\<close> is enough fuel.\<close>

definition find_pages :: "bootmm \<Rightarrow> u32 \<Rightarrow> u32 \<Rightarrow> u32 \<Rightarrow> u32 \<Rightarrow> (u32 \<times> bootmm) res" where
  "find_pages bmm cnt s_pn e_pn align_pn =
     (let s1 = s_pn + (align_pn - 1); s2 = s1 AND NOT (align_pn - 1) in
      rbind (find_loop (unat e_pn) (s_map bmm) cnt s2 e_pn align_pn) (\<lambda>r.
        case r of None \<Rightarrow> Inr (0, bmm)
        | Some (index, tmp) \<Rightarrow>
            Inr (push_bit PAGE_SHIFT index,
                 bmm\<lparr>last_alloc := tmp - 1, s_map := set_maps (s_map bmm) index cnt PAGE_USED\<rparr>)))"

section \<open>Initialisation, allocation, release\<close>

text \<open>\<^verbatim>\<open>for (index = ...; index < bmm.max_pn; index++) bmm.s_map[index] = PAGE_FREE;\<close>\<close>

function free_map_loop :: "memory \<Rightarrow> u32 \<Rightarrow> u32 \<Rightarrow> memory" where
  "free_map_loop m index max_page =
     (if index < max_page then free_map_loop (m(index := PAGE_FREE)) (index + 1) max_page else m)"
  by pat_completeness auto
termination
  by (relation "measure (\<lambda>(m, index, max_page). unat max_page - unat index)") (auto intro: count_up_measure)

declare free_map_loop.simps [simp del]

text \<open>\<open>mem\<close> is what the storage of \<^verbatim>\<open>bootmap\<close> holds before.\<close>

definition init_bootmm :: "memory \<Rightarrow> bootmm res" where
  "init_bootmm mem =
     (let zero = \<lparr>start_pn = 0, end_pn = 0, seg_type = MM_KERNEL\<rparr>;
          sz = drop_bit PAGE_SHIFT MACHINE_MMSIZE;
          bmm0 = \<lparr>phy_size = MACHINE_MMSIZE, max_pn = drop_bit PAGE_SHIFT MACHINE_MMSIZE,
                  s_map = kernel_memset mem 0 (ucast PAGE_USED) sz, map_size = sz,
                  last_alloc = 0, count = 0, info = replicate MAX_INFO zero\<rparr>
      in rbind (insert_mminfo bmm0 0 (KERNAL_MMSIZE - 1) MM_KERNEL) (\<lambda>(r, bmm1).
           Inr (bmm1\<lparr>last_alloc := drop_bit PAGE_SHIFT KERNAL_MMSIZE - 1,
                     s_map := free_map_loop (s_map bmm1) (drop_bit PAGE_SHIFT KERNAL_MMSIZE) (max_pn bmm1)\<rparr>)))"

definition page_mask :: u32 where
  "page_mask = push_bit PAGE_SHIFT 1 - 1"

definition bootmm_alloc_pages :: "bootmm \<Rightarrow> u32 \<Rightarrow> mm_usage \<Rightarrow> u32 \<Rightarrow> (u32 \<times> bootmm) res" where
  "bootmm_alloc_pages bmm sz ty align =
     (let sz = (sz + page_mask) AND NOT page_mask;
          cnt = drop_bit PAGE_SHIFT sz;
          try_insert = (\<lambda>res b. if res \<noteq> 0 then insert_mminfo b res (res + sz - 1) ty else Inr (0, b))
      in rbind (find_pages bmm cnt (last_alloc bmm + 1) (max_pn bmm) (drop_bit PAGE_SHIFT align)) (\<lambda>(res, b1).
         rbind (try_insert res b1) (\<lambda>(ok, b2).
           if ok \<noteq> 0 then Inr (res, b2)
           else rbind (find_pages b2 cnt 0 (last_alloc b2) (drop_bit PAGE_SHIFT align)) (\<lambda>(res2, b3).
             rbind (try_insert res2 b3) (\<lambda>(ok2, b4).
               if ok2 \<noteq> 0 then Inr (res2, b4) else Inr (0, b4))))))"

text \<open>The search of \<^verbatim>\<open>bootmm_free_pages\<close> for the segment that holds the whole range; \<^verbatim>\<open>count\<close> if there is none.\<close>

function find_segment :: "bootmm \<Rightarrow> u32 \<Rightarrow> u32 \<Rightarrow> u32 \<Rightarrow> u32 res" where
  "find_segment bmm start sz index =
     (if index < count bmm then
        rbind (info_at bmm index) (\<lambda>seg.
          if end_pn seg < start \<or> start_pn seg > start \<or> start + sz - 1 > end_pn seg
          then find_segment bmm start sz (index + 1)
          else Inr index)
      else Inr index)"
  by pat_completeness auto
termination
  by (relation "measure (\<lambda>(bmm, start, sz, index). unat (count bmm) - unat index)")
    (auto intro: count_up_measure)

declare find_segment.simps [simp del]

text \<open>The bookkeeping of \<^verbatim>\<open>bootmm_free_pages\<close> once the segment is found.\<close>

definition release :: "bootmm \<Rightarrow> u32 \<Rightarrow> u32 \<Rightarrow> u32 \<Rightarrow> (u32 option \<times> bootmm) res" where
  "release b index start sz =
     rbind (info_at b index) (\<lambda>seg.
       if start_pn seg = start then
         if end_pn seg = start + sz - 1
         then rbind (remove_mminfo b index) (\<lambda>(r, b'). Inr (None, b'))
         else rbind (set_mminfo b index (start + sz) (end_pn seg) (seg_type seg)) (\<lambda>b'. Inr (None, b'))
       else if end_pn seg = start + sz - 1
         then rbind (set_mminfo b index (start_pn seg) (start - 1) (seg_type seg)) (\<lambda>b'. Inr (None, b'))
         else rbind (split_mminfo b index start) (\<lambda>(r1, b1).
              rbind (split_mminfo b1 (index + 1) (start + sz)) (\<lambda>(r2, b2).
              rbind (remove_mminfo b2 (index + 1)) (\<lambda>(r3, b3). Inr (None, b3)))))"

text \<open>
  The function is declared to return an integer and its comment promises 1 for success, but
  the path that frees pages falls off the end without a \<^verbatim>\<open>return\<close>: the model gives no value
  there (\<open>None\<close>).
\<close>

definition bootmm_free_pages :: "bootmm \<Rightarrow> u32 \<Rightarrow> u32 \<Rightarrow> (u32 option \<times> bootmm) res" where
  "bootmm_free_pages bmm start sz =
     (let sz = sz AND NOT page_mask; cnt = drop_bit PAGE_SHIFT sz in
      if cnt = 0 then Inr (Some 1, bmm)
      else let start = start AND NOT page_mask in
        rbind (find_segment bmm start sz 0) (\<lambda>index.
          if index = count bmm then Inr (Some 0, bmm)
          else release (bmm\<lparr>s_map := set_maps (s_map bmm) (drop_bit PAGE_SHIFT start) cnt PAGE_FREE\<rparr>) index start sz))"

end
