(* ===== verification/BootMap.thy ===== *)
theory BootMap
  imports BootMM
begin

text \<open>
  The page map of the boot memory manager: what \<^verbatim>\<open>find_pages\<close> and \<^verbatim>\<open>set_maps\<close> of
  \<^verbatim>\<open>kernel/mm/bootmm.c\<close> compute. Page numbers are compared as naturals; \<open>fits\<close> is the
  specification of a successful search.
\<close>

lemma set_maps_memset: "set_maps m s n v = memset_loop m s v n"
proof (induction m s n v rule: set_maps.induct)
  case (1 m s n v)
  show ?case
    unfolding set_maps.simps [of m s n v] memset_loop.simps [of m s v n]
    by (rule if_cong [OF refl refl]) (rule 1)
qed

lemma set_maps_apply: "set_maps m s n v a = (if a - s < n then v else m a)"
  by (simp add: set_maps_memset memset_loop_apply)

definition bytes_ok :: "memory \<Rightarrow> bool" where
  "bytes_ok m \<longleftrightarrow> (\<forall>a. m a = PAGE_FREE \<or> m a = PAGE_USED)"

definition run_free :: "memory \<Rightarrow> nat \<Rightarrow> nat \<Rightarrow> bool" where
  "run_free m i n \<longleftrightarrow> (\<forall>a. i \<le> unat a \<and> unat a < i + n \<longrightarrow> m a = PAGE_FREE)"

definition fits :: "memory \<Rightarrow> u32 \<Rightarrow> u32 \<Rightarrow> nat \<Rightarrow> bool" where
  "fits m cnt e i \<longleftrightarrow> i + unat cnt \<le> unat e \<and> run_free m i (unat cnt)"

lemma free_not_used [simp]: "PAGE_FREE \<noteq> PAGE_USED" "PAGE_USED \<noteq> PAGE_FREE"
  by (simp_all add: PAGE_FREE_def PAGE_USED_def)

lemma run_free_Cons:
  assumes "m t = PAGE_FREE" and "run_free m (Suc (unat t)) n" and "k \<le> Suc n"
  shows "run_free m (unat t) k"
  unfolding run_free_def
proof (intro allI impI)
  fix a :: u32
  assume a: "unat t \<le> unat a \<and> unat a < unat t + k"
  show "m a = PAGE_FREE"
  proof (cases "unat a = unat t")
    case True
    then have "a = t" by (simp add: word_unat_eq_iff)
    then show ?thesis using assms(1) by simp
  next
    case False
    then show ?thesis using a assms(2,3) by (simp add: run_free_def)
  qed
qed

lemma run_free_one: "unat t \<le> unat a \<Longrightarrow> unat a < Suc (unat t) \<Longrightarrow> a = t"
  by (simp add: word_unat_eq_iff)

lemma scan_run_spec:
  assumes "scan_run m e t c = Inr r" and "t \<le> e"
  shows "case r of
      None \<Rightarrow> unat e < unat t + unat c
    | Some (t', c') \<Rightarrow> t' \<le> e \<and> unat t' + unat c' = unat t + unat c
        \<and> run_free m (unat t) (unat t' - unat t) \<and> t \<le> t' \<and> (c' \<noteq> 0 \<longrightarrow> m t' = PAGE_USED)"
  using assms
proof (induction m e t c rule: scan_run.induct)
  case (1 m e t c)
  show ?case
  proof (cases "c = 0 \<or> t \<ge> e")
    case True
    with 1(2,3) show ?thesis
      by (auto simp: scan_run.simps [of m e t c] run_free_def word_le_nat_alt unat_gt_0
          split: if_splits dest: order.antisym)
  next
    case False
    then have u: "unat (t + 1) = Suc (unat t)" "unat (c - 1) = unat c - 1" "0 < unat c" "t + 1 \<le> e"
      by (auto simp: unat_Suc_less [of t e] unat_pred_pos unat_gt_0 not_le word_less_nat_alt word_le_nat_alt)
    have tt: "t \<le> t + 1" using u(1) by (simp add: word_le_nat_alt)
    show ?thesis
    proof (cases "m t = PAGE_FREE \<and> m (t + 1) \<noteq> PAGE_USED")
      case rec: True
      have r: "scan_run m e (t + 1) (c - 1) = Inr r"
        using 1(2) False rec by (simp add: scan_run.simps [of m e t c])
      show ?thesis
        using 1(1) [OF _ _ _ _ r u(4)] False rec u tt
        by (auto split: option.splits simp: word_le_nat_alt elim!: run_free_Cons [rotated])
    next
      case stop: False
      then show ?thesis using 1(2) False u tt
        by (auto simp: scan_run.simps [of m e t c] run_free_def word_le_nat_alt
            dest: run_free_one split: if_splits)
    qed
  qed
qed

lemma scan_run_total: "bytes_ok m \<Longrightarrow> \<exists>r. scan_run m e t c = Inr r"
  by (induction m e t c rule: scan_run.induct) (subst scan_run.simps, auto simp: bytes_ok_def)

section \<open>The search\<close>

text \<open>Any result is a run of free pages inside the bound, whatever the alignment.\<close>

lemma find_loop_sound:
  assumes "find_loop fuel m cnt index e al = Inr (Some (i, t))" and "cnt \<noteq> 0"
  shows "fits m cnt e (unat i) \<and> unat t = unat i + unat cnt"
  using assms
proof (induction fuel arbitrary: index)
  case 0
  then show ?case by (simp split: if_splits)
next
  case (Suc fuel)
  have lt: "index < e" using Suc.prems(1) by (simp split: if_splits)
  show ?case
  proof (cases "m index = PAGE_USED")
    case True
    then show ?thesis using Suc lt by simp
  next
    case False
    then obtain t' c where r: "scan_run m e index cnt = Inr (Some (t', c))"
      using Suc.prems lt by (auto simp: rbind_eq_Inr split: option.splits)
    show ?thesis
    proof (cases "c = 0")
      case True
      then show ?thesis using Suc.prems lt False r scan_run_spec [OF r less_imp_le [OF lt]]
        by (auto simp: fits_def word_le_nat_alt)
    next
      case nz: False
      then show ?thesis using Suc lt False r by simp
    qed
  qed
qed

text \<open>With alignment 1 the search is a first fit, and it finds a run whenever there is one.\<close>

lemma find_loop_first:
  assumes "bytes_ok m" "cnt \<noteq> 0" "unat e \<le> unat index + fuel" "unat e < 4294967295"
  shows "(\<exists>i t. find_loop fuel m cnt index e 1 = Inr (Some (i, t)) \<and> unat index \<le> unat i
           \<and> (\<forall>j. unat index \<le> j \<and> j < unat i \<longrightarrow> \<not> fits m cnt e j))
    \<or> (find_loop fuel m cnt index e 1 = Inr None \<and> (\<forall>j\<ge>unat index. \<not> fits m cnt e j))"
  using assms(3)
proof (induction fuel arbitrary: index)
  case 0
  then have "\<not> index < e" by (simp add: word_less_nat_alt)
  moreover have "\<not> fits m cnt e j" if "unat index \<le> j" for j
    using that 0 assms(2) unat_gt_0 [of cnt] by (simp add: fits_def)
  ultimately show ?case by simp
next
  case (Suc fuel)
  have pos: "0 < unat cnt" using assms(2) by (simp add: unat_gt_0)
  consider (out) "\<not> index < e" | (used) "index < e" "m index = PAGE_USED"
    | (free) "index < e" "m index \<noteq> PAGE_USED" by blast
  then show ?case
  proof cases
    case out
    then have "\<not> fits m cnt e j" if "unat index \<le> j" for j
      using that pos by (simp add: fits_def word_less_nat_alt)
    then show ?thesis using out by simp
  next
    case used
    have u: "unat (index + 1) = Suc (unat index)" using used(1) by (rule unat_Suc_less)
    have no: "\<not> fits m cnt e (unat index)"
      using used(2) pos by (auto simp: fits_def run_free_def)
    have "unat index \<le> j \<longleftrightarrow> j = unat index \<or> Suc (unat index) \<le> j" for j by auto
    then show ?thesis
      using Suc.IH [of "index + 1"] Suc.prems used u no
      by (auto simp: Suc_le_eq)
  next
    case free
    obtain r where r: "scan_run m e index cnt = Inr r"
      using scan_run_total [OF assms(1)] by blast
    note sp = scan_run_spec [OF r less_imp_le [OF free(1)]]
    show ?thesis
    proof (cases r)
      case None
      then have "\<not> fits m cnt e j" if "unat index \<le> j" for j
        using sp that by (simp add: fits_def)
      then show ?thesis using None r free by simp
    next
      case (Some p)
      obtain t c where p: "p = (t, c)" by force
      show ?thesis
      proof (cases "c = 0")
        case True
        then show ?thesis using Some p r free by auto
      next
        case False
        have sp': "unat t \<le> unat e" "unat t + unat c = unat index + unat cnt"
            "unat index \<le> unat t" "m t = PAGE_USED"
          using sp False by (auto simp: Some p word_le_nat_alt)
        have cpos: "0 < unat c" using False by (simp add: unat_gt_0)
        have no: "\<not> fits m cnt e j" if j: "unat index \<le> j" "j \<le> unat t" for j
          using sp' j cpos by (auto simp: fits_def run_free_def)
        have u: "unat (t + 1) = Suc (unat t)"
          using sp'(1) assms(4) by (simp add: unat_word_ariths)
        have "find_loop (Suc fuel) m cnt index e 1 = find_loop fuel m cnt (t + 1) e 1"
          using Some p r free False by simp
        then show ?thesis
          using Suc.IH [of "t + 1"] Suc.prems u no sp'
          by (auto simp: Suc_le_eq) (metis le_less_linear less_trans_Suc less_or_eq_imp_le not_less_eq_eq)+
      qed
    qed
  qed
qed

lemma shift_address:
  fixes i :: u32
  assumes "unat i < 1048576"
  shows "unat (push_bit PAGE_SHIFT i) = unat i * 4096"
  using assms by (simp add: PAGE_SHIFT_def push_bit_eq_mult unat_word_ariths)

lemma find_pages_sound:
  assumes "find_pages b cnt s e al = Inr (r, b')" and "cnt \<noteq> 0" and "r \<noteq> 0"
  shows "\<exists>i. r = push_bit PAGE_SHIFT i \<and> fits (s_map b) cnt e (unat i)
    \<and> b' = b\<lparr>last_alloc := i + cnt - 1, s_map := (\<lambda>a. if a - i < cnt then PAGE_USED else s_map b a)\<rparr>"
proof -
  let ?s = "(s + (al - 1)) AND NOT (al - 1)"
  obtain i t where f: "find_loop (unat e) (s_map b) cnt ?s e al = Inr (Some (i, t))"
    and r: "r = push_bit PAGE_SHIFT i"
    and b': "b' = b\<lparr>last_alloc := t - 1, s_map := set_maps (s_map b) i cnt PAGE_USED\<rparr>"
    using assms(1,3) by (auto simp: find_pages_def rbind_eq_Inr split: option.splits)
  note fs = find_loop_sound [OF f assms(2)]
  then have "unat i + unat cnt < 4294967296"
    using unat_less_2p32 [of e] unfolding fits_def by linarith
  then have "unat t = unat (i + cnt)" using fs by (simp add: unat_add_no_wrap)
  then have "t = i + cnt" by (simp only: word_unat_eq_iff)
  then show ?thesis using fs r b' set_maps_apply [of "s_map b" i cnt PAGE_USED] by (auto simp: fun_eq_iff)
qed

text \<open>
  C38. With page alignment 1, the one every caller passes, \<^verbatim>\<open>find_pages\<close> is a first-fit search:
  it returns the lowest run of \<open>cnt\<close> free pages in \<open>[s, e)\<close>, marks exactly that run used
  and remembers its last page, or it returns 0 with the state unchanged, and then there is no
  such run. It reads one byte past the bound, which never matters.
\<close>

theorem find_pages_first_fit:
  assumes "bytes_ok (s_map b)" and "cnt \<noteq> 0" and "unat e \<le> 1048576"
  shows "(\<exists>i. unat s \<le> unat i \<and> fits (s_map b) cnt e (unat i)
        \<and> (\<forall>j. unat s \<le> j \<and> j < unat i \<longrightarrow> \<not> fits (s_map b) cnt e j)
        \<and> unat (push_bit PAGE_SHIFT i) = unat i * 4096
        \<and> find_pages b cnt s e 1 = Inr (push_bit PAGE_SHIFT i, b\<lparr>last_alloc := i + cnt - 1,
             s_map := (\<lambda>a. if a - i < cnt then PAGE_USED else s_map b a)\<rparr>))
    \<or> (find_pages b cnt s e 1 = Inr (0, b) \<and> (\<forall>j\<ge>unat s. \<not> fits (s_map b) cnt e j))"
proof -
  have "unat e \<le> unat s + unat e" "unat e < 4294967295" using assms(3) by auto
  note ff = find_loop_first [OF assms(1,2) this]
  have al: "(s + (1 - 1)) AND NOT (1 - 1) = s" by simp
  show ?thesis
  proof (cases "find_loop (unat e) (s_map b) cnt s e 1 = Inr None")
    case True
    then show ?thesis using ff by (simp add: find_pages_def)
  next
    case False
    then obtain i t where f: "find_loop (unat e) (s_map b) cnt s e 1 = Inr (Some (i, t))"
      and i: "unat s \<le> unat i" "\<forall>j. unat s \<le> j \<and> j < unat i \<longrightarrow> \<not> fits (s_map b) cnt e j"
      using ff by auto
    note fs = find_loop_sound [OF f assms(2)]
    then have "unat t = unat (i + cnt)"
      using assms(3) by (simp add: fits_def unat_add_no_wrap)
    then have t: "t = i + cnt" by (simp only: word_unat_eq_iff)
    have "unat i < 1048576" using fs assms(2,3) unat_gt_0 [of cnt] by (simp add: fits_def)
    then show ?thesis using fs f i t shift_address [of i] set_maps_apply [of "s_map b" i cnt PAGE_USED]
      by (auto simp: find_pages_def fun_eq_iff)
  qed
qed

definition sample_map :: memory where
  "sample_map a = (if a \<in> {3, 5, 6, 7} then PAGE_FREE else PAGE_USED)"

definition sample_bmm :: bootmm where
  "sample_bmm = \<lparr>phy_size = 40960, max_pn = 10, s_map = sample_map, map_size = 10,
     last_alloc = 0, count = 0, info = replicate MAX_INFO \<lparr>start_pn = 0, end_pn = 0, seg_type = MM_KERNEL\<rparr>\<rparr>"

theorem find_pages_first_fit_witness:
  "\<exists>i b'. find_pages sample_bmm 2 0 10 1 = Inr (push_bit PAGE_SHIFT i, b') \<and> unat i \<le> 5"
proof -
  have ok: "bytes_ok (s_map sample_bmm)" by (simp add: sample_bmm_def sample_map_def bytes_ok_def)
  have f: "fits (s_map sample_bmm) 2 10 5"
    by (auto simp: fits_def run_free_def sample_bmm_def sample_map_def word_unat_eq_iff)
  have "(2 :: u32) \<noteq> 0" "unat (10 :: u32) \<le> 1048576" by simp_all
  from find_pages_first_fit [OF ok this, of 0] show ?thesis
  proof (elim disjE exE conjE)
    fix i :: u32
    assume "\<forall>j. unat (0 :: u32) \<le> j \<and> j < unat i \<longrightarrow> \<not> fits (s_map sample_bmm) 2 10 j"
    then have "unat i \<le> 5" using f by (metis linorder_not_less unat_0 zero_le)
    moreover assume "find_pages sample_bmm 2 0 10 1 = Inr (push_bit PAGE_SHIFT i,
      sample_bmm\<lparr>last_alloc := i + 2 - 1, s_map := (\<lambda>a. if a - i < 2 then PAGE_USED else s_map sample_bmm a)\<rparr>)"
    ultimately show ?thesis by blast
  next
    assume "\<forall>j\<ge>unat (0 :: u32). \<not> fits (s_map sample_bmm) 2 10 j"
    then show ?thesis using f by auto
  qed
qed

end
