(* ===== verification/BootSegs.thy ===== *)
theory BootSegs
  imports BootMap
begin

text \<open>
  The segment table of \<^verbatim>\<open>kernel/mm/bootmm.c\<close>. \<open>segs\<close> is the list of segments in use; each
  operation of the table is shown to be an operation on that list, and \<open>covered\<close>, the set of
  addresses recorded for a usage, is what the operations promise to change.
\<close>

section \<open>Abstraction\<close>

definition segs :: "bootmm \<Rightarrow> bootmm_info list" where
  "segs mm = take (unat (count mm)) (info mm)"

definition seg_range :: "bootmm_info \<Rightarrow> nat set" where
  "seg_range s = {unat (start_pn s)..unat (end_pn s)}"

definition covered :: "bootmm_info list \<Rightarrow> mm_usage \<Rightarrow> nat set" where
  "covered xs ty = (\<Union>s\<in>{s \<in> set xs. seg_type s = ty}. seg_range s)"

definition seg_ok :: "bootmm_info \<Rightarrow> bool" where
  "seg_ok s \<longleftrightarrow> start_pn s \<le> end_pn s \<and> unat (end_pn s) < 4294967295"

definition apart :: "bootmm_info list \<Rightarrow> bool" where
  "apart xs \<longleftrightarrow> sorted_wrt (\<lambda>s t. seg_range s \<inter> seg_range t = {}) xs"

definition table_ok :: "bootmm \<Rightarrow> bool" where
  "table_ok mm \<longleftrightarrow> length (info mm) = MAX_INFO \<and> unat (count mm) \<le> MAX_INFO
     \<and> (\<forall>s\<in>set (segs mm). seg_ok s) \<and> apart (segs mm)"

definition same_pages :: "bootmm \<Rightarrow> bootmm \<Rightarrow> bool" where
  "same_pages mm mm' \<longleftrightarrow> s_map mm' = s_map mm \<and> max_pn mm' = max_pn mm \<and> last_alloc mm' = last_alloc mm
     \<and> phy_size mm' = phy_size mm \<and> map_size mm' = map_size mm"

lemma same_pages_refl [simp]: "same_pages mm mm"
  by (simp add: same_pages_def)

lemma covered_simps [simp]:
  "covered [] ty = {}"
  "covered (x # xs) ty = (if seg_type x = ty then seg_range x else {}) \<union> covered xs ty"
  "covered (xs @ ys) ty = covered xs ty \<union> covered ys ty"
  by (auto simp: covered_def)

lemma apart_simps [simp]:
  "apart []"
  "apart (x # xs) \<longleftrightarrow> (\<forall>y\<in>set xs. seg_range x \<inter> seg_range y = {}) \<and> apart xs"
  "apart (xs @ ys) \<longleftrightarrow> apart xs \<and> apart ys \<and> (\<forall>x\<in>set xs. \<forall>y\<in>set ys. seg_range x \<inter> seg_range y = {})"
  by (auto simp: apart_def sorted_wrt_append)

lemma length_segs: "length (info mm) = MAX_INFO \<Longrightarrow> unat (count mm) \<le> MAX_INFO \<Longrightarrow> length (segs mm) = unat (count mm)"
  by (simp add: segs_def)

lemma segs_nth: "unat i < unat (count mm) \<Longrightarrow> segs mm ! unat i = info mm ! unat i"
  by (simp add: segs_def)

lemma segs_upd:
  "segs (mm\<lparr>info := (info mm)[k := v]\<rparr>) = (segs mm)[k := v]"
  by (simp add: segs_def take_update_swap)

section \<open>Removing and splitting\<close>

lemma remove_loop_spec:
  assumes "0 < unat i" "unat i \<le> unat (count mm)" "unat (count mm) \<le> MAX_INFO" "length (info mm) = MAX_INFO"
  shows "\<exists>xs. remove_loop mm i = Inr (mm\<lparr>info := xs\<rparr>) \<and> length xs = MAX_INFO
    \<and> take (unat (count mm) - 1) xs = take (unat i - 1) (info mm) @ drop (unat i) (segs mm)"
  using assms
proof (induction mm i rule: remove_loop.induct)
  case (1 mm i)
  show ?case
  proof (cases "i < count mm")
    case True
    let ?k = "unat i"
    let ?mm = "mm\<lparr>info := (info mm)[?k - 1 := info mm ! ?k]\<rparr>"
    have k: "?k < unat (count mm)" using True by (simp add: word_less_nat_alt)
    have i0: "i \<noteq> 0" using 1(2) by auto
    have pre: "unat (i - 1) = ?k - 1" using i0 by (rule unat_pred_pos)
    have suc: "unat (i + 1) = Suc ?k" using True by (rule unat_Suc_less)
    have at: "info_at mm i = Inr (info mm ! ?k)" using k 1(4) by (simp add: info_at_def)
    have st: "set_info mm (i - 1) (info mm ! ?k) = Inr ?mm"
      using k 1(4) pre by (simp add: set_info_def)
    have "\<exists>xs. remove_loop ?mm (i + 1) = Inr (?mm\<lparr>info := xs\<rparr>) \<and> length xs = MAX_INFO
        \<and> take (unat (count ?mm) - 1) xs = take (unat (i + 1) - 1) (info ?mm) @ drop (unat (i + 1)) (segs ?mm)"
      using 1(1) [OF True at st] 1(4,5) k suc by simp
    then obtain xs where xs: "remove_loop ?mm (i + 1) = Inr (mm\<lparr>info := xs\<rparr>)" "length xs = MAX_INFO"
      "take (unat (count mm) - 1) xs = take ?k (info ?mm) @ drop (Suc ?k) (segs ?mm)"
      using suc by auto
    obtain j where j: "?k = Suc j" using 1(2) by (cases ?k) auto
    have "take ?k (info ?mm) = take (?k - 1) (info mm) @ [info mm ! ?k]"
      using take_update_last [of j "info mm" "info mm ! ?k"] j k 1(4,5) by simp
    moreover have "drop ?k (segs mm) = info mm ! ?k # drop (Suc ?k) (segs mm)"
      using k 1(4,5) by (subst Cons_nth_drop_Suc [symmetric]) (auto simp: length_segs segs_nth)
    moreover have "drop (Suc ?k) (segs ?mm) = drop (Suc ?k) (segs mm)"
      by (simp only: segs_upd) (simp add: drop_update_cancel)
    ultimately show ?thesis using xs True at st
      by (intro exI [of _ xs], subst remove_loop.simps) simp
  next
    case False
    then have "unat i = unat (count mm)" using 1(3) by (simp add: word_less_nat_alt)
    then show ?thesis using False 1(4,5)
      by (intro exI [of _ "info mm"]) (simp add: remove_loop.simps [of mm i] length_segs)
  qed
qed

lemma remove_mminfo_spec:
  assumes "unat i < unat (count mm)" "unat (count mm) \<le> MAX_INFO" "length (info mm) = MAX_INFO"
  shows "\<exists>mm'. remove_mminfo mm i = Inr (1, mm') \<and> segs mm' = take (unat i) (segs mm) @ drop (Suc (unat i)) (segs mm)
    \<and> same_pages mm mm' \<and> length (info mm') = MAX_INFO \<and> unat (count mm') = unat (count mm) - 1"
proof -
  have lt: "i < count mm" using assms(1) by (simp add: word_less_nat_alt)
  have suc: "unat (i + 1) = Suc (unat i)" using lt by (rule unat_Suc_less)
  have "count mm \<noteq> 0" using assms(1) by auto
  then have c: "unat (count mm - 1) = unat (count mm) - 1" by (rule unat_pred_pos)
  have "\<exists>xs. remove_loop mm (i + 1) = Inr (mm\<lparr>info := xs\<rparr>) \<and> length xs = MAX_INFO
    \<and> take (unat (count mm) - 1) xs = take (unat (i + 1) - 1) (info mm) @ drop (unat (i + 1)) (segs mm)"
    by (rule remove_loop_spec) (use assms suc in auto)
  then obtain xs where xs: "remove_loop mm (i + 1) = Inr (mm\<lparr>info := xs\<rparr>)" "length xs = MAX_INFO"
    "take (unat (count mm) - 1) xs = take (unat i) (info mm) @ drop (Suc (unat i)) (segs mm)"
    using suc by auto
  have "take (unat i) (info mm) = take (unat i) (segs mm)" using assms(1) by (simp add: segs_def)
  then have "segs (mm\<lparr>info := xs, count := count mm - 1\<rparr>) = take (unat i) (segs mm) @ drop (Suc (unat i)) (segs mm)"
    using xs(3) c by (simp add: segs_def)
  moreover have "remove_mminfo mm i = Inr (1, mm\<lparr>info := xs, count := count mm - 1\<rparr>)"
    using lt xs(1) by (simp add: remove_mminfo_def not_le)
  ultimately show ?thesis using xs(2) c
    by (intro exI [of _ "mm\<lparr>info := xs, count := count mm - 1\<rparr>"]) (simp add: same_pages_def)
qed

lemma split_loop_spec:
  assumes "0 < unat index" "unat index \<le> Suc (unat tmp)" "Suc (unat tmp) < MAX_INFO" "length (info mm) = MAX_INFO"
  shows "split_loop mm tmp index = Inr (mm\<lparr>info :=
    take (Suc (unat index)) (info mm) @ drop (unat index) (take (Suc (unat tmp)) (info mm)) @ drop (unat tmp + 2) (info mm)\<rparr>)"
  using assms
proof (induction mm tmp index rule: split_loop.induct)
  case (1 mm tmp index)
  let ?t = "unat tmp" and ?i = "unat index"
  show ?case
  proof (cases "tmp \<ge> index")
    case True
    have ti: "?i \<le> ?t" using True by (simp add: word_le_nat_alt)
    have suc: "unat (tmp + 1) = Suc ?t" using 1(4) by (simp add: unat_add_no_wrap MAX_INFO_def)
    have nz: "tmp \<noteq> 0" using 1(2) ti by auto
    have pre: "unat (tmp - 1) = ?t - 1" using nz by (rule unat_pred_pos)
    have st: "Suc (?t - 1) = ?t" using nz by (simp add: unat_gt_0)
    let ?xs = "(info mm)[Suc ?t := info mm ! ?t]"
    have at: "info_at mm tmp = Inr (info mm ! ?t)" using 1(4) by (simp add: info_at_def)
    have se: "set_info mm (tmp + 1) (info mm ! ?t) = Inr (mm\<lparr>info := ?xs\<rparr>)"
      using 1(4) suc by (simp add: set_info_def)
    have "split_loop (mm\<lparr>info := ?xs\<rparr>) (tmp - 1) index = Inr (mm\<lparr>info :=
      take (Suc ?i) ?xs @ drop ?i (take ?t ?xs) @ drop (Suc ?t) ?xs\<rparr>)"
      using 1(1) [OF True at se] 1(2,4,5) pre st ti by (simp del: take_update_swap)
    moreover have "take (Suc ?i) ?xs = take (Suc ?i) (info mm)" "take ?t ?xs = take ?t (info mm)"
      using ti by simp_all
    moreover have "drop (Suc ?t) ?xs = info mm ! ?t # drop (Suc (Suc ?t)) (info mm)"
      using 1(4,5) by (simp add: drop_update_first)
    moreover have "drop ?i (take (Suc ?t) (info mm)) = drop ?i (take ?t (info mm)) @ [info mm ! ?t]"
      using 1(4,5) ti by (simp add: take_Suc_conv_app_nth)
    ultimately show ?thesis using True at se by (subst split_loop.simps) simp
  next
    case False
    then have e: "?i = Suc ?t" using 1(3) by (simp add: word_le_nat_alt)
    show ?thesis using False 1(4,5) by (subst split_loop.simps) (simp add: e)
  qed
qed

lemma split_mminfo_spec:
  fixes mm :: bootmm and i sp :: u32
  defines "s \<equiv> segs mm ! unat i"
  assumes "0 < unat i" "unat i < unat (count mm)" "unat (count mm) < MAX_INFO" "length (info mm) = MAX_INFO"
    and al: "sp AND NOT (push_bit PAGE_SHIFT 1 - 1) = sp" and sp: "start_pn s < sp" "sp < end_pn s"
  shows "\<exists>mm'. split_mminfo mm i sp = Inr (1, mm') \<and> same_pages mm mm' \<and> length (info mm') = MAX_INFO
    \<and> unat (count mm') = Suc (unat (count mm))
    \<and> segs mm' = take (unat i) (segs mm) @ s\<lparr>end_pn := sp - 1\<rparr> # s\<lparr>start_pn := sp\<rparr> # drop (Suc (unat i)) (segs mm)"
proof -
  let ?k = "unat i" and ?n = "unat (count mm)"
  have s: "info mm ! ?k = s" using assms(3) by (simp add: s_def segs_nth)
  have c0: "count mm \<noteq> 0" using assms(3) by auto
  have c: "unat (count mm - 1) = ?n - 1" "Suc (?n - 1) = ?n" using unat_pred_pos [OF c0] assms(3) by auto
  let ?ys = "take (Suc ?k) (info mm) @ drop ?k (segs mm) @ drop (Suc ?n) (info mm)"
  have l: "split_loop mm (count mm - 1) i = Inr (mm\<lparr>info := ?ys\<rparr>)"
    using split_loop_spec [of i "count mm - 1" mm] assms(2-5) c by (simp add: segs_def add.commute)
  have ly: "length ?ys = MAX_INFO" using assms(3-5) by (simp add: segs_def)
  have ty: "take (Suc ?n) ?ys = take (Suc ?k) (segs mm) @ drop ?k (segs mm)"
    using assms(3-5) by (simp add: segs_def)
  have yk: "?ys ! ?k = s" using assms(3-5) s by (simp add: nth_append)
  have ysk: "?ys ! Suc ?k = s"
    using assms(3-5) s by (simp add: nth_append segs_def)
  have suc: "unat (i + 1) = Suc ?k" "unat (count mm + 1) = Suc ?n"
    using assms(3,4) by (simp_all add: unat_add_no_wrap MAX_INFO_def)
  let ?zs = "?ys[?k := s\<lparr>end_pn := sp - 1\<rparr>, Suc ?k := s\<lparr>start_pn := sp\<rparr>]"
  have "split_mminfo mm i sp = Inr (1, mm\<lparr>info := ?zs, count := count mm + 1\<rparr>)"
    unfolding split_mminfo_def al
    using assms(3-5) sp s l yk ysk suc ly c
    by (simp add: info_at_def set_info_def nth_list_update not_le del: append_assoc)
  moreover have "take (Suc ?n) ?zs = take ?k (segs mm) @ s\<lparr>end_pn := sp - 1\<rparr> # s\<lparr>start_pn := sp\<rparr> # drop (Suc ?k) (segs mm)"
  proof -
    have ls: "length (segs mm) = ?n" using assms(4,5) by (simp add: segs_def)
    have "take (Suc ?k) (segs mm) = take ?k (segs mm) @ [s]" "drop ?k (segs mm) = s # drop (Suc ?k) (segs mm)"
      using ls assms(3) by (simp_all add: s_def take_Suc_conv_app_nth Cons_nth_drop_Suc)
    then have "take (Suc ?n) ?ys = take ?k (segs mm) @ s # s # drop (Suc ?k) (segs mm)"
      using ty by simp
    moreover have "length (take ?k (segs mm)) = ?k" using ls assms(3) by simp
    ultimately show ?thesis by (simp only: take_update_swap) (simp add: list_update_append)
  qed
  ultimately show ?thesis using suc ly by (auto simp: segs_def same_pages_def)
qed

section \<open>Inserting\<close>

text \<open>What \<^verbatim>\<open>insert_mminfo\<close> does to the list of segments, one rule per return value.\<close>

inductive insert_step :: "u32 \<Rightarrow> u32 \<Rightarrow> mm_usage \<Rightarrow> u32 \<Rightarrow> bootmm_info list \<Rightarrow> bootmm_info list \<Rightarrow> bool"
  for start fin ty where
  full: "length xs = MAX_INFO \<Longrightarrow> insert_step start fin ty 0 xs xs"
| new: "length xs < MAX_INFO \<Longrightarrow>
    insert_step start fin ty 1 xs (xs @ [\<lparr>start_pn = start, end_pn = fin, seg_type = ty\<rparr>])"
| grow: "seg_type s = ty \<Longrightarrow> end_pn s = start - 1 \<Longrightarrow> r = 2 \<or> r = 4 \<Longrightarrow>
    insert_step start fin ty r (A @ s # B) (A @ s\<lparr>end_pn := fin\<rparr> # B)"
| front: "seg_type s = ty \<Longrightarrow> start_pn s - 1 = fin \<Longrightarrow>
    insert_step start fin ty 3 (A @ s # B) (A @ s\<lparr>start_pn := start\<rparr> # B)"
| bridge: "seg_type s = ty \<Longrightarrow> seg_type t = ty \<Longrightarrow> end_pn s = start - 1 \<Longrightarrow> start_pn t - 1 = fin \<Longrightarrow>
    insert_step start fin ty 5 (A @ s # t # B) (A @ s\<lparr>end_pn := end_pn t\<rparr> # B)"

lemma segs_split:
  assumes "unat i < unat (count mm)" "table_ok mm"
  shows "segs mm = take (unat i) (segs mm) @ info mm ! unat i # drop (Suc (unat i)) (segs mm)"
  using assms list_split_at [of "unat i" "segs mm"] by (simp add: length_segs table_ok_def segs_nth)

lemma segs_upd_split:
  assumes "unat i < unat (count mm)" "table_ok mm"
  shows "segs (mm\<lparr>info := (info mm)[unat i := v]\<rparr>) = take (unat i) (segs mm) @ v # drop (Suc (unat i)) (segs mm)"
  unfolding segs_upd by (rule upd_conv_take_nth_drop) (use assms in \<open>simp add: length_segs table_ok_def\<close>)

lemma segs_upd_fields:
  assumes "table_ok mm"
  shows "same_pages mm (mm\<lparr>info := (info mm)[k := v]\<rparr>)" "length (info (mm\<lparr>info := (info mm)[k := v]\<rparr>)) = MAX_INFO"
  using assms by (simp_all add: same_pages_def table_ok_def)

text \<open>The loop either leaves the table alone at segment \<open>i\<close> or finishes with one of the steps.\<close>

definition inserted :: "bootmm \<Rightarrow> u32 \<Rightarrow> u32 \<Rightarrow> mm_usage \<Rightarrow> u32 \<times> bootmm \<Rightarrow> bool" where
  "inserted mm start fin ty rm \<longleftrightarrow> (case rm of (r, mm') \<Rightarrow> insert_step start fin ty r (segs mm) (segs mm')
     \<and> same_pages mm mm' \<and> length (info mm') = MAX_INFO \<and> unat (count mm') \<le> MAX_INFO)"

lemma inserted_upd:
  assumes "unat i < unat (count mm)" "table_ok mm"
    "insert_step start fin ty r (segs mm) (take (unat i) (segs mm) @ v # drop (Suc (unat i)) (segs mm))"
  shows "inserted mm start fin ty (r, mm\<lparr>info := (info mm)[unat i := v]\<rparr>)"
  using assms segs_upd_fields [OF assms(2)] by (simp add: inserted_def segs_upd_split) (simp add: table_ok_def)

lemma merge_after_spec:
  assumes "table_ok mm" "unat i < unat (count mm)" "seg_type (info mm ! unat i) = ty"
  shows "merge_after mm start fin ty i = Inr (Inr mm) \<or>
    (\<exists>ret. merge_after mm start fin ty i = Inr (Inl ret) \<and> inserted mm start fin ty ret)"
proof -
  let ?k = "unat i" and ?s = "info mm ! unat i"
  have k: "?k < MAX_INFO" "length (info mm) = MAX_INFO" "unat (count mm) \<le> MAX_INFO"
    using assms(1,2) by (auto simp: table_ok_def)
  have lt: "i < count mm" using assms(2) by (simp add: word_less_nat_alt)
  have suc: "unat (i + 1) = Suc ?k" using lt by (rule unat_Suc_less)
  have sp: "segs mm = take ?k (segs mm) @ ?s # drop (Suc ?k) (segs mm)" using segs_split assms by blast
  have at: "info_at mm i = Inr ?s" using k by (simp add: info_at_def)
  have st: "set_info mm i v = Inr (mm\<lparr>info := (info mm)[?k := v]\<rparr>)" for v using k by (simp add: set_info_def)
  have gr: "inserted mm start fin ty (r, mm\<lparr>info := (info mm)[?k := ?s\<lparr>end_pn := fin\<rparr>]\<rparr>)"
    if "end_pn ?s = start - 1" "r = 2 \<or> r = 4" for r
    by (intro inserted_upd assms, subst sp) (intro insert_step.grow that assms(3))
  consider (no) "end_pn ?s \<noteq> start - 1" | (last) "end_pn ?s = start - 1" "\<not> i + 1 < count mm"
    | (nxt) "end_pn ?s = start - 1" "i + 1 < count mm" by blast
  then show ?thesis
  proof cases
    case no
    then show ?thesis by (simp add: merge_after_def at)
  next
    case last
    then show ?thesis using gr [of 4] by (simp add: merge_after_def at st)
  next
    case nxt
    let ?n = "info mm ! Suc ?k"
    have sk: "Suc ?k < unat (count mm)" using nxt(2) suc by (simp add: word_less_nat_alt)
    have atn: "info_at mm (i + 1) = Inr ?n" using k suc sk by (simp add: info_at_def)
    show ?thesis
    proof (cases "seg_type ?n = ty \<and> start_pn ?n - 1 = fin")
      case False
      then show ?thesis using nxt gr [of 2] by (auto simp: merge_after_def at st atn)
    next
      case True
      let ?m = "mm\<lparr>info := (info mm)[?k := ?s\<lparr>end_pn := end_pn ?n\<rparr>]\<rparr>"
      obtain mm' where mm': "remove_mminfo ?m (i + 1) = Inr (1, mm')"
        "segs mm' = take (Suc ?k) (segs ?m) @ drop (Suc (Suc ?k)) (segs ?m)"
        "same_pages ?m mm'" "length (info mm') = MAX_INFO" "unat (count mm') = unat (count mm) - 1"
        using remove_mminfo_spec [of "i + 1" ?m] suc sk k by auto
      have dn: "drop (Suc ?k) (segs mm) = ?n # drop (Suc (Suc ?k)) (segs mm)"
        using sk k segs_nth [of "i + 1" mm] suc by (metis Cons_nth_drop_Suc length_segs)
      have lt: "length (take ?k (segs mm)) = ?k" using assms(2) k by (simp add: length_segs)
      have "segs mm' = take ?k (segs mm) @ ?s\<lparr>end_pn := end_pn ?n\<rparr> # drop (Suc (Suc ?k)) (segs mm)"
        using mm'(2) lt by (simp add: segs_upd_split [OF assms(2,1)] dn)
      moreover have "insert_step start fin ty 5 (segs mm)
          (take ?k (segs mm) @ ?s\<lparr>end_pn := end_pn ?n\<rparr> # drop (Suc (Suc ?k)) (segs mm))"
        by (subst sp, subst dn) (use True nxt(1) assms(3) in \<open>auto intro: insert_step.bridge\<close>)
      moreover have "same_pages mm mm'" using mm'(3) by (simp add: same_pages_def)
      ultimately show ?thesis using True nxt mm'(1,4,5) k
        by (simp add: merge_after_def at st atn inserted_def)
    qed
  qed
qed

lemma insert_loop_spec:
  assumes "table_ok mm"
  shows "\<exists>ret. insert_loop mm start fin ty i = Inr ret \<and> inserted mm start fin ty ret"
  using assms
proof (induction mm start fin ty i rule: insert_loop.induct)
  case (1 mm start fin ty i)
  have ok: "length (info mm) = MAX_INFO" "unat (count mm) \<le> MAX_INFO" using 1(3) by (auto simp: table_ok_def)
  show ?case
  proof (cases "i < count mm")
    case False
    show ?thesis
    proof (cases "unat (count mm) = MAX_INFO")
      case True
      then have "inserted mm start fin ty (0, mm)"
        using ok by (simp add: inserted_def length_segs insert_step.full)
      then show ?thesis using False True by (subst insert_loop.simps) simp
    next
      case lt: False
      let ?s = "\<lparr>start_pn = start, end_pn = fin, seg_type = ty\<rparr>" and ?c = "unat (count mm)"
      let ?m = "mm\<lparr>info := (info mm)[?c := ?s], count := count mm + 1\<rparr>"
      have c: "?c < MAX_INFO" using lt ok by simp
      then have suc: "unat (count mm + 1) = Suc ?c" by (simp add: unat_add_no_wrap MAX_INFO_def)
      have "segs ?m = segs mm @ [?s]" using c ok suc by (simp add: segs_def take_Suc_conv_app_nth)
      moreover have "length (segs mm) < MAX_INFO" using c ok by (simp add: length_segs)
      ultimately have "inserted mm start fin ty (1, ?m)"
        using ok c suc by (simp add: inserted_def insert_step.new same_pages_def)
      then show ?thesis using False c
        by (subst insert_loop.simps) (auto simp: set_mminfo_def set_info_def)
    qed
  next
    case True
    let ?s = "info mm ! unat i"
    have k: "unat i < unat (count mm)" using True by (simp add: word_less_nat_alt)
    have at: "info_at mm i = Inr ?s" using k ok by (simp add: info_at_def)
    have sp: "segs mm = take (unat i) (segs mm) @ ?s # drop (Suc (unat i)) (segs mm)"
      using segs_split k 1(3) by blast
    show ?thesis
    proof (cases "seg_type ?s = ty")
      case False
      then show ?thesis using 1(1) [OF True at False 1(3)] True at by (subst insert_loop.simps) simp
    next
      case ty: True
      consider "merge_after mm start fin ty i = Inr (Inr mm)"
        | ret where "merge_after mm start fin ty i = Inr (Inl ret)" "inserted mm start fin ty ret"
        using merge_after_spec [OF 1(3) k ty] by blast
      then show ?thesis
      proof cases
        case ma: 1
        show ?thesis
        proof (cases "start_pn ?s - 1 = fin")
          case True': True
          let ?m = "mm\<lparr>info := (info mm)[unat i := ?s\<lparr>start_pn := start\<rparr>]\<rparr>"
          have "inserted mm start fin ty (3, ?m)"
            by (intro inserted_upd k 1(3), subst sp) (intro insert_step.front ty True')
          moreover have "merge_before mm start fin i = Inr (Some ?m)"
            using True' k ok at by (simp add: merge_before_def set_info_def)
          ultimately show ?thesis using True at ty ma by (subst insert_loop.simps) simp
        next
          case False
          then have mb: "merge_before mm start fin i = Inr None" by (simp add: merge_before_def at)
          show ?thesis using 1(2) [OF True at _ ma refl mb refl 1(3)] True at ty ma mb
            by (subst insert_loop.simps) simp
        qed
      next
        case 2
        then show ?thesis using True at ty by (subst insert_loop.simps) simp
      qed
    qed
  qed
qed

lemma pred_plus: "a - 1 = (b :: u32) \<Longrightarrow> unat b < 4294967295 \<Longrightarrow> unat a = Suc (unat b)"
  using unat_add_no_wrap [of b 1] by auto

lemma range_join: "a \<le> Suc b \<Longrightarrow> b \<le> c \<Longrightarrow> {a..c} = {a..b} \<union> {Suc b..(c::nat)}"
  by auto

text \<open>The segment that replaces the touched ones covers exactly them and the new range.\<close>

lemma grow_range:
  assumes "seg_ok s" "end_pn s = start - 1" "start \<le> fin" "unat fin < 4294967295"
  shows "seg_range (s\<lparr>end_pn := fin\<rparr>) = seg_range s \<union> {unat start..unat fin}" "seg_ok (s\<lparr>end_pn := fin\<rparr>)"
proof -
  have "unat start = Suc (unat (end_pn s))" using pred_plus [of start "end_pn s"] assms by (simp add: seg_ok_def)
  moreover have "unat (start_pn s) \<le> unat (end_pn s)" "unat start \<le> unat fin"
    using assms by (simp_all add: seg_ok_def word_le_nat_alt)
  ultimately show "seg_range (s\<lparr>end_pn := fin\<rparr>) = seg_range s \<union> {unat start..unat fin}"
    "seg_ok (s\<lparr>end_pn := fin\<rparr>)"
    using assms(4) range_join [of "unat (start_pn s)" "unat (end_pn s)" "unat fin"]
    by (simp_all add: seg_range_def seg_ok_def word_le_nat_alt)
qed

lemma front_range:
  assumes "seg_ok s" "start_pn s - 1 = fin" "start \<le> fin" "unat fin < 4294967295"
  shows "seg_range (s\<lparr>start_pn := start\<rparr>) = seg_range s \<union> {unat start..unat fin}" "seg_ok (s\<lparr>start_pn := start\<rparr>)"
proof -
  have "unat (start_pn s) = Suc (unat fin)" using pred_plus [of "start_pn s" fin] assms by simp
  moreover have "unat (start_pn s) \<le> unat (end_pn s)" "unat start \<le> unat fin"
    using assms by (simp_all add: seg_ok_def word_le_nat_alt)
  ultimately show "seg_range (s\<lparr>start_pn := start\<rparr>) = seg_range s \<union> {unat start..unat fin}"
    "seg_ok (s\<lparr>start_pn := start\<rparr>)"
    using assms(1) range_join [of "unat start" "unat fin" "unat (end_pn s)"]
    by (auto simp add: seg_range_def seg_ok_def word_le_nat_alt)
qed

lemma bridge_range:
  assumes "seg_ok s" "seg_ok t" "end_pn s = start - 1" "start_pn t - 1 = fin" "start \<le> fin" "unat fin < 4294967295"
  shows "seg_range (s\<lparr>end_pn := end_pn t\<rparr>) = seg_range s \<union> {unat start..unat fin} \<union> seg_range t"
    "seg_ok (s\<lparr>end_pn := end_pn t\<rparr>)"
proof -
  have t: "seg_range (t\<lparr>start_pn := start\<rparr>) = seg_range t \<union> {unat start..unat fin}" "seg_ok (t\<lparr>start_pn := start\<rparr>)"
    using front_range assms by blast+
  have "start \<le> end_pn t" "unat (end_pn t) < 4294967295" using t(2) by (simp_all add: seg_ok_def)
  then have "seg_range (s\<lparr>end_pn := end_pn t\<rparr>) = seg_range s \<union> {unat start..unat (end_pn t)}"
    "seg_ok (s\<lparr>end_pn := end_pn t\<rparr>)" using grow_range assms(1,3) by blast+
  moreover have "{unat start..unat (end_pn t)} = seg_range (t\<lparr>start_pn := start\<rparr>)" by (simp add: seg_range_def)
  ultimately show "seg_range (s\<lparr>end_pn := end_pn t\<rparr>) = seg_range s \<union> {unat start..unat fin} \<union> seg_range t"
    "seg_ok (s\<lparr>end_pn := end_pn t\<rparr>)" using t(1) by auto
qed

lemma insert_step_covered:
  assumes "insert_step start fin ty r xs ys" "\<forall>s\<in>set xs. seg_ok s" "start \<le> fin" "unat fin < 4294967295" "r \<noteq> 0"
  shows "covered ys ty' = covered xs ty' \<union> (if ty' = ty then {unat start..unat fin} else {})"
  using assms
proof cases
  case new
  then show ?thesis by (simp add: seg_range_def)
next
  case (grow s A B)
  then have "seg_range (s\<lparr>end_pn := fin\<rparr>) = seg_range s \<union> {unat start..unat fin}"
    using assms by (intro grow_range) simp_all
  then show ?thesis using grow by auto
next
  case (front s A B)
  then have "seg_range (s\<lparr>start_pn := start\<rparr>) = seg_range s \<union> {unat start..unat fin}"
    using assms by (intro front_range) simp_all
  then show ?thesis using front by auto
next
  case (bridge s t A B)
  then have "seg_range (s\<lparr>end_pn := end_pn t\<rparr>) = seg_range s \<union> {unat start..unat fin} \<union> seg_range t"
    using assms by (intro bridge_range) simp_all
  then show ?thesis using bridge by auto
qed simp

lemma insert_step_ok:
  assumes "insert_step start fin ty r xs ys" "\<forall>s\<in>set xs. seg_ok s" "start \<le> fin" "unat fin < 4294967295"
    "\<forall>s\<in>set xs. seg_range s \<inter> {unat start..unat fin} = {}" "apart xs"
  shows "apart ys" "\<forall>s\<in>set ys. seg_ok s"
  using assms(1)
proof -
  have "apart ys \<and> (\<forall>s\<in>set ys. seg_ok s)" using assms(1)
  proof cases
    case new
    then show ?thesis using assms by (auto simp: seg_range_def seg_ok_def)
  next
    case (grow s A B)
    then have "seg_range (s\<lparr>end_pn := fin\<rparr>) = seg_range s \<union> {unat start..unat fin}" "seg_ok (s\<lparr>end_pn := fin\<rparr>)"
      using assms grow_range [of s start fin] by simp_all
    then show ?thesis using grow assms(2,5,6) by (simp add: Int_Un_distrib Int_Un_distrib2) blast
  next
    case (front s A B)
    then have "seg_range (s\<lparr>start_pn := start\<rparr>) = seg_range s \<union> {unat start..unat fin}"
      "seg_ok (s\<lparr>start_pn := start\<rparr>)"
      using assms front_range [of s fin start] by simp_all
    then show ?thesis using front assms(2,5,6) by (simp add: Int_Un_distrib Int_Un_distrib2) blast
  next
    case (bridge s t A B)
    then have "seg_range (s\<lparr>end_pn := end_pn t\<rparr>) = seg_range s \<union> {unat start..unat fin} \<union> seg_range t"
      "seg_ok (s\<lparr>end_pn := end_pn t\<rparr>)"
      using assms bridge_range [of s t start fin] by simp_all
    then show ?thesis using bridge assms(2,5,6) by (simp add: Int_Un_distrib Int_Un_distrib2) blast
  qed (use assms in simp)
  then show "apart ys" "\<forall>s\<in>set ys. seg_ok s" by simp_all
qed

text \<open>
  C22. Recording a range in a well-formed table either fails because all ten entries are taken
  and leaves the state untouched, or makes the table cover exactly the old addresses plus the
  new range for the given usage, whichever of the merges happens, and, when the range was
  unrecorded, keeps the segments well formed and disjoint. The page map is not touched.
\<close>

theorem insert_mminfo_covers:
  assumes "table_ok mm" "start \<le> fin" "unat fin < 4294967295"
    and "\<forall>s\<in>set (segs mm). seg_range s \<inter> {unat start..unat fin} = {}"
  shows "\<exists>r mm'. insert_mminfo mm start fin ty = Inr (r, mm') \<and> table_ok mm' \<and> same_pages mm mm' \<and>
    (if r = 0 then unat (count mm) = MAX_INFO \<and> segs mm' = segs mm
     else \<forall>ty'. covered (segs mm') ty' = covered (segs mm) ty' \<union> (if ty' = ty then {unat start..unat fin} else {}))"
proof -
  obtain r mm' where r: "insert_mminfo mm start fin ty = Inr (r, mm')" "inserted mm start fin ty (r, mm')"
    using insert_loop_spec [OF assms(1), of start fin ty 0] by (auto simp: insert_mminfo_def)
  have st: "insert_step start fin ty r (segs mm) (segs mm')" using r(2) by (simp add: inserted_def)
  have ok: "\<forall>s\<in>set (segs mm). seg_ok s" "apart (segs mm)" using assms(1) by (simp_all add: table_ok_def)
  have "table_ok mm'" "same_pages mm mm'"
    using insert_step_ok [OF st ok(1) assms(2-4) ok(2)] r(2) by (simp_all add: inserted_def table_ok_def)
  moreover have "if r = 0 then unat (count mm) = MAX_INFO \<and> segs mm' = segs mm
     else \<forall>ty'. covered (segs mm') ty' = covered (segs mm) ty' \<union> (if ty' = ty then {unat start..unat fin} else {})"
    using insert_step_covered [OF st ok(1) assms(2,3)] st assms(1)
    by (auto simp: table_ok_def length_segs elim: insert_step.cases)
  ultimately show ?thesis using r(1) by blast
qed

text \<open>The table used in the witnesses: the kernel, and two dynamic segments one page apart.\<close>

definition demo_table :: bootmm where
  "demo_table = \<lparr>phy_size = 0x8000000, max_pn = 0x8000, s_map = (\<lambda>p. if p < 0x1000 then PAGE_USED else PAGE_FREE),
     map_size = 0x8000, last_alloc = 0xfff, count = 3,
     info = [\<lparr>start_pn = 0, end_pn = 0xffffff, seg_type = MM_KERNEL\<rparr>,
             \<lparr>start_pn = 0x1000000, end_pn = 0x1003fff, seg_type = MM_DYNAMIC\<rparr>,
             \<lparr>start_pn = 0x1005000, end_pn = 0x1005fff, seg_type = MM_DYNAMIC\<rparr>]
       @ replicate 7 \<lparr>start_pn = 0, end_pn = 0, seg_type = MM_KERNEL\<rparr>\<rparr>"

lemma demo_table_segs:
  "segs demo_table = [\<lparr>start_pn = 0, end_pn = 0xffffff, seg_type = MM_KERNEL\<rparr>,
     \<lparr>start_pn = 0x1000000, end_pn = 0x1003fff, seg_type = MM_DYNAMIC\<rparr>,
     \<lparr>start_pn = 0x1005000, end_pn = 0x1005fff, seg_type = MM_DYNAMIC\<rparr>]"
  by (simp add: segs_def demo_table_def)

lemma demo_table_count: "count demo_table = 3"
  by (simp add: demo_table_def)

lemma demo_table_ok: "table_ok demo_table"
  unfolding table_ok_def demo_table_segs by (simp add: demo_table_def MAX_INFO_def seg_ok_def seg_range_def)

theorem insert_mminfo_covers_witness:
  "\<exists>r mm'. insert_mminfo demo_table 0x1004000 0x1004fff MM_DYNAMIC = Inr (r, mm') \<and> table_ok mm' \<and>
    covered (segs mm') MM_DYNAMIC = {16777216..16801791}"
proof -
  have "\<forall>s\<in>set (segs demo_table). seg_range s \<inter> {unat (0x1004000 :: u32)..unat (0x1004fff :: u32)} = {}"
    unfolding demo_table_segs by (simp add: seg_range_def)
  then obtain r mm' where r: "insert_mminfo demo_table 0x1004000 0x1004fff MM_DYNAMIC = Inr (r, mm')" "table_ok mm'"
    "if r = 0 then unat (count demo_table) = MAX_INFO \<and> segs mm' = segs demo_table
     else \<forall>ty'. covered (segs mm') ty' = covered (segs demo_table) ty'
       \<union> (if ty' = MM_DYNAMIC then {unat (0x1004000 :: u32)..unat (0x1004fff :: u32)} else {})"
    using insert_mminfo_covers [OF demo_table_ok, of "0x1004000" "0x1004fff" MM_DYNAMIC] by auto
  then have "covered (segs mm') MM_DYNAMIC = {16777216..16793599} \<union> {16797696..16801791} \<union> {16793600..16797695}"
    by (simp add: demo_table_segs seg_range_def demo_table_count MAX_INFO_def split: if_splits)
  also have "\<dots> = {16777216..16801791}" by auto
  finally show ?thesis using r by blast
qed

section \<open>Releasing\<close>

text \<open>The segment holds the whole range \<open>start, ..., start + sz - 1\<close>.\<close>

definition holds :: "bootmm_info \<Rightarrow> u32 \<Rightarrow> u32 \<Rightarrow> bool" where
  "holds s start sz \<longleftrightarrow> start_pn s \<le> start \<and> 0 < sz \<and> unat start + unat sz \<le> Suc (unat (end_pn s))"

lemma holds_words:
  assumes "holds s start sz" "seg_ok s"
  shows "unat (start + sz - 1) = unat start + unat sz - 1" "unat (start + sz) = unat start + unat sz"
    "start + sz - 1 \<le> end_pn s" "start \<le> end_pn s" "0 < unat sz"
proof -
  have z: "0 < unat sz" using assms by (simp add: holds_def word_less_nat_alt)
  have b: "unat start + unat sz < 4294967296" using assms by (simp add: holds_def seg_ok_def)
  show u: "unat (start + sz) = unat start + unat sz" using b by (rule unat_add_no_wrap)
  then have "start + sz \<noteq> 0" using z by (metis add_gr_0 less_numeral_extra(3) unat_0)
  then show v: "unat (start + sz - 1) = unat start + unat sz - 1"
    using u by (simp add: unat_pred_pos)
  show "start + sz - 1 \<le> end_pn s" "start \<le> end_pn s" "0 < unat sz"
    using assms z by (simp_all add: word_le_nat_alt v holds_def, linarith+)
qed

lemma find_segment_spec:
  assumes "table_ok mm" "unat k < unat (count mm)" "holds (segs mm ! unat k) start sz" "unat i \<le> unat k"
  shows "find_segment mm start sz i = Inr k"
  using assms(4)
proof (induction "unat k - unat i" arbitrary: i)
  case 0
  then have i: "i = k" by (metis diff_is_0_eq le_antisym word_unat_eq_iff)
  let ?s = "info mm ! unat k"
  have s: "segs mm ! unat k = ?s" using assms(2) by (rule segs_nth)
  have ok: "seg_ok ?s" using assms(1,2) s by (metis table_ok_def length_segs nth_mem)
  have "info_at mm k = Inr ?s" "k < count mm"
    using assms(1,2) by (auto simp: info_at_def table_ok_def word_less_nat_alt)
  then show ?case unfolding i using holds_words [of ?s start sz] ok assms(3) s
    by (subst find_segment.simps) (simp add: holds_def leD)
next
  case (Suc d)
  let ?s = "info mm ! unat i" and ?t = "segs mm ! unat k"
  have lt: "unat i < unat k" using Suc(2) by simp
  then have ic: "i < count mm" using assms(2) by (simp add: word_less_nat_alt)
  have suc: "unat (i + 1) = Suc (unat i)" using ic by (rule unat_Suc_less)
  have ls: "length (segs mm) = unat (count mm)" using assms(1) by (auto simp: table_ok_def length_segs)
  have s: "segs mm ! unat i = ?s" using lt assms(2) by (simp add: segs_nth)
  have "apart (segs mm)" using assms(1) by (simp add: table_ok_def)
  then have "seg_range ?s \<inter> seg_range ?t = {}"
    using lt assms(2) ls s unfolding apart_def sorted_wrt_iff_nth_less by metis
  moreover have "seg_ok ?t" using assms(1,2) ls by (auto simp: table_ok_def)
  then have "unat start \<in> seg_range ?t" using assms(3) holds_words [of ?t start sz]
    by (auto simp: holds_def seg_range_def word_le_nat_alt)
  ultimately have "unat start \<notin> seg_range ?s" by blast
  then have "end_pn ?s < start \<or> start < start_pn ?s" by (auto simp: seg_range_def word_le_nat_alt word_less_nat_alt)
  moreover have "info_at mm i = Inr ?s" using assms(1,2) lt by (auto simp: info_at_def table_ok_def)
  moreover have "find_segment mm start sz (i + 1) = Inr k" using Suc suc lt by (intro Suc(1)) auto
  ultimately show ?case using ic by (subst find_segment.simps) auto
qed

definition page_aligned :: "u32 \<Rightarrow> bool" where
  "page_aligned a \<longleftrightarrow> 4096 dvd unat a"

lemma and_not_page_mask: "unat (a AND NOT page_mask) = 4096 * (unat a div 4096)"
proof -
  have "page_mask = mask 12" by (simp add: page_mask_def mask_eq_exp_minus_1 push_bit_eq_mult PAGE_SHIFT_def)
  then show ?thesis using unat_and_not_mask [of a 12] by simp
qed

lemma page_aligned_mask: "a AND NOT page_mask = a \<longleftrightarrow> page_aligned a"
  unfolding word_unat_eq_iff [of "a AND NOT page_mask"] and_not_page_mask page_aligned_def
  by (metis dvd_mult_div_cancel dvd_triv_left)

text \<open>What is left of a segment when the range is cut out of it.\<close>

definition carve :: "bootmm_info \<Rightarrow> u32 \<Rightarrow> u32 \<Rightarrow> bootmm_info list" where
  "carve s start sz =
     (if start_pn s = start then [] else [s\<lparr>end_pn := start - 1\<rparr>]) @
     (if end_pn s = start + sz - 1 then [] else [s\<lparr>start_pn := start + sz\<rparr>])"

lemma carve_spec:
  assumes "seg_ok s" "holds s start sz"
  shows "\<forall>x\<in>set (carve s start sz). seg_ok x \<and> seg_type x = seg_type s \<and> seg_range x \<subseteq> seg_range s"
    and "(\<Union>x\<in>set (carve s start sz). seg_range x) = seg_range s - {unat start..<unat start + unat sz}"
    and "apart (carve s start sz)"
proof -
  note w = holds_words [OF assms(2,1)]
  have l: "unat (start_pn s) \<le> unat start" "unat start + unat sz \<le> Suc (unat (end_pn s))"
    using assms(2) by (simp_all add: holds_def word_le_nat_alt)
  have p: "unat (start - 1) = unat start - 1" "0 < unat start" if "start_pn s \<noteq> start"
  proof -
    have "unat (start_pn s) \<noteq> unat start" using that by (simp add: word_unat_eq_iff)
    then show "0 < unat start" using l by linarith
    then show "unat (start - 1) = unat start - 1" by (intro unat_pred_pos) auto
  qed
  have a: "unat (start_pn s) < unat start" if "start_pn s \<noteq> start" using that l by (metis nat_less_le word_unat_eq_iff)
  have b: "unat start + unat sz \<le> unat (end_pn s)" if "end_pn s \<noteq> start + sz - 1"
  proof -
    have "unat (end_pn s) \<noteq> unat (start + sz - 1)" using that by (simp only: word_unat_eq_iff not_False_eq_True)
    then show ?thesis using w l by linarith
  qed
  have e: "unat (end_pn s) = unat start + unat sz - 1" if "end_pn s = start + sz - 1" using that w by simp
  have m: "unat (end_pn s) < 4294967295" using assms(1) by (simp add: seg_ok_def)
  show "\<forall>x\<in>set (carve s start sz). seg_ok x \<and> seg_type x = seg_type s \<and> seg_range x \<subseteq> seg_range s"
    using a b p l w m by (auto simp: carve_def seg_ok_def seg_range_def word_le_nat_alt)
  show "(\<Union>x\<in>set (carve s start sz). seg_range x) = seg_range s - {unat start..<unat start + unat sz}"
    using a b p l w e by (auto simp: carve_def seg_range_def)
  show "apart (carve s start sz)"
    using a b p l w e by (auto simp: carve_def seg_range_def)
qed

lemma split_aligned:
  assumes "table_ok mm" "0 < unat i" "unat i < unat (count mm)" "unat (count mm) < MAX_INFO" "page_aligned sp"
    "segs mm = A @ s # B" "length A = unat i" "start_pn s < sp" "sp < end_pn s"
  shows "\<exists>mm'. split_mminfo mm i sp = Inr (1, mm') \<and> same_pages mm mm' \<and> table_ok mm'
    \<and> unat (count mm') = Suc (unat (count mm))
    \<and> segs mm' = A @ s\<lparr>end_pn := sp - 1\<rparr> # s\<lparr>start_pn := sp\<rparr> # B"
proof -
  have s: "segs mm ! unat i = s" "take (unat i) (segs mm) = A" "drop (Suc (unat i)) (segs mm) = B"
    using assms(6,7) by (simp_all add: nth_append)
  obtain mm' where mm': "split_mminfo mm i sp = Inr (1, mm')" "same_pages mm mm'" "length (info mm') = MAX_INFO"
    "unat (count mm') = Suc (unat (count mm))"
    "segs mm' = A @ s\<lparr>end_pn := sp - 1\<rparr> # s\<lparr>start_pn := sp\<rparr> # B"
    using split_mminfo_spec [of i mm sp] assms s page_aligned_mask [of sp]
    by (auto simp: table_ok_def page_mask_def)
  have ok: "seg_ok s" "apart (A @ s # B)" "\<forall>x\<in>set (A @ B). seg_ok x" using assms(1,6) by (auto simp: table_ok_def)
  have lt: "unat (start_pn s) < unat sp" "unat sp < unat (end_pn s)"
    using assms(8,9) by (simp_all add: word_less_nat_alt)
  then have "sp \<noteq> 0" by auto
  with lt have p: "unat (sp - 1) = unat sp - 1" "unat (start_pn s) < unat sp" "unat sp < unat (end_pn s)"
    by (simp_all add: unat_pred_pos)
  have "seg_range (s\<lparr>end_pn := sp - 1\<rparr>) \<subseteq> seg_range s" "seg_range (s\<lparr>start_pn := sp\<rparr>) \<subseteq> seg_range s"
    "seg_range (s\<lparr>end_pn := sp - 1\<rparr>) \<inter> seg_range (s\<lparr>start_pn := sp\<rparr>) = {}"
    using p by (auto simp: seg_range_def)
  then have "apart (segs mm')" using ok(2) mm'(5) by simp blast
  moreover have "\<forall>x\<in>set (segs mm'). seg_ok x" using ok p mm'(5) by (auto simp: seg_ok_def word_le_nat_alt)
  ultimately show ?thesis using mm' assms(4) by (auto simp: table_ok_def)
qed

lemma remove_at:
  assumes "table_ok mm" "segs mm = A @ s # B" "length A = unat i"
  shows "\<exists>mm'. remove_mminfo mm i = Inr (1, mm') \<and> segs mm' = A @ B \<and> same_pages mm mm' \<and> table_ok mm'"
proof -
  have "length (segs mm) = unat (count mm)" using assms(1) by (auto simp: table_ok_def length_segs)
  then have "unat i < unat (count mm)" using assms(2,3) by simp
  then obtain mm' where "remove_mminfo mm i = Inr (1, mm')" "segs mm' = A @ B" "same_pages mm mm'"
    "length (info mm') = MAX_INFO" "unat (count mm') = unat (count mm) - 1"
    using remove_mminfo_spec [of i mm] assms by (auto simp: table_ok_def)
  then show ?thesis using assms by (auto simp: table_ok_def)
qed

lemma set_at:
  assumes "table_ok mm" "segs mm = A @ s # B" "length A = unat i" "seg_ok v" "seg_range v \<subseteq> seg_range s"
  shows "\<exists>mm'. set_info mm i v = Inr mm' \<and> segs mm' = A @ v # B \<and> same_pages mm mm' \<and> table_ok mm'"
proof -
  have l: "length (segs mm) = unat (count mm)" using assms(1) by (auto simp: table_ok_def length_segs)
  then have i: "unat i < unat (count mm)" using assms(2,3) by simp
  let ?m = "mm\<lparr>info := (info mm)[unat i := v]\<rparr>"
  have "segs ?m = A @ v # B" using segs_upd_split [OF i assms(1), of v] assms(2,3) by simp
  moreover have "set_info mm i v = Inr ?m" using i assms(1) by (simp add: set_info_def table_ok_def)
  moreover have "apart (A @ v # B)" "\<forall>x\<in>set (A @ v # B). seg_ok x"
    using assms(1,2,4,5) by (simp_all add: table_ok_def) blast
  ultimately show ?thesis using assms(1) by (auto simp: table_ok_def same_pages_def)
qed

lemma release_spec:
  assumes tab: "table_ok b" and sg: "segs b = A @ s # B" "length A = unat k" and h: "holds s start sz"
    and al: "page_aligned start" "page_aligned sz" "4096 dvd Suc (unat (end_pn s))"
    and room: "start_pn s \<noteq> start \<and> end_pn s \<noteq> start + sz - 1 \<longrightarrow> A \<noteq> [] \<and> unat (count b) \<le> 8"
  shows "\<exists>b'. release b k start sz = Inr (None, b') \<and> segs b' = A @ carve s start sz @ B
    \<and> same_pages b b' \<and> table_ok b'"
proof -
  have ls: "length (segs b) = unat (count b)" using tab by (auto simp: table_ok_def length_segs)
  then have k: "unat k < unat (count b)" using sg by simp
  then have kM: "unat k < MAX_INFO" using tab by (auto simp: table_ok_def)
  have s: "info b ! unat k = s" using segs_nth [OF k] sg by (metis nth_append_length)
  then have at: "info_at b k = Inr s" using kM by (simp add: info_at_def)
  have ok: "seg_ok s" using tab sg by (simp add: table_ok_def)
  note w = holds_words [OF h ok]
  have c: "\<forall>x\<in>set (carve s start sz). seg_ok x \<and> seg_range x \<subseteq> seg_range s" using carve_spec(1) [OF ok h] by blast
  consider (whole) "start_pn s = start" "end_pn s = start + sz - 1"
    | (left) "start_pn s = start" "end_pn s \<noteq> start + sz - 1"
    | (right) "start_pn s \<noteq> start" "end_pn s = start + sz - 1"
    | (inside) "start_pn s \<noteq> start" "end_pn s \<noteq> start + sz - 1" by blast
  then show ?thesis
  proof cases
    case whole
    then show ?thesis using remove_at [OF tab sg] by (auto simp: release_def at carve_def)
  next
    case left
    let ?v = "s\<lparr>start_pn := start + sz\<rparr>"
    have v: "set_mminfo b k (start + sz) (end_pn s) (seg_type s) = set_info b k ?v" by (cases s) (simp add: set_mminfo_def)
    show ?thesis using left c v set_at [OF tab sg, of ?v] by (auto simp: release_def at carve_def)
  next
    case right
    let ?v = "s\<lparr>end_pn := start - 1\<rparr>"
    have v: "set_mminfo b k (start_pn s) (start - 1) (seg_type s) = set_info b k ?v" by (cases s) (simp add: set_mminfo_def)
    show ?thesis using right c v set_at [OF tab sg, of ?v] by (auto simp: release_def at carve_def)
  next
    case inside
    have "0 < length A" "unat (count b) \<le> 8" using room inside by simp_all
    then have k0: "0 < unat k" "unat (count b) \<le> 8" using sg(2) by simp_all
    have lt: "start_pn s < start" using inside(1) h by (simp add: holds_def order.not_eq_order_implies_strict)
    have e: "unat (start + sz) \<noteq> unat (end_pn s)" "unat (start + sz) \<noteq> Suc (unat (end_pn s))"
    proof -
      have "4096 dvd unat (start + sz)" using al w(2) by (simp add: page_aligned_def)
      then show "unat (start + sz) \<noteq> unat (end_pn s)" using al(3)
        by (metis Suc_eq_plus1 dvd_add_right_iff nat_dvd_1_iff_1 numeral_eq_one_iff semiring_norm(83))
      show "unat (start + sz) \<noteq> Suc (unat (end_pn s))" using inside(2) w by (metis diff_Suc_1 word_unat_eq_iff)
    qed
    then have gt: "start < start + sz" "start + sz < end_pn s" "start < end_pn s"
      using h w by (auto simp: holds_def word_less_nat_alt)
    have al2: "page_aligned (start + sz)" using al(1,2) w(2) by (simp add: page_aligned_def)
    obtain b1 where b1: "split_mminfo b k start = Inr (1, b1)" "same_pages b b1" "table_ok b1"
      "unat (count b1) = Suc (unat (count b))"
      "segs b1 = (A @ [s\<lparr>end_pn := start - 1\<rparr>]) @ s\<lparr>start_pn := start\<rparr> # B"
      using split_aligned [OF tab k0(1) k _ al(1) sg lt gt(3)] k0(2) by (auto simp: MAX_INFO_def)
    have suc: "unat (k + 1) = Suc (unat k)" using k by (intro unat_Suc_less [of _ "count b"]) (simp add: word_less_nat_alt)
    let ?t = "s\<lparr>start_pn := start\<rparr>"
    obtain b2 where b2: "split_mminfo b1 (k + 1) (start + sz) = Inr (1, b2)" "same_pages b1 b2" "table_ok b2"
      "segs b2 = (A @ [s\<lparr>end_pn := start - 1\<rparr>]) @ ?t\<lparr>end_pn := start + sz - 1\<rparr> # ?t\<lparr>start_pn := start + sz\<rparr> # B"
      using split_aligned [OF b1(3) _ _ _ al2 b1(5), of "k + 1"] suc b1(4) k k0 sg(2) gt by (auto simp: MAX_INFO_def)
    obtain b3 where b3: "remove_mminfo b2 (k + 1) = Inr (1, b3)"
      "segs b3 = (A @ [s\<lparr>end_pn := start - 1\<rparr>]) @ ?t\<lparr>start_pn := start + sz\<rparr> # B" "same_pages b2 b3" "table_ok b3"
      using remove_at [OF b2(3,4), of "k + 1"] suc sg(2) by auto
    have "same_pages b b3" using b1(2) b2(2) b3(3) by (simp add: same_pages_def)
    moreover have "?t\<lparr>start_pn := start + sz\<rparr> = s\<lparr>start_pn := start + sz\<rparr>" by simp
    ultimately show ?thesis using inside b1(1) b2(1) b3 by (simp add: release_def at carve_def)
  qed
qed

lemma covered_carve:
  assumes "apart (A @ s # B)" "seg_ok s" "holds s start sz"
  shows "covered (A @ carve s start sz @ B) ty = covered (A @ s # B) ty - {unat start..<unat start + unat sz}"
    (is "_ = _ - ?R")
proof -
  note c = carve_spec [OF assms(2,3)]
  have "?R \<subseteq> seg_range s" using assms(3) by (auto simp: holds_def seg_range_def word_le_nat_alt)
  then have "seg_range x \<inter> ?R = {}" if "x \<in> set A \<union> set B" for x using assms(1) that by auto
  then have "covered A ty - ?R = covered A ty" "covered B ty - ?R = covered B ty" by (auto simp: covered_def)
  moreover have "{x \<in> set (carve s start sz). seg_type x = ty} = (if seg_type s = ty then set (carve s start sz) else {})"
    using c(1) by auto
  then have "covered (carve s start sz) ty = (if seg_type s = ty then seg_range s - ?R else {})"
    using c(2) by (simp add: covered_def)
  ultimately show ?thesis by auto
qed

lemma unat_page_of: "unat (drop_bit PAGE_SHIFT (a :: u32)) = unat a div 4096"
  unfolding PAGE_SHIFT_def unat_drop_bit_eq drop_bit_eq_div by (simp add: unat_div)

lemma set_maps_pages:
  assumes "page_aligned start" "page_aligned sz" "unat start + unat sz < 4294967296"
  shows "set_maps m (drop_bit PAGE_SHIFT start) (drop_bit PAGE_SHIFT sz) v p =
    (if unat p \<in> {unat start div 4096..<(unat start + unat sz) div 4096} then v else m p)"
proof -
  let ?a = "drop_bit PAGE_SHIFT start" and ?n = "drop_bit PAGE_SHIFT sz"
  have u: "unat ?a = unat start div 4096" "unat ?n = unat sz div 4096" by (rule unat_page_of)+
  have d: "(unat start + unat sz) div 4096 = unat ?a + unat ?n"
    using assms(1) u by (simp add: page_aligned_def div_plus_div_distrib_dvd_left)
  have b: "unat ?a + unat ?n < 4294967296" using assms(3) u by linarith
  have "p - ?a < ?n \<longleftrightarrow> unat ?a \<le> unat p \<and> unat p < unat ?a + unat ?n"
  proof (cases "?a \<le> p")
    case True
    then have "unat (p - ?a) = unat p - unat ?a" by (rule unat_sub)
    then show ?thesis using True by (auto simp: word_less_nat_alt word_le_nat_alt)
  next
    case False
    then have "unat (p - ?a) = unat p + 4294967296 - unat ?a"
      using unat_sub_if' [of p ?a] by (simp add: word_le_nat_alt)
    then show ?thesis using False b by (auto simp: word_less_nat_alt word_le_nat_alt)
  qed
  then show ?thesis by (simp add: set_maps_apply u [symmetric] d)
qed

text \<open>
  C14. Releasing a page-aligned range that lies inside one recorded segment whose end is a page
  end takes exactly that range out of the table, for every usage, keeps the table well formed
  and marks exactly its pages free in the map. When the range touches neither end of the
  segment two entries are needed while it is split, and the segment must not be entry 0.
\<close>

theorem bootmm_free_pages_releases:
  fixes k start sz :: u32
  assumes "table_ok mm" "page_aligned start" "page_aligned sz" "unat k < unat (count mm)"
    and "holds (segs mm ! unat k) start sz" "4096 dvd Suc (unat (end_pn (segs mm ! unat k)))"
    and "start_pn (segs mm ! unat k) \<noteq> start \<and> end_pn (segs mm ! unat k) \<noteq> start + sz - 1
      \<longrightarrow> 0 < unat k \<and> unat (count mm) \<le> 8"
  shows "\<exists>mm'. bootmm_free_pages mm start sz = Inr (None, mm') \<and> table_ok mm' \<and>
    (\<forall>ty. covered (segs mm') ty = covered (segs mm) ty - {unat start..<unat start + unat sz}) \<and>
    (\<forall>p. s_map mm' p = (if unat p \<in> {unat start div 4096..<(unat start + unat sz) div 4096}
       then PAGE_FREE else s_map mm p))"
proof -
  let ?s = "segs mm ! unat k" and ?A = "take (unat k) (segs mm)" and ?B = "drop (Suc (unat k)) (segs mm)"
  let ?b = "mm\<lparr>s_map := set_maps (s_map mm) (drop_bit PAGE_SHIFT start) (drop_bit PAGE_SHIFT sz) PAGE_FREE\<rparr>"
  have l: "length (segs mm) = unat (count mm)" using assms(1) by (auto simp: table_ok_def length_segs)
  have sg: "segs mm = ?A @ ?s # ?B" "length ?A = unat k" using assms(4) l by (simp_all add: id_take_nth_drop)
  have ok: "seg_ok ?s" "apart (?A @ ?s # ?B)" using assms(1,4) l sg by (auto simp: table_ok_def)
  note w = holds_words [OF assms(5) ok(1)]
  have b: "table_ok ?b" "segs ?b = segs mm" "count ?b = count mm" using assms(1) by (simp_all add: table_ok_def segs_def)
  have ne: "?A \<noteq> []" if "0 < unat k" using that sg(2) by (metis length_0_conv less_irrefl)
  obtain b' where b': "release ?b k start sz = Inr (None, b')" "segs b' = ?A @ carve ?s start sz @ ?B"
    "same_pages ?b b'" "table_ok b'"
    using release_spec [OF b(1) _ sg(2) assms(5,2,3,6), of ?B] sg(1) b(2,3) assms(7) ne by auto
  have z: "drop_bit PAGE_SHIFT sz \<noteq> 0"
  proof -
    have "unat (drop_bit PAGE_SHIFT sz) = unat sz div 4096" by (rule unat_page_of)
    moreover have "unat sz div 4096 \<noteq> 0" using assms(3) w(5) by (auto simp: page_aligned_def)
    ultimately show ?thesis by auto
  qed
  have a: "start AND NOT page_mask = start" "sz AND NOT page_mask = sz" using assms(2,3) by (simp_all only: page_aligned_mask)
  have "find_segment mm start sz 0 = Inr k" using find_segment_spec [OF assms(1,4,5), of 0] by simp
  moreover have "k \<noteq> count mm" using assms(4) by auto
  ultimately have "bootmm_free_pages mm start sz = Inr (None, b')"
    unfolding bootmm_free_pages_def a Let_def using z b'(1) by simp
  moreover have "covered (segs b') ty = covered (segs mm) ty - {unat start..<unat start + unat sz}" for ty
    using covered_carve [OF ok(2,1) assms(5)] b'(2) sg(1) by simp
  moreover have "s_map b' p = (if unat p \<in> {unat start div 4096..<(unat start + unat sz) div 4096}
       then PAGE_FREE else s_map mm p)" for p
  proof -
    have "unat start + unat sz < 4294967296" using assms(5) ok(1) by (simp add: holds_def seg_ok_def)
    then show ?thesis using b'(3) set_maps_pages [OF assms(2,3)] by (simp add: same_pages_def)
  qed
  ultimately show ?thesis using b'(4) by blast
qed

theorem bootmm_free_pages_releases_witness:
  "\<exists>mm'. bootmm_free_pages demo_table 0x1001000 0x1000 = Inr (None, mm') \<and>
    covered (segs mm') MM_DYNAMIC = {16777216..16781311} \<union> {16785408..16793599} \<union> {16797696..16801791} \<and>
    s_map mm' 0x1001 = PAGE_FREE"
proof -
  have s: "segs demo_table ! unat (1 :: u32) = \<lparr>start_pn = 0x1000000, end_pn = 0x1003fff, seg_type = MM_DYNAMIC\<rparr>"
    by (simp add: demo_table_segs)
  have "page_aligned 0x1001000" "page_aligned 0x1000" by (simp_all add: page_aligned_def)
  from bootmm_free_pages_releases [OF demo_table_ok this, of 1, unfolded s]
  obtain mm' where "bootmm_free_pages demo_table 0x1001000 0x1000 = Inr (None, mm')"
    "\<forall>ty. covered (segs mm') ty = covered (segs demo_table) ty - {16781312..<16785408}"
    "\<forall>p. s_map mm' p = (if unat p \<in> {4097..<4098} then PAGE_FREE else s_map demo_table p)"
    by (auto simp: demo_table_count holds_def word_le_nat_alt)
  then show ?thesis by (intro exI [of _ mm']) (auto simp: demo_table_segs seg_range_def)
qed

section \<open>The first segment cannot be cut in two\<close>

lemma split_loop_wraps:
  assumes "Suc (unat tmp) < MAX_INFO"
  shows "split_loop mm tmp 0 = Inl Fault"
  using assms
proof (induction "unat tmp" arbitrary: mm tmp)
  case 0
  then have "tmp = 0" by (metis unat_eq_zero)
  moreover have "\<not> unat (- 1 :: u32) < MAX_INFO"
    by (simp add: MAX_INFO_def unsigned_minus_1_eq_mask mask_eq_exp_minus_1)
  then have "split_loop m (- 1) 0 = Inl Fault" for m by (subst split_loop.simps) (simp add: info_at_def)
  ultimately show ?case by (subst split_loop.simps) (simp add: info_at_def set_info_def MAX_INFO_def)
next
  case (Suc n)
  then have nz: "tmp \<noteq> 0" by auto
  then have "split_loop m (tmp - 1) 0 = Inl Fault" for m
    using Suc by (intro Suc(1)) (simp_all add: unat_pred_pos)
  moreover have "unat (tmp + 1) = Suc (unat tmp)"
    using Suc(3) by (simp add: unat_add_no_wrap MAX_INFO_def)
  ultimately show ?case using Suc(3) by (subst split_loop.simps) (simp add: info_at_def set_info_def)
qed

text \<open>
  C39. A range strictly inside segment 0, the kernel's own, cannot be released: the loop that
  opens a gap in the table counts an unsigned index down to 0 and past it, so it runs out of
  the array.
\<close>

theorem bootmm_free_pages_segment_0_faults:
  fixes start sz :: u32
  assumes "table_ok mm" "page_aligned start" "page_aligned sz" "0 < unat (count mm)" "unat (count mm) < MAX_INFO"
    and "holds (segs mm ! 0) start sz" "start_pn (segs mm ! 0) \<noteq> start" "end_pn (segs mm ! 0) \<noteq> start + sz - 1"
  shows "bootmm_free_pages mm start sz = Inl Fault"
proof -
  let ?s = "segs mm ! 0"
  let ?b = "mm\<lparr>s_map := set_maps (s_map mm) (drop_bit PAGE_SHIFT start) (drop_bit PAGE_SHIFT sz) PAGE_FREE\<rparr>"
  have l: "length (segs mm) = unat (count mm)" using assms(1) by (auto simp: table_ok_def length_segs)
  have ok: "seg_ok ?s" using assms(1,4) l by (auto simp: table_ok_def)
  note w = holds_words [OF assms(6) ok]
  have at: "info_at ?b 0 = Inr ?s" using segs_nth [of 0 mm] assms(4) by (simp add: info_at_def MAX_INFO_def)
  have lt: "start_pn ?s < start" using assms(6,7) by (simp add: holds_def order.not_eq_order_implies_strict)
  have c: "Suc (unat (count mm - 1)) < MAX_INFO"
    using assms(4,5) unat_pred [of "count mm"] by auto
  have "unat (end_pn ?s) \<noteq> unat (start + sz - 1)" using assms(8) by (simp only: word_unat_eq_iff not_False_eq_True)
  moreover have "unat start + unat sz \<le> Suc (unat (end_pn ?s))" using assms(6) by (simp add: holds_def)
  ultimately have "unat start < unat (end_pn ?s)" using w by linarith
  then have gt: "start < end_pn ?s" by (simp add: word_less_nat_alt)
  have a: "start AND NOT page_mask = start" "sz AND NOT page_mask = sz" using assms(2,3) by (simp_all only: page_aligned_mask)
  have "split_mminfo ?b 0 start = Inl Fault"
    unfolding split_mminfo_def page_mask_def [symmetric] a Let_def
    using at lt gt assms(5) split_loop_wraps [OF c, of ?b] by (simp add: not_le)
  then have r: "release ?b 0 start sz = Inl Fault" using assms(7,8) at by (simp add: release_def)
  have "find_segment mm start sz 0 = Inr 0" using find_segment_spec [OF assms(1), of 0 start sz 0] assms(4,6) by simp
  moreover have "0 \<noteq> count mm" using assms(4) by auto
  moreover have "unat (drop_bit PAGE_SHIFT sz) \<noteq> 0"
    using assms(3) w(5) unfolding unat_page_of by (auto simp: page_aligned_def)
  ultimately show ?thesis unfolding bootmm_free_pages_def a Let_def using r by auto
qed

theorem bootmm_free_pages_segment_0_faults_witness:
  "bootmm_free_pages demo_table 0x800000 0x1000 = Inl Fault"
proof -
  have "page_aligned 0x800000" "page_aligned 0x1000" by (simp_all add: page_aligned_def)
  from bootmm_free_pages_segment_0_faults [OF demo_table_ok this] show ?thesis
    by (simp add: demo_table_count demo_table_segs MAX_INFO_def holds_def word_le_nat_alt)
qed

end
