(* ===== verification/DList.thy ===== *)
theory DList
  imports Prelude
begin

text \<open>
  The intrusive doubly linked lists of \<^verbatim>\<open>include/zjunix/list.h\<close>. A node is an address; the
  \<^verbatim>\<open>prev\<close> and \<^verbatim>\<open>next\<close> fields of all nodes are one store, so that a node that is
  linked twice, or read after it was unlinked, behaves as it does in memory. \<open>dlist\<close> says
  which list a head stands for, \<open>dlists\<close> the same for several heads in one store. The locale
  \<open>list_interface\<close> states what the clients (the buddy system and the slab caches) rely
  on; it is interpreted on the functions of this file.
\<close>

section \<open>The store and the operations\<close>

datatype 'a ptr = At 'a | LIST_POISON1 | LIST_POISON2

record 'a links =
  prv :: "'a ptr \<Rightarrow> 'a ptr"
  nxt :: "'a ptr \<Rightarrow> 'a ptr"

definition set_prv :: "'a ptr \<Rightarrow> 'a ptr \<Rightarrow> 'a links \<Rightarrow> 'a links" where
  "set_prv p v h = h\<lparr>prv := (prv h)(p := v)\<rparr>"

definition set_nxt :: "'a ptr \<Rightarrow> 'a ptr \<Rightarrow> 'a links \<Rightarrow> 'a links" where
  "set_nxt p v h = h\<lparr>nxt := (nxt h)(p := v)\<rparr>"

definition INIT_LIST_HEAD :: "'a ptr \<Rightarrow> 'a links \<Rightarrow> 'a links" where
  "INIT_LIST_HEAD l h = set_nxt l l (set_prv l l h)"

text \<open>\<^verbatim>\<open>__list_add\<close> and \<^verbatim>\<open>__list_del\<close>, with their four and two stores in order.\<close>

definition raw_list_add :: "'a ptr \<Rightarrow> 'a ptr \<Rightarrow> 'a ptr \<Rightarrow> 'a links \<Rightarrow> 'a links" where
  "raw_list_add new p n h =
     set_prv n new (set_nxt p new (set_prv new p (set_nxt new n h)))"

definition list_add :: "'a ptr \<Rightarrow> 'a ptr \<Rightarrow> 'a links \<Rightarrow> 'a links" where
  "list_add new head h = raw_list_add new head (nxt h head) h"

definition list_add_tail :: "'a ptr \<Rightarrow> 'a ptr \<Rightarrow> 'a links \<Rightarrow> 'a links" where
  "list_add_tail new head h = raw_list_add new (prv h head) head h"

definition raw_list_del :: "'a ptr \<Rightarrow> 'a ptr \<Rightarrow> 'a links \<Rightarrow> 'a links" where
  "raw_list_del p n h = set_prv n p (set_nxt p n h)"

definition list_del :: "'a ptr \<Rightarrow> 'a links \<Rightarrow> 'a links" where
  "list_del entry h =
     (let h1 = raw_list_del (prv h entry) (nxt h entry) h
      in set_nxt entry LIST_POISON2 (set_prv entry LIST_POISON1 h1))"

definition list_del_init :: "'a ptr \<Rightarrow> 'a links \<Rightarrow> 'a links" where
  "list_del_init entry h =
     INIT_LIST_HEAD entry (raw_list_del (prv h entry) (nxt h entry) h)"

definition list_move :: "'a ptr \<Rightarrow> 'a ptr \<Rightarrow> 'a links \<Rightarrow> 'a links" where
  "list_move entry head h =
     list_add entry head (raw_list_del (prv h entry) (nxt h entry) h)"

definition list_move_tail :: "'a ptr \<Rightarrow> 'a ptr \<Rightarrow> 'a links \<Rightarrow> 'a links" where
  "list_move_tail entry head h =
     list_add_tail entry head (raw_list_del (prv h entry) (nxt h entry) h)"

definition list_empty :: "'a ptr \<Rightarrow> 'a links \<Rightarrow> bool" where
  "list_empty head h \<longleftrightarrow> nxt h head = head"

text \<open>
  A store through a poisoned pointer goes to the unmapped addresses \<^verbatim>\<open>0x10101010\<close> and
  \<^verbatim>\<open>0x20202020\<close>: \<^verbatim>\<open>list_del_init\<close> on such an entry traps.
\<close>

definition poisoned :: "'a ptr \<Rightarrow> 'a links \<Rightarrow> bool" where
  "poisoned entry h \<longleftrightarrow>
     prv h entry \<in> {LIST_POISON1, LIST_POISON2} \<or> nxt h entry \<in> {LIST_POISON1, LIST_POISON2}"

text \<open>
  \<^verbatim>\<open>list_for_each (pos, head)\<close>: the nodes visited, in order. A corrupted list may never
  come back to its head, hence the fuel.
\<close>

fun list_for_each :: "nat \<Rightarrow> 'a ptr \<Rightarrow> 'a ptr \<Rightarrow> 'a links \<Rightarrow> 'a ptr list res" where
  "list_for_each fuel head pos h =
     (if pos = head then Inr []
      else case fuel of 0 \<Rightarrow> Inl OutOfFuel
           | Suc fuel \<Rightarrow> rbind (list_for_each fuel head (nxt h pos) h) (\<lambda>xs. Inr (pos # xs)))"

declare list_for_each.simps [simp del]

lemmas list_ops_defs =
  INIT_LIST_HEAD_def raw_list_add_def list_add_def list_add_tail_def raw_list_del_def
  list_del_def list_del_init_def list_empty_def set_prv_def set_nxt_def

section \<open>The list a head stands for\<close>

fun linked :: "'a links \<Rightarrow> 'a ptr list \<Rightarrow> bool" where
  "linked h (x # y # zs) \<longleftrightarrow> nxt h x = y \<and> prv h y = x \<and> linked h (y # zs)"
| "linked h _ \<longleftrightarrow> True"

definition dlist :: "'a links \<Rightarrow> 'a ptr \<Rightarrow> 'a ptr list \<Rightarrow> bool" where
  "dlist h a xs \<longleftrightarrow> distinct (a # xs) \<and> linked h (a # xs @ [a])"

lemma linked_append:
  "linked h (xs @ y # ys) \<longleftrightarrow> linked h (xs @ [y]) \<and> linked h (y # ys)"
  by (induction h xs rule: linked.induct) (cases ys; auto)+

lemma linked_frame_nxt:
  "linked h xs \<Longrightarrow> p \<notin> set (butlast xs) \<Longrightarrow> linked (set_nxt p v h) xs"
  by (induction h xs rule: linked.induct) (auto simp: set_nxt_def split: if_splits)

lemma linked_frame_prv:
  "linked h xs \<Longrightarrow> p \<notin> set (tl xs) \<Longrightarrow> linked (set_prv p v h) xs"
  by (induction h xs rule: linked.induct) (auto simp: set_prv_def)

lemma linked_insert:
  assumes "linked h (us @ [p])" "linked h (n # vs)" "x \<notin> set (us @ p # n # vs)"
    and "p \<notin> set us" "p \<notin> set (butlast (n # vs))" "n \<notin> set (tl (us @ [p]))" "n \<notin> set vs"
  shows "linked (raw_list_add x p n h) (us @ p # x # n # vs)"
proof -
  let ?h = "raw_list_add x p n h"
  have "linked ?h (us @ [p])" "linked ?h (n # vs)"
    using assms unfolding raw_list_add_def
    by (auto intro!: linked_frame_nxt linked_frame_prv 
        dest: in_set_butlastD list.set_sel(2)[rotated] simp del: butlast.simps(2))
  moreover have "nxt ?h p = x" "prv ?h x = p" "nxt ?h x = n" "prv ?h n = x"
    using assms by (auto simp: raw_list_add_def set_nxt_def set_prv_def)
  ultimately show ?thesis
    by (subst linked_append) simp
qed

lemma linked_delete:
  assumes "linked h (us @ [p])" "linked h (n # vs)"
    and "p \<notin> set us" "p \<notin> set (butlast (n # vs))" "n \<notin> set (tl (us @ [p]))" "n \<notin> set vs"
  shows "linked (raw_list_del p n h) (us @ p # n # vs)"
proof -
  let ?h = "raw_list_del p n h"
  have "linked ?h (us @ [p])" "linked ?h (n # vs)"
    using assms unfolding raw_list_del_def
    by (auto intro!: linked_frame_nxt linked_frame_prv simp del: butlast.simps(2))
  moreover have "nxt ?h p = n" "prv ?h n = p"
    by (auto simp: raw_list_del_def set_nxt_def set_prv_def)
  ultimately show ?thesis
    by (subst linked_append) simp
qed

text \<open>What each operation does to the list it works on, and to every list it does not touch.\<close>

lemma dlist_distinct: "dlist h a xs \<Longrightarrow> distinct (a # xs)"
  by (simp add: dlist_def)

lemma dlist_nxt: "dlist h a xs \<Longrightarrow> nxt h a = hd (xs @ [a])"
  by (cases xs) (auto simp: dlist_def)

lemma dlist_prv: "dlist h a xs \<Longrightarrow> prv h a = last (a # xs)"
proof (cases xs rule: rev_cases)
  case (snoc ys y)
  assume "dlist h a xs"
  then have "linked h ((a # ys) @ y # [a])" using snoc by (simp add: dlist_def)
  then have "linked h (y # [a])" by (subst (asm) linked_append) blast
  then show ?thesis using snoc by simp
qed (auto simp: dlist_def)

lemma list_empty_dlist: "dlist h a xs \<Longrightarrow> list_empty a h \<longleftrightarrow> xs = []"
  by (cases xs) (auto simp: list_empty_def dlist_nxt dlist_def)

lemma INIT_LIST_HEAD_dlist [simp]: "dlist (INIT_LIST_HEAD a h) a []"
  by (simp add: dlist_def list_ops_defs)

lemma dlist_frame_nxt: "dlist h a xs \<Longrightarrow> p \<notin> set (a # xs) \<Longrightarrow> dlist (set_nxt p v h) a xs"
  by (auto simp: dlist_def intro!: linked_frame_nxt dest: in_set_butlastD)

lemma dlist_frame_prv: "dlist h a xs \<Longrightarrow> p \<notin> set (a # xs) \<Longrightarrow> dlist (set_prv p v h) a xs"
  by (auto simp: dlist_def intro!: linked_frame_prv)

lemma list_add_dlist:
  assumes "dlist h a xs" and "x \<notin> set (a # xs)"
  shows "dlist (list_add x a h) a (x # xs)"
proof -
  obtain n vs where v: "xs @ [a] = n # vs" by (cases "xs @ [a]") auto
  have bl: "butlast (n # vs) = xs" using butlast_snoc [of xs a] by (simp only: v)
  have st: "set (n # vs) = insert a (set xs)" using arg_cong [OF v, of set] by simp
  have "linked h (a # xs @ [a])" and d: "distinct (a # xs)"
    using assms(1) by (auto simp: dlist_def)
  then have l: "linked h (a # n # vs)" by (simp only: v)
  have "distinct (xs @ [a])" using d by simp
  then have dn: "distinct (n # vs)" by (simp only: v)
  have "linked (raw_list_add x a n h) ([] @ a # x # n # vs)"
    using l dn assms(2) bl d st by (intro linked_insert) auto
  then have "linked (raw_list_add x a n h) (a # (x # xs) @ [a])"
    by (simp add: v)
  moreover have "nxt h a = n" using dlist_nxt [OF assms(1)] by (simp only: v list.sel)
  ultimately show ?thesis using assms d
    by (auto simp: dlist_def list_add_def)
qed

lemma list_add_tail_dlist:
  assumes "dlist h a xs" and "x \<notin> set (a # xs)"
  shows "dlist (list_add_tail x a h) a (xs @ [x])"
proof -
  obtain us p where v: "a # xs = us @ [p]" by (metis list.distinct(1) rev_exhaust)
  have tl: "tl (us @ [p]) = xs" using arg_cong [OF v, of tl] by simp
  have st: "insert p (set us) = insert a (set xs)" using arg_cong [OF v, of set] by simp
  have "linked h (a # xs @ [a])" and d: "distinct (a # xs)"
    using assms(1) by (auto simp: dlist_def)
  then have l: "linked h ((us @ [p]) @ [a])" using v by (metis append_Cons)
  then have l1: "linked h (us @ [p])" by (metis linked_append append.assoc append_Cons append_Nil)
  have dn: "distinct (us @ [p])" using d v by simp
  have "linked (raw_list_add x p a h) (us @ p # x # a # [])"
    using l1 dn assms(2) tl d st by (intro linked_insert) auto
  then have "linked (raw_list_add x p a h) ((a # xs) @ [x, a])"
    using v by (metis append.assoc append_Cons append_Nil)
  moreover have "prv h a = p" using dlist_prv [OF assms(1)] by (simp only: v last_snoc)
  ultimately show ?thesis using assms d
    by (auto simp: dlist_def list_add_tail_def)
qed

lemma raw_list_del_dlist:
  assumes "dlist h a (ys @ x # zs)"
  shows "dlist (raw_list_del (prv h x) (nxt h x) h) a (ys @ zs)"
proof -
  obtain us p where v: "a # ys = us @ [p]" by (metis list.distinct(1) rev_exhaust)
  obtain n vs where w: "zs @ [a] = n # vs" by (cases "zs @ [a]") auto
  have tl: "tl (us @ [p]) = ys" using arg_cong [OF v, of tl] by simp
  have bl: "butlast (n # vs) = zs" using butlast_snoc [of zs a] by (simp only: w)
  have pm: "p \<in> insert a (set ys)" using arg_cong [OF v, of set] by auto
  have nm: "n \<in> insert a (set zs)" using arg_cong [OF w, of set] by auto
  have "linked h ((a # ys) @ x # (zs @ [a]))" and d: "distinct (a # ys @ x # zs)"
    using assms by (auto simp: dlist_def)
  then have l: "linked h ((us @ [p]) @ x # n # vs)" by (simp only: v w)
  then have l1: "linked h ((us @ [p]) @ [x])" and l2: "linked h (x # n # vs)"
    using linked_append [of h "us @ [p]" x "n # vs"] by blast+
  have "linked h (us @ p # [x])" using l1 by simp
  then have l3: "linked h (us @ [p])" and px: "linked h (p # [x])"
    using linked_append [of h us p "[x]"] by blast+
  have pn: "prv h x = p" "nxt h x = n" using px l2 by auto
  have "distinct (a # ys)" using d by auto
  then have dv: "distinct (us @ [p])" by (simp only: v)
  have "distinct (zs @ [a])" using d by auto
  then have dw: "distinct (n # vs)" by (simp only: w)
  have "linked (raw_list_del p n h) (us @ p # n # vs)"
  proof (rule linked_delete)
    show "linked h (n # vs)" using l2 by simp
    show "p \<notin> set (butlast (n # vs))" unfolding bl using pm d by auto
    show "n \<notin> set (tl (us @ [p]))" unfolding tl using nm d by auto
  qed (use l3 dv dw in auto)
  then have "linked (raw_list_del p n h) ((a # ys) @ zs @ [a])"
    using v w by (metis append.assoc append_Cons append_Nil)
  then show ?thesis using d pn by (simp add: dlist_def)
qed

lemma list_del_init_dlist:
  assumes "dlist h a xs" and "x \<in> set xs"
  shows "dlist (list_del_init x h) a (remove1 x xs)" and "dlist (list_del_init x h) x []"
proof -
  obtain ys zs where xs: "xs = ys @ x # zs" "x \<notin> set ys" using assms(2) split_list_first by metis
  have d: "distinct (a # ys @ x # zs)" using assms(1) xs by (simp add: dlist_def)
  have "dlist (raw_list_del (prv h x) (nxt h x) h) a (ys @ zs)"
    using assms(1) xs by (auto intro: raw_list_del_dlist)
  then show "dlist (list_del_init x h) a (remove1 x xs)"
    unfolding list_del_init_def INIT_LIST_HEAD_def using xs d
    by (auto intro!: dlist_frame_nxt dlist_frame_prv simp: remove1_append)
  show "dlist (list_del_init x h) x []" by (simp add: list_del_init_def)
qed

lemma list_del_dlist:
  assumes "dlist h a xs" and "x \<in> set xs"
  shows "dlist (list_del x h) a (remove1 x xs)" and "poisoned x (list_del x h)"
proof -
  obtain ys zs where xs: "xs = ys @ x # zs" "x \<notin> set ys" using assms(2) split_list_first by metis
  have d: "distinct (a # ys @ x # zs)" using assms(1) xs by (simp add: dlist_def)
  have "dlist (raw_list_del (prv h x) (nxt h x) h) a (ys @ zs)"
    using assms(1) xs by (auto intro: raw_list_del_dlist)
  then show "dlist (list_del x h) a (remove1 x xs)"
    unfolding list_del_def Let_def using xs d
    by (auto intro!: dlist_frame_nxt dlist_frame_prv simp: remove1_append)
  show "poisoned x (list_del x h)"
    by (simp add: list_del_def Let_def poisoned_def set_prv_def set_nxt_def)
qed

lemma dlist_neighbours:
  assumes "dlist h a xs" and "x \<in> set xs"
  shows "prv h x \<in> set (a # xs)" and "nxt h x \<in> set (a # xs)"
proof -
  obtain ys zs where xs: "xs = ys @ x # zs" using assms(2) split_list by metis
  obtain us p where v: "a # ys = us @ [p]" by (metis list.distinct(1) rev_exhaust)
  obtain n vs where w: "zs @ [a] = n # vs" by (cases "zs @ [a]") auto
  have "linked h ((a # ys) @ x # (zs @ [a]))" using assms(1) xs by (simp add: dlist_def)
  then have "linked h ((us @ [p]) @ x # n # vs)" by (simp only: v w)
  then have "prv h x = p" "nxt h x = n"
    using linked_append [of h us p "x # n # vs"] by auto
  moreover have "p \<in> set (a # ys)" "n \<in> set (zs @ [a])" by (simp_all only: v w) auto
  ultimately show "prv h x \<in> set (a # xs)" "nxt h x \<in> set (a # xs)" using xs by auto
qed

lemma dlist_frame:
  assumes "dlist h b ys"
  shows "p \<notin> set (b # ys) \<Longrightarrow> dlist (INIT_LIST_HEAD p h) b ys"
    and "\<lbrakk>dlist h a xs; x \<notin> set (b # ys); set (a # xs) \<inter> set (b # ys) = {}\<rbrakk>
      \<Longrightarrow> dlist (list_add x a h) b ys"
    and "\<lbrakk>dlist h a xs; x \<notin> set (b # ys); set (a # xs) \<inter> set (b # ys) = {}\<rbrakk>
      \<Longrightarrow> dlist (list_add_tail x a h) b ys"
    and "\<lbrakk>dlist h a xs; x \<in> set xs; set (a # xs) \<inter> set (b # ys) = {}\<rbrakk>
      \<Longrightarrow> dlist (list_del_init x h) b ys"
    and "\<lbrakk>dlist h a xs; x \<in> set xs; set (a # xs) \<inter> set (b # ys) = {}\<rbrakk>
      \<Longrightarrow> dlist (list_del x h) b ys"
proof -
  show "p \<notin> set (b # ys) \<Longrightarrow> dlist (INIT_LIST_HEAD p h) b ys"
    using assms by (simp add: INIT_LIST_HEAD_def dlist_frame_nxt dlist_frame_prv)
  show "dlist (list_add x a h) b ys"
    if "dlist h a xs" "x \<notin> set (b # ys)" "set (a # xs) \<inter> set (b # ys) = {}"
  proof -
    have "nxt h a \<in> set (a # xs)" using dlist_nxt [OF that(1)] by (cases xs) auto
    then show ?thesis using that assms unfolding list_add_def raw_list_add_def
      by (intro dlist_frame_nxt dlist_frame_prv) auto
  qed
  show "dlist (list_add_tail x a h) b ys"
    if "dlist h a xs" "x \<notin> set (b # ys)" "set (a # xs) \<inter> set (b # ys) = {}"
  proof -
    have "prv h a \<in> set (a # xs)" using dlist_prv [OF that(1)] by auto
    then show ?thesis using that assms unfolding list_add_tail_def raw_list_add_def
      by (intro dlist_frame_nxt dlist_frame_prv) auto
  qed
  show "dlist (list_del_init x h) b ys"
    if "dlist h a xs" "x \<in> set xs" "set (a # xs) \<inter> set (b # ys) = {}"
    using that assms dlist_neighbours [OF that(1,2)]
    unfolding list_del_init_def INIT_LIST_HEAD_def raw_list_del_def
    by (intro dlist_frame_nxt dlist_frame_prv) auto
  show "dlist (list_del x h) b ys"
    if "dlist h a xs" "x \<in> set xs" "set (a # xs) \<inter> set (b # ys) = {}"
    using that assms dlist_neighbours [OF that(1,2)]
    unfolding list_del_def Let_def raw_list_del_def
    by (intro dlist_frame_nxt dlist_frame_prv) auto
qed

section \<open>The interface the clients use\<close>

text \<open>
  \<open>rep h H F\<close>: every head \<open>a\<close> of the set \<open>H\<close> stands for the list \<open>F a\<close>, and no
  node is in two lists. The laws say what each operation does to the whole family, so a client
  need not frame the other lists itself.
\<close>

locale list_interface =
  fixes rep :: "'h \<Rightarrow> 'p set \<Rightarrow> ('p \<Rightarrow> 'p list) \<Rightarrow> bool"
    and init :: "'p \<Rightarrow> 'h \<Rightarrow> 'h"
    and add :: "'p \<Rightarrow> 'p \<Rightarrow> 'h \<Rightarrow> 'h"
    and add_tail :: "'p \<Rightarrow> 'p \<Rightarrow> 'h \<Rightarrow> 'h"
    and del_init :: "'p \<Rightarrow> 'h \<Rightarrow> 'h"
    and empty :: "'p \<Rightarrow> 'h \<Rightarrow> bool"
    and first :: "'h \<Rightarrow> 'p \<Rightarrow> 'p"
  assumes rep_cong: "rep h H F \<Longrightarrow> (\<And>a. a \<in> H \<Longrightarrow> F a = G a) \<Longrightarrow> rep h H G"
    and rep_subset: "rep h H F \<Longrightarrow> J \<subseteq> H \<Longrightarrow> rep h J F"
    and rep_distinct: "rep h H F \<Longrightarrow> a \<in> H \<Longrightarrow> distinct (F a)"
    and rep_head: "rep h H F \<Longrightarrow> a \<in> H \<Longrightarrow> b \<in> H \<Longrightarrow> a \<notin> set (F b)"
    and rep_disjoint: "rep h H F \<Longrightarrow> a \<in> H \<Longrightarrow> b \<in> H \<Longrightarrow> x \<in> set (F a) \<Longrightarrow> x \<in> set (F b) \<Longrightarrow> a = b"
    and rep_init: "rep h H F \<Longrightarrow> a \<notin> H \<Longrightarrow> (\<And>b. b \<in> H \<Longrightarrow> a \<notin> set (F b))
      \<Longrightarrow> rep (init a h) (insert a H) (F(a := []))"
    and rep_add: "rep h H F \<Longrightarrow> a \<in> H \<Longrightarrow> x \<notin> H \<Longrightarrow> (\<And>b. b \<in> H \<Longrightarrow> x \<notin> set (F b))
      \<Longrightarrow> rep (add x a h) H (F(a := x # F a))"
    and rep_add_tail: "rep h H F \<Longrightarrow> a \<in> H \<Longrightarrow> x \<notin> H \<Longrightarrow> (\<And>b. b \<in> H \<Longrightarrow> x \<notin> set (F b))
      \<Longrightarrow> rep (add_tail x a h) H (F(a := F a @ [x]))"
    and rep_del_init_self: "rep h H F \<Longrightarrow> a \<in> H \<Longrightarrow> x \<in> set (F a)
      \<Longrightarrow> rep (del_init x h) (insert x H) (F(a := remove1 x (F a), x := []))"
    and rep_empty: "rep h H F \<Longrightarrow> a \<in> H \<Longrightarrow> empty a h \<longleftrightarrow> F a = []"
    and rep_first: "rep h H F \<Longrightarrow> a \<in> H \<Longrightarrow> F a = x # xs \<Longrightarrow> first h a = x"
begin

lemma rep_del_init:
  assumes "rep h H F" "a \<in> H" "x \<in> set (F a)"
  shows "rep (del_init x h) H (F(a := remove1 x (F a)))"
proof -
  have "x \<notin> H" using rep_head [OF assms(1) _ assms(2)] assms(3) by blast
  then show ?thesis
    by (intro rep_cong [OF rep_subset [OF rep_del_init_self [OF assms], of H]]) auto
qed

lemma rep_pop:
  assumes "rep h H F" "a \<in> H" "F a = x # xs"
  shows "first h a = x" and "rep (del_init x h) H (F(a := xs))"
    and "\<And>b. b \<in> H \<Longrightarrow> x \<notin> set ((F(a := xs)) b)" and "x \<notin> H"
proof -
  show "first h a = x" using assms by (rule rep_first)
  show "rep (del_init x h) H (F(a := xs))" using rep_del_init [OF assms(1,2), of x] assms(3) by simp
  show "x \<notin> set ((F(a := xs)) b)" if "b \<in> H" for b
    using rep_disjoint [OF assms(1,2) that, of x] rep_distinct [OF assms(1,2)] assms(3) by auto
  show "x \<notin> H" using rep_head [OF assms(1) _ assms(2)] assms(3) by auto
qed

lemma rep_move_tail:
  assumes "rep h H F" "a \<in> H" "b \<in> H" "x \<in> set (F a)"
  shows "rep (add_tail x b (del_init x h)) H
    (F(a := remove1 x (F a), b := (F(a := remove1 x (F a))) b @ [x]))"
proof (rule rep_add_tail [OF rep_del_init [OF assms(1,2,4)] assms(3)])
  show "x \<notin> H" using rep_head [OF assms(1) _ assms(2)] assms(4) by blast
  show "x \<notin> set ((F(a := remove1 x (F a))) c)" if "c \<in> H" for c
    using rep_disjoint [OF assms(1,2) that assms(4)] rep_distinct [OF assms(1,2)] by auto
qed

lemma rep_add_del:
  assumes "rep h H F" "a \<in> H" "x \<notin> H" "\<And>b. b \<in> H \<Longrightarrow> x \<notin> set (F b)"
  shows "rep (del_init x (add x a h)) H F"
  using rep_del_init [OF rep_add [OF assms(1-3)], of a x] assms by simp

end

definition dlists :: "'a links \<Rightarrow> 'a ptr set \<Rightarrow> ('a ptr \<Rightarrow> 'a ptr list) \<Rightarrow> bool" where
  "dlists h H F \<longleftrightarrow> (\<forall>a\<in>H. dlist h a (F a)) \<and>
     (\<forall>a\<in>H. \<forall>b\<in>H. a \<noteq> b \<longrightarrow> set (a # F a) \<inter> set (b # F b) = {})"

lemma dlistsD: "dlists h H F \<Longrightarrow> a \<in> H \<Longrightarrow> dlist h a (F a)"
  by (simp add: dlists_def)

lemma dlists_apart:
  "dlists h H F \<Longrightarrow> a \<in> H \<Longrightarrow> b \<in> H \<Longrightarrow> a \<noteq> b \<Longrightarrow> set (a # F a) \<inter> set (b # F b) = {}"
  unfolding dlists_def by blast

lemma dlistsI:
  assumes "\<And>a. a \<in> H \<Longrightarrow> dlist h a (F a)"
    and "\<And>a b x. \<lbrakk>a \<in> H; b \<in> H; a \<noteq> b; x \<in> set (a # F a); x \<in> set (b # F b)\<rbrakk> \<Longrightarrow> False"
  shows "dlists h H F"
  unfolding dlists_def using assms by blast

lemma dlists_upd:
  assumes h: "dlists h H F" "a \<in> H" and g: "dlist g a xs" "set xs \<subseteq> insert x (set (F a))"
    and x: "x \<notin> H" "\<And>b. b \<in> H \<Longrightarrow> b \<noteq> a \<Longrightarrow> x \<notin> set (F b)"
    and fr: "\<And>b. b \<in> H \<Longrightarrow> b \<noteq> a \<Longrightarrow> dlist g b (F b)"
  shows "dlists g H (F(a := xs))"
proof (rule dlistsI)
  show "dlist g b ((F(a := xs)) b)" if "b \<in> H" for b
    using that g(1) fr by (cases "b = a") auto
next
  fix b c y
  assume b: "b \<in> H" and c: "c \<in> H" and ne: "b \<noteq> c"
    and y: "y \<in> set (b # (F(a := xs)) b)" "y \<in> set (c # (F(a := xs)) c)"
  have sub: "set (d # (F(a := xs)) d) \<subseteq> set (d # F d) \<union> (if d = a then {x} else {})" for d
    using g(2) by auto
  have nx: "x \<notin> set (d # F d)" if "d \<in> H" "d \<noteq> a" for d using x that by auto
  have "set (b # F b) \<inter> set (c # F c) = {}" using dlists_apart [OF h(1) b c ne] .
  then show False
    using subsetD [OF sub y(1)] subsetD [OF sub y(2)] nx [OF b] nx [OF c] ne
    by (cases "b = a"; cases "c = a") auto
qed

interpretation dl: list_interface dlists INIT_LIST_HEAD list_add list_add_tail list_del_init list_empty nxt
proof (unfold_locales, goal_cases)
  case (1 h H F G) then show ?case by (simp add: dlists_def)
next
  case (2 h H F J) then show ?case unfolding dlists_def by (meson in_mono)
next
  case (3 h H F a) then show ?case using dlist_distinct [OF dlistsD] by fastforce
next
  case (4 h H F a b)
  then show ?case using dlist_distinct [OF dlistsD [OF 4(1,2)]] dlists_apart [OF 4(1-3)]
    by (cases "a = b") auto
next
  case (5 h H F a b x) then show ?case using dlists_apart [OF 5(1-3)] by auto
next
  case (6 h H F a)
  show ?case
  proof (rule dlistsI)
    show "dlist (INIT_LIST_HEAD a h) b ((F(a := [])) b)" if "b \<in> insert a H" for b
      using that 6 dlistsD [OF 6(1)] by (cases "b = a") (auto intro!: dlist_frame(1))
  next
    fix b c x
    assume "b \<in> insert a H" "c \<in> insert a H" "b \<noteq> c"
      "x \<in> set (b # (F(a := [])) b)" "x \<in> set (c # (F(a := [])) c)"
    then show False using 6 dlists_apart [OF 6(1), of b c]
      by (cases "b = a"; cases "c = a") auto
  qed
next
  case (7 h H F a x)
  have d: "dlist h a (F a)" "x \<notin> set (a # F a)" using dlistsD [OF 7(1,2)] 7 by auto
  have "dlist (list_add x a h) b (F b)" if "b \<in> H" "b \<noteq> a" for b
    using dlistsD [OF 7(1)] dlists_apart [OF 7(1,2)] 7 that
    by (intro dlist_frame(2) [OF _ d(1)]) auto
  with 7 show ?case
    by (intro dlists_upd [OF 7(1,2) list_add_dlist [OF d], where x = x]) auto
next
  case (8 h H F a x)
  have d: "dlist h a (F a)" "x \<notin> set (a # F a)" using dlistsD [OF 8(1,2)] 8 by auto
  have "dlist (list_add_tail x a h) b (F b)" if "b \<in> H" "b \<noteq> a" for b
    using dlistsD [OF 8(1)] dlists_apart [OF 8(1,2)] 8 that
    by (intro dlist_frame(3) [OF _ d(1)]) auto
  with 8 show ?case
    by (intro dlists_upd [OF 8(1,2) list_add_tail_dlist [OF d], where x = x]) auto
next
  case (9 h H F a x)
  let ?h = "list_del_init x h" and ?F = "F(a := remove1 x (F a))"
  have d: "dlist h a (F a)" using dlistsD [OF 9(1,2)] .
  have ap: "b \<in> H \<Longrightarrow> b \<noteq> a \<Longrightarrow> set (a # F a) \<inter> set (b # F b) = {}" for b
    using dlists_apart [OF 9(1,2)] by auto
  have x: "x \<notin> H" "\<And>b. b \<in> H \<Longrightarrow> b \<noteq> a \<Longrightarrow> x \<notin> set (F b)" "x \<notin> set (remove1 x (F a))"
    using 9(3) ap dlist_distinct [OF d] by auto
  have fr: "dlist ?h b (F b)" if "b \<in> H" "b \<noteq> a" for b
    using dlistsD [OF 9(1)] ap that by (intro dlist_frame(4) [OF _ d 9(3)]) auto
  have s: "dlists ?h H ?F"
    by (rule dlists_upd [OF 9(1,2) list_del_init_dlist(1) [OF d 9(3)], where x = x])
      (use fr x in \<open>auto dest: notin_set_remove1\<close>)
  show ?case
  proof (rule dlistsI)
    show "dlist ?h b ((?F(x := [])) b)" if "b \<in> insert x H" for b
      using that dlistsD [OF s] list_del_init_dlist(2) [OF d 9(3)] by (cases "b = x") auto
  next
    fix b c y
    assume "b \<in> insert x H" "c \<in> insert x H" "b \<noteq> c"
      "y \<in> set (b # (?F(x := [])) b)" "y \<in> set (c # (?F(x := [])) c)"
    then show False using x dlists_apart [OF s, of b c]
      by (cases "b = x"; cases "c = x") (auto split: if_splits)
  qed
next
  case (10 h H F a) then show ?case using list_empty_dlist [OF dlistsD] by blast
next
  case (11 h H F a x xs) then show ?case using dlist_nxt [OF dlistsD [OF 11(1,2)]] by simp
qed

section \<open>Traversal\<close>

lemma list_for_each_linked:
  "linked h (xs @ [a]) \<Longrightarrow> a \<notin> set xs \<Longrightarrow> length xs \<le> fuel
    \<Longrightarrow> list_for_each fuel a (hd (xs @ [a])) h = Inr xs"
proof (induction xs arbitrary: fuel)
  case Nil
  then show ?case by (simp add: list_for_each.simps)
next
  case (Cons x xs)
  then obtain k where k: "fuel = Suc k" by (cases fuel) auto
  have "nxt h x = hd (xs @ [a])" and "linked h (xs @ [a])"
    using Cons.prems(1) by (cases "xs @ [a]"; simp)+
  with Cons k show ?case by (auto simp: list_for_each.simps [of "Suc k"])
qed

lemma list_for_each_dlist:
  assumes "dlist h a xs" and "length xs \<le> fuel"
  shows "list_for_each fuel a (nxt h a) h = Inr xs"
proof -
  have "linked h (xs @ [a])" "a \<notin> set xs" using assms(1)
    by (cases "xs @ [a]"; simp add: dlist_def)+
  then show ?thesis using list_for_each_linked assms by (metis dlist_nxt)
qed

text \<open>
  On a well-formed list, \<^verbatim>\<open>list_add\<close> puts the node first, \<^verbatim>\<open>list_add_tail\<close> puts it last
  and \<^verbatim>\<open>list_del_init\<close> of that node gives the old list back, as \<^verbatim>\<open>list_for_each\<close> sees it;
  the removed node is then an empty list of its own.
\<close>

lemma list_ops_traversal:
  assumes "dlist h a xs" and "x \<notin> set (a # xs)" and "length xs < fuel"
  shows "list_for_each fuel a (nxt (list_add x a h) a) (list_add x a h) = Inr (x # xs)
    \<and> list_for_each fuel a (nxt (list_add_tail x a h) a) (list_add_tail x a h) = Inr (xs @ [x])
    \<and> list_for_each fuel a (nxt (list_del_init x (list_add_tail x a h)) a)
         (list_del_init x (list_add_tail x a h)) = Inr xs
    \<and> list_empty x (list_del_init x (list_add_tail x a h))"
proof -
  have t: "dlist (list_add_tail x a h) a (xs @ [x])"
    using assms by (intro list_add_tail_dlist)
  have "remove1 x (xs @ [x]) = xs" using assms(2) by (simp add: remove1_append)
  then have d: "dlist (list_del_init x (list_add_tail x a h)) a xs"
    and e: "dlist (list_del_init x (list_add_tail x a h)) x []"
    using list_del_init_dlist [OF t, of x] by simp_all
  show ?thesis
    using assms list_for_each_dlist [OF list_add_dlist [OF assms(1,2)]]
      list_for_each_dlist [OF t] list_for_each_dlist [OF d] list_empty_dlist [OF e] by simp
qed

lemma list_ops_traversal_witness:
  fixes h :: "nat links"
  defines "h \<equiv> INIT_LIST_HEAD (At 0) \<lparr>prv = (\<lambda>p. p), nxt = (\<lambda>p. p)\<rparr>"
  shows "list_for_each 1 (At 0) (nxt (list_add (At 7) (At 0) h) (At 0)) (list_add (At 7) (At 0) h)
    = Inr [At 7]"
  using list_ops_traversal [of h "At 0" "[]" "At 7" 1] by (simp add: h_def)

end
