(* ===== verification/Lock.thy ===== *)
theory Lock
  imports DList
begin

text \<open>
  Interrupt masking of \<^verbatim>\<open>arch/mips32/intr.c\<close> (the IE bit of the CP0 Status register) and the
  lock of \<^verbatim>\<open>kernel/lock/lock.c\<close>, which the buddy system takes around every change.
\<close>

section \<open>The interrupt enable bit\<close>

text \<open>The CP0 Status register is the only state the two functions read and write.\<close>

definition enable_interrupts :: "u32 \<Rightarrow> u32 \<times> u32" where
  "enable_interrupts status = (status AND 1, status OR 1)"

definition disable_interrupts :: "u32 \<Rightarrow> u32 \<times> u32" where
  "disable_interrupts status = (status AND 1, status AND 0xfffffffe)"

definition interrupts_enabled :: "u32 \<Rightarrow> bool" where
  "interrupts_enabled status \<longleftrightarrow> status AND 1 \<noteq> 0"

section \<open>lock.c\<close>

record lock_t =
  spin :: u32

text \<open>
  The \<^verbatim>\<open>wait\<close> list of the C struct is initialised and never used again; its node lives in the
  caller's list store.
\<close>

definition init_lock :: "'a ptr \<Rightarrow> 'a links \<Rightarrow> lock_t \<times> 'a links" where
  "init_lock wait h = (\<lparr>spin = 0\<rparr>, INIT_LIST_HEAD wait h)"

definition lockup :: "lock_t \<Rightarrow> u32 \<Rightarrow> u32 \<times> lock_t \<times> u32" where
  "lockup lock status =
     (let (old_ie, st) = disable_interrupts status;
          lock' = lock\<lparr>spin := 1\<rparr>
      in (1, lock', if old_ie \<noteq> 0 then snd (enable_interrupts st) else st))"

definition unlock :: "lock_t \<Rightarrow> u32 \<Rightarrow> u32 \<times> lock_t \<times> u32" where
  "unlock lock status =
     (let (old_ie, st) = disable_interrupts status;
          lock' = (if spin lock \<noteq> 0 then lock\<lparr>spin := 0\<rparr> else lock)
      in (1, lock', if old_ie \<noteq> 0 then snd (enable_interrupts st) else st))"

lemma status_mask_restore:
  fixes st :: u32
  shows "st AND 1 \<noteq> 0 \<Longrightarrow> (st AND 0xfffffffe) OR 1 = st"
    and "st AND 1 = 0 \<Longrightarrow> st AND 0xfffffffe = st"
proof -
  have m: "(0xfffffffe :: u32) = NOT 1" by simp
  have b: "bit (st AND 1) n \<longleftrightarrow> bit st 0 \<and> n = 0" for n
    by (auto simp: bit_and_iff bit_1_iff)
  have z: "st AND 1 = 0 \<longleftrightarrow> \<not> bit st 0"
    by (metis b bit_0_eq bot_apply bot_bool_def bit_word_eqI)
  show "(st AND 0xfffffffe) OR 1 = st" if "st AND 1 \<noteq> 0"
    using that z unfolding m
    by (auto intro!: bit_word_eqI simp: bit_or_iff bit_and_iff bit_not_iff bit_1_iff)
  show "st AND 0xfffffffe = st" if "st AND 1 = 0"
    using that z unfolding m
    by (auto intro!: bit_word_eqI gr0I simp: bit_and_iff bit_not_iff bit_1_iff)
qed

lemma lockup_eq [simp]: "lockup lock st = (1, lock\<lparr>spin := 1\<rparr>, st)"
  by (simp add: lockup_def disable_interrupts_def enable_interrupts_def Let_def status_mask_restore)

lemma unlock_eq [simp]:
  "unlock lock st = (1, if spin lock \<noteq> 0 then lock\<lparr>spin := 0\<rparr> else lock, st)"
  by (simp add: unlock_def disable_interrupts_def enable_interrupts_def Let_def status_mask_restore)

end
