(* ===== verification/Tiling.thy ===== *)
theory Tiling
  imports Prelude
begin

text \<open>
  The geometry of a buddy system: blocks of \<open>2 ^ l\<close> page frames, aligned to their size, that
  tile an interval whose ends are multiples of the largest size. The buddy of a block is found
  by flipping one bit; two buddies merge into a block of the next level, and back.
\<close>

section \<open>Flipping a bit\<close>

lemma xor_bit_unset: "\<not> bit w l \<Longrightarrow> w XOR push_bit l 1 = w + push_bit l (1 :: 'a::len word)"
  by (rule disjunctive_add_eq_xor [symmetric]) (auto intro!: bit_word_eqI simp: bit_simps)

lemma xor_bit_set:
  fixes w :: "'a::len word"
  assumes "bit w l"
  shows "w XOR push_bit l 1 = w - push_bit l 1"
proof -
  let ?v = "w XOR push_bit l 1"
  have "\<not> bit ?v l" using assms by (simp add: bit_simps bit_imp_le_length)
  then have "?v XOR push_bit l 1 = ?v + push_bit l 1" by (rule xor_bit_unset)
  moreover have "?v XOR push_bit l 1 = w" by (simp add: xor.assoc)
  ultimately show ?thesis by (simp add: algebra_simps)
qed

lemma and_xor_bit:
  fixes w :: "'a::len word"
  shows "(w XOR push_bit l 1) AND w = (if bit w l then w XOR push_bit l 1 else w)"
  by (rule bit_word_eqI) (auto simp: bit_simps)

lemma bit_iff_odd_unat:
  fixes w :: "'a::len word"
  shows "bit w l \<longleftrightarrow> odd (unat w div 2 ^ l)"
proof -
  have "bit w l \<longleftrightarrow> bit (unat w) l" by (auto simp: bit_unsigned_iff dest: bit_imp_le_length)
  then show ?thesis by (simp add: bit_iff_odd)
qed

section \<open>Blocks\<close>

definition MAX_ORDER :: nat where "MAX_ORDER = 4"

type_synonym block = "u32 \<times> nat"

definition blk :: "block \<Rightarrow> nat set" where
  "blk b = {unat (fst b)..<unat (fst b) + 2 ^ snd b}"

definition fits_in :: "nat \<Rightarrow> nat \<Rightarrow> block \<Rightarrow> bool" where
  "fits_in s e b \<longleftrightarrow> snd b \<le> MAX_ORDER \<and> 2 ^ snd b dvd unat (fst b) \<and> s \<le> unat (fst b) \<and> unat (fst b) + 2 ^ snd b \<le> e"

definition tiling :: "nat \<Rightarrow> nat \<Rightarrow> block set \<Rightarrow> bool" where
  "tiling s e B \<longleftrightarrow> (\<forall>b\<in>B. fits_in s e b) \<and> (\<forall>b\<in>B. \<forall>c\<in>B. b \<noteq> c \<longrightarrow> blk b \<inter> blk c = {})
     \<and> (\<Union>b\<in>B. blk b) = {s..<e}"

lemma tilingD:
  assumes "tiling s e B"
  shows "b \<in> B \<Longrightarrow> fits_in s e b"
    and "b \<in> B \<Longrightarrow> c \<in> B \<Longrightarrow> x \<in> blk b \<Longrightarrow> x \<in> blk c \<Longrightarrow> b = c"
    and "s \<le> x \<Longrightarrow> x < e \<Longrightarrow> \<exists>b\<in>B. x \<in> blk b"
proof -
  show "b \<in> B \<Longrightarrow> fits_in s e b" using assms by (simp add: tiling_def)
  show "b \<in> B \<Longrightarrow> c \<in> B \<Longrightarrow> x \<in> blk b \<Longrightarrow> x \<in> blk c \<Longrightarrow> b = c"
    using assms unfolding tiling_def by blast
  assume "s \<le> x" "x < e"
  then have "x \<in> {s..<e}" by simp
  moreover have "(\<Union>b\<in>B. blk b) = {s..<e}" using assms by (simp add: tiling_def)
  ultimately show "\<exists>b\<in>B. x \<in> blk b" by blast
qed

definition bud :: "u32 \<Rightarrow> nat \<Rightarrow> u32" where
  "bud p l = p XOR push_bit l 1"

lemma aligned_mem_div:
  assumes "(2 :: nat) ^ m dvd q"
  shows "x \<in> {q..<q + 2 ^ m} \<longleftrightarrow> x div 2 ^ m = q div 2 ^ m"
proof -
  obtain c where c: "q = 2 ^ m * c" using assms by blast
  have "x div 2 ^ m = c" if "2 ^ m * c \<le> x" "x < 2 ^ m * c + 2 ^ m"
  proof (rule div_nat_eqI)
    show "2 ^ m * c \<le> x" by (fact that(1))
    show "x < 2 ^ m * Suc c" using that(2) by simp
  qed
  moreover have "2 ^ m * c \<le> x \<and> x < 2 ^ m * c + 2 ^ m" if "x div 2 ^ m = c"
  proof -
    have "2 ^ m * c + x mod 2 ^ m = x" using that mult_div_mod_eq [of "2 ^ m" x] by simp
    moreover have "x mod 2 ^ m < 2 ^ m" by simp
    ultimately show ?thesis by linarith
  qed
  moreover have "q div 2 ^ m = c" using c by simp
  ultimately show ?thesis unfolding atLeastLessThan_iff c by metis
qed

lemma bud_unat:
  assumes "2 ^ l dvd unat p" "unat p + 2 ^ Suc l \<le> 2 ^ 32 \<or> odd (unat p div 2 ^ l)" "l < 32"
  shows "unat (bud p l) = (if odd (unat p div 2 ^ l) then unat p - 2 ^ l else unat p + 2 ^ l)"
proof -
  have u: "unat (push_bit l 1 :: u32) = 2 ^ l" "unat (2 ^ l :: u32) = 2 ^ l"
    using assms(3) by (rule unat_pow2, rule unat_two_power)
  show ?thesis
  proof (cases "odd (unat p div 2 ^ l)")
    case True
    then have "2 ^ l \<le> unat p" by (metis div_less even_zero linorder_not_less)
    then have "unat (push_bit l 1 :: u32) \<le> unat p" by (simp only: u)
    then have "unat (p - push_bit l 1) = unat p - 2 ^ l" by (simp only: unat_sub [unfolded word_le_nat_alt] u)
    moreover have "bud p l = p - push_bit l 1" unfolding bud_def using True by (intro xor_bit_set) (simp add: bit_iff_odd_unat)
    ultimately show ?thesis using True by simp
  next
    case False
    moreover have "(0 :: nat) < 2 ^ l" by simp
    moreover have "unat p + 2 * 2 ^ l \<le> 4294967296" using False assms(2) by simp
    ultimately have "unat p + 2 ^ l < 4294967296" by linarith
    then have "unat (p + push_bit l 1) = unat p + 2 ^ l" by (simp only: unat_add_no_wrap u)
    moreover have "bud p l = p + push_bit l 1" unfolding bud_def using False by (intro xor_bit_unset) (simp add: bit_iff_odd_unat)
    ultimately show ?thesis using False by simp
  qed
qed

section \<open>Buddies in a tiling\<close>

definition page_interval :: "nat \<Rightarrow> nat \<Rightarrow> bool" where
  "page_interval s e \<longleftrightarrow> 2 ^ MAX_ORDER dvd s \<and> 2 ^ MAX_ORDER dvd e \<and> e \<le> 2 ^ 32"

lemma bud_props:
  assumes "page_interval s e" "fits_in s e (p, l)" "l < MAX_ORDER"
  shows "fits_in s e (bud p l, l)" and "bud p l \<noteq> p" and "bud (bud p l) l = p"
    and "unat (bud p l) div 2 ^ Suc l = unat p div 2 ^ Suc l"
    and "unat (bud p l) = (if odd (unat p div 2 ^ l) then unat p - 2 ^ l else unat p + 2 ^ l)"
    and "\<not> odd (unat p div 2 ^ l) \<Longrightarrow> unat p + 2 ^ Suc l \<le> e"
    and "odd (unat p div 2 ^ l) \<Longrightarrow> s + 2 ^ l \<le> unat p"
proof -
  have f: "2 ^ l dvd unat p" "s \<le> unat p" "unat p + 2 ^ l \<le> e" using assms(2) by (simp_all add: fits_in_def)
  have "(2 :: nat) ^ Suc l dvd 2 ^ MAX_ORDER" using assms(3) by (intro le_imp_power_dvd) simp
  then have d: "2 ^ Suc l dvd s" "2 ^ Suc l dvd e" using assms(1) unfolding page_interval_def by (blast intro: dvd_trans)+
  obtain c where c: "unat p = 2 ^ l * c" using f(1) by blast
  obtain a b where ab: "s = 2 ^ l * (2 * a)" "e = 2 ^ l * (2 * b)"
    using d unfolding dvd_def by (metis mult.assoc mult.commute power_Suc)
  have q: "unat p div 2 ^ l = c" using c by simp
  have r: "2 * a \<le> c" "c + 1 \<le> 2 * b"
  proof -
    have "2 ^ l * (2 * a) \<le> 2 ^ l * c" using f(2) c ab by simp
    then show "2 * a \<le> c" by simp
    have "2 ^ l * (c + 1) \<le> 2 ^ l * (2 * b)" using f(3) c ab by (simp add: algebra_simps)
    then show "c + 1 \<le> 2 * b" by (metis mult_le_cancel1 zero_less_numeral zero_less_power)
  qed
  show ev: "\<not> odd (unat p div 2 ^ l) \<Longrightarrow> unat p + 2 ^ Suc l \<le> e"
  proof -
    assume "\<not> odd (unat p div 2 ^ l)"
    then have "even c" using q by simp
    then have "c + 2 \<le> 2 * b" using r(2) by presburger
    then have "2 ^ l * (c + 2) \<le> 2 ^ l * (2 * b)" by (rule mult_le_mono2)
    then show ?thesis using c ab by (simp add: algebra_simps)
  qed
  show od: "odd (unat p div 2 ^ l) \<Longrightarrow> s + 2 ^ l \<le> unat p"
  proof -
    assume "odd (unat p div 2 ^ l)"
    then have "odd c" using q by simp
    then have "2 * a + 1 \<le> c" using r(1) by presburger
    then have "2 ^ l * (2 * a + 1) \<le> 2 ^ l * c" by (rule mult_le_mono2)
    then show ?thesis using c ab by (simp add: algebra_simps)
  qed
  have l32: "l < 32" using assms(3) by (simp add: MAX_ORDER_def)
  show u: "unat (bud p l) = (if odd (unat p div 2 ^ l) then unat p - 2 ^ l else unat p + 2 ^ l)"
    using ev assms(1) unfolding page_interval_def by (intro bud_unat f(1) l32) auto
  show "bud (bud p l) l = p" by (simp add: bud_def xor.assoc)
  have pos: "(0 :: nat) < 2 ^ l" by simp
  have "unat (bud p l) \<noteq> unat p"
  proof (cases "odd (unat p div 2 ^ l)")
    case True
    then have "unat (bud p l) = unat p - 2 ^ l" using u by simp
    then show ?thesis using pos od [OF True] by linarith
  next
    case False
    then show ?thesis using u pos by simp
  qed
  then show "bud p l \<noteq> p" by auto
  have v: "unat (bud p l) = 2 ^ l * (if odd c then c - 1 else c + 1)"
    using u c q by (auto simp: algebra_simps)
  show "unat (bud p l) div 2 ^ Suc l = unat p div 2 ^ Suc l"
  proof -
    have "2 ^ l * x div 2 ^ Suc l = x div 2" for x :: nat
      by (metis div_mult_mult1 power_Suc2 power_not_zero zero_neq_numeral)
    moreover have "(if odd c then c - 1 else c + 1) div 2 = c div 2" by (auto elim!: evenE oddE)
    ultimately show ?thesis by (simp only: v c)
  qed
  show "fits_in s e (bud p l, l)"
  proof -
    have "2 ^ l dvd unat (bud p l)" unfolding v by simp
    moreover have "s \<le> unat (bud p l) \<and> unat (bud p l) + 2 ^ l \<le> e"
      using u f(2,3) od ev by (cases "odd (unat p div 2 ^ l)") simp_all
    ultimately show ?thesis using assms(3) by (simp add: fits_in_def)
  qed
qed

lemma mem_blk: "fits_in s e (p, l) \<Longrightarrow> x \<in> blk (p, l) \<longleftrightarrow> x div 2 ^ l = unat p div 2 ^ l"
  using aligned_mem_div [of l "unat p" x] by (simp add: blk_def fits_in_def)

lemma div_mono_level: "x div 2 ^ l = y div 2 ^ l \<Longrightarrow> l \<le> m \<Longrightarrow> x div 2 ^ m = y div (2 :: nat) ^ m"
  by (metis div_mult2_eq le_add_diff_inverse power_add)

text \<open>The buddy of a block of the tiling starts a block of the same size or smaller.\<close>

lemma buddy_starts_block:
  assumes "tiling s e B" "(p, l) \<in> B" "l < MAX_ORDER" "page_interval s e"
  shows "\<exists>m\<le>l. (bud p l, m) \<in> B"
proof -
  have f: "fits_in s e (p, l)" using assms(1,2) by (rule tilingD(1))
  note b = bud_props [OF assms(4) f assms(3)]
  let ?x = "unat (bud p l)"
  have "s \<le> ?x" "?x < e" using b(1) by (auto simp: fits_in_def intro: less_le_trans [of _ "?x + 2 ^ l"])
  then obtain q m where q: "(q, m) \<in> B" "?x \<in> blk (q, m)" using tilingD(3) [OF assms(1), of ?x] by fast
  have fq: "fits_in s e (q, m)" using assms(1) q(1) by (rule tilingD(1))
  have xq: "?x div 2 ^ m = unat q div 2 ^ m" using mem_blk [OF fq] q(2) by simp
  have "m \<le> l"
  proof (rule ccontr)
    assume "\<not> m \<le> l"
    then have "unat p div 2 ^ m = unat q div 2 ^ m" using div_mono_level [OF b(4)] xq by simp
    then have "unat p \<in> blk (q, m)" using mem_blk [OF fq] by simp
    moreover have "unat p \<in> blk (p, l)" by (simp add: blk_def)
    ultimately have "(p, l) = (q, m)" using tilingD(2) [OF assms(1,2) q(1)] by blast
    then show False using \<open>\<not> m \<le> l\<close> by simp
  qed
  have "2 ^ l dvd ?x" using b(1) by (simp add: fits_in_def)
  then have "2 ^ m dvd ?x" using \<open>m \<le> l\<close> by (meson dvd_trans le_imp_power_dvd)
  moreover have "2 ^ m dvd unat q" using fq by (simp add: fits_in_def)
  ultimately have "?x = unat q" using xq by (metis dvd_mult_div_cancel)
  then have "bud p l = q" by (simp add: word_unat_eq_iff)
  then show ?thesis using \<open>m \<le> l\<close> q(1) by blast
qed

definition low :: "u32 \<Rightarrow> nat \<Rightarrow> u32" where
  "low p l = (if odd (unat p div 2 ^ l) then bud p l else p)"

lemma buddy_join:
  assumes "page_interval s e" "fits_in s e (p, l)" "l < MAX_ORDER"
  shows "fits_in s e (low p l, Suc l)" "blk (low p l, Suc l) = blk (p, l) \<union> blk (bud p l, l)"
    "blk (p, l) \<inter> blk (bud p l, l) = {}"
proof -
  note b = bud_props [OF assms]
  have f: "2 ^ l dvd unat p" "s \<le> unat p" "unat p + 2 ^ l \<le> e" using assms(2) by (simp_all add: fits_in_def)
  have u: "unat (low p l) = (if odd (unat p div 2 ^ l) then unat p - 2 ^ l else unat p)"
    using b(5) by (simp add: low_def)
  have le: "2 ^ l \<le> unat p" if "odd (unat p div 2 ^ l)" using b(7) [OF that] by simp
  have "2 ^ Suc l dvd unat (low p l)"
  proof -
    obtain c where c: "unat p = 2 ^ l * c" using f(1) by blast
    then have "unat (low p l) = 2 ^ l * (if odd c then c - 1 else c)" using u by (auto simp: algebra_simps)
    moreover have "even (if odd c then c - 1 else c)" by simp
    ultimately show ?thesis by (auto simp: mult_dvd_mono power_Suc2 simp del: power_Suc)
  qed
  then show "fits_in s e (low p l, Suc l)" using u b(6,7) f assms(3) by (auto simp: fits_in_def)
  show "blk (low p l, Suc l) = blk (p, l) \<union> blk (bud p l, l)"
    using u b(5) le by (auto simp: blk_def)
  show "blk (p, l) \<inter> blk (bud p l, l) = {}" using b(5) le by (auto simp: blk_def)
qed

lemma tiling_merge:
  assumes "tiling s e B" "(p, l) \<in> B" "(bud p l, l) \<in> B" "l < MAX_ORDER" "page_interval s e"
  shows "tiling s e (insert (low p l, Suc l) (B - {(p, l), (bud p l, l)}))"
proof -
  have f: "fits_in s e (p, l)" using assms(1,2) by (rule tilingD(1))
  note j = buddy_join [OF assms(5) f assms(4)]
  let ?C = "B - {(p, l), (bud p l, l)}"
  have "blk c \<inter> blk (low p l, Suc l) = {}" if "c \<in> ?C" for c
    unfolding j(2) using tilingD(2) [OF assms(1)] assms(2,3) that by blast
  moreover have "B = insert (p, l) (insert (bud p l, l) ?C)" using assms(2,3) by blast
  then have "(\<Union>b\<in>B. blk b) = (\<Union>b\<in>insert (low p l, Suc l) ?C. blk b)" using j(2)
    by (metis (no_types, lifting) UN_insert sup_assoc)
  ultimately show ?thesis using assms(1) j(1) unfolding tiling_def by (auto simp: Int_commute)
qed

lemma tiling_split:
  assumes "tiling s e B" "(p, Suc l) \<in> B" "page_interval s e"
  shows "tiling s e (insert (p, l) (insert (p + push_bit l 1, l) (B - {(p, Suc l)})))"
    and "p + push_bit l 1 = bud p l" "low p l = p" "fits_in s e (p, l)" "l < MAX_ORDER"
proof -
  have f: "fits_in s e (p, Suc l)" using assms(1,2) by (rule tilingD(1))
  then have l: "l < MAX_ORDER" by (simp add: fits_in_def)
  have d: "2 ^ Suc l dvd unat p" using f by (simp add: fits_in_def)
  then obtain c where c: "unat p = 2 ^ Suc l * c" by blast
  then have "unat p = 2 ^ l * (2 * c)" by simp
  then have ev: "even (unat p div 2 ^ l)" by (metis dvd_triv_left nonzero_mult_div_cancel_left power_not_zero zero_neq_numeral)
  have fl: "fits_in s e (p, l)" using f c by (auto simp: fits_in_def)
  have bu: "p + push_bit l 1 = bud p l" using ev by (simp only: bud_def xor_bit_unset bit_iff_odd_unat not_not)
  have lo: "low p l = p" using ev by (simp add: low_def)
  show "p + push_bit l 1 = bud p l" "low p l = p" "fits_in s e (p, l)" "l < MAX_ORDER" by fact+
  note j = buddy_join [OF assms(3) fl l, unfolded lo]
  have fb: "fits_in s e (bud p l, l)" using bud_props(1) [OF assms(3) fl l] .
  let ?C = "B - {(p, Suc l)}"
  have "blk c \<inter> blk (p, Suc l) = {}" if "c \<in> ?C" for c
    using tilingD(2) [OF assms(1)] assms(2) that by blast
  then have ap: "blk c \<inter> blk (p, l) = {}" "blk c \<inter> blk (bud p l, l) = {}" if "c \<in> ?C" for c
    using that unfolding j(2) by blast+
  have "B = insert (p, Suc l) ?C" using assms(2) by blast
  then have "(\<Union>b\<in>B. blk b) = (\<Union>b\<in>insert (p, l) (insert (bud p l, l) ?C). blk b)" using j(2)
    by (metis (no_types, lifting) UN_insert sup_assoc)
  then show "tiling s e (insert (p, l) (insert (p + push_bit l 1, l) ?C))"
    using assms(1) fl fb ap j(3) unfolding tiling_def bu by (auto simp: Int_commute)
qed

end
