(* ===== verification/Buddy.thy ===== *)
theory Buddy
  imports Tiling BootMM Lock
begin

text \<open>
  The buddy system, \<^verbatim>\<open>kernel/mm/buddy.c\<close>: the \<^verbatim>\<open>pages\<close> array with one descriptor per page frame and
  one free list per block size \<open>2 ^ 0, ..., 2 ^ MAX_BUDDY_ORDER\<close>. A \<^verbatim>\<open>struct page *\<close> is its
  index in the array; the \<^verbatim>\<open>list\<close> node of each descriptor and the list heads live in one
  store of links (\<open>DList\<close>). The state \<open>kmem\<close> is shared with the slab caches.
\<close>

section \<open>Data\<close>

definition MAX_BUDDY_ORDER :: u32 where "MAX_BUDDY_ORDER = 4"

record page =
  flag :: u32
  reference :: u32
  virtual :: u32
  bplevel :: u32
  slabp :: u32
  end_ptr :: u32
  nr_objs :: u32
  max_object :: u32
  freeobj :: u32

text \<open>The addresses of the \<^verbatim>\<open>struct list_head\<close>s of memory management.\<close>

datatype node = PageList u32 | FreeHead u32 | LockWait | PartialHead nat | FullHead nat

record buddy_sys =
  buddy_start_pn :: u32
  buddy_end_pn :: u32
  start_page :: u32
  buddy_lock :: lock_t
  free_count :: "u32 list"  \<comment> \<open>\<^verbatim>\<open>freelist[i].count\<close>; \<^verbatim>\<open>freelist[i].free_head\<close> is the node \<open>FreeHead i\<close>\<close>

record kmem =
  npages :: u32  \<comment> \<open>entries of the \<^verbatim>\<open>pages\<close> array\<close>
  pages :: "u32 \<Rightarrow> page"
  lists :: "node links"
  buddy :: buddy_sys
  status :: u32  \<comment> \<open>CP0 Status\<close>

definition upd_page :: "u32 \<Rightarrow> (page \<Rightarrow> page) \<Rightarrow> kmem \<Rightarrow> kmem" where
  "upd_page p f k = k\<lparr>pages := (pages k)(p := f (pages k p))\<rparr>"

definition upd_lists :: "(node links \<Rightarrow> node links) \<Rightarrow> kmem \<Rightarrow> kmem" where
  "upd_lists f k = k\<lparr>lists := f (lists k)\<rparr>"

text \<open>A descriptor outside the array is a fault, and so is unlinking a poisoned node.\<close>

definition page_at :: "kmem \<Rightarrow> u32 \<Rightarrow> page res" where
  "page_at k p = (if p < npages k then Inr (pages k p) else Inl Fault)"

definition unlink_page :: "u32 \<Rightarrow> kmem \<Rightarrow> kmem res" where
  "unlink_page p k =
     (if poisoned (At (PageList p)) (lists k) then Inl Fault
      else Inr (upd_lists (list_del_init (At (PageList p))) k))"

definition set_bplevel :: "u32 \<Rightarrow> u32 \<Rightarrow> kmem \<Rightarrow> kmem" where
  "set_bplevel p l = upd_page p (\<lambda>pg. pg\<lparr>bplevel := l\<rparr>)"

definition is_same_bplevel :: "page \<Rightarrow> u32 \<Rightarrow> bool" where
  "is_same_bplevel pg l \<longleftrightarrow> bplevel pg = l"

text \<open>\<^verbatim>\<open>freelist[l].count += d\<close>\<close>

definition add_count :: "u32 \<Rightarrow> u32 \<Rightarrow> kmem \<Rightarrow> kmem res" where
  "add_count l d k = rbind (rd (free_count (buddy k)) l) (\<lambda>c.
     rbind (wr (free_count (buddy k)) l (c + d)) (\<lambda>cs. Inr (k\<lparr>buddy := (buddy k)\<lparr>free_count := cs\<rparr>\<rparr>)))"

definition lock_buddy :: "kmem \<Rightarrow> kmem" where
  "lock_buddy k = (let (r, l, st) = lockup (buddy_lock (buddy k)) (status k)
     in k\<lparr>buddy := (buddy k)\<lparr>buddy_lock := l\<rparr>, status := st\<rparr>)"

definition unlock_buddy :: "kmem \<Rightarrow> kmem" where
  "unlock_buddy k = (let (r, l, st) = unlock (buddy_lock (buddy k)) (status k)
     in k\<lparr>buddy := (buddy k)\<lparr>buddy_lock := l\<rparr>, status := st\<rparr>)"

section \<open>Releasing a block\<close>

text \<open>The merging loop of \<^verbatim>\<open>__free_pages\<close>: it returns the first page and the level of the merged block.\<close>

function merge_loop :: "kmem \<Rightarrow> u32 \<Rightarrow> u32 \<Rightarrow> u32 \<Rightarrow> (kmem \<times> u32 \<times> u32) res" where
  "merge_loop k page page_id level =
     (if level < MAX_BUDDY_ORDER then
        let buddy_id = page_id XOR push_bit (unat level) 1;
            buddy_page = page + (buddy_id - page_id)
        in rbind (page_at k buddy_page) (\<lambda>bp.
             if \<not> is_same_bplevel bp level then Inr (k, page, level)
             else if flag bp = 1 then Inr (k, page, level)
             else rbind (unlink_page buddy_page k) (\<lambda>k1.
                  rbind (add_count level (-1) k1) (\<lambda>k2.
                    let k3 = set_bplevel buddy_page (-1) k2;
                        combined_id = buddy_id AND page_id
                    in merge_loop k3 (page + (combined_id - page_id)) combined_id (level + 1))))
      else Inr (k, page, level))"
  by pat_completeness auto
termination
  by (relation "measure (\<lambda>(k, page, page_id, level). unat MAX_BUDDY_ORDER - unat level)")
    (auto intro: count_up_measure)

declare merge_loop.simps [simp del]

definition raw_free_pages :: "u32 \<Rightarrow> u32 \<Rightarrow> kmem \<Rightarrow> kmem res" where
  "raw_free_pages page level k =
     (let k1 = lock_buddy (upd_page page (\<lambda>pg. pg\<lparr>flag := 0, reference := 0\<rparr>) k) in
      rbind (merge_loop k1 page (page - start_page (buddy k1)) level) (\<lambda>(k2, page, level).
        let k3 = set_bplevel page level k2;
            k4 = upd_lists (list_add (At (PageList page)) (At (FreeHead level))) k3
        in rbind (add_count level 1 k4) (\<lambda>k5. Inr (unlock_buddy k5))))"

section \<open>Taking a block\<close>

text \<open>
  The inner loop of \<^verbatim>\<open>__alloc_pages\<close>, from the order of the block found down to the one asked for:
  the upper half goes to the free list of its size.
\<close>

function halve_loop :: "kmem \<Rightarrow> u32 \<Rightarrow> u32 \<Rightarrow> u32 \<Rightarrow> u32 \<Rightarrow> kmem res" where
  "halve_loop k page sz current_order level =
     (if current_order > level then
        let order = current_order - 1; sz = drop_bit 1 sz; buddy_page = page + sz;
            k1 = upd_lists (list_add (At (PageList buddy_page)) (At (FreeHead order))) k
        in rbind (add_count order 1 k1) (\<lambda>k2. halve_loop (set_bplevel buddy_page order k2) page sz order level)
      else Inr k)"
  by pat_completeness auto
termination
proof (relation "measure (\<lambda>(k, page, sz, current_order, level). unat current_order)", goal_cases)
  case (2 k page sz current_order level)
  then have "0 < unat current_order" by (auto simp: word_less_nat_alt)
  then show ?case using 2 by (simp add: unat_pred)
qed simp

text \<open>The outer loop: the first order with a free block. \<open>None\<close> is the null pointer.\<close>

function order_loop :: "kmem \<Rightarrow> u32 \<Rightarrow> u32 \<Rightarrow> (u32 option \<times> kmem) res" where
  "order_loop k level current_order =
     (if current_order \<le> MAX_BUDDY_ORDER then
        if list_empty (At (FreeHead current_order)) (lists k) then order_loop k level (current_order + 1)
        else case nxt (lists k) (At (FreeHead current_order)) of
          At (PageList page) \<Rightarrow>
            rbind (unlink_page page k) (\<lambda>k1.
              let k2 = upd_page page (\<lambda>pg. pg\<lparr>flag := 1\<rparr>) (set_bplevel page level k1)
              in rbind (add_count current_order (-1) k2) (\<lambda>k3.
                 rbind (halve_loop k3 page (push_bit (unat current_order) 1) current_order level) (\<lambda>k4.
                   Inr (Some page, k4))))
        | _ \<Rightarrow> Inl Fault
      else Inr (None, k))"
  by pat_completeness auto
termination
proof (relation "measure (\<lambda>(k, level, order). Suc (unat MAX_BUDDY_ORDER) - unat order)", goal_cases)
  case (2 k level order)
  then have "unat order \<le> 4" by (simp add: word_le_nat_alt MAX_BUDDY_ORDER_def)
  then show ?case by (simp add: MAX_BUDDY_ORDER_def unat_add_no_wrap)
qed simp

declare halve_loop.simps [simp del] order_loop.simps [simp del]

definition raw_alloc_pages :: "u32 \<Rightarrow> kmem \<Rightarrow> (u32 option \<times> kmem) res" where
  "raw_alloc_pages level k =
     rbind (order_loop (lock_buddy k) level level) (\<lambda>(r, k'). Inr (r, unlock_buddy k'))"

section \<open>The functions other parts of the kernel call\<close>

definition alloc_pages :: "u32 \<Rightarrow> kmem \<Rightarrow> (u32 \<times> kmem) res" where
  "alloc_pages level k = rbind (raw_alloc_pages level k) (\<lambda>(r, k').
     case r of None \<Rightarrow> Inr (0, k') | Some page \<Rightarrow> Inr (push_bit PAGE_SHIFT page, k'))"

definition free_pages :: "u32 \<Rightarrow> u32 \<Rightarrow> kmem \<Rightarrow> kmem res" where
  "free_pages addr level k =
     (let addr = addr AND 0x7fffffff; p = drop_bit PAGE_SHIFT addr in
      rbind (page_at k p) (\<lambda>pg.
        if flag pg = 1 then if bplevel pg = level then raw_free_pages p level k else Inr k
        else Inr k))"

section \<open>Initialisation\<close>

definition fresh_page :: page where
  "fresh_page = \<lparr>flag = 0, reference = 0, virtual = -1, bplevel = -1, slabp = 0, end_ptr = 0,
     nr_objs = 0, max_object = 0, freeobj = 0\<rparr>"

function init_pages :: "kmem \<Rightarrow> u32 \<Rightarrow> u32 \<Rightarrow> kmem" where
  "init_pages k i fin =
     (if i < fin
      then init_pages (upd_lists (INIT_LIST_HEAD (At (PageList i))) (upd_page i (\<lambda>_. fresh_page) k)) (i + 1) fin
      else k)"
  by pat_completeness auto
termination
  by (relation "measure (\<lambda>(k, i, e). unat e - unat i)") (auto intro: count_up_measure)

text \<open>The end of the last segment in use, a byte address.\<close>

definition kernel_end :: "bootmm \<Rightarrow> u32" where
  "kernel_end bmm = fold (\<lambda>s m. if end_pn s > m then end_pn s else m) (take (unat (count bmm)) (info bmm)) 0"

definition order_mask :: u32 where
  "order_mask = push_bit (unat MAX_BUDDY_ORDER) 1 - 1"

definition buddy_start :: "bootmm \<Rightarrow> u32" where
  "buddy_start bmm = (drop_bit PAGE_SHIFT (kernel_end bmm) + order_mask) AND NOT order_mask"

function free_all :: "kmem \<Rightarrow> u32 \<Rightarrow> u32 \<Rightarrow> kmem res" where
  "free_all k i fin =
     (if i < fin then rbind (raw_free_pages i 0 k) (\<lambda>k'. free_all k' (i + 1) fin) else Inr k)"
  by pat_completeness auto
termination
  by (relation "measure (\<lambda>(k, i, e). unat e - unat i)") (auto intro: count_up_measure)

declare init_pages.simps [simp del] free_all.simps [simp del]

definition init_freelists :: "kmem \<Rightarrow> kmem" where
  "init_freelists k = fold (\<lambda>i. upd_lists (INIT_LIST_HEAD (At (FreeHead i)))) [0, 1, 2, 3, 4]
     (k\<lparr>buddy := (buddy k)\<lparr>free_count := replicate 5 0\<rparr>\<rparr>)"

definition sizeof_page :: u32 where "sizeof_page = 44"

text \<open>
  \<open>k\<close> is what the memory of the descriptors and the globals holds before; the \<^verbatim>\<open>pages\<close> array
  itself is the block the boot memory manager returns.
\<close>

definition init_buddy :: "bootmm \<Rightarrow> kmem \<Rightarrow> (bootmm \<times> kmem) res" where
  "init_buddy bmm k =
     rbind (bootmm_alloc_pages bmm (sizeof_page * max_pn bmm) MM_KERNEL (push_bit PAGE_SHIFT 1)) (\<lambda>(bp_base, bmm).
       if bp_base = 0 then Inl Hang
       else
         let k1 = init_pages (k\<lparr>npages := max_pn bmm\<rparr>) 0 (max_pn bmm);
             start = buddy_start bmm;
             fin = max_pn bmm AND NOT order_mask;
             k2 = init_freelists (k1\<lparr>buddy := (buddy k1)\<lparr>buddy_start_pn := start, buddy_end_pn := fin\<rparr>\<rparr>);
             (l, h) = init_lock (At LockWait) (lists k2);
             k3 = k2\<lparr>lists := h, buddy := (buddy k2)\<lparr>start_page := start, buddy_lock := l\<rparr>\<rparr>
         in rbind (free_all k3 start fin) (\<lambda>k4. Inr (bmm, k4)))"

end
