(* ===== verification/Slab.thy ===== *)
theory Slab
  imports Buddy
begin

text \<open>
  The slab caches, \<^verbatim>\<open>kernel/mm/slab.c\<close>, on top of the buddy system: ten caches of fixed object
  sizes, each with a current page and lists of partial and full pages. Every object is followed
  by a word that links the free objects of its page. \<open>wmem\<close> is the memory of those words,
  addressed by byte; a \<^verbatim>\<open>struct kmem_cache *\<close> is its index in \<^verbatim>\<open>kmalloc_caches\<close>.
  Console output under the debug flag is left out.
\<close>

section \<open>Data\<close>

record kmem_cache =
  obj_total :: u32  \<comment> \<open>\<^verbatim>\<open>size\<close>: object and link\<close>
  objsize :: u32
  offset :: u32
  cpu_freeobj :: u32
  cpu_page :: "u32 option"

record slabs =
  km :: kmem
  wmem :: "u32 \<Rightarrow> u32"
  kmalloc_caches :: "kmem_cache list"

definition SIZE_INT :: u32 where "SIZE_INT = 4"
definition KERNEL_ENTRY :: u32 where "KERNEL_ENTRY = 0x80000000"

definition size_kmem_cache :: "u32 list" where
  "size_kmem_cache = [96, 192, 8, 16, 32, 64, 128, 256, 512, 1024]"

definition KMEM_ADDR :: "u32 \<Rightarrow> u32" where
  "KMEM_ADDR page = push_bit PAGE_SHIFT page OR KERNEL_ENTRY"

text \<open>Access to cache \<open>c\<close>, to a page descriptor and to the link word of an object.\<close>

definition cache_at :: "slabs \<Rightarrow> u32 \<Rightarrow> kmem_cache res" where
  "cache_at s c = rd (kmalloc_caches s) c"

definition upd_cache :: "u32 \<Rightarrow> (kmem_cache \<Rightarrow> kmem_cache) \<Rightarrow> slabs \<Rightarrow> slabs" where
  "upd_cache c f s = s\<lparr>kmalloc_caches := (kmalloc_caches s)[unat c := f (kmalloc_caches s ! unat c)]\<rparr>"

definition upd_km :: "(kmem \<Rightarrow> kmem) \<Rightarrow> slabs \<Rightarrow> slabs" where
  "upd_km f s = s\<lparr>km := f (km s)\<rparr>"

definition store :: "u32 \<Rightarrow> u32 \<Rightarrow> slabs \<Rightarrow> slabs" where
  "store a v s = s\<lparr>wmem := (wmem s)(a := v)\<rparr>"

definition partial_head :: "u32 \<Rightarrow> node ptr" where "partial_head c = At (PartialHead (unat c))"
definition full_head :: "u32 \<Rightarrow> node ptr" where "full_head c = At (FullHead (unat c))"
definition page_node :: "u32 \<Rightarrow> node ptr" where "page_node p = At (PageList p)"

section \<open>Initialisation\<close>

definition init_kmem_cpu :: "u32 \<Rightarrow> slabs \<Rightarrow> slabs" where
  "init_kmem_cpu c = upd_cache c (\<lambda>k. k\<lparr>cpu_freeobj := 0, cpu_page := None\<rparr>)"

definition init_kmem_node :: "u32 \<Rightarrow> slabs \<Rightarrow> slabs" where
  "init_kmem_node c = upd_km (upd_lists (\<lambda>h. INIT_LIST_HEAD (partial_head c) (INIT_LIST_HEAD (full_head c) h)))"

definition init_each_slab :: "u32 \<Rightarrow> u32 \<Rightarrow> slabs \<Rightarrow> slabs" where
  "init_each_slab c sz s =
     (let osz = (sz + (SIZE_INT - 1)) AND NOT (SIZE_INT - 1);
          s1 = upd_cache c (\<lambda>k. k\<lparr>objsize := osz, obj_total := osz + 4, offset := osz\<rparr>) s
      in init_kmem_node c (init_kmem_cpu c s1))"

definition init_slab :: "slabs \<Rightarrow> slabs" where
  "init_slab s = fold (\<lambda>i. init_each_slab i (size_kmem_cache ! unat i)) [0, 1, 2, 3, 4, 5, 6, 7, 8, 9] s"

section \<open>A new page\<close>

text \<open>
  The \<^verbatim>\<open>do ... while\<close> loop: one object per round, linked to the address after it. It returns the
  last link word, the address reached and the number of objects. \<^verbatim>\<open>remaining\<close> is unsigned; the
  loop ends because it shrinks by \<^verbatim>\<open>size\<close>, which is 0 for no cache, while it is at least that.
\<close>

function format_loop :: "u32 \<Rightarrow> u32 \<Rightarrow> slabs \<Rightarrow> u32 \<Rightarrow> u32 \<Rightarrow> u32 \<Rightarrow> u32 \<times> u32 \<times> u32 \<times> slabs" where
  "format_loop off sz s ko remaining n =
     (let ptr = ko + off; ko = ko + sz; s = store ptr ko s; remaining = remaining - sz; n = n + 1 in
      if 0 < sz \<and> remaining \<ge> sz \<and> remaining + sz > remaining then format_loop off sz s ko remaining n else (ptr, ko, n, s))"
  by pat_completeness auto
termination
  by (relation "measure (\<lambda>(off, sz, s, ko, remaining, n). unat remaining)") (auto simp: word_less_nat_alt)

declare format_loop.simps [simp del]

definition format_slabpage :: "u32 \<Rightarrow> u32 \<Rightarrow> slabs \<Rightarrow> slabs res" where
  "format_slabpage c page s = rbind (cache_at s c) (\<lambda>k.
     let base = KMEM_ADDR page;
         (ptr, ko, n, s1) = format_loop (offset k) (obj_total k) s base (push_bit PAGE_SHIFT 1) 0;
         s2 = store ptr (ko AND NOT (push_bit PAGE_SHIFT 1 - 1)) s1;
         s3 = upd_km (upd_page page (\<lambda>pg. pg\<lparr>reference := 1, nr_objs := 0, end_ptr := ptr - 4 * offset k\<rparr>)) s2;
         s4 = upd_cache c (\<lambda>k. k\<lparr>cpu_page := Some page, cpu_freeobj := base\<rparr>) s3
     in Inr (upd_km (upd_page page (\<lambda>pg. pg\<lparr>virtual := c, max_object := n, freeobj := base\<rparr>)) s4))"

section \<open>Allocation\<close>

text \<open>The code after the label \<^verbatim>\<open>normal\<close>: take \<open>object\<close> from the current page.\<close>

definition take_object :: "u32 \<Rightarrow> u32 \<Rightarrow> slabs \<Rightarrow> (u32 \<times> slabs) res" where
  "take_object c object s = rbind (cache_at s c) (\<lambda>k.
     case cpu_page k of None \<Rightarrow> Inl Fault
     | Some p \<Rightarrow>
         let next_free = wmem s (object + offset k);
             s1 = upd_km (upd_page p (\<lambda>pg. pg\<lparr>freeobj := next_free, nr_objs := nr_objs pg + 1\<rparr>)) s;
             s2 = upd_cache c (\<lambda>k. k\<lparr>cpu_freeobj := next_free\<rparr>) s1;
             pg = pages (km s2) p
         in if nr_objs pg \<ge> max_object pg
            then Inr (object, init_kmem_cpu c (upd_km (upd_lists (list_add_tail (page_node p) (full_head c))) s2))
            else Inr (object, s2))"

text \<open>
  The code from the label \<^verbatim>\<open>slalloc_check\<close>. Each round that comes back to the label takes a page
  off the partial list, so the length of that list, plus one, is enough fuel.
\<close>

fun slab_check :: "nat \<Rightarrow> u32 \<Rightarrow> u32 \<Rightarrow> slabs \<Rightarrow> (u32 \<times> slabs) res" where
  "slab_check fuel c object s = rbind (cache_at s c) (\<lambda>k.
     let full = (case cpu_page k of None \<Rightarrow> if object = 0 then Inr True else Inl Fault
                 | Some p \<Rightarrow> Inr (object = 0 \<or> nr_objs (pages (km s) p) \<ge> max_object (pages (km s) p)))
     in rbind full (\<lambda>b.
       if \<not> b then take_object c object s
       else
         let s1 = (case cpu_page k of None \<Rightarrow> s
                   | Some p \<Rightarrow> upd_km (upd_lists (list_add_tail (page_node p) (full_head c))) s)
         in if list_empty (partial_head c) (lists (km s1)) then
              rbind (raw_alloc_pages 0 (km s1)) (\<lambda>(r, km').
                case r of None \<Rightarrow> Inl Hang
                | Some newpage \<Rightarrow>
                    rbind (format_slabpage c newpage (s1\<lparr>km := km'\<rparr>)) (\<lambda>s2.
                      take_object c (freeobj (pages (km s2) newpage)) s2))
            else case nxt (lists (km s1)) (partial_head c) of
              At (PageList p) \<Rightarrow>
                let object = freeobj (pages (km s1) p);
                    next_free = wmem s1 (object + offset k);
                    s2 = upd_km (upd_lists (list_del (page_node p))) s1;
                    s3 = upd_km (upd_page p (\<lambda>pg. pg\<lparr>freeobj := next_free\<rparr>)) s2;
                    s4 = upd_cache c (\<lambda>k. k\<lparr>cpu_page := Some p, cpu_freeobj := next_free\<rparr>) s3
                in (case fuel of 0 \<Rightarrow> Inl OutOfFuel | Suc fuel \<Rightarrow> slab_check fuel c object s4)
            | _ \<Rightarrow> Inl Fault))"

declare slab_check.simps [simp del]

definition slab_alloc :: "nat \<Rightarrow> u32 \<Rightarrow> slabs \<Rightarrow> (u32 \<times> slabs) res" where
  "slab_alloc fuel c s = rbind (cache_at s c) (\<lambda>k.
     let s1 = (case cpu_page k of None \<Rightarrow> s
               | Some p \<Rightarrow> upd_cache c (\<lambda>k. k\<lparr>cpu_freeobj := freeobj (pages (km s) p)\<rparr>) s)
     in rbind (cache_at s1 c) (\<lambda>k. slab_check fuel c (cpu_freeobj k) s1))"

text \<open>The first cache in table order whose objects are large enough; 10 if there is none.\<close>

fun find_cache :: "kmem_cache list \<Rightarrow> u32 \<Rightarrow> u32 \<Rightarrow> u32" where
  "find_cache [] i sz = 10"
| "find_cache (k # ks) i sz = (if objsize k \<ge> sz then i else find_cache ks (i + 1) sz)"

definition get_slab :: "slabs \<Rightarrow> u32 \<Rightarrow> u32" where
  "get_slab s sz = find_cache (take 10 (kmalloc_caches s)) 0 sz"

definition kmalloc :: "nat \<Rightarrow> u32 \<Rightarrow> slabs \<Rightarrow> (u32 \<times> slabs) res" where
  "kmalloc fuel sz s =
     (if sz = 0 then Inr (0, s)
      else rbind (cache_at s 9) (\<lambda>k9.
        if sz > objsize k9 then
          let sz = (sz + (push_bit PAGE_SHIFT 1 - 1)) AND NOT (push_bit PAGE_SHIFT 1 - 1) in
          rbind (alloc_pages (drop_bit PAGE_SHIFT sz - 1) (km s)) (\<lambda>(addr, km').
            if addr = 0 then Inl Hang else Inr (KERNEL_ENTRY OR addr, s\<lparr>km := km'\<rparr>))
        else
          let bf_index = get_slab s sz in
          if bf_index \<ge> 10 then Inl Hang
          else rbind (slab_alloc fuel bf_index s) (\<lambda>(object, s'). Inr (KERNEL_ENTRY OR object, s'))))"

section \<open>Release\<close>

definition slab_free :: "u32 \<Rightarrow> u32 \<Rightarrow> u32 \<Rightarrow> slabs \<Rightarrow> slabs res" where
  "slab_free c object temp s =
     (let p = drop_bit PAGE_SHIFT temp in
      rbind (page_at (km s) p) (\<lambda>pg.
        if nr_objs pg = 0 then Inl Hang
        else rbind (cache_at s c) (\<lambda>k.
          let s1 = store (object + offset k) (freeobj pg) s;
              s2 = upd_km (upd_page p (\<lambda>pg. pg\<lparr>freeobj := object, nr_objs := nr_objs pg - 1\<rparr>)) s1
          in if list_empty (page_node p) (lists (km s2)) then Inr s2
             else if nr_objs (pages (km s2) p) = 0
             then rbind (raw_free_pages p 0 (km s2)) (\<lambda>km'. Inr (s2\<lparr>km := km'\<rparr>))
             else rbind (unlink_page p (km s2)) (\<lambda>km'.
                    Inr (upd_km (upd_lists (list_add_tail (page_node p) (partial_head c))) (s2\<lparr>km := km'\<rparr>))))))"

definition kfree :: "u32 \<Rightarrow> slabs \<Rightarrow> slabs res" where
  "kfree obj s =
     (let temp = obj AND NOT KERNEL_ENTRY; obj = obj OR KERNEL_ENTRY; p = drop_bit PAGE_SHIFT temp in
      rbind (page_at (km s) p) (\<lambda>pg.
        if reference pg \<noteq> 1
        then rbind (free_pages (obj AND NOT (push_bit PAGE_SHIFT 1 - 1)) (bplevel pg) (km s)) (\<lambda>km'. Inr (s\<lparr>km := km'\<rparr>))
        else slab_free (virtual pg) obj temp s))"

end
