(* ===== verification/BuddyInv.thy ===== *)
theory BuddyInv
  imports Buddy
begin

text \<open>
  The invariant of the buddy system and the proof that taking and releasing blocks keep it. The
  ghost parameters say what the store stands for: \<open>F l\<close> is the free list of size
  \<open>2 ^ l\<close>, \<open>A\<close> the blocks handed out, \<open>R\<close> the frames not yet given to the buddy
  system, and \<open>X\<close> the blocks an operation holds in its hands between two stores. Together
  they tile the managed frames. \<open>E\<close> are the other lists in the same store (the slab caches
  link the descriptors of pages they own).
\<close>

section \<open>The invariant\<close>

definition pn :: "u32 \<Rightarrow> node ptr" where "pn p = At (PageList p)"
definition fh :: "nat \<Rightarrow> node ptr" where "fh l = At (FreeHead (of_nat l))"

definition gof :: "(node ptr \<Rightarrow> node ptr list) \<Rightarrow> (nat \<Rightarrow> u32 list) \<Rightarrow> node ptr \<Rightarrow> node ptr list" where
  "gof E F a = (case a of At (FreeHead i) \<Rightarrow> map pn (F (unat i)) | _ \<Rightarrow> E a)"

definition free_blocks :: "(nat \<Rightarrow> u32 list) \<Rightarrow> block set" where
  "free_blocks F = {(p, l). l \<le> MAX_ORDER \<and> p \<in> set (F l)}"

definition blocks :: "(nat \<Rightarrow> u32 list) \<Rightarrow> block set \<Rightarrow> u32 set \<Rightarrow> block set" where
  "blocks F A R = free_blocks F \<union> A \<union> (\<lambda>p. (p, 0)) ` R"

definition lo :: "kmem \<Rightarrow> nat" where "lo k = unat (buddy_start_pn (buddy k))"
definition hi :: "kmem \<Rightarrow> nat" where "hi k = unat (buddy_end_pn (buddy k))"

definition geom :: "kmem \<Rightarrow> bool" where
  "geom k \<longleftrightarrow> page_interval (lo k) (hi k) \<and> start_page (buddy k) = buddy_start_pn (buddy k) \<and> hi k \<le> unat (npages k)"

definition heads :: "node ptr set \<Rightarrow> bool" where
  "heads H \<longleftrightarrow> (\<forall>l\<le>MAX_ORDER. fh l \<in> H) \<and> (\<forall>p. pn p \<notin> H) \<and> (\<forall>i. At (FreeHead i) \<in> H \<longrightarrow> unat i \<le> MAX_ORDER)"

text \<open>The pages on the other lists belong to blocks that are handed out.\<close>

definition ext_ok :: "node ptr set \<Rightarrow> (node ptr \<Rightarrow> node ptr list) \<Rightarrow> block set \<Rightarrow> bool" where
  "ext_ok H E A \<longleftrightarrow> (\<forall>h\<in>H. \<forall>p. (\<forall>i. h \<noteq> At (FreeHead i)) \<and> pn p \<in> set (E h) \<longrightarrow> (\<exists>b\<in>A. unat p \<in> blk b))"

definition nocoal :: "(nat \<Rightarrow> u32 list) \<Rightarrow> bool" where
  "nocoal F \<longleftrightarrow> (\<forall>l<MAX_ORDER. \<forall>p\<in>set (F l). bud p l \<notin> set (F l))"

definition tags :: "(u32 \<Rightarrow> page) \<Rightarrow> (nat \<Rightarrow> u32 list) \<Rightarrow> block set \<Rightarrow> u32 set \<Rightarrow> bool" where
  "tags pg F A R \<longleftrightarrow> (\<forall>l\<le>MAX_ORDER. \<forall>p\<in>set (F l). bplevel (pg p) = of_nat l \<and> flag (pg p) \<noteq> 1)
     \<and> (\<forall>(p, l)\<in>A. bplevel (pg p) = of_nat l \<and> flag (pg p) = 1)
     \<and> (\<forall>p\<in>R. bplevel (pg p) = -1 \<and> flag (pg p) \<noteq> 1)"

definition counts :: "u32 list \<Rightarrow> (nat \<Rightarrow> u32 list) \<Rightarrow> bool" where
  "counts fc F \<longleftrightarrow> length fc = Suc MAX_ORDER \<and> (\<forall>l\<le>MAX_ORDER. fc ! l = of_nat (length (F l)))"

definition binv where
  "binv k H E F A R X \<longleftrightarrow> geom k \<and> tiling (lo k) (hi k) (blocks F A R \<union> X) \<and> blocks F A R \<inter> X = {}
     \<and> tags (pages k) F A R
     \<and> (\<forall>p. lo k \<le> unat p \<and> unat p < hi k \<and> flag (pages k p) = 1 \<longrightarrow> p \<in> fst ` (A \<union> X))
     \<and> counts (free_count (buddy k)) F
     \<and> heads H \<and> dlists (lists k) H (gof E F) \<and> ext_ok H E A \<and> nocoal F"

lemma binvD:
  assumes "binv k H E F A R X"
  shows "geom k" "tiling (lo k) (hi k) (blocks F A R \<union> X)" "blocks F A R \<inter> X = {}" "tags (pages k) F A R"
    "\<And>p. lo k \<le> unat p \<Longrightarrow> unat p < hi k \<Longrightarrow> flag (pages k p) = 1 \<Longrightarrow> p \<in> fst ` (A \<union> X)"
    "counts (free_count (buddy k)) F" "heads H" "dlists (lists k) H (gof E F)" "ext_ok H E A" "nocoal F"
  using assms by (simp_all add: binv_def)

section \<open>Facts about the ghost state\<close>

lemma order_simps [simp]: "unat MAX_BUDDY_ORDER = MAX_ORDER" "MAX_ORDER < 32" "of_nat MAX_ORDER = MAX_BUDDY_ORDER"
  by (simp_all add: MAX_BUDDY_ORDER_def MAX_ORDER_def)

lemma unat_level: "l \<le> MAX_ORDER \<Longrightarrow> unat (of_nat l :: u32) = l"
  by (simp add: MAX_ORDER_def unat_of_nat take_bit_nat_eq_self)

lemma of_nat_level_eq: "l \<le> MAX_ORDER \<Longrightarrow> m \<le> MAX_ORDER \<Longrightarrow> (of_nat l :: u32) = of_nat m \<longleftrightarrow> l = m"
  by (metis unat_level)

lemma minus_one_level: "l \<le> MAX_ORDER \<Longrightarrow> (of_nat l :: u32) \<noteq> -1"
proof
  assume l: "l \<le> MAX_ORDER" "(of_nat l :: u32) = -1"
  have "unat (-1 :: u32) = 4294967295" by (simp add: unsigned_minus_1_eq_mask mask_eq_exp_minus_1)
  then show False using l unat_level [of l] by (simp add: MAX_ORDER_def)
qed

lemma gof_upd: "l \<le> MAX_ORDER \<Longrightarrow> (gof E F)(fh l := map pn xs) = gof E (F(l := xs))"
proof
  fix a
  assume l: "l \<le> MAX_ORDER"
  have "unat i = l \<longleftrightarrow> i = of_nat l" for i :: u32 using unat_level [OF l] by auto
  then show "((gof E F)(fh l := map pn xs)) a = gof E (F(l := xs)) a"
    by (auto simp: gof_def fh_def split: ptr.splits node.splits)
qed

lemma gof_fh [simp]: "l \<le> MAX_ORDER \<Longrightarrow> gof E F (fh l) = map pn (F l)"
  by (simp add: gof_def fh_def unat_level)

lemma pn_inj [simp]: "pn p = pn q \<longleftrightarrow> p = q" "pn p \<in> pn ` S \<longleftrightarrow> p \<in> S" "inj_on pn S"
  by (auto simp: pn_def inj_on_def)

lemma remove1_map_pn: "remove1 (pn p) (map pn xs) = map pn (remove1 p xs)"
  by (induction xs) auto

lemma start_in_blk [simp]: "unat p \<in> blk (p, l)"
  by (simp add: blk_def)

lemma unat_bij_blk: "unat p = unat q \<Longrightarrow> p = (q :: u32)"
  by (simp add: word_unat_eq_iff)

lemma head_unique: "tiling s e B \<Longrightarrow> (p, l) \<in> B \<Longrightarrow> (p, m) \<in> B \<Longrightarrow> l = m"
  using tilingD(2) [of s e B "(p, l)" "(p, m)" "unat p"] by simp

text \<open>A page of a block in hand is on no list.\<close>

lemma blk_not_listed:
  assumes "binv k H E F A R X" "b \<in> X" "unat p \<in> blk b" "h \<in> H"
  shows "pn p \<notin> set (gof E F h)"
proof
  assume m: "pn p \<in> set (gof E F h)"
  note d = binvD [OF assms(1)]
  obtain c where c: "c \<in> blocks F A R" "unat p \<in> blk c"
  proof (cases "\<exists>i. h = At (FreeHead i)")
    case True
    then obtain i where i: "h = At (FreeHead i)" by blast
    then have "unat i \<le> MAX_ORDER" using d(7) assms(4) by (auto simp: heads_def)
    moreover have "p \<in> set (F (unat i))" using m i by (auto simp: gof_def)
    ultimately have "(p, unat i) \<in> blocks F A R" by (simp add: blocks_def free_blocks_def)
    then show ?thesis using that start_in_blk by blast
  next
    case False
    then have "gof E F h = E h" by (auto simp: gof_def split: ptr.splits node.splits)
    then obtain c where "c \<in> A" "unat p \<in> blk c" using m d(9) assms(4) False unfolding ext_ok_def by metis
    then show ?thesis using that [of c] by (simp add: blocks_def)
  qed
  then have "c = b" using tilingD(2) [OF d(2), of c b "unat p"] assms(2,3) by blast
  then show False using c(1) assms(2) d(3) by blast
qed

lemma tags_pages_cong:
  "tags pg F A R \<Longrightarrow> (\<And>p. flag (pg' p) = flag (pg p) \<and> bplevel (pg' p) = bplevel (pg p)) \<Longrightarrow> tags pg' F A R"
  by (simp add: tags_def)

lemma tags_fun_upd:
  assumes "tags pg F A R" "\<And>m. (p, m) \<notin> A" "p \<notin> R"
    and "\<And>m. m \<le> MAX_ORDER \<Longrightarrow> p \<in> set (F' m) \<Longrightarrow> bplevel x = of_nat m \<and> flag x \<noteq> 1"
    and "\<And>m q. m \<le> MAX_ORDER \<Longrightarrow> q \<in> set (F' m) \<Longrightarrow> q \<noteq> p \<Longrightarrow> q \<in> set (F m)"
  shows "tags (pg(p := x)) F' A R"
proof -
  have "bplevel ((pg(p := x)) q) = of_nat l \<and> flag ((pg(p := x)) q) \<noteq> 1" if "l \<le> MAX_ORDER" "q \<in> set (F' l)" for l q
    using assms(1,4,5) that unfolding tags_def by (cases "q = p") auto
  moreover have "bplevel ((pg(p := x)) q) = of_nat l \<and> flag ((pg(p := x)) q) = 1" if "(q, l) \<in> A" for l q
    using assms(1,2) that unfolding tags_def by (cases "q = p") auto
  moreover have "bplevel ((pg(p := x)) q) = -1 \<and> flag ((pg(p := x)) q) \<noteq> 1" if "q \<in> R" for q
    using assms(1,3) that unfolding tags_def by (cases "q = p") auto
  ultimately show ?thesis unfolding tags_def by blast
qed

lemma binv_hand:
  assumes "binv k H E F A R X" "tiling (lo k) (hi k) (blocks F A R \<union> Y)" "blocks F A R \<inter> Y = {}"
    and "\<And>p. lo k \<le> unat p \<Longrightarrow> unat p < hi k \<Longrightarrow> flag (pages k p) = 1 \<Longrightarrow> p \<in> fst ` X \<Longrightarrow> p \<in> fst ` (A \<union> Y)"
  shows "binv k H E F A R Y"
  using assms unfolding binv_def image_Un by blast

section \<open>Moves of a block\<close>

text \<open>Taking a block from its free list: unlink, count, overwrite the level.\<close>

definition take_block :: "u32 \<Rightarrow> u32 \<Rightarrow> u32 \<Rightarrow> kmem \<Rightarrow> kmem res" where
  "take_block p l v k = rbind (unlink_page p k) (\<lambda>k1. rbind (add_count l (-1) k1) (\<lambda>k2. Inr (set_bplevel p v k2)))"

lemma listed_not_poisoned:
  assumes "dlist h a xs" "x \<in> set xs" "\<forall>y\<in>set (a # xs). \<exists>n. y = At n"
  shows "\<not> poisoned x h"
  using dlist_neighbours [OF assms(1,2)] assms(3) by (fastforce simp: poisoned_def)

lemma free_list_facts:
  assumes "binv k H E F A R X" "l \<le> MAX_ORDER"
  shows "distinct (F l)" "pn p \<notin> H" "fh l \<in> H" "dlist (lists k) (fh l) (map pn (F l))"
    "list_empty (fh l) (lists k) \<longleftrightarrow> F l = []" "F l = p # ps \<Longrightarrow> nxt (lists k) (fh l) = pn p"
proof -
  note d = binvD [OF assms(1)]
  show h: "fh l \<in> H" "pn p \<notin> H" using d(7) assms(2) by (simp_all add: heads_def)
  have "distinct (gof E F (fh l))" using dl.rep_distinct [OF d(8) h(1)] .
  then show "distinct (F l)" using assms(2) by (simp add: distinct_map)
  show "dlist (lists k) (fh l) (map pn (F l))" using dlistsD [OF d(8) h(1)] assms(2) by simp
  show "list_empty (fh l) (lists k) \<longleftrightarrow> F l = []" using dl.rep_empty [OF d(8) h(1)] assms(2) by simp
  show "F l = p # ps \<Longrightarrow> nxt (lists k) (fh l) = pn p"
    using dl.rep_first [OF d(8) h(1), of "pn p"] assms(2) by simp
qed

lemma free_block_unique:
  assumes "binv k H E F A R X" "l \<le> MAX_ORDER" "p \<in> set (F l)"
  shows "(p, l) \<in> blocks F A R" "(p, m) \<in> blocks F A R \<union> X \<Longrightarrow> m = l" "(p, m) \<notin> A" "(p, m) \<notin> X" "p \<notin> R"
proof -
  note d = binvD [OF assms(1)]
  show b: "(p, l) \<in> blocks F A R" using assms(2,3) by (simp add: blocks_def free_blocks_def)
  show u: "(p, m) \<in> blocks F A R \<union> X \<Longrightarrow> m = l" for m using head_unique [OF d(2), of p l m] b by blast
  have f: "flag (pages k p) \<noteq> 1" "bplevel (pages k p) = of_nat l" using d(4) assms(2,3) by (auto simp: tags_def)
  show "(p, m) \<notin> A" using d(4) f by (auto simp: tags_def)
  show "(p, m) \<notin> X" using u [of m] d(3) b by blast
  show "p \<notin> R" using d(4) f minus_one_level [OF assms(2)] by (auto simp: tags_def)
qed

lemma blocks_remove:
  assumes "binv k H E F A R X" "l \<le> MAX_ORDER" "p \<in> set (F l)"
  shows "blocks (F(l := remove1 p (F l))) A R = blocks F A R - {(p, l)}"
    and "blocks F A R \<union> X = blocks (F(l := remove1 p (F l))) A R \<union> insert (p, l) X"
proof -
  have "distinct (F l)" using free_list_facts(1) [OF assms(1,2)] .
  then have "free_blocks (F(l := remove1 p (F l))) = free_blocks F - {(p, l)}"
    by (auto simp: free_blocks_def split: if_splits)
  then show e: "blocks (F(l := remove1 p (F l))) A R = blocks F A R - {(p, l)}"
    using free_block_unique(3) [OF assms, of l] free_block_unique(5) [OF assms] by (auto simp: blocks_def)
  show "blocks F A R \<union> X = blocks (F(l := remove1 p (F l))) A R \<union> insert (p, l) X"
    using e free_block_unique(1) [OF assms] by blast
qed

lemma kmem_upd_simps [simp]:
  "lo (set_bplevel p v k) = lo k" "hi (set_bplevel p v k) = hi k" "geom (set_bplevel p v k) = geom k"
  "lists (set_bplevel p v k) = lists k" "buddy (set_bplevel p v k) = buddy k" "npages (set_bplevel p v k) = npages k"
  "pages (set_bplevel p v k) = (pages k)(p := (pages k p)\<lparr>bplevel := v\<rparr>)"
  "status (set_bplevel p v k) = status k"
  by (simp_all add: set_bplevel_def upd_page_def lo_def hi_def geom_def)

lemma take_block_inv:
  assumes I: "binv k H E F A R X" and l: "l \<le> MAX_ORDER" and p: "p \<in> set (F l)"
  shows "\<exists>k'. take_block p (of_nat l) v k = Inr k' \<and> binv k' H E (F(l := remove1 p (F l))) A R (insert (p, l) X)
    \<and> pages k' = (pages k)(p := (pages k p)\<lparr>bplevel := v\<rparr>)
    \<and> lo k' = lo k \<and> hi k' = hi k \<and> npages k' = npages k \<and> start_page (buddy k') = start_page (buddy k)
    \<and> dlist (lists k') (pn p) []"
proof -
  note d = binvD [OF I]
  note ff = free_list_facts [OF I l]
  note u = free_block_unique [OF I l p]
  let ?F = "F(l := remove1 p (F l))"
  have np: "\<not> poisoned (pn p) (lists k)"
    by (rule listed_not_poisoned [OF ff(4)]) (use p in \<open>auto simp: pn_def fh_def\<close>)
  have fc: "unat (of_nat l :: u32) < length (free_count (buddy k))" "free_count (buddy k) ! l = of_nat (length (F l))"
    using d(6) l by (simp_all add: counts_def unat_level)
  let ?k = "set_bplevel p v (k\<lparr>lists := list_del_init (pn p) (lists k),
    buddy := (buddy k)\<lparr>free_count := (free_count (buddy k))[l := of_nat (length (F l)) - 1]\<rparr>\<rparr>)"
  have e: "take_block p (of_nat l) v k = Inr ?k"
    using np fc l by (simp add: take_block_def unlink_page_def pn_def add_count_def upd_lists_def unat_level)
  have c: "counts ((free_count (buddy k))[l := of_nat (length (F l)) - 1]) ?F"
  proof -
    have "length (F l) = Suc (length (remove1 p (F l)))" using p by (simp add: length_remove1)
        (metis Suc_pred length_pos_if_in_set)
    then have "(of_nat (length (F l)) - 1 :: u32) = of_nat (length (remove1 p (F l)))" by simp
    then show ?thesis using d(6) l by (auto simp: counts_def nth_list_update simp del: length_remove1)
  qed
  have dl: "dlists (list_del_init (pn p) (lists k)) H (gof E ?F)"
  proof -
    have "dlists (list_del_init (pn p) (lists k)) H ((gof E F)(fh l := remove1 (pn p) (gof E F (fh l))))"
      using d(8) ff(3) p l by (intro dl.rep_del_init) auto
    then show ?thesis using l by (simp add: gof_upd remove1_map_pn)
  qed
  have "binv ?k H E ?F A R (insert (p, l) X)"
    unfolding binv_def
  proof (intro conjI)
    show "geom ?k" using d(1) by (simp add: geom_def lo_def hi_def)
    have "lo ?k = lo k" "hi ?k = hi k" by (simp_all add: lo_def hi_def)
    then show "tiling (lo ?k) (hi ?k) (blocks ?F A R \<union> insert (p, l) X)"
      "\<forall>q. lo ?k \<le> unat q \<and> unat q < hi ?k \<and> flag (pages ?k q) = 1 \<longrightarrow> q \<in> fst ` (A \<union> insert (p, l) X)"
      using d(2,5) blocks_remove(2) [OF I l p] by (auto split: if_splits)
    show "blocks ?F A R \<inter> insert (p, l) X = {}" using blocks_remove(1) [OF I l p] d(3) by auto
    show "tags (pages ?k) ?F A R"
    proof -
      have "q \<noteq> p" if "q \<in> set (?F m)" "m \<le> MAX_ORDER" for q m
      proof
        assume "q = p"
        then have "(p, m) \<in> blocks ?F A R" using that by (simp add: blocks_def free_blocks_def)
        then have "(p, m) \<in> blocks F A R - {(p, l)}" using blocks_remove(1) [OF I l p] by simp
        then show False using u(2) by blast
      qed
      moreover have "q \<in> set (F m)" if "q \<in> set (?F m)" for q m
        using that by (auto split: if_splits dest: set_remove1_subset [THEN subsetD])
      ultimately have "tags ((pages k)(p := (pages k p)\<lparr>bplevel := v\<rparr>)) ?F A R"
        by (intro tags_fun_upd [OF d(4)] u(3,5)) blast+
      then show ?thesis by simp
    qed
    show "counts (free_count (buddy ?k)) ?F" using c by simp
    show "dlists (lists ?k) H (gof E ?F)" using dl by simp
    show "nocoal ?F" using d(10) by (auto simp: nocoal_def dest: set_remove1_subset [THEN subsetD])
  qed (use d in simp_all)
  moreover have "dlist (lists ?k) (pn p) []" by (simp add: list_del_init_def)
  ultimately show ?thesis using e by (intro exI [of _ ?k]) (simp add: lo_def hi_def)
qed

text \<open>Putting a block on its free list: link, count, set the level.\<close>

definition put_block :: "u32 \<Rightarrow> u32 \<Rightarrow> kmem \<Rightarrow> kmem res" where
  "put_block p l k = rbind (add_count l 1 (upd_lists (list_add (At (PageList p)) (At (FreeHead l))) k))
     (\<lambda>k. Inr (set_bplevel p l k))"

lemma put_block_inv:
  assumes I: "binv k H E F A R (insert (p, l) X)" and l: "l \<le> MAX_ORDER" and X: "(p, l) \<notin> X"
    and fl: "flag (pages k p) \<noteq> 1" and b: "l < MAX_ORDER \<longrightarrow> bud p l \<notin> set (F l)"
  shows "\<exists>k'. put_block p (of_nat l) k = Inr k' \<and> binv k' H E (F(l := p # F l)) A R X
    \<and> pages k' = (pages k)(p := (pages k p)\<lparr>bplevel := of_nat l\<rparr>)
    \<and> lo k' = lo k \<and> hi k' = hi k \<and> npages k' = npages k \<and> start_page (buddy k') = start_page (buddy k)
    \<and> (\<forall>q. q \<noteq> p \<and> q \<notin> set (F l) \<and> dlist (lists k) (pn q) [] \<longrightarrow> dlist (lists k') (pn q) [])"
proof -
  note d = binvD [OF I]
  note ff = free_list_facts [OF I l]
  let ?F = "F(l := p # F l)"
  have new: "(p, m) \<notin> blocks F A R" for m
    using head_unique [OF d(2), of p m l] d(3) by (metis UnCI disjoint_insert(1) insertI1 IntI empty_iff Un_insert_right)
  have pF: "p \<notin> set (F m)" if "m \<le> MAX_ORDER" for m using new [of m] that by (simp add: blocks_def free_blocks_def)
  have fits: "fits_in (lo k) (hi k) (p, l)" using tilingD(1) [OF d(2), of "(p, l)"] by simp
  have bl: "blocks ?F A R = insert (p, l) (blocks F A R)" using l by (auto simp: blocks_def free_blocks_def)
  have fc: "unat (of_nat l :: u32) < length (free_count (buddy k))" "free_count (buddy k) ! l = of_nat (length (F l))"
    using d(6) l by (simp_all add: counts_def unat_level)
  let ?k = "set_bplevel p (of_nat l) (k\<lparr>lists := list_add (pn p) (fh l) (lists k),
    buddy := (buddy k)\<lparr>free_count := (free_count (buddy k))[l := of_nat (length (F l)) + 1]\<rparr>\<rparr>)"
  have e: "put_block p (of_nat l) k = Inr ?k"
    using fc l by (simp add: put_block_def pn_def fh_def add_count_def upd_lists_def unat_level)
  have dl: "dlists (list_add (pn p) (fh l) (lists k)) H (gof E ?F)"
  proof -
    have "pn p \<notin> set (gof E F h)" if "h \<in> H" for h using blk_not_listed [OF I _ _ that, of "(p, l)"] by simp
    then have "dlists (list_add (pn p) (fh l) (lists k)) H ((gof E F)(fh l := pn p # gof E F (fh l)))"
      using d(8) ff(2,3) by (intro dl.rep_add) auto
    moreover have "pn p # gof E F (fh l) = map pn (p # F l)" using l by simp
    ultimately show ?thesis using gof_upd [OF l, of E F "p # F l"] by simp
  qed
  have "binv ?k H E ?F A R X"
    unfolding binv_def
  proof (intro conjI)
    show "geom ?k" using d(1) by (simp add: geom_def lo_def hi_def)
    have "lo ?k = lo k" "hi ?k = hi k" by (simp_all add: lo_def hi_def)
    then show "tiling (lo ?k) (hi ?k) (blocks ?F A R \<union> X)"
      "\<forall>q. lo ?k \<le> unat q \<and> unat q < hi ?k \<and> flag (pages ?k q) = 1 \<longrightarrow> q \<in> fst ` (A \<union> X)"
      using d(2,5) bl fl by (auto split: if_splits)
    show "blocks ?F A R \<inter> X = {}" using bl d(3) X by auto
    have nA: "(p, m) \<notin> A" "p \<notin> R" for m using new [of m] new [of 0] by (auto simp: blocks_def)
    have "tags ((pages k)(p := (pages k p)\<lparr>bplevel := of_nat l\<rparr>)) ?F A R"
      by (rule tags_fun_upd [OF d(4)]) (use nA pF fl in \<open>auto split: if_splits\<close>)
    then show "tags (pages ?k) ?F A R" by simp
    show "counts (free_count (buddy ?k)) ?F" using d(6) l by (auto simp: counts_def nth_list_update)
    show "dlists (lists ?k) H (gof E ?F)" using dl by simp
    show "nocoal ?F"
      unfolding nocoal_def
    proof (intro allI impI ballI)
      fix m q assume m: "m < MAX_ORDER" and q: "q \<in> set (?F m)"
      show "bud q m \<notin> set (?F m)"
      proof (cases "m = l \<and> (q = p \<or> bud q m = p)")
        case False
        then show ?thesis using q d(10) m by (auto simp: nocoal_def split: if_splits)
      next
        case True
        have pi: "page_interval (lo k) (hi k)" using d(1) by (simp add: geom_def)
        have fp: "fits_in (lo k) (hi k) (p, m)" using fits True by simp
        note bp = bud_props [OF pi fp m]
        show ?thesis
        proof (cases "q = p")
          case True
          then show ?thesis using \<open>m = l \<and> _\<close> b bp(2) m by auto
        next
          case False
          then have e: "bud q m = p" "q \<in> set (F m)" using True q by auto
          have "q = bud p m" using e(1) by (simp add: bud_def xor.assoc [symmetric]) (metis bud_def e(1) xor.assoc xor_self_eq xor.right_neutral)
          then show ?thesis using e(2) b True m by auto
        qed
      qed
    qed
  qed (use d in simp_all)
  moreover have "dlist (lists ?k) (pn q) []" if "q \<noteq> p" "q \<notin> set (F l)" "dlist (lists k) (pn q) []" for q
  proof -
    have "pn q \<noteq> fh l" by (simp add: pn_def fh_def)
    then have "dlist (list_add (pn p) (fh l) (lists k)) (pn q) []"
      using that ff(4) by (intro dlist_frame(2) [OF that(3) ff(4)]) auto
    then show ?thesis by simp
  qed
  ultimately show ?thesis using e by (intro exI [of _ ?k]) (simp add: lo_def hi_def)
qed

text \<open>Joining and halving blocks in hand changes no memory.\<close>

lemma join_hand:
  assumes I: "binv k H E F A R (insert (p, l) (insert (bud p l, l) X))" and l: "l < MAX_ORDER"
    and X: "(p, l) \<notin> X" "(bud p l, l) \<notin> X" and fl: "flag (pages k p) \<noteq> 1" "flag (pages k (bud p l)) \<noteq> 1"
  shows "binv k H E F A R (insert (low p l, Suc l) X)" "(low p l, Suc l) \<notin> X"
proof -
  note d = binvD [OF I]
  let ?B = "blocks F A R \<union> insert (p, l) (insert (bud p l, l) X)"
  have pi: "page_interval (lo k) (hi k)" using d(1) by (simp add: geom_def)
  have fp: "fits_in (lo k) (hi k) (p, l)" using tilingD(1) [OF d(2), of "(p, l)"] by simp
  note bp = bud_props [OF pi fp l]
  have "tiling (lo k) (hi k) (insert (low p l, Suc l) (?B - {(p, l), (bud p l, l)}))"
    by (rule tiling_merge [OF d(2) _ _ l pi]) auto
  moreover have "?B - {(p, l), (bud p l, l)} = blocks F A R \<union> X" using X d(3) by blast
  ultimately have t: "tiling (lo k) (hi k) (blocks F A R \<union> insert (low p l, Suc l) X)" by simp
  have "(low p l, Suc l) \<notin> ?B"
  proof
    assume "(low p l, Suc l) \<in> ?B"
    moreover have "unat p \<in> blk (low p l, Suc l)" using buddy_join(2) [OF pi fp l] by simp
    ultimately have "(low p l, Suc l) = (p, l)"
      using tilingD(2) [OF d(2), of "(low p l, Suc l)" "(p, l)" "unat p"] start_in_blk by blast
    then show False by simp
  qed
  then show "(low p l, Suc l) \<notin> X" "binv k H E F A R (insert (low p l, Suc l) X)"
    using d(3) fl by (auto intro!: binv_hand [OF I t])
qed

lemma halve_hand:
  assumes I: "binv k H E F A R (insert (p, Suc l) X)" and X: "(p, Suc l) \<notin> X"
  shows "binv k H E F A R (insert (bud p l, l) (insert (p, l) X))" "(p, l) \<notin> X" "(bud p l, l) \<notin> X" "bud p l \<noteq> p"
    "flag (pages k (bud p l)) = 1 \<longrightarrow> bud p l \<in> fst ` X" "p + push_bit l 1 = bud p l"
    "p \<notin> set (F l)"
proof -
  note d = binvD [OF I]
  let ?B = "blocks F A R \<union> insert (p, Suc l) X"
  have pi: "page_interval (lo k) (hi k)" using d(1) by (simp add: geom_def)
  note ts = tiling_split [OF d(2) _ pi, of p l]
  have f: "fits_in (lo k) (hi k) (p, l)" "l < MAX_ORDER" using ts by simp_all
  note bp = bud_props [OF pi f]
  show be: "p + push_bit l 1 = bud p l" using ts by simp
  show "bud p l \<noteq> p" by (rule bp(2))
  have lp: "low p l = p" using ts by simp
  have in_big: "unat (bud p l) \<in> blk (p, Suc l)" "unat p \<in> blk (p, Suc l)"
    using buddy_join(2) [OF pi f] lp by auto
  have nin: "(q, m) \<notin> ?B" if "unat q \<in> blk (p, Suc l)" "(q, m) \<noteq> (p, Suc l)" for q m
    using tilingD(2) [OF d(2) _ _ start_in_blk that(1), of m] that(2) by blast
  have "(p, l) \<notin> ?B" "(bud p l, l) \<notin> ?B" using nin in_big by simp_all
  then have nb: "(p, l) \<notin> blocks F A R" "(bud p l, l) \<notin> blocks F A R" and x: "(p, l) \<notin> X" "(bud p l, l) \<notin> X"
    by simp_all
  show "(p, l) \<notin> X" "(bud p l, l) \<notin> X" by fact+
  show "p \<notin> set (F l)" using f(2) nb(1) by (auto simp: blocks_def free_blocks_def)
  have "tiling (lo k) (hi k) (insert (p, l) (insert (bud p l, l) (?B - {(p, Suc l)})))" using ts be by simp
  moreover have "?B - {(p, Suc l)} = blocks F A R \<union> X" using X d(3) by blast
  ultimately have t: "tiling (lo k) (hi k) (blocks F A R \<union> insert (bud p l, l) (insert (p, l) X))"
    by (simp add: insert_commute)
  show "binv k H E F A R (insert (bud p l, l) (insert (p, l) X))"
    using d(3) nb by (auto intro!: binv_hand [OF I t])
  show "flag (pages k (bud p l)) = 1 \<longrightarrow> bud p l \<in> fst ` X"
  proof
    assume "flag (pages k (bud p l)) = 1"
    moreover have "fits_in (lo k) (hi k) (bud p l, l)" by (rule bp(1))
    then have "lo k \<le> unat (bud p l)" "unat (bud p l) < hi k"
      by (auto simp: fits_in_def intro: less_le_trans [of _ "unat (bud p l) + 2 ^ l"])
    ultimately obtain m where m: "(bud p l, m) \<in> A \<or> (bud p l, m) \<in> insert (p, Suc l) X" using d(5) by fastforce
    moreover have "(bud p l, m) \<notin> A" using nin [OF in_big(1), of m] bp(2) by (auto simp: blocks_def)
    ultimately show "bud p l \<in> fst ` X" using bp(2) by (auto intro: rev_image_eqI)
  qed
qed

section \<open>Releasing\<close>

text \<open>What the operations do not change: the geometry and, up to the level, the descriptors.\<close>

definition keeps :: "kmem \<Rightarrow> kmem \<Rightarrow> bool" where
  "keeps k k' \<longleftrightarrow> buddy_start_pn (buddy k') = buddy_start_pn (buddy k) \<and> buddy_end_pn (buddy k') = buddy_end_pn (buddy k)
     \<and> npages k' = npages k \<and> start_page (buddy k') = start_page (buddy k)
     \<and> (\<forall>q. (pages k' q)\<lparr>bplevel := 0\<rparr> = (pages k q)\<lparr>bplevel := 0\<rparr>)"

lemma keeps_refl [simp]: "keeps k k" by (simp add: keeps_def)

lemma keeps_trans [trans]: "keeps k k' \<Longrightarrow> keeps k' k'' \<Longrightarrow> keeps k k''"
  by (simp add: keeps_def)

lemma keeps_geom: "keeps k k' \<Longrightarrow> lo k' = lo k \<and> hi k' = hi k \<and> npages k' = npages k \<and> start_page (buddy k') = start_page (buddy k)"
  by (simp add: keeps_def lo_def hi_def)

lemma keeps_page:
  assumes "keeps k k'"
  shows "flag (pages k' q) = flag (pages k q)" "reference (pages k' q) = reference (pages k q)"
    "virtual (pages k' q) = virtual (pages k q)" "nr_objs (pages k' q) = nr_objs (pages k q)"
    "max_object (pages k' q) = max_object (pages k q)" "freeobj (pages k' q) = freeobj (pages k q)"
  using assms unfolding keeps_def by (cases "pages k' q"; cases "pages k q"; metis page.simps)+

lemma keeps_bplevel:
  assumes "pages k' = (pages k)(p := (pages k p)\<lparr>bplevel := v\<rparr>)" "lo k' = lo k" "hi k' = hi k"
    "npages k' = npages k" "start_page (buddy k') = start_page (buddy k)"
  shows "keeps k k'"
  using assms unfolding keeps_def lo_def hi_def by (auto dest: unat_bij_blk)

text \<open>Page numbers relative to the start, as the code computes them.\<close>

lemma relative_buddy:
  assumes "page_interval s e" "fits_in s e (p, l)" "l < MAX_ORDER" "unat st = s"
  shows "p + (((p - st) XOR push_bit l 1) - (p - st)) = bud p l"
    and "p + ((((p - st) XOR push_bit l 1) AND (p - st)) - (p - st)) = low p l"
    and "((p - st) XOR push_bit l 1) AND (p - st) = low p l - st"
proof -
  have f: "2 ^ l dvd unat p" "s \<le> unat p" using assms(2) by (simp_all add: fits_in_def)
  have "unat (p - st) = unat p - s" using f(2) assms(4) by (metis unat_sub word_le_nat_alt)
  moreover have "(2 :: nat) ^ Suc l dvd 2 ^ MAX_ORDER" using assms(3) by (intro le_imp_power_dvd) simp
  then have "2 ^ Suc l dvd s" using assms(1) unfolding page_interval_def by (blast intro: dvd_trans)
  then obtain a where a: "s = 2 ^ l * (2 * a)" unfolding dvd_def by (metis mult.assoc mult.commute power_Suc)
  obtain c where c: "unat p = 2 ^ l * c" using f(1) by blast
  have "unat p - s = 2 ^ l * (c - 2 * a)" unfolding a c by (simp add: diff_mult_distrib2)
  ultimately have "unat (p - st) div 2 ^ l = c - 2 * a" "unat p div 2 ^ l = c" using c by simp_all
  moreover have "2 * a \<le> c" using f(2) unfolding a c by simp
  then have "odd (c - 2 * a) \<longleftrightarrow> odd c" by simp
  ultimately have b: "bit (p - st) l \<longleftrightarrow> odd (unat p div 2 ^ l)" "bit p l \<longleftrightarrow> odd (unat p div 2 ^ l)"
    by (simp_all add: bit_iff_odd_unat)
  have x: "(p - st) XOR push_bit l 1 = (if bit p l then p - st - push_bit l 1 else p - st + push_bit l 1)"
    using b xor_bit_set [of "p - st" l] xor_bit_unset [of "p - st" l] by (simp only: split: if_split) blast
  have y: "bud p l = (if bit p l then p - push_bit l 1 else p + push_bit l 1)"
    using xor_bit_set [of p l] xor_bit_unset [of p l] by (simp only: bud_def split: if_split) blast
  show "p + (((p - st) XOR push_bit l 1) - (p - st)) = bud p l"
    unfolding x y by simp
  have z: "low p l = (if bit p l then bud p l else p)" using b by (simp add: low_def)
  show "((p - st) XOR push_bit l 1) AND (p - st) = low p l - st"
  proof -
    have "((p - st) XOR push_bit l 1) AND (p - st) = (if bit p l then (p - st) XOR push_bit l 1 else p - st)"
      using b and_xor_bit [of "p - st" l] by simp
    also have "\<dots> = low p l - st" unfolding z x y by simp
    finally show ?thesis .
  qed
  then show "p + ((((p - st) XOR push_bit l 1) AND (p - st)) - (p - st)) = low p l" by simp
qed

lemma buddy_is_free:
  assumes I: "binv k H E F A R {(p, l)}" and l: "l < MAX_ORDER"
  shows "bplevel (pages k (bud p l)) = of_nat l \<and> flag (pages k (bud p l)) \<noteq> 1 \<longleftrightarrow> bud p l \<in> set (F l)"
proof
  note d = binvD [OF I]
  let ?b = "bud p l"
  have pi: "page_interval (lo k) (hi k)" using d(1) by (simp add: geom_def)
  have fp: "fits_in (lo k) (hi k) (p, l)" using tilingD(1) [OF d(2), of "(p, l)"] by simp
  assume t: "bplevel (pages k ?b) = of_nat l \<and> flag (pages k ?b) \<noteq> 1"
  obtain m where m: "m \<le> l" "(?b, m) \<in> blocks F A R \<union> {(p, l)}"
    using buddy_starts_block [OF d(2) _ l pi, of p] by blast
  then have "(?b, m) \<in> blocks F A R" using bud_props(2) [OF pi fp l] by auto
  moreover have "(?b, m) \<notin> A" using d(4) t by (auto simp: tags_def)
  moreover have "?b \<notin> R" using d(4) t minus_one_level [of l] l by (auto simp: tags_def)
  ultimately have b: "?b \<in> set (F m)" "m \<le> MAX_ORDER" by (auto simp: blocks_def free_blocks_def)
  then have "of_nat m = (of_nat l :: u32)" using d(4) t by (auto simp: tags_def)
  then show "?b \<in> set (F l)" using b l by (simp add: of_nat_level_eq)
next
  assume "bud p l \<in> set (F l)"
  then show "bplevel (pages k (bud p l)) = of_nat l \<and> flag (pages k (bud p l)) \<noteq> 1"
    using binvD(4) [OF I] l less_imp_le [OF l] unfolding tags_def by blast
qed

lemma merge_loop_inv:
  assumes "binv k H E F A R {(p, l)}" "l \<le> MAX_ORDER" "flag (pages k p) \<noteq> 1"
  shows "\<exists>k' p' l' F'. merge_loop k p (p - start_page (buddy k)) (of_nat l) = Inr (k', p', of_nat l')
    \<and> binv k' H E F' A R {(p', l')} \<and> l' \<le> MAX_ORDER \<and> flag (pages k' p') \<noteq> 1
    \<and> (l' < MAX_ORDER \<longrightarrow> bud p' l' \<notin> set (F' l')) \<and> keeps k k'"
  using assms
proof (induction "MAX_ORDER - l" arbitrary: k F p l)
  case 0
  then have "l = MAX_ORDER" by simp
  then have "merge_loop k p (p - start_page (buddy k)) (of_nat l) = Inr (k, p, of_nat l)"
    by (subst merge_loop.simps) simp
  then show ?case using 0 by (intro exI [of _ k] exI [of _ p] exI [of _ l] exI [of _ F]) simp
next
  case (Suc n)
  note I = Suc(3)
  note d = binvD [OF I]
  let ?b = "bud p l" and ?st = "start_page (buddy k)"
  have l: "l < MAX_ORDER" and n: "n = MAX_ORDER - Suc l" using Suc(2) by simp_all
  have pi: "page_interval (lo k) (hi k)" and st: "unat ?st = lo k" using d(1) by (simp_all add: geom_def lo_def)
  have fp: "fits_in (lo k) (hi k) (p, l)" using tilingD(1) [OF d(2), of "(p, l)"] by simp
  note bp = bud_props [OF pi fp l]
  note rb = relative_buddy [OF pi fp l st]
  have lv: "unat (of_nat l :: u32) = l" "(of_nat l :: u32) < MAX_BUDDY_ORDER"
    using l by (simp_all add: unat_level word_less_nat_alt)
  have "unat ?b < hi k" using bp(1) by (auto simp: fits_in_def intro: less_le_trans [of _ "unat ?b + 2 ^ l"])
  then have at: "page_at k ?b = Inr (pages k ?b)"
    using d(1) by (simp add: page_at_def geom_def word_less_nat_alt)
  have ml: "merge_loop k p (p - ?st) (of_nat l) =
      (if \<not> (bplevel (pages k ?b) = of_nat l \<and> flag (pages k ?b) \<noteq> 1) then Inr (k, p, of_nat l)
       else rbind (take_block ?b (of_nat l) (-1) k) (\<lambda>k'. merge_loop k' (low p l) (low p l - ?st) (of_nat (Suc l))))"
    by (subst merge_loop.simps, simp only: lv rb Let_def if_True at rbind_Inr)
      (auto simp: is_same_bplevel_def take_block_def rbind_assoc add.commute)
  show ?case
  proof (cases "?b \<in> set (F l)")
    case False
    then have "\<not> (bplevel (pages k ?b) = of_nat l \<and> flag (pages k ?b) \<noteq> 1)" using buddy_is_free [OF I l] by simp
    then have "merge_loop k p (p - ?st) (of_nat l) = Inr (k, p, of_nat l)"
      using ml by simp
    then show ?thesis using I l Suc(5) False by (intro exI [of _ k] exI [of _ p] exI [of _ l] exI [of _ F]) simp
  next
    case True
    then have bf: "bplevel (pages k ?b) = of_nat l" "flag (pages k ?b) \<noteq> 1" using buddy_is_free [OF I l] by simp_all
    let ?F = "F(l := remove1 ?b (F l))"
    obtain k1 where k1: "take_block ?b (of_nat l) (-1) k = Inr k1" "binv k1 H E ?F A R (insert (?b, l) {(p, l)})"
      "pages k1 = (pages k)(?b := (pages k ?b)\<lparr>bplevel := -1\<rparr>)" "lo k1 = lo k" "hi k1 = hi k"
      "npages k1 = npages k" "start_page (buddy k1) = ?st"
      using take_block_inv [OF I _ True, of "-1"] l by auto
    have kk: "keeps k k1" using k1(3-7) by (rule keeps_bplevel)
    have "flag (pages k1 p) \<noteq> 1" "flag (pages k1 ?b) \<noteq> 1" using Suc(5) bf(2) kk by (simp_all add: keeps_page)
    then have I1: "binv k1 H E ?F A R {(low p l, Suc l)}"
      using join_hand [of k1 H E ?F A R p l "{}"] k1(2) l by (simp add: insert_commute)
    have fl: "flag (pages k1 (low p l)) \<noteq> 1"
      using \<open>flag (pages k1 p) \<noteq> 1\<close> \<open>flag (pages k1 ?b) \<noteq> 1\<close> by (simp add: low_def)
    obtain k' p' l' F' where r: "merge_loop k1 (low p l) (low p l - ?st) (of_nat (Suc l)) = Inr (k', p', of_nat l')"
      "binv k' H E F' A R {(p', l')}" "l' \<le> MAX_ORDER" "flag (pages k' p') \<noteq> 1"
      "l' < MAX_ORDER \<longrightarrow> bud p' l' \<notin> set (F' l')" "keeps k1 k'"
      using Suc(1) [OF n I1 _ fl] l k1(7) by auto
    have "merge_loop k p (p - ?st) (of_nat l) = merge_loop k1 (low p l) (low p l - ?st) (of_nat (Suc l))"
      using k1(1) bf ml by simp
    then show ?thesis using r keeps_trans [OF kk r(6)] by auto
  qed
qed

lemma add_count_set_bplevel:
  "add_count l d (upd_lists f (set_bplevel p v k)) = rbind (add_count l d (upd_lists f k)) (\<lambda>k. Inr (set_bplevel p v k))"
  by (simp add: add_count_def upd_lists_def set_bplevel_def upd_page_def rd_def wr_def)

lemma binv_lock [simp]:
  "binv (lock_buddy k) H E F A R X = binv k H E F A R X" "binv (unlock_buddy k) H E F A R X = binv k H E F A R X"
  by (simp_all add: binv_def lock_buddy_def unlock_buddy_def geom_def lo_def hi_def)

lemma keeps_lock [simp]: "keeps (lock_buddy k) k' = keeps k k'" "keeps k (unlock_buddy k') = keeps k k'"
  by (simp_all add: keeps_def lock_buddy_def unlock_buddy_def)

lemma lock_fields [simp]: "pages (lock_buddy k) = pages k" "buddy_start_pn (buddy (lock_buddy k)) = buddy_start_pn (buddy k)"
  "start_page (buddy (lock_buddy k)) = start_page (buddy k)" "lists (lock_buddy k) = lists k"
  "npages (lock_buddy k) = npages k" "pages (unlock_buddy k) = pages k"
  by (simp_all add: lock_buddy_def unlock_buddy_def)

text \<open>From the block in hand to the end of \<^verbatim>\<open>__free_pages\<close>.\<close>

lemma raw_free_pages_eq:
  "raw_free_pages p l k =
     (let k1 = lock_buddy (upd_page p (\<lambda>pg. pg\<lparr>flag := 0, reference := 0\<rparr>) k) in
      rbind (merge_loop k1 p (p - start_page (buddy k1)) l) (\<lambda>(k2, p, l).
        rbind (put_block p l k2) (\<lambda>k5. Inr (unlock_buddy k5))))"
  by (simp add: raw_free_pages_def put_block_def Let_def add_count_set_bplevel rbind_assoc)

lemma raw_free_hand:
  assumes I: "binv (upd_page p (\<lambda>pg. pg\<lparr>flag := 0, reference := 0\<rparr>) k) H E F A R {(p, l)}" and l: "l \<le> MAX_ORDER"
  shows "\<exists>k' F'. raw_free_pages p (of_nat l) k = Inr k' \<and> binv k' H E F' A R {}
    \<and> keeps (upd_page p (\<lambda>pg. pg\<lparr>flag := 0, reference := 0\<rparr>) k) k'"
proof -
  let ?k = "lock_buddy (upd_page p (\<lambda>pg. pg\<lparr>flag := 0, reference := 0\<rparr>) k)"
  have "flag (pages ?k p) \<noteq> 1" by (simp add: upd_page_def)
  then obtain k' p' l' F' where m: "merge_loop ?k p (p - start_page (buddy ?k)) (of_nat l) = Inr (k', p', of_nat l')"
    "binv k' H E F' A R {(p', l')}" "l' \<le> MAX_ORDER" "flag (pages k' p') \<noteq> 1"
    "l' < MAX_ORDER \<longrightarrow> bud p' l' \<notin> set (F' l')" "keeps ?k k'"
    using merge_loop_inv [of ?k H E F A R p l] I l by (auto simp only: binv_lock)
  obtain k'' where k'': "put_block p' (of_nat l') k' = Inr k''" "binv k'' H E (F'(l' := p' # F' l')) A R {}"
    "pages k'' = (pages k')(p' := (pages k' p')\<lparr>bplevel := of_nat l'\<rparr>)" "lo k'' = lo k'" "hi k'' = hi k'"
    "npages k'' = npages k'" "start_page (buddy k'') = start_page (buddy k')"
    using put_block_inv [of k' H E F' A R p' l' "{}"] m(2-5) by auto
  have "keeps k' k''" using k''(3-7) by (rule keeps_bplevel)
  then have "keeps ?k k''" using m(6) keeps_trans by blast
  then show ?thesis using m(1) k''(1,2) by (auto simp: raw_free_pages_eq Let_def)
qed

text \<open>A block that is handed out, or a reserved frame, comes into hand when its flag is cleared.\<close>

lemma release_hand:
  assumes I: "binv k H E F A R {}" and b: "(p, l) \<in> A" and ext: "ext_ok H E (A - {(p, l)})"
  shows "binv (upd_page p (\<lambda>pg. pg\<lparr>flag := 0, reference := 0\<rparr>) k) H E F (A - {(p, l)}) R {(p, l)}" "l \<le> MAX_ORDER"
proof -
  note d = binvD [OF I]
  let ?A = "A - {(p, l)}" and ?k = "upd_page p (\<lambda>pg. pg\<lparr>flag := 0, reference := 0\<rparr>) k"
  have bl: "(p, l) \<in> blocks F A R" using b by (simp add: blocks_def)
  then show l: "l \<le> MAX_ORDER" using tilingD(1) [OF d(2), of "(p, l)"] by (simp add: fits_in_def)
  have tg: "bplevel (pages k p) = of_nat l" "flag (pages k p) = 1" using d(4) b by (auto simp: tags_def)
  have pF: "p \<notin> set (F m)" if "m \<le> MAX_ORDER" for m using d(4) tg(2) that by (auto simp: tags_def)
  have pR: "p \<notin> R" using d(4) tg(2) by (auto simp: tags_def)
  have pA: "(p, m) \<notin> ?A" for m using head_unique [OF d(2), of p l m] b by (auto simp: blocks_def)
  have nb: "(p, l) \<notin> blocks F ?A R" using pF [OF l] pR by (auto simp: blocks_def free_blocks_def)
  have eq: "insert (p, l) (blocks F ?A R) = blocks F A R" using b by (auto simp: blocks_def)
  have t: "tags ((pages k)(p := (pages k p)\<lparr>flag := 0, reference := 0\<rparr>)) F ?A R"
    by (rule tags_fun_upd) (use d(4) pA pR pF in \<open>auto simp: tags_def\<close>)
  have g: "geom ?k = geom k" "lo ?k = lo k" "hi ?k = hi k" "lists ?k = lists k" "buddy ?k = buddy k"
    "pages ?k = (pages k)(p := (pages k p)\<lparr>flag := 0, reference := 0\<rparr>)"
    by (simp_all add: upd_page_def geom_def lo_def hi_def)
  show "binv ?k H E F ?A R {(p, l)}"
    unfolding binv_def g
    using d t nb ext by (intro conjI) (auto simp: eq)
qed

lemma reserved_hand:
  assumes I: "binv k H E F A R {}" and b: "p \<in> R"
  shows "binv (upd_page p (\<lambda>pg. pg\<lparr>flag := 0, reference := 0\<rparr>) k) H E F A (R - {p}) {(p, 0)}"
proof -
  note d = binvD [OF I]
  let ?k = "upd_page p (\<lambda>pg. pg\<lparr>flag := 0, reference := 0\<rparr>) k"
  have tg: "bplevel (pages k p) = -1" "flag (pages k p) \<noteq> 1" using d(4) b by (auto simp: tags_def)
  have pF: "p \<notin> set (F m)" if "m \<le> MAX_ORDER" for m
    using d(4) tg(1) that minus_one_level [OF that] by (auto simp: tags_def)
  have pA: "(p, m) \<notin> A" for m using d(4) tg(2) by (auto simp: tags_def)
  have nb: "(p, 0) \<notin> blocks F A (R - {p})" using pF [of 0] pA [of 0] by (auto simp: blocks_def free_blocks_def)
  have eq: "insert (p, 0) (blocks F A (R - {p})) = blocks F A R" using b by (auto simp: blocks_def)
  have "tags (pages k) F A (R - {p})" using d(4) by (auto simp: tags_def)
  then have t: "tags ((pages k)(p := (pages k p)\<lparr>flag := 0, reference := 0\<rparr>)) F A (R - {p})"
    by (rule tags_fun_upd) (use pA pF in auto)
  have g: "geom ?k = geom k" "lo ?k = lo k" "hi ?k = hi k" "lists ?k = lists k" "buddy ?k = buddy k"
    "pages ?k = (pages k)(p := (pages k p)\<lparr>flag := 0, reference := 0\<rparr>)"
    by (simp_all add: upd_page_def geom_def lo_def hi_def)
  show ?thesis
    unfolding binv_def g
    using d t nb by (intro conjI) (auto simp: eq)
qed

section \<open>Taking\<close>

lemma hand_not_tagged:
  assumes "binv k H E F A R X" "(p, l) \<in> X"
  shows "m \<le> MAX_ORDER \<Longrightarrow> p \<notin> set (F m)" "(p, m) \<notin> A" "p \<notin> R"
proof -
  note d = binvD [OF assms(1)]
  have new: "(p, j) \<notin> blocks F A R" for j
  proof
    assume j: "(p, j) \<in> blocks F A R"
    then have "j = l" using head_unique [OF d(2), of p j l] assms(2) by blast
    then show False using j assms(2) d(3) by blast
  qed
  show "(p, m) \<notin> A" using new [of m] by (simp add: blocks_def)
  show "p \<notin> R" using new [of 0] by (auto simp: blocks_def)
  show "m \<le> MAX_ORDER \<Longrightarrow> p \<notin> set (F m)" using new [of m] by (simp add: blocks_def free_blocks_def)
qed

lemma flag_hand:
  assumes I: "binv k H E F A R X" and b: "(p, l) \<in> X"
  shows "binv (upd_page p (\<lambda>pg. pg\<lparr>flag := 1\<rparr>) k) H E F A R X"
proof -
  note d = binvD [OF I]
  let ?k = "upd_page p (\<lambda>pg. pg\<lparr>flag := 1\<rparr>) k"
  have t: "tags ((pages k)(p := (pages k p)\<lparr>flag := 1\<rparr>)) F A R"
    by (rule tags_fun_upd [OF d(4)]) (use hand_not_tagged [OF I b] in auto)
  have g: "geom ?k = geom k" "lo ?k = lo k" "hi ?k = hi k" "lists ?k = lists k" "buddy ?k = buddy k"
    "pages ?k = (pages k)(p := (pages k p)\<lparr>flag := 1\<rparr>)"
    by (simp_all add: upd_page_def geom_def lo_def hi_def)
  have "p \<in> fst ` (A \<union> X)" using b by force
  then show ?thesis unfolding binv_def g using d t by (intro conjI) auto
qed

lemma hand_to_alloc:
  assumes I: "binv k H E F A R {(p, l)}" and t: "flag (pages k p) = 1" "bplevel (pages k p) = of_nat l"
  shows "binv k H E F (insert (p, l) A) R {}" "(p, l) \<notin> A"
proof -
  note d = binvD [OF I]
  show "(p, l) \<notin> A" using hand_not_tagged(2) [OF I insertI1] .
  have "blocks F (insert (p, l) A) R = blocks F A R \<union> {(p, l)}" by (auto simp: blocks_def)
  moreover have "tags (pages k) F (insert (p, l) A) R" using d(4) t by (simp add: tags_def)
  moreover have "ext_ok H E (insert (p, l) A)" using d(9) unfolding ext_ok_def by blast
  ultimately show "binv k H E F (insert (p, l) A) R {}" unfolding binv_def using d by auto
qed

lemma halve_size: "0 < c \<Longrightarrow> c \<le> MAX_ORDER \<Longrightarrow> drop_bit 1 (push_bit c 1 :: u32) = push_bit (c - 1) 1"
  by (rule bit_word_eqI) (auto simp: bit_simps MAX_ORDER_def)

lemma halve_loop_inv:
  assumes "binv k H E F A R {(p, c)}" "l \<le> c" "c \<le> MAX_ORDER" "dlist (lists k) (pn p) []"
  shows "\<exists>k' F'. halve_loop k p (push_bit c 1) (of_nat c) (of_nat l) = Inr k' \<and> binv k' H E F' A R {(p, l)}
    \<and> keeps k k' \<and> bplevel (pages k' p) = bplevel (pages k p) \<and> dlist (lists k') (pn p) []"
  using assms
proof (induction c arbitrary: k F)
  case 0
  then show ?case by (subst halve_loop.simps) auto
next
  case (Suc c)
  show ?case
  proof (cases "l = Suc c")
    case True
    then show ?thesis using Suc by (subst halve_loop.simps) auto
  next
    case False
    then have lc: "l \<le> c" "c < MAX_ORDER" using Suc(3,4) by simp_all
    have "(p, Suc c) \<notin> {}" by simp
    note hh = halve_hand [OF Suc(2) this]
    have pi: "page_interval (lo k) (hi k)" and fp: "fits_in (lo k) (hi k) (p, c)"
      using binvD(1,2) [OF Suc(2)] tilingD(1) [OF binvD(2) [OF hh(1)], of "(p, c)"] by (simp_all add: geom_def)
    have bb: "bud (bud p c) c = p" using bud_props(3) [OF pi fp lc(2)] .
    obtain k1 where k1: "put_block (bud p c) (of_nat c) k = Inr k1" "binv k1 H E (F(c := bud p c # F c)) A R {(p, c)}"
      "pages k1 = (pages k)(bud p c := (pages k (bud p c))\<lparr>bplevel := of_nat c\<rparr>)" "lo k1 = lo k" "hi k1 = hi k"
      "npages k1 = npages k" "start_page (buddy k1) = start_page (buddy k)" "dlist (lists k1) (pn p) []"
      using put_block_inv [OF hh(1)] hh(4,5,7) lc bb Suc(5) by auto
    have kk: "keeps k k1" using k1(3-7) by (rule keeps_bplevel)
    obtain k' F' where r: "halve_loop k1 p (push_bit c 1) (of_nat c) (of_nat l) = Inr k'" "binv k' H E F' A R {(p, l)}"
      "keeps k1 k'" "bplevel (pages k' p) = bplevel (pages k1 p)" "dlist (lists k') (pn p) []"
      using Suc(1) [OF k1(2) lc(1) _ k1(8)] lc(2) by auto
    have gt: "(of_nat l :: u32) < of_nat (Suc c)" using lc by (simp add: word_less_nat_alt unat_level del: of_nat_Suc)
    have o: "(of_nat (Suc c) :: u32) - 1 = of_nat c" by simp
    have sz: "drop_bit 1 (push_bit (Suc c) 1 :: u32) = push_bit c 1" using halve_size [of "Suc c"] lc by simp
    have "halve_loop k p (push_bit (Suc c) 1) (of_nat (Suc c)) (of_nat l)
        = rbind (put_block (bud p c) (of_nat c) k) (\<lambda>k'. halve_loop k' p (push_bit c 1) (of_nat c) (of_nat l))"
      by (subst halve_loop.simps, simp only: gt if_True o sz Let_def hh(6)) (simp add: put_block_def rbind_assoc)
    then have "halve_loop k p (push_bit (Suc c) 1) (of_nat (Suc c)) (of_nat l) = Inr k'" using k1(1) r(1) by simp
    moreover have "bplevel (pages k' p) = bplevel (pages k p)" using r(4) k1(3) hh(4) by simp
    ultimately show ?thesis using r(2,5) keeps_trans [OF kk r(3)] by blast
  qed
qed

lemma add_count_upd_page:
  "add_count l d (upd_page p f (set_bplevel p v k)) = rbind (add_count l d k) (\<lambda>k. Inr (upd_page p f (set_bplevel p v k)))"
  by (simp add: add_count_def set_bplevel_def upd_page_def rd_def wr_def)

lemma order_loop_inv:
  assumes "binv k H E F A R {}" "l \<le> m" "m \<le> Suc MAX_ORDER"
  shows "(\<exists>p c k' F'. order_loop k (of_nat l) (of_nat m) = Inr (Some p, k') \<and> m \<le> c \<and> c \<le> MAX_ORDER \<and> p \<in> set (F c)
       \<and> (\<forall>j. m \<le> j \<and> j < c \<longrightarrow> F j = []) \<and> binv k' H E F' (insert (p, l) A) R {} \<and> (p, l) \<notin> A
       \<and> keeps (upd_page p (\<lambda>pg. pg\<lparr>flag := 1\<rparr>) k) k' \<and> dlist (lists k') (pn p) []) \<or>
    order_loop k (of_nat l) (of_nat m) = Inr (None, k) \<and> (\<forall>j. m \<le> j \<and> j \<le> MAX_ORDER \<longrightarrow> F j = [])"
  using assms(2,3)
proof (induction "Suc MAX_ORDER - m" arbitrary: m)
  case 0
  then have m: "m = Suc MAX_ORDER" by simp
  have "\<not> (of_nat (Suc MAX_ORDER) :: u32) \<le> MAX_BUDDY_ORDER" by (simp add: MAX_ORDER_def MAX_BUDDY_ORDER_def)
  then show ?case unfolding m by (subst (2) order_loop.simps) auto
next
  case (Suc n)
  then have m: "m \<le> MAX_ORDER" by simp
  note ff = free_list_facts [OF assms(1) m]
  have mo: "(of_nat m :: u32) \<le> MAX_BUDDY_ORDER" using m by (simp add: word_le_nat_alt unat_level)
  show ?case
  proof (cases "F m")
    case Nil
    then have "order_loop k (of_nat l) (of_nat m) = order_loop k (of_nat l) (of_nat (Suc m))"
      using ff(5) mo by (subst order_loop.simps) (simp add: fh_def add.commute)
    moreover have gap: "F j = []" if "m \<le> j" "Suc m \<le> j \<Longrightarrow> F j = []" for j
      using that Nil by (cases "j = m") auto
    moreover have "n = Suc MAX_ORDER - Suc m" "l \<le> Suc m" "Suc m \<le> Suc MAX_ORDER" using Suc(2,3) m by simp_all
    note Suc(1) [OF this]
    ultimately show ?thesis
    proof (elim disjE exE conjE)
      fix p c k' F'
      assume "order_loop k (of_nat l) (of_nat (Suc m)) = Inr (Some p, k')" "Suc m \<le> c" "c \<le> MAX_ORDER" "p \<in> set (F c)"
        "\<forall>j. Suc m \<le> j \<and> j < c \<longrightarrow> F j = []" "binv k' H E F' (insert (p, l) A) R {}" "(p, l) \<notin> A"
        "keeps (upd_page p (\<lambda>pg. pg\<lparr>flag := 1\<rparr>) k) k'" "dlist (lists k') (pn p) []"
        "order_loop k (of_nat l) (of_nat m) = order_loop k (of_nat l) (of_nat (Suc m))"
      then show ?thesis using gap
        by (intro disjI1 exI [of _ p] exI [of _ c] exI [of _ k'] exI [of _ F']) simp
    next
      assume "order_loop k (of_nat l) (of_nat (Suc m)) = Inr (None, k)" "\<forall>j. Suc m \<le> j \<and> j \<le> MAX_ORDER \<longrightarrow> F j = []"
        "order_loop k (of_nat l) (of_nat m) = order_loop k (of_nat l) (of_nat (Suc m))"
      then show ?thesis using gap by (intro disjI2) simp
    qed
  next
    case (Cons p ps)
    let ?f = "\<lambda>pg :: page. pg\<lparr>flag := 1\<rparr>"
    have p: "p \<in> set (F m)" using Cons by simp
    obtain k1 where k1: "take_block p (of_nat m) (of_nat l) k = Inr k1" "binv k1 H E (F(m := remove1 p (F m))) A R {(p, m)}"
      "pages k1 = (pages k)(p := (pages k p)\<lparr>bplevel := of_nat l\<rparr>)" "lo k1 = lo k" "hi k1 = hi k"
      "npages k1 = npages k" "start_page (buddy k1) = start_page (buddy k)" "dlist (lists k1) (pn p) []"
      using take_block_inv [OF assms(1) m p, of "of_nat l"] by auto
    have I2: "binv (upd_page p ?f k1) H E (F(m := remove1 p (F m))) A R {(p, m)}"
      using flag_hand [OF k1(2)] by simp
    obtain k' F' where h: "halve_loop (upd_page p ?f k1) p (push_bit m 1) (of_nat m) (of_nat l) = Inr k'"
      "binv k' H E F' A R {(p, l)}" "keeps (upd_page p ?f k1) k'" "bplevel (pages k' p) = bplevel (pages (upd_page p ?f k1) p)"
      "dlist (lists k') (pn p) []"
      using halve_loop_inv [OF I2 Suc(3) m] k1(8) by (auto simp: upd_page_def)
    have t: "flag (pages k' p) = 1" "bplevel (pages k' p) = of_nat l"
      using h(3,4) k1(3) by (simp_all add: keeps_page upd_page_def)
    note al = hand_to_alloc [OF h(2) t]
    have kk: "keeps (upd_page p ?f k) k'"
    proof (rule keeps_trans [OF _ h(3)])
      show "keeps (upd_page p ?f k) (upd_page p ?f k1)"
        using k1(3-7) unfolding keeps_def lo_def hi_def upd_page_def by (auto dest: unat_bij_blk)
    qed
    have ne: "\<not> list_empty (At (FreeHead (of_nat m))) (lists k)" "nxt (lists k) (At (FreeHead (of_nat m))) = At (PageList p)"
      using ff(5) ff(6) [OF Cons] Cons by (simp_all add: fh_def pn_def)
    have "order_loop k (of_nat l) (of_nat m) =
      rbind (take_block p (of_nat m) (of_nat l) k) (\<lambda>k1.
        rbind (halve_loop (upd_page p ?f k1) p (push_bit m 1) (of_nat m) (of_nat l)) (\<lambda>k4. Inr (Some p, k4)))"
      using mo ne m
      by (subst order_loop.simps) (simp add: take_block_def rbind_assoc Let_def add_count_upd_page unat_level)
    then have "order_loop k (of_nat l) (of_nat m) = Inr (Some p, k')" using k1(1) h(1) by simp
    then show ?thesis using al kk m p h(5) by (intro disjI1 exI [of _ p] exI [of _ m] exI [of _ k'] exI [of _ F']) auto
  qed
qed

end
