(* ===== verification/BuddyThms.thy ===== *)
theory BuddyThms
  imports BuddyInv
begin

text \<open>
  What the buddy system promises: allocation and release as operations on the set of blocks
  handed out, and full merging.
\<close>

section \<open>Free frames\<close>

definition frees :: "(nat \<Rightarrow> u32 list) \<Rightarrow> nat set" where
  "frees F = (\<Union>b\<in>free_blocks F. blk b)"

lemma part_of_three: "X \<inter> Y = {} \<Longrightarrow> X \<inter> Z = {} \<Longrightarrow> X \<union> Y \<union> Z = W \<Longrightarrow> X = W - Y - Z"
  by blast

lemma frees_eq:
  assumes "binv k H E F A R {}"
  shows "frees F = {lo k..<hi k} - (\<Union>b\<in>A. blk b) - (unat ` R)"
proof -
  note d = binvD [OF assms]
  have t: "tiling (lo k) (hi k) (blocks F A R)" using d(2) by simp
  have u: "(\<Union>b\<in>blocks F A R. blk b) = {lo k..<hi k}" using t by (simp add: tiling_def)
  have R: "(\<Union>b\<in>(\<lambda>p. (p, 0)) ` R. blk b) = unat ` R" by (auto simp: blk_def)
  have ap: "blk b \<inter> blk c = {}" if "b \<in> free_blocks F" "c \<in> A \<or> c \<in> (\<lambda>p. (p, 0)) ` R" for b c
  proof -
    have "b \<noteq> c"
    proof
      assume e: "b = c"
      obtain p l where b: "b = (p, l)" by (cases b)
      have "l \<le> MAX_ORDER" "p \<in> set (F l)" using that(1) b by (simp_all add: free_blocks_def)
      note u = free_block_unique(3,5) [OF assms this]
      then show False using that(2) e b by auto
    qed
    then show ?thesis using t that unfolding tiling_def blocks_def by blast
  qed
  have "frees F \<inter> (\<Union>b\<in>A. blk b) = {}" using ap unfolding frees_def by blast
  moreover have "frees F \<inter> unat ` R = {}" using ap unfolding frees_def R [symmetric] by blast
  moreover have "frees F \<union> (\<Union>b\<in>A. blk b) \<union> unat ` R = {lo k..<hi k}"
    using u unfolding blocks_def frees_def R [symmetric] by (simp add: UN_Un)
  ultimately show ?thesis by (rule part_of_three)
qed

lemma alloc_blocks_apart:
  assumes "binv k H E F A R {}" "b \<in> A" "c \<in> A" "b \<noteq> c"
  shows "blk b \<inter> blk c = {}" "fits_in (lo k) (hi k) b"
  using binvD(2) [OF assms(1)] assms(2-4) unfolding tiling_def blocks_def by auto

section \<open>A small system\<close>

text \<open>Sixteen frames in one free block, for the witnesses.\<close>

definition demo_raw :: kmem where
  "demo_raw = \<lparr>npages = 16, pages = (\<lambda>_. fresh_page), lists = \<lparr>prv = (\<lambda>p. p), nxt = (\<lambda>p. p)\<rparr>,
     buddy = \<lparr>buddy_start_pn = 0, buddy_end_pn = 16, start_page = 0, buddy_lock = \<lparr>spin = 0\<rparr>,
       free_count = replicate 5 0\<rparr>, status = 1\<rparr>"

definition head_nodes :: "node ptr set" where
  "head_nodes = fh ` {..MAX_ORDER}"

lemma heads_head_nodes: "heads head_nodes"
  by (auto simp: heads_def head_nodes_def fh_def pn_def unat_level)

lemma demo_raw_inv: "binv demo_raw head_nodes (\<lambda>_. []) (\<lambda>_. []) {} {} {(0, 4)}"
  unfolding binv_def
proof (intro conjI)
  show "geom demo_raw" by (simp add: geom_def demo_raw_def lo_def hi_def page_interval_def MAX_ORDER_def)
  show "tiling (lo demo_raw) (hi demo_raw) (blocks (\<lambda>_. []) {} {} \<union> {(0, 4)})"
    by (auto simp: tiling_def blocks_def free_blocks_def fits_in_def blk_def demo_raw_def lo_def hi_def MAX_ORDER_def)
  show "dlists (lists demo_raw) head_nodes (gof (\<lambda>_. []) (\<lambda>_. []))"
    by (auto simp: dlists_def dlist_def demo_raw_def head_nodes_def gof_def fh_def)
qed (auto simp: blocks_def free_blocks_def tags_def counts_def demo_raw_def heads_head_nodes ext_ok_def nocoal_def
  fresh_page_def nth_replicate MAX_ORDER_def)

definition demo_kmem :: kmem where
  "demo_kmem = projr (put_block 0 4 demo_raw)"

lemma demo_kmem_inv: "binv demo_kmem head_nodes (\<lambda>_. []) ((\<lambda>_. [])(4 := [0])) {} {} {}" "lo demo_kmem = 0" "hi demo_kmem = 16"
proof -
  have "\<exists>k'. put_block 0 (of_nat 4) demo_raw = Inr k' \<and> binv k' head_nodes (\<lambda>_. []) ((\<lambda>_. [])(4 := [0])) {} {} {}
    \<and> lo k' = lo demo_raw \<and> hi k' = hi demo_raw"
    using put_block_inv [OF demo_raw_inv] by (auto simp: MAX_ORDER_def demo_raw_def fresh_page_def)
  then show "binv demo_kmem head_nodes (\<lambda>_. []) ((\<lambda>_. [])(4 := [0])) {} {} {}" "lo demo_kmem = 0" "hi demo_kmem = 16"
    by (auto simp: demo_kmem_def demo_raw_def lo_def hi_def)
qed

section \<open>Allocation\<close>

lemma raw_alloc_spec:
  assumes "binv k H E F A R {}" "l \<le> MAX_ORDER"
  shows "(\<exists>p k' F'. raw_alloc_pages (of_nat l) k = Inr (Some p, k') \<and> fits_in (lo k) (hi k) (p, l)
      \<and> (\<forall>b\<in>A. blk b \<inter> blk (p, l) = {}) \<and> blk (p, l) \<subseteq> frees F
      \<and> binv k' H E F' (insert (p, l) A) R {} \<and> frees F' = frees F - blk (p, l)) \<or>
    (\<exists>k'. raw_alloc_pages (of_nat l) k = Inr (None, k') \<and> binv k' H E F A R {} \<and> pages k' = pages k
      \<and> (\<forall>j. l \<le> j \<and> j \<le> MAX_ORDER \<longrightarrow> F j = []))"
proof -
  have I: "binv (lock_buddy k) H E F A R {}" using assms(1) by simp
  have lk: "lo (lock_buddy k) = lo k" "hi (lock_buddy k) = hi k" by (simp_all add: lo_def hi_def lock_buddy_def)
  from order_loop_inv [OF I order_refl le_SucI [OF assms(2)]] show ?thesis
  proof (elim disjE exE conjE; (simp; fail)?)
    fix p c k' F'
    assume r: "order_loop (lock_buddy k) (of_nat l) (of_nat l) = Inr (Some p, k')" "l \<le> c" "c \<le> MAX_ORDER" "p \<in> set (F c)"
      and I': "binv k' H E F' (insert (p, l) A) R {}" and nA: "(p, l) \<notin> A"
      and kp: "keeps (upd_page p (\<lambda>pg. pg\<lparr>flag := 1\<rparr>) (lock_buddy k)) k'"
    have g: "lo k' = lo k" "hi k' = hi k"
      using kp by (simp_all add: keeps_def lo_def hi_def upd_page_def lock_buddy_def)
    have u: "raw_alloc_pages (of_nat l) k = Inr (Some p, unlock_buddy k')" using r by (simp add: raw_alloc_pages_def)
    have f: "fits_in (lo k) (hi k) (p, l)"
      using tilingD(1) [OF binvD(2) [OF I'], of "(p, l)"] g by (simp add: blocks_def)
    have ap: "\<forall>b\<in>A. blk b \<inter> blk (p, l) = {}" using alloc_blocks_apart(1) [OF I', of _ "(p, l)"] nA by blast
    have fb: "blk (p, l) \<subseteq> blk (p, c)" using r(2) by (auto simp: blk_def intro: less_le_trans)
    have sub: "blk (p, l) \<subseteq> frees F" using fb r(3,4) unfolding frees_def free_blocks_def by blast
    have "frees F' = frees F - blk (p, l)"
      unfolding frees_eq [OF I'] frees_eq [OF assms(1)] g by auto
    then show ?thesis using u f ap sub I' by (intro disjI1 exI [of _ p] exI [of _ "unlock_buddy k'"] exI [of _ F']) simp
  next
    assume r: "order_loop (lock_buddy k) (of_nat l) (of_nat l) = Inr (None, lock_buddy k)"
      and e: "\<forall>j. l \<le> j \<and> j \<le> MAX_ORDER \<longrightarrow> F j = []"
    have "raw_alloc_pages (of_nat l) k = Inr (None, unlock_buddy (lock_buddy k))" using r by (simp add: raw_alloc_pages_def)
    then show ?thesis using e assms(1) by (intro disjI2 exI [of _ "unlock_buddy (lock_buddy k)"]) simp
  qed
qed

text \<open>
  C1. Allocation in a consistent buddy system takes a block of the requested size that is
  aligned, inside the managed frames and disjoint from every block handed out before, and turns
  exactly its frames from free to allocated; it returns the null pointer only when no free
  block of that size or a larger one exists, and then changes no descriptor.
\<close>

theorem raw_alloc_pages_correct:
  assumes "binv k H E F A R {}" "l \<le> MAX_ORDER"
  shows "(\<exists>p k' F'. raw_alloc_pages (of_nat l) k = Inr (Some p, k') \<and> fits_in (lo k) (hi k) (p, l)
      \<and> (\<forall>b\<in>A. blk b \<inter> blk (p, l) = {}) \<and> blk (p, l) \<subseteq> frees F
      \<and> binv k' H E F' (insert (p, l) A) R {} \<and> frees F' = frees F - blk (p, l)) \<or>
    (\<exists>k'. raw_alloc_pages (of_nat l) k = Inr (None, k') \<and> binv k' H E F A R {} \<and> pages k' = pages k
      \<and> (\<forall>j. l \<le> j \<and> j \<le> MAX_ORDER \<longrightarrow> F j = []))"
  using assms by (rule raw_alloc_spec)

theorem raw_alloc_pages_correct_witness:
  "\<exists>p k' F'. raw_alloc_pages 1 demo_kmem = Inr (Some p, k') \<and> fits_in 0 16 (p, 1)
     \<and> binv k' head_nodes (\<lambda>_. []) F' {(p, 1)} {} {} \<and> frees F' = {0..<16} - blk (p, 1)"
proof -
  have f: "frees ((\<lambda>_. [])(4 := [0])) = {0..<16}" by (auto simp: frees_def free_blocks_def blk_def MAX_ORDER_def)
  have "(of_nat 1 :: u32) = 1" "1 \<le> MAX_ORDER" "\<not> (\<forall>j. 1 \<le> j \<and> j \<le> MAX_ORDER \<longrightarrow> ((\<lambda>_. [])(4 := [0 :: u32])) j = [])"
    by (auto simp: MAX_ORDER_def)
  with raw_alloc_pages_correct [OF demo_kmem_inv(1), of 1] f show ?thesis unfolding demo_kmem_inv(2,3) by auto
qed

section \<open>Release\<close>

lemma raw_free_spec:
  assumes "binv k H E F A R {}" "(p, l) \<in> A" "ext_ok H E (A - {(p, l)})"
  shows "\<exists>k' F'. raw_free_pages p (of_nat l) k = Inr k' \<and> binv k' H E F' (A - {(p, l)}) R {}
    \<and> frees F' = frees F \<union> blk (p, l) \<and> (\<forall>j<MAX_ORDER. \<forall>q\<in>set (F' j). bud q j \<notin> set (F' j))
    \<and> (\<forall>b\<in>A. b \<noteq> (p, l) \<longrightarrow> flag (pages k' (fst b)) = 1 \<and> bplevel (pages k' (fst b)) = of_nat (snd b))"
proof -
  let ?k = "upd_page p (\<lambda>pg. pg\<lparr>flag := 0, reference := 0\<rparr>) k"
  note rh = release_hand [OF assms]
  obtain k' F' where r: "raw_free_pages p (of_nat l) k = Inr k'" "binv k' H E F' (A - {(p, l)}) R {}" "keeps ?k k'"
    using raw_free_hand [OF rh] by blast
  have g: "lo k' = lo k" "hi k' = hi k" using r(3) by (simp_all add: keeps_def lo_def hi_def upd_page_def)
  have "blk (p, l) \<subseteq> {lo k..<hi k}" "blk (p, l) \<inter> unat ` R = {}"
  proof -
    show "blk (p, l) \<subseteq> {lo k..<hi k}"
      using alloc_blocks_apart(2) [OF assms(1,2) assms(2)] tilingD(1) [OF binvD(2) [OF assms(1)], of "(p, l)"] assms(2)
      by (auto simp: blocks_def fits_in_def blk_def)
    have "blk (p, l) \<inter> blk (q, 0) = {}" if "q \<in> R" for q
    proof -
      have "(q, 0) \<noteq> (p, l)" using binvD(4) [OF assms(1)] assms(2) that by (auto simp: tags_def)
      then show ?thesis using binvD(2) [OF assms(1)] assms(2) that unfolding tiling_def blocks_def by blast
    qed
    then show "blk (p, l) \<inter> unat ` R = {}" by (auto simp: blk_def)
  qed
  moreover have "(\<Union>b\<in>A - {(p, l)}. blk b) = (\<Union>b\<in>A. blk b) - blk (p, l)"
    using alloc_blocks_apart(1) [OF assms(1) _ assms(2)] by blast
  ultimately have "frees F' = frees F \<union> blk (p, l)"
    unfolding frees_eq [OF r(2)] frees_eq [OF assms(1)] g using assms(2) by blast
  moreover have "\<forall>j<MAX_ORDER. \<forall>q\<in>set (F' j). bud q j \<notin> set (F' j)" using binvD(10) [OF r(2)] by (simp add: nocoal_def)
  moreover have "\<forall>b\<in>A. b \<noteq> (p, l) \<longrightarrow> flag (pages k' (fst b)) = 1 \<and> bplevel (pages k' (fst b)) = of_nat (snd b)"
    using binvD(4) [OF r(2)] by (auto simp: tags_def)
  ultimately show ?thesis using r(1,2) by blast
qed

text \<open>
  C2. Releasing a block that was handed out gives exactly its frames back, whichever buddies
  are merged on the way, keeps every other block, and leaves no two free buddies unmerged. The
  hypothesis on the other lists is that none of them still holds a page of the block.
\<close>

theorem raw_free_pages_correct:
  assumes "binv k H E F A R {}" "(p, l) \<in> A" "ext_ok H E (A - {(p, l)})"
  shows "\<exists>k' F'. raw_free_pages p (of_nat l) k = Inr k' \<and> binv k' H E F' (A - {(p, l)}) R {}
    \<and> frees F' = frees F \<union> blk (p, l) \<and> (\<forall>j<MAX_ORDER. \<forall>q\<in>set (F' j). bud q j \<notin> set (F' j))
    \<and> (\<forall>b\<in>A. b \<noteq> (p, l) \<longrightarrow> flag (pages k' (fst b)) = 1 \<and> bplevel (pages k' (fst b)) = of_nat (snd b))"
  using assms by (rule raw_free_spec)

lemma fully_merged:
  assumes "binv k H E F {} {} {}" "l < MAX_ORDER"
  shows "F l = []"
proof (rule ccontr)
  note d = binvD [OF assms(1)]
  assume "F l \<noteq> []"
  then have ex: "\<exists>j. F j \<noteq> []" by blast
  define j where "j = (LEAST j. F j \<noteq> [])"
  have j: "F j \<noteq> []" "j \<le> l" and min: "\<And>m. m < j \<Longrightarrow> F m = []"
    unfolding j_def using LeastI_ex [OF ex] Least_le [of "\<lambda>j. F j \<noteq> []" l] \<open>F l \<noteq> []\<close> not_less_Least by blast+
  obtain p where p: "p \<in> set (F j)" using j(1) by (cases "F j") auto
  have jl: "j < MAX_ORDER" using j(2) assms(2) by simp
  have pi: "page_interval (lo k) (hi k)" using d(1) by (simp add: geom_def)
  have "(p, j) \<in> blocks F {} {} \<union> {}" using p jl by (simp add: blocks_def free_blocks_def)
  then obtain m where m: "m \<le> j" "(bud p j, m) \<in> blocks F {} {} \<union> {}"
    using buddy_starts_block [OF d(2) _ jl pi] by blast
  then have bm: "bud p j \<in> set (F m)" by (simp add: blocks_def free_blocks_def)
  then have "m = j" using min [of m] m(1) by (cases "m = j") auto
  then show False using d(10) p bm jl by (auto simp: nocoal_def)
qed

text \<open>
  Merging is complete: a buddy system with nothing handed out consists of blocks of the
  largest size only, so every release undoes all earlier splitting.
\<close>

lemma all_free_fully_merged:
  assumes "binv k H E F {} {} {}" "l < MAX_ORDER"
  shows "F l = []"
  using assms by (rule fully_merged)

text \<open>One block of two frames taken from the small system, and given back.\<close>

lemma demo_alloc:
  obtains p k' F' where "raw_alloc_pages 1 demo_kmem = Inr (Some p, k')"
    "binv k' head_nodes (\<lambda>_. []) F' {(p, 1)} {} {}" "frees F' = {0..<16} - blk (p, 1)" "blk (p, 1) \<subseteq> {0..<16}"
proof -
  have f: "frees ((\<lambda>_. [])(4 := [0])) = {0..<16}" by (auto simp: frees_def free_blocks_def blk_def MAX_ORDER_def)
  have "(of_nat 1 :: u32) = 1" "1 \<le> MAX_ORDER" "\<not> (\<forall>j. 1 \<le> j \<and> j \<le> MAX_ORDER \<longrightarrow> ((\<lambda>_. [])(4 := [0 :: u32])) j = [])"
    by (auto simp: MAX_ORDER_def)
  with raw_alloc_spec [OF demo_kmem_inv(1), of 1] f that show thesis unfolding demo_kmem_inv(2,3) by auto
qed

theorem raw_free_pages_correct_witness:
  "\<exists>p k1 k2 F2. raw_alloc_pages 1 demo_kmem = Inr (Some p, k1) \<and> raw_free_pages p 1 k1 = Inr k2
     \<and> binv k2 head_nodes (\<lambda>_. []) F2 {} {} {} \<and> frees F2 = {0..<16}"
proof -
  obtain p k1 F1 where a: "raw_alloc_pages 1 demo_kmem = Inr (Some p, k1)"
    "binv k1 head_nodes (\<lambda>_. []) F1 {(p, 1)} {} {}" "frees F1 = {0..<16} - blk (p, 1)" "blk (p, 1) \<subseteq> {0..<16}"
    by (rule demo_alloc)
  have "ext_ok head_nodes (\<lambda>_. []) ({(p, 1)} - {(p, 1)})" by (simp add: ext_ok_def)
  from raw_free_pages_correct [OF a(2) insertI1 this] a(1,3,4) show ?thesis by (auto simp: Un_absorb2)
qed

lemma all_free_fully_merged_witness:
  "((\<lambda>_. [])(4 := [0 :: u32])) (3 :: nat) = []"
  using all_free_fully_merged [OF demo_kmem_inv(1), of 3] by (simp add: MAX_ORDER_def)

end
