(* ===== verification/BuddyInit.thy ===== *)
theory BuddyInit
  imports BuddyThms BootSegs
begin

text \<open>
  Initialisation of the buddy system establishes the invariant, and every sequence of
  \<^verbatim>\<open>alloc_pages\<close> and \<^verbatim>\<open>free_pages\<close> keeps it: what the callers hold are disjoint, aligned blocks.
\<close>

section \<open>init_buddy\<close>

lemma init_pages_spec:
  "pages (init_pages k i fin) p = (if i \<le> p \<and> p < fin then fresh_page else pages k p)
   \<and> npages (init_pages k i fin) = npages k \<and> buddy (init_pages k i fin) = buddy k"
proof (induction k i fin rule: init_pages.induct)
  case (1 k i fin)
  show ?case
  proof (cases "i < fin")
    case True
    let ?k = "upd_lists (INIT_LIST_HEAD (At (PageList i))) (upd_page i (\<lambda>_. fresh_page) k)"
    have "i + 1 \<le> p \<longleftrightarrow> i \<le> p \<and> p \<noteq> i"
      using unat_Suc_less [OF True] by (auto simp: word_le_nat_alt word_unat_eq_iff)
    then show ?thesis using 1 [OF True] True
      by (subst (1 2 3) init_pages.simps) (auto simp: upd_lists_def upd_page_def)
  next
    case False
    then show ?thesis by (subst (1 2 3) init_pages.simps) auto
  qed
qed

lemma init_freelists_spec:
  "dlists (lists (init_freelists k)) head_nodes (gof (\<lambda>_. []) (\<lambda>_. []))" (is ?A)
  "pages (init_freelists k) = pages k" "npages (init_freelists k) = npages k"
  "buddy (init_freelists k) = (buddy k)\<lparr>free_count := replicate 5 0\<rparr>"
proof -
  show "pages (init_freelists k) = pages k" "npages (init_freelists k) = npages k"
    "buddy (init_freelists k) = (buddy k)\<lparr>free_count := replicate 5 0\<rparr>"
    by (simp_all add: init_freelists_def upd_lists_def)
  have z: "gof (\<lambda>_. []) (\<lambda>_. []) = (\<lambda>_. [])" by (rule ext) (auto simp: gof_def split: ptr.splits node.splits)
  have e: "dlists (lists k) {} (\<lambda>_. [])" by (simp add: dlists_def)
  have i: "dlists (INIT_LIST_HEAD (At (FreeHead j)) h) (insert (At (FreeHead j)) H) (\<lambda>_. [])"
    if "dlists h H (\<lambda>_. [])" "At (FreeHead j) \<notin> H" for j h H
    using dl.rep_init [OF that] by (simp add: fun_upd_idem)
  have hn: "head_nodes = {At (FreeHead 4), At (FreeHead 3), At (FreeHead 2), At (FreeHead 1), At (FreeHead 0)}"
    by (auto simp: head_nodes_def fh_def MAX_ORDER_def atMost_Suc numeral_eq_Suc)
  show ?A unfolding z hn
    by (simp add: init_freelists_def upd_lists_def, intro i e) simp_all
qed

lemma free_all_inv:
  assumes "binv k H E F A {p. unat i \<le> unat p \<and> unat p < hi k} {}" "unat fin = hi k"
  shows "\<exists>k' F'. free_all k i fin = Inr k' \<and> binv k' H E F' A {} {} \<and> lo k' = lo k \<and> hi k' = hi k"
  using assms
proof (induction "unat fin - unat i" arbitrary: k F i)
  case 0
  then have e: "{p. unat i \<le> unat p \<and> unat p < hi k} = {}" and i: "\<not> i < fin" by (auto simp: word_less_nat_alt)
  have "binv k H E F A {} {}" using 0(2) unfolding e .
  then show ?case using i by (subst free_all.simps) auto
next
  case (Suc n)
  then have lt: "i < fin" by (simp add: word_less_nat_alt)
  have suc: "unat (i + 1) = Suc (unat i)" using lt by (rule unat_Suc_less)
  let ?R = "{p. unat i \<le> unat p \<and> unat p < hi k}"
  have "unat i < hi k" using Suc(2,4) by simp
  then have I: "binv (upd_page i (\<lambda>pg. pg\<lparr>flag := 0, reference := 0\<rparr>) k) H E F A (?R - {i}) {(i, 0)}"
    using reserved_hand [OF Suc(3), of i] by simp
  obtain k' F' where r: "raw_free_pages i (of_nat 0) k = Inr k'" "binv k' H E F' A (?R - {i}) {}"
    "keeps (upd_page i (\<lambda>pg. pg\<lparr>flag := 0, reference := 0\<rparr>) k) k'"
    using raw_free_hand [OF I] by auto
  have g: "lo k' = lo k" "hi k' = hi k" using r(3) by (simp_all add: keeps_def lo_def hi_def upd_page_def)
  have "?R - {i} = {p. unat (i + 1) \<le> unat p \<and> unat p < hi k'}"
    using suc g(2) by (auto simp: word_unat_eq_iff)
  then have I': "binv k' H E F' A {p. unat (i + 1) \<le> unat p \<and> unat p < hi k'} {}" using r(2) by simp
  have "n = unat fin - unat (i + 1)" using Suc(2) suc by simp
  from Suc(1) [OF this I'] Suc(4) g obtain k'' F'' where
    "free_all k' (i + 1) fin = Inr k''" "binv k'' H E F'' A {} {}" "lo k'' = lo k" "hi k'' = hi k" by auto
  then show ?case using r(1) lt by (subst free_all.simps) auto
qed

lemma reserved_tiling: "s \<le> e \<Longrightarrow> e \<le> 2 ^ 32 \<Longrightarrow> tiling s e ((\<lambda>p. (p, 0)) ` {p :: u32. s \<le> unat p \<and> unat p < e})"
proof -
  assume le: "s \<le> e" "e \<le> 2 ^ 32"
  have "\<exists>p :: u32. unat p = x" if "x < e" for x
    using that le by (intro exI [of _ "of_nat x"]) (simp add: unat_of_nat take_bit_nat_eq_self)
  then show ?thesis by (auto simp: tiling_def fits_in_def blk_def word_unat_eq_iff) blast
qed

lemma order_mask_unat: "unat (a AND NOT order_mask) = 16 * (unat a div 16)"
proof -
  have "order_mask = mask 4" by (simp add: order_mask_def mask_eq_exp_minus_1 push_bit_eq_mult MAX_BUDDY_ORDER_def MAX_ORDER_def)
  then show ?thesis using unat_and_not_mask [of a 4] by simp
qed

lemma init_buddy_spec:
  assumes boot: "bootmm_alloc_pages bmm (sizeof_page * max_pn bmm) MM_KERNEL (push_bit PAGE_SHIFT 1) = Inr (bp, bmm')"
    and bp: "bp \<noteq> 0" and room: "unat (buddy_start bmm') \<le> 16 * (unat (max_pn bmm') div 16)"
  shows "\<exists>k' F. init_buddy bmm k = Inr (bmm', k') \<and> binv k' head_nodes (\<lambda>_. []) F {} {} {}
    \<and> lo k' = unat (buddy_start bmm') \<and> hi k' = 16 * (unat (max_pn bmm') div 16)"
proof -
  let ?s = "buddy_start bmm'" and ?e = "max_pn bmm' AND NOT order_mask"
  let ?k1 = "init_pages (k\<lparr>npages := max_pn bmm'\<rparr>) 0 (max_pn bmm')"
  let ?k2 = "init_freelists (?k1\<lparr>buddy := (buddy ?k1)\<lparr>buddy_start_pn := ?s, buddy_end_pn := ?e\<rparr>\<rparr>)"
  let ?k3 = "?k2\<lparr>lists := INIT_LIST_HEAD (At LockWait) (lists ?k2),
    buddy := (buddy ?k2)\<lparr>start_page := ?s, buddy_lock := \<lparr>spin = 0\<rparr>\<rparr>\<rparr>"
  have e: "unat ?e = 16 * (unat (max_pn bmm') div 16)" by (rule order_mask_unat)
  have s16: "16 dvd unat ?s" unfolding buddy_start_def order_mask_unat by simp
  have g: "lo ?k3 = unat ?s" "hi ?k3 = unat ?e" by (simp_all add: lo_def hi_def init_freelists_spec)
  let ?R = "{p. unat ?s \<le> unat p \<and> unat p < hi ?k3}"
  have pg: "pages ?k3 p = fresh_page" if "unat p < unat ?e" for p
  proof -
    have "unat ?e \<le> unat (max_pn bmm')" unfolding e by simp
    then have "p < max_pn bmm'" using that by (simp add: word_less_nat_alt)
    then show ?thesis using init_pages_spec [of "k\<lparr>npages := max_pn bmm'\<rparr>" 0 "max_pn bmm'" p]
      by (simp add: init_freelists_spec)
  qed
  have bl: "blocks (\<lambda>_. []) {} ?R = (\<lambda>p. (p, 0)) ` ?R" by (auto simp: blocks_def free_blocks_def)
  have "binv ?k3 head_nodes (\<lambda>_. []) (\<lambda>_. []) {} ?R {}"
    unfolding binv_def
  proof (intro conjI)
    have "16 * (unat (max_pn bmm') div 16) \<le> unat (max_pn bmm')" by simp
    moreover have "(2 :: nat) ^ 32 = 4294967296" by simp
    ultimately have le: "16 * (unat (max_pn bmm') div 16) \<le> 2 ^ 32" using unat_less_2p32 [of "max_pn bmm'"] by linarith
    have "(2 :: nat) ^ MAX_ORDER = 16" by (simp add: MAX_ORDER_def)
    then have pi: "page_interval (lo ?k3) (hi ?k3)" unfolding g page_interval_def e using s16 le dvd_triv_left by simp
    have "hi ?k3 \<le> unat (max_pn bmm')" unfolding g e by simp
    then show "geom ?k3" using pi init_pages_spec [of "k\<lparr>npages := max_pn bmm'\<rparr>" 0 "max_pn bmm'"]
      by (simp add: geom_def init_freelists_spec)
    show "tiling (lo ?k3) (hi ?k3) (blocks (\<lambda>_. []) {} ?R \<union> {})"
      unfolding bl Un_empty_right using reserved_tiling [of "lo ?k3" "hi ?k3"] room g e pi by (simp add: page_interval_def)
    show "tags (pages ?k3) (\<lambda>_. []) {} ?R" using pg g by (auto simp: tags_def fresh_page_def)
    show "\<forall>p. lo ?k3 \<le> unat p \<and> unat p < hi ?k3 \<and> flag (pages ?k3 p) = 1 \<longrightarrow> p \<in> fst ` ({} \<union> {})"
      using pg g by (auto simp: fresh_page_def)
    show "counts (free_count (buddy ?k3)) (\<lambda>_. [])"
      by (auto simp: counts_def init_freelists_spec MAX_ORDER_def nth_replicate)
    have "dlists (INIT_LIST_HEAD (At LockWait) (lists ?k2)) (insert (At LockWait) head_nodes) ((gof (\<lambda>_. []) (\<lambda>_. []))(At LockWait := []))"
      using init_freelists_spec(1) by (intro dl.rep_init) (auto simp: head_nodes_def fh_def gof_def split: ptr.splits node.splits)
    then have "dlists (lists ?k3) head_nodes ((gof (\<lambda>_. []) (\<lambda>_. []))(At LockWait := []))"
      by (auto intro: dl.rep_subset)
    then show "dlists (lists ?k3) head_nodes (gof (\<lambda>_. []) (\<lambda>_. []))"
      by (rule dl.rep_cong) (auto simp: head_nodes_def fh_def)
  qed (auto simp: heads_head_nodes ext_ok_def nocoal_def)
  from free_all_inv [OF this, of ?e] g obtain k' F where
    "free_all ?k3 ?s ?e = Inr k'" "binv k' head_nodes (\<lambda>_. []) F {} {} {}" "lo k' = unat ?s" "hi k' = unat ?e" by auto
  moreover have "init_buddy bmm k = rbind (free_all ?k3 ?s ?e) (\<lambda>k4. Inr (bmm', k4))"
    using boot bp by (simp add: init_buddy_def init_lock_def Let_def)
  ultimately show ?thesis using e by auto
qed

text \<open>
  C23. After the boot allocator has provided the descriptor array, \<^verbatim>\<open>init_buddy\<close> ends with every
  frame between the first multiple of 16 after the kernel and the last multiple of 16 below
  \<^verbatim>\<open>max_pn\<close> free, merged into blocks of 16 frames, and nothing handed out. The hypotheses are the
  result of the boot allocator and that the kernel ends below that limit.
\<close>

theorem init_buddy_all_free:
  assumes "bootmm_alloc_pages bmm (sizeof_page * max_pn bmm) MM_KERNEL (push_bit PAGE_SHIFT 1) = Inr (bp, bmm')"
    and "bp \<noteq> 0" and "unat (buddy_start bmm') \<le> 16 * (unat (max_pn bmm') div 16)"
  shows "\<exists>k' F. init_buddy bmm k = Inr (bmm', k') \<and> binv k' head_nodes (\<lambda>_. []) F {} {} {}
    \<and> frees F = {unat (buddy_start bmm')..<16 * (unat (max_pn bmm') div 16)} \<and> (\<forall>l<MAX_ORDER. F l = [])"
proof -
  obtain k' F where k': "init_buddy bmm k = Inr (bmm', k')" "binv k' head_nodes (\<lambda>_. []) F {} {} {}"
    "lo k' = unat (buddy_start bmm')" "hi k' = 16 * (unat (max_pn bmm') div 16)"
    using init_buddy_spec [OF assms] by blast
  moreover have "\<forall>l<MAX_ORDER. F l = []" using fully_merged [OF k'(2)] by blast
  ultimately show ?thesis using frees_eq [OF k'(2)] by auto
qed

text \<open>A boot memory manager of 64 frames, the first 16 of them in use.\<close>

definition tiny_boot :: bootmm where
  "tiny_boot = \<lparr>phy_size = 0x40000, max_pn = 64, s_map = (\<lambda>p. if p < 16 then PAGE_USED else PAGE_FREE),
     map_size = 64, last_alloc = 15, count = 1,
     info = \<lparr>start_pn = 0, end_pn = 0xffff, seg_type = MM_KERNEL\<rparr>
       # replicate 9 \<lparr>start_pn = 0, end_pn = 0, seg_type = MM_KERNEL\<rparr>\<rparr>"

definition tiny_alloc :: "(u32 \<times> bootmm) res" where
  "tiny_alloc = bootmm_alloc_pages tiny_boot (sizeof_page * max_pn tiny_boot) MM_KERNEL (push_bit PAGE_SHIFT 1)"

lemma tiny_alloc_eval:
  "map_sum id (\<lambda>(a, b). (a, max_pn b, kernel_end b, buddy_start b)) tiny_alloc = Inr (0x10000, 64, 0x10fff, 16)"
  by code_simp

lemma map_sum_Inr: "map_sum id f r = Inr x \<Longrightarrow> \<exists>y. r = Inr y \<and> f y = x"
  by (cases r) auto

theorem init_buddy_all_free_witness:
  "\<exists>bmm' k' F. init_buddy tiny_boot demo_raw = Inr (bmm', k') \<and> binv k' head_nodes (\<lambda>_. []) F {} {} {}
    \<and> frees F = {16..<64}"
proof -
  obtain bmm' where b: "tiny_alloc = Inr (0x10000, bmm')" "max_pn bmm' = 64" "buddy_start bmm' = 16"
    using map_sum_Inr [OF tiny_alloc_eval] by auto
  show ?thesis
    using init_buddy_all_free [OF b(1) [unfolded tiny_alloc_def], of demo_raw] b(2,3) by auto
qed

text \<open>
  The search for the kernel's end finds the largest end among the recorded segments, and rounding its frame
  number up to a multiple of 16 goes beyond it exactly when it is not one already.
\<close>

lemma fold_max:
  fixes xs :: "u32 list"
  shows "x \<le> fold (\<lambda>a m. if a > m then a else m) xs x \<and> (\<forall>a\<in>set xs. a \<le> fold (\<lambda>a m. if a > m then a else m) xs x)
    \<and> fold (\<lambda>a m. if a > m then a else m) xs x \<in> insert x (set xs)"
proof (induction xs arbitrary: x)
  case (Cons a xs)
  show ?case using Cons.IH [of "if a > x then a else x"] by (auto split: if_splits intro: order_trans less_imp_le)
qed simp

lemma kernel_end_largest:
  assumes "0 < unat (count bmm)" "unat (count bmm) \<le> length (info bmm)"
  shows "\<exists>i<unat (count bmm). kernel_end bmm = end_pn (info bmm ! i) \<and> (\<forall>j<unat (count bmm). end_pn (info bmm ! j) \<le> end_pn (info bmm ! i))"
proof -
  let ?xs = "map end_pn (take (unat (count bmm)) (info bmm))"
  have e: "kernel_end bmm = fold (\<lambda>a m. if a > m then a else m) ?xs 0" by (simp add: kernel_end_def fold_map comp_def)
  have nth: "?xs ! j = end_pn (info bmm ! j)" if "j < unat (count bmm)" for j using that assms(2) by simp
  have len: "length ?xs = unat (count bmm)" using assms(2) by simp
  have le: "end_pn (info bmm ! j) \<le> kernel_end bmm" if "j < unat (count bmm)" for j
    using fold_max [of 0 ?xs] nth [OF that] nth_mem [of j ?xs] that len e by metis
  have "kernel_end bmm \<in> insert 0 (set ?xs)" using fold_max [of 0 ?xs] e by metis
  moreover have "kernel_end bmm \<in> set ?xs" if "kernel_end bmm = 0"
  proof -
    have "end_pn (info bmm ! 0) = kernel_end bmm" using le [OF assms(1)] that by simp
    then show ?thesis using nth [OF assms(1)] nth_mem [of 0 ?xs] assms(1) len by metis
  qed
  ultimately have "kernel_end bmm \<in> set ?xs" by auto
  then obtain i where "i < unat (count bmm)" "kernel_end bmm = end_pn (info bmm ! i)"
    using len nth by (metis in_set_conv_nth)
  then show ?thesis using le by metis
qed

lemma buddy_start_frame: "unat (buddy_start bmm) = 16 * ((unat (kernel_end bmm) div 4096 + 15) div 16)"
proof -
  let ?n = "unat (kernel_end bmm) div 4096"
  have n: "unat (drop_bit PAGE_SHIFT (kernel_end bmm)) = ?n" by (rule unat_page_of)
  have m: "unat order_mask = 15" by (simp add: order_mask_def MAX_BUDDY_ORDER_def MAX_ORDER_def)
  have "?n < 1048576" using unat_less_2p32 [of "kernel_end bmm"] by linarith
  then have "unat (drop_bit PAGE_SHIFT (kernel_end bmm)) + unat order_mask < 4294967296" unfolding n m by linarith
  then have "unat (drop_bit PAGE_SHIFT (kernel_end bmm) + order_mask) = ?n + 15"
    by (simp only: unat_add_no_wrap n m)
  then show ?thesis unfolding buddy_start_def order_mask_unat by simp
qed

text \<open>
  C40. Which frames \<^verbatim>\<open>init_buddy\<close> frees next to those the boot allocator has recorded as in use. Let segment
  \<open>i\<close> of its table be one that ends last, and \<open>n\<close> the frame with the last byte of it. Unless \<open>n\<close> is a
  multiple of 16, every frame on the free lists lies beyond the end of every segment. When it is one, rounding
  \<^verbatim>\<open>kernel_end_pn\<close>, the last frame in use and not the one after it, leaves it unchanged, and frame \<open>n\<close>, which
  is in use, is on the free lists with nothing before it.
\<close>

theorem init_buddy_kernel_frame:
  assumes "bootmm_alloc_pages bmm (sizeof_page * max_pn bmm) MM_KERNEL (push_bit PAGE_SHIFT 1) = Inr (bp, bmm')"
    and "bp \<noteq> 0" and "unat (buddy_start bmm') \<le> 16 * (unat (max_pn bmm') div 16)"
    and "0 < unat (count bmm')" "unat (count bmm') \<le> length (info bmm')"
  shows "\<exists>k' F i n. init_buddy bmm k = Inr (bmm', k') \<and> binv k' head_nodes (\<lambda>_. []) F {} {} {}
    \<and> i < unat (count bmm') \<and> (\<forall>j<unat (count bmm'). end_pn (info bmm' ! j) \<le> end_pn (info bmm' ! i))
    \<and> n = unat (end_pn (info bmm' ! i)) div 4096
    \<and> (if 16 dvd n then (\<forall>f\<in>frees F. n \<le> f) \<and> (n < 16 * (unat (max_pn bmm') div 16) \<longrightarrow> n \<in> frees F)
       else \<forall>f\<in>frees F. \<forall>j<unat (count bmm'). unat (end_pn (info bmm' ! j)) div 4096 < f)"
proof -
  obtain k' F where k': "init_buddy bmm k = Inr (bmm', k')" "binv k' head_nodes (\<lambda>_. []) F {} {} {}"
    "lo k' = unat (buddy_start bmm')" "hi k' = 16 * (unat (max_pn bmm') div 16)"
    using init_buddy_spec [OF assms(1-3)] by blast
  obtain i where i: "i < unat (count bmm')" "kernel_end bmm' = end_pn (info bmm' ! i)"
    "\<forall>j<unat (count bmm'). end_pn (info bmm' ! j) \<le> end_pn (info bmm' ! i)"
    using kernel_end_largest [OF assms(4,5)] by blast
  let ?n = "unat (end_pn (info bmm' ! i)) div 4096"
  have f: "frees F = {16 * ((?n + 15) div 16)..<16 * (unat (max_pn bmm') div 16)}"
    using frees_eq [OF k'(2)] k'(3,4) buddy_start_frame [of bmm'] i(2) by simp
  have r: "n \<le> 16 * ((n + 15) div 16)" "16 dvd n \<Longrightarrow> 16 * ((n + 15) div 16) = n" "\<not> 16 dvd n \<Longrightarrow> n < 16 * ((n + 15) div 16)"
    for n :: nat by presburger+
  have le: "unat (end_pn (info bmm' ! j)) div 4096 \<le> ?n" if "j < unat (count bmm')" for j
    using i(3) that by (simp add: word_le_nat_alt div_le_mono)
  have "if 16 dvd ?n then (\<forall>f\<in>frees F. ?n \<le> f) \<and> (?n < 16 * (unat (max_pn bmm') div 16) \<longrightarrow> ?n \<in> frees F)
      else \<forall>f\<in>frees F. \<forall>j<unat (count bmm'). unat (end_pn (info bmm' ! j)) div 4096 < f"
  proof (cases "16 dvd ?n")
    case True
    then show ?thesis using r(2) [OF True] f by simp
  next
    case False
    have "unat (end_pn (info bmm' ! j)) div 4096 < f" if "f \<in> frees F" "j < unat (count bmm')" for f j
      using le [OF that(2)] r(3) [OF False] that(1) unfolding f by (meson atLeastLessThan_iff le_less_trans less_le_trans)
    then show ?thesis using False by simp
  qed
  then show ?thesis using k'(1,2) i(1,3) by blast
qed

lemma tiny_alloc_info:
  "map_sum id (\<lambda>(a, b). (a, count b, map end_pn (info b))) tiny_alloc = Inr (0x10000, 1, 0x10fff # replicate 9 0)"
  by code_simp

theorem init_buddy_kernel_frame_witness:
  "\<exists>bmm' k' F. tiny_alloc = Inr (0x10000, bmm') \<and> init_buddy tiny_boot demo_raw = Inr (bmm', k')
    \<and> binv k' head_nodes (\<lambda>_. []) F {} {} {} \<and> 0x10000 div 4096 \<in> frees F"
proof -
  obtain bmm' where b: "tiny_alloc = Inr (0x10000, bmm')" "max_pn bmm' = 64" "buddy_start bmm' = 16"
    using map_sum_Inr [OF tiny_alloc_eval] by auto
  have c: "count bmm' = 1" "map end_pn (info bmm') = 0x10fff # replicate 9 0"
    using tiny_alloc_info unfolding b(1) by (simp_all only: map_sum.simps sum.inject prod.case prod.inject)
  have len: "length (info bmm') = 10" using arg_cong [OF c(2), of length] by simp
  then have e: "end_pn (info bmm' ! 0) = 0x10fff" using arg_cong [OF c(2), of "\<lambda>l. l ! 0"] by simp
  obtain k' F i n where "init_buddy tiny_boot demo_raw = Inr (bmm', k')" "binv k' head_nodes (\<lambda>_. []) F {} {} {}" "i = 0"
    "n = unat (end_pn (info bmm' ! i)) div 4096" "16 dvd n \<Longrightarrow> n < 64 \<Longrightarrow> n \<in> frees F"
    using init_buddy_kernel_frame [OF b(1) [unfolded tiny_alloc_def], of demo_raw] b(2,3) c(1) len by (auto split: if_splits)
  then show ?thesis using b(1) e by auto
qed

section \<open>Sequences of calls\<close>

text \<open>
  The callers' view: from \<open>k0\<close>, any sequence of \<^verbatim>\<open>alloc_pages\<close> and \<^verbatim>\<open>free_pages\<close> with any
  arguments (addresses of managed frames). The set is what the callers were given and have
  not given back, read off the arguments and results only.
\<close>

definition page_of :: "u32 \<Rightarrow> u32" where
  "page_of addr = drop_bit PAGE_SHIFT (addr AND 0x7fffffff)"

inductive buddy_run :: "kmem \<Rightarrow> kmem \<Rightarrow> block set \<Rightarrow> bool" for k0 :: kmem where
  start: "buddy_run k0 k0 {}"
| alloc: "\<lbrakk>buddy_run k0 k A; unat l \<le> MAX_ORDER; alloc_pages l k = Inr (a, k'); a \<noteq> 0\<rbrakk>
    \<Longrightarrow> buddy_run k0 k' (insert (page_of a, unat l) A)"
| full: "\<lbrakk>buddy_run k0 k A; unat l \<le> MAX_ORDER; alloc_pages l k = Inr (0, k')\<rbrakk> \<Longrightarrow> buddy_run k0 k' A"
| free: "\<lbrakk>buddy_run k0 k A; free_pages a l k = Inr k'; lo k \<le> unat (page_of a); unat (page_of a) < hi k\<rbrakk>
    \<Longrightarrow> buddy_run k0 k' (A - {(page_of a, unat l)})"

lemma page_of_frame: "unat p < 2 ^ 19 \<Longrightarrow> page_of (push_bit PAGE_SHIFT p) = p"
proof -
  assume p: "unat p < 2 ^ 19"
  have nb: "\<not> bit p n" if "19 \<le> n" for n
  proof -
    have "(2 :: nat) ^ 19 \<le> 2 ^ n" using that by (intro power_increasing) simp_all
    then have "unat p div 2 ^ n = 0" using p by simp
    then show ?thesis by (simp add: bit_iff_odd_unat)
  qed
  have nb': "n < 19" if "bit p n" for n using nb that not_le by blast
  have m: "(0x7fffffff :: u32) = mask 31" by (simp add: mask_eq_exp_minus_1)
  show ?thesis unfolding page_of_def PAGE_SHIFT_def m
    by (rule bit_word_eqI) (auto simp: bit_simps dest: nb')
qed

lemma free_pages_eq:
  "free_pages a l k = rbind (page_at k (page_of a)) (\<lambda>pg.
     if flag pg = 1 then if bplevel pg = l then raw_free_pages (page_of a) l k else Inr k else Inr k)"
  unfolding free_pages_def Let_def page_of_def ..

lemma lock_geom [simp]: "lo (lock_buddy k) = lo k" "hi (lock_buddy k) = hi k"
  "lo (unlock_buddy k) = lo k" "hi (unlock_buddy k) = hi k"
  by (simp_all add: lo_def hi_def lock_buddy_def unlock_buddy_def Let_def)

text \<open>A call of \<^verbatim>\<open>free_pages\<close> that does not name a block handed out changes nothing.\<close>

lemma free_pages_guard:
  assumes "binv k H E F A R {}" "lo k \<le> unat (page_of a)" "unat (page_of a) < hi k" "(page_of a, unat l) \<notin> A"
  shows "free_pages a l k = Inr k"
proof -
  note d = binvD [OF assms(1)]
  let ?p = "page_of a"
  have at: "page_at k ?p = Inr (pages k ?p)"
    using d(1) assms(3) by (simp add: page_at_def geom_def word_less_nat_alt)
  have "bplevel (pages k ?p) \<noteq> l" if "flag (pages k ?p) = 1"
  proof -
    have "?p \<in> fst ` (A \<union> {})" using d(5) assms(2,3) that by blast
    then obtain m where m: "(?p, m) \<in> A" by auto
    then have "bplevel (pages k ?p) = of_nat m" "m \<le> MAX_ORDER"
      using d(4) alloc_blocks_apart(2) [OF assms(1) m m] tilingD(1) [OF d(2), of "(?p, m)"]
      by (auto simp: tags_def blocks_def fits_in_def)
    then show ?thesis using m assms(4) unat_level by metis
  qed
  then show ?thesis using at by (simp add: free_pages_eq)
qed

lemma free_pages_step:
  assumes "binv k head_nodes (\<lambda>_. []) F A {} {}" "lo k \<le> unat (page_of a)" "unat (page_of a) < hi k"
  shows "\<exists>k' F'. free_pages a l k = Inr k' \<and> binv k' head_nodes (\<lambda>_. []) F' (A - {(page_of a, unat l)}) {} {}
    \<and> lo k' = lo k \<and> hi k' = hi k"
proof (cases "(page_of a, unat l) \<in> A")
  case False
  then show ?thesis using free_pages_guard [OF assms False] assms(1) by auto
next
  case True
  let ?p = "page_of a"
  note d = binvD [OF assms(1)]
  have "ext_ok head_nodes (\<lambda>_. []) (A - {(?p, unat l)})" by (simp add: ext_ok_def)
  note rh = release_hand [OF assms(1) True this]
  obtain k' F' where r: "raw_free_pages ?p (of_nat (unat l)) k = Inr k'"
    "binv k' head_nodes (\<lambda>_. []) F' (A - {(?p, unat l)}) {} {}" "keeps (upd_page ?p (\<lambda>pg. pg\<lparr>flag := 0, reference := 0\<rparr>) k) k'"
    using raw_free_hand [OF rh] by blast
  have at: "page_at k ?p = Inr (pages k ?p)"
    using d(1) assms(3) by (simp add: page_at_def geom_def word_less_nat_alt)
  have "flag (pages k ?p) = 1" "bplevel (pages k ?p) = l" using d(4) True by (auto simp: tags_def)
  then have "free_pages a l k = Inr k'"
    using at r(1) by (simp add: free_pages_eq)
  then show ?thesis using r(2,3) by (auto simp: keeps_def lo_def hi_def upd_page_def)
qed

lemma alloc_pages_step:
  assumes "binv k H E F A {} {}" "unat l \<le> MAX_ORDER" "0 < lo k" "hi k \<le> 2 ^ 19"
  shows "(\<exists>p k' F'. alloc_pages l k = Inr (push_bit PAGE_SHIFT p, k') \<and> push_bit PAGE_SHIFT p \<noteq> 0
      \<and> page_of (push_bit PAGE_SHIFT p) = p \<and> binv k' H E F' (insert (p, unat l) A) {} {} \<and> (p, unat l) \<notin> A
      \<and> lo k' = lo k \<and> hi k' = hi k) \<or>
    (\<exists>k'. alloc_pages l k = Inr (0, k') \<and> binv k' H E F A {} {} \<and> lo k' = lo k \<and> hi k' = hi k
      \<and> (\<forall>j. unat l \<le> j \<and> j \<le> MAX_ORDER \<longrightarrow> F j = []))"
proof -
  have I: "binv (lock_buddy k) H E F A {} {}" using assms(1) by simp
  from order_loop_inv [OF I order_refl le_SucI [OF assms(2)]] show ?thesis
  proof (elim disjE exE conjE)
    fix p c k' F'
    assume r: "order_loop (lock_buddy k) (of_nat (unat l)) (of_nat (unat l)) = Inr (Some p, k')"
      and I': "binv k' H E F' (insert (p, unat l) A) {} {}" and nA: "(p, unat l) \<notin> A"
      and kp: "keeps (upd_page p (\<lambda>pg. pg\<lparr>flag := 1\<rparr>) (lock_buddy k)) k'"
    have g: "lo k' = lo k" "hi k' = hi k" using kp by (simp_all add: keeps_def lo_def hi_def upd_page_def lock_buddy_def)
    have f: "fits_in (lo k) (hi k) (p, unat l)"
      using tilingD(1) [OF binvD(2) [OF I'], of "(p, unat l)"] g by (simp add: blocks_def)
    then have "0 < unat p" "unat p < 2 ^ 19" using assms(3,4)
      by (auto simp: fits_in_def intro: less_le_trans [of _ "unat p + 2 ^ unat l"])
    then have po: "page_of (push_bit PAGE_SHIFT p) = p" by (intro page_of_frame)
    moreover have "push_bit PAGE_SHIFT p \<noteq> 0"
    proof
      assume "push_bit PAGE_SHIFT p = 0"
      then have "p = page_of 0" using po by simp
      then show False using \<open>0 < unat p\<close> by (simp add: page_of_def)
    qed
    moreover have "alloc_pages l k = Inr (push_bit PAGE_SHIFT p, unlock_buddy k')"
      using r by (simp add: alloc_pages_def raw_alloc_pages_def)
    ultimately show ?thesis using I' nA g
      by (intro disjI1 exI [of _ p] exI [of _ "unlock_buddy k'"] exI [of _ F'])
        (simp del: unlock_eq)
  next
    assume "order_loop (lock_buddy k) (of_nat (unat l)) (of_nat (unat l)) = Inr (None, lock_buddy k)"
      and e: "\<forall>j. unat l \<le> j \<and> j \<le> MAX_ORDER \<longrightarrow> F j = []"
    then have "alloc_pages l k = Inr (0, unlock_buddy (lock_buddy k))" by (simp add: alloc_pages_def raw_alloc_pages_def)
    then show ?thesis using assms(1) e
      by (intro disjI2 exI [of _ "unlock_buddy (lock_buddy k)"]) simp
  qed
qed

lemma buddy_run_inv:
  assumes "buddy_run k0 k A" "binv k0 head_nodes (\<lambda>_. []) F0 {} {} {}" "0 < lo k0" "hi k0 \<le> 2 ^ 19"
  shows "\<exists>F. binv k head_nodes (\<lambda>_. []) F A {} {} \<and> lo k = lo k0 \<and> hi k = hi k0"
  using assms(1)
proof induction
  case start
  then show ?case using assms(2) by blast
next
  case (alloc k A l a k')
  then obtain F where F: "binv k head_nodes (\<lambda>_. []) F A {} {}" "lo k = lo k0" "hi k = hi k0" by blast
  show ?case using alloc_pages_step [OF F(1) alloc(2)] F(2,3) assms(3,4) alloc(3,4) by auto
next
  case (full k A l k')
  then obtain F where F: "binv k head_nodes (\<lambda>_. []) F A {} {}" "lo k = lo k0" "hi k = hi k0" by blast
  show ?case using alloc_pages_step [OF F(1) full(2)] F assms(3,4) full(3) by auto
next
  case (free k A a l k')
  then obtain F where F: "binv k head_nodes (\<lambda>_. []) F A {} {}" "lo k = lo k0" "hi k = hi k0" by blast
  show ?case using free_pages_step [OF F(1) free(3,4), of l] F(2,3) free(2) by auto
qed

text \<open>
  C3. From an initialised buddy system, after any sequence of \<^verbatim>\<open>alloc_pages\<close> and \<^verbatim>\<open>free_pages\<close>
  calls, double frees and frees of the wrong size included, the blocks in the callers' hands are
  aligned to their size, inside the managed frames and pairwise disjoint, and the next call
  neither faults nor hangs.
\<close>

theorem buddy_run_safe:
  assumes "buddy_run k0 k A" "binv k0 head_nodes (\<lambda>_. []) F0 {} {} {}" "0 < lo k0" "hi k0 \<le> 2 ^ 19"
  shows "(\<forall>b\<in>A. fits_in (lo k0) (hi k0) b) \<and> (\<forall>b\<in>A. \<forall>c\<in>A. b \<noteq> c \<longrightarrow> blk b \<inter> blk c = {})
    \<and> (unat l \<le> MAX_ORDER \<longrightarrow> (\<exists>a k'. alloc_pages l k = Inr (a, k')))
    \<and> (lo k0 \<le> unat (page_of a) \<and> unat (page_of a) < hi k0 \<longrightarrow> (\<exists>k'. free_pages a l k = Inr k'))"
proof -
  obtain F where F: "binv k head_nodes (\<lambda>_. []) F A {} {}" "lo k = lo k0" "hi k = hi k0"
    using buddy_run_inv [OF assms] by blast
  have t: "tiling (lo k0) (hi k0) (blocks F A {} \<union> {})" using binvD(2) [OF F(1)] F(2,3) by simp
  have "A \<subseteq> blocks F A {} \<union> {}" by (auto simp: blocks_def)
  then have "\<forall>b\<in>A. fits_in (lo k0) (hi k0) b" "\<forall>b\<in>A. \<forall>c\<in>A. b \<noteq> c \<longrightarrow> blk b \<inter> blk c = {}"
    using t unfolding tiling_def by blast+
  moreover have "unat l \<le> MAX_ORDER \<longrightarrow> (\<exists>a k'. alloc_pages l k = Inr (a, k'))"
    using alloc_pages_step [OF F(1), of l] F assms(3,4) by auto
  moreover have "lo k0 \<le> unat (page_of a) \<and> unat (page_of a) < hi k0 \<longrightarrow> (\<exists>k'. free_pages a l k = Inr k')"
    using free_pages_step [OF F(1), of a l] F by auto
  ultimately show ?thesis by blast
qed

theorem buddy_run_safe_witness:
  "\<exists>k0 k p. buddy_run k0 k {(p, 2)} \<and> fits_in 16 64 (p, 2)"
proof -
  obtain bmm' where b: "tiny_alloc = Inr (0x10000, bmm')" "max_pn bmm' = 64" "buddy_start bmm' = 16"
    using map_sum_Inr [OF tiny_alloc_eval] by auto
  obtain k0 F where k0: "binv k0 head_nodes (\<lambda>_. []) F {} {} {}" "lo k0 = 16" "hi k0 = 64"
    using init_buddy_spec [OF b(1) [unfolded tiny_alloc_def], where k = demo_raw] b(2,3) by auto
  have f: "frees F = {16..<64}" using frees_eq [OF k0(1)] k0(2,3) by simp
  have c: "unat (2 :: u32) \<le> MAX_ORDER" "0 < lo k0" "hi k0 \<le> 2 ^ 19" using k0 by (simp_all add: MAX_ORDER_def)
  have ne: "F MAX_ORDER \<noteq> []"
  proof
    assume "F MAX_ORDER = []"
    then have "F l = []" if "l \<le> MAX_ORDER" for l using fully_merged [OF k0(1), of l] that by (cases "l = MAX_ORDER") auto
    then have "free_blocks F = {}" by (auto simp: free_blocks_def)
    then have "frees F = {}" by (simp add: frees_def)
    then show False using f by simp
  qed
  have "\<not> (\<forall>j. unat (2 :: u32) \<le> j \<and> j \<le> MAX_ORDER \<longrightarrow> F j = [])" using ne c(1) by auto
  then obtain p k' where "alloc_pages 2 k0 = Inr (push_bit PAGE_SHIFT p, k')" "push_bit PAGE_SHIFT p \<noteq> 0"
    "page_of (push_bit PAGE_SHIFT p) = p"
    using alloc_pages_step [OF k0(1) c] by blast
  then have r: "buddy_run k0 k' {(p, 2)}" using buddy_run.alloc [OF buddy_run.start c(1)] by fastforce
  have "fits_in (lo k0) (hi k0) (p, 2)" using buddy_run_safe [OF r k0(1) c(2,3), of 0 0] by simp
  then show ?thesis using r k0(2,3) by auto
qed

end
