(* ===== verification/SlabThms.thy ===== *)
theory SlabThms
  imports Slab BuddyInit
begin

text \<open>
  The objects of a slab page: formatting links them all, allocation takes the first of the chain
  and release puts one back, so an object is never handed out twice. A new page comes from the
  buddy system under its invariant.
\<close>

section \<open>Addresses\<close>

lemma bit_KERNEL_ENTRY: "bit KERNEL_ENTRY n \<longleftrightarrow> n = 31"
proof -
  have k: "KERNEL_ENTRY = push_bit 31 1" by (simp add: KERNEL_ENTRY_def)
  show ?thesis unfolding k bit_push_bit_iff by (auto simp: bit_1_iff)
qed

lemma kmem_addr_unat:
  assumes "unat p < 2 ^ 19"
  shows "unat (KMEM_ADDR p) = 2147483648 + 4096 * unat p"
proof -
  have u: "unat (push_bit PAGE_SHIFT p) = 4096 * unat p"
    unfolding PAGE_SHIFT_def unsigned_push_bit_eq using assms by (simp add: push_bit_eq_mult take_bit_nat_eq_self)
  have nb: "\<not> bit (push_bit PAGE_SHIFT p) 31"
    unfolding bit_iff_odd_unat u using assms by simp
  have "push_bit PAGE_SHIFT p AND KERNEL_ENTRY = 0"
    by (rule bit_word_eqI) (use nb in \<open>auto simp: bit_and_iff bit_KERNEL_ENTRY\<close>)
  then have "KMEM_ADDR p = push_bit PAGE_SHIFT p + KERNEL_ENTRY"
    unfolding KMEM_ADDR_def by (rule disjunctive_add_eq_or [symmetric])
  moreover have "unat KERNEL_ENTRY = 2147483648" by (simp add: KERNEL_ENTRY_def)
  ultimately show ?thesis using u assms by (simp add: unat_add_no_wrap)
qed

definition obj_addr :: "u32 \<Rightarrow> u32 \<Rightarrow> nat \<Rightarrow> u32" where
  "obj_addr base sz i = base + of_nat i * sz"

definition page_objs :: "u32 \<Rightarrow> u32 \<Rightarrow> nat" where
  "page_objs page sz = 4096 div unat sz"

definition objects :: "u32 \<Rightarrow> u32 \<Rightarrow> u32 set" where
  "objects p sz = obj_addr (KMEM_ADDR p) sz ` {..<4096 div unat sz}"

lemma obj_addr_unat:
  assumes "unat base + i * unat sz < 2 ^ 32"
  shows "unat (obj_addr base sz i) = unat base + i * unat sz"
proof (cases "unat sz = 0")
  case True
  then have "sz = 0" by (simp add: unat_eq_zero)
  then show ?thesis by (simp add: obj_addr_def)
next
  case False
  then have "i \<le> i * unat sz" by simp
  then have i: "i < 2 ^ 32" using assms by linarith
  have "unat (of_nat i * sz) = take_bit 32 (i * unat sz)"
    using i by (simp add: unat_word_ariths unat_of_nat take_bit_nat_eq_self take_bit_eq_mod)
  then have "unat (of_nat i * sz) = i * unat sz" using assms by (simp add: take_bit_nat_eq_self)
  then show ?thesis using assms by (simp add: obj_addr_def unat_add_no_wrap)
qed

lemma obj_addr_cancel:
  assumes "obj_addr base sz i = obj_addr base sz j" "unat base + i * unat sz < 2 ^ 32" "unat base + j * unat sz < 2 ^ 32" "0 < unat sz"
  shows "i = j"
proof -
  have "unat base + i * unat sz = unat base + j * unat sz"
    using obj_addr_unat [OF assms(2)] obj_addr_unat [OF assms(3)] arg_cong [OF assms(1), of unat] by linarith
  then show ?thesis using assms(4) by simp
qed

lemma obj_addr_step: "obj_addr (base + sz) sz i = obj_addr base sz (Suc i)"
  by (simp add: obj_addr_def algebra_simps)

lemma index_bound: "i < (n :: nat) div m \<Longrightarrow> i * m + m \<le> n"
proof -
  assume "i < n div m"
  then have "Suc i * m \<le> n div m * m" by (intro mult_le_mono1) simp
  also have "\<dots> \<le> n" by simp
  finally show ?thesis by simp
qed

lemma object_bounds:
  assumes "x \<in> objects p sz" "unat p < 2 ^ 19" "0 < unat sz"
  shows "2147483648 + 4096 * unat p \<le> unat x" "unat x + unat sz \<le> 2147483648 + 4096 * unat p + 4096"
proof -
  obtain i where i: "i < 4096 div unat sz" "x = obj_addr (KMEM_ADDR p) sz i" using assms(1) by (auto simp: objects_def)
  have b: "i * unat sz + unat sz \<le> 4096" using i(1) by (rule index_bound)
  have u: "unat (KMEM_ADDR p) = 2147483648 + 4096 * unat p" using assms(2) by (rule kmem_addr_unat)
  have "unat x = unat (KMEM_ADDR p) + i * unat sz"
    unfolding i(2) using b u assms(2,3) by (intro obj_addr_unat) auto
  then show "2147483648 + 4096 * unat p \<le> unat x" "unat x + unat sz \<le> 2147483648 + 4096 * unat p + 4096"
    using u b by simp_all
qed

text \<open>\<^verbatim>\<open>kfree\<close> finds the page of an object.\<close>

lemma object_page:
  assumes "x \<in> objects p sz" "unat p < 2 ^ 19" "0 < unat sz"
  shows "x OR KERNEL_ENTRY = x" "drop_bit PAGE_SHIFT (x AND NOT KERNEL_ENTRY) = p"
proof -
  note b = object_bounds [OF assms]
  have "unat x div 2 ^ 31 = 1" using b assms(2,3) unat_less_2p32 [of x] by (intro div_nat_eqI) auto
  then have "bit x 31" by (simp add: bit_iff_odd_unat)
  then show "x OR KERNEL_ENTRY = x" by (intro bit_word_eqI) (auto simp: bit_or_iff bit_KERNEL_ENTRY)
  have "NOT KERNEL_ENTRY = (mask 31 :: u32)" by (simp add: KERNEL_ENTRY_def mask_eq_exp_minus_1)
  then have t: "x AND NOT KERNEL_ENTRY = take_bit 31 x" by (simp add: take_bit_eq_mask)
  have "unat (x AND NOT KERNEL_ENTRY) = take_bit 31 (unat x)"
    unfolding t by (rule unsigned_take_bit_eq)
  then have "unat (x AND NOT KERNEL_ENTRY) = unat x mod 2147483648" by (simp add: take_bit_eq_mod)
  also have "\<dots> = unat x - 2147483648"
  proof -
    have "unat x - 2147483648 < 2147483648" using unat_less_2p32 [of x] by linarith
    moreover have "2147483648 \<le> unat x" using b(1) by linarith
    ultimately show ?thesis by (simp add: le_mod_geq)
  qed
  finally have u: "unat (x AND NOT KERNEL_ENTRY) = unat x - 2147483648" .
  have "unat x - 2147483648 < 4096 * unat p + 4096" using b assms(3) by linarith
  then have "(unat x - 2147483648) div 4096 = unat p" using b(1) by (intro div_nat_eqI) auto
  then show "drop_bit PAGE_SHIFT (x AND NOT KERNEL_ENTRY) = p"
    using u by (simp only: word_unat_eq_iff unat_page_of)
qed

lemma obj_addr_inj:
  assumes "unat p < 2 ^ 19" "0 < unat sz"
  shows "inj_on (obj_addr (KMEM_ADDR p) sz) {..<4096 div unat sz}"
proof (rule inj_onI)
  fix i j
  assume ij: "i \<in> {..<4096 div unat sz}" "j \<in> {..<4096 div unat sz}"
    "obj_addr (KMEM_ADDR p) sz i = obj_addr (KMEM_ADDR p) sz j"
  have "unat (KMEM_ADDR p) + 4096 \<le> 2 ^ 32" using kmem_addr_unat [OF assms(1)] assms(1) by simp
  then have b: "unat (KMEM_ADDR p) + k * unat sz < 2 ^ 32" if "k < 4096 div unat sz" for k
    using index_bound [OF that] assms(2) by linarith
  show "i = j" using obj_addr_cancel [OF ij(3) b b assms(2)] ij(1,2) by simp
qed

section \<open>The chain of free objects\<close>

fun chain :: "(u32 \<Rightarrow> u32) \<Rightarrow> u32 \<Rightarrow> u32 \<Rightarrow> u32 list \<Rightarrow> bool" where
  "chain m off a [] \<longleftrightarrow> True"
| "chain m off a (x # xs) \<longleftrightarrow> a = x \<and> chain m off (m (x + off)) xs"

lemma chain_frame: "chain m off b xs \<Longrightarrow> a - off \<notin> set xs \<Longrightarrow> chain (m(a := v)) off b xs"
  by (induction xs arbitrary: b) (auto simp: algebra_simps)

lemma chain_map:
  "(\<And>i. Suc i < n \<Longrightarrow> m (f (j + i) + off) = f (j + Suc i)) \<Longrightarrow> n > 0 \<Longrightarrow> chain m off (f j) (map f [j..<j + n])"
proof (induction n arbitrary: j)
  case (Suc n)
  show ?case
  proof (cases "n = 0")
    case False
    have "chain m off (f (Suc j)) (map f [Suc j..<Suc j + n])"
      using Suc(2) [of "Suc _"] False by (intro Suc(1)) auto
    moreover have "m (f j + off) = f (Suc j)" using Suc(2) [of 0] False by simp
    ultimately show ?thesis using upt_conv_Cons [of j "j + Suc n"] by simp
  qed simp
qed simp

text \<open>What the formatting loop stores.\<close>

lemma format_loop_spec:
  assumes "0 < unat sz" "unat sz \<le> unat R" "unat ko + unat R \<le> 2 ^ 32"
  shows "\<exists>s'. format_loop off sz s ko R n =
      (obj_addr ko sz (unat R div unat sz - 1) + off, obj_addr ko sz (unat R div unat sz), n + of_nat (unat R div unat sz), s')
    \<and> km s' = km s \<and> kmalloc_caches s' = kmalloc_caches s
    \<and> (\<forall>i<unat R div unat sz. wmem s' (obj_addr ko sz i + off) = obj_addr ko sz (Suc i))
    \<and> (\<forall>a. (\<forall>i<unat R div unat sz. a \<noteq> obj_addr ko sz i + off) \<longrightarrow> wmem s' a = wmem s a)"
  using assms(2,3)
proof (induction "unat R div unat sz" arbitrary: R ko s n)
  case 0
  then show ?case using assms(1) by (simp add: div_eq_0_iff)
next
  case (Suc m)
  let ?s = "store (ko + off) (ko + sz) s" and ?R = "R - sz"
  have R: "unat ?R = unat R - unat sz" using Suc(3) by (simp add: unat_sub word_le_nat_alt)
  have m: "m = unat ?R div unat sz"
    using Suc(2,3) assms(1) R by (metis Suc_inject le_div_geq)
  have g: "?R + sz > ?R"
    using assms(1) Suc(3) R by (simp add: word_less_nat_alt)
  have u: "format_loop off sz s ko R n =
      (if ?R \<ge> sz then format_loop off sz ?s (ko + sz) ?R (n + 1) else (ko + off, ko + sz, n + 1, ?s))"
    using assms(1) g by (subst format_loop.simps) (simp add: Let_def word_less_nat_alt)
  have k0: "obj_addr ko sz 0 = ko" "obj_addr ko sz (Suc 0) = ko + sz" by (simp_all add: obj_addr_def)
  show ?case
  proof (cases "unat sz \<le> unat ?R")
    case False
    then have "m = 0" using m by simp
    then have d: "unat R div unat sz = Suc 0" using Suc(2) by simp
    have "\<not> ?R \<ge> sz" using False by (simp add: word_le_nat_alt)
    then show ?thesis unfolding d using u k0 by (simp add: store_def)
  next
    case True
    have lt: "unat ko + unat sz < 2 ^ 32" using Suc(3,4) True R assms(1) by linarith
    then have ks: "unat (ko + sz) = unat ko + unat sz" by (intro unat_add_no_wrap) simp
    have "unat (ko + sz) + unat ?R \<le> 2 ^ 32" using ks R Suc(3,4) by simp
    from Suc(1) [OF m True this, of ?s "n + 1"] obtain s' where s':
      "format_loop off sz ?s (ko + sz) ?R (n + 1) =
        (obj_addr (ko + sz) sz (m - 1) + off, obj_addr (ko + sz) sz m, n + 1 + of_nat m, s')"
      "km s' = km ?s" "kmalloc_caches s' = kmalloc_caches ?s"
      "\<forall>i<m. wmem s' (obj_addr (ko + sz) sz i + off) = obj_addr (ko + sz) sz (Suc i)"
      "\<forall>a. (\<forall>i<m. a \<noteq> obj_addr (ko + sz) sz i + off) \<longrightarrow> wmem s' a = wmem ?s a"
      unfolding m [symmetric] by blast
    note s' = s' [unfolded obj_addr_step]
    have "m \<noteq> 0" using m True assms(1) by (simp add: div_eq_0_iff)
    have ne: "obj_addr ko sz 0 \<noteq> obj_addr ko sz (Suc i)" if "i < m" for i
    proof
      assume e: "obj_addr ko sz 0 = obj_addr ko sz (Suc i)"
      have "Suc i * unat sz + unat sz \<le> unat R" using that Suc(2) by (intro index_bound) simp
      then have "unat ko + Suc i * unat sz < 2 ^ 32" using Suc(4) assms(1) by linarith
      then show False using obj_addr_cancel [OF e _ _ assms(1)] Suc(4) by simp
    qed
    have w0: "wmem s' (ko + off) = ko + sz" using s'(5) ne k0 by (simp add: store_def)
    have "wmem s' (obj_addr ko sz i + off) = obj_addr ko sz (Suc i)" if "i < Suc m" for i
      using that s'(4) w0 k0 by (cases i) simp_all
    moreover have "wmem s' a = wmem s a" if "\<forall>i<Suc m. a \<noteq> obj_addr ko sz i + off" for a
      using that s'(5) k0 by (force simp: store_def)
    moreover have "?R \<ge> sz" using True by (simp add: word_le_nat_alt)
    ultimately show ?thesis using u s'(1-3) \<open>m \<noteq> 0\<close> Suc(2) [symmetric]
      by (simp add: store_def add.assoc add.commute)
  qed
qed

section \<open>The current page of a cache\<close>

text \<open>
  \<open>current_page s c p U F\<close>: page \<open>p\<close> is the current page of cache \<open>c\<close>, the objects in
  \<open>U\<close> are handed out, the chain of free objects is \<open>F\<close>, and together they are the objects
  of the page. \<open>slab_page\<close>: moreover the links of its descriptor point to itself, as the buddy system leaves
  them. A page that \<^verbatim>\<open>slab_alloc\<close> takes back from the partial list is a current page that is no
  \<open>slab_page\<close>: \<^verbatim>\<open>list_del\<close> leaves poison in its links (\<open>slab_alloc_partial\<close>).
\<close>

definition current_page :: "slabs \<Rightarrow> u32 \<Rightarrow> u32 \<Rightarrow> u32 set \<Rightarrow> u32 list \<Rightarrow> bool" where
  "current_page s c p U F \<longleftrightarrow> unat c < length (kmalloc_caches s) \<and> unat p < 2 ^ 19 \<and> p < npages (km s) \<and>
     (let k = kmalloc_caches s ! unat c; pg = pages (km s) p in
        cpu_page k = Some p \<and> obj_total k = offset k + 4 \<and> unat (offset k) + 4 \<le> 4096
        \<and> reference pg = 1 \<and> virtual pg = c
        \<and> chain (wmem s) (offset k) (freeobj pg) F \<and> F \<noteq> [] \<and> distinct F
        \<and> set F \<union> U = objects p (obj_total k) \<and> set F \<inter> U = {}
        \<and> nr_objs pg = of_nat (card U) \<and> max_object pg = of_nat (4096 div unat (obj_total k)))"

definition slab_page :: "slabs \<Rightarrow> u32 \<Rightarrow> u32 \<Rightarrow> u32 set \<Rightarrow> u32 list \<Rightarrow> bool" where
  "slab_page s c p U F \<longleftrightarrow> current_page s c p U F \<and> dlist (lists (km s)) (page_node p) []"

lemma current_pageD:
  assumes "current_page s c p U F"
  shows "unat c < length (kmalloc_caches s)" "unat p < 2 ^ 19" "p < npages (km s)"
    "cpu_page (kmalloc_caches s ! unat c) = Some p"
    "unat (obj_total (kmalloc_caches s ! unat c)) = unat (offset (kmalloc_caches s ! unat c)) + 4"
    "obj_total (kmalloc_caches s ! unat c) = offset (kmalloc_caches s ! unat c) + 4"
    "unat (offset (kmalloc_caches s ! unat c)) + 4 \<le> 4096"
    "reference (pages (km s) p) = 1" "virtual (pages (km s) p) = c"
    "chain (wmem s) (offset (kmalloc_caches s ! unat c)) (freeobj (pages (km s) p)) F" "F \<noteq> []" "distinct F"
    "set F \<union> U = objects p (obj_total (kmalloc_caches s ! unat c))" "set F \<inter> U = {}"
    "nr_objs (pages (km s) p) = of_nat (card U)"
    "max_object (pages (km s) p) = of_nat (4096 div unat (obj_total (kmalloc_caches s ! unat c)))"
  using assms by (simp_all add: current_page_def Let_def unat_add_no_wrap)

lemma current_page_counts:
  assumes "current_page s c p U F"
  shows "finite U" "card U + length F = 4096 div unat (obj_total (kmalloc_caches s ! unat c))"
    "4096 div unat (obj_total (kmalloc_caches s ! unat c)) \<le> 1024"
    "unat (nr_objs (pages (km s) p)) = card U"
    "unat (max_object (pages (km s) p)) = 4096 div unat (obj_total (kmalloc_caches s ! unat c))"
proof -
  note d = current_pageD [OF assms]
  let ?sz = "obj_total (kmalloc_caches s ! unat c)" and ?n = "4096 div unat (obj_total (kmalloc_caches s ! unat c))"
  have sz: "0 < unat ?sz" "4 \<le> unat ?sz" using d(5) by simp_all
  have fin: "finite (objects p ?sz)" by (simp add: objects_def)
  have c: "card (objects p ?sz) = ?n" unfolding objects_def using obj_addr_inj [OF d(2) sz(1)] by (simp add: card_image)
  show "finite U" using fin d(13) by (metis finite_Un)
  then have "card (set F) + card U = card (set F \<union> U)" using d(14) by (simp add: card_Un_disjoint)
  then show s: "card U + length F = ?n" using c d(12,13) by (simp add: distinct_card add.commute)
  have "?n \<le> 4096 div 4" using sz(2) by (intro div_le_mono2) simp_all
  then show n: "?n \<le> 1024" by simp
  show "unat (nr_objs (pages (km s) p)) = card U" "unat (max_object (pages (km s) p)) = ?n"
    unfolding d(15,16) using s n by (simp_all add: unat_of_nat take_bit_nat_eq_self)
qed

lemma object_nonzero:
  assumes "x \<in> objects p sz" "unat p < 2 ^ 19" "0 < unat sz"
  shows "x \<noteq> 0"
  using object_bounds(1) [OF assms] by auto

lemmas slab_upd_defs = upd_cache_def upd_km_def upd_page_def upd_lists_def store_def init_kmem_cpu_def cache_at_def

text \<open>What remains after the first object of the chain is taken.\<close>

lemma take_object_current:
  assumes S: "current_page s c p U (x # xs)"
  shows "\<exists>s'. take_object c x s = Inr (x, s') \<and>
    (if xs = [] then cpu_page (kmalloc_caches s' ! unat c) = None \<and> nr_objs (pages (km s') p) = max_object (pages (km s') p)
        \<and> lists (km s') = list_add_tail (page_node p) (full_head c) (lists (km s))
     else current_page s' c p (insert x U) xs \<and> obj_total (kmalloc_caches s' ! unat c) = obj_total (kmalloc_caches s ! unat c) \<and>
       (\<exists>v. km s' = upd_page p (\<lambda>pg. pg\<lparr>freeobj := v, nr_objs := nr_objs pg + 1\<rparr>) (km s)))"
proof -
  note d = current_pageD [OF S] and n = current_page_counts [OF S]
  let ?k = "kmalloc_caches s ! unat c" and ?pg = "pages (km s) p"
  let ?next = "wmem s (x + offset ?k)"
  have x: "freeobj ?pg = x" "chain (wmem s) (offset ?k) ?next xs" using d(10) by simp_all
  let ?s2 = "upd_cache c (\<lambda>k. k\<lparr>cpu_freeobj := ?next\<rparr>)
    (upd_km (upd_page p (\<lambda>pg. pg\<lparr>freeobj := ?next, nr_objs := nr_objs pg + 1\<rparr>)) s)"
  have lt: "nr_objs ?pg < max_object ?pg" using n(2,4,5) by (simp add: word_less_nat_alt)
  have inc: "unat (nr_objs ?pg + 1) = Suc (card U)" using lt n(4) by (simp add: unat_Suc_less)
  have full: "nr_objs ?pg + 1 \<ge> max_object ?pg \<longleftrightarrow> xs = []"
    unfolding word_le_nat_alt inc n(5) n(2) [symmetric] by simp
  have k2: "kmalloc_caches ?s2 ! unat c = ?k\<lparr>cpu_freeobj := ?next\<rparr>" "length (kmalloc_caches ?s2) = length (kmalloc_caches s)"
    "pages (km ?s2) p = ?pg\<lparr>freeobj := ?next, nr_objs := nr_objs ?pg + 1\<rparr>" "lists (km ?s2) = lists (km s)"
    "wmem ?s2 = wmem s" "npages (km ?s2) = npages (km s)"
    using d(1) by (simp_all add: slab_upd_defs)
  have t: "take_object c x s = (if xs = [] then
      Inr (x, init_kmem_cpu c (upd_km (upd_lists (list_add_tail (page_node p) (full_head c))) ?s2)) else Inr (x, ?s2))"
    using d(1,4) k2(3) full by (simp add: take_object_def cache_at_def upd_cache_def upd_km_def Let_def)
  show ?thesis
  proof (cases "xs = []")
    case True
    have e: "nr_objs ?pg + 1 = max_object ?pg"
      using inc n(2,5) True by (simp add: word_unat_eq_iff)
    show ?thesis using t True d(1) k2 e
      by (intro exI [of _ "init_kmem_cpu c (upd_km (upd_lists (list_add_tail (page_node p) (full_head c))) ?s2)"])
        (simp add: slab_upd_defs)
  next
    case False
    have "x \<notin> U" "x \<notin> set xs" using d(12,14) by auto
    then have "current_page ?s2 c p (insert x U) xs"
      using d x(2) k2 False n(1) unfolding current_page_def Let_def by auto
    moreover have "km ?s2 = upd_page p (\<lambda>pg. pg\<lparr>freeobj := ?next, nr_objs := nr_objs pg + 1\<rparr>) (km s)"
      by (simp add: upd_cache_def upd_km_def)
    moreover have "obj_total (kmalloc_caches ?s2 ! unat c) = obj_total ?k" using k2(1) by simp
    ultimately show ?thesis using t False by (intro exI [of _ ?s2]) (auto simp only: if_False simp_thms)
  qed
qed

lemma current_page_cpu_freeobj:
  "current_page s c p U F \<Longrightarrow> current_page (upd_cache c (\<lambda>k. k\<lparr>cpu_freeobj := v\<rparr>) s) c p U F"
  by (simp add: current_page_def upd_cache_def Let_def)

lemma slab_alloc_current:
  assumes S: "current_page s c p U (x # xs)"
  shows "\<exists>s'. slab_alloc fuel c s = Inr (x, s') \<and>
    (if xs = [] then cpu_page (kmalloc_caches s' ! unat c) = None \<and> nr_objs (pages (km s') p) = max_object (pages (km s') p)
        \<and> lists (km s') = list_add_tail (page_node p) (full_head c) (lists (km s))
     else current_page s' c p (insert x U) xs \<and> lists (km s') = lists (km s))"
proof -
  note d = current_pageD [OF S] and n = current_page_counts [OF S]
  let ?s1 = "upd_cache c (\<lambda>k. k\<lparr>cpu_freeobj := x\<rparr>) s"
  have x: "freeobj (pages (km s) p) = x" using d(10) by simp
  have "x \<in> objects p (obj_total (kmalloc_caches s ! unat c))" using d(13) by auto
  then have nz: "x \<noteq> 0" using object_nonzero [OF _ d(2)] d(5) by simp
  have "nr_objs (pages (km s) p) < max_object (pages (km s) p)" using n(2,4,5) by (simp add: word_less_nat_alt)
  then have a: "slab_alloc fuel c s = take_object c x ?s1"
    using d(1,4) x nz
    by (simp add: slab_alloc_def slab_check.simps cache_at_def upd_cache_def Let_def not_le)
  have "km ?s1 = km s" by (simp add: upd_cache_def)
  then show ?thesis using take_object_current [OF current_page_cpu_freeobj [OF S], of x] a by (fastforce simp: upd_page_def split: if_splits)
qed

lemma kfree_current:
  assumes S: "current_page s c p U F" and o: "obj \<in> U"
  shows "\<exists>s'. current_page s' c p (U - {obj}) (obj # F) \<and> lists (km s') = lists (km s)
    \<and> kmalloc_caches s' = kmalloc_caches s \<and> (\<exists>v n. km s' = upd_page p (\<lambda>pg. pg\<lparr>freeobj := v, nr_objs := n\<rparr>) (km s))
    \<and> kfree obj s = (if list_empty (page_node p) (lists (km s)) then Inr s'
         else if U = {obj} then rbind (raw_free_pages p 0 (km s')) (\<lambda>k. Inr (s'\<lparr>km := k\<rparr>))
         else rbind (unlink_page p (km s')) (\<lambda>k. Inr (upd_km (upd_lists (list_add_tail (page_node p) (partial_head c))) (s'\<lparr>km := k\<rparr>))))"
proof -
  note d = current_pageD [OF S] and n = current_page_counts [OF S]
  let ?k = "kmalloc_caches s ! unat c" and ?pg = "pages (km s) p"
  have sz: "0 < unat (obj_total ?k)" using d(5) by simp
  have oo: "obj \<in> objects p (obj_total ?k)" using o d(13) by auto
  note op = object_page [OF oo d(2) sz]
  let ?s = "upd_km (upd_page p (\<lambda>pg. pg\<lparr>freeobj := obj, nr_objs := nr_objs pg - 1\<rparr>)) (store (obj + offset ?k) (freeobj ?pg) s)"
  have cu: "card U \<noteq> 0" using o n(1) by auto
  then have "unat (nr_objs ?pg) \<noteq> 0" using n(4) by simp
  then have nz: "nr_objs ?pg \<noteq> 0" by auto
  have "kfree obj s = slab_free c obj (obj AND NOT KERNEL_ENTRY) s"
    using op d(3,8,9) by (simp add: kfree_def page_at_def Let_def)
  also have "\<dots> = (if list_empty (page_node p) (lists (km ?s)) then Inr ?s
      else if nr_objs (pages (km ?s) p) = 0 then rbind (raw_free_pages p 0 (km ?s)) (\<lambda>k. Inr (?s\<lparr>km := k\<rparr>))
      else rbind (unlink_page p (km ?s)) (\<lambda>k. Inr (upd_km (upd_lists (list_add_tail (page_node p) (partial_head c))) (?s\<lparr>km := k\<rparr>))))"
    using op(2) d(1,3) nz by (simp add: slab_free_def page_at_def cache_at_def Let_def)
  finally have r: "kfree obj s = \<dots>" .
  have "obj \<notin> set F" using o d(14) by auto
  then have ch: "chain ((wmem s)(obj + offset ?k := freeobj ?pg)) (offset ?k) (freeobj ?pg) F"
    using d(10) by (intro chain_frame) simp_all
  have nr: "nr_objs ?pg - 1 = of_nat (card (U - {obj}))"
  proof -
    have e: "card U = Suc (card (U - {obj}))" using o n(1) by (rule card.remove [rotated])
    show ?thesis unfolding d(15) e by (simp only: of_nat_Suc add_diff_cancel_left')
  qed
  have f: "kmalloc_caches ?s = kmalloc_caches s" "wmem ?s = (wmem s)(obj + offset ?k := freeobj ?pg)"
    "pages (km ?s) p = ?pg\<lparr>freeobj := obj, nr_objs := nr_objs ?pg - 1\<rparr>" "lists (km ?s) = lists (km s)"
    "npages (km ?s) = npages (km s)"
    by (simp_all add: slab_upd_defs)
  have "set (obj # F) \<union> (U - {obj}) = objects p (obj_total ?k)" "set (obj # F) \<inter> (U - {obj}) = {}"
    using d(13,14) o by auto
  then have "current_page ?s c p (U - {obj}) (obj # F)"
    unfolding current_page_def Let_def f using d(1-4,6-9,12,16) ch nr \<open>obj \<notin> set F\<close> by simp
  moreover have "nr_objs (pages (km ?s) p) = 0 \<longleftrightarrow> U = {obj}"
  proof -
    have "card (U - {obj}) < card U" using o n(1) by (intro psubset_card_mono) auto
    then have "card (U - {obj}) < 4294967296" using n(2,3) by linarith
    then have "nr_objs (pages (km ?s) p) = 0 \<longleftrightarrow> card (U - {obj}) = 0"
      unfolding f by (simp add: nr word_unat_eq_iff unat_of_nat take_bit_nat_eq_self)
    moreover have "card (U - {obj}) = 0 \<longleftrightarrow> U - {obj} = {}" using n(1) by (simp only: card_eq_0_iff finite_Diff simp_thms)
    ultimately show ?thesis using o by auto
  qed
  moreover have "km ?s = upd_page p (\<lambda>pg. pg\<lparr>freeobj := obj, nr_objs := nr_objs ?pg - 1\<rparr>) (km s)"
    by (simp add: slab_upd_defs fun_eq_iff)
  ultimately show ?thesis using r f(1,4)
    by (intro exI [of _ ?s] conjI exI [of _ obj] exI [of _ "nr_objs ?pg - 1"]) simp_all
qed

section \<open>A fresh page\<close>

lemma page_size_word: "push_bit PAGE_SHIFT 1 = (4096 :: u32)" "unat (push_bit PAGE_SHIFT 1 :: u32) = 4096"
  by (simp_all add: PAGE_SHIFT_def)

lemma format_slabpage_spec:
  assumes c: "unat c < length (kmalloc_caches s)" and p: "unat p < 2 ^ 19"
    and k: "obj_total (kmalloc_caches s ! unat c) = offset (kmalloc_caches s ! unat c) + 4"
      "unat (offset (kmalloc_caches s ! unat c)) + 4 \<le> 4096"
  defines "sz \<equiv> obj_total (kmalloc_caches s ! unat c)"
  shows "\<exists>s' ep. format_slabpage c p s = Inr s' \<and> km s' = upd_page p (\<lambda>pg. pg\<lparr>reference := 1, nr_objs := 0, end_ptr := ep,
        virtual := c, max_object := of_nat (4096 div unat sz), freeobj := KMEM_ADDR p\<rparr>) (km s)
    \<and> kmalloc_caches s' = (kmalloc_caches s)[unat c := (kmalloc_caches s ! unat c)\<lparr>cpu_page := Some p, cpu_freeobj := KMEM_ADDR p\<rparr>]
    \<and> chain (wmem s') (offset (kmalloc_caches s ! unat c)) (KMEM_ADDR p) (map (obj_addr (KMEM_ADDR p) sz) [0..<4096 div unat sz])"
proof -
  let ?k = "kmalloc_caches s ! unat c" and ?n = "4096 div unat sz" and ?b = "KMEM_ADDR p"
  have sz: "unat sz = unat (offset ?k) + 4" "0 < unat sz" "unat sz \<le> 4096"
    using k by (simp_all add: sz_def unat_add_no_wrap)
  have b: "unat ?b + 4096 \<le> 2 ^ 32" using kmem_addr_unat [OF p] p by simp
  obtain s1 where s1: "format_loop (offset ?k) sz s ?b (push_bit PAGE_SHIFT 1) 0 =
      (obj_addr ?b sz (?n - 1) + offset ?k, obj_addr ?b sz ?n, of_nat ?n, s1)"
    "km s1 = km s" "kmalloc_caches s1 = kmalloc_caches s"
    "\<forall>i<?n. wmem s1 (obj_addr ?b sz i + offset ?k) = obj_addr ?b sz (Suc i)"
    using format_loop_spec [of sz "push_bit PAGE_SHIFT 1" ?b "offset ?k" s 0] sz(2,3) b page_size_word(2) by auto
  let ?v = "obj_addr ?b sz ?n AND NOT (push_bit PAGE_SHIFT 1 - 1)"
  let ?m = "(wmem s1)(obj_addr ?b sz (?n - 1) + offset ?k := ?v)"
  have bd: "unat ?b + i * unat sz < 2 ^ 32" if "i < ?n" for i using index_bound [OF that] sz(2) b by linarith
  have "?m (obj_addr ?b sz i + offset ?k) = obj_addr ?b sz (Suc i)" if "Suc i < ?n" for i
  proof -
    have "obj_addr ?b sz i \<noteq> obj_addr ?b sz (?n - 1)"
      using obj_addr_cancel [of ?b sz i "?n - 1", OF _ bd bd sz(2)] that by fastforce
    then show ?thesis using s1(4) that by simp
  qed
  moreover have "0 < ?n" using sz(2,3) by (simp add: div_greater_zero_iff)
  ultimately have ch: "chain ?m (offset ?k) (obj_addr ?b sz 0) (map (obj_addr ?b sz) [0..<0 + ?n])"
    by (intro chain_map) simp_all
  have o0: "obj_addr ?b sz 0 = ?b" by (simp add: obj_addr_def)
  show ?thesis
    using c s1(1) ch [unfolded o0] s1(2,3)
    by (simp add: format_slabpage_def cache_at_def sz_def [symmetric] Let_def slab_upd_defs) (rule exI, rule refl)
qed

lemma binv_upd_other:
  assumes "binv k H E F A R X"
    and "\<And>pg. flag (f pg) = flag pg \<and> bplevel (f pg) = bplevel pg"
  shows "binv (upd_page p f k) H E F A R X"
proof -
  have "flag (pages (upd_page p f k) q) = flag (pages k q)" "bplevel (pages (upd_page p f k) q) = bplevel (pages k q)" for q
    using assms(2) by (simp_all add: upd_page_def)
  then show ?thesis using assms(1)
    by (simp add: binv_def tags_def geom_def lo_def hi_def) (simp add: upd_page_def)
qed

lemma upt_pos: "0 < n \<Longrightarrow> map f [0..<n] = f 0 # map f [1..<n]"
  by (simp add: upt_rec)

lemma slab_alloc_fresh:
  assumes I: "binv (km s) H E F A {} {}" and hi: "hi (km s) \<le> 2 ^ 19"
    and c: "unat c < length (kmalloc_caches s)" "cpu_page (kmalloc_caches s ! unat c) = None"
      "cpu_freeobj (kmalloc_caches s ! unat c) = 0" "list_empty (partial_head c) (lists (km s))"
    and k: "obj_total (kmalloc_caches s ! unat c) = offset (kmalloc_caches s ! unat c) + 4"
      "unat (offset (kmalloc_caches s ! unat c)) + 4 \<le> 2048"
  shows "(\<exists>p s' F' fr. slab_alloc fuel c s = Inr (KMEM_ADDR p, s') \<and> binv (km s') H E F' (insert (p, 0) A) {} {}
      \<and> (p, 0) \<notin> A \<and> slab_page s' c p {KMEM_ADDR p} fr
      \<and> obj_total (kmalloc_caches s' ! unat c) = obj_total (kmalloc_caches s ! unat c)) \<or>
    (slab_alloc fuel c s = Inl Hang \<and> (\<forall>j\<le>MAX_ORDER. F j = []))"
proof -
  let ?k = "kmalloc_caches s ! unat c" and ?sz = "obj_total (kmalloc_caches s ! unat c)"
  have sz: "unat ?sz = unat (offset ?k) + 4" "0 < unat ?sz" "unat ?sz \<le> 2048"
    using k by (simp_all add: unat_add_no_wrap)
  let ?n = "4096 div unat ?sz"
  have n2: "2 \<le> ?n" using sz(2,3) by (simp add: less_eq_div_iff_mult_less_eq)
  have a: "slab_alloc fuel c s = rbind (raw_alloc_pages 0 (km s)) (\<lambda>(r, km').
      case r of None \<Rightarrow> Inl Hang
      | Some newpage \<Rightarrow> rbind (format_slabpage c newpage (s\<lparr>km := km'\<rparr>)) (\<lambda>s2.
          take_object c (freeobj (pages (km s2) newpage)) s2))"
    using c by (simp add: slab_alloc_def slab_check.simps cache_at_def Let_def)
  have I': "binv (lock_buddy (km s)) H E F A {} {}" using I by simp
  have z: "(of_nat 0 :: u32) = 0" by simp
  from order_loop_inv [OF I' order_refl le0, unfolded z] show ?thesis
  proof (elim disjE exE conjE)
    fix p j k' F'
    assume r: "order_loop (lock_buddy (km s)) 0 0 = Inr (Some p, k')"
      and J: "binv k' H E F' (insert (p, 0) A) {} {}" "(p, 0) \<notin> A"
      and kp: "keeps (upd_page p (\<lambda>pg. pg\<lparr>flag := 1\<rparr>) (lock_buddy (km s))) k'" and self: "dlist (lists k') (pn p) []"
    let ?km = "unlock_buddy k'" and ?s = "s\<lparr>km := unlock_buddy k'\<rparr>"
    have g: "hi ?km = hi (km s)" "npages ?km = npages (km s)"
      using keeps_geom [OF kp] by (simp_all add: hi_def upd_page_def lock_buddy_def unlock_buddy_def Let_def)
    have J': "binv ?km H E F' (insert (p, 0) A) {} {}" using J(1) by simp
    have "fits_in (lo ?km) (hi ?km) (p, 0)" using tilingD(1) [OF binvD(2) [OF J'], of "(p, 0)"] by (simp add: blocks_def)
    then have p: "unat p < 2 ^ 19" "p < npages ?km"
      using hi g binvD(1) [OF J'] by (auto simp: fits_in_def geom_def word_less_nat_alt)
    have ra: "raw_alloc_pages 0 (km s) = Inr (Some p, ?km)" using r by (simp add: raw_alloc_pages_def)
    have k4: "unat (offset ?k) + 4 \<le> 4096" using k(2) by simp
    obtain s2 ep where s2: "format_slabpage c p ?s = Inr s2"
      "km s2 = upd_page p (\<lambda>pg. pg\<lparr>reference := 1, nr_objs := 0, end_ptr := ep, virtual := c,
         max_object := of_nat ?n, freeobj := KMEM_ADDR p\<rparr>) ?km"
      "kmalloc_caches s2 = (kmalloc_caches s)[unat c := ?k\<lparr>cpu_page := Some p, cpu_freeobj := KMEM_ADDR p\<rparr>]"
      "chain (wmem s2) (offset ?k) (KMEM_ADDR p) (map (obj_addr (KMEM_ADDR p) ?sz) [0..<?n])"
      using format_slabpage_spec [of c ?s p] c(1) p(1) k(1) k4 by auto
    let ?F = "map (obj_addr (KMEM_ADDR p) ?sz) [0..<?n]"
    have Fs: "?F = KMEM_ADDR p # map (obj_addr (KMEM_ADDR p) ?sz) [1..<?n]"
      using n2 by (subst upt_pos) (simp_all add: obj_addr_def)
    have "distinct ?F" using obj_addr_inj [OF p(1) sz(2)] by (simp add: distinct_map atLeast0LessThan)
    moreover have "dlist (lists (km s2)) (page_node p) []"
      using self by (simp add: s2(2) upd_page_def unlock_buddy_def Let_def page_node_def pn_def)
    ultimately have S: "current_page s2 c p {} ?F" and e2: "dlist (lists (km s2)) (page_node p) []"
      using c(1) p s2(3,4) k(1) k4 n2
      by (simp_all add: current_page_def s2(2) upd_page_def objects_def atLeast0LessThan)
    have "map (obj_addr (KMEM_ADDR p) ?sz) [1..<?n] \<noteq> []" using n2 by simp
    then obtain s3 v where s3: "take_object c (KMEM_ADDR p) s2 = Inr (KMEM_ADDR p, s3)"
      "current_page s3 c p {KMEM_ADDR p} (map (obj_addr (KMEM_ADDR p) ?sz) [1..<?n])"
      "km s3 = upd_page p (\<lambda>pg. pg\<lparr>freeobj := v, nr_objs := nr_objs pg + 1\<rparr>) (km s2)"
      "obj_total (kmalloc_caches s3 ! unat c) = obj_total (kmalloc_caches s2 ! unat c)"
      using take_object_current [OF S [unfolded Fs]] by auto
    have "binv (km s2) H E F' (insert (p, 0) A) {} {}" unfolding s2(2) by (rule binv_upd_other [OF J']) simp
    then have "binv (km s3) H E F' (insert (p, 0) A) {} {}" unfolding s3(3) by (rule binv_upd_other) simp
    moreover have "freeobj (pages (km s2) p) = KMEM_ADDR p" by (simp add: s2(2) upd_page_def)
    then have "slab_alloc fuel c s = Inr (KMEM_ADDR p, s3)" using a ra s2(1) s3(1) by simp
    moreover have "lists (km s3) = lists (km s2)" unfolding s3(3) by (simp add: upd_page_def)
    moreover have "obj_total (kmalloc_caches s3 ! unat c) = ?sz" using s3(4) s2(3) c(1) by simp
    ultimately show ?thesis using J(2) s3(2) e2 by (fastforce simp: slab_page_def)
  next
    assume "order_loop (lock_buddy (km s)) 0 0 = Inr (None, lock_buddy (km s))" "\<forall>j. 0 \<le> j \<and> j \<le> MAX_ORDER \<longrightarrow> F j = []"
    then show ?thesis using a by (intro disjI2) (simp add: raw_alloc_pages_def)
  qed
qed

section \<open>What the caches promise\<close>

text \<open>
  C7. While the current page of a cache has a free object, whether it is new or was taken back from the
  partial list, \<^verbatim>\<open>slab_alloc\<close> returns one that is
  not handed out, whose bytes lie inside the page and overlap no object that is handed out;
  afterwards the page is well formed with one object more handed out, or, when that was the
  last one, it is at the end of the full list and the cache has no current page. No other links change.
\<close>

theorem slab_alloc_safe:
  assumes "current_page s c p U F"
  shows "\<exists>x s'. slab_alloc fuel c s = Inr (x, s') \<and> x \<notin> U
    \<and> {unat x..<unat x + unat (offset (kmalloc_caches s ! unat c))} \<subseteq> {unat (KMEM_ADDR p)..<unat (KMEM_ADDR p) + 4096}
    \<and> (\<forall>y\<in>U. {unat x..<unat x + unat (offset (kmalloc_caches s ! unat c))}
         \<inter> {unat y..<unat y + unat (offset (kmalloc_caches s ! unat c))} = {})
    \<and> (if length F = 1 then cpu_page (kmalloc_caches s' ! unat c) = None
         \<and> lists (km s') = list_add_tail (page_node p) (full_head c) (lists (km s))
       else current_page s' c p (insert x U) (tl F) \<and> lists (km s') = lists (km s))"
proof -
  note d = current_pageD [OF assms]
  let ?k = "kmalloc_caches s ! unat c" and ?sz = "obj_total (kmalloc_caches s ! unat c)"
  obtain x xs where F: "F = x # xs" using d(11) by (cases F) auto
  obtain s' where s': "slab_alloc fuel c s = Inr (x, s')"
    "if xs = [] then cpu_page (kmalloc_caches s' ! unat c) = None \<and> nr_objs (pages (km s') p) = max_object (pages (km s') p)
        \<and> lists (km s') = list_add_tail (page_node p) (full_head c) (lists (km s))
     else current_page s' c p (insert x U) xs \<and> lists (km s') = lists (km s)"
    using slab_alloc_current [OF assms [unfolded F]] by blast
  have sz: "0 < unat ?sz" "unat ?sz = unat (offset ?k) + 4" using d(5) by simp_all
  have xo: "x \<in> objects p ?sz" "x \<notin> U" using d(13,14) F by auto
  note bx = object_bounds [OF xo(1) d(2) sz(1)]
  have "unat (KMEM_ADDR p) = 2147483648 + 4096 * unat p" using d(2) by (rule kmem_addr_unat)
  then have inside: "{unat x..<unat x + unat (offset ?k)} \<subseteq> {unat (KMEM_ADDR p)..<unat (KMEM_ADDR p) + 4096}"
    using bx sz(2) by auto
  have ap: "{unat x..<unat x + unat (offset ?k)} \<inter> {unat y..<unat y + unat (offset ?k)} = {}" if "y \<in> U" for y
  proof -
    have yo: "y \<in> objects p ?sz" "y \<noteq> x" using that d(13) xo by auto
    obtain i j where ij: "x = obj_addr (KMEM_ADDR p) ?sz i" "i < 4096 div unat ?sz"
      "y = obj_addr (KMEM_ADDR p) ?sz j" "j < 4096 div unat ?sz" using xo(1) yo(1) by (auto simp: objects_def)
    have b: "unat (KMEM_ADDR p) + m * unat ?sz < 2 ^ 32" if "m < 4096 div unat ?sz" for m
      using index_bound [OF that] sz(1) kmem_addr_unat [OF d(2)] d(2) by simp
    have u: "unat x = unat (KMEM_ADDR p) + i * unat ?sz" "unat y = unat (KMEM_ADDR p) + j * unat ?sz"
      unfolding ij(1,3) using ij(2,4) b by (simp_all add: obj_addr_unat)
    have "i \<noteq> j" using yo(2) ij(1,3) by auto
    then consider "Suc i \<le> j" | "Suc j \<le> i" by linarith
    then have "unat x + unat ?sz \<le> unat y \<or> unat y + unat ?sz \<le> unat x"
      by cases (use u mult_le_mono1 [of "Suc i" j "unat ?sz"] mult_le_mono1 [of "Suc j" i "unat ?sz"] in simp_all)
    then show ?thesis using sz(2) by auto
  qed
  show ?thesis using s' xo(2) inside ap F by (intro exI [of _ x] exI [of _ s']) auto
qed

text \<open>
  A page that \<^verbatim>\<open>slab_alloc\<close> takes back from the partial list becomes the current page with poison in its
  links.
\<close>

lemma slab_alloc_partial:
  assumes "unat c < length (kmalloc_caches s)" "cpu_page (kmalloc_caches s ! unat c) = None" "cpu_freeobj (kmalloc_caches s ! unat c) = 0"
    and "\<not> list_empty (partial_head c) (lists (km s))" "nxt (lists (km s)) (partial_head c) = page_node p"
    and "freeobj (pages (km s) p) \<noteq> 0" "unat (nr_objs (pages (km s) p)) + 1 < unat (max_object (pages (km s) p))"
  shows "\<exists>s'. slab_alloc (Suc fuel) c s = Inr (freeobj (pages (km s) p), s') \<and> cpu_page (kmalloc_caches s' ! unat c) = Some p
    \<and> nxt (lists (km s')) (page_node p) = LIST_POISON2"
proof -
  have n: "nr_objs (pages (km s) p) < max_object (pages (km s) p)" "\<not> max_object (pages (km s) p) \<le> nr_objs (pages (km s) p) + 1"
    using assms(7) unat_Suc_less [of "nr_objs (pages (km s) p)" "max_object (pages (km s) p)"]
    by (simp_all add: word_less_nat_alt word_le_nat_alt)
  have "nxt (list_del (page_node p) h) (page_node p) = LIST_POISON2" for h :: "node links"
    by (simp add: list_del_def set_nxt_def set_prv_def Let_def)
  then show ?thesis using assms(1-6)
    by (simp add: slab_alloc_def slab_check.simps take_object_def slab_upd_defs page_node_def Let_def n not_le [THEN iffD2, OF n(1)])
qed

text \<open>
  C31. \<^verbatim>\<open>kfree\<close> of an object of the current page. While the links of the page's descriptor point to
  itself, as in a page that came from the buddy system, exactly that object is given back, and the next
  \<^verbatim>\<open>slab_alloc\<close> returns it and restores the page. When the page was taken back from the partial list, with
  the poison of \<^verbatim>\<open>list_del\<close> in its links, \<^verbatim>\<open>kfree\<close> takes it for a page on a list: with other objects handed
  out it follows the poison and faults; without, it gives the frame to the buddy system while it
  stays the current page of the cache.
\<close>

theorem kfree_then_alloc:
  assumes "current_page s c p U F" "obj \<in> U"
  shows "if list_empty (page_node p) (lists (km s)) then
      \<exists>s' s''. kfree obj s = Inr s' \<and> current_page s' c p (U - {obj}) (obj # F) \<and> lists (km s') = lists (km s)
        \<and> slab_alloc fuel c s' = Inr (obj, s'') \<and> current_page s'' c p U F \<and> lists (km s'') = lists (km s)
    else if U \<noteq> {obj} then nxt (lists (km s)) (page_node p) = LIST_POISON2 \<longrightarrow> kfree obj s = Inl Fault
    else \<forall>H E G A R. binv (km s) H E G A R {} \<and> (p, 0) \<in> A \<and> ext_ok H E (A - {(p, 0)}) \<longrightarrow>
      (\<exists>s' G'. kfree obj s = Inr s' \<and> cpu_page (kmalloc_caches s' ! unat c) = Some p
        \<and> binv (km s') H E G' (A - {(p, 0)}) R {} \<and> unat p \<in> frees G')"
proof -
  obtain t v n where t: "current_page t c p (U - {obj}) (obj # F)" "lists (km t) = lists (km s)" "kmalloc_caches t = kmalloc_caches s"
    "km t = upd_page p (\<lambda>pg. pg\<lparr>freeobj := v, nr_objs := n\<rparr>) (km s)"
    "kfree obj s = (if list_empty (page_node p) (lists (km s)) then Inr t
         else if U = {obj} then rbind (raw_free_pages p 0 (km t)) (\<lambda>k. Inr (t\<lparr>km := k\<rparr>))
         else rbind (unlink_page p (km t)) (\<lambda>k. Inr (upd_km (upd_lists (list_add_tail (page_node p) (partial_head c))) (t\<lparr>km := k\<rparr>))))"
    using kfree_current [OF assms] by blast
  consider (fresh) "list_empty (page_node p) (lists (km s))"
    | (more) "\<not> list_empty (page_node p) (lists (km s))" "U \<noteq> {obj}" | (last) "\<not> list_empty (page_node p) (lists (km s))" "U = {obj}"
    by blast
  then show ?thesis
  proof cases
    case fresh
    have "F \<noteq> []" using current_pageD(11) [OF assms(1)] .
    then obtain s'' where "slab_alloc fuel c t = Inr (obj, s'')" "current_page s'' c p (insert obj (U - {obj})) F" "lists (km s'') = lists (km t)"
      using slab_alloc_current [OF t(1)] by auto
    moreover have "insert obj (U - {obj}) = U" using assms(2) by blast
    ultimately show ?thesis using fresh t by auto
  next
    case more
    have "unlink_page p (km t) = Inl Fault" if "nxt (lists (km s)) (page_node p) = LIST_POISON2"
      using that t(2) by (simp add: unlink_page_def poisoned_def page_node_def)
    then show ?thesis using more t(5) by simp
  next
    case last
    have "\<forall>H E G A R. binv (km s) H E G A R {} \<and> (p, 0) \<in> A \<and> ext_ok H E (A - {(p, 0)}) \<longrightarrow>
      (\<exists>s' G'. kfree obj s = Inr s' \<and> cpu_page (kmalloc_caches s' ! unat c) = Some p
        \<and> binv (km s') H E G' (A - {(p, 0)}) R {} \<and> unat p \<in> frees G')"
    proof (intro allI impI)
      fix H E G A R
      assume "binv (km s) H E G A R {} \<and> (p, 0) \<in> A \<and> ext_ok H E (A - {(p, 0)})"
      then have b: "binv (km s) H E G A R {}" "(p, 0) \<in> A" "ext_ok H E (A - {(p, 0)})" by simp_all
      have bt: "binv (km t) H E G A R {}" unfolding t(4) by (rule binv_upd_other [OF b(1)]) simp
      obtain k' G' where "raw_free_pages p 0 (km t) = Inr k'" "binv k' H E G' (A - {(p, 0)}) R {}" "frees G' = frees G \<union> blk (p, 0)"
        using raw_free_spec [OF bt b(2,3)] by auto
      moreover have "unat p \<in> blk (p, 0)" by (simp add: blk_def)
      moreover have "cpu_page (kmalloc_caches t ! unat c) = Some p" using current_pageD(4) [OF t(1)] .
      ultimately show "\<exists>s' G'. kfree obj s = Inr s' \<and> cpu_page (kmalloc_caches s' ! unat c) = Some p
        \<and> binv (km s') H E G' (A - {(p, 0)}) R {} \<and> unat p \<in> frees G'" using last t(5) by (intro exI [of _ "t\<lparr>km := k'\<rparr>"] exI [of _ G']) simp
    qed
    then show ?thesis using last by (simp only: if_False simp_thms)
  qed
qed

text \<open>
  C12. A cache without current page and without partial pages asks the buddy system for one
  frame: under the buddy invariant the frame is disjoint from every block handed out, the
  object returned is the first of the page, the rest of the page is free, and the buddy
  invariant holds with that frame handed out; only when no frame is left does the call hang.
\<close>

theorem slab_alloc_new_page:
  assumes "binv (km s) H E F A {} {}" "hi (km s) \<le> 2 ^ 19"
    and "unat c < length (kmalloc_caches s)" "cpu_page (kmalloc_caches s ! unat c) = None"
      "cpu_freeobj (kmalloc_caches s ! unat c) = 0" "list_empty (partial_head c) (lists (km s))"
    and "obj_total (kmalloc_caches s ! unat c) = offset (kmalloc_caches s ! unat c) + 4"
      "unat (offset (kmalloc_caches s ! unat c)) + 4 \<le> 2048"
  shows "(\<exists>p s' F' fr. slab_alloc fuel c s = Inr (KMEM_ADDR p, s') \<and> binv (km s') H E F' (insert (p, 0) A) {} {}
      \<and> (p, 0) \<notin> A \<and> slab_page s' c p {KMEM_ADDR p} fr) \<or>
    (slab_alloc fuel c s = Inl Hang \<and> (\<forall>j\<le>MAX_ORDER. F j = []))"
  using slab_alloc_fresh [OF assms, of fuel] by blast

section \<open>The choice of the cache\<close>

lemma init_slab_sizes:
  assumes "length (kmalloc_caches s) = 10"
  shows "map objsize (kmalloc_caches (init_slab s)) = size_kmem_cache"
proof -
  obtain a b c d e f g h i j where k: "kmalloc_caches s = [a, b, c, d, e, f, g, h, i, j]"
    using assms by (auto simp: length_Suc_conv eval_nat_numeral)
  show ?thesis
    by (simp add: init_slab_def init_each_slab_def init_kmem_node_def init_kmem_cpu_def upd_cache_def upd_km_def k
      size_kmem_cache_def SIZE_INT_def Let_def)
qed

lemma find_cache_sizes: "find_cache ks i sz = find_cache (map (\<lambda>n. \<lparr>obj_total = 0, objsize = n, offset = 0, cpu_freeobj = 0, cpu_page = None\<rparr>) (map objsize ks)) i sz"
  by (induction ks arbitrary: i) auto

lemma init_slab_length: "length (kmalloc_caches s) = 10 \<Longrightarrow> length (kmalloc_caches (init_slab s)) = 10"
  using arg_cong [OF init_slab_sizes [of s], of length] by (simp add: size_kmem_cache_def)

text \<open>
  After \<^verbatim>\<open>init_slab\<close> the search takes the first cache in table order that is large enough. The
  table starts with 96 and 192, so every size up to 96 gets 96 bytes: the caches of 8, 16, 32,
  64 and 128 bytes are never chosen, although the comment asks for the best fit.
\<close>

lemma get_slab_choice:
  assumes "length (kmalloc_caches s) = 10"
  shows "get_slab (init_slab s) sz = (if sz \<le> 96 then 0 else if sz \<le> 192 then 1 else if sz \<le> 256 then 7
    else if sz \<le> 512 then 8 else if sz \<le> 1024 then 9 else 10)"
proof -
  have "get_slab (init_slab s) sz = find_cache (kmalloc_caches (init_slab s)) 0 sz"
    using init_slab_length [OF assms] by (simp add: get_slab_def)
  also have "\<dots> = (if sz \<le> 96 then 0 else if sz \<le> 192 then 1 else if sz \<le> 8 then 2 else if sz \<le> 16 then 3
    else if sz \<le> 32 then 4 else if sz \<le> 64 then 5 else if sz \<le> 128 then 6 else if sz \<le> 256 then 7
    else if sz \<le> 512 then 8 else if sz \<le> 1024 then 9 else 10)"
    by (subst find_cache_sizes) (simp only: init_slab_sizes [OF assms] size_kmem_cache_def list.map find_cache.simps kmem_cache.simps, simp)
  also have "\<dots> = (if sz \<le> 96 then 0 else if sz \<le> 192 then 1 else if sz \<le> 256 then 7
    else if sz \<le> 512 then 8 else if sz \<le> 1024 then 9 else 10)"
    unfolding word_le_nat_alt by simp
  finally show ?thesis .
qed

section \<open>Witnesses\<close>

text \<open>The small buddy system of 16 frames, and one cache of 1024 bytes without pages.\<close>

definition demo_slabs :: slabs where
  "demo_slabs = \<lparr>km = demo_kmem, wmem = (\<lambda>_. 0),
     kmalloc_caches = [\<lparr>obj_total = 1028, objsize = 1024, offset = 1024, cpu_freeobj = 0, cpu_page = None\<rparr>]\<rparr>"

lemma demo_lists: "list_empty (partial_head 0) (lists demo_kmem)"
  by (simp add: demo_kmem_def demo_raw_def put_block_def partial_head_def list_empty_def add_count_def upd_lists_def
    rd_def wr_def set_bplevel_def upd_page_def list_add_def raw_list_add_def set_nxt_def set_prv_def)

lemma demo_fresh_hyps:
  "binv (km demo_slabs) head_nodes (\<lambda>_. []) ((\<lambda>_. [])(4 := [0])) {} {} {}" "hi (km demo_slabs) \<le> 2 ^ 19"
  "unat (0 :: u32) < length (kmalloc_caches demo_slabs)" "cpu_page (kmalloc_caches demo_slabs ! unat (0 :: u32)) = None"
  "cpu_freeobj (kmalloc_caches demo_slabs ! unat (0 :: u32)) = 0" "list_empty (partial_head 0) (lists (km demo_slabs))"
  "obj_total (kmalloc_caches demo_slabs ! unat (0 :: u32)) = offset (kmalloc_caches demo_slabs ! unat (0 :: u32)) + 4"
  "unat (offset (kmalloc_caches demo_slabs ! unat (0 :: u32))) + 4 \<le> 2048"
  using demo_kmem_inv demo_lists by (simp_all add: demo_slabs_def)

lemma demo_some_free: "\<not> (\<forall>j\<le>MAX_ORDER. ((\<lambda>_. [])(4 := [0 :: u32])) j = [])"
  by (auto simp: MAX_ORDER_def)

lemma demo_first:
  obtains p s' fr where "slab_alloc 0 0 demo_slabs = Inr (KMEM_ADDR p, s')" "slab_page s' 0 p {KMEM_ADDR p} fr"
    "obj_total (kmalloc_caches s' ! 0) = 1028"
proof -
  have "obj_total (kmalloc_caches demo_slabs ! unat (0 :: u32)) = 1028" by (simp add: demo_slabs_def)
  then show thesis using slab_alloc_fresh [OF demo_fresh_hyps, of 0] demo_some_free that by force
qed

theorem slab_alloc_safe_witness:
  "\<exists>p s' x s''. slab_alloc 0 0 demo_slabs = Inr (KMEM_ADDR p, s') \<and> slab_alloc 0 0 s' = Inr (x, s'') \<and> x \<noteq> KMEM_ADDR p"
proof -
  obtain p s' fr where 1: "slab_alloc 0 0 demo_slabs = Inr (KMEM_ADDR p, s')" "slab_page s' 0 p {KMEM_ADDR p} fr"
    by (rule demo_first)
  then have "current_page s' 0 p {KMEM_ADDR p} fr" by (simp add: slab_page_def)
  then show ?thesis using 1(1) slab_alloc_safe [of s' 0 p "{KMEM_ADDR p}" fr 0] by blast
qed

text \<open>The page taken from the partial list: the same page with the poison that \<^verbatim>\<open>list_del\<close> leaves.\<close>

definition poison_page :: "u32 \<Rightarrow> slabs \<Rightarrow> slabs" where
  "poison_page p = upd_km (upd_lists (\<lambda>h. set_nxt (page_node p) LIST_POISON2 (set_prv (page_node p) LIST_POISON1 h)))"

lemma poison_current: "current_page (poison_page p s) c q U F = current_page s c q U F"
  by (simp add: current_page_def poison_page_def slab_upd_defs Let_def)

theorem kfree_then_alloc_witness:
  "(\<exists>p s1 s2 s3. slab_alloc 0 0 demo_slabs = Inr (KMEM_ADDR p, s1) \<and> kfree (KMEM_ADDR p) s1 = Inr s2
      \<and> slab_alloc 0 0 s2 = Inr (KMEM_ADDR p, s3))
    \<and> (\<exists>p s1 x s2. slab_alloc 0 0 demo_slabs = Inr (KMEM_ADDR p, s1) \<and> slab_alloc 0 0 s1 = Inr (x, s2)
      \<and> kfree x (poison_page p s2) = Inl Fault)"
proof -
  obtain p s1 fr where 1: "slab_alloc 0 0 demo_slabs = Inr (KMEM_ADDR p, s1)" "slab_page s1 0 p {KMEM_ADDR p} fr" "obj_total (kmalloc_caches s1 ! 0) = 1028"
    by (rule demo_first)
  have c: "current_page s1 0 p {KMEM_ADDR p} fr" "list_empty (page_node p) (lists (km s1))"
    using 1(2) list_empty_dlist by (auto simp: slab_page_def)
  have a: "\<exists>s2 s3. kfree (KMEM_ADDR p) s1 = Inr s2 \<and> slab_alloc 0 0 s2 = Inr (KMEM_ADDR p, s3)"
    using kfree_then_alloc [OF c(1) singletonI, of 0] c(2) by auto
  have "length fr = 2" using current_page_counts(2) [OF c(1)] 1(3) by simp
  then obtain x xs where x: "fr = x # xs" "length xs = 1" by (cases fr) auto
  then have xs: "xs \<noteq> []" by auto
  obtain s2 where s2: "slab_alloc 0 0 s1 = Inr (x, s2)" "current_page s2 0 p (insert x {KMEM_ADDR p}) xs"
    using slab_alloc_current [OF c(1) [unfolded x(1)], of 0] xs by auto
  have ne: "insert x {KMEM_ADDR p} \<noteq> {x}"
  proof -
    have "x \<noteq> KMEM_ADDR p" using current_pageD(14) [OF c(1)] x(1) by auto
    then show ?thesis by auto
  qed
  have l: "nxt (lists (km (poison_page p s2))) (page_node p) = LIST_POISON2" "\<not> list_empty (page_node p) (lists (km (poison_page p s2)))"
    by (simp_all add: poison_page_def slab_upd_defs set_nxt_def list_empty_def page_node_def)
  have "current_page (poison_page p s2) 0 p (insert x {KMEM_ADDR p}) xs" using s2(2) by (simp add: poison_current)
  then have "kfree x (poison_page p s2) = Inl Fault"
    using kfree_then_alloc [of "poison_page p s2" 0 p "insert x {KMEM_ADDR p}" xs x 0] ne l by simp
  then show ?thesis using 1(1) a s2(1) by blast
qed

theorem slab_alloc_new_page_witness:
  "\<exists>p s' F' fr. slab_alloc 0 0 demo_slabs = Inr (KMEM_ADDR p, s')
    \<and> binv (km s') head_nodes (\<lambda>_. []) F' {(p, 0)} {} {} \<and> slab_page s' 0 p {KMEM_ADDR p} fr"
  using slab_alloc_new_page [OF demo_fresh_hyps, of 0] demo_some_free by blast

lemma get_slab_choice_witness:
  "get_slab (init_slab (demo_slabs\<lparr>kmalloc_caches := replicate 10 (kmalloc_caches demo_slabs ! 0)\<rparr>)) 8 = 0"
  by (subst get_slab_choice) simp_all

end
