(* ===== verification/FatUtils.thy ===== *)
theory FatUtils
  imports Prelude
begin

text \<open>
  The helpers of \<^verbatim>\<open>kernel/fs/fat/utils.c\<close> that need no buffer: little-endian numbers in a byte
  buffer, the binary logarithm, the translation between clusters, sectors and places in the
  table. A \<^verbatim>\<open>u8 *\<close> is a buffer and an index into it. The structures of \<^verbatim>\<open>fat.h\<close> that the
  program overlays on bytes with a union are the bytes, and their members are read at the
  offsets of the packed layout.
\<close>

section \<open>Numbers in a buffer\<close>

definition get_u16 :: "u8 list \<Rightarrow> u32 \<Rightarrow> u16 res" where
  "get_u16 ch i = rbind (rd ch i) (\<lambda>a. rbind (rd ch (i + 1)) (\<lambda>b. Inr (ucast a + push_bit 8 (ucast b))))"

definition get_u32 :: "u8 list \<Rightarrow> u32 \<Rightarrow> u32 res" where
  "get_u32 ch i = rbind (rd ch i) (\<lambda>a. rbind (rd ch (i + 1)) (\<lambda>b. rbind (rd ch (i + 2)) (\<lambda>c. rbind (rd ch (i + 3)) (\<lambda>d.
     Inr (ucast a + push_bit 8 (ucast b) + push_bit 16 (ucast c) + push_bit 24 (ucast d))))))"

definition set_u16 :: "u8 list \<Rightarrow> u32 \<Rightarrow> u16 \<Rightarrow> u8 list res" where
  "set_u16 ch i num = rbind (wr ch i (ucast (num AND 0xFF))) (\<lambda>ch. wr ch (i + 1) (ucast (drop_bit 8 num AND 0xFF)))"

definition set_u32 :: "u8 list \<Rightarrow> u32 \<Rightarrow> u32 \<Rightarrow> u8 list res" where
  "set_u32 ch i num = rbind (wr ch i (ucast (num AND 0xFF))) (\<lambda>ch. rbind (wr ch (i + 1) (ucast (drop_bit 8 num AND 0xFF)))
     (\<lambda>ch. rbind (wr ch (i + 2) (ucast (drop_bit 16 num AND 0xFF))) (\<lambda>ch. wr ch (i + 3) (ucast (drop_bit 24 num AND 0xFF)))))"

text \<open>The loop of \<^verbatim>\<open>fs_wa\<close>: halve until at most 1 is left, counting.\<close>

function wa_loop :: "u32 \<Rightarrow> u32 \<Rightarrow> u32" where
  "wa_loop num i = (if num > 1 then wa_loop (drop_bit 1 num) (i + 1) else i)"
  by pat_completeness auto
termination
proof (relation "measure (\<lambda>(num, i). unat num)")
  fix num i :: u32
  assume "num > 1"
  then have "1 < unat num" by (simp add: word_less_nat_alt)
  then show "((drop_bit 1 num, i + 1), num, i) \<in> measure (\<lambda>(num, i). unat num)"
    by (simp add: drop_bit_eq_div unat_div_distrib)
qed simp

declare wa_loop.simps [simp del]

definition fs_wa :: "u32 \<Rightarrow> u32" where
  "fs_wa num = wa_loop num 0"

section \<open>Directory entries and the parameter block\<close>

definition get_entry_filesize :: "u8 list \<Rightarrow> u32 \<Rightarrow> u32 res" where
  "get_entry_filesize ch entry = get_u32 ch (entry + 28)"

definition get_entry_attr :: "u8 list \<Rightarrow> u32 \<Rightarrow> u32 res" where
  "get_entry_attr ch entry = rbind (rd ch (entry + 11)) (\<lambda>a. Inr (ucast a))"

text \<open>\<^verbatim>\<open>union dir_entry\<close> is its 32 bytes.\<close>

definition entry_starthi :: "u8 list \<Rightarrow> u16 res" where "entry_starthi e = get_u16 e 20"
definition entry_startlow :: "u8 list \<Rightarrow> u16 res" where "entry_startlow e = get_u16 e 26"
definition entry_size :: "u8 list \<Rightarrow> u32 res" where "entry_size e = get_u32 e 28"

definition get_start_cluster :: "u8 list \<Rightarrow> u32 res" where
  "get_start_cluster e = rbind (entry_starthi e) (\<lambda>hi. rbind (entry_startlow e) (\<lambda>lo.
     Inr (push_bit 16 (ucast hi) + ucast lo)))"

text \<open>\<^verbatim>\<open>struct BPB_attr\<close>: the members the file system reads.\<close>

record BPB_attr =
  sector_size :: u16
  sectors_per_cluster :: u8
  reserved_sectors :: u16
  max_root_dir_entries :: u16
  num_of_small_sectors :: u16
  sectors_per_fat16 :: u16
  num_of_sectors :: u32
  num_of_sectors_per_fat :: u32

definition BPB_attr_of :: "u8 list \<Rightarrow> BPB_attr res" where
  "BPB_attr_of d = rbind (get_u16 d 11) (\<lambda>ss. rbind (rd d 13) (\<lambda>spc. rbind (get_u16 d 14) (\<lambda>rs. rbind (get_u16 d 17) (\<lambda>mr.
     rbind (get_u16 d 19) (\<lambda>sm. rbind (get_u16 d 22) (\<lambda>sf. rbind (get_u32 d 32) (\<lambda>ns. rbind (get_u32 d 36) (\<lambda>nf.
     Inr \<lparr>sector_size = ss, sectors_per_cluster = spc, reserved_sectors = rs, max_root_dir_entries = mr,
       num_of_small_sectors = sm, sectors_per_fat16 = sf, num_of_sectors = ns, num_of_sectors_per_fat = nf\<rparr>))))))))"

record fs_info =
  base_addr :: u32
  total_data_clusters :: u32
  first_data_sector :: u32
  BPB :: BPB_attr
  fat_fs_info :: "u8 list"

section \<open>Clusters, sectors and table entries\<close>

definition cluster_to_fat_entry :: "fs_info \<Rightarrow> u32 \<Rightarrow> u32 \<times> u32" where
  "cluster_to_fat_entry fi clus =
     (let FATOffset = push_bit 2 clus
      in (ucast (reserved_sectors (BPB fi)) + drop_bit 9 FATOffset + base_addr fi, FATOffset AND 511))"

definition fs_dataclus2sec :: "fs_info \<Rightarrow> u32 \<Rightarrow> u32" where
  "fs_dataclus2sec fi clus =
     push_bit (unat (fs_wa (ucast (sectors_per_cluster (BPB fi))))) (clus - 2) + first_data_sector fi"

definition fs_sec2dataclus :: "fs_info \<Rightarrow> u32 \<Rightarrow> u32" where
  "fs_sec2dataclus fi sec =
     drop_bit (unat (fs_wa (ucast (sectors_per_cluster (BPB fi))))) (sec - first_data_sector fi) + 2"

section \<open>What they compute\<close>

text \<open>The four bytes of a number.\<close>

definition u32_bytes :: "u32 \<Rightarrow> u8 list" where
  "u32_bytes v = map (\<lambda>k. ucast (drop_bit k v)) [0, 8, 16, 24]"

lemma ucast_and_ff: "(ucast (w AND 0xFF) :: u8) = ucast (w :: 'a::len word)"
proof (rule bit_word_eqI)
  fix n assume n: "n < LENGTH(8)"
  have "(0xFF :: 'a word) = mask 8" by (simp add: mask_eq_exp_minus_1)
  then show "bit (ucast (w AND 0xFF) :: u8) n = bit (ucast w :: u8) n"
    unfolding \<open>0xFF = mask 8\<close> using n by (simp add: bit_simps) (auto dest: bit_imp_le_length)
qed

lemma four_cons: "4 \<le> length xs \<Longrightarrow> \<exists>w x y z r. xs = w # x # y # z # r"
  by (auto simp: numeral_eq_Suc Suc_le_length_iff)

lemma u8_parts:
  fixes v :: u32
  shows "ucast (ucast v :: u8) + push_bit 8 (ucast (ucast (drop_bit 8 v) :: u8))
    + push_bit 16 (ucast (ucast (drop_bit 16 v) :: u8)) + push_bit 24 (ucast (ucast (drop_bit 24 v) :: u8)) = v"
    (is "?a + ?b + ?c + ?d = v")
proof -
  have bits: "bit ?a n \<longleftrightarrow> n < 8 \<and> bit v n" "bit ?b n \<longleftrightarrow> 8 \<le> n \<and> n < 16 \<and> bit v n"
    "bit ?c n \<longleftrightarrow> 16 \<le> n \<and> n < 24 \<and> bit v n" "bit ?d n \<longleftrightarrow> 24 \<le> n \<and> n < 32 \<and> bit v n" for n
    by (auto simp: bit_simps dest: bit_imp_le_length)
  have 1: "?a + ?b = ?a OR ?b" by (rule disjunctive_add_eq_or) (rule bit_word_eqI, auto simp: bit_and_iff bits)
  have 2: "(?a OR ?b) + ?c = ?a OR ?b OR ?c"
    by (subst disjunctive_add_eq_or) (rule bit_word_eqI, auto simp: bit_and_iff bit_or_iff bits ac_simps)
  have 3: "(?a OR ?b OR ?c) + ?d = ?a OR ?b OR ?c OR ?d"
    by (subst disjunctive_add_eq_or) (rule bit_word_eqI, auto simp: bit_and_iff bit_or_iff bits ac_simps)
  have "?a OR ?b OR ?c OR ?d = v" by (rule bit_word_eqI) (auto simp: bit_or_iff bits)
  then show ?thesis unfolding 1 2 3 .
qed

lemma u16_parts:
  fixes v :: u16
  shows "ucast (ucast v :: u8) + push_bit 8 (ucast (ucast (drop_bit 8 v) :: u8)) = v" (is "?a + ?b = v")
proof -
  have bits: "bit ?a n \<longleftrightarrow> n < 8 \<and> bit v n" "bit ?b n \<longleftrightarrow> 8 \<le> n \<and> bit v n" for n
    by (auto simp: bit_simps dest: bit_imp_le_length)
  have "?a + ?b = ?a OR ?b" by (rule disjunctive_add_eq_or) (rule bit_word_eqI, auto simp: bit_and_iff bits)
  also have "\<dots> = v" by (rule bit_word_eqI) (auto simp: bit_or_iff bits)
  finally show ?thesis .
qed

lemma unat_plus_small: "unat (i :: u32) + k < n \<Longrightarrow> n \<le> 4294967296 \<Longrightarrow> k < 4294967296 \<Longrightarrow> unat (i + of_nat k) = unat i + k"
  by (subst unat_add_no_wrap) (simp_all add: unat_of_nat take_bit_nat_eq_self)

lemma set_u32_eq:
  assumes "unat i + 4 \<le> length ch" "length ch \<le> 4294967296"
  shows "set_u32 ch i v = Inr (take (unat i) ch @ u32_bytes v @ drop (unat i + 4) ch)"
proof -
  have i: "unat (i + 1) = unat i + 1" "unat (i + 2) = unat i + 2" "unat (i + 3) = unat i + 3"
    using unat_plus_small [of i 1 "length ch"] unat_plus_small [of i 2 "length ch"] unat_plus_small [of i 3 "length ch"] assms
    by simp_all
  have "ch[unat i := a, unat i + 1 := b, unat i + 2 := c, unat i + 3 := d]
      = take (unat i) ch @ [a, b, c, d] @ drop (unat i + 4) ch" for a b c d
  proof -
    let ?t = "take (unat i) ch" and ?r = "drop (unat i) ch"
    have "length ?r \<ge> 4" using assms by simp
    then obtain w x y z r where r: "?r = w # x # y # z # r" using four_cons by blast
    have ch: "ch = ?t @ w # x # y # z # r" using r append_take_drop_id [of "unat i" ch] by simp
    have lt: "length ?t = unat i" using assms by simp
    have "(?t @ w # x # y # z # r)[unat i := a, unat i + 1 := b, unat i + 2 := c, unat i + 3 := d] = ?t @ a # b # c # d # r"
      using lt by (simp add: list_update_append nth_append eval_nat_numeral)
    moreover have "drop (unat i + 4) ch = r"
      using arg_cong [OF r, of "drop 4"] by (simp add: add.commute)
    ultimately show ?thesis using ch by simp
  qed
  then show ?thesis using assms i by (simp add: set_u32_def ucast_and_ff u32_bytes_def)
qed

lemma set_u32_length: "set_u32 ch i v = Inr ch' \<Longrightarrow> length ch' = length ch"
  by (auto simp: set_u32_def res_simps)

lemma get_u32_eq:
  assumes "unat i + 4 \<le> length ch" "length ch \<le> 4294967296" "take 4 (drop (unat i) ch) = u32_bytes v"
  shows "get_u32 ch i = Inr v"
proof -
  have i: "unat (i + 1) = unat i + 1" "unat (i + 2) = unat i + 2" "unat (i + 3) = unat i + 3"
    using unat_plus_small [of i 1 "length ch"] unat_plus_small [of i 2 "length ch"] unat_plus_small [of i 3 "length ch"] assms(1,2)
    by simp_all
  have n: "ch ! (unat i + k) = u32_bytes v ! k" if "k < 4" for k
    using that assms(1) arg_cong [OF assms(3), of "\<lambda>xs. xs ! k"] by simp
  have "ch ! unat i = ucast v" "ch ! (unat i + 1) = ucast (drop_bit 8 v)"
    "ch ! (unat i + 2) = ucast (drop_bit 16 v)" "ch ! (unat i + 3) = ucast (drop_bit 24 v)"
    using n [of 0] n [of 1] n [of 2] n [of 3] by (simp_all add: u32_bytes_def eval_nat_numeral)
  then show ?thesis using assms(1) i u8_parts [of v] by (simp add: get_u32_def)
qed

lemma set_get_u32_spec:
  assumes "unat i + 4 \<le> length ch" "length ch \<le> 4294967296"
  shows "\<exists>ch'. set_u32 ch i v = Inr ch' \<and> get_u32 ch' i = Inr v \<and> length ch' = length ch
    \<and> (\<forall>j<length ch. j \<notin> {unat i..<unat i + 4} \<longrightarrow> ch' ! j = ch ! j)"
proof (intro exI conjI)
  let ?c = "take (unat i) ch @ u32_bytes v @ drop (unat i + 4) ch"
  have b: "length (u32_bytes v) = 4" by (simp add: u32_bytes_def)
  show "set_u32 ch i v = Inr ?c" using assms by (rule set_u32_eq)
  show l: "length ?c = length ch" using assms(1) b by simp
  show "get_u32 ?c i = Inr v" using assms b l by (intro get_u32_eq) simp_all
  show "\<forall>j<length ch. j \<notin> {unat i..<unat i + 4} \<longrightarrow> ?c ! j = ch ! j"
    using assms(1) b by (auto simp: nth_append)
qed

lemma set_get_u16:
  assumes "unat i + 2 \<le> length ch" "length ch \<le> 4294967296"
  shows "\<exists>ch'. set_u16 ch i v = Inr ch' \<and> get_u16 ch' i = Inr v \<and> length ch' = length ch"
proof -
  have i: "unat (i + 1) = unat i + 1" using unat_plus_small [of i 1 "length ch"] assms by simp
  then show ?thesis using assms u16_parts [of v] by (simp add: set_u16_def get_u16_def ucast_and_ff nth_list_update)
qed

text \<open>
  A number stored little-endian is read back: \<^verbatim>\<open>get_u32\<close> after \<^verbatim>\<open>set_u32\<close> at the same place
  returns the number, and every byte outside the four keeps its value.
\<close>

lemma set_get_u32:
  assumes "unat i + 4 \<le> length ch" "length ch \<le> 4294967296"
  shows "\<exists>ch'. set_u32 ch i v = Inr ch' \<and> get_u32 ch' i = Inr v \<and> length ch' = length ch
    \<and> (\<forall>j<length ch. j \<notin> {unat i..<unat i + 4} \<longrightarrow> ch' ! j = ch ! j)"
  using assms by (rule set_get_u32_spec)

lemma set_get_u32_witness:
  "\<exists>ch'. set_u32 [1, 2, 3, 4, 5, 6] 1 0xDEADBEEF = Inr ch' \<and> get_u32 ch' 1 = Inr 0xDEADBEEF \<and> ch' ! 5 = 6"
proof -
  have "unat (1 :: u32) + 4 \<le> length [1, 2, 3, 4, 5, 6 :: u8]" "length [1, 2, 3, 4, 5, 6 :: u8] \<le> 4294967296" by simp_all
  from set_get_u32 [OF this, of "0xDEADBEEF"] obtain ch' where c: "set_u32 [1, 2, 3, 4, 5, 6] 1 0xDEADBEEF = Inr ch'" "get_u32 ch' 1 = Inr 0xDEADBEEF"
    "\<forall>j<length [1, 2, 3, 4, 5, 6 :: u8]. j \<notin> {unat (1 :: u32)..<unat (1 :: u32) + 4} \<longrightarrow> ch' ! j = [1, 2, 3, 4, 5, 6] ! j" by blast
  have "ch' ! 5 = 6" using c(3) [rule_format, of 5] by simp
  with c(1,2) show ?thesis by blast
qed

lemma unat_drop_bit: "unat (drop_bit k (w :: u32)) = unat w div 2 ^ k"
  unfolding unsigned_drop_bit_eq by (simp add: drop_bit_eq_div take_bit_nat_eq_self)

section \<open>The logarithm and the cluster numbers\<close>

lemma wa_loop_spec: "2 ^ k \<le> unat n \<Longrightarrow> unat n < 2 ^ Suc k \<Longrightarrow> wa_loop n i = i + of_nat k"
proof (induction n i arbitrary: k rule: wa_loop.induct)
  case (1 n i)
  show ?case
  proof (cases k)
    case 0
    then have "\<not> n > 1" using 1(3) by (simp add: word_less_nat_alt)
    then show ?thesis using 0 by (simp add: wa_loop.simps)
  next
    case (Suc m)
    have "(1 :: nat) \<le> 2 ^ m" by simp
    then have "2 \<le> unat n" using 1(2) Suc by (simp only: power_Suc)
    then have n: "n > 1" by (simp add: word_less_nat_alt)
    have d: "unat (drop_bit 1 n) = unat n div 2" by (simp add: drop_bit_eq_div unat_div_distrib)
    have "2 ^ m \<le> unat (drop_bit 1 n)" "unat (drop_bit 1 n) < 2 ^ Suc m" using 1(2,3) Suc d by auto
    from 1(1) [OF n this] show ?thesis using n Suc by (subst wa_loop.simps) simp
  qed
qed

lemma fs_wa_log: "2 ^ k \<le> unat n \<Longrightarrow> unat n < 2 ^ Suc k \<Longrightarrow> fs_wa n = of_nat k"
  unfolding fs_wa_def by (subst wa_loop_spec) auto

text \<open>The number of sectors of a cluster is a power of two up to 128.\<close>

lemma fs_wa_pow2: "k < 8 \<Longrightarrow> fs_wa (2 ^ k) = of_nat k"
  by (rule fs_wa_log) (simp_all add: unat_two_power)

lemma dataclus2sec_unat:
  assumes "k < 8" "unat (sectors_per_cluster (BPB fi)) = 2 ^ k" "2 \<le> unat c"
    "unat (first_data_sector fi) + (unat c - 2) * 2 ^ k < 2 ^ 32"
  shows "unat (fs_dataclus2sec fi c) = unat (first_data_sector fi) + (unat c - 2) * 2 ^ k"
    "unat (fs_wa (ucast (sectors_per_cluster (BPB fi)))) = k"
proof -
  have "unat (ucast (sectors_per_cluster (BPB fi)) :: u32) = 2 ^ k" using assms(1,2) by (simp add: unsigned_ucast_eq)
  have small: "take_bit 32 k = k" using assms(1) by (intro take_bit_nat_eq_self) simp
  have "unat (ucast (sectors_per_cluster (BPB fi)) :: u32) = 2 ^ k" by fact
  then show w: "unat (fs_wa (ucast (sectors_per_cluster (BPB fi)))) = k"
    using fs_wa_log [of k "ucast (sectors_per_cluster (BPB fi))"] assms(1) by (simp add: unat_of_nat take_bit_nat_eq_self)
  have "unat (c - 2) = unat c - 2" using assms(3) by (subst unat_sub) (simp_all add: word_le_nat_alt)
  then have "unat (push_bit k (c - 2)) = (unat c - 2) * 2 ^ k"
    unfolding unsigned_push_bit_eq using assms(4) by (simp add: push_bit_eq_mult take_bit_nat_eq_self)
  then show "unat (fs_dataclus2sec fi c) = unat (first_data_sector fi) + (unat c - 2) * 2 ^ k"
    unfolding fs_dataclus2sec_def w using assms(4) by (simp add: unat_add_no_wrap)
qed

text \<open>
  The translation from a data cluster to its first sector is undone by the translation
  back, for every sector of the cluster: the clusters of a volume that fits the sector numbers
  do not overlap.
\<close>

lemma sec2dataclus_of_dataclus2sec:
  assumes "k < 8" "unat (sectors_per_cluster (BPB fi)) = 2 ^ k" "2 \<le> unat c"
    "unat (first_data_sector fi) + (unat c - 1) * 2 ^ k < 2 ^ 32" "j < 2 ^ k"
  shows "fs_sec2dataclus fi (fs_dataclus2sec fi c + of_nat j) = c"
proof -
  obtain d where d: "unat c = d + 2" using assms(3) by (metis le_add_diff_inverse2)
  have lt: "unat (first_data_sector fi) + (unat c - 2) * 2 ^ k < 2 ^ 32" using assms(4) d by simp
  note u = dataclus2sec_unat [OF assms(1-3) lt]
  have j: "unat (of_nat j :: u32) = j"
    using assms(1,5) power_strict_increasing [of k 8 "2 :: nat"] by (simp add: unat_of_nat take_bit_nat_eq_self)
  have s: "unat (fs_dataclus2sec fi c + of_nat j) = unat (first_data_sector fi) + (d * 2 ^ k + j)"
    using u(1) j d assms(4,5) by (subst unat_add_no_wrap) simp_all
  have "unat (fs_dataclus2sec fi c + of_nat j - first_data_sector fi) = d * 2 ^ k + j"
    using s by (subst unat_sub) (simp_all add: word_le_nat_alt)
  then have "unat (drop_bit k (fs_dataclus2sec fi c + of_nat j - first_data_sector fi)) = d"
    using assms(5) by (simp only: unat_drop_bit) simp
  then have "unat (drop_bit k (fs_dataclus2sec fi c + of_nat j - first_data_sector fi) + 2) = unat c"
    using d unat_less_2p32 [of c] by (subst unat_add_no_wrap) simp_all
  then show ?thesis unfolding fs_sec2dataclus_def u(2) by (simp only: word_unat_eq_iff)
qed

definition demo_fs :: fs_info where
  "demo_fs = \<lparr>base_addr = 2048, total_data_clusters = 70000, first_data_sector = 1126,
     BPB = \<lparr>sector_size = 512, sectors_per_cluster = 8, reserved_sectors = 32, max_root_dir_entries = 0,
       num_of_small_sectors = 0, sectors_per_fat16 = 0, num_of_sectors = 561126, num_of_sectors_per_fat = 547\<rparr>,
     fat_fs_info = replicate 512 0\<rparr>"

lemma sec2dataclus_of_dataclus2sec_witness:
  "fs_sec2dataclus demo_fs (fs_dataclus2sec demo_fs 70001 + 7) = 70001"
  using sec2dataclus_of_dataclus2sec [of 3 demo_fs 70001 7] by (simp add: demo_fs_def)

end
