(* ===== verification/Sd.thy ===== *)
theory Sd
  imports Lock FatUtils
begin

text \<open>
  The SD card driver, \<^verbatim>\<open>kernel/driver/sd.c\<close>, and the block access of \<^verbatim>\<open>kernel/fs/fat/utils.c\<close> on
  top of it. The controller is hardware: its registers are a parameter, a record of functions
  on a device state. The polling loops run until the device answers; a device that never
  answers makes them endless, which is \<open>Hang\<close>. The \<^verbatim>\<open>reference card\<close> at the end is a concrete device
  that follows the command protocol the driver relies on.
\<close>

section \<open>The driver\<close>

record 'h sd_hw =
  ctrl_wr :: "u32 \<Rightarrow> u32 \<Rightarrow> 'h \<Rightarrow> 'h"   \<comment> \<open>\<^verbatim>\<open>SD_CTRL[i] = v\<close>\<close>
  ctrl_rd :: "u32 \<Rightarrow> 'h \<Rightarrow> u32 \<times> 'h"   \<comment> \<open>a read may change the state of a device\<close>
  buf_wr :: "u32 \<Rightarrow> u32 \<Rightarrow> 'h \<Rightarrow> 'h"    \<comment> \<open>\<^verbatim>\<open>SD_BUF[i] = v\<close>\<close>
  buf_rd :: "u32 \<Rightarrow> 'h \<Rightarrow> u32 \<times> 'h"

record 'h sd =
  dev :: 'h
  sd_status :: u32  \<comment> \<open>the CP0 Status register\<close>

definition ctrl_write :: "'h sd_hw \<Rightarrow> u32 \<Rightarrow> u32 \<Rightarrow> 'h sd \<Rightarrow> 'h sd" where
  "ctrl_write hw i v s = s\<lparr>dev := ctrl_wr hw i v (dev s)\<rparr>"

text \<open>\<^verbatim>\<open>do r = SD_CTRL[i]; while (r == 0);\<close>\<close>

partial_function (option) poll :: "'h sd_hw \<Rightarrow> u32 \<Rightarrow> 'h sd \<Rightarrow> (u32 \<times> 'h sd) option" where
  "poll hw i s = (let (v, h) = ctrl_rd hw i (dev s); s' = s\<lparr>dev := h\<rparr> in if v = 0 then poll hw i s' else Some (v, s'))"

text \<open>The delay loop between the command and the polling has no effect on the state.\<close>

definition sd_send_cmd_blocking :: "'h sd_hw \<Rightarrow> u32 \<Rightarrow> u32 \<Rightarrow> 'h sd \<Rightarrow> (u32 \<times> 'h sd) res" where
  "sd_send_cmd_blocking hw cmd argument s =
     rbind (ends (poll hw 13 (ctrl_write hw 0 argument (ctrl_write hw 1 cmd s)))) (\<lambda>(cmd_event_status, s).
       Inr (if cmd_event_status AND 1 \<noteq> 0 then 0 else cmd_event_status, s))"

text \<open>\<^verbatim>\<open>buffer_int[i] = SD_BUF[i]\<close> and the reverse, for the buffer that starts at byte \<open>off\<close>.\<close>

definition read_word :: "'h sd_hw \<Rightarrow> u32 \<Rightarrow> u32 \<Rightarrow> u8 list \<times> 'h sd \<Rightarrow> (u8 list \<times> 'h sd) res" where
  "read_word hw off i = (\<lambda>(buf, s). let (w, h) = buf_rd hw i (dev s) in
     rbind (set_u32 buf (off + 4 * i) w) (\<lambda>buf. Inr (buf, s\<lparr>dev := h\<rparr>)))"

definition write_word :: "'h sd_hw \<Rightarrow> u32 \<Rightarrow> u8 list \<Rightarrow> u32 \<Rightarrow> 'h sd \<Rightarrow> 'h sd res" where
  "write_word hw off buf i s =
     rbind (get_u32 buf (off + 4 * i)) (\<lambda>w. Inr (s\<lparr>dev := buf_wr hw i w (dev s)\<rparr>))"

definition words_of_sector :: "u32 list" where
  "words_of_sector = map of_nat [0..<128]"

definition irq_off :: "'h sd \<Rightarrow> 'h sd" where "irq_off s = s\<lparr>sd_status := snd (disable_interrupts (sd_status s))\<rparr>"
definition irq_on :: "'h sd \<Rightarrow> 'h sd" where "irq_on s = s\<lparr>sd_status := snd (enable_interrupts (sd_status s))\<rparr>"

definition sd_read_sector_blocking :: "'h sd_hw \<Rightarrow> u32 \<Rightarrow> u32 \<Rightarrow> u8 list \<times> 'h sd \<Rightarrow> (u32 \<times> u8 list \<times> 'h sd) res" where
  "sd_read_sector_blocking hw sector off = (\<lambda>(buf, s).
     let s = ctrl_write hw 15 0 (ctrl_write hw 24 0 (irq_off s)) in
     rbind (sd_send_cmd_blocking hw 0x1139 sector s) (\<lambda>(result, s).
       if result \<noteq> 0 then Inr (result, buf, irq_on s)
       else rbind (ends (poll hw 15 s)) (\<lambda>(des, s).
         if des AND 1 \<noteq> 0
         then rbind (rfold (read_word hw off) words_of_sector (buf, s)) (\<lambda>(buf, s). Inr (0, buf, irq_on s))
         else Inr (des, buf, irq_on s))))"

definition sd_write_sector_blocking :: "'h sd_hw \<Rightarrow> u32 \<Rightarrow> u32 \<Rightarrow> u8 list \<Rightarrow> 'h sd \<Rightarrow> (u32 \<times> 'h sd) res" where
  "sd_write_sector_blocking hw sector off buf s =
     (let s = ctrl_write hw 15 0 (ctrl_write hw 24 0 (irq_off s)) in
      rbind (rfold (write_word hw off buf) words_of_sector s) (\<lambda>s.
        rbind (sd_send_cmd_blocking hw 0x1859 sector s) (\<lambda>(result, s).
          if result \<noteq> 0 then Inr (result, irq_on s)
          else rbind (ends (poll hw 15 s)) (\<lambda>(des, s). Inr (if des AND 1 \<noteq> 0 then 0 else des, irq_on s)))))"

text \<open>The loops over the sectors: \<open>n\<close> sectors are left, \<open>i\<close> is the counter.\<close>

primrec read_sectors :: "'h sd_hw \<Rightarrow> u32 \<Rightarrow> nat \<Rightarrow> u32 \<Rightarrow> u8 list \<times> 'h sd \<Rightarrow> (u32 \<times> u8 list \<times> 'h sd) res" where
  "read_sectors hw addr 0 i = (\<lambda>(buf, s). Inr (0, buf, s))"
| "read_sectors hw addr (Suc n) i = (\<lambda>bs.
     rbind (sd_read_sector_blocking hw (addr + i) (i * 512) bs) (\<lambda>(result, bs).
       if result \<noteq> 0 then Inr (1, bs) else read_sectors hw addr n (i + 1) bs))"

primrec write_sectors :: "'h sd_hw \<Rightarrow> u32 \<Rightarrow> u8 list \<Rightarrow> nat \<Rightarrow> u32 \<Rightarrow> 'h sd \<Rightarrow> (u32 \<times> 'h sd) res" where
  "write_sectors hw addr buf 0 i = (\<lambda>s. Inr (0, s))"
| "write_sectors hw addr buf (Suc n) i = (\<lambda>s.
     rbind (sd_write_sector_blocking hw (addr + i) (i * 512) buf s) (\<lambda>(result, s).
       if result \<noteq> 0 then Inr (1, s) else write_sectors hw addr buf n (i + 1) s))"

definition sd_read_block :: "'h sd_hw \<Rightarrow> u8 list \<Rightarrow> u32 \<Rightarrow> u32 \<Rightarrow> 'h sd \<Rightarrow> (u32 \<times> u8 list \<times> 'h sd) res" where
  "sd_read_block hw buf addr count s = read_sectors hw addr (unat count) 0 (buf, s)"

definition sd_write_block :: "'h sd_hw \<Rightarrow> u8 list \<Rightarrow> u32 \<Rightarrow> u32 \<Rightarrow> 'h sd \<Rightarrow> (u32 \<times> 'h sd) res" where
  "sd_write_block hw buf addr count s = write_sectors hw addr buf (unat count) 0 s"

definition read_block :: "'h sd_hw \<Rightarrow> u8 list \<Rightarrow> u32 \<Rightarrow> u32 \<Rightarrow> 'h sd \<Rightarrow> (u32 \<times> u8 list \<times> 'h sd) res" where
  "read_block hw buf addr count s = sd_read_block hw buf addr count s"

definition write_block :: "'h sd_hw \<Rightarrow> u8 list \<Rightarrow> u32 \<Rightarrow> u32 \<Rightarrow> 'h sd \<Rightarrow> (u32 \<times> 'h sd) res" where
  "write_block hw buf addr count s = sd_write_block hw buf addr count s"

section \<open>A reference card\<close>

text \<open>
  The device answers a command after \<open>latency\<close> reads of the status register. A read command
  fills its buffer with the sector, a write command stores its buffer in the sector; sectors from
  \<open>capacity\<close> on do not exist and are answered by an error status.
\<close>

record card =
  sectors :: "u32 \<Rightarrow> u32 list"
  cbuf :: "u32 list"
  cmd_reg :: u32
  busy :: nat
  cmd_event :: u32
  data_event :: u32
  capacity :: u32

definition latency :: nat where "latency = 2"

definition run_cmd :: "u32 \<Rightarrow> card \<Rightarrow> card" where
  "run_cmd arg c =
     (let c = c\<lparr>busy := latency, cmd_event := 1, data_event := (if arg < capacity c then 1 else 2)\<rparr> in
      if arg < capacity c \<and> cmd_reg c = 0x1139 then c\<lparr>cbuf := sectors c arg\<rparr>
      else if arg < capacity c \<and> cmd_reg c = 0x1859 then c\<lparr>sectors := (sectors c)(arg := cbuf c)\<rparr>
      else c)"

definition card_hw :: "card sd_hw" where
  "card_hw = \<lparr>ctrl_wr = (\<lambda>i v c. if i = 1 then c\<lparr>cmd_reg := v\<rparr> else if i = 0 then run_cmd v c
        else if i = 15 then c\<lparr>data_event := 0\<rparr> else c),
     ctrl_rd = (\<lambda>i c. if busy c > 0 then (0, c\<lparr>busy := busy c - 1\<rparr>)
        else (if i = 13 then cmd_event c else if i = 15 then data_event c else 0, c)),
     buf_wr = (\<lambda>i v c. c\<lparr>cbuf := (cbuf c)[unat i := v]\<rparr>),
     buf_rd = (\<lambda>i c. (cbuf c ! unat i, c))\<rparr>"

definition card_ok :: "card sd \<Rightarrow> bool" where
  "card_ok s \<longleftrightarrow> (\<forall>a. length (sectors (dev s) a) = 128) \<and> length (cbuf (dev s)) = 128"

text \<open>The bytes of a sector.\<close>

definition sector_bytes :: "u32 list \<Rightarrow> u8 list" where
  "sector_bytes ws = concat (map u32_bytes ws)"

section \<open>The driver on the reference card\<close>

lemma sector_bytes_length: "length (sector_bytes ws) = 4 * length ws"
  by (induction ws) (auto simp: sector_bytes_def u32_bytes_def)

lemma sector_bytes_snoc: "sector_bytes (ws @ [w]) = sector_bytes ws @ u32_bytes w"
  by (simp add: sector_bytes_def)

lemma unat_word_index: "n < 128 \<Longrightarrow> unat (off :: u32) + 512 \<le> N \<Longrightarrow> N \<le> 4294967296 \<Longrightarrow> unat (off + 4 * of_nat n) = unat off + 4 * n"
proof -
  assume a: "n < 128" "unat off + 512 \<le> N" "N \<le> 4294967296"
  then have "4 * of_nat n = (of_nat (4 * n) :: u32)" by simp
  moreover have "unat (off + of_nat (4 * n)) = unat off + 4 * n"
    using a by (intro unat_plus_small [of _ _ N]) auto
  ultimately show ?thesis by simp
qed

lemma read_words_card:
  assumes "unat off + 512 \<le> length buf" "length buf \<le> 4294967296" "card_ok s" "n \<le> 128"
  shows "rfold (read_word card_hw off) (map of_nat [0..<n]) (buf, s)
    = Inr (take (unat off) buf @ sector_bytes (take n (cbuf (dev s))) @ drop (unat off + 4 * n) buf, s)"
  using assms(4)
proof (induction n)
  case 0
  then show ?case by (simp add: sector_bytes_def)
next
  case (Suc n)
  let ?b = "take (unat off) buf @ sector_bytes (take n (cbuf (dev s))) @ drop (unat off + 4 * n) buf"
  have l: "length (cbuf (dev s)) = 128" using assms(3) by (simp add: card_ok_def)
  have i: "unat (off + 4 * of_nat n) = unat off + 4 * n"
    using Suc(2) assms(1,2) by (intro unat_word_index) auto
  have u: "unat (of_nat n :: u32) = n" using Suc(2) by (simp add: unat_of_nat take_bit_nat_eq_self)
  have bl: "length ?b = length buf" "length (sector_bytes (take n (cbuf (dev s)))) = 4 * n"
    using Suc(2) assms(1) l by (simp_all add: sector_bytes_length)
  have "set_u32 ?b (off + 4 * of_nat n) (cbuf (dev s) ! n)
      = Inr (take (unat off + 4 * n) ?b @ u32_bytes (cbuf (dev s) ! n) @ drop (unat off + 4 * n + 4) ?b)"
    using set_u32_eq [of "off + 4 * of_nat n" ?b] bl(1) i Suc(2) assms(1,2) by simp
  also have "take (unat off + 4 * n) ?b = take (unat off) buf @ sector_bytes (take n (cbuf (dev s)))"
    using bl assms(1) by simp
  also have "drop (unat off + 4 * n + 4) ?b = drop (unat off + 4 * Suc n) buf"
    using bl assms(1) by (simp add: ac_simps)
  finally have st: "set_u32 ?b (off + 4 * of_nat n) (cbuf (dev s) ! n)
      = Inr (take (unat off) buf @ sector_bytes (take (Suc n) (cbuf (dev s))) @ drop (unat off + 4 * Suc n) buf)"
    using Suc(2) l by (simp add: take_Suc_conv_app_nth sector_bytes_snoc)
  have "rfold (read_word card_hw off) (map of_nat [0..<n]) (buf, s) = Inr (?b, s)" using Suc by simp
  then have "rfold (read_word card_hw off) (map of_nat [0..<Suc n]) (buf, s) = read_word card_hw off (of_nat n) (?b, s)"
    by (simp add: rfold_append) (cases "read_word card_hw off (of_nat n) (?b, s)", simp_all)
  also have "\<dots> = Inr (take (unat off) buf @ sector_bytes (take (Suc n) (cbuf (dev s))) @ drop (unat off + 4 * Suc n) buf, s)"
    using st u by (simp add: read_word_def card_hw_def)
  finally show ?case .
qed

lemma bytes_u32:
  fixes a b c d :: u8
  defines "v \<equiv> ucast a + push_bit 8 (ucast b) + push_bit 16 (ucast c) + push_bit 24 (ucast d) :: u32"
  shows "u32_bytes v = [a, b, c, d]"
proof -
  let ?a = "ucast a :: u32" and ?b = "push_bit 8 (ucast b) :: u32" and ?c = "push_bit 16 (ucast c) :: u32" and ?d = "push_bit 24 (ucast d) :: u32"
  have bits: "bit ?a n \<longleftrightarrow> n < 8 \<and> bit a n" "bit ?b n \<longleftrightarrow> 8 \<le> n \<and> n < 16 \<and> bit b (n - 8)"
    "bit ?c n \<longleftrightarrow> 16 \<le> n \<and> n < 24 \<and> bit c (n - 16)" "bit ?d n \<longleftrightarrow> 24 \<le> n \<and> n < 32 \<and> bit d (n - 24)" for n
    by (auto simp: bit_simps dest: bit_imp_le_length)
  have 1: "?a + ?b = ?a OR ?b" by (rule disjunctive_add_eq_or) (rule bit_word_eqI, auto simp: bit_and_iff bits)
  have 2: "(?a OR ?b) + ?c = ?a OR ?b OR ?c"
    by (subst disjunctive_add_eq_or) (rule bit_word_eqI, auto simp: bit_and_iff bit_or_iff bits ac_simps)
  have 3: "(?a OR ?b OR ?c) + ?d = ?a OR ?b OR ?c OR ?d"
    by (subst disjunctive_add_eq_or) (rule bit_word_eqI, auto simp: bit_and_iff bit_or_iff bits ac_simps)
  have v: "bit v n \<longleftrightarrow> bit ?a n \<or> bit ?b n \<or> bit ?c n \<or> bit ?d n" for n
    unfolding v_def 1 2 3 by (auto simp: bit_or_iff)
  have "ucast v = a" "ucast (drop_bit 8 v) = b" "ucast (drop_bit 16 v) = c" "ucast (drop_bit 24 v) = d"
    by (rule bit_word_eqI, auto simp: bit_ucast_iff bit_drop_bit_eq v bits dest: bit_imp_le_length)+
  then show ?thesis by (simp add: u32_bytes_def)
qed

lemma get_u32_total:
  assumes "unat i + 4 \<le> length ch" "length ch \<le> 4294967296"
  obtains v where "get_u32 ch i = Inr v" "u32_bytes v = take 4 (drop (unat i) ch)"
proof -
  have "4 \<le> length (drop (unat i) ch)" using assms(1) by simp
  then obtain a b c d r where "drop (unat i) ch = a # b # c # d # r" using four_cons by blast
  then have t: "take 4 (drop (unat i) ch) = [a, b, c, d]" by simp
  with get_u32_eq [OF assms, of "ucast a + push_bit 8 (ucast b) + push_bit 16 (ucast c) + push_bit 24 (ucast d)"] bytes_u32 [of a b c d] that
  show thesis by simp
qed

lemma write_words_card:
  assumes "unat off + 512 \<le> length buf" "length buf \<le> 4294967296" "card_ok s" "n \<le> 128"
  shows "\<exists>cb. rfold (write_word card_hw off buf) (map of_nat [0..<n]) s = Inr (s\<lparr>dev := (dev s)\<lparr>cbuf := cb\<rparr>\<rparr>)
    \<and> length cb = 128 \<and> sector_bytes (take n cb) = take (4 * n) (drop (unat off) buf)"
  using assms(4)
proof (induction n)
  case 0
  have "s = s\<lparr>dev := (dev s)\<lparr>cbuf := cbuf (dev s)\<rparr>\<rparr>" by simp
  then show ?case using assms(3) by (intro exI [of _ "cbuf (dev s)"]) (simp add: sector_bytes_def card_ok_def)
next
  case (Suc n)
  then obtain cb where cb: "rfold (write_word card_hw off buf) (map of_nat [0..<n]) s = Inr (s\<lparr>dev := (dev s)\<lparr>cbuf := cb\<rparr>\<rparr>)"
    "length cb = 128" "sector_bytes (take n cb) = take (4 * n) (drop (unat off) buf)" by auto
  have i: "unat (off + 4 * of_nat n) = unat off + 4 * n"
    using Suc(2) assms(1,2) by (intro unat_word_index) auto
  have u: "unat (of_nat n :: u32) = n" using Suc(2) by (simp add: unat_of_nat take_bit_nat_eq_self)
  have "unat (off + 4 * of_nat n) + 4 \<le> length buf" using i Suc(2) assms(1) by simp
  then obtain v where v: "get_u32 buf (off + 4 * of_nat n) = Inr v" "u32_bytes v = take 4 (drop (unat off + 4 * n) buf)"
    using get_u32_total [of "off + 4 * of_nat n" buf] assms(2) unfolding i by blast
  have "rfold (write_word card_hw off buf) (map of_nat [0..<Suc n]) s = write_word card_hw off buf (of_nat n) (s\<lparr>dev := (dev s)\<lparr>cbuf := cb\<rparr>\<rparr>)"
    using cb(1) by (simp add: rfold_append) (cases "write_word card_hw off buf (of_nat n) (s\<lparr>dev := (dev s)\<lparr>cbuf := cb\<rparr>\<rparr>)", simp_all)
  also have "\<dots> = Inr (s\<lparr>dev := (dev s)\<lparr>cbuf := cb[n := v]\<rparr>\<rparr>)"
    using v(1) u by (simp add: write_word_def card_hw_def)
  finally have r: "rfold (write_word card_hw off buf) (map of_nat [0..<Suc n]) s = Inr (s\<lparr>dev := (dev s)\<lparr>cbuf := cb[n := v]\<rparr>\<rparr>)" .
  have "sector_bytes (take (Suc n) (cb[n := v])) = take (4 * n) (drop (unat off) buf) @ u32_bytes v"
    using Suc(2) cb(2,3) by (simp add: take_update_last sector_bytes_snoc)
  also have "\<dots> = take (4 * Suc n) (drop (unat off) buf)"
    unfolding v(2) using take_add [of "4 * n" 4 "drop (unat off) buf"] by (simp add: ac_simps)
  finally show ?case using r cb(2) by (intro exI [of _ "cb[n := v]"]) simp
qed

lemma poll_card:
  assumes "i = 13 \<and> v = cmd_event (dev s) \<or> i = 15 \<and> v = data_event (dev s)" "v \<noteq> 0"
  shows "poll card_hw i s = Some (v, s\<lparr>dev := (dev s)\<lparr>busy := 0\<rparr>\<rparr>)"
  using assms
proof (induction "busy (dev s)" arbitrary: s)
  case 0
  then have "s\<lparr>dev := (dev s)\<lparr>busy := 0\<rparr>\<rparr> = s" by simp
  then show ?case using 0 by (subst poll.simps) (auto simp: card_hw_def)
next
  case (Suc n)
  let ?s = "s\<lparr>dev := (dev s)\<lparr>busy := n\<rparr>\<rparr>"
  have "poll card_hw i s = poll card_hw i ?s"
    using Suc(2) by (subst poll.simps) (simp add: card_hw_def Suc(2) [symmetric])
  also have "\<dots> = Some (v, s\<lparr>dev := (dev s)\<lparr>busy := 0\<rparr>\<rparr>)" using Suc(1) [of ?s] Suc(3,4) by simp
  finally show ?case .
qed

definition card_disk :: "card sd \<Rightarrow> u32 \<Rightarrow> u8 list" where
  "card_disk s a = sector_bytes (sectors (dev s) a)"

lemma disk_length: "card_ok s \<Longrightarrow> length (card_disk s a) = 512"
  by (simp add: card_ok_def card_disk_def sector_bytes_length)

lemma card_cmd:
  "sd_send_cmd_blocking card_hw cmd a s =
     Inr (0, s\<lparr>dev := (run_cmd a ((dev s)\<lparr>cmd_reg := cmd\<rparr>))\<lparr>busy := 0\<rparr>\<rparr>)"
proof -
  let ?s = "s\<lparr>dev := run_cmd a ((dev s)\<lparr>cmd_reg := cmd\<rparr>)\<rparr>"
  have e: "cmd_event (dev ?s) = 1" by (simp add: run_cmd_def Let_def)
  have w: "ctrl_write card_hw 0 a (ctrl_write card_hw 1 cmd s) = ?s" by (simp add: ctrl_write_def card_hw_def)
  have "poll card_hw 13 ?s = Some (1, ?s\<lparr>dev := (dev ?s)\<lparr>busy := 0\<rparr>\<rparr>)" using e by (intro poll_card) simp_all
  then show ?thesis by (simp add: sd_send_cmd_blocking_def w)
qed

lemmas card_steps = card_cmd irq_off_def irq_on_def ctrl_write_def words_of_sector_def

lemma card_read_sector_at:
  assumes "card_ok s" "unat off + 512 \<le> length buf" "length buf \<le> 4294967296"
  shows "\<exists>r buf' s'. sd_read_sector_blocking card_hw a off (buf, s) = Inr (r, buf', s') \<and> card_ok s'
    \<and> sectors (dev s') = sectors (dev s) \<and> capacity (dev s') = capacity (dev s)
    \<and> (if a < capacity (dev s) then r = 0 \<and> buf' = take (unat off) buf @ card_disk s a @ drop (unat off + 512) buf
        else r \<noteq> 0 \<and> buf' = buf)"
proof -
  let ?c = "(dev s)\<lparr>data_event := 0, cmd_reg := 0x1139\<rparr>"
  let ?s = "irq_off s\<lparr>dev := (run_cmd a ?c)\<lparr>busy := 0\<rparr>\<rparr>"
  have k: "card_ok ?s" using assms(1) by (simp add: card_ok_def run_cmd_def Let_def irq_off_def)
  have c: "ctrl_write card_hw 15 0 (ctrl_write card_hw 24 0 (irq_off s)) = irq_off s\<lparr>dev := (dev s)\<lparr>data_event := 0\<rparr>\<rparr>"
    by (simp add: ctrl_write_def card_hw_def irq_off_def)
  have d: "data_event (dev ?s) = (if a < capacity (dev s) then 1 else 2)" by (simp add: run_cmd_def Let_def)
  have f: "sectors (dev ?s) = sectors (dev s)" "capacity (dev ?s) = capacity (dev s)" by (simp_all add: run_cmd_def Let_def)
  have p: "poll card_hw 15 ?s = Some (data_event (dev ?s), ?s)"
    using poll_card [of 15 "data_event (dev ?s)" ?s] d by simp
  show ?thesis
  proof (cases "a < capacity (dev s)")
    case True
    let ?b = "take (unat off) buf @ sector_bytes (cbuf (dev ?s)) @ drop (unat off + 512) buf"
    have "rfold (read_word card_hw off) words_of_sector (buf, ?s) = Inr (?b, ?s)"
      using read_words_card [of off buf ?s 128] assms(2,3) k by (simp add: words_of_sector_def card_ok_def)
    moreover have "cbuf (dev ?s) = sectors (dev s) a" using True by (simp add: run_cmd_def Let_def)
    ultimately have "sd_read_sector_blocking card_hw a off (buf, s)
        = Inr (0, take (unat off) buf @ card_disk s a @ drop (unat off + 512) buf, irq_on ?s)"
      using p d True by (simp add: sd_read_sector_blocking_def c card_cmd card_disk_def Let_def)
    moreover have "card_ok (irq_on ?s)" using k by (simp add: card_ok_def irq_on_def)
    ultimately show ?thesis using True f by (intro exI conjI) (assumption | simp add: irq_on_def)+
  next
    case False
    then have "sd_read_sector_blocking card_hw a off (buf, s) = Inr (2, buf, irq_on ?s)"
      using p d by (simp add: sd_read_sector_blocking_def c card_cmd Let_def)
    moreover have "card_ok (irq_on ?s)" using k by (simp add: card_ok_def irq_on_def)
    ultimately show ?thesis using False f by (intro exI conjI) (assumption | simp add: irq_on_def)+
  qed
qed

lemma card_read_sector:
  assumes "card_ok s" "length buf = 512"
  shows "\<exists>r buf' s'. sd_read_sector_blocking card_hw a 0 (buf, s) = Inr (r, buf', s') \<and> card_ok s' \<and> length buf' = 512
    \<and> sectors (dev s') = sectors (dev s) \<and> capacity (dev s') = capacity (dev s)
    \<and> (if a < capacity (dev s) then r = 0 \<and> buf' = card_disk s a else r \<noteq> 0)"
  using card_read_sector_at [OF assms(1), of 0 buf a] assms(2) disk_length [OF assms(1), of a]
  by (cases "a < capacity (dev s)") auto

text \<open>The bytes of \<open>n\<close> sectors from \<open>a\<close> on.\<close>

definition range_bytes :: "(u32 \<Rightarrow> u8 list) \<Rightarrow> u32 \<Rightarrow> nat \<Rightarrow> u8 list" where
  "range_bytes sec a n = concat (map (\<lambda>k. sec (a + of_nat k)) [0..<n])"

lemma range_bytes_length: "(\<And>a. length (sec a) = 512) \<Longrightarrow> length (range_bytes sec a n) = 512 * n"
  by (induction n) (simp_all add: range_bytes_def)

lemma range_bytes_snoc: "range_bytes sec a (Suc n) = range_bytes sec a n @ sec (a + of_nat n)"
  by (simp add: range_bytes_def)

lemma card_read_sectors:
  assumes "unat a + (i + n) \<le> unat (capacity (dev s0))" "512 * (i + n) \<le> length buf0" "length buf0 \<le> 4294967296"
    and "card_ok s" "sectors (dev s) = sectors (dev s0)" "capacity (dev s) = capacity (dev s0)" "card_ok s0"
  shows "\<exists>s'. read_sectors card_hw a n (of_nat i) (range_bytes (card_disk s0) a i @ drop (512 * i) buf0, s)
      = Inr (0, range_bytes (card_disk s0) a (i + n) @ drop (512 * (i + n)) buf0, s')
    \<and> card_ok s' \<and> sectors (dev s') = sectors (dev s0) \<and> capacity (dev s') = capacity (dev s0)"
  using assms(1,2,4-6)
proof (induction n arbitrary: i s)
  case (Suc n)
  let ?b = "range_bytes (card_disk s0) a i @ drop (512 * i) buf0"
  have len: "length (range_bytes (card_disk s0) a i) = 512 * i" using disk_length [OF assms(7)] by (rule range_bytes_length)
  have i: "i < 2 ^ 23" using Suc.prems(2) assms(3) by simp
  then have u: "unat (of_nat i :: u32) = i" "unat (of_nat i * 512 :: u32) = 512 * i"
    by (simp_all add: unat_of_nat take_bit_nat_eq_self unat_word_ariths)
  have "unat a + i < 4294967296" using Suc.prems(1) unat_less_2p32 [of "capacity (dev s0)"] by linarith
  then have "unat (a + of_nat i) = unat a + i" using u(1) by (subst unat_add_no_wrap) simp_all
  then have a: "a + of_nat i < capacity (dev s)" using Suc.prems(1,5) by (simp add: word_less_nat_alt)
  have bl: "length ?b = length buf0" using len Suc.prems(2) by simp
  obtain s1 where s1: "sd_read_sector_blocking card_hw (a + of_nat i) (of_nat i * 512) (?b, s)
      = Inr (0, take (512 * i) ?b @ card_disk s (a + of_nat i) @ drop (512 * i + 512) ?b, s1)"
    "card_ok s1" "sectors (dev s1) = sectors (dev s0)" "capacity (dev s1) = capacity (dev s0)"
    using card_read_sector_at [OF Suc.prems(3), of "of_nat i * 512" ?b "a + of_nat i"] a u(2) bl Suc.prems(2,4,5) assms(3) by auto
  have "take (512 * i) ?b @ card_disk s (a + of_nat i) @ drop (512 * i + 512) ?b
      = range_bytes (card_disk s0) a (Suc i) @ drop (512 * Suc i) buf0"
    using len Suc.prems(4) by (simp add: range_bytes_snoc card_disk_def ac_simps)
  then show ?case using Suc.IH [of "Suc i" s1] s1 Suc.prems(1,2) by (simp add: add.commute [of _ 1])
qed simp

lemma card_write_sector_at:
  assumes "card_ok s" "unat off + 512 \<le> length buf" "length buf \<le> 4294967296"
  shows "\<exists>r s'. sd_write_sector_blocking card_hw a off buf s = Inr (r, s') \<and> card_ok s' \<and> capacity (dev s') = capacity (dev s)
    \<and> (if a < capacity (dev s) then r = 0 \<and> card_disk s' = (card_disk s)(a := take 512 (drop (unat off) buf)) else r \<noteq> 0 \<and> card_disk s' = card_disk s)"
proof -
  let ?i = "irq_off s\<lparr>dev := (dev s)\<lparr>data_event := 0\<rparr>\<rparr>"
  have c: "ctrl_write card_hw 15 0 (ctrl_write card_hw 24 0 (irq_off s)) = ?i"
    by (simp add: ctrl_write_def card_hw_def irq_off_def)
  have "card_ok ?i" using assms(1) by (simp add: card_ok_def irq_off_def)
  then obtain cb where cb: "rfold (write_word card_hw off buf) words_of_sector ?i = Inr (?i\<lparr>dev := (dev ?i)\<lparr>cbuf := cb\<rparr>\<rparr>)"
    "length cb = 128" "sector_bytes cb = take 512 (drop (unat off) buf)"
    using write_words_card [of off buf ?i 128] assms(2,3) by (auto simp: words_of_sector_def)
  let ?s = "irq_off s\<lparr>dev := (run_cmd a ((dev s)\<lparr>data_event := 0, cbuf := cb, cmd_reg := 0x1859\<rparr>))\<lparr>busy := 0\<rparr>\<rparr>"
  have d: "data_event (dev ?s) = (if a < capacity (dev s) then 1 else 2)" by (simp add: run_cmd_def Let_def)
  have p: "poll card_hw 15 ?s = Some (data_event (dev ?s), ?s)"
    using poll_card [of 15 "data_event (dev ?s)" ?s] d by simp
  have r: "sd_write_sector_blocking card_hw a off buf s = Inr (if a < capacity (dev s) then 0 else 2, irq_on ?s)"
    using p d cb(1) by (simp add: sd_write_sector_blocking_def c card_cmd Let_def)
  have k: "card_ok (irq_on ?s)" using assms(1) cb(2) by (simp add: card_ok_def irq_on_def run_cmd_def Let_def)
  have "card_disk (irq_on ?s) = (if a < capacity (dev s) then (card_disk s)(a := take 512 (drop (unat off) buf)) else card_disk s)"
    using cb(3) by (auto simp: card_disk_def irq_on_def run_cmd_def Let_def fun_eq_iff)
  moreover have "capacity (dev (irq_on ?s)) = capacity (dev s)" by (simp add: irq_on_def run_cmd_def Let_def)
  moreover have "if a < capacity (dev s) then (if a < capacity (dev s) then 0 else 2) = (0 :: u32) else (if a < capacity (dev s) then 0 else 2) \<noteq> (0 :: u32)"
    by simp
  ultimately show ?thesis using r k by (cases "a < capacity (dev s)") auto
qed

lemma card_write_sector:
  assumes "card_ok s" "length buf = 512"
  shows "\<exists>r s'. sd_write_sector_blocking card_hw a 0 buf s = Inr (r, s') \<and> card_ok s' \<and> capacity (dev s') = capacity (dev s)
    \<and> (if a < capacity (dev s) then r = 0 \<and> card_disk s' = (card_disk s)(a := buf) else r \<noteq> 0 \<and> card_disk s' = card_disk s)"
  using card_write_sector_at [OF assms(1), of 0 buf a] assms(2) by (cases "a < capacity (dev s)") auto

text \<open>The sectors \<open>[a, a + n)\<close>, and a disk on which they have been overwritten with the front of a buffer.\<close>

definition within :: "nat \<Rightarrow> u32 \<Rightarrow> u32 \<Rightarrow> bool" where
  "within n a x \<longleftrightarrow> unat a \<le> unat x \<and> unat x < unat a + n"

definition put_range :: "(u32 \<Rightarrow> u8 list) \<Rightarrow> u32 \<Rightarrow> nat \<Rightarrow> u8 list \<Rightarrow> u32 \<Rightarrow> u8 list" where
  "put_range disk a n buf x = (if within n a x then take 512 (drop (512 * (unat x - unat a)) buf) else disk x)"

lemma put_range_0 [simp]: "put_range disk a 0 buf = disk"
  by (auto simp: put_range_def within_def fun_eq_iff)

lemma put_range_snoc:
  assumes "unat a + i < 4294967296"
  shows "(put_range disk a i buf)(a + of_nat i := take 512 (drop (512 * i) buf)) = put_range disk a (Suc i) buf"
proof
  fix x
  have "unat (of_nat i :: u32) = i" using assms by (simp add: unat_of_nat take_bit_nat_eq_self)
  then have u: "unat (a + of_nat i) = unat a + i" using assms by (subst unat_add_no_wrap) simp_all
  then have "x = a + of_nat i \<longleftrightarrow> unat x = unat a + i" by (simp add: word_unat_eq_iff)
  then show "((put_range disk a i buf)(a + of_nat i := take 512 (drop (512 * i) buf))) x = put_range disk a (Suc i) buf x"
    by (auto simp: put_range_def within_def less_Suc_eq)
qed

lemma card_write_sectors:
  assumes "unat a + (i + n) \<le> unat (capacity (dev s0))" "512 * (i + n) \<le> length buf" "length buf \<le> 4294967296"
    and "card_ok s" "card_disk s = put_range (card_disk s0) a i buf" "capacity (dev s) = capacity (dev s0)"
  shows "\<exists>s'. write_sectors card_hw a buf n (of_nat i) s = Inr (0, s') \<and> card_ok s'
    \<and> card_disk s' = put_range (card_disk s0) a (i + n) buf \<and> capacity (dev s') = capacity (dev s0)"
  using assms(1,2,4-6)
proof (induction n arbitrary: i s)
  case (Suc n)
  have i: "i < 2 ^ 23" using Suc.prems(2) assms(3) by simp
  then have u: "unat (of_nat i :: u32) = i" "unat (of_nat i * 512 :: u32) = 512 * i"
    by (simp_all add: unat_of_nat take_bit_nat_eq_self unat_word_ariths)
  have ai: "unat a + i < 4294967296" using Suc.prems(1) unat_less_2p32 [of "capacity (dev s0)"] by linarith
  then have "unat (a + of_nat i) = unat a + i" using u(1) by (subst unat_add_no_wrap) simp_all
  then have a: "a + of_nat i < capacity (dev s)" using Suc.prems(1,5) by (simp add: word_less_nat_alt)
  have "unat (of_nat i * 512 :: u32) + 512 \<le> length buf" using u(2) Suc.prems(2) by simp
  then obtain s1 where s1: "sd_write_sector_blocking card_hw (a + of_nat i) (of_nat i * 512) buf s = Inr (0, s1)"
    "card_ok s1" "capacity (dev s1) = capacity (dev s0)"
    "card_disk s1 = (card_disk s)(a + of_nat i := take 512 (drop (512 * i) buf))"
    using card_write_sector_at [OF Suc.prems(3), of "of_nat i * 512" buf "a + of_nat i"] a u(2) Suc.prems(5) assms(3) by auto
  have "card_disk s1 = put_range (card_disk s0) a (Suc i) buf"
    unfolding s1(4) Suc.prems(4) by (rule put_range_snoc [OF ai])
  then show ?case using Suc.IH [of "Suc i" s1] s1 Suc.prems(1,2) by (simp add: add.commute [of _ 1])
qed simp

section \<open>Block access\<close>

text \<open>
  What the caches rely on: reading and writing one sector through \<open>rd1\<close> and \<open>wr1\<close> on a device
  with the contents \<open>sec\<close>, for the sector numbers below \<open>cap\<close>; anything else is refused and
  changes nothing on the disk.
\<close>

locale block_device =
  fixes rd1 :: "u8 list \<Rightarrow> u32 \<Rightarrow> 'd \<Rightarrow> (u32 \<times> u8 list \<times> 'd) res"
    and wr1 :: "u8 list \<Rightarrow> u32 \<Rightarrow> 'd \<Rightarrow> (u32 \<times> 'd) res"
    and sec :: "'d \<Rightarrow> u32 \<Rightarrow> u8 list"
    and cap :: "'d \<Rightarrow> u32"
    and okd :: "'d \<Rightarrow> bool"
  assumes read1: "okd d \<Longrightarrow> length buf = 512 \<Longrightarrow>
      \<exists>r buf' d'. rd1 buf a d = Inr (r, buf', d') \<and> okd d' \<and> length buf' = 512 \<and> sec d' = sec d \<and> cap d' = cap d
        \<and> (if a < cap d then r = 0 \<and> buf' = sec d a else r = 1)"
    and write1: "okd d \<Longrightarrow> length buf = 512 \<Longrightarrow>
      \<exists>r d'. wr1 buf a d = Inr (r, d') \<and> okd d' \<and> cap d' = cap d
        \<and> (if a < cap d then r = 0 \<and> sec d' = (sec d)(a := buf) else r = 1 \<and> sec d' = sec d)"
begin

lemma write_then_read:
  assumes "okd d" "length buf = 512" "length buf' = 512" "a < cap d"
  shows "\<exists>d1 d2. wr1 buf a d = Inr (0, d1) \<and> rd1 buf' a d1 = Inr (0, buf, d2) \<and> sec d2 = (sec d)(a := buf)"
proof -
  obtain d1 where d1: "wr1 buf a d = Inr (0, d1)" "okd d1" "cap d1 = cap d" "sec d1 = (sec d)(a := buf)"
    using write1 [OF assms(1,2), of a] assms(4) by auto
  then show ?thesis using read1 [OF d1(2) assms(3), of a] assms(4) by auto
qed

end

lemma one_word: "unat (1 :: u32) = Suc 0"
  by simp

lemma read_block_one:
  "read_block hw buf a 1 s = rbind (sd_read_sector_blocking hw a 0 (buf, s)) (\<lambda>(r, buf, s). Inr (if r \<noteq> 0 then 1 else 0, buf, s))"
  unfolding read_block_def sd_read_block_def one_word
  by (simp add: rbind_def split: sum.splits prod.splits)

lemma write_block_one:
  "write_block hw buf a 1 s = rbind (sd_write_sector_blocking hw a 0 buf s) (\<lambda>(r, s). Inr (if r \<noteq> 0 then 1 else 0, s))"
  unfolding write_block_def sd_write_block_def one_word
  by (simp add: rbind_def split: sum.splits prod.splits)

interpretation card: block_device "\<lambda>buf a. read_block card_hw buf a 1" "\<lambda>buf a. write_block card_hw buf a 1"
  card_disk "\<lambda>s. capacity (dev s)" card_ok
proof unfold_locales
  fix d buf a
  assume a: "card_ok d" "length (buf :: u8 list) = 512"
  obtain r b' d' where r: "sd_read_sector_blocking card_hw a 0 (buf, d) = Inr (r, b', d')" "card_ok d'" "length b' = 512"
    "sectors (dev d') = sectors (dev d)" "capacity (dev d') = capacity (dev d)"
    "if a < capacity (dev d) then r = 0 \<and> b' = card_disk d a else r \<noteq> 0"
    using card_read_sector [OF a] by blast
  then have "card_disk d' = card_disk d" by (simp add: card_disk_def fun_eq_iff)
  then show "\<exists>r buf' d'. read_block card_hw buf a 1 d = Inr (r, buf', d') \<and> card_ok d' \<and> length buf' = 512 \<and> card_disk d' = card_disk d
      \<and> capacity (dev d') = capacity (dev d) \<and> (if a < capacity (dev d) then r = 0 \<and> buf' = card_disk d a else r = 1)"
    using r by (simp add: read_block_one split: if_splits)
  obtain r d' where "sd_write_sector_blocking card_hw a 0 buf d = Inr (r, d')" "card_ok d'" "capacity (dev d') = capacity (dev d)"
    "if a < capacity (dev d) then r = 0 \<and> card_disk d' = (card_disk d)(a := buf) else r \<noteq> 0 \<and> card_disk d' = card_disk d"
    using card_write_sector [OF a] by blast
  then show "\<exists>r d'. write_block card_hw buf a 1 d = Inr (r, d') \<and> card_ok d' \<and> capacity (dev d') = capacity (dev d)
      \<and> (if a < capacity (dev d) then r = 0 \<and> card_disk d' = (card_disk d)(a := buf) else r = 1 \<and> card_disk d' = card_disk d)"
    by (simp add: write_block_one split: if_splits)
qed

text \<open>What reading relies on: a range of sectors is read into the front of the buffer, and nothing changes.\<close>

locale range_device =
  fixes io_read :: "u8 list \<Rightarrow> u32 \<Rightarrow> u32 \<Rightarrow> 'd \<Rightarrow> (u32 \<times> u8 list \<times> 'd) res"
    and sec :: "'d \<Rightarrow> u32 \<Rightarrow> u8 list"
    and cap :: "'d \<Rightarrow> u32"
    and okd :: "'d \<Rightarrow> bool"
  assumes read_range: "okd d \<Longrightarrow> unat a + unat n \<le> unat (cap d) \<Longrightarrow> 512 * unat n \<le> length buf \<Longrightarrow> length buf \<le> 4294967296 \<Longrightarrow>
      \<exists>d'. io_read buf a n d = Inr (0, range_bytes (sec d) a (unat n) @ drop (512 * unat n) buf, d')
        \<and> okd d' \<and> sec d' = sec d \<and> cap d' = cap d"
    and sector_length: "okd d \<Longrightarrow> length (sec d a) = 512"

interpretation card_range: range_device "read_block card_hw" card_disk "\<lambda>s. capacity (dev s)" card_ok
proof unfold_locales
  fix d and a n :: u32 and buf :: "u8 list"
  assume a: "card_ok d" "unat a + unat n \<le> unat (capacity (dev d))" "512 * unat n \<le> length buf" "length buf \<le> 4294967296"
  obtain d' where d': "read_sectors card_hw a (unat n) 0 (buf, d) = Inr (0, range_bytes (card_disk d) a (unat n) @ drop (512 * unat n) buf, d')"
    "card_ok d'" "sectors (dev d') = sectors (dev d)" "capacity (dev d') = capacity (dev d)"
    using card_read_sectors [of a 0 "unat n" d buf d] a by (auto simp: range_bytes_def)
  then have "card_disk d' = card_disk d" by (simp add: card_disk_def fun_eq_iff)
  then show "\<exists>d'. read_block card_hw buf a n d = Inr (0, range_bytes (card_disk d) a (unat n) @ drop (512 * unat n) buf, d')
      \<and> card_ok d' \<and> card_disk d' = card_disk d \<and> capacity (dev d') = capacity (dev d)"
    using d' by (simp add: read_block_def sd_read_block_def)
qed (rule disk_length)

text \<open>And what writing back relies on.\<close>

locale range_store = range_device io_read sec cap okd
  for io_read :: "u8 list \<Rightarrow> u32 \<Rightarrow> u32 \<Rightarrow> 'd \<Rightarrow> (u32 \<times> u8 list \<times> 'd) res"
    and sec :: "'d \<Rightarrow> u32 \<Rightarrow> u8 list" and cap :: "'d \<Rightarrow> u32" and okd :: "'d \<Rightarrow> bool" +
  fixes io_write :: "u8 list \<Rightarrow> u32 \<Rightarrow> u32 \<Rightarrow> 'd \<Rightarrow> (u32 \<times> 'd) res"
  assumes write_range: "okd d \<Longrightarrow> unat a + unat n \<le> unat (cap d) \<Longrightarrow> 512 * unat n \<le> length buf \<Longrightarrow> length buf \<le> 4294967296 \<Longrightarrow>
      \<exists>d'. io_write buf a n d = Inr (0, d') \<and> okd d' \<and> sec d' = put_range (sec d) a (unat n) buf \<and> cap d' = cap d"

interpretation card_store: range_store "read_block card_hw" card_disk "\<lambda>s. capacity (dev s)" card_ok "write_block card_hw"
proof unfold_locales
  fix d and a n :: u32 and buf :: "u8 list"
  assume "card_ok d" "unat a + unat n \<le> unat (capacity (dev d))" "512 * unat n \<le> length buf" "length buf \<le> 4294967296"
  then show "\<exists>d'. write_block card_hw buf a n d = Inr (0, d') \<and> card_ok d' \<and> card_disk d' = put_range (card_disk d) a (unat n) buf
      \<and> capacity (dev d') = capacity (dev d)"
    using card_write_sectors [of a 0 "unat n" d buf d] by (simp add: write_block_def sd_write_block_def)
qed

text \<open>
  On a card that follows the protocol, a sector written with \<^verbatim>\<open>write_block\<close> is read back
  byte for byte by \<^verbatim>\<open>read_block\<close>, through the command registers, the polling loops and the
  transfer of 128 words, and no other sector changes.
\<close>

lemma write_block_read_back:
  assumes "card_ok s" "length buf = 512" "length buf' = 512" "a < capacity (dev s)"
  shows "\<exists>s1 s2. write_block card_hw buf a 1 s = Inr (0, s1) \<and> read_block card_hw buf' a 1 s1 = Inr (0, buf, s2)
    \<and> card_disk s2 = (card_disk s)(a := buf)"
  using assms by (rule card.write_then_read)

definition demo_card :: "card sd" where
  "demo_card = \<lparr>dev = \<lparr>sectors = (\<lambda>_. replicate 128 0), cbuf = replicate 128 0, cmd_reg = 0, busy = 0, cmd_event = 0,
     data_event = 0, capacity = 1000\<rparr>, sd_status = 1\<rparr>"

lemma demo_card_ok: "card_ok demo_card"
  by (simp add: card_ok_def demo_card_def)

lemma write_block_read_back_witness:
  "\<exists>s1 s2. write_block card_hw (replicate 512 7) 5 1 demo_card = Inr (0, s1) \<and>
     read_block card_hw (replicate 512 0) 5 1 s1 = Inr (0, replicate 512 7, s2)"
  using write_block_read_back [OF demo_card_ok, of "replicate 512 7" "replicate 512 0" 5] by (auto simp: demo_card_def)

end
