(* ===== verification/FsCache.thy ===== *)
theory FsCache
  imports Sd
begin

text \<open>
  The buffers of the file system, \<^verbatim>\<open>kernel/fs/fscache/fscache.c\<close>: blocks read from the card are
  kept with a reference bit (1) and a dirty bit (2), and a clock hand chooses the block to
  replace. The routines for 4096 and for 512 bytes are the same text but for the type of the
  block and the number of sectors. The empty \<^verbatim>\<open>_lru\<close> functions are not modelled.
\<close>

text \<open>The block layer: \<^verbatim>\<open>read_block\<close> and \<^verbatim>\<open>write_block\<close> on the device state.\<close>

record 'd block_io =
  blk_read :: "u8 list \<Rightarrow> u32 \<Rightarrow> u32 \<Rightarrow> 'd \<Rightarrow> (u32 \<times> u8 list \<times> 'd) res"
  blk_write :: "u8 list \<Rightarrow> u32 \<Rightarrow> u32 \<Rightarrow> 'd \<Rightarrow> (u32 \<times> 'd) res"

definition sd_io :: "'h sd_hw \<Rightarrow> 'h sd block_io" where
  "sd_io hw = \<lparr>blk_read = read_block hw, blk_write = write_block hw\<rparr>"

record BUF =
  bdata :: "u8 list"
  cur :: u32
  state :: u32

definition next_hand :: "u32 \<Rightarrow> u32 \<Rightarrow> u32" where
  "next_hand clock_head nbuf = (if clock_head + 1 \<ge> nbuf then 0 else clock_head + 1)"

text \<open>The sweeps: \<open>n\<close> rounds are left; the first component says whether a victim was found.\<close>

primrec sweep1 :: "u32 \<Rightarrow> nat \<Rightarrow> BUF list \<Rightarrow> u32 \<Rightarrow> (bool \<times> BUF list \<times> u32) res" where
  "sweep1 nbuf 0 bufs head = Inr (False, bufs, head)"
| "sweep1 nbuf (Suc n) bufs head = rbind (rd bufs head) (\<lambda>b.
     if state b AND 1 = 0 \<and> state b AND 2 = 0 then Inr (True, bufs, head)
     else
       let bufs = (if state b AND 1 = 0 then bufs else bufs[unat head := b\<lparr>state := state b AND 0xfe\<rparr>])
       in sweep1 nbuf n bufs (next_hand head nbuf))"

primrec sweep2 :: "u32 \<Rightarrow> nat \<Rightarrow> BUF list \<Rightarrow> u32 \<Rightarrow> u32 res" where
  "sweep2 nbuf 0 bufs head = Inr head"
| "sweep2 nbuf (Suc n) bufs head = rbind (rd bufs head) (\<lambda>b.
     if state b AND 2 = 0 then Inr head else sweep2 nbuf n bufs (next_hand head nbuf))"

text \<open>The result is the index of the victim, the blocks and the new clock head.\<close>

definition fs_victim_4k :: "BUF list \<Rightarrow> u32 \<Rightarrow> u32 \<Rightarrow> (u32 \<times> BUF list \<times> u32) res" where
  "fs_victim_4k bufs clock_head nbuf =
     rbind (sweep1 nbuf (unat nbuf) bufs clock_head) (\<lambda>(found, bufs, head).
       rbind (if found then Inr head else sweep2 nbuf (unat nbuf) bufs head) (\<lambda>index.
         Inr (index, bufs, next_hand index nbuf)))"

definition fs_write_buf :: "'d block_io \<Rightarrow> u32 \<Rightarrow> BUF \<Rightarrow> 'd \<Rightarrow> (u32 \<times> BUF \<times> 'd) res" where
  "fs_write_buf io n f s =
     (if cur f \<noteq> 0xffffffff \<and> state f AND 2 \<noteq> 0
      then rbind (blk_write io (bdata f) (cur f) n s) (\<lambda>(r, s).
        if r = 1 then Inr (1, f, s) else Inr (0, f\<lparr>state := state f AND 1\<rparr>, s))
      else Inr (0, f, s))"

text \<open>The search: \<open>n\<close> blocks from index \<open>i\<close> on are left.\<close>

primrec find_buf :: "BUF list \<Rightarrow> u32 \<Rightarrow> nat \<Rightarrow> u32 \<Rightarrow> u32 res" where
  "find_buf f sec 0 i = Inr i"
| "find_buf f sec (Suc n) i = rbind (rd f i) (\<lambda>b. if cur b \<noteq> sec then find_buf f sec n (i + 1) else Inr i)"

text \<open>Reading: the index or \<^verbatim>\<open>0xffffffff\<close>, the blocks, the clock head, the device.\<close>

definition fs_read_buf :: "'d block_io \<Rightarrow> fs_info \<Rightarrow> u32 \<Rightarrow> BUF list \<Rightarrow> u32 \<Rightarrow> u32 \<Rightarrow> u32 \<Rightarrow> 'd \<Rightarrow>
    (u32 \<times> BUF list \<times> u32 \<times> 'd) res" where
  "fs_read_buf io fi n f FirstSectorOfCluster clock_head nbuf s =
     (let FirstSecWithOfs = FirstSectorOfCluster + base_addr fi in
      rbind (find_buf f FirstSecWithOfs (unat nbuf) 0) (\<lambda>index.
        if index = nbuf then
          rbind (fs_victim_4k f clock_head nbuf) (\<lambda>(index, f, clock_head).
            rbind (rd f index) (\<lambda>b.
              rbind (fs_write_buf io n b s) (\<lambda>(r, b, s).
                let f = f[unat index := b] in
                if r = 1 then Inr (0xffffffff, f, clock_head, s)
                else rbind (blk_read io (bdata b) FirstSecWithOfs n s) (\<lambda>(r, bytes, s).
                  if r = 1 then Inr (0xffffffff, f[unat index := b\<lparr>bdata := bytes\<rparr>], clock_head, s)
                  else Inr (index, f[unat index := \<lparr>bdata = bytes, cur = FirstSecWithOfs, state = 1\<rparr>], clock_head, s)))))
        else rbind (rd f index) (\<lambda>b. Inr (index, f[unat index := b\<lparr>state := state b OR 1\<rparr>], clock_head, s))))"

definition zero_bytes :: "nat \<Rightarrow> u8 list \<Rightarrow> u8 list res" where
  "zero_bytes n b = (if n \<le> length b then Inr (replicate n 0 @ drop n b) else Inl Fault)"

definition fs_clr_buf :: "'d block_io \<Rightarrow> u32 \<Rightarrow> nat \<Rightarrow> BUF list \<Rightarrow> u32 \<Rightarrow> u32 \<Rightarrow> u32 \<Rightarrow> 'd \<Rightarrow> (u32 \<times> BUF list \<times> u32 \<times> 'd) res" where
  "fs_clr_buf io n bytes f clock_head nbuf cur' s =
     rbind (fs_victim_4k f clock_head nbuf) (\<lambda>(index, f, clock_head).
       rbind (rd f index) (\<lambda>b.
         rbind (fs_write_buf io n b s) (\<lambda>(r, b, s).
           let f = f[unat index := b] in
           if r = 1 then Inr (1, f, clock_head, s)
           else rbind (zero_bytes bytes (bdata b)) (\<lambda>z.
             Inr (0, f[unat index := \<lparr>bdata = z, cur = cur', state = 0\<rparr>], clock_head, s)))))"

text \<open>The functions of the two sizes.\<close>

definition sectors_of_cluster :: "fs_info \<Rightarrow> u32" where
  "sectors_of_cluster fi = ucast (sectors_per_cluster (BPB fi))"

definition fs_write_4k :: "'d block_io \<Rightarrow> fs_info \<Rightarrow> BUF \<Rightarrow> 'd \<Rightarrow> (u32 \<times> BUF \<times> 'd) res" where
  "fs_write_4k io fi = fs_write_buf io (sectors_of_cluster fi)"

definition fs_read_4k :: "'d block_io \<Rightarrow> fs_info \<Rightarrow> BUF list \<Rightarrow> u32 \<Rightarrow> u32 \<Rightarrow> u32 \<Rightarrow> 'd \<Rightarrow> (u32 \<times> BUF list \<times> u32 \<times> 'd) res" where
  "fs_read_4k io fi = fs_read_buf io fi (sectors_of_cluster fi)"

definition fs_clr_4k :: "'d block_io \<Rightarrow> fs_info \<Rightarrow> BUF list \<Rightarrow> u32 \<Rightarrow> u32 \<Rightarrow> u32 \<Rightarrow> 'd \<Rightarrow> (u32 \<times> BUF list \<times> u32 \<times> 'd) res" where
  "fs_clr_4k io fi = fs_clr_buf io (sectors_of_cluster fi) (unat (push_bit 9 (sectors_of_cluster fi)))"

definition fs_victim_512 :: "BUF list \<Rightarrow> u32 \<Rightarrow> u32 \<Rightarrow> (u32 \<times> BUF list \<times> u32) res" where
  "fs_victim_512 = fs_victim_4k"

definition fs_write_512 :: "'d block_io \<Rightarrow> BUF \<Rightarrow> 'd \<Rightarrow> (u32 \<times> BUF \<times> 'd) res" where
  "fs_write_512 io = fs_write_buf io 1"

definition fs_read_512 :: "'d block_io \<Rightarrow> fs_info \<Rightarrow> BUF list \<Rightarrow> u32 \<Rightarrow> u32 \<Rightarrow> u32 \<Rightarrow> 'd \<Rightarrow> (u32 \<times> BUF list \<times> u32 \<times> 'd) res" where
  "fs_read_512 io fi = fs_read_buf io fi 1"

definition fs_clr_512 :: "'d block_io \<Rightarrow> BUF list \<Rightarrow> u32 \<Rightarrow> u32 \<Rightarrow> u32 \<Rightarrow> 'd \<Rightarrow> (u32 \<times> BUF list \<times> u32 \<times> 'd) res" where
  "fs_clr_512 io = fs_clr_buf io 1 512"

section \<open>The choice of the victim\<close>

text \<open>Two block lists that differ at most in reference bits.\<close>

definition same_but_ref :: "BUF \<Rightarrow> BUF \<Rightarrow> bool" where
  "same_but_ref b b' \<longleftrightarrow> bdata b' = bdata b \<and> cur b' = cur b \<and> (state b' = state b \<or> state b' = state b AND 0xfe)"

lemma and_fe_dirty: "(w AND 0xfe) AND 2 = (w :: u32) AND 2"
  by (simp add: and.assoc)

lemma same_but_ref_dirty: "same_but_ref b b' \<Longrightarrow> state b' AND 2 = state b AND 2"
  by (auto simp: same_but_ref_def and_fe_dirty)

lemma same_but_ref_refl: "same_but_ref b b"
  by (simp add: same_but_ref_def)

lemma same_but_ref_trans: "same_but_ref a b \<Longrightarrow> same_but_ref b c \<Longrightarrow> same_but_ref a c"
  by (auto simp: same_but_ref_def and.assoc)

lemma same_refs_trans:
  "list_all2 same_but_ref a b \<Longrightarrow> list_all2 same_but_ref b c \<Longrightarrow> list_all2 same_but_ref a c"
  using same_but_ref_trans by (fastforce simp: list_all2_conv_all_nth)

lemma next_hand_less: "0 < nbuf \<Longrightarrow> next_hand h nbuf < nbuf"
  by (auto simp: next_hand_def not_le)

lemma sweep1_spec:
  assumes "h < nbuf" "unat nbuf = length bufs"
  shows "\<exists>found bufs' h'. sweep1 nbuf n bufs h = Inr (found, bufs', h') \<and> h' < nbuf \<and> list_all2 same_but_ref bufs bufs'
    \<and> (found \<longrightarrow> state (bufs' ! unat h') AND 2 = 0)"
  using assms
proof (induction n arbitrary: bufs h)
  case 0
  then show ?case 
    by (intro exI [of _ False] exI [of _ bufs] exI [of _ h]) (simp add: list_all2_refl same_but_ref_refl)
next
  case (Suc n)
  let ?b = "bufs ! unat h"
  let ?bufs = "if state ?b AND 1 = 0 then bufs else bufs[unat h := ?b\<lparr>state := state ?b AND 0xfe\<rparr>]"
  have h: "unat h < length bufs" using Suc(2,3) by (simp add: word_less_nat_alt)
  have "list_all2 same_but_ref bufs ?bufs"
    using h by (auto simp: list_all2_conv_all_nth nth_list_update same_but_ref_def)
  moreover have "next_hand h nbuf < nbuf" using Suc(2) by (intro next_hand_less) (auto simp: word_less_nat_alt)
  ultimately obtain found bufs' h' where "sweep1 nbuf n ?bufs (next_hand h nbuf) = Inr (found, bufs', h')"
    "h' < nbuf" "list_all2 same_but_ref ?bufs bufs'" "found \<longrightarrow> state (bufs' ! unat h') AND 2 = 0"
    using Suc(1) [of "next_hand h nbuf" ?bufs] Suc(3) by (metis list_all2_lengthD)
  moreover from this(3) have "list_all2 same_but_ref bufs bufs'"
    by (rule same_refs_trans [OF \<open>list_all2 same_but_ref bufs ?bufs\<close>])
  ultimately show ?case using h Suc(2) by (auto simp: Let_def list_all2_refl same_but_ref_refl)
qed

text \<open>The second sweep visits every block: it misses no clean one.\<close>

lemma sweep2_range: "h < nbuf \<Longrightarrow> unat nbuf = length bufs \<Longrightarrow> \<exists>h'. sweep2 nbuf n bufs h = Inr h' \<and> h' < nbuf"
proof (induction n arbitrary: h)
  case (Suc n)
  have h: "unat h < length bufs" using Suc(2,3) by (simp add: word_less_nat_alt)
  have "next_hand h nbuf < nbuf" using Suc(2) by (intro next_hand_less) (auto simp: word_less_nat_alt)
  then show ?case using Suc h by auto
qed simp

lemma next_hand_mod:
  assumes "h < nbuf"
  shows "unat (next_hand h nbuf) = (unat h + 1) mod unat nbuf"
proof -
  have u: "unat (h + 1) = unat h + 1" using unat_Suc_less [OF assms] by simp
  show ?thesis
  proof (cases "h + 1 \<ge> nbuf")
    case True
    then have "unat h + 1 = unat nbuf" using u assms by (simp add: word_le_nat_alt word_less_nat_alt)
    then show ?thesis using True by (simp add: next_hand_def)
  next
    case False
    then have "unat h + 1 < unat nbuf" using u by (simp add: word_le_nat_alt)
    then show ?thesis using False u by (simp add: next_hand_def)
  qed
qed

lemma sweep2_clean:
  assumes "h < nbuf" "unat nbuf = length bufs" "k < n" "state (bufs ! ((unat h + k) mod unat nbuf)) AND 2 = 0"
  shows "\<exists>h'. sweep2 nbuf n bufs h = Inr h' \<and> state (bufs ! unat h') AND 2 = 0"
  using assms
proof (induction n arbitrary: h k)
  case (Suc n)
  have h: "unat h < length bufs" using Suc(2,3) by (simp add: word_less_nat_alt)
  show ?case
  proof (cases "state (bufs ! unat h) AND 2 = 0")
    case False
    have "k \<noteq> 0" using Suc(3,5) h False by (cases k) auto
    then obtain j where k: "k = Suc j" by (cases k) auto
    have "next_hand h nbuf < nbuf" using Suc(2) by (intro next_hand_less) (auto simp: word_less_nat_alt)
    moreover have "(unat (next_hand h nbuf) + j) mod unat nbuf = (unat h + k) mod unat nbuf"
      unfolding next_hand_mod [OF Suc(2)] k by (simp add: mod_add_left_eq)
    ultimately show ?thesis using Suc(1) [of "next_hand h nbuf" j] Suc(3-5) k h False by auto
  qed (use h in auto)
qed simp

lemma fs_victim_spec:
  assumes "h < nbuf" "unat nbuf = length bufs"
  shows "\<exists>i bufs' h'. fs_victim_4k bufs h nbuf = Inr (i, bufs', h') \<and> i < nbuf \<and> h' < nbuf \<and> list_all2 same_but_ref bufs bufs'
    \<and> ((\<exists>b\<in>set bufs. state b AND 2 = 0) \<longrightarrow> state (bufs ! unat i) AND 2 = 0)"
proof -
  obtain found bufs' h1 where s1: "sweep1 nbuf (unat nbuf) bufs h = Inr (found, bufs', h1)" "h1 < nbuf"
    "list_all2 same_but_ref bufs bufs'" "found \<longrightarrow> state (bufs' ! unat h1) AND 2 = 0"
    using sweep1_spec [OF assms] by blast
  have l: "unat nbuf = length bufs'" using s1(3) assms(2) by (simp add: list_all2_lengthD)
  have dirty: "state (bufs ! i) AND 2 = state (bufs' ! i) AND 2" if "i < length bufs" for i
    using same_but_ref_dirty s1(3) that by (auto simp: list_all2_conv_all_nth)
  have pos: "0 < nbuf" using assms(1) by (auto simp: word_less_nat_alt)
  show ?thesis
  proof (cases found)
    case True
    then show ?thesis using s1 assms dirty [of "unat h1"] next_hand_less [OF pos]
      by (simp add: fs_victim_4k_def word_less_nat_alt)
  next
    case False
    obtain i where i: "sweep2 nbuf (unat nbuf) bufs' h1 = Inr i" "i < nbuf" using sweep2_range [OF s1(2) l] by blast
    have "state (bufs ! unat i) AND 2 = 0" if clean: "b \<in> set bufs" "state b AND 2 = 0" for b
    proof -
      obtain j where j: "j < length bufs" "bufs ! j = b" using clean(1) by (auto simp: in_set_conv_nth)
      let ?k = "(j + unat nbuf - unat h1) mod unat nbuf"
      have hs: "unat h1 < unat nbuf" using s1(2) by (simp add: word_less_nat_alt)
      then have "?k < unat nbuf" by (intro mod_less_divisor) simp
      moreover have "(unat h1 + ?k) mod unat nbuf = j"
        using j(1) assms(2) hs by (simp add: mod_add_right_eq)
      moreover have "state (bufs' ! j) AND 2 = 0" using dirty [OF j(1)] j(2) clean(2) by simp
      ultimately have "\<exists>h'. sweep2 nbuf (unat nbuf) bufs' h1 = Inr h' \<and> state (bufs' ! unat h') AND 2 = 0"
        using sweep2_clean [OF s1(2) l, of ?k "unat nbuf"] by simp
      then show ?thesis using i dirty [of "unat i"] assms(2) by (auto simp: word_less_nat_alt)
    qed
    then show ?thesis using s1 False i next_hand_less [OF pos] by (auto simp: fs_victim_4k_def)
  qed
qed

section \<open>Coherence\<close>

text \<open>
  \<open>view disk bufs a\<close> is what the kernel takes sector \<open>a\<close> to contain: the buffered block if there
  is one, the disk otherwise. \<open>cache_ok\<close> says that no sector is buffered twice and that every block
  without the dirty bit equals the disk.
\<close>

definition view :: "(u32 \<Rightarrow> u8 list) \<Rightarrow> BUF list \<Rightarrow> u32 \<Rightarrow> u8 list" where
  "view disk bufs a = (case find (\<lambda>b. cur b = a) bufs of Some b \<Rightarrow> bdata b | None \<Rightarrow> disk a)"

definition blk_ok :: "(u32 \<Rightarrow> u8 list) \<Rightarrow> u32 \<Rightarrow> BUF \<Rightarrow> bool" where
  "blk_ok disk cap b \<longleftrightarrow> length (bdata b) = 512
     \<and> (cur b \<noteq> 0xffffffff \<longrightarrow> cur b < cap \<and> (state b AND 2 = 0 \<longrightarrow> bdata b = disk (cur b)))"

definition unique_cur :: "BUF list \<Rightarrow> bool" where
  "unique_cur bufs \<longleftrightarrow> (\<forall>i<length bufs. \<forall>j<length bufs. cur (bufs ! i) = cur (bufs ! j) \<longrightarrow> cur (bufs ! i) \<noteq> 0xffffffff \<longrightarrow> i = j)"

definition cache_ok :: "(u32 \<Rightarrow> u8 list) \<Rightarrow> u32 \<Rightarrow> BUF list \<Rightarrow> bool" where
  "cache_ok disk cap bufs \<longleftrightarrow> (\<forall>b\<in>set bufs. blk_ok disk cap b) \<and> unique_cur bufs"

lemma view_hit:
  assumes "unique_cur bufs" "i < length bufs" "cur (bufs ! i) = a" "a \<noteq> 0xffffffff"
  shows "view disk bufs a = bdata (bufs ! i)"
proof -
  obtain b where b: "find (\<lambda>b. cur b = a) bufs = Some b"
    using assms(2,3) by (cases "find (\<lambda>b. cur b = a) bufs") (auto simp: find_None_iff)
  then obtain j where "j < length bufs" "cur (bufs ! j) = a" "b = bufs ! j" by (auto simp: find_Some_iff)
  with assms have "b = bufs ! i" unfolding unique_cur_def by metis
  then show ?thesis using b by (simp add: view_def)
qed

lemma view_miss: "(\<And>i. i < length bufs \<Longrightarrow> cur (bufs ! i) \<noteq> a) \<Longrightarrow> view disk bufs a = disk a"
proof -
  assume "\<And>i. i < length bufs \<Longrightarrow> cur (bufs ! i) \<noteq> a"
  then have "find (\<lambda>b. cur b = a) bufs = None" by (auto simp: find_None_iff in_set_conv_nth)
  then show ?thesis by (simp add: view_def)
qed

lemma view_cases:
  assumes "unique_cur bufs" "a \<noteq> 0xffffffff"
  obtains i where "i < length bufs" "cur (bufs ! i) = a" "view disk bufs a = bdata (bufs ! i)"
    | "\<And>i. i < length bufs \<Longrightarrow> cur (bufs ! i) \<noteq> a" "view disk bufs a = disk a"
  using view_hit [OF assms(1) _ _ assms(2)] view_miss by blast

text \<open>Only the numbers of the blocks and their bytes matter.\<close>

lemma same_refs_cache:
  assumes "list_all2 same_but_ref bufs bufs'"
  shows "cache_ok disk cap bufs \<Longrightarrow> cache_ok disk cap bufs'" "view disk bufs' = view disk bufs"
proof -
  note l = list_all2_lengthD [OF assms]
  have n: "same_but_ref (bufs ! i) (bufs' ! i)" if "i < length bufs" for i using assms that by (auto simp: list_all2_conv_all_nth)
  have m: "cur (bufs' ! i) = cur (bufs ! i)" "bdata (bufs' ! i) = bdata (bufs ! i)" "state (bufs' ! i) AND 2 = state (bufs ! i) AND 2"
    if "i < length bufs" for i using n [OF that] same_but_ref_dirty [OF n [OF that]] by (simp_all add: same_but_ref_def)
  show "cache_ok disk cap bufs'" if c: "cache_ok disk cap bufs"
  proof -
    have "blk_ok disk cap (bufs' ! i)" if "i < length bufs" for i
      using c that m [OF that] by (auto simp: cache_ok_def blk_ok_def)
    moreover have "unique_cur bufs'" using c m l by (simp add: cache_ok_def unique_cur_def)
    ultimately show ?thesis using l by (auto simp: cache_ok_def in_set_conv_nth)
  qed
  show "view disk bufs' = view disk bufs"
  proof
    fix a
    have "map_option bdata (find (\<lambda>b. cur b = a) bufs') = map_option bdata (find (\<lambda>b. cur b = a) bufs)"
      using assms by (induction rule: list_all2_induct) (auto simp: same_but_ref_def)
    then show "view disk bufs' a = view disk bufs a" unfolding view_def by (auto split: option.splits)
  qed
qed

lemma cache_ok_update:
  assumes "cache_ok disk cap bufs" "i < length bufs" "blk_ok disk cap b"
    and "cur b \<noteq> 0xffffffff \<Longrightarrow> \<forall>j<length bufs. j \<noteq> i \<longrightarrow> cur (bufs ! j) \<noteq> cur b"
  shows "cache_ok disk cap (bufs[i := b])"
proof -
  have "unique_cur bufs" using assms(1) by (simp add: cache_ok_def)
  then have "unique_cur (bufs[i := b])"
    unfolding unique_cur_def using assms(2,4) by (auto simp: nth_list_update) metis+
  moreover have "\<forall>b'\<in>set (bufs[i := b]). blk_ok disk cap b'"
    using assms(1,3) set_update_subset_insert [of bufs i b] by (auto simp: cache_ok_def)
  ultimately show ?thesis by (simp add: cache_ok_def)
qed

text \<open>Replacing a clean block by another sector loses nothing.\<close>

lemma view_replace:
  assumes "cache_ok disk cap bufs" "i < length bufs" "state (bufs ! i) AND 2 = 0 \<or> cur (bufs ! i) = 0xffffffff"
    and "\<forall>j<length bufs. cur (bufs ! j) \<noteq> cur b" "cur b \<noteq> 0xffffffff" "cur b < cap" "bdata b = disk (cur b)" "length (bdata b) = 512"
  shows "cache_ok disk cap (bufs[i := b])" "a \<noteq> 0xffffffff \<Longrightarrow> view disk (bufs[i := b]) a = view disk bufs a"
proof -
  have k: "blk_ok disk cap b" using assms(6-8) by (simp add: blk_ok_def)
  show c: "cache_ok disk cap (bufs[i := b])" using assms(4) by (intro cache_ok_update [OF assms(1,2) k]) simp
  show "view disk (bufs[i := b]) a = view disk bufs a" if a: "a \<noteq> 0xffffffff"
  proof -
    have u: "unique_cur bufs" "unique_cur (bufs[i := b])" using assms(1) c by (simp_all add: cache_ok_def)
    consider "a = cur b" | "a = cur (bufs ! i)" "a \<noteq> cur b" | "a \<noteq> cur b" "a \<noteq> cur (bufs ! i)" by blast
    then show ?thesis
    proof cases
      case 1
      then have "view disk bufs a = disk a" using assms(4) by (intro view_miss) auto
      moreover have "view disk (bufs[i := b]) a = bdata b" using view_hit [OF u(2), of i a] 1 a assms(2) by simp
      ultimately show ?thesis using assms(7) 1 by simp
    next
      case 2
      have "view disk bufs a = bdata (bufs ! i)" using view_hit [OF u(1) assms(2) 2(1) [symmetric] a] .
      moreover have "view disk (bufs[i := b]) a = disk a"
      proof (rule view_miss)
        fix j assume "j < length (bufs[i := b])"
        then show "cur (bufs[i := b] ! j) \<noteq> a"
          using u(1) 2 a assms(2) by (cases "j = i") (auto simp: unique_cur_def)
      qed
      moreover have "blk_ok disk cap (bufs ! i)" using assms(1,2) by (simp add: cache_ok_def)
      ultimately show ?thesis using assms(3) 2(1) a by (auto simp: blk_ok_def)
    next
      case 3
      show ?thesis
      proof (rule view_cases [OF u(1) a, of disk])
        fix j assume j: "j < length bufs" "cur (bufs ! j) = a" "view disk bufs a = bdata (bufs ! j)"
        then have "j \<noteq> i" using 3(2) by auto
        then show ?thesis using j view_hit [OF u(2), of j a] a by simp
      next
        assume m: "\<And>j. j < length bufs \<Longrightarrow> cur (bufs ! j) \<noteq> a" "view disk bufs a = disk a"
        have "view disk (bufs[i := b]) a = disk a"
        proof (rule view_miss)
          fix j assume "j < length (bufs[i := b])"
          then show "cur (bufs[i := b] ! j) \<noteq> a" using m(1) [of j] 3(1) by (cases "j = i") auto
        qed
        then show ?thesis using m(2) by simp
      qed
    qed
  qed
qed

text \<open>Writing back.\<close>

definition write_back :: "(u32 \<Rightarrow> u8 list) \<Rightarrow> BUF \<Rightarrow> u32 \<Rightarrow> u8 list" where
  "write_back disk b = (if cur b \<noteq> 0xffffffff \<and> state b AND 2 \<noteq> 0 then disk(cur b := bdata b) else disk)"

definition cleaned :: "BUF \<Rightarrow> BUF" where
  "cleaned b = (if cur b \<noteq> 0xffffffff \<and> state b AND 2 \<noteq> 0 then b\<lparr>state := state b AND 1\<rparr> else b)"

lemma cleaned_simps [simp]: "bdata (cleaned b) = bdata b" "cur (cleaned b) = cur b"
  by (simp_all add: cleaned_def)

lemma cleaned_clean: "cur b \<noteq> 0xffffffff \<Longrightarrow> state (cleaned b) AND 2 = 0"
  by (auto simp: cleaned_def and.assoc)

lemma write_back_cache:
  assumes "cache_ok disk cap bufs" "i < length bufs"
  defines "b \<equiv> bufs ! i"
  shows "cache_ok (write_back disk b) cap (bufs[i := cleaned b])"
    "a \<noteq> 0xffffffff \<Longrightarrow> view (write_back disk b) (bufs[i := cleaned b]) a = view disk bufs a"
proof -
  have u: "unique_cur bufs" using assms(1) by (simp add: cache_ok_def)
  have l: "cur (bufs[i := cleaned b] ! j) = cur (bufs ! j)" "bdata (bufs[i := cleaned b] ! j) = bdata (bufs ! j)" if "j < length bufs" for j
    using that by (cases "j = i"; simp add: b_def)+
  have u': "unique_cur (bufs[i := cleaned b])" using u l by (simp add: unique_cur_def)
  have k: "blk_ok (write_back disk b) cap (bufs[i := cleaned b] ! j)" if "j < length bufs" for j
  proof (cases "j = i")
    case True
    have "blk_ok disk cap b" using assms by (simp add: cache_ok_def)
    then show ?thesis using True that by (auto simp: blk_ok_def write_back_def cleaned_def)
  next
    case False
    have "blk_ok disk cap (bufs ! j)" using assms(1) that by (simp add: cache_ok_def)
    moreover have "cur (bufs ! j) \<noteq> cur b" if "cur b \<noteq> 0xffffffff"
      using u False assms(2) \<open>j < length bufs\<close> that by (auto simp: unique_cur_def b_def)
    ultimately show ?thesis using False that by (auto simp: blk_ok_def write_back_def)
  qed
  then show "cache_ok (write_back disk b) cap (bufs[i := cleaned b])"
    using u' unfolding cache_ok_def by (metis in_set_conv_nth length_list_update)
  show "view (write_back disk b) (bufs[i := cleaned b]) a = view disk bufs a" if a: "a \<noteq> 0xffffffff"
  proof (rule view_cases [OF u a, of disk])
    fix j assume "j < length bufs" "cur (bufs ! j) = a" "view disk bufs a = bdata (bufs ! j)"
    then show ?thesis using view_hit [OF u', of j a] a l by simp
  next
    assume m: "\<And>j. j < length bufs \<Longrightarrow> cur (bufs ! j) \<noteq> a" "view disk bufs a = disk a"
    then have "view (write_back disk b) (bufs[i := cleaned b]) a = write_back disk b a" using l by (intro view_miss) simp
    also have "\<dots> = disk a" using m(1) [OF assms(2)] by (auto simp: write_back_def b_def)
    finally show ?thesis using m(2) by simp
  qed
qed

lemma find_update:
  "n < length bufs \<Longrightarrow> cur b = cur (bufs ! n) \<Longrightarrow> bdata b = bdata (bufs ! n) \<Longrightarrow>
    map_option bdata (find (\<lambda>b. cur b = a) (bufs[n := b])) = map_option bdata (find (\<lambda>b. cur b = a) bufs)"
proof (induction bufs arbitrary: n)
  case (Cons x xs)
  then show ?case by (cases n) auto
qed simp

lemma find_buf_spec:
  assumes "unat i + n \<le> length bufs" "length bufs < 4294967296"
  shows "\<exists>j. find_buf bufs a n i = Inr j \<and> unat j \<le> unat i + n
    \<and> (unat j < unat i + n \<longrightarrow> cur (bufs ! unat j) = a) \<and> (\<forall>k. unat i \<le> k \<and> k < unat j \<longrightarrow> cur (bufs ! k) \<noteq> a)"
  using assms(1)
proof (induction n arbitrary: i)
  case (Suc n)
  show ?case
  proof (cases "cur (bufs ! unat i) = a")
    case True
    then show ?thesis using Suc(2) by auto
  next
    case False
    have u: "unat (i + 1) = Suc (unat i)" using Suc(2) assms(2) by (subst unat_add_no_wrap) simp_all
    obtain j where j: "find_buf bufs a n (i + 1) = Inr j" "unat j \<le> Suc (unat i) + n"
      "unat j < Suc (unat i) + n \<longrightarrow> cur (bufs ! unat j) = a" "\<forall>k. Suc (unat i) \<le> k \<and> k < unat j \<longrightarrow> cur (bufs ! k) \<noteq> a"
      using Suc(1) [of "i + 1"] Suc(2) unfolding u by auto
    have "cur (bufs ! k) \<noteq> a" if "unat i \<le> k" "k < unat j" for k
      using that j(4) False by (cases "k = unat i") auto
    then show ?thesis using j Suc(2) False by auto
  qed
qed auto

text \<open>No block is waiting to be written.\<close>

definition all_clean :: "BUF list \<Rightarrow> bool" where
  "all_clean bufs \<longleftrightarrow> (\<forall>b\<in>set bufs. state b AND 2 = 0)"

lemma all_clean_update: "all_clean bufs \<Longrightarrow> state b AND 2 = 0 \<Longrightarrow> all_clean (bufs[i := b])"
  using set_update_subset_insert [of bufs i b] by (auto simp: all_clean_def)

lemma all_clean_refs: "list_all2 same_but_ref bufs bufs' \<Longrightarrow> all_clean bufs \<Longrightarrow> all_clean bufs'"
  unfolding all_clean_def list_all2_conv_all_nth by (metis in_set_conv_nth same_but_ref_dirty)

text \<open>The cache over a block device.\<close>

locale cached_device = block_device "\<lambda>buf a. blk_read io buf a 1" "\<lambda>buf a. blk_write io buf a 1" sec cap okd
  for io :: "'d block_io" and sec :: "'d \<Rightarrow> u32 \<Rightarrow> u8 list" and cap :: "'d \<Rightarrow> u32" and okd :: "'d \<Rightarrow> bool"
begin

lemma write_512:
  assumes "okd d" "blk_ok dk (cap d) b"
  shows "\<exists>d'. fs_write_512 io b d = Inr (0, cleaned b, d') \<and> okd d' \<and> cap d' = cap d \<and> sec d' = write_back (sec d) b"
proof (cases "cur b \<noteq> 0xffffffff \<and> state b AND 2 \<noteq> 0")
  case True
  then have "cur b < cap d" "length (bdata b) = 512" using assms(2) by (auto simp: blk_ok_def)
  then show ?thesis using write1 [OF assms(1), of "bdata b" "cur b"] True
    by (auto simp: fs_write_512_def fs_write_buf_def cleaned_def write_back_def)
next
  case False
  then show ?thesis using assms(1) by (auto simp: fs_write_512_def fs_write_buf_def cleaned_def write_back_def)
qed

lemma read_512:
  assumes "okd d" "cache_ok (sec d) (cap d) bufs" "head < nbuf" "unat nbuf = length bufs" "sector + base_addr fi < cap d"
  shows "\<exists>i bufs' head' d'. fs_read_512 io fi bufs sector head nbuf d = Inr (i, bufs', head', d')
    \<and> i < nbuf \<and> head' < nbuf \<and> length bufs' = length bufs \<and> okd d' \<and> cap d' = cap d \<and> cache_ok (sec d') (cap d') bufs'
    \<and> cur (bufs' ! unat i) = sector + base_addr fi \<and> bdata (bufs' ! unat i) = view (sec d) bufs (sector + base_addr fi)
    \<and> (\<forall>a. a \<noteq> 0xffffffff \<longrightarrow> view (sec d') bufs' a = view (sec d) bufs a)
    \<and> (all_clean bufs \<longrightarrow> sec d' = sec d \<and> all_clean bufs')"
proof -
  let ?a = "sector + base_addr fi"
  have a: "?a \<noteq> 0xffffffff"
  proof
    assume e: "?a = 0xffffffff"
    have "unat (0xffffffff :: u32) < unat (cap d)" using assms(5) unfolding e by (simp only: word_less_nat_alt)
    then show False using unat_less_2p32 [of "cap d"] by simp
  qed
  have len: "length bufs < 4294967296" using assms(4) unat_less_2p32 [of nbuf] by simp
  obtain j where j: "find_buf bufs ?a (unat nbuf) 0 = Inr j" "unat j \<le> unat nbuf"
    "unat j < unat nbuf \<longrightarrow> cur (bufs ! unat j) = ?a" "\<forall>k. k < unat j \<longrightarrow> cur (bufs ! k) \<noteq> ?a"
    using find_buf_spec [of 0 "unat nbuf" bufs ?a] assms(4) len by auto
  show ?thesis
  proof (cases "j = nbuf")
    case False
    then have jl: "unat j < length bufs" using j(2) assms(4) by (metis le_neq_implies_less word_unat_eq_iff)
    let ?b = "bufs ! unat j" and ?bufs = "bufs[unat j := (bufs ! unat j)\<lparr>state := state (bufs ! unat j) OR 1\<rparr>]"
    have r: "fs_read_512 io fi bufs sector head nbuf d = Inr (j, ?bufs, head, d)"
      using j(1) False jl by (simp add: fs_read_512_def fs_read_buf_def Let_def)
    have "(state ?b OR 1) AND 2 = state ?b AND 2" by (simp add: bit.conj_disj_distrib2)
    then have k: "blk_ok (sec d) (cap d) (?b\<lparr>state := state ?b OR 1\<rparr>)"
      using assms(2) jl by (auto simp: cache_ok_def blk_ok_def)
    have u: "unique_cur bufs" using assms(2) by (simp add: cache_ok_def)
    have c: "cache_ok (sec d) (cap d) ?bufs"
      using u jl by (intro cache_ok_update [OF assms(2) jl k]) (auto simp: unique_cur_def)
    have "view (sec d) ?bufs a = view (sec d) bufs a" for a
    proof -
      have "map_option bdata (find (\<lambda>b. cur b = a) ?bufs) = map_option bdata (find (\<lambda>b. cur b = a) bufs)"
        using jl by (intro find_update) simp_all
      then show ?thesis unfolding view_def by (auto split: option.splits)
    qed
    moreover have "view (sec d) bufs ?a = bdata ?b" using view_hit [OF u jl _ a] j(3) jl assms(4) by simp
    moreover have "all_clean bufs \<Longrightarrow> all_clean ?bufs"
      using \<open>(state ?b OR 1) AND 2 = state ?b AND 2\<close> jl by (intro all_clean_update) (simp_all add: all_clean_def)
    ultimately show ?thesis using r c jl assms j(3) False by (auto simp: word_less_nat_alt)
  next
    case True
    then have miss: "\<forall>k<length bufs. cur (bufs ! k) \<noteq> ?a" using j(4) assms(4) by simp
    obtain i bufs1 head' where v: "fs_victim_4k bufs head nbuf = Inr (i, bufs1, head')" "i < nbuf" "head' < nbuf"
      "list_all2 same_but_ref bufs bufs1"
      using fs_victim_spec [OF assms(3,4)] by blast
    have l1: "length bufs1 = length bufs" using v(4) by (simp add: list_all2_lengthD)
    have il: "unat i < length bufs1" using v(2) assms(4) l1 by (simp add: word_less_nat_alt)
    note c1 = same_refs_cache(1) [OF v(4) assms(2)] and w1 = same_refs_cache(2) [OF v(4), of "sec d"]
    have miss1: "\<forall>k<length bufs1. cur (bufs1 ! k) \<noteq> ?a"
      using miss v(4) l1 by (auto simp: list_all2_conv_all_nth same_but_ref_def)
    let ?b = "bufs1 ! unat i" and ?bufs2 = "bufs1[unat i := cleaned (bufs1 ! unat i)]"
    have "blk_ok (sec d) (cap d) ?b" using c1 il by (simp add: cache_ok_def)
    then obtain d1 where d1: "fs_write_512 io ?b d = Inr (0, cleaned ?b, d1)" "okd d1" "cap d1 = cap d" "sec d1 = write_back (sec d) ?b"
      using write_512 [OF assms(1)] by blast
    note c2 = write_back_cache(1) [OF c1 il] and w2 = write_back_cache(2) [OF c1 il]
    have "length (bdata ?b) = 512" using \<open>blk_ok (sec d) (cap d) ?b\<close> by (simp add: blk_ok_def)
    then obtain bytes d2 where d2: "blk_read io (bdata ?b) ?a 1 d1 = Inr (0, bytes, d2)" "okd d2" "length bytes = 512"
      "sec d2 = sec d1" "cap d2 = cap d1" "bytes = sec d1 ?a"
      using read1 [OF d1(2), of "bdata ?b" ?a] assms(5) d1(3) by auto
    let ?n = "\<lparr>bdata = bytes, cur = ?a, state = 1\<rparr>"
    have r: "fs_read_512 io fi bufs sector head nbuf d = Inr (i, ?bufs2[unat i := ?n], head', d2)"
      using j(1) True v(1) il d1(1) d2(1) by (simp add: fs_read_512_def fs_read_buf_def fs_write_512_def Let_def)
    have cl: "state (?bufs2 ! unat i) AND 2 = 0 \<or> cur (?bufs2 ! unat i) = 0xffffffff"
      using cleaned_clean il by auto
    have ms: "\<forall>k<length ?bufs2. cur (?bufs2 ! k) \<noteq> cur ?n"
      using miss1 il by (auto simp: nth_list_update)
    have fits: "cur ?n \<noteq> 0xffffffff" "cur ?n < cap d" "bdata ?n = write_back (sec d) ?b (cur ?n)" "length (bdata ?n) = 512"
      using a assms(5) d2(3,6) d1(4) by simp_all
    have il2: "unat i < length ?bufs2" using il by simp
    note rep = view_replace [OF c2 il2 cl ms fits]
    have "bytes = view (sec d) bufs ?a"
    proof -
      have "view (write_back (sec d) ?b) ?bufs2 ?a = write_back (sec d) ?b ?a" using ms by (intro view_miss) simp
      then show ?thesis using w2 [OF a] w1 d2(6) d1(4) by simp
    qed
    moreover have "sec d2 = sec d \<and> all_clean (?bufs2[unat i := ?n])" if "all_clean bufs"
    proof -
      have c1: "all_clean bufs1" using all_clean_refs [OF v(4) that] .
      then have b: "state ?b AND 2 = 0" using il by (simp add: all_clean_def)
      then have "sec d2 = sec d" "cleaned ?b = ?b" using d2(4) d1(4) by (simp_all add: write_back_def cleaned_def)
      moreover have "all_clean (bufs1[unat i := ?n])" using c1 by (intro all_clean_update) simp_all
      ultimately show ?thesis by simp
    qed
    ultimately show ?thesis using r v(2,3) l1 il d2 d1 rep w1 w2 by simp
  qed
qed

end

interpretation card_cache: cached_device "sd_io card_hw" card_disk "\<lambda>s. capacity (dev s)" card_ok
  using card.block_device_axioms by unfold_locales (simp_all add: sd_io_def block_device_def)

section \<open>Properties\<close>

text \<open>
  C36. The clock stops after at most two rounds with a block of the table, changes nothing but
  reference bits, leaves the hand inside the table, and takes a block that need not be written
  back whenever there is one.
\<close>

theorem fs_victim_prefers_clean:
  assumes "clock_head < nbuf" "unat nbuf = length bufs"
  shows "\<exists>i bufs' head'. fs_victim_4k bufs clock_head nbuf = Inr (i, bufs', head') \<and> i < nbuf \<and> head' < nbuf
    \<and> list_all2 same_but_ref bufs bufs' \<and> ((\<exists>b\<in>set bufs. state b AND 2 = 0) \<longrightarrow> state (bufs ! unat i) AND 2 = 0)"
  using assms by (rule fs_victim_spec)

definition demo_bufs :: "BUF list" where
  "demo_bufs = [\<lparr>bdata = replicate 512 1, cur = 7, state = 3\<rparr>, \<lparr>bdata = replicate 512 0, cur = 8, state = 1\<rparr>]"

theorem fs_victim_prefers_clean_witness:
  "\<exists>i bufs' head'. fs_victim_4k demo_bufs 0 2 = Inr (i, bufs', head') \<and> i = 1"
proof -
  have "(0 :: u32) < 2" "unat (2 :: u32) = length demo_bufs" by (simp_all add: demo_bufs_def)
  from fs_victim_prefers_clean [OF this] obtain i bufs' head' where
    v: "fs_victim_4k demo_bufs 0 2 = Inr (i, bufs', head')" "i < 2" "state (demo_bufs ! unat i) AND 2 = 0"
    by (auto simp: demo_bufs_def)
  have "i \<noteq> 0" using v(3) by (auto simp: demo_bufs_def)
  moreover have "unat i < 2" using v(2) by (simp add: word_less_nat_alt)
  ultimately have "unat i = unat (1 :: u32)" using unat_gt_0 [of i] by simp
  then show ?thesis using v(1) by (simp only: word_unat_eq_iff) blast
qed

text \<open>
  C6. The sector cache refines the disk: \<^verbatim>\<open>fs_read_512\<close> returns a block that holds what the
  kernel last saw in that sector, whichever block had to make room and whether or not it had
  to be written back, and for every sector the contents seen through the cache stay the same.
\<close>

theorem fs_read_512_coherent:
  assumes "card_ok d" "cache_ok (card_disk d) (capacity (dev d)) bufs" "clock_head < nbuf" "unat nbuf = length bufs"
    "sector + base_addr fi < capacity (dev d)"
  shows "\<exists>i bufs' head' d'. fs_read_512 (sd_io card_hw) fi bufs sector clock_head nbuf d = Inr (i, bufs', head', d')
    \<and> i < nbuf \<and> head' < nbuf \<and> length bufs' = length bufs \<and> card_ok d' \<and> capacity (dev d') = capacity (dev d)
    \<and> cache_ok (card_disk d') (capacity (dev d')) bufs'
    \<and> cur (bufs' ! unat i) = sector + base_addr fi \<and> bdata (bufs' ! unat i) = view (card_disk d) bufs (sector + base_addr fi)
    \<and> (\<forall>a. a \<noteq> 0xffffffff \<longrightarrow> view (card_disk d') bufs' a = view (card_disk d) bufs a)"
  using card_cache.read_512 [OF assms] by blast

lemma demo_bufs_ok: "cache_ok (card_disk demo_card) 1000 demo_bufs"
proof -
  have "card_disk demo_card 8 = replicate 512 0"
    by (simp add: card_disk_def demo_card_def sector_bytes_def u32_bytes_def map_replicate_const eval_nat_numeral)
  then have "\<forall>b\<in>set demo_bufs. blk_ok (card_disk demo_card) 1000 b" by (simp add: demo_bufs_def blk_ok_def)
  moreover have "unique_cur demo_bufs" by (auto simp: unique_cur_def demo_bufs_def nth_Cons split: nat.splits)
  ultimately show ?thesis by (simp add: cache_ok_def)
qed

theorem fs_read_512_coherent_witness:
  "\<exists>i bufs' head' d'. fs_read_512 (sd_io card_hw) (demo_fs\<lparr>base_addr := 0\<rparr>) demo_bufs 9 0 2 demo_card = Inr (i, bufs', head', d')
     \<and> view (card_disk d') bufs' 7 = replicate 512 1"
proof -
  have "cache_ok (card_disk demo_card) (capacity (dev demo_card)) demo_bufs" using demo_bufs_ok by (simp add: demo_card_def)
  moreover have "(0 :: u32) < 2" "unat (2 :: u32) = length demo_bufs" by (simp_all add: demo_bufs_def)
  moreover have "9 + base_addr (demo_fs\<lparr>base_addr := 0\<rparr>) < capacity (dev demo_card)" by (simp add: demo_card_def)
  ultimately obtain i bufs' head' d' where
    r: "fs_read_512 (sd_io card_hw) (demo_fs\<lparr>base_addr := 0\<rparr>) demo_bufs 9 0 2 demo_card = Inr (i, bufs', head', d')"
      "\<forall>a. a \<noteq> 0xffffffff \<longrightarrow> view (card_disk d') bufs' a = view (card_disk demo_card) demo_bufs a"
    using fs_read_512_coherent [OF demo_card_ok] by blast
  have "view (card_disk demo_card) demo_bufs 7 = replicate 512 1" by (simp add: view_def demo_bufs_def)
  then show ?thesis using r by auto
qed

end
