(* ===== verification/KString.thy ===== *)
theory KString
  imports KMem
begin

text \<open>
  The string routines of \<^verbatim>\<open>utils/utils.c\<close> over the byte memory of \<open>KMem\<close>. Their loops run
  to a terminator and have no bound of their own, so they are partial functions: \<open>None\<close> is a
  loop that never ends. Pointers wrap as addresses do, \<^verbatim>\<open>NULL\<close> is 0, and \<^verbatim>\<open>char\<close> is signed on this target.
\<close>

section \<open>The routines\<close>

text \<open>\<^verbatim>\<open>kernel_strlen\<close> compares with the digit \<^verbatim>\<open>'0'\<close>, byte 48.\<close>

partial_function (option) strlen_loop :: "memory \<Rightarrow> u32 \<Rightarrow> u32 \<Rightarrow> u32 option" where
  "strlen_loop mem str index = (if mem (str + index) \<noteq> 48 then strlen_loop mem str (index + 1) else Some index)"

definition kernel_strlen :: "memory \<Rightarrow> u32 \<Rightarrow> u32 option" where
  "kernel_strlen mem str = strlen_loop mem str 0"

text \<open>\<^verbatim>\<open>while (*p) p++;\<close>\<close>

partial_function (option) to_end :: "memory \<Rightarrow> u32 \<Rightarrow> u32 option" where
  "to_end mem p = (if mem p \<noteq> 0 then to_end mem (p + 1) else Some p)"

text \<open>\<^verbatim>\<open>while (*dest++ = *src++);\<close> gives the memory and both pointers after the loop.\<close>

partial_function (option) copy_loop :: "memory \<Rightarrow> u32 \<Rightarrow> u32 \<Rightarrow> (memory \<times> u32 \<times> u32) option" where
  "copy_loop mem dest src =
     (let c = mem src; mem' = mem(dest := c) in
      if c \<noteq> 0 then copy_loop mem' (dest + 1) (src + 1) else Some (mem', dest + 1, src + 1))"

definition kernel_strcat :: "memory \<Rightarrow> u32 \<Rightarrow> u32 \<Rightarrow> (u32 \<times> memory) option" where
  "kernel_strcat mem dest src = (case to_end mem dest of None \<Rightarrow> None
     | Some e \<Rightarrow> map_option (\<lambda>(mem, _). (dest, mem)) (copy_loop mem e src))"

definition kernel_strcpy :: "memory \<Rightarrow> u32 \<Rightarrow> u32 \<Rightarrow> (u32 \<times> memory) option" where
  "kernel_strcpy mem dest src = map_option (\<lambda>(mem, d, _). (d, mem)) (copy_loop mem dest src)"

text \<open>\<^verbatim>\<open>while (n && (*cp++ = *src++) != '\0') n--;\<close> gives the memory, \<^verbatim>\<open>cp\<close> and \<^verbatim>\<open>n\<close>.\<close>

function ncopy_loop :: "memory \<Rightarrow> u32 \<Rightarrow> u32 \<Rightarrow> u32 \<Rightarrow> memory \<times> u32 \<times> u32" where
  "ncopy_loop mem cp src n =
     (if n = 0 then (mem, cp, n)
      else let c = mem src; mem' = mem(cp := c) in
        if c \<noteq> 0 then ncopy_loop mem' (cp + 1) (src + 1) (n - 1) else (mem', cp + 1, n))"
  by pat_completeness auto
termination
  by (relation "measure (\<lambda>(mem, cp, src, n). unat n)") (auto simp: unat_pred_pos unat_gt_0)

text \<open>\<^verbatim>\<open>while (--n) *cp++ = '\0';\<close> for \<^verbatim>\<open>n\<close> not zero.\<close>

function pad_loop :: "memory \<Rightarrow> u32 \<Rightarrow> u32 \<Rightarrow> memory" where
  "pad_loop mem cp n = (if n - 1 = 0 \<or> n = 0 then mem else pad_loop (mem(cp := 0)) (cp + 1) (n - 1))"
  by pat_completeness auto
termination
  by (relation "measure (\<lambda>(mem, cp, n). unat n)") (auto simp: unat_pred_pos unat_gt_0)

declare ncopy_loop.simps [simp del] pad_loop.simps [simp del]

definition kernel_strncat :: "memory \<Rightarrow> u32 \<Rightarrow> u32 \<Rightarrow> u32 \<Rightarrow> (u32 \<times> memory) option" where
  "kernel_strncat mem dest src n = map_option (\<lambda>cp. (dest, fst (ncopy_loop mem cp src n))) (to_end mem dest)"

definition kernel_strncpy :: "memory \<Rightarrow> u32 \<Rightarrow> u32 \<Rightarrow> u32 \<Rightarrow> u32 \<times> memory" where
  "kernel_strncpy mem dest src n =
     (let (mem, cp, n) = ncopy_loop mem dest src n in (dest, if n \<noteq> 0 then pad_loop mem cp n else mem))"

partial_function (option) strchr_loop :: "memory \<Rightarrow> u32 \<Rightarrow> u8 \<Rightarrow> u32 option" where
  "strchr_loop mem s c = (if mem s \<noteq> 0 then if mem s = c then Some s else strchr_loop mem (s + 1) c else Some 0)"

definition kernel_strchr :: "memory \<Rightarrow> u32 \<Rightarrow> u32 \<Rightarrow> u32 option" where
  "kernel_strchr mem s c = (if s = 0 then Some 0 else strchr_loop mem s (ucast c))"

partial_function (option) strrchr_loop :: "memory \<Rightarrow> u32 \<Rightarrow> u8 \<Rightarrow> u32 \<Rightarrow> u32 option" where
  "strrchr_loop mem s c p_char =
     (if mem s \<noteq> 0 then strrchr_loop mem (s + 1) c (if mem s = c then s else p_char) else Some p_char)"

definition kernel_strrchr :: "memory \<Rightarrow> u32 \<Rightarrow> u32 \<Rightarrow> u32 option" where
  "kernel_strrchr mem s c = (if s = 0 then Some 0 else strrchr_loop mem s (ucast c) 0)"

text \<open>The inner loop of \<^verbatim>\<open>kernel_strstr\<close> gives where \<^verbatim>\<open>s2\<close> stops.\<close>

partial_function (option) match_loop :: "memory \<Rightarrow> u32 \<Rightarrow> u32 \<Rightarrow> u32 option" where
  "match_loop mem s1 s2 =
     (if mem s1 \<noteq> 0 \<and> mem s2 \<noteq> 0 \<and> mem s1 = mem s2 then match_loop mem (s1 + 1) (s2 + 1) else Some s2)"

partial_function (option) strstr_loop :: "memory \<Rightarrow> u32 \<Rightarrow> u32 \<Rightarrow> u32 option" where
  "strstr_loop mem cp str2 =
     (if mem cp \<noteq> 0
      then Option.bind (match_loop mem cp str2) (\<lambda>s2. if mem s2 = 0 then Some cp else strstr_loop mem (cp + 1) str2)
      else Some 0)"

definition kernel_strstr :: "memory \<Rightarrow> u32 \<Rightarrow> u32 \<Rightarrow> u32 option" where
  "kernel_strstr mem str1 str2 = (if mem str2 = 0 then Some str1 else strstr_loop mem str1 str2)"

text \<open>The search for a character in a set: where the inner pointer stops.\<close>

partial_function (option) in_set :: "memory \<Rightarrow> u8 \<Rightarrow> u32 \<Rightarrow> u32 option" where
  "in_set mem c a = (if mem a \<noteq> 0 then if c = mem a then Some a else in_set mem c (a + 1) else Some a)"

partial_function (option) strspn_loop :: "memory \<Rightarrow> u32 \<Rightarrow> u32 \<Rightarrow> u32 \<Rightarrow> u32 option" where
  "strspn_loop mem p str2 count =
     (if mem p \<noteq> 0
      then Option.bind (in_set mem (mem p) str2) (\<lambda>a. if mem a = 0 then Some count else strspn_loop mem (p + 1) str2 (count + 1))
      else Some count)"

definition kernel_strspn :: "memory \<Rightarrow> u32 \<Rightarrow> u32 \<Rightarrow> u32 option" where
  "kernel_strspn mem str1 str2 = strspn_loop mem str1 str2 0"

partial_function (option) kernel_strpbrk :: "memory \<Rightarrow> u32 \<Rightarrow> u32 \<Rightarrow> u32 option" where
  "kernel_strpbrk mem sc1 str2 =
     (if mem sc1 \<noteq> 0
      then Option.bind (in_set mem (mem sc1) str2) (\<lambda>a. if mem a \<noteq> 0 then Some sc1 else kernel_strpbrk mem (sc1 + 1) str2)
      else Some 0)"

text \<open>
  \<^verbatim>\<open>kernel_strdup\<close> allocates with \<^verbatim>\<open>kmalloc\<close>, here a function on the state \<open>k\<close> of the allocator.
\<close>

definition kernel_strdup :: "(u32 \<Rightarrow> 'k \<Rightarrow> (u32 \<times> 'k) res) \<Rightarrow> memory \<Rightarrow> u32 \<Rightarrow> 'k \<Rightarrow> (u32 \<times> memory \<times> 'k) res" where
  "kernel_strdup malloc mem src k =
     (if src = 0 then Inr (0, mem, k)
      else rbind (ends (to_end mem src)) (\<lambda>e. let len = e - src in
        rbind (malloc (len + 1) k) (\<lambda>(address, k).
          rbind (ends (copy_loop mem address src)) (\<lambda>(mem, a, _). Inr (a - (len + 1), mem, k)))))"

partial_function (option) kernel_strcmp :: "memory \<Rightarrow> u32 \<Rightarrow> u32 \<Rightarrow> int option" where
  "kernel_strcmp mem dest src =
     (if mem dest = mem src \<and> mem dest \<noteq> 0 then kernel_strcmp mem (dest + 1) (src + 1)
      else Some (sint (mem dest) - sint (mem src)))"

function pow_loop :: "u32 \<Rightarrow> u32 \<Rightarrow> u32 \<Rightarrow> u32" where
  "pow_loop x z ret = (if z = 0 then ret else pow_loop x (z - 1) (ret * x))"
  by pat_completeness auto
termination
  by (relation "measure (\<lambda>(x, z, ret). unat z)") (auto simp: unat_pred_pos unat_gt_0)

declare pow_loop.simps [simp del]

definition pow_int :: "u32 \<Rightarrow> u32 \<Rightarrow> u32" where
  "pow_int x z = (if sint z < 0 then -1 else pow_loop x z 1)"

definition is_bound :: "u32 \<Rightarrow> u32 \<Rightarrow> u32" where
  "is_bound val bound = (if val AND (bound - 1) = 0 then 1 else 0)"

section \<open>Strings in memory\<close>

text \<open>\<open>cstr m a xs\<close>: the bytes \<open>xs\<close>, none of them zero, stand at \<open>a\<close> and a zero follows.\<close>

fun cstr :: "memory \<Rightarrow> u32 \<Rightarrow> u8 list \<Rightarrow> bool" where
  "cstr m a [] \<longleftrightarrow> m a = 0"
| "cstr m a (x # xs) \<longleftrightarrow> m a = x \<and> x \<noteq> 0 \<and> cstr m (a + 1) xs"

lemma cstr_frame: "cstr m a xs \<Longrightarrow> (\<And>i. i \<le> length xs \<Longrightarrow> m' (a + of_nat i) = m (a + of_nat i)) \<Longrightarrow> cstr m' a xs"
proof (induction xs arbitrary: a)
  case (Cons x xs)
  have "cstr m' (a + 1) xs"
  proof (rule Cons(1))
    show "cstr m (a + 1) xs" using Cons(2) by simp
    fix i assume "i \<le> length xs"
    then show "m' (a + 1 + of_nat i) = m (a + 1 + of_nat i)"
      using Cons(3) [of "Suc i"] by (simp add: ac_simps)
  qed
  then show ?case using Cons(2) Cons(3) [of 0] by simp
qed simp

lemma to_end_cstr: "cstr m a xs \<Longrightarrow> to_end m a = Some (a + of_nat (length xs))"
proof (induction xs arbitrary: a)
  case Nil
  then show ?case by (subst to_end.simps) simp
next
  case (Cons x xs)
  then show ?case by (subst to_end.simps) (simp add: ac_simps)
qed

lemma kernel_strcmp_cstr:
  "cstr m a xs \<Longrightarrow> cstr m b ys \<Longrightarrow> \<exists>r. kernel_strcmp m a b = Some r \<and> (r = 0 \<longleftrightarrow> xs = ys)"
proof (induction xs arbitrary: a b ys)
  case Nil
  then show ?case by (cases ys) (auto simp: kernel_strcmp.simps [of m a b] signed_eq_0_iff)
next
  case (Cons x xs)
  show ?case
  proof (cases ys)
    case Nil
    then show ?thesis using Cons(2,3) by (auto simp: kernel_strcmp.simps [of m a b] signed_eq_0_iff)
  next
    case (Cons y ys')
    note ys = this
    show ?thesis
    proof (cases "x = y")
      case True
      have "\<exists>r. kernel_strcmp m (a + 1) (b + 1) = Some r \<and> (r = 0 \<longleftrightarrow> xs = ys')"
        using Cons.prems ys by (intro Cons.IH) auto
      then show ?thesis using Cons.prems ys True by (simp add: kernel_strcmp.simps [of m a b])
    next
      case False
      then have "sint x \<noteq> sint y" by (metis word_eq_iff_signed)
      then show ?thesis using Cons.prems ys False by (simp add: kernel_strcmp.simps [of m a b])
    qed
  qed
qed

text \<open>Copying to a place that does not overlap the source from above.\<close>

lemma copy_loop_cstr:
  assumes "cstr m s xs" "\<And>i j. i \<le> length xs \<Longrightarrow> j \<le> length xs \<Longrightarrow> d + of_nat i \<noteq> s + of_nat j"
  shows "\<exists>m'. copy_loop m d s = Some (m', d + of_nat (length xs) + 1, s + of_nat (length xs) + 1)
    \<and> (\<forall>i\<le>length xs. length xs < 2 ^ 32 \<longrightarrow> m' (d + of_nat i) = m (s + of_nat i)) \<and> (\<forall>a. (\<forall>i\<le>length xs. a \<noteq> d + of_nat i) \<longrightarrow> m' a = m a)"
  using assms
proof (induction xs arbitrary: m d s)
  case Nil
  then show ?case by (subst copy_loop.simps) auto
next
  case (Cons x xs)
  let ?m = "m(d := m s)"
  have x: "m s = x" "x \<noteq> 0" "cstr m (s + 1) xs" using Cons(2) by simp_all
  have ne: "d + 1 + of_nat i \<noteq> s + 1 + of_nat j" if "i \<le> length xs" "j \<le> length xs" for i j
    using Cons(3) [of "Suc i" "Suc j"] that by (simp add: ac_simps)
  have ds: "d \<noteq> s + 1 + of_nat j" if "j \<le> length xs" for j using Cons(3) [of 0 "Suc j"] that by (simp add: ac_simps)
  have c: "cstr ?m (s + 1) xs" by (rule cstr_frame [OF x(3)]) (use ds in auto)
  obtain m' where m': "copy_loop ?m (d + 1) (s + 1) = Some (m', d + 1 + of_nat (length xs) + 1, s + 1 + of_nat (length xs) + 1)"
    "\<forall>i\<le>length xs. length xs < 2 ^ 32 \<longrightarrow> m' (d + 1 + of_nat i) = ?m (s + 1 + of_nat i)"
    "\<forall>a. (\<forall>i\<le>length xs. a \<noteq> d + 1 + of_nat i) \<longrightarrow> m' a = ?m a"
    using Cons(1) [OF c ne] by blast
  have "copy_loop m d s = Some (m', d + of_nat (length (x # xs)) + 1, s + of_nat (length (x # xs)) + 1)"
    using m'(1) x by (subst copy_loop.simps) (simp add: ac_simps Let_def)
  moreover have "m' (d + of_nat i) = m (s + of_nat i)" if i: "i \<le> length (x # xs)" "length (x # xs) < 2 ^ 32" for i
  proof (cases i)
    case 0
    have "d \<noteq> d + 1 + of_nat j" if "j \<le> length xs" for j
    proof
      assume "d = d + 1 + of_nat j"
      then have "of_nat (Suc j) = (0 :: u32)" by simp
      then have "(2 :: nat) ^ LENGTH(32) dvd Suc j" by (simp only: word_of_nat_eq_0_iff)
      then have "(2 :: nat) ^ 32 dvd Suc j" by simp
      then have "2 ^ 32 \<le> Suc j" by (rule dvd_imp_le) simp
      then show False using that i(2) by simp
    qed
    then have "m' d = ?m d" using m'(3) by blast
    then show ?thesis using 0 by simp
  next
    case (Suc j)
    then have "m' (d + 1 + of_nat j) = ?m (s + 1 + of_nat j)" using m'(2) i by simp
    then show ?thesis using Suc ds [of j] i by (simp add: ac_simps)
  qed
  moreover have "m' a = m a" if out: "\<forall>i\<le>length (x # xs). a \<noteq> d + of_nat i" for a
  proof -
    have "a \<noteq> d + 1 + of_nat i" if "i \<le> length xs" for i
    proof -
      have "a \<noteq> d + of_nat (Suc i)" using out that by (metis Suc_le_mono length_Cons)
      then show ?thesis by (simp add: ac_simps)
    qed
    moreover have "a \<noteq> d" using out [rule_format, of 0] by simp
    ultimately show ?thesis using m'(3) by simp
  qed
  ultimately show ?case by (intro exI [of _ m'] conjI allI impI) simp_all
qed

text \<open>
  \<^verbatim>\<open>kernel_strcpy\<close> copies a string byte for byte, terminator included, to any place that the
  string does not overlap, changes nothing else, and returns the address after the copied
  terminator: the copy is a string equal to the source, and \<^verbatim>\<open>kernel_strcmp\<close> says so.
\<close>

lemma kernel_strcpy_copies:
  assumes "cstr m s xs" "length xs < 2 ^ 32"
    and "\<And>i j. i \<le> length xs \<Longrightarrow> j \<le> length xs \<Longrightarrow> d + of_nat i \<noteq> s + of_nat j"
  shows "\<exists>m'. kernel_strcpy m d s = Some (d + of_nat (length xs) + 1, m') \<and> cstr m' d xs \<and> kernel_strcmp m' d s = Some 0
    \<and> (\<forall>a. (\<forall>i\<le>length xs. a \<noteq> d + of_nat i) \<longrightarrow> m' a = m a)"
proof -
  obtain m' where m': "copy_loop m d s = Some (m', d + of_nat (length xs) + 1, s + of_nat (length xs) + 1)"
    "\<forall>i\<le>length xs. m' (d + of_nat i) = m (s + of_nat i)" "\<forall>a. (\<forall>i\<le>length xs. a \<noteq> d + of_nat i) \<longrightarrow> m' a = m a"
    using copy_loop_cstr [OF assms(1,3)] assms(2) by blast
  have "m' (s + of_nat i) = m (s + of_nat i)" if "i \<le> length xs" for i
    using m'(3) assms(3) [OF _ that] by (metis)
  then have s: "cstr m' s xs" by (intro cstr_frame [OF assms(1)])
  have d: "cstr m' d xs"
  proof -
    have "cstr (\<lambda>a. m' (a + (d - s))) s xs"
      using m'(2) by (intro cstr_frame [OF assms(1)]) (simp add: algebra_simps)
    moreover have "cstr (\<lambda>a. m' (a + (d - s))) b ys \<longleftrightarrow> cstr m' (b + (d - s)) ys" for b ys
      by (induction ys arbitrary: b) (auto simp: algebra_simps)
    ultimately show ?thesis by simp
  qed
  have "kernel_strcmp m' d s = Some 0" using kernel_strcmp_cstr [OF d s] by blast
  then show ?thesis using m'(1,3) d by (auto simp: kernel_strcpy_def)
qed

definition demo_mem :: memory where
  "demo_mem = (\<lambda>_. 0)(10 := 105, 11 := 110, 12 := 105, 13 := 116)"

lemma demo_string: "cstr demo_mem 10 [105, 110, 105, 116]"
  by (simp add: demo_mem_def)

lemma kernel_strcpy_copies_witness:
  "\<exists>m'. kernel_strcpy demo_mem 100 10 = Some (105, m') \<and> cstr m' 100 [105, 110, 105, 116]"
proof -
  have ne: "100 + of_nat i \<noteq> (10 :: u32) + of_nat j" if "i \<le> length [105, 110, 105, 116 :: u8]" "j \<le> length [105, 110, 105, 116 :: u8]" for i j
  proof -
    have i: "i = 0 \<or> i = 1 \<or> i = 2 \<or> i = 3 \<or> i = 4" and j: "j = 0 \<or> j = 1 \<or> j = 2 \<or> j = 3 \<or> j = 4" using that by auto
    then show ?thesis by auto
  qed
  have "length [105, 110, 105, 116 :: u8] < 2 ^ 32" by simp
  from kernel_strcpy_copies [OF demo_string this ne] show ?thesis by auto
qed

lemma kernel_strcmp_different: "\<exists>r. kernel_strcmp demo_mem 10 12 = Some r \<and> r \<noteq> 0"
proof -
  have "cstr demo_mem 12 [105, 116]" by (simp add: demo_mem_def)
  from kernel_strcmp_cstr [OF demo_string this] show ?thesis by auto
qed

text \<open>The length of a string without the digit 0 is not what \<^verbatim>\<open>kernel_strlen\<close> returns.\<close>

lemma strlen_loop_skips:
  "cstr m (str + index) xs \<Longrightarrow> 48 \<notin> set xs \<Longrightarrow> strlen_loop m str index = strlen_loop m str (index + of_nat (length xs) + 1)"
proof (induction xs arbitrary: index)
  case Nil
  then show ?case by (subst strlen_loop.simps) simp
next
  case (Cons x xs)
  have "strlen_loop m str index = strlen_loop m str (index + 1)"
    using Cons(2,3) by (subst strlen_loop.simps) auto
  also have "\<dots> = strlen_loop m str (index + 1 + of_nat (length xs) + 1)"
    using Cons(2,3) by (intro Cons(1)) (simp_all add: ac_simps)
  finally show ?case by (simp add: ac_simps)
qed

text \<open>
  \<^verbatim>\<open>kernel_strlen\<close> does not stop at the end of a string: it compares with the digit
  \<^verbatim>\<open>'0'\<close>, so on a string without that digit it goes on behind the terminator, and its result
  depends on the bytes that follow the string.
\<close>

lemma kernel_strlen_runs_past:
  assumes "cstr m a xs" "48 \<notin> set xs"
  shows "kernel_strlen m a = strlen_loop m a (of_nat (length xs) + 1)"
  using strlen_loop_skips [of m a 0 xs] assms by (simp add: kernel_strlen_def)

lemma kernel_strlen_runs_past_witness:
  "kernel_strlen demo_mem 10 = strlen_loop demo_mem 10 5"
  using kernel_strlen_runs_past [OF demo_string] by simp

section \<open>Numbers\<close>

lemma pow_loop_power: "pow_loop x z ret = ret * x ^ unat z"
proof (induction x z ret rule: pow_loop.induct)
  case (1 x z ret)
  show ?case
  proof (cases "z = 0")
    case False
    then have "unat z = Suc (unat (z - 1))" using unat_gt_0 [of z] by (simp add: unat_pred_pos)
    then show ?thesis using 1 [OF False] False by (subst pow_loop.simps) (simp add: ac_simps)
  qed (simp add: pow_loop.simps)
qed

lemma pow_int_power: "pow_int x z = (if sint z < 0 then -1 else x ^ unat z)"
  by (simp add: pow_int_def pow_loop_power)

lemma is_bound_dvd: "k < 32 \<Longrightarrow> is_bound val (2 ^ k) = 1 \<longleftrightarrow> 2 ^ k dvd unat val"
proof -
  assume "k < 32"
  have "val AND (2 ^ k - 1) = take_bit k val" by (simp add: take_bit_eq_mask mask_eq_exp_minus_1)
  moreover have "take_bit k val = 0 \<longleftrightarrow> take_bit k (unat val) = 0"
    by (metis unsigned_take_bit_eq unat_eq_zero)
  ultimately show ?thesis by (auto simp: is_bound_def take_bit_eq_mod dvd_eq_mod_eq_0)
qed

end
