(* ===== verification/Pid.thy ===== *)
theory Pid
  imports Prelude
begin

text \<open>
  Process identifiers, \<^verbatim>\<open>kernel/pc/pid.c\<close>: one page of bits, one bit for each of the 32768
  identifiers, read and written as 1024 words of 32 bits. \<^verbatim>\<open>int\<close> values are integers; the
  ones that occur here stay far from the bounds of 32 bits, and \<open>AND\<close> on integers is the
  two's complement operation of C.
\<close>

definition PID_MAX_DEFAULT :: u32 where "PID_MAX_DEFAULT = 0x8000"
definition BITS_PER_PAGE :: int where "BITS_PER_PAGE = 0x8000"
definition BITS_PER_PAGE_MASK :: int where "BITS_PER_PAGE_MASK = BITS_PER_PAGE - 1"

record pidmap =
  nr_free :: u32
  pid_page :: "u32 list"

text \<open>The state of the file: the map and \<^verbatim>\<open>last_pid\<close>.\<close>

record pids =
  pid_map :: pidmap
  last_pid :: int

definition init_pid :: "pids \<Rightarrow> pids" where
  "init_pid s = s\<lparr>last_pid := -1, pid_map := \<lparr>nr_free = PID_MAX_DEFAULT, pid_page = replicate 1024 0\<rparr>\<rparr>"

text \<open>\<^verbatim>\<open>p = (unsigned long * )addr + (offset >> 5)\<close> and \<^verbatim>\<open>mask = 1UL << (offset & 31)\<close>.\<close>

definition word_at :: "int \<Rightarrow> u32" where
  "word_at offset = of_int (drop_bit 5 offset)"

definition bit_mask :: "int \<Rightarrow> u32" where
  "bit_mask offset = push_bit (nat (offset AND 31)) 1"

definition test_and_set_bit :: "int \<Rightarrow> u32 list \<Rightarrow> (int \<times> u32 list) res" where
  "test_and_set_bit offset addr = rbind (rd addr (word_at offset)) (\<lambda>old.
     rbind (wr addr (word_at offset) (old OR bit_mask offset)) (\<lambda>addr.
       Inr (if old AND bit_mask offset \<noteq> 0 then 1 else 0, addr)))"

definition clear_bit :: "int \<Rightarrow> u32 list \<Rightarrow> u32 list res" where
  "clear_bit offset addr = rbind (rd addr (word_at offset)) (\<lambda>old.
     wr addr (word_at offset) (old AND NOT (bit_mask offset)))"

function find_next_zero_bit :: "u32 list \<Rightarrow> int \<Rightarrow> int \<Rightarrow> int res" where
  "find_next_zero_bit addr sz offset =
     (if offset < sz
      then rbind (rd addr (word_at offset)) (\<lambda>p.
        if NOT p AND bit_mask offset \<noteq> 0 then Inr offset else find_next_zero_bit addr sz (offset + 1))
      else Inr offset)"
  by pat_completeness auto
termination by (relation "measure (\<lambda>(addr, sz, offset). nat (sz - offset))") auto

declare find_next_zero_bit.simps [simp del]

definition alloc_pidmap :: "pids \<Rightarrow> (int \<times> pids) res" where
  "alloc_pidmap s =
     (let pid = last_pid s + 1; offset = pid AND BITS_PER_PAGE_MASK in
      if nr_free (pid_map s) = 0 then Inr (-1, s)
      else rbind (find_next_zero_bit (pid_page (pid_map s)) BITS_PER_PAGE offset) (\<lambda>offset.
        if BITS_PER_PAGE \<noteq> offset
        then rbind (test_and_set_bit offset (pid_page (pid_map s))) (\<lambda>(was_set, page').
          let s = s\<lparr>pid_map := (pid_map s)\<lparr>pid_page := page'\<rparr>\<rparr> in
          if was_set = 0
          then Inr (offset, s\<lparr>pid_map := (pid_map s)\<lparr>nr_free := nr_free (pid_map s) - 1\<rparr>, last_pid := offset\<rparr>)
          else Inr (-1, s))
        else Inr (-1, s)))"

definition free_pidmap :: "int \<Rightarrow> pids \<Rightarrow> pids res" where
  "free_pidmap pid s =
     (let offset = pid AND BITS_PER_PAGE_MASK;
          s = s\<lparr>pid_map := (pid_map s)\<lparr>nr_free := nr_free (pid_map s) + 1\<rparr>\<rparr>
      in rbind (clear_bit offset (pid_page (pid_map s))) (\<lambda>page'. Inr (s\<lparr>pid_map := (pid_map s)\<lparr>pid_page := page'\<rparr>\<rparr>)))"

section \<open>The map as a set\<close>

definition pid_bit :: "u32 list \<Rightarrow> int \<Rightarrow> bool" where
  "pid_bit pg i \<longleftrightarrow> bit (pg ! nat (i div 32)) (nat (i mod 32))"

definition used :: "pids \<Rightarrow> int set" where
  "used s = {i. 0 \<le> i \<and> i < 32768 \<and> pid_bit (pid_page (pid_map s)) i}"

definition pids_ok :: "pids \<Rightarrow> bool" where
  "pids_ok s \<longleftrightarrow> length (pid_page (pid_map s)) = 1024 \<and> -1 \<le> last_pid s \<and> last_pid s < 32768
     \<and> unat (nr_free (pid_map s)) + card (used s) = 32768"

lemma and_31: "(i :: int) AND 31 = i mod 32"
proof -
  have "(31 :: int) = mask 5" by (simp add: mask_eq_exp_minus_1)
  then show ?thesis by (simp only: flip: take_bit_eq_mask) (simp add: take_bit_eq_mod)
qed

lemma and_page_mask: "(i :: int) AND BITS_PER_PAGE_MASK = i mod 32768"
proof -
  have "BITS_PER_PAGE_MASK = mask 15" by (simp add: BITS_PER_PAGE_MASK_def BITS_PER_PAGE_def mask_eq_exp_minus_1)
  then have "i AND BITS_PER_PAGE_MASK = take_bit 15 i" by (simp only: take_bit_eq_mask)
  then show ?thesis by (simp add: take_bit_eq_mod)
qed

lemma word_at_index: "0 \<le> i \<Longrightarrow> i < 32768 \<Longrightarrow> unat (word_at i) = nat (i div 32) \<and> nat (i div 32) < 1024"
  by (auto simp: word_at_def drop_bit_eq_div unsigned_of_int take_bit_int_eq_self nat_less_iff)

lemma bit_mask_bit: "0 \<le> i \<Longrightarrow> bit (bit_mask i) n \<longleftrightarrow> n = nat (i mod 32)"
proof -
  have "nat (i mod 32) < 32" by (simp add: nat_less_iff)
  then show ?thesis unfolding bit_mask_def and_31 bit_push_bit_iff by (auto simp: bit_1_iff)
qed

lemma mask_and_nonzero: "0 \<le> i \<Longrightarrow> w AND bit_mask i \<noteq> 0 \<longleftrightarrow> bit w (nat (i mod 32))"
proof -
  assume "0 \<le> i"
  note b = bit_mask_bit [OF this]
  have "nat (i mod 32) < 32" by (simp add: nat_less_iff)
  then show ?thesis using bit_eq_iff [of "w AND bit_mask i" 0] by (auto simp: bit_and_iff b)
qed

lemma pid_bit_update:
  assumes "0 \<le> i" "i < 32768" "0 \<le> j" "j < 32768" "length pg = 1024"
  shows "pid_bit (pg[nat (i div 32) := pg ! nat (i div 32) OR bit_mask i]) j \<longleftrightarrow> j = i \<or> pid_bit pg j"
    "pid_bit (pg[nat (i div 32) := pg ! nat (i div 32) AND NOT (bit_mask i)]) j \<longleftrightarrow> j \<noteq> i \<and> pid_bit pg j"
proof -
  have l: "nat (i div 32) < length pg" using word_at_index [OF assms(1,2)] assms(5) by simp
  have eq: "nat (j div 32) = nat (i div 32) \<and> nat (j mod 32) = nat (i mod 32) \<longleftrightarrow> j = i"
  proof
    assume "nat (j div 32) = nat (i div 32) \<and> nat (j mod 32) = nat (i mod 32)"
    then have "j div 32 = i div 32" "j mod 32 = i mod 32" using assms by (auto simp: eq_nat_nat_iff)
    then show "j = i" by (metis mult_div_mod_eq)
  qed auto
  have m: "nat (j mod 32) < 32" by (simp add: nat_less_iff)
  show "pid_bit (pg[nat (i div 32) := pg ! nat (i div 32) OR bit_mask i]) j \<longleftrightarrow> j = i \<or> pid_bit pg j"
    "pid_bit (pg[nat (i div 32) := pg ! nat (i div 32) AND NOT (bit_mask i)]) j \<longleftrightarrow> j \<noteq> i \<and> pid_bit pg j"
    using l eq m unfolding pid_bit_def
    by (cases "nat (j div 32) = nat (i div 32)"; auto simp: bit_or_iff bit_and_iff bit_not_iff bit_mask_bit [OF assms(1)])+
qed

lemma find_next_zero_bit_spec:
  assumes "length pg = 1024" "0 \<le> i" "i \<le> 32768"
  shows "\<exists>j. find_next_zero_bit pg 32768 i = Inr j \<and> i \<le> j \<and> j \<le> 32768 \<and> (j < 32768 \<longrightarrow> \<not> pid_bit pg j)
    \<and> (\<forall>k. i \<le> k \<and> k < j \<longrightarrow> pid_bit pg k)"
  using assms(2,3)
proof (induction "nat (32768 - i)" arbitrary: i)
  case 0
  then show ?case by (subst find_next_zero_bit.simps) auto
next
  case (Suc n)
  then have i: "i < 32768" by linarith
  have w: "rd pg (word_at i) = Inr (pg ! nat (i div 32))" using word_at_index [OF Suc(3) i] assms(1) by simp
  have b: "NOT (pg ! nat (i div 32)) AND bit_mask i \<noteq> 0 \<longleftrightarrow> \<not> pid_bit pg i"
    using mask_and_nonzero [OF Suc(3), of "NOT (pg ! nat (i div 32))"]
    by (simp add: pid_bit_def bit_not_iff nat_less_iff)
  show ?case
  proof (cases "pid_bit pg i")
    case False
    then show ?thesis using i w b by (subst find_next_zero_bit.simps) auto
  next
    case True
    have "n = nat (32768 - (i + 1))" using Suc(2) by linarith
    then obtain j where j: "find_next_zero_bit pg 32768 (i + 1) = Inr j" "i + 1 \<le> j" "j \<le> 32768" "j < 32768 \<longrightarrow> \<not> pid_bit pg j"
      "\<forall>k. i + 1 \<le> k \<and> k < j \<longrightarrow> pid_bit pg k"
      using Suc(1) [of "i + 1"] Suc(3) i by auto
    have "pid_bit pg k" if "i \<le> k" "k < j" for k using that j(5) True by (cases "k = i") auto
    then show ?thesis using j i w b True by (subst find_next_zero_bit.simps) auto
  qed
qed

lemma used_finite: "finite (used s)"
  by (rule finite_subset [of _ "{0..<32768}"]) (auto simp: used_def)

lemma alloc_pidmap_spec:
  assumes "pids_ok s"
  defines "start \<equiv> (last_pid s + 1) mod 32768"
  shows "(\<exists>pid s'. alloc_pidmap s = Inr (pid, s') \<and> start \<le> pid \<and> pid < 32768 \<and> pid \<notin> used s \<and> {start..<pid} \<subseteq> used s
      \<and> used s' = insert pid (used s) \<and> last_pid s' = pid \<and> pids_ok s')
    \<or> (alloc_pidmap s = Inr (-1, s) \<and> {start..<32768} \<subseteq> used s)"
proof -
  let ?pg = "pid_page (pid_map s)"
  have s: "0 \<le> start" "start < 32768" by (simp_all add: start_def)
  have l: "length ?pg = 1024" using assms(1) by (simp add: pids_ok_def)
  show ?thesis
  proof (cases "nr_free (pid_map s) = 0")
    case True
    then have "card (used s) = 32768" using assms(1) by (simp add: pids_ok_def)
    moreover have "used s \<subseteq> {0..<32768}" by (auto simp: used_def)
    ultimately have "used s = {0..<32768}" by (intro card_subset_eq) simp_all
    then show ?thesis using True s by (auto simp: alloc_pidmap_def)
  next
    case False
    obtain j where j: "find_next_zero_bit ?pg 32768 start = Inr j" "start \<le> j" "j \<le> 32768" "j < 32768 \<longrightarrow> \<not> pid_bit ?pg j"
      "\<forall>k. start \<le> k \<and> k < j \<longrightarrow> pid_bit ?pg k"
      using find_next_zero_bit_spec [OF l, of start] s by auto
    have st: "(last_pid s + 1) AND BITS_PER_PAGE_MASK = start" by (simp add: and_page_mask start_def)
    have sub: "{start..<j} \<subseteq> used s" using j(3,5) s by (auto simp: used_def)
    show ?thesis
    proof (cases "j = 32768")
      case True
      then show ?thesis using False j(1) st sub by (auto simp: alloc_pidmap_def BITS_PER_PAGE_def Let_def)
    next
      case ne: False
      then have j0: "0 \<le> j" "j < 32768" using j(2,3) s by auto
      have w: "rd ?pg (word_at j) = Inr (?pg ! nat (j div 32))" "unat (word_at j) = nat (j div 32)" "nat (j div 32) < 1024"
        using word_at_index [OF j0] l by auto
      have z: "?pg ! nat (j div 32) AND bit_mask j = 0"
        using mask_and_nonzero [OF j0(1), of "?pg ! nat (j div 32)"] j(4) j0(2) by (simp add: pid_bit_def)
      let ?s = "s\<lparr>pid_map := \<lparr>nr_free = nr_free (pid_map s) - 1, pid_page = ?pg[nat (j div 32) := ?pg ! nat (j div 32) OR bit_mask j]\<rparr>, last_pid := j\<rparr>"
      have a: "alloc_pidmap s = Inr (j, ?s)"
        using False j(1) st ne w z l by (simp add: alloc_pidmap_def test_and_set_bit_def BITS_PER_PAGE_def Let_def)
      have u: "used ?s = insert j (used s)" using pid_bit_update(1) [OF j0 _ _ l] j0 by (auto simp: used_def)
      have nj: "j \<notin> used s" using j(4) j0 by (simp add: used_def)
      have "pids_ok ?s"
        using assms(1) j0 l u nj used_finite [of s] False unat_gt_0 [of "nr_free (pid_map s)"]
        by (simp add: pids_ok_def unat_pred_pos)
      then show ?thesis using a u nj sub j(2) j0 by (intro disjI1 exI [of _ j] exI [of _ ?s]) simp
    qed
  qed
qed

lemma free_pidmap_spec:
  assumes "pids_ok s" "pid \<in> used s"
  shows "\<exists>s'. free_pidmap pid s = Inr s' \<and> used s' = used s - {pid} \<and> last_pid s' = last_pid s \<and> pids_ok s'"
proof -
  let ?pg = "pid_page (pid_map s)"
  have p: "0 \<le> pid" "pid < 32768" using assms(2) by (auto simp: used_def)
  have l: "length ?pg = 1024" using assms(1) by (simp add: pids_ok_def)
  have m: "pid AND BITS_PER_PAGE_MASK = pid" using p by (simp add: and_page_mask)
  have w: "rd ?pg (word_at pid) = Inr (?pg ! nat (pid div 32))" "unat (word_at pid) = nat (pid div 32)" "nat (pid div 32) < 1024"
    using word_at_index [OF p] l by auto
  let ?s = "s\<lparr>pid_map := \<lparr>nr_free = nr_free (pid_map s) + 1, pid_page = ?pg[nat (pid div 32) := ?pg ! nat (pid div 32) AND NOT (bit_mask pid)]\<rparr>\<rparr>"
  have r: "free_pidmap pid s = Inr ?s" using w l m by (simp add: free_pidmap_def clear_bit_def Let_def)
  have u: "used ?s = used s - {pid}" using pid_bit_update(2) [OF p _ _ l] by (auto simp: used_def)
  have "card (used s) = Suc (card (used s - {pid}))" by (rule card.remove [OF used_finite assms(2)])
  moreover have "card (used s) \<le> 32768"
  proof -
    have "used s \<subseteq> {0..<32768}" by (auto simp: used_def)
    from card_mono [OF _ this] show ?thesis by simp
  qed
  moreover have "unat (nr_free (pid_map s)) + card (used s) = 32768" using assms(1) by (simp add: pids_ok_def)
  ultimately have "unat (nr_free (pid_map s) + 1) + card (used s - {pid}) = 32768"
    by (subst unat_add_no_wrap) simp_all
  then have "pids_ok ?s" using assms(1) l u by (simp add: pids_ok_def)
  then show ?thesis using r u by (intro exI [of _ ?s]) simp
qed

section \<open>Properties\<close>

text \<open>
  C28. \<^verbatim>\<open>alloc_pidmap\<close> hands out the first unused identifier after the last one, marks exactly
  that one as used and counts it; it gives up, changing nothing, when no identifier from there
  up to 32767 is unused.
\<close>

theorem alloc_pidmap_first_unused:
  assumes "pids_ok s"
  shows "(\<exists>pid s'. alloc_pidmap s = Inr (pid, s') \<and> (last_pid s + 1) mod 32768 \<le> pid \<and> pid < 32768 \<and> pid \<notin> used s
      \<and> {(last_pid s + 1) mod 32768..<pid} \<subseteq> used s \<and> used s' = insert pid (used s) \<and> last_pid s' = pid \<and> pids_ok s')
    \<or> (alloc_pidmap s = Inr (-1, s) \<and> {(last_pid s + 1) mod 32768..<32768} \<subseteq> used s)"
  using assms by (rule alloc_pidmap_spec)

lemma init_pid_ok: "pids_ok (init_pid s)" "used (init_pid s) = {}" "last_pid (init_pid s) = -1"
proof -
  have "nat (i div 32) < 1024" if "0 \<le> i" "i < 32768" for i :: int using word_at_index [OF that] by simp
  then show u: "used (init_pid s) = {}" by (auto simp: used_def init_pid_def pid_bit_def)
  show "pids_ok (init_pid s)" unfolding pids_ok_def u by (simp add: init_pid_def PID_MAX_DEFAULT_def)
qed (simp add: init_pid_def)

definition demo_pids :: pids where
  "demo_pids = init_pid \<lparr>pid_map = \<lparr>nr_free = 0, pid_page = []\<rparr>, last_pid = 5\<rparr>"

theorem alloc_pidmap_first_unused_witness:
  "\<exists>s'. alloc_pidmap demo_pids = Inr (0, s') \<and> used s' = {0}"
proof -
  have "\<not> {(last_pid demo_pids + 1) mod 32768..<32768} \<subseteq> used demo_pids" by (simp add: demo_pids_def init_pid_ok)
  with alloc_pidmap_first_unused [of demo_pids] obtain pid s' where
    a: "alloc_pidmap demo_pids = Inr (pid, s')" "0 \<le> pid" "{0..<pid} \<subseteq> {}" "used s' = {pid}"
    by (auto simp: demo_pids_def init_pid_ok)
  then have "pid = 0" by (cases "pid = 0") auto
  then show ?thesis using a by auto
qed

text \<open>
  C29. Giving back an identifier in use and nothing else: afterwards exactly it is unused, the
  count of free identifiers is right again, and any later allocation keeps it so.
\<close>

theorem free_pidmap_releases:
  assumes "pids_ok s" "pid \<in> used s"
  shows "\<exists>s'. free_pidmap pid s = Inr s' \<and> used s' = used s - {pid} \<and> last_pid s' = last_pid s \<and> pids_ok s'"
  using assms by (rule free_pidmap_spec)

theorem free_pidmap_releases_witness:
  "\<exists>s1 s2. alloc_pidmap demo_pids = Inr (0, s1) \<and> free_pidmap 0 s1 = Inr s2 \<and> used s2 = {}"
proof -
  have ok: "pids_ok demo_pids" and l: "last_pid demo_pids = -1" and u: "used demo_pids = {}" by (simp_all add: demo_pids_def init_pid_ok)
  have n: "\<not> {(last_pid demo_pids + 1) mod 32768..<32768} \<subseteq> used demo_pids" using l u by simp
  obtain pid s' where a: "alloc_pidmap demo_pids = Inr (pid, s')" "0 \<le> pid" "{0..<pid} \<subseteq> {}" "used s' = {pid}" "pids_ok s'"
    using alloc_pidmap_spec [OF ok] n l u by auto
  then have "pid = 0" by (cases "pid = 0") auto
  then show ?thesis using a free_pidmap_releases [OF a(5), of pid] by auto
qed

text \<open>
  The search does not wrap around: with the identifiers from the last one up to 32767 in
  use, allocation fails although smaller identifiers may be free.
\<close>

lemma alloc_pidmap_no_wrap:
  assumes "pids_ok s" "{(last_pid s + 1) mod 32768..<32768} \<subseteq> used s"
  shows "alloc_pidmap s = Inr (-1, s)"
  using alloc_pidmap_spec [OF assms(1)] assms(2) by (metis atLeastLessThan_iff subsetD)

end
