(* ===== verification/Pc.thy ===== *)
theory Pc
  imports Pid KMem
begin

text \<open>
  Processes, \<^verbatim>\<open>kernel/pc/pc.c\<close>: eight queues of sixteen control blocks, a round-robin position
  for each queue, the scheduler that moves the running process between the queues and picks the
  next one, creation, fork and kill. Exception, interrupt and system call tables of
  \<^verbatim>\<open>exc.c\<close>, \<^verbatim>\<open>intr.c\<close> and \<^verbatim>\<open>syscall.c\<close> follow in \<open>Trap\<close>; the table entries are named by
  \<open>handler\<close>. Console output is left out. The memory allocator is a parameter, a function on the
  state \<open>heap\<close>.
\<close>

section \<open>Data\<close>

record regs =
  r_epc :: u32
  r_at :: u32
  r_v0 :: u32
  r_v1 :: u32
  r_a0 :: u32
  r_a1 :: u32
  r_a2 :: u32
  r_a3 :: u32
  r_t0 :: u32
  r_t1 :: u32
  r_t2 :: u32
  r_t3 :: u32
  r_t4 :: u32
  r_t5 :: u32
  r_t6 :: u32
  r_t7 :: u32
  r_s0 :: u32
  r_s1 :: u32
  r_s2 :: u32
  r_s3 :: u32
  r_s4 :: u32
  r_s5 :: u32
  r_s6 :: u32
  r_s7 :: u32
  r_t8 :: u32
  r_t9 :: u32
  r_hi :: u32
  r_lo :: u32
  r_gp :: u32
  r_sp :: u32
  r_fp :: u32
  r_ra :: u32

record task_struct =
  ctx :: regs  \<comment> \<open>\<^verbatim>\<open>context\<close>\<close>
  ASID :: int
  PPID :: int
  counter :: u32
  name :: "u8 list"
  start_time :: u32
  time_left :: u32  \<comment> \<open>\<^verbatim>\<open>time_slice\<close>\<close>
  priority :: u32
  stack :: u32

datatype handler = Pc_kill_syscall | Pc_preempt_syscall | Do_fork | Pc_schedule | Syscall | Syscall4 | Ps2_handler

record 'k kern =
  task_queue :: "task_struct list list"
  curr_proc :: "u32 list"
  curr_queue :: u32
  time_slice :: "u32 list"
  bits_map :: "u32 list"
  kill_state :: u32
  pids :: pids
  cp0_count :: u32
  cp0_compare :: u32
  cp0_status :: u32
  syscalls :: "handler option list"
  interrupts :: "handler option list"
  exceptions :: "handler option list"
  gpio_led :: u32
  mem :: memory
  heap :: 'k

definition PROC_DEFAULT_TIMESLOTS :: u32 where "PROC_DEFAULT_TIMESLOTS = 6"

definition copy_context :: "regs \<Rightarrow> regs \<Rightarrow> regs" where
  "copy_context src dest = dest\<lparr>r_epc := r_epc src, r_at := r_at src, r_v0 := r_v0 src, r_v1 := r_v1 src, r_a0 := r_a0 src, r_a1 := r_a1 src,
     r_a2 := r_a2 src, r_a3 := r_a3 src, r_t0 := r_t0 src, r_t1 := r_t1 src, r_t2 := r_t2 src, r_t3 := r_t3 src,
     r_t4 := r_t4 src, r_t5 := r_t5 src, r_t6 := r_t6 src, r_t7 := r_t7 src, r_s0 := r_s0 src, r_s1 := r_s1 src,
     r_s2 := r_s2 src, r_s3 := r_s3 src, r_s4 := r_s4 src, r_s5 := r_s5 src, r_s6 := r_s6 src, r_s7 := r_s7 src,
     r_t8 := r_t8 src, r_t9 := r_t9 src, r_hi := r_hi src, r_lo := r_lo src, r_gp := r_gp src, r_sp := r_sp src,
     r_fp := r_fp src, r_ra := r_ra src\<rparr>"

text \<open>Reading and writing a control block; outside the arrays this is a fault.\<close>

definition pcb_at :: "u32 \<Rightarrow> u32 \<Rightarrow> 'k kern \<Rightarrow> task_struct res" where
  "pcb_at q p s = rbind (rd (task_queue s) q) (\<lambda>l. rd l p)"

definition upd_pcb :: "u32 \<Rightarrow> u32 \<Rightarrow> (task_struct \<Rightarrow> task_struct) \<Rightarrow> 'k kern \<Rightarrow> 'k kern res" where
  "upd_pcb q p f s = rbind (rd (task_queue s) q) (\<lambda>l. rbind (rd l p) (\<lambda>t. rbind (wr l p (f t)) (\<lambda>l.
     rbind (wr (task_queue s) q l) (\<lambda>tq. Inr (s\<lparr>task_queue := tq\<rparr>)))))"

text \<open>\<^verbatim>\<open>task_queue[curr_queue].pcb[curr_proc[curr_queue]]\<close>: its position and its block.\<close>

definition curr_pos :: "'k kern \<Rightarrow> u32 res" where
  "curr_pos s = rd (curr_proc s) (curr_queue s)"

definition get_curr_pcb :: "'k kern \<Rightarrow> task_struct res" where
  "get_curr_pcb s = rbind (curr_pos s) (\<lambda>p. pcb_at (curr_queue s) p s)"

definition upd_curr :: "(task_struct \<Rightarrow> task_struct) \<Rightarrow> 'k kern \<Rightarrow> 'k kern res" where
  "upd_curr f s = rbind (curr_pos s) (\<lambda>p. upd_pcb (curr_queue s) p f s)"

text \<open>\<^verbatim>\<open>kernel_strcpy\<close> into an array: it must find the terminator inside both arrays.\<close>

fun str_into :: "u8 list \<Rightarrow> u8 list \<Rightarrow> u8 list res" where
  "str_into (d # ds) (c # cs) = (if c = 0 then Inr (0 # ds) else rbind (str_into ds cs) (\<lambda>r. Inr (c # r)))"
| "str_into ds cs = Inl Fault"

definition c_string :: "string \<Rightarrow> u8 list" where
  "c_string cs = map (\<lambda>c. of_nat (of_char c)) cs @ [0]"

section \<open>Initialisation\<close>

definition register_syscall :: "u32 \<Rightarrow> handler \<Rightarrow> 'k kern \<Rightarrow> 'k kern res" where
  "register_syscall index fn s = rbind (wr (syscalls s) (index AND 255) (Some fn)) (\<lambda>t. Inr (s\<lparr>syscalls := t\<rparr>))"

definition register_interrupt_handler :: "u32 \<Rightarrow> handler \<Rightarrow> 'k kern \<Rightarrow> 'k kern res" where
  "register_interrupt_handler index fn s =
     (let index = index AND 7 in rbind (wr (interrupts s) index (Some fn)) (\<lambda>t.
        Inr (s\<lparr>interrupts := t, cp0_status := cp0_status s OR push_bit (unat (index + 8)) 1\<rparr>)))"

text \<open>One round of the outer loop.\<close>

definition init_queue :: "u32 \<Rightarrow> 'k kern \<Rightarrow> 'k kern res" where
  "init_queue i s = rbind (rfold (\<lambda>j. upd_pcb i j (\<lambda>t. t\<lparr>ASID := -1\<rparr>)) (map of_nat [0..<16]) s) (\<lambda>s.
     rbind (wr (curr_proc s) i (-1)) (\<lambda>cp. rbind (wr (time_slice s) i (1000000 * (10 - i))) (\<lambda>ts.
     rbind (wr (bits_map s) i 0) (\<lambda>bm. Inr (s\<lparr>curr_proc := cp, time_slice := ts, bits_map := bm\<rparr>)))))"

definition init_pc :: "'k kern \<Rightarrow> 'k kern res" where
  "init_pc s =
     rbind (rfold init_queue (map of_nat [0..<8]) s) (\<lambda>s.
     rbind (alloc_pidmap (pids s)) (\<lambda>(pid, ps).
     rbind (pcb_at 4 0 s) (\<lambda>t. rbind (str_into (name t) (c_string ''init'')) (\<lambda>nm.
     rbind (upd_pcb 4 0 (\<lambda>t. t\<lparr>ASID := pid, PPID := -1, counter := PROC_DEFAULT_TIMESLOTS, priority := 4, name := nm\<rparr>) (s\<lparr>pids := ps\<rparr>)) (\<lambda>s.
     rbind (wr (curr_proc s) 4 0) (\<lambda>cp.
     rbind (register_syscall 10 Pc_kill_syscall (s\<lparr>curr_proc := cp, curr_queue := 4, kill_state := 1\<rparr>)) (\<lambda>s.
     rbind (register_syscall 11 Pc_preempt_syscall s) (\<lambda>s.
     rbind (register_syscall 12 Do_fork s) (\<lambda>s.
     rbind (register_interrupt_handler 7 Pc_schedule s) (\<lambda>s.
       Inr (s\<lparr>cp0_compare := 10000000, cp0_count := 0\<rparr>)))))))))))"

section \<open>The scheduler\<close>

text \<open>
  The search of a queue from the position after \<open>pos\<close>, at most \<open>n\<close> blocks: whether a block with
  \<open>P\<close> was found, and the position reached.
\<close>

primrec find_slot :: "(task_struct \<Rightarrow> bool) \<Rightarrow> task_struct list \<Rightarrow> nat \<Rightarrow> u32 \<Rightarrow> (bool \<times> u32) res" where
  "find_slot P l 0 pos = Inr (False, pos)"
| "find_slot P l (Suc n) pos =
     (let pos = (pos + 1) AND 15 in rbind (rd l pos) (\<lambda>t. if P t then Inr (True, pos) else find_slot P l n pos))"

definition free_slot :: "task_struct \<Rightarrow> bool" where "free_slot t \<longleftrightarrow> ASID t < 0"
definition runnable :: "task_struct \<Rightarrow> bool" where "runnable t \<longleftrightarrow> ASID t > 0"

text \<open>
  The running process moves to queue \<open>q\<close>, one above or one below: the position of \<open>q\<close> advances
  to a free block; if there is one, the block is filled and the old one freed.
\<close>

definition move_task :: "u32 \<Rightarrow> regs \<Rightarrow> 'k kern \<Rightarrow> 'k kern res" where
  "move_task q pt_context s =
     rbind (rd (task_queue s) q) (\<lambda>l. rbind (rd (curr_proc s) q) (\<lambda>pos.
     rbind (find_slot free_slot l 16 pos) (\<lambda>(found, pos).
     rbind (wr (curr_proc s) q pos) (\<lambda>cp.
       let s = s\<lparr>curr_proc := cp\<rparr> in
       if \<not> found then Inr s
       else rbind (get_curr_pcb s) (\<lambda>old. rbind (pcb_at q pos s) (\<lambda>new. rbind (str_into (name new) (name old)) (\<lambda>nm.
         rbind (upd_pcb q pos (\<lambda>t. t\<lparr>ctx := copy_context pt_context (ctx t), priority := priority old, time_left := time_left old,
             name := nm, ASID := ASID old, PPID := PPID old, stack := stack old\<rparr>) s) (\<lambda>s.
         rbind (upd_curr (\<lambda>t. t\<lparr>ASID := -1\<rparr>) s) (\<lambda>s. Inr (s\<lparr>curr_queue := q\<rparr>)))))))))) "

text \<open>The search over the queues: the queues \<open>n - 1\<close> down to 0 are left.\<close>

primrec select_queue :: "nat \<Rightarrow> 'k kern \<Rightarrow> 'k kern res" where
  "select_queue 0 s = Inl Hang"
| "select_queue (Suc i) s =
     rbind (rd (task_queue s) (of_nat i)) (\<lambda>l. rbind (rd (curr_proc s) (of_nat i)) (\<lambda>pos.
     rbind (find_slot runnable l 16 pos) (\<lambda>(found, pos).
     rbind (wr (curr_proc s) (of_nat i) pos) (\<lambda>cp.
       let s = s\<lparr>curr_proc := cp\<rparr> in if found then Inr (s\<lparr>curr_queue := of_nat i\<rparr>) else select_queue i s))))"

definition pc_schedule :: "regs \<Rightarrow> 'k kern \<Rightarrow> (regs \<times> 'k kern) res" where
  "pc_schedule pt_context s =
     rbind (upd_curr (\<lambda>t. t\<lparr>ctx := copy_context pt_context (ctx t), time_left := cp0_count s\<rparr>) s) (\<lambda>s.
       let compare = cp0_compare s; s = s\<lparr>cp0_count := 0\<rparr> in
     rbind (get_curr_pcb s) (\<lambda>t.
     rbind (if time_left t < compare
            then if curr_queue s \<ge> 4 \<and> curr_queue s \<noteq> 7 then move_task (curr_queue s + 1) pt_context s else Inr s
            else rbind (upd_curr (\<lambda>t. t\<lparr>time_left := 0\<rparr>) s) (\<lambda>s.
              if curr_queue s > 4 then move_task (curr_queue s - 1) pt_context s else Inr s)) (\<lambda>s.
     rbind (select_queue 8 s) (\<lambda>s.
     rbind (get_curr_pcb s) (\<lambda>t.
     rbind (rd (time_slice s) (priority t)) (\<lambda>slice.
       Inr (copy_context (ctx t) pt_context, s\<lparr>cp0_compare := slice, cp0_count := time_left t\<rparr>)))))))"

definition pc_preempt_syscall :: "regs \<Rightarrow> 'k kern \<Rightarrow> (regs \<times> 'k kern) res" where
  "pc_preempt_syscall pt_context s = pc_schedule pt_context s"

text \<open>The first free block of a queue, or -1.\<close>

fun peek_from :: "task_struct list \<Rightarrow> int \<Rightarrow> int" where
  "peek_from [] i = -1"
| "peek_from (t # ts) i = (if ASID t < 0 then i else peek_from ts (i + 1))"

definition pc_peek :: "u32 \<Rightarrow> 'k kern \<Rightarrow> int res" where
  "pc_peek prio s = rbind (rd (task_queue s) prio) (\<lambda>l. Inr (peek_from l 0))"

section \<open>Creation\<close>

text \<open>
  A new process; the second component of the result says that the code issues the preemption
  system call at the end.
\<close>

definition pc_create :: "int \<Rightarrow> u32 \<Rightarrow> u32 \<Rightarrow> u32 \<Rightarrow> u8 list \<Rightarrow> u32 \<Rightarrow> 'k kern \<Rightarrow> (bool \<times> 'k kern) res" where
  "pc_create asid func init_sp init_gp nm prio s =
     rbind (rd (curr_proc s) prio) (\<lambda>pos. rbind (rd (task_queue s) prio) (\<lambda>l.
     rbind (find_slot free_slot l 16 pos) (\<lambda>(found, pos).
       if \<not> found then Inl Hang
       else rbind (pcb_at prio pos s) (\<lambda>t. rbind (str_into (name t) nm) (\<lambda>nm.
         rbind (upd_pcb prio pos (\<lambda>t. t\<lparr>ctx := (ctx t)\<lparr>r_epc := func, r_sp := init_sp, r_gp := init_gp\<rparr>,
             stack := init_sp - 8192, priority := prio, time_left := 0, name := nm, ASID := asid\<rparr>) s) (\<lambda>s.
         rbind (get_curr_pcb s) (\<lambda>cur.
         rbind (upd_pcb prio pos (\<lambda>t. t\<lparr>PPID := ASID cur\<rparr>) s) (\<lambda>s.
         rbind (get_curr_pcb s) (\<lambda>cur.
           Inr (ASID cur > 0 \<and> prio > curr_queue s, s)))))))))) "

definition do_fork :: "(u32 \<Rightarrow> 'k \<Rightarrow> (u32 \<times> 'k) res) \<Rightarrow> regs \<Rightarrow> 'k kern \<Rightarrow> (regs \<times> 'k kern) res" where
  "do_fork malloc pt_context s =
     rbind (get_curr_pcb s) (\<lambda>cur. let prio = priority cur in
     rbind (rd (curr_proc s) prio) (\<lambda>pos. rbind (rd (task_queue s) prio) (\<lambda>l.
     rbind (find_slot free_slot l 16 pos) (\<lambda>(found, pos).
       if \<not> found then Inl Hang
       else rbind (alloc_pidmap (pids s)) (\<lambda>(pid, ps).
         rbind (upd_pcb prio pos (\<lambda>t. t\<lparr>ASID := pid\<rparr>) (s\<lparr>pids := ps\<rparr>)) (\<lambda>s.
         let pt_context = pt_context\<lparr>r_v1 := of_int pid\<rparr> in
         rbind (upd_curr (\<lambda>t. t\<lparr>ctx := copy_context pt_context (ctx t)\<rparr>) s) (\<lambda>s.
         rbind (get_curr_pcb s) (\<lambda>cur.
         rbind (pcb_at prio pos s) (\<lambda>child. rbind (str_into (name child) (name cur)) (\<lambda>nm.
         rbind (upd_pcb prio pos (\<lambda>t. t\<lparr>ctx := (copy_context pt_context (ctx t))\<lparr>r_v1 := 0\<rparr>, priority := prio, time_left := 0,
             name := nm, PPID := ASID cur\<rparr>) s) (\<lambda>s.
         let offset = r_sp pt_context - stack cur in
         rbind (malloc 8192 (heap s)) (\<lambda>(newstack, k).
         rbind (upd_pcb prio pos (\<lambda>t. t\<lparr>stack := newstack\<rparr>) (s\<lparr>heap := k\<rparr>)) (\<lambda>s.
         rbind (get_curr_pcb s) (\<lambda>cur.
         rbind (upd_pcb prio pos (\<lambda>t. t\<lparr>ctx := (ctx t)\<lparr>r_sp := newstack + offset\<rparr>\<rparr>)
             (s\<lparr>mem := kernel_memcpy (mem s) newstack (stack cur) 8192\<rparr>)) (\<lambda>s.
         rbind (wr (curr_proc s) (curr_queue s) pos) (\<lambda>cp.
         rbind (pcb_at prio pos (s\<lparr>curr_proc := cp\<rparr>)) (\<lambda>child.
           Inr (copy_context (ctx child) pt_context, s\<lparr>curr_proc := cp\<rparr>))))))))))))))))))"

section \<open>Termination of processes\<close>

text \<open>The blocks in the order of the nested loops: queue 7 first, each from the block after its position.\<close>

definition slots :: "'k kern \<Rightarrow> (u32 \<times> u32) list" where
  "slots s = concat (map (\<lambda>i. map (\<lambda>j. (of_nat i, (curr_proc s ! i + of_nat j) AND 15)) [1..<17]) (rev [0..<8]))"

text \<open>
  One visit of \<^verbatim>\<open>pc_kill\<close>; \<open>rec\<close> is the recursive call. The state is paired with \<^verbatim>\<open>flag\<close>.
\<close>

definition kill_visit :: "(int \<Rightarrow> 'k kern \<Rightarrow> (int \<times> 'k kern) res) \<Rightarrow> int \<Rightarrow> u32 \<times> u32 \<Rightarrow> bool \<times> 'k kern \<Rightarrow> (bool \<times> 'k kern) res" where
  "kill_visit rec proc = (\<lambda>(q, pos) (flag, s). rbind (pcb_at q pos s) (\<lambda>t.
     if ASID t = proc then
       rbind (free_pidmap proc (pids s)) (\<lambda>ps.
       rbind (upd_pcb q pos (\<lambda>t. t\<lparr>ASID := -1\<rparr>) (s\<lparr>pids := ps\<rparr>)) (\<lambda>s. Inr (True, s)))
     else if kill_state s \<noteq> 0 then
       (if PPID t = proc then rbind (upd_pcb q pos (\<lambda>t. t\<lparr>PPID := 0\<rparr>) s) (\<lambda>s. Inr (flag, s)) else Inr (flag, s))
     else if ASID t > 0 \<and> PPID t = proc then rbind (rec (ASID t) s) (\<lambda>(_, s). Inr (flag, s))
     else Inr (flag, s)))"

definition kill_body :: "(int \<Rightarrow> 'k kern \<Rightarrow> (int \<times> 'k kern) res) \<Rightarrow> int \<Rightarrow> 'k kern \<Rightarrow> (int \<times> 'k kern) res" where
  "kill_body rec proc s =
     (if proc = 0 then Inr (0, s) else if proc = 1 then Inr (1, s)
      else rbind (rfold (kill_visit rec proc) (slots s) (False, s)) (\<lambda>(flag, s). Inr (if flag then 2 else 3, s)))"

text \<open>The depth of the recursion is bounded by the fuel.\<close>

primrec pc_kill :: "nat \<Rightarrow> int \<Rightarrow> 'k kern \<Rightarrow> (int \<times> 'k kern) res" where
  "pc_kill 0 = kill_body (\<lambda>_ _. Inl OutOfFuel)"
| "pc_kill (Suc fuel) = kill_body (pc_kill fuel)"

definition orphan_visit :: "nat \<Rightarrow> int \<Rightarrow> u32 \<times> u32 \<Rightarrow> 'k kern \<Rightarrow> 'k kern res" where
  "orphan_visit fuel asid = (\<lambda>(q, pos) s. rbind (pcb_at q pos s) (\<lambda>t.
     if PPID t \<noteq> asid then Inr s
     else if kill_state s \<noteq> 0 then upd_pcb q pos (\<lambda>t. t\<lparr>PPID := 0\<rparr>) s
     else rbind (pc_kill fuel (ASID t) s) (\<lambda>(_, s). Inr s)))"

definition pc_kill_syscall :: "nat \<Rightarrow> regs \<Rightarrow> 'k kern \<Rightarrow> (regs \<times> 'k kern) res" where
  "pc_kill_syscall fuel pt_context s =
     rbind (get_curr_pcb s) (\<lambda>t. rbind (free_pidmap (ASID t) (pids s)) (\<lambda>ps.
     rbind (rfold (orphan_visit fuel (ASID t)) (slots s) (s\<lparr>pids := ps\<rparr>)) (\<lambda>s.
     rbind (upd_curr (\<lambda>t. t\<lparr>ASID := -1\<rparr>) s) (\<lambda>s. pc_schedule pt_context s))))"

definition alt_kill_mode :: "'k kern \<Rightarrow> 'k kern" where
  "alt_kill_mode s = s\<lparr>kill_state := (if kill_state s = 1 then 0 else 1)\<rparr>"

text \<open>What \<^verbatim>\<open>print_proc\<close> lists: parent, identifier, priority and name of every block in use.\<close>

definition print_proc :: "'k kern \<Rightarrow> (int \<times> int \<times> u32 \<times> u8 list) list" where
  "print_proc s = map (\<lambda>t. (PPID t, ASID t, priority t, name t)) (filter (\<lambda>t. ASID t \<ge> 0) (concat (task_queue s)))"

end
