(* ===== verification/PcThms.thy ===== *)
theory PcThms
  imports Pc "HOL-Library.Multiset"
begin

text \<open>
  The scheduler: every call of \<^verbatim>\<open>pc_schedule\<close> loads a runnable process of the highest queue that
  has one, takes turns inside the queue, and loses no process on the way. Creation, fork and kill.
\<close>

section \<open>The shape of the tables\<close>

definition name_ok :: "u8 list \<Rightarrow> bool" where
  "name_ok nm \<longleftrightarrow> length nm = 32 \<and> 0 \<in> set nm"

definition block_ok :: "task_struct \<Rightarrow> bool" where
  "block_ok t \<longleftrightarrow> name_ok (name t) \<and> unat (priority t) < 8"

definition tables_ok :: "task_struct list list \<Rightarrow> bool" where
  "tables_ok tq \<longleftrightarrow> length tq = 8 \<and> (\<forall>l\<in>set tq. length l = 16 \<and> (\<forall>t\<in>set l. block_ok t))"

definition kern_ok :: "'k kern \<Rightarrow> bool" where
  "kern_ok s \<longleftrightarrow> tables_ok (task_queue s) \<and> length (curr_proc s) = 8 \<and> length (time_slice s) = 8 \<and> unat (curr_queue s) < 8
     \<and> unat (curr_proc s ! unat (curr_queue s)) < 16"

definition tq_upd :: "u32 \<Rightarrow> u32 \<Rightarrow> (task_struct \<Rightarrow> task_struct) \<Rightarrow> task_struct list list \<Rightarrow> task_struct list list" where
  "tq_upd q p f tq = tq[unat q := (tq ! unat q)[unat p := f (tq ! unat q ! unat p)]]"

lemma copy_context_all [simp]: "copy_context src dest = src"
  by (simp add: copy_context_def)

lemma tables_nth: "tables_ok tq \<Longrightarrow> q < 8 \<Longrightarrow> length (tq ! q) = 16"
  by (simp add: tables_ok_def)

lemma tables_block: "tables_ok tq \<Longrightarrow> q < 8 \<Longrightarrow> p < 16 \<Longrightarrow> block_ok (tq ! q ! p)"
  by (metis nth_mem tables_ok_def)

lemma tables_length: "tables_ok tq \<Longrightarrow> length tq = 8"
  by (simp add: tables_ok_def)

lemma pcb_at_ok: "tables_ok (task_queue s) \<Longrightarrow> unat q < 8 \<Longrightarrow> unat p < 16 \<Longrightarrow> pcb_at q p s = Inr (task_queue s ! unat q ! unat p)"
  by (simp add: pcb_at_def tables_length tables_nth)

lemma upd_pcb_ok:
  "tables_ok (task_queue s) \<Longrightarrow> unat q < 8 \<Longrightarrow> unat p < 16 \<Longrightarrow> upd_pcb q p f s = Inr (s\<lparr>task_queue := tq_upd q p f (task_queue s)\<rparr>)"
  by (simp add: upd_pcb_def tq_upd_def tables_length tables_nth)

lemma tq_upd_tables:
  assumes "tables_ok tq" "unat q < 8" "unat p < 16" "block_ok (f (tq ! unat q ! unat p))"
  shows "tables_ok (tq_upd q p f tq)"
proof -
  let ?l = "(tq ! unat q)[unat p := f (tq ! unat q ! unat p)]"
  have "tq ! unat q \<in> set tq" using assms(1,2) by (simp add: tables_length)
  then have "length ?l = 16" "\<forall>t\<in>set ?l. block_ok t"
    using assms(1,4) set_update_subset_insert [of "tq ! unat q" "unat p"] by (auto simp: tables_ok_def)
  then show ?thesis
    using assms(1) set_update_subset_insert [of tq "unat q" ?l] by (auto simp: tables_ok_def tq_upd_def)
qed

lemma tq_upd_nth:
  assumes "tables_ok tq" "unat q < 8" "unat p < 16"
  shows "tq_upd q p f tq ! unat q ! unat p = f (tq ! unat q ! unat p)"
    "q' \<noteq> unat q \<or> p' \<noteq> unat p \<Longrightarrow> tq_upd q p f tq ! q' ! p' = tq ! q' ! p'"
proof -
  have "length (tq ! unat q) = 16" "length tq = 8" using assms by (simp_all add: tables_nth tables_length)
  then show "tq_upd q p f tq ! unat q ! unat p = f (tq ! unat q ! unat p)"
    "q' \<noteq> unat q \<or> p' \<noteq> unat p \<Longrightarrow> tq_upd q p f tq ! q' ! p' = tq ! q' ! p'"
    using assms(2,3) by (auto simp: tq_upd_def nth_list_update)
qed

section \<open>The processes that are alive\<close>

definition one_alive :: "int \<Rightarrow> int multiset" where
  "one_alive a = (if a > 0 then {#a#} else {#})"

definition alive_in :: "task_struct list list \<Rightarrow> int multiset" where
  "alive_in tq = filter_mset (\<lambda>a. a > 0) (image_mset ASID (mset (concat tq)))"

lemma mset_concat_update:
  "i < length xss \<Longrightarrow> mset (concat (xss[i := ys])) + mset (xss ! i) = mset (concat xss) + mset ys"
proof (induction xss arbitrary: i)
  case (Cons xs xss)
  then show ?case by (cases i) (auto simp: ac_simps)
qed simp

lemma mset_update_add: "i < length xs \<Longrightarrow> mset (xs[i := y]) + {#xs ! i#} = mset xs + {#y#}"
proof (induction xs arbitrary: i)
  case (Cons x xs)
  then show ?case by (cases i) auto
qed simp

lemma alive_upd:
  assumes "tables_ok tq" "unat q < 8" "unat p < 16"
  shows "alive_in (tq_upd q p f tq) + one_alive (ASID (tq ! unat q ! unat p)) = alive_in tq + one_alive (ASID (f (tq ! unat q ! unat p)))"
proof -
  let ?l = "tq ! unat q" and ?t = "tq ! unat q ! unat p"
  have l: "unat q < length tq" "unat p < length ?l" using assms by (simp_all add: tables_length tables_nth)
  have "mset (concat (tq_upd q p f tq)) + mset ?l = mset (concat tq) + mset (?l[unat p := f ?t])"
    unfolding tq_upd_def by (rule mset_concat_update [OF l(1)])
  then have "mset (concat (tq_upd q p f tq)) + mset ?l + {#?t#} = mset (concat tq) + (mset (?l[unat p := f ?t]) + {#?t#})" by simp
  also have "mset (?l[unat p := f ?t]) + {#?t#} = mset ?l + {#f ?t#}" by (rule mset_update_add [OF l(2)])
  finally have "mset (concat (tq_upd q p f tq)) + {#?t#} + mset ?l = mset (concat tq) + {#f ?t#} + mset ?l"
    by (simp only: ac_simps)
  then have "mset (concat (tq_upd q p f tq)) + {#?t#} = mset (concat tq) + {#f ?t#}" by simp
  from arg_cong [OF this, of "\<lambda>M. filter_mset (\<lambda>a. a > 0) (image_mset ASID M)"]
  show ?thesis by (auto simp: alive_in_def one_alive_def)
qed

section \<open>Searching a queue\<close>

definition turn :: "u32 \<Rightarrow> nat \<Rightarrow> nat" where
  "turn pos k = (unat pos + k) mod 16"

lemma turn_less: "turn pos k < 16"
  by (simp add: turn_def)

lemma unat_and_15: "unat (w AND 15 :: u32) = unat w mod 16"
proof -
  have "(15 :: u32) = mask 4" by (simp add: mask_eq_exp_minus_1)
  then have "w AND 15 = take_bit 4 w" by (simp only: take_bit_eq_mask)
  then have "unat (w AND 15) = take_bit 4 (unat w)" by (simp add: unsigned_take_bit_eq)
  then show ?thesis by (simp add: take_bit_eq_mod)
qed

lemma turn_step: "unat ((pos + 1) AND 15) = turn pos 1"
proof -
  have "unat (pos + 1) = (unat pos + 1) mod 2 ^ 32" by (simp add: unat_word_ariths)
  then have "unat (pos + 1) mod 16 = (unat pos + 1) mod 16" by (simp add: mod_mod_cancel)
  then show ?thesis by (simp add: unat_and_15 turn_def)
qed

lemma turn_turn: "unat p = turn pos 1 \<Longrightarrow> turn p k = turn pos (Suc k)"
  by (simp add: turn_def mod_add_left_eq)

lemma find_slot_spec:
  assumes "length l = 16"
  shows "(\<exists>k p. 1 \<le> k \<and> k \<le> n \<and> find_slot P l n pos = Inr (True, p) \<and> unat p = turn pos k \<and> P (l ! turn pos k)
       \<and> (\<forall>j. 1 \<le> j \<and> j < k \<longrightarrow> \<not> P (l ! turn pos j)))
    \<or> (\<exists>p. find_slot P l n pos = Inr (False, p) \<and> (n > 0 \<longrightarrow> unat p = turn pos n) \<and> (\<forall>j. 1 \<le> j \<and> j \<le> n \<longrightarrow> \<not> P (l ! turn pos j)))"
proof (induction n arbitrary: pos)
  case (Suc n)
  let ?p = "(pos + 1) AND 15"
  have r: "rd l ?p = Inr (l ! turn pos 1)" using turn_step [of pos] turn_less [of pos 1] assms by simp
  show ?case
  proof (cases "P (l ! turn pos 1)")
    case True
    then show ?thesis using r turn_step [of pos]
      by (intro disjI1 exI [of _ 1] exI [of _ ?p]) (auto simp: Let_def)
  next
    case False
    then have e: "find_slot P l (Suc n) pos = find_slot P l n ?p" using r by (simp add: Let_def)
    note t = turn_turn [OF turn_step [of pos]]
    have neg: "\<not> P (l ! turn pos j)" if "1 \<le> j" "j < Suc k" "\<forall>i. 1 \<le> i \<and> i < k \<longrightarrow> \<not> P (l ! turn pos (Suc i))" for j k
      using that False by (cases "j = 1") (auto dest!: spec [of _ "j - 1"])
    from Suc [of ?p, unfolded t] show ?thesis
    proof (elim disjE exE conjE)
      fix k p
      assume "1 \<le> k" "k \<le> n" "find_slot P l n ?p = Inr (True, p)" "unat p = turn pos (Suc k)" "P (l ! turn pos (Suc k))"
        "\<forall>j. 1 \<le> j \<and> j < k \<longrightarrow> \<not> P (l ! turn pos (Suc j))"
      then show ?thesis using e neg [of _ k] by (intro disjI1 exI [of _ "Suc k"] exI [of _ p]) auto
    next
      fix p
      assume a: "find_slot P l n ?p = Inr (False, p)" "n > 0 \<longrightarrow> unat p = turn pos (Suc n)"
        "\<forall>j. 1 \<le> j \<and> j \<le> n \<longrightarrow> \<not> P (l ! turn pos (Suc j))"
      have "unat p = turn pos (Suc n)"
        using a(1,2) turn_step [of pos] by (cases n) auto
      moreover have "\<not> P (l ! turn pos j)" if "1 \<le> j" "j \<le> Suc n" for j
        using neg [of j "Suc n"] a(3) that by (simp add: less_Suc_eq_le)
      ultimately show ?thesis using e a(1) by (intro disjI2 exI [of _ p]) auto
    qed
  qed
qed simp

text \<open>Sixteen steps visit every block.\<close>

lemma turn_all: "i < 16 \<Longrightarrow> \<exists>j. 1 \<le> j \<and> j \<le> 16 \<and> turn pos j = i"
proof -
  assume i: "i < 16"
  define r where "r = unat pos mod 16"
  define j where "j = (if r < i then i - r else i + 16 - r)"
  have r: "r < 16" "unat pos = 16 * (unat pos div 16) + r" by (simp_all add: r_def)
  have "r + j = i \<or> r + j = i + 16" using r(1) by (auto simp: j_def)
  then have "turn pos j = i" unfolding turn_def using r(2) i by (metis add.assoc mod_add_self2 mod_less mod_mult_self4)
  moreover have "1 \<le> j" "j \<le> 16" using i r(1) by (auto simp: j_def)
  ultimately show ?thesis by blast
qed

lemma find_slot_all:
  assumes "length l = 16"
  shows "(\<exists>p k. find_slot P l 16 pos = Inr (True, p) \<and> unat p < 16 \<and> P (l ! unat p) \<and> unat p = turn pos k \<and> 1 \<le> k \<and> k \<le> 16
       \<and> (\<forall>j. 1 \<le> j \<and> j < k \<longrightarrow> \<not> P (l ! turn pos j)))
    \<or> (\<exists>p. find_slot P l 16 pos = Inr (False, p) \<and> unat p = unat pos mod 16 \<and> (\<forall>t\<in>set l. \<not> P t))"
  using find_slot_spec [OF assms, of 16 P pos]
proof (elim disjE exE conjE)
  fix k p
  assume "1 \<le> k" "k \<le> 16" "find_slot P l 16 pos = Inr (True, p)" "unat p = turn pos k" "P (l ! turn pos k)"
    "\<forall>j. 1 \<le> j \<and> j < k \<longrightarrow> \<not> P (l ! turn pos j)"
  then show ?thesis using turn_less [of pos k] by (intro disjI1 exI [of _ p] exI [of _ k]) simp
next
  fix p
  assume a: "find_slot P l 16 pos = Inr (False, p)" "0 < (16 :: nat) \<longrightarrow> unat p = turn pos 16"
    "\<forall>j. 1 \<le> j \<and> j \<le> 16 \<longrightarrow> \<not> P (l ! turn pos j)"
  have "\<not> P t" if m: "t \<in> set l" for t
  proof -
    obtain i where "i < 16" "l ! i = t" using m assms by (metis in_set_conv_nth)
    then show ?thesis using a(3) turn_all [of i pos] by auto
  qed
  then show ?thesis using a(1,2) by (intro disjI2) (simp add: turn_def)
qed

section \<open>The running process\<close>

lemma str_into_spec:
  "0 \<in> set c \<Longrightarrow> length c \<le> length d \<Longrightarrow>
    \<exists>r. str_into d c = Inr r \<and> length r = length d \<and> 0 \<in> set r \<and> takeWhile (\<lambda>x. x \<noteq> 0) r = takeWhile (\<lambda>x. x \<noteq> 0) c"
proof (induction d c rule: str_into.induct)
  case (1 d ds c cs)
  then show ?case by (cases "c = 0") auto
qed simp_all

lemma str_into_name:
  "name_ok d \<Longrightarrow> name_ok c \<Longrightarrow> \<exists>r. str_into d c = Inr r \<and> name_ok r \<and> takeWhile (\<lambda>x. x \<noteq> 0) r = takeWhile (\<lambda>x. x \<noteq> 0) c"
  using str_into_spec [of c d] by (auto simp: name_ok_def)

definition cpos :: "'k kern \<Rightarrow> u32" where
  "cpos s = curr_proc s ! unat (curr_queue s)"

definition cblk :: "'k kern \<Rightarrow> task_struct" where
  "cblk s = task_queue s ! unat (curr_queue s) ! unat (cpos s)"

lemma kern_okD:
  assumes "kern_ok s"
  shows "tables_ok (task_queue s)" "length (curr_proc s) = 8" "length (time_slice s) = 8" "unat (curr_queue s) < 8"
    "unat (cpos s) < 16" "block_ok (cblk s)"
  using assms tables_block by (auto simp: kern_ok_def cpos_def cblk_def)

lemma curr_pos_ok: "kern_ok s \<Longrightarrow> curr_pos s = Inr (cpos s)"
  by (simp add: curr_pos_def cpos_def kern_ok_def)

lemma get_curr_pcb_ok: "kern_ok s \<Longrightarrow> get_curr_pcb s = Inr (cblk s)"
  using kern_okD [of s] by (simp add: get_curr_pcb_def curr_pos_ok pcb_at_ok cblk_def)

lemma upd_curr_ok: "kern_ok s \<Longrightarrow> upd_curr f s = Inr (s\<lparr>task_queue := tq_upd (curr_queue s) (cpos s) f (task_queue s)\<rparr>)"
  using kern_okD [of s] by (simp add: upd_curr_def curr_pos_ok upd_pcb_ok)

lemma kern_ok_upd_curr:
  assumes "kern_ok s" "block_ok (f (cblk s))"
  shows "kern_ok (s\<lparr>task_queue := tq_upd (curr_queue s) (cpos s) f (task_queue s)\<rparr>)"
    "cblk (s\<lparr>task_queue := tq_upd (curr_queue s) (cpos s) f (task_queue s)\<rparr>) = f (cblk s)"
  using kern_okD [OF assms(1)] assms tq_upd_tables [of "task_queue s" "curr_queue s" "cpos s" f] tq_upd_nth(1) [of "task_queue s" "curr_queue s" "cpos s" f]
  by (simp_all add: kern_ok_def cblk_def cpos_def)

text \<open>Moving between the queues.\<close>

lemma move_task_spec:
  assumes k: "kern_ok s" and q: "unat q < 8" "q \<noteq> curr_queue s"
  shows "\<exists>s'. move_task q c s = Inr s' \<and> kern_ok s' \<and> alive_in (task_queue s') = alive_in (task_queue s)
    \<and> time_slice s' = time_slice s \<and> pids s' = pids s \<and> kill_state s' = kill_state s \<and> cp0_count s' = cp0_count s
    \<and> cp0_compare s' = cp0_compare s"
proof -
  note d = kern_okD [OF k]
  let ?l = "task_queue s ! unat q" and ?pos = "curr_proc s ! unat q"
  have l: "length ?l = 16" using tables_nth [OF d(1) q(1)] .
  have rd: "rd (task_queue s) q = Inr ?l" "rd (curr_proc s) q = Inr ?pos" using q(1) d(2) tables_length [OF d(1)] by simp_all
  have nq: "unat q \<noteq> unat (curr_queue s)" using q(2) by (simp add: word_unat_eq_iff)
  show ?thesis
    using find_slot_all [OF l, of free_slot ?pos]
  proof (elim disjE exE conjE)
    fix p assume f: "find_slot free_slot ?l 16 ?pos = Inr (False, p)"
    let ?s = "s\<lparr>curr_proc := (curr_proc s)[unat q := p]\<rparr>"
    have "move_task q c s = Inr ?s" using rd f q(1) d(2) by (simp add: move_task_def Let_def)
    moreover have "kern_ok ?s" using k nq by (simp add: kern_ok_def)
    ultimately show ?thesis by (intro exI [of _ ?s]) simp
  next
    fix p assume f: "find_slot free_slot ?l 16 ?pos = Inr (True, p)" "unat p < 16" "free_slot (?l ! unat p)"
    let ?s1 = "s\<lparr>curr_proc := (curr_proc s)[unat q := p]\<rparr>"
    have k1: "kern_ok ?s1" using k nq by (simp add: kern_ok_def)
    have c1: "cblk ?s1 = cblk s" "cpos ?s1 = cpos s" using nq by (simp_all add: cblk_def cpos_def)
    have b: "block_ok (?l ! unat p)" using tables_block [OF d(1) q(1) f(2)] .
    obtain nm where nm: "str_into (name (?l ! unat p)) (name (cblk s)) = Inr nm" "name_ok nm"
      using str_into_name b d(6) unfolding block_ok_def by blast
    let ?f = "\<lambda>t. t\<lparr>ctx := c, priority := priority (cblk s), time_left := time_left (cblk s), name := nm, ASID := ASID (cblk s),
        PPID := PPID (cblk s), stack := stack (cblk s)\<rparr>"
    let ?t2 = "tq_upd q p ?f (task_queue s)"
    let ?s2 = "?s1\<lparr>task_queue := ?t2\<rparr>"
    have t2: "tables_ok ?t2" using d(1,6) q(1) f(2) nm(2) by (intro tq_upd_tables) (simp_all add: block_ok_def)
    have k2: "kern_ok ?s2" using k1 t2 by (simp add: kern_ok_def)
    have c2: "cblk ?s2 = cblk s" "cpos ?s2 = cpos s"
      using tq_upd_nth(2) [OF d(1) q(1) f(2), of "unat (curr_queue s)" "unat (cpos s)" ?f] nq by (simp_all add: cblk_def cpos_def)
    let ?g = "\<lambda>t. t\<lparr>ASID := -1\<rparr>"
    let ?t3 = "tq_upd (curr_queue s) (cpos s) ?g ?t2"
    let ?s3 = "s\<lparr>curr_proc := (curr_proc s)[unat q := p], task_queue := ?t3, curr_queue := q\<rparr>"
    have u2: "upd_pcb q p (\<lambda>t. t\<lparr>ctx := copy_context c (ctx t), priority := priority (cblk s), time_left := time_left (cblk s), name := nm,
        ASID := ASID (cblk s), PPID := PPID (cblk s), stack := stack (cblk s)\<rparr>) ?s1 = Inr ?s2"
      using d(1) q(1) f(2) by (subst upd_pcb_ok) simp_all
    have m: "move_task q c s = Inr ?s3"
      using rd f(1) q(1) d(1,2) nm(1) u2 upd_curr_ok [OF k2, of ?g] c2 get_curr_pcb_ok [OF k1] c1 pcb_at_ok [of ?s1 q p] f(2)
      by (simp add: move_task_def Let_def)
    have t3: "tables_ok ?t3"
      using tables_block [OF t2 d(4,5)] by (intro tq_upd_tables t2 d(4,5)) (simp add: block_ok_def)
    have a2: "alive_in ?t2 = alive_in (task_queue s) + one_alive (ASID (cblk s))"
      using alive_upd [OF d(1) q(1) f(2), of ?f] f(3) by (simp add: one_alive_def free_slot_def)
    have cb: "?t2 ! unat (curr_queue s) ! unat (cpos s) = cblk s"
      using tq_upd_nth(2) [OF d(1) q(1) f(2), of "unat (curr_queue s)" "unat (cpos s)" ?f] nq by (simp add: cblk_def)
    have "one_alive (ASID (?g (cblk s))) = {#}" by (simp add: one_alive_def)
    with alive_upd [OF t2 d(4,5), of ?g] have "alive_in ?t3 + one_alive (ASID (cblk s)) = alive_in ?t2"
      unfolding cb by simp
    then have "alive_in ?t3 = alive_in (task_queue s)" using a2 by simp
    moreover have "kern_ok ?s3" using k t3 f(2) q(1) d(2) by (simp add: kern_ok_def)
    ultimately show ?thesis using m by (intro exI [of _ ?s3]) simp
  qed
qed

lemma select_queue_spec:
  assumes "tables_ok (task_queue s)" "length (curr_proc s) = 8" "n \<le> 8"
  shows "(\<exists>i cp. i < n \<and> select_queue n s = Inr (s\<lparr>curr_proc := cp, curr_queue := of_nat i\<rparr>) \<and> length cp = 8 \<and> unat (cp ! i) < 16
       \<and> runnable (task_queue s ! i ! unat (cp ! i)) \<and> (\<forall>j. i < j \<and> j < n \<longrightarrow> (\<forall>t\<in>set (task_queue s ! j). \<not> runnable t))
       \<and> (\<exists>k. 1 \<le> k \<and> k \<le> 16 \<and> unat (cp ! i) = turn (curr_proc s ! i) k
            \<and> (\<forall>j. 1 \<le> j \<and> j < k \<longrightarrow> \<not> runnable (task_queue s ! i ! turn (curr_proc s ! i) j))))
    \<or> (select_queue n s = Inl Hang \<and> (\<forall>j<n. \<forall>t\<in>set (task_queue s ! j). \<not> runnable t))"
  using assms
proof (induction n arbitrary: s)
  case (Suc n)
  let ?l = "task_queue s ! n" and ?pos = "curr_proc s ! n"
  have n: "unat (of_nat n :: u32) = n" using Suc(4) by (simp add: unat_of_nat take_bit_nat_eq_self)
  have l: "length ?l = 16" using tables_nth [OF Suc(2), of n] Suc(4) by simp
  have rd: "rd (task_queue s) (of_nat n) = Inr ?l" "rd (curr_proc s) (of_nat n) = Inr ?pos"
    using n Suc(3,4) tables_length [OF Suc(2)] by simp_all
  show ?case
    using find_slot_all [OF l, of runnable ?pos]
  proof (elim disjE exE conjE)
    fix p k
    assume f: "find_slot runnable ?l 16 ?pos = Inr (True, p)" "unat p < 16" "runnable (?l ! unat p)" "unat p = turn ?pos k" "1 \<le> k" "k \<le> 16"
      "\<forall>j. 1 \<le> j \<and> j < k \<longrightarrow> \<not> runnable (?l ! turn ?pos j)"
    have "select_queue (Suc n) s = Inr (s\<lparr>curr_proc := (curr_proc s)[n := p], curr_queue := of_nat n\<rparr>)"
      using rd f(1) n Suc(3,4) by (simp add: Let_def)
    then show ?thesis using f n Suc(3,4) by (intro disjI1 exI [of _ n] exI [of _ "(curr_proc s)[n := p]"]) auto
  next
    fix p
    assume f: "find_slot runnable ?l 16 ?pos = Inr (False, p)" "\<forall>t\<in>set ?l. \<not> runnable t"
    let ?s = "s\<lparr>curr_proc := (curr_proc s)[n := p]\<rparr>"
    have e: "select_queue (Suc n) s = select_queue n ?s" using rd f(1) n Suc(3,4) by (simp add: Let_def)
    have up: "\<forall>j. i < j \<and> j < Suc n \<longrightarrow> (\<forall>t\<in>set (task_queue s ! j). \<not> runnable t)"
      if "\<forall>j. i < j \<and> j < n \<longrightarrow> (\<forall>t\<in>set (task_queue s ! j). \<not> runnable t)" for i
      using that f(2) by (auto simp: less_Suc_eq)
    have h: "tables_ok (task_queue ?s)" "length (curr_proc ?s) = 8" "n \<le> 8" using Suc(2-4) by simp_all
    from Suc(1) [OF h] show ?thesis
    proof (elim disjE exE conjE)
      fix i cp k
      assume i: "i < n" "select_queue n ?s = Inr (?s\<lparr>curr_proc := cp, curr_queue := of_nat i\<rparr>)" "length cp = 8" "unat (cp ! i) < 16"
        "runnable (task_queue ?s ! i ! unat (cp ! i))" "\<forall>j. i < j \<and> j < n \<longrightarrow> (\<forall>t\<in>set (task_queue ?s ! j). \<not> runnable t)"
        "1 \<le> k" "k \<le> 16" "unat (cp ! i) = turn (curr_proc ?s ! i) k"
        "\<forall>j. 1 \<le> j \<and> j < k \<longrightarrow> \<not> runnable (task_queue ?s ! i ! turn (curr_proc ?s ! i) j)"
      then show ?thesis using e up [of i] by (intro disjI1 exI [of _ i] exI [of _ cp]) auto
    next
      assume "select_queue n ?s = Inl Hang" "\<forall>j<n. \<forall>t\<in>set (task_queue ?s ! j). \<not> runnable t"
      then show ?thesis using e f(2) by (auto simp: less_Suc_eq)
    qed
  qed
qed simp

section \<open>Scheduling\<close>

lemma alive_empty:
  assumes "tables_ok tq"
  shows "alive_in tq = {#} \<longleftrightarrow> (\<forall>q<8. \<forall>t\<in>set (tq ! q). \<not> runnable t)"
proof -
  have "alive_in tq = {#} \<longleftrightarrow> (\<forall>l\<in>set tq. \<forall>t\<in>set l. \<not> runnable t)"
    by (auto simp: alive_in_def filter_mset_eq_conv runnable_def)
  then show ?thesis using tables_length [OF assms] by (metis in_set_conv_nth)
qed

lemma alive_upd_same:
  assumes "tables_ok tq" "unat q < 8" "unat p < 16" "ASID (f (tq ! unat q ! unat p)) = ASID (tq ! unat q ! unat p)"
  shows "alive_in (tq_upd q p f tq) = alive_in tq"
  using alive_upd [OF assms(1-3), of f] assms(4) by simp

lemma upd_curr_same:
  assumes "kern_ok s" "block_ok (f (cblk s))" "ASID (f (cblk s)) = ASID (cblk s)"
  shows "\<exists>s'. upd_curr f s = Inr s' \<and> kern_ok s' \<and> alive_in (task_queue s') = alive_in (task_queue s) \<and> cblk s' = f (cblk s)
    \<and> s' = s\<lparr>task_queue := task_queue s'\<rparr>"
  using upd_curr_ok [OF assms(1), of f] kern_ok_upd_curr [of s f, OF assms(1,2)] kern_okD [OF assms(1)] assms(3)
    alive_upd_same [of "task_queue s" "curr_queue s" "cpos s" f]
  by (intro exI [of _ "s\<lparr>task_queue := tq_upd (curr_queue s) (cpos s) f (task_queue s)\<rparr>"]) (simp add: cblk_def)

lemma select_and_load:
  assumes "kern_ok s" "alive_in (task_queue s) \<noteq> {#}"
  shows "\<exists>s'. select_queue 8 s = Inr s' \<and> kern_ok s' \<and> runnable (cblk s') \<and> task_queue s' = task_queue s \<and> time_slice s' = time_slice s
    \<and> pids s' = pids s \<and> kill_state s' = kill_state s
    \<and> (\<forall>j. unat (curr_queue s') < j \<and> j < 8 \<longrightarrow> (\<forall>t\<in>set (task_queue s ! j). \<not> runnable t))"
proof -
  note d = kern_okD [OF assms(1)]
  have "\<not> (\<forall>j<8. \<forall>t\<in>set (task_queue s ! j). \<not> runnable t)" using alive_empty [OF d(1)] assms(2) by simp
  then obtain i cp where i: "i < 8" "select_queue 8 s = Inr (s\<lparr>curr_proc := cp, curr_queue := of_nat i\<rparr>)" "length cp = 8" "unat (cp ! i) < 16"
    "runnable (task_queue s ! i ! unat (cp ! i))" "\<forall>j. i < j \<and> j < 8 \<longrightarrow> (\<forall>t\<in>set (task_queue s ! j). \<not> runnable t)"
    using select_queue_spec [OF d(1,2) order_refl] by auto
  have u: "unat (of_nat i :: u32) = i" using i(1) by (simp add: unat_of_nat take_bit_nat_eq_self)
  show ?thesis
    using i u assms(1)
    by (intro exI [of _ "s\<lparr>curr_proc := cp, curr_queue := of_nat i\<rparr>"]) (simp add: kern_ok_def cblk_def cpos_def)
qed

text \<open>The scheduler up to its choice: the running process is saved and moved, nothing else changes.\<close>

definition load_choice :: "regs \<Rightarrow> 'k kern \<Rightarrow> (regs \<times> 'k kern) res" where
  "load_choice c s = rbind (select_queue 8 s) (\<lambda>s. rbind (get_curr_pcb s) (\<lambda>t. rbind (rd (time_slice s) (priority t)) (\<lambda>slice.
     Inr (copy_context (ctx t) c, s\<lparr>cp0_compare := slice, cp0_count := time_left t\<rparr>))))"

lemma pc_schedule_front:
  assumes k: "kern_ok s"
  shows "\<exists>s3. pc_schedule c s = load_choice c s3 \<and> kern_ok s3 \<and> alive_in (task_queue s3) = alive_in (task_queue s)
    \<and> time_slice s3 = time_slice s \<and> pids s3 = pids s \<and> kill_state s3 = kill_state s"
proof -
  have b: "block_ok (cblk s)" using kern_okD(6) [OF k] .
  obtain s1 where s1: "upd_curr (\<lambda>t. t\<lparr>ctx := c, time_left := cp0_count s\<rparr>) s = Inr s1" "kern_ok s1"
    "alive_in (task_queue s1) = alive_in (task_queue s)" "s1 = s\<lparr>task_queue := task_queue s1\<rparr>"
    using upd_curr_same [OF k, of "\<lambda>t. t\<lparr>ctx := c, time_left := cp0_count s\<rparr>"] b by (auto simp: block_ok_def)
  have f1: "time_slice s1 = time_slice s" "pids s1 = pids s" "kill_state s1 = kill_state s" by (subst s1(4); simp)+
  let ?s2 = "s1\<lparr>cp0_count := 0\<rparr>"
  have k2: "kern_ok ?s2" using s1(2) by (simp add: kern_ok_def)
  note d2 = kern_okD [OF k2]
  let ?m = "if time_left (cblk ?s2) < cp0_compare s1
            then if curr_queue ?s2 \<ge> 4 \<and> curr_queue ?s2 \<noteq> 7 then move_task (curr_queue ?s2 + 1) c ?s2 else Inr ?s2
            else rbind (upd_curr (\<lambda>t. t\<lparr>time_left := 0\<rparr>) ?s2) (\<lambda>s.
              if curr_queue s > 4 then move_task (curr_queue s - 1) c s else Inr s)"
  have up: "unat (curr_queue s1 + 1) < 8" "curr_queue s1 + 1 \<noteq> curr_queue s1" if "curr_queue s1 \<noteq> 7"
  proof -
    have "unat (curr_queue s1) \<noteq> unat (7 :: u32)" using that by (simp only: word_unat_eq_iff) simp
    then have "unat (curr_queue s1) < 7" using d2(4) by simp
    then show "unat (curr_queue s1 + 1) < 8" by (subst unat_add_no_wrap) simp_all
  qed simp
  have down: "unat (curr_queue s1 - 1) < 8" "curr_queue s1 - 1 \<noteq> curr_queue s1" if "curr_queue s1 > 4"
  proof -
    have "0 < unat (curr_queue s1)" using that by (simp add: word_less_nat_alt)
    then show "unat (curr_queue s1 - 1) < 8" using d2(4) by (simp add: unat_pred)
  qed simp
  have "\<exists>s3. ?m = Inr s3 \<and> kern_ok s3 \<and> alive_in (task_queue s3) = alive_in (task_queue s) \<and> time_slice s3 = time_slice s \<and> pids s3 = pids s
    \<and> kill_state s3 = kill_state s"
  proof (cases "time_left (cblk ?s2) < cp0_compare s1")
    case True
    then show ?thesis
      using k2 s1(3) f1 move_task_spec [OF k2, of "curr_queue s1 + 1" c] up by (cases "curr_queue s1 \<ge> 4 \<and> curr_queue s1 \<noteq> 7") auto
  next
    case False
    obtain s3 where s3: "upd_curr (\<lambda>t. t\<lparr>time_left := 0\<rparr>) ?s2 = Inr s3" "kern_ok s3"
      "alive_in (task_queue s3) = alive_in (task_queue ?s2)" "s3 = ?s2\<lparr>task_queue := task_queue s3\<rparr>"
      using upd_curr_same [OF k2, of "\<lambda>t. t\<lparr>time_left := 0\<rparr>"] d2(6) by (auto simp: block_ok_def)
    have f3: "curr_queue s3 = curr_queue s1" "time_slice s3 = time_slice s" "pids s3 = pids s" "kill_state s3 = kill_state s"
      using f1 by (subst s3(4); simp)+
    show ?thesis
      using False s3(1-3) s1(3) f3 move_task_spec [OF s3(2), of "curr_queue s1 - 1" c] down by (cases "curr_queue s1 > 4") auto
  qed
  then show ?thesis
    using s1(1) get_curr_pcb_ok [OF k2] by (auto simp: pc_schedule_def load_choice_def Let_def)
qed

lemma pc_schedule_spec:
  assumes k: "kern_ok s" and a: "alive_in (task_queue s) \<noteq> {#}"
  shows "\<exists>c' s'. pc_schedule c s = Inr (c', s') \<and> kern_ok s' \<and> runnable (cblk s') \<and> c' = ctx (cblk s')
    \<and> alive_in (task_queue s') = alive_in (task_queue s)
    \<and> (\<forall>j. unat (curr_queue s') < j \<and> j < 8 \<longrightarrow> (\<forall>t\<in>set (task_queue s' ! j). \<not> runnable t))
    \<and> cp0_compare s' = time_slice s ! unat (priority (cblk s')) \<and> cp0_count s' = time_left (cblk s') \<and> pids s' = pids s
    \<and> kill_state s' = kill_state s"
proof -
  obtain s3 where s3: "pc_schedule c s = load_choice c s3" "kern_ok s3" "alive_in (task_queue s3) = alive_in (task_queue s)" "time_slice s3 = time_slice s"
    "pids s3 = pids s" "kill_state s3 = kill_state s" using pc_schedule_front [OF k, of c] by blast
  obtain s4 where s4: "select_queue 8 s3 = Inr s4" "kern_ok s4" "runnable (cblk s4)" "task_queue s4 = task_queue s3" "time_slice s4 = time_slice s3"
    "pids s4 = pids s3" "kill_state s4 = kill_state s3" "\<forall>j. unat (curr_queue s4) < j \<and> j < 8 \<longrightarrow> (\<forall>t\<in>set (task_queue s3 ! j). \<not> runnable t)"
    using select_and_load [OF s3(2)] s3(3) a by auto
  note d4 = kern_okD [OF s4(2)]
  let ?s5 = "s4\<lparr>cp0_compare := time_slice s ! unat (priority (cblk s4)), cp0_count := time_left (cblk s4)\<rparr>"
  have slice: "rd (time_slice s4) (priority (cblk s4)) = Inr (time_slice s ! unat (priority (cblk s4)))"
    using d4(3,6) s4(5) s3(4) by (simp add: block_ok_def)
  have "pc_schedule c s = Inr (ctx (cblk s4), ?s5)"
    using s3(1) s4(1) get_curr_pcb_ok [OF s4(2)] slice by (simp add: load_choice_def)
  moreover have "kern_ok ?s5" "cblk ?s5 = cblk s4" using s4(2) by (simp_all add: kern_ok_def cblk_def cpos_def)
  ultimately show ?thesis
    using s4 s3 by (intro exI [of _ "ctx (cblk s4)"] exI [of _ ?s5]) simp
qed

lemma pc_schedule_hang:
  assumes "kern_ok s" "alive_in (task_queue s) = {#}"
  shows "pc_schedule c s = Inl Hang"
proof -
  obtain s3 where s3: "pc_schedule c s = load_choice c s3" "kern_ok s3" "alive_in (task_queue s3) = {#}"
    using pc_schedule_front [OF assms(1), of c] assms(2) by auto
  note d = kern_okD [OF s3(2)]
  have none: "\<forall>j<8. \<forall>t\<in>set (task_queue s3 ! j). \<not> runnable t" using alive_empty [OF d(1)] s3(3) by simp
  have "\<not> (i < 8 \<and> unat p < 16 \<and> runnable (task_queue s3 ! i ! unat p))" for i and p :: u32
    using none tables_nth [OF d(1), of i] nth_mem [of "unat p" "task_queue s3 ! i"] by auto
  then have "select_queue 8 s3 = Inl Hang" using select_queue_spec [OF d(1,2) order_refl] by auto
  then show ?thesis using s3(1) by (simp add: load_choice_def)
qed

section \<open>Fork\<close>

lemma free_slot_found:
  assumes "tables_ok (task_queue s)" "unat q < 8" "t \<in> set (task_queue s ! unat q)" "free_slot t"
  obtains p where "find_slot free_slot (task_queue s ! unat q) 16 pos = Inr (True, p)" "unat p < 16"
    "free_slot (task_queue s ! unat q ! unat p)"
  using find_slot_all [OF tables_nth [OF assms(1,2)], of free_slot pos] assms(3,4) by blast

lemma do_fork_spec:
  fixes s :: "'k kern" and c :: regs
  defines "cur \<equiv> cblk s"
  assumes k: "kern_ok s" and run: "runnable cur" and len: "unat (priority cur) < 8"
    and slot: "t \<in> set (task_queue s ! unat (priority cur))" "free_slot t"
    and pid: "alloc_pidmap (pids s) = Inr (pid, ps)" and mal: "malloc 8192 (heap s) = Inr (ns, h)"
  shows "\<exists>c' s' pos. do_fork malloc c s = Inr (c', s') \<and> unat pos < 16 \<and> free_slot (task_queue s ! unat (priority cur) ! unat pos)
    \<and> ASID (task_queue s' ! unat (priority cur) ! unat pos) = pid
    \<and> PPID (task_queue s' ! unat (priority cur) ! unat pos) = ASID cur
    \<and> ctx (task_queue s' ! unat (priority cur) ! unat pos) = c'
    \<and> c' = c\<lparr>r_v1 := 0, r_sp := ns + (r_sp c - stack cur)\<rparr>
    \<and> ctx (task_queue s' ! unat (curr_queue s) ! unat (cpos s)) = c\<lparr>r_v1 := of_int pid\<rparr>
    \<and> (\<forall>q p. (q, p) \<noteq> (unat (priority cur), unat pos) \<and> (q, p) \<noteq> (unat (curr_queue s), unat (cpos s))
         \<longrightarrow> task_queue s' ! q ! p = task_queue s ! q ! p)
    \<and> curr_queue s' = curr_queue s \<and> cpos s' = pos \<and> mem s' = kernel_memcpy (mem s) ns (stack cur) 8192
    \<and> pids s' = ps \<and> kill_state s' = kill_state s \<and> cblk s' = task_queue s' ! unat (curr_queue s) ! unat pos
    \<and> kern_ok s' \<and> alive_in (task_queue s') = alive_in (task_queue s) + one_alive pid"
proof -
  note d = kern_okD [OF k]
  let ?q = "priority cur" and ?tq = "task_queue s" and ?cq = "curr_queue s" and ?cp = "cpos s"
  obtain p where p: "find_slot free_slot (?tq ! unat ?q) 16 (curr_proc s ! unat ?q) = Inr (True, p)" "unat p < 16"
    "free_slot (?tq ! unat ?q ! unat p)"
    using free_slot_found [OF d(1) len slot] by blast
  have rd: "rd (?tq) ?q = Inr (?tq ! unat ?q)" "rd (curr_proc s) ?q = Inr (curr_proc s ! unat ?q)"
    using len d(2) tables_length [OF d(1)] by simp_all
  have ne: "unat ?cq \<noteq> unat ?q \<or> unat ?cp \<noteq> unat p"
  proof (rule ccontr)
    assume "\<not> ?thesis"
    then have e: "unat ?q = unat ?cq" "unat p = unat ?cp" by simp_all
    have "?tq ! unat ?q ! unat p = ?tq ! unat ?cq ! unat ?cp" by (simp only: e)
    also have "\<dots> = cur" by (simp only: cur_def cblk_def)
    finally have "?tq ! unat ?q ! unat p = cur" .
    then show False using p(3) run by (simp add: free_slot_def runnable_def)
  qed
  have ne': "unat ?q \<noteq> unat ?cq \<or> unat p \<noteq> unat ?cp" using ne by auto
  let ?c1 = "c\<lparr>r_v1 := of_int pid\<rparr>"
  let ?f1 = "\<lambda>t. t\<lparr>ASID := pid\<rparr>" and ?f2 = "\<lambda>t. t\<lparr>ctx := ?c1\<rparr>"
  let ?t1 = "tq_upd ?q p ?f1 ?tq"
  let ?s1 = "s\<lparr>pids := ps, task_queue := ?t1\<rparr>"
  have b1: "block_ok (?tq ! unat ?q ! unat p)" using tables_block [OF d(1) len p(2)] .
  have t1: "tables_ok ?t1" using b1 by (intro tq_upd_tables d(1) len p(2)) (simp add: block_ok_def)
  have k1: "kern_ok ?s1" using k t1 by (simp add: kern_ok_def)
  have c1: "cblk ?s1 = cur" "cpos ?s1 = ?cp"
    using tq_upd_nth(2) [OF d(1) len p(2) ne] by (simp_all add: cblk_def cpos_def cur_def)
  have n1: "?t1 ! unat ?q ! unat p = ?f1 (?tq ! unat ?q ! unat p)" using tq_upd_nth(1) [OF d(1) len p(2)] .
  let ?t2 = "tq_upd ?cq ?cp ?f2 ?t1"
  let ?s2 = "?s1\<lparr>task_queue := ?t2\<rparr>"
  have u2: "upd_curr ?f2 ?s1 = Inr ?s2" using upd_curr_ok [OF k1, of ?f2] c1 by simp
  have k2: "kern_ok ?s2" "cblk ?s2 = ?f2 cur"
    using kern_ok_upd_curr [of ?s1 ?f2, OF k1] d(6) c1 by (simp_all add: cur_def block_ok_def)
  have t2: "tables_ok ?t2" using kern_okD(1) [OF k2(1)] by simp
  have n2: "?t2 ! unat ?q ! unat p = ?f1 (?tq ! unat ?q ! unat p)"
    using tq_upd_nth(2) [OF t1 d(4,5) ne', of ?f2] n1 by simp
  have p2: "?t2 ! unat ?cq ! unat ?cp = ?f2 cur"
    using tq_upd_nth(1) [OF t1 d(4,5), of ?f2] c1 by (simp add: cblk_def cpos_def)
  obtain nm where nm: "str_into (name (?tq ! unat ?q ! unat p)) (name cur) = Inr nm" "name_ok nm"
    using str_into_name b1 d(6) unfolding block_ok_def cur_def by blast
  let ?f3 = "\<lambda>t. t\<lparr>ctx := ?c1\<lparr>r_v1 := 0\<rparr>, priority := ?q, time_left := 0, name := nm, PPID := ASID cur\<rparr>"
  let ?t3 = "tq_upd ?q p ?f3 ?t2"
  have t3: "tables_ok ?t3" using nm(2) len by (intro tq_upd_tables t2 len p(2)) (simp add: block_ok_def)
  have n3: "?t3 ! unat ?q ! unat p = ?f3 (?f1 (?tq ! unat ?q ! unat p))" using tq_upd_nth(1) [OF t2 len p(2), of ?f3] n2 by simp
  let ?f4 = "\<lambda>t. t\<lparr>stack := ns\<rparr>"
  let ?t4 = "tq_upd ?q p ?f4 ?t3"
  have t4: "tables_ok ?t4" using tables_block [OF t3 len p(2)] by (intro tq_upd_tables t3 len p(2)) (simp add: block_ok_def)
  have n4: "?t4 ! unat ?q ! unat p = ?f4 (?f3 (?f1 (?tq ! unat ?q ! unat p)))" using tq_upd_nth(1) [OF t3 len p(2), of ?f4] n3 by simp
  have p4: "?t4 ! unat ?cq ! unat ?cp = ?f2 cur"
    using tq_upd_nth(2) [OF t3 len p(2) ne, of ?f4] tq_upd_nth(2) [OF t2 len p(2) ne, of ?f3] p2 by simp
  let ?s4 = "s\<lparr>pids := ps, heap := h, task_queue := ?t4\<rparr>"
  have k4: "kern_ok ?s4" using k t4 by (simp add: kern_ok_def)
  have c4: "cblk ?s4 = ?f2 cur" using p4 by (simp add: cblk_def cpos_def)
  let ?off = "r_sp c - stack cur"
  let ?f5 = "\<lambda>t. t\<lparr>ctx := (ctx t)\<lparr>r_sp := ns + ?off\<rparr>\<rparr>"
  let ?t5 = "tq_upd ?q p ?f5 ?t4"
  have t5: "tables_ok ?t5" using tables_block [OF t4 len p(2)] by (intro tq_upd_tables t4 len p(2)) (simp add: block_ok_def)
  have n5: "?t5 ! unat ?q ! unat p = ?f5 (?f4 (?f3 (?f1 (?tq ! unat ?q ! unat p))))" using tq_upd_nth(1) [OF t4 len p(2), of ?f5] n4 by simp
  have p5: "?t5 ! unat ?cq ! unat ?cp = ?f2 cur" using tq_upd_nth(2) [OF t4 len p(2) ne, of ?f5] p4 by simp
  let ?m = "kernel_memcpy (mem s) ns (stack cur) 8192"
  let ?s5 = "s\<lparr>pids := ps, heap := h, mem := ?m, task_queue := ?t5, curr_proc := (curr_proc s)[unat ?cq := p]\<rparr>"
  let ?c' = "c\<lparr>r_v1 := 0, r_sp := ns + ?off\<rparr>"
  have g: "get_curr_pcb s = Inr cur" using get_curr_pcb_ok [OF k] by (simp add: cur_def)
  have r: "do_fork malloc c s = Inr (?c', ?s5)"
    using rd p(1) pid mal g upd_pcb_ok [of "s\<lparr>pids := ps\<rparr>" ?q p ?f1] u2 get_curr_pcb_ok [OF k2(1)] pcb_at_ok [of ?s2 ?q p]
      upd_pcb_ok [of ?s2 ?q p ?f3] upd_pcb_ok [of "?s2\<lparr>task_queue := ?t3, heap := h\<rparr>" ?q p ?f4] get_curr_pcb_ok [OF k4]
      upd_pcb_ok [of "?s4\<lparr>mem := ?m\<rparr>" ?q p ?f5] pcb_at_ok [of ?s5 ?q p]
      d(1,2,4) len p(2) t2 t3 t4 t5 n2 n5 nm(1) k2(2) c4
    by (simp add: do_fork_def Let_def)
  have rest: "?t5 ! q ! i = ?tq ! q ! i" if "(q, i) \<noteq> (unat ?q, unat p)" "(q, i) \<noteq> (unat ?cq, unat ?cp)" for q i
    using tq_upd_nth(2) [OF t4 len p(2), of q i ?f5] tq_upd_nth(2) [OF t3 len p(2), of q i ?f4] tq_upd_nth(2) [OF t2 len p(2), of q i ?f3]
      tq_upd_nth(2) [OF t1 d(4,5), of q i ?f2] tq_upd_nth(2) [OF d(1) len p(2), of q i ?f1] that by auto
  have k5: "kern_ok ?s5" using k t5 p(2) d(2,4) by (simp add: kern_ok_def)
  have "alive_in ?t1 = alive_in ?tq + one_alive pid"
    using alive_upd [OF d(1) len p(2), of ?f1] p(3) by (simp add: one_alive_def free_slot_def)
  moreover have "alive_in ?t5 = alive_in ?t4" by (rule alive_upd_same [OF t4 len p(2)]) simp
  moreover have "alive_in ?t4 = alive_in ?t3" by (rule alive_upd_same [OF t3 len p(2)]) simp
  moreover have "alive_in ?t3 = alive_in ?t2" by (rule alive_upd_same [OF t2 len p(2)]) simp
  moreover have "alive_in ?t2 = alive_in ?t1" by (rule alive_upd_same [OF t1 d(4,5)]) simp
  ultimately have a5: "alive_in ?t5 = alive_in ?tq + one_alive pid" by (simp only:)
  show ?thesis
    using r p(2,3) n5 p5 rest d(2,4) k5 a5
    by (intro exI [of _ ?c'] exI [of _ ?s5] exI [of _ p] conjI) (simp_all add: cpos_def cblk_def)
qed

section \<open>Killing a process\<close>

lemma turn_index: "unat ((pos + of_nat j) AND 15) = turn pos j"
proof -
  have "unat (pos + of_nat j) = (unat pos + j) mod 2 ^ 32"
    by (simp add: unat_word_ariths unat_of_nat take_bit_eq_mod mod_add_right_eq)
  then have "unat (pos + of_nat j) mod 16 = (unat pos + j) mod 16" by (simp add: mod_mod_cancel)
  then show ?thesis by (simp add: unat_and_15 turn_def)
qed

definition slot_index :: "u32 \<times> u32 \<Rightarrow> nat \<times> nat" where
  "slot_index x = (unat (fst x), unat (snd x))"

lemma slot_index_inj: "inj slot_index"
  by (rule injI) (auto simp: slot_index_def word_unat_eq_iff)

lemma slots_all: "slot_index ` set (slots s) = {..<8} \<times> {..<16}" "distinct (slots s)"
proof -
  have u: "unat (of_nat i :: u32) = i" if "i < 8" for i using that by (simp add: unat_of_nat take_bit_nat_eq_self)
  show a: "slot_index ` set (slots s) = {..<8} \<times> {..<16}"
  proof (intro equalityI subsetI)
    fix x assume "x \<in> slot_index ` set (slots s)"
    then obtain i j where "i < 8" "x = slot_index (of_nat i, (curr_proc s ! i + of_nat j) AND 15)" by (auto simp: slots_def)
    then show "x \<in> {..<8} \<times> {..<16}" using u turn_index turn_less by (auto simp: slot_index_def)
  next
    fix x :: "nat \<times> nat" assume x: "x \<in> {..<8} \<times> {..<16}"
    then obtain j where j: "1 \<le> j" "j \<le> 16" "turn (curr_proc s ! fst x) j = snd x" 
      using turn_all [of "snd x" "curr_proc s ! fst x"] by auto
    have "x = slot_index (of_nat (fst x), (curr_proc s ! fst x + of_nat j) AND 15)"
      using x j(3) u turn_index by (auto simp: slot_index_def)
    moreover have "(of_nat (fst x), (curr_proc s ! fst x + of_nat j) AND 15) \<in> set (slots s)"
      using x j(1,2) by (auto simp: slots_def intro!: bexI [of _ "fst x"] image_eqI [of _ _ j])
    ultimately show "x \<in> slot_index ` set (slots s)" by blast
  qed
  have "card (set (slots s)) = card (slot_index ` set (slots s))"
    using slot_index_inj by (simp add: card_image inj_on_subset)
  also have "\<dots> = 128" unfolding a by simp
  moreover have "length (slots s) = 128" by (simp add: slots_def eval_nat_numeral)
  ultimately show "distinct (slots s)" by (intro card_distinct) simp
qed

definition blk_of :: "'k kern \<Rightarrow> u32 \<times> u32 \<Rightarrow> task_struct" where
  "blk_of s x = task_queue s ! unat (fst x) ! unat (snd x)"

definition killed :: "int \<Rightarrow> task_struct \<Rightarrow> task_struct" where
  "killed proc t = (if ASID t = proc then t\<lparr>ASID := -1\<rparr> else if PPID t = proc then t\<lparr>PPID := 0\<rparr> else t)"

lemma killed_ok: "block_ok t \<Longrightarrow> block_ok (killed proc t)"
  by (simp add: killed_def block_ok_def)

lemma kill_visit_spec:
  assumes "tables_ok (task_queue s)" "kill_state s \<noteq> 0" "unat q < 8" "unat p < 16" "pids_ok (pids s)"
    and "ASID (blk_of s (q, p)) = proc \<Longrightarrow> proc \<in> used (pids s)"
  shows "\<exists>ps. kill_visit rec proc (q, p) (flag, s)
      = Inr (flag \<or> ASID (blk_of s (q, p)) = proc, s\<lparr>pids := ps, task_queue := tq_upd q p (killed proc) (task_queue s)\<rparr>)
    \<and> pids_ok ps \<and> used ps = used (pids s) - (if ASID (blk_of s (q, p)) = proc then {proc} else {})"
proof -
  let ?t = "task_queue s ! unat q ! unat p"
  have g: "pcb_at q p s = Inr ?t" using assms(1,3,4) by (rule pcb_at_ok)
  have up: "upd_pcb q p f (s\<lparr>pids := ps\<rparr>) = Inr (s\<lparr>pids := ps, task_queue := tq_upd q p f (task_queue s)\<rparr>)" for f ps
    using upd_pcb_ok [of "s\<lparr>pids := ps\<rparr>" q p f] assms(1,3,4) by simp
  have up0: "upd_pcb q p f s = Inr (s\<lparr>task_queue := tq_upd q p f (task_queue s)\<rparr>)" for f
    using upd_pcb_ok [of s q p f] assms(1,3,4) by simp
  have cong: "tq_upd q p f (task_queue s) = tq_upd q p (killed proc) (task_queue s)" if "f ?t = killed proc ?t" for f
    using that by (simp add: tq_upd_def)
  have id: "tq_upd q p (killed proc) (task_queue s) = task_queue s" if "killed proc ?t = ?t"
    using that by (simp add: tq_upd_def)
  consider (self) "ASID ?t = proc" | (child) "ASID ?t \<noteq> proc" "PPID ?t = proc" | (other) "ASID ?t \<noteq> proc" "PPID ?t \<noteq> proc" by blast
  then show ?thesis
  proof cases
    case self
    then have "proc \<in> used (pids s)" using assms(6) by (simp add: blk_of_def)
    then obtain ps where "free_pidmap proc (pids s) = Inr ps" "used ps = used (pids s) - {proc}" "pids_ok ps"
      using free_pidmap_spec [OF assms(5)] by blast
    then show ?thesis using g self up cong [of "\<lambda>t. t\<lparr>ASID := -1\<rparr>"]
      by (intro exI [of _ ps]) (simp add: kill_visit_def blk_of_def killed_def)
  next
    case child
    then show ?thesis using g up0 assms(2,5) cong [of "\<lambda>t. t\<lparr>PPID := 0\<rparr>"]
      by (intro exI [of _ "pids s"]) (simp add: kill_visit_def blk_of_def killed_def)
  next
    case other
    then show ?thesis using g assms(2,5) id
      by (intro exI [of _ "pids s"]) (simp add: kill_visit_def blk_of_def killed_def)
  qed
qed

lemma kill_all_spec:
  assumes "tables_ok (task_queue s)" "kill_state s \<noteq> 0" "pids_ok (pids s)" "distinct xs"
    and "\<And>x. x \<in> set xs \<Longrightarrow> unat (fst x) < 8 \<and> unat (snd x) < 16"
    and "\<And>x y. x \<in> set xs \<Longrightarrow> y \<in> set xs \<Longrightarrow> ASID (blk_of s x) = proc \<Longrightarrow> ASID (blk_of s y) = proc \<Longrightarrow> x = y"
    and "\<And>x. x \<in> set xs \<Longrightarrow> ASID (blk_of s x) = proc \<Longrightarrow> proc \<in> used (pids s)"
  shows "\<exists>s'. rfold (kill_visit rec proc) xs (flag, s) = Inr (flag \<or> (\<exists>x\<in>set xs. ASID (blk_of s x) = proc), s')
    \<and> tables_ok (task_queue s') \<and> pids_ok (pids s')
    \<and> used (pids s') = used (pids s) - (if \<exists>x\<in>set xs. ASID (blk_of s x) = proc then {proc} else {})
    \<and> (\<forall>x. blk_of s' x = (if x \<in> set xs then killed proc (blk_of s x) else blk_of s x))"
  using assms
proof (induction xs arbitrary: s flag)
  case (Cons x xs)
  obtain q p where x: "x = (q, p)" by (cases x)
  have qp: "unat q < 8" "unat p < 16" using Cons.prems(5) [of x] x by auto
  obtain ps where ps: "kill_visit rec proc x (flag, s)
      = Inr (flag \<or> ASID (blk_of s x) = proc, s\<lparr>pids := ps, task_queue := tq_upd q p (killed proc) (task_queue s)\<rparr>)"
    "pids_ok ps" "used ps = used (pids s) - (if ASID (blk_of s x) = proc then {proc} else {})"
    using kill_visit_spec [OF Cons.prems(1,2) qp Cons.prems(3), of proc rec flag] Cons.prems(7) [of x] unfolding x by auto
  let ?s = "s\<lparr>pids := ps, task_queue := tq_upd q p (killed proc) (task_queue s)\<rparr>"
  have t: "tables_ok (task_queue ?s)"
    using tables_block [OF Cons.prems(1) qp] by (simp add: tq_upd_tables [OF Cons.prems(1) qp] killed_ok)
  have bl: "blk_of ?s y = (if y = x then killed proc (blk_of s x) else blk_of s y)" for y
    using tq_upd_nth(1) [OF Cons.prems(1) qp, of "killed proc"]
      tq_upd_nth(2) [OF Cons.prems(1) qp, of "unat (fst y)" "unat (snd y)" "killed proc"]
    by (auto simp: blk_of_def x prod_eq_iff word_unat_eq_iff)
  have old: "blk_of ?s y = blk_of s y" if "y \<in> set xs" for y using that Cons.prems(4) bl by auto
  have "\<exists>s'. rfold (kill_visit rec proc) xs (flag \<or> ASID (blk_of s x) = proc, ?s)
      = Inr ((flag \<or> ASID (blk_of s x) = proc) \<or> (\<exists>x\<in>set xs. ASID (blk_of ?s x) = proc), s')
    \<and> tables_ok (task_queue s') \<and> pids_ok (pids s')
    \<and> used (pids s') = used (pids ?s) - (if \<exists>x\<in>set xs. ASID (blk_of ?s x) = proc then {proc} else {})
    \<and> (\<forall>y. blk_of s' y = (if y \<in> set xs then killed proc (blk_of ?s y) else blk_of ?s y))"
  proof (rule Cons.IH)
    fix y assume "y \<in> set xs" "ASID (blk_of ?s y) = proc"
    moreover from this have "y \<noteq> x" using Cons.prems(4) by auto
    ultimately show "proc \<in> used (pids ?s)" using Cons.prems(6) [of x y] Cons.prems(7) [of y] old ps(3) by auto
  qed (use t ps(2) Cons.prems old in auto)
  then obtain s' where s': "rfold (kill_visit rec proc) xs (flag \<or> ASID (blk_of s x) = proc, ?s)
      = Inr ((flag \<or> ASID (blk_of s x) = proc) \<or> (\<exists>x\<in>set xs. ASID (blk_of ?s x) = proc), s')"
    "tables_ok (task_queue s')" "pids_ok (pids s')"
    "used (pids s') = used (pids ?s) - (if \<exists>x\<in>set xs. ASID (blk_of ?s x) = proc then {proc} else {})"
    "\<forall>y. blk_of s' y = (if y \<in> set xs then killed proc (blk_of ?s y) else blk_of ?s y)" by blast
  have ex: "(\<exists>y\<in>set xs. ASID (blk_of ?s y) = proc) \<longleftrightarrow> (\<exists>y\<in>set xs. ASID (blk_of s y) = proc)" using old by simp
  show ?case
  proof (intro exI [of _ s'] conjI allI)
    show "rfold (kill_visit rec proc) (x # xs) (flag, s) = Inr (flag \<or> (\<exists>x\<in>set (x # xs). ASID (blk_of s x) = proc), s')"
      using ps(1) s'(1) ex by simp
    show "used (pids s') = used (pids s) - (if \<exists>x\<in>set (x # xs). ASID (blk_of s x) = proc then {proc} else {})"
      using s'(4) ps(3) ex by auto
    show "blk_of s' y = (if y \<in> set (x # xs) then killed proc (blk_of s y) else blk_of s y)" for y
      using s'(5) [rule_format, of y] bl [of y] Cons.prems(4) by (cases "y = x"; cases "y \<in> set xs"; simp)
  qed (use s'(2,3) in simp_all)
qed simp

lemma pc_kill_spec:
  fixes s :: "'k kern"
  assumes "tables_ok (task_queue s)" "kill_state s \<noteq> 0" "pids_ok (pids s)" "proc \<notin> {0, 1}"
    and "\<And>x y. x \<in> set (slots s) \<Longrightarrow> y \<in> set (slots s) \<Longrightarrow> ASID (blk_of s x) = proc \<Longrightarrow> ASID (blk_of s y) = proc \<Longrightarrow> x = y"
    and "\<And>x. x \<in> set (slots s) \<Longrightarrow> ASID (blk_of s x) = proc \<Longrightarrow> proc \<in> used (pids s)"
  shows "\<exists>s'. pc_kill fuel proc s = Inr (if \<exists>x\<in>set (slots s). ASID (blk_of s x) = proc then 2 else 3, s')
    \<and> tables_ok (task_queue s') \<and> pids_ok (pids s')
    \<and> used (pids s') = used (pids s) - (if \<exists>x\<in>set (slots s). ASID (blk_of s x) = proc then {proc} else {})
    \<and> (\<forall>x\<in>set (slots s). blk_of s' x = killed proc (blk_of s x))"
proof -
  have r: "unat (fst x) < 8 \<and> unat (snd x) < 16" if "x \<in> set (slots s)" for x
    using slots_all(1) [of s] that by (force simp: slot_index_def)
  define found where "found \<longleftrightarrow> (\<exists>x\<in>set (slots s). ASID (blk_of s x) = proc)"
  have body: "\<exists>s'. kill_body rec proc s = Inr (if found then 2 else 3, s') \<and> tables_ok (task_queue s') \<and> pids_ok (pids s')
    \<and> used (pids s') = used (pids s) - (if found then {proc} else {}) \<and> (\<forall>x\<in>set (slots s). blk_of s' x = killed proc (blk_of s x))"
    for rec :: "int \<Rightarrow> 'k kern \<Rightarrow> (int \<times> 'k kern) res"
  proof -
    have "\<exists>s'. rfold (kill_visit rec proc) (slots s) (False, s) = Inr (False \<or> (\<exists>x\<in>set (slots s). ASID (blk_of s x) = proc), s')
      \<and> tables_ok (task_queue s') \<and> pids_ok (pids s')
      \<and> used (pids s') = used (pids s) - (if \<exists>x\<in>set (slots s). ASID (blk_of s x) = proc then {proc} else {})
      \<and> (\<forall>x. blk_of s' x = (if x \<in> set (slots s) then killed proc (blk_of s x) else blk_of s x))"
      by (rule kill_all_spec [OF assms(1-3) slots_all(2)]) (use r assms(5,6) in blast)+
    then obtain s' where s': "rfold (kill_visit rec proc) (slots s) (False, s) = Inr (False \<or> found, s')"
      "tables_ok (task_queue s')" "pids_ok (pids s')" "used (pids s') = used (pids s) - (if found then {proc} else {})"
      "\<forall>x. blk_of s' x = (if x \<in> set (slots s) then killed proc (blk_of s x) else blk_of s x)"
      unfolding found_def by blast
    have "kill_body rec proc s = Inr (if found then 2 else 3, s')" using s'(1) assms(4) by (simp add: kill_body_def)
    moreover have "\<forall>x\<in>set (slots s). blk_of s' x = killed proc (blk_of s x)" using s'(5) by metis
    ultimately show ?thesis using s'(2-4) by blast
  qed
  show ?thesis unfolding found_def [symmetric] using body by (cases fuel) simp_all
qed

section \<open>Properties\<close>

definition demo_ctx :: regs where
  "demo_ctx = \<lparr>r_epc = 0, r_at = 0, r_v0 = 0, r_v1 = 0, r_a0 = 0, r_a1 = 0, r_a2 = 0, r_a3 = 0, r_t0 = 0, r_t1 = 0,
     r_t2 = 0, r_t3 = 0, r_t4 = 0, r_t5 = 0, r_t6 = 0, r_t7 = 0, r_s0 = 0, r_s1 = 0, r_s2 = 0, r_s3 = 0,
     r_s4 = 0, r_s5 = 0, r_s6 = 0, r_s7 = 0, r_t8 = 0, r_t9 = 0, r_hi = 0, r_lo = 0, r_gp = 0, r_sp = 0,
     r_fp = 0, r_ra = 0\<rparr>"

definition demo_block :: "int \<Rightarrow> int \<Rightarrow> u32 \<Rightarrow> task_struct" where
  "demo_block a pp pr = \<lparr>ctx = demo_ctx, ASID = a, PPID = pp, counter = 0, name = replicate 32 0, start_time = 0, time_left = 0,
     priority = pr, stack = 0\<rparr>"

text \<open>Init in queue 4, a process 2 with a child 3 in the queues 5 and 6.\<close>

definition demo_queue :: "task_struct \<Rightarrow> task_struct list" where
  "demo_queue t = t # replicate 15 (demo_block (-1) 0 0)"

definition demo_kern :: "unit kern" where
  "demo_kern = \<lparr>task_queue = replicate 4 (replicate 16 (demo_block (-1) 0 0))
      @ [demo_queue (demo_block 0 (-1) 4), demo_queue (demo_block 2 0 5), demo_queue (demo_block 3 2 6), replicate 16 (demo_block (-1) 0 0)],
     curr_proc = replicate 8 0, curr_queue = 5, time_slice = replicate 8 1000000, bits_map = replicate 8 0, kill_state = 1,
     pids = \<lparr>pid_map = \<lparr>nr_free = 32764, pid_page = (replicate 1024 0)[0 := 15]\<rparr>, last_pid = 3\<rparr>, cp0_count = 500, cp0_compare = 1000, cp0_status = 1, syscalls = replicate 256 None, interrupts = replicate 8 None,
     exceptions = replicate 32 None, gpio_led = 0, mem = (\<lambda>_. 0), heap = ()\<rparr>"

lemma demo_block_ok: "unat pr < 8 \<Longrightarrow> block_ok (demo_block a pp pr)"
  by (simp add: block_ok_def name_ok_def demo_block_def)

lemma demo_kern_ok: "kern_ok demo_kern"
  by (auto simp: kern_ok_def tables_ok_def demo_kern_def demo_queue_def demo_block_ok)

lemma demo_cblk: "cblk demo_kern = demo_block 2 0 5" "curr_queue demo_kern = 5" "cpos demo_kern = 0"
  by (simp_all add: cblk_def cpos_def demo_kern_def demo_queue_def nth_append)

lemma demo_alive: "alive_in (task_queue demo_kern) \<noteq> {#}"
proof -
  have "demo_block 2 0 5 \<in> set (task_queue demo_kern ! 5)" by (simp add: demo_kern_def demo_queue_def nth_append)
  moreover have "runnable (demo_block 2 0 5)" by (simp add: runnable_def demo_block_def)
  moreover have "(5 :: nat) < 8" by simp
  ultimately show ?thesis using alive_empty [OF kern_okD(1) [OF demo_kern_ok]] by blast
qed

lemma demo_pids: "used (pids demo_kern) = {0, 1, 2, 3}" "pids_ok (pids demo_kern)"
proof -
  have m: "bit (15 :: u32) n \<longleftrightarrow> n < 4" for n
  proof -
    have "(15 :: u32) = mask 4" by (simp add: mask_eq_exp_minus_1)
    then show ?thesis by (simp only: bit_mask_iff) auto
  qed
  have b: "pid_bit ((replicate 1024 0)[0 := 15]) i \<longleftrightarrow> i < 4" if i: "0 \<le> i" "i < 32768" for i
  proof (cases "i < 32")
    case True
    then have "nat (i div 32) = 0" "i mod 32 = i" using i by simp_all
    then show ?thesis using m [of "nat i"] i True by (simp add: pid_bit_def nat_less_iff)
  next
    case False
    then have "nat (i div 32) \<noteq> 0" "nat (i div 32) < 1024" using word_at_index [OF i] by auto
    then show ?thesis using False by (simp add: pid_bit_def)
  qed
  have "i \<in> {0, 1, 2, 3} \<longleftrightarrow> 0 \<le> i \<and> i < 4" for i :: int by auto
  then show u: "used (pids demo_kern) = {0, 1, 2, 3}" using b by (auto simp: used_def demo_kern_def)
  show "pids_ok (pids demo_kern)" unfolding pids_ok_def u by (simp add: demo_kern_def)
qed

text \<open>
  C4. The scheduler serves the highest priority: whatever the running process and the timer, as
  long as some process is alive \<^verbatim>\<open>pc_schedule\<close> returns the saved registers of a runnable process
  in the highest queue that has one, sets the timer to its slice, keeps the tables well formed,
  and no process is lost or doubled when it moves between the queues.
\<close>

theorem pc_schedule_highest:
  assumes "kern_ok s" "alive_in (task_queue s) \<noteq> {#}"
  shows "\<exists>c' s'. pc_schedule c s = Inr (c', s') \<and> kern_ok s' \<and> runnable (cblk s') \<and> c' = ctx (cblk s')
    \<and> alive_in (task_queue s') = alive_in (task_queue s)
    \<and> (\<forall>j. unat (curr_queue s') < j \<and> j < 8 \<longrightarrow> (\<forall>t\<in>set (task_queue s' ! j). \<not> runnable t))
    \<and> cp0_compare s' = time_slice s ! unat (priority (cblk s')) \<and> cp0_count s' = time_left (cblk s') \<and> pids s' = pids s"
  using pc_schedule_spec [OF assms, of c] by blast

theorem pc_schedule_highest_witness:
  "\<exists>c' s'. pc_schedule demo_ctx demo_kern = Inr (c', s') \<and> runnable (cblk s')"
  using pc_schedule_highest [OF demo_kern_ok demo_alive] by blast

text \<open>
  C37. Round robin: the search for the next process of a queue starts behind the position of
  the last one and takes the first runnable block in that order, so every block of the queue
  comes up within sixteen steps.
\<close>

theorem find_slot_round_robin:
  assumes "length l = 16"
  shows "(\<exists>p k. find_slot P l 16 pos = Inr (True, p) \<and> unat p = (unat pos + k) mod 16 \<and> 1 \<le> k \<and> k \<le> 16 \<and> P (l ! unat p)
       \<and> (\<forall>j. 1 \<le> j \<and> j < k \<longrightarrow> \<not> P (l ! ((unat pos + j) mod 16))))
    \<or> (\<exists>p. find_slot P l 16 pos = Inr (False, p) \<and> (\<forall>t\<in>set l. \<not> P t))"
  using find_slot_all [OF assms, of P pos] unfolding turn_def by blast

theorem find_slot_round_robin_witness:
  "\<exists>p. find_slot runnable (demo_queue (demo_block 2 0 5)) 16 3 = Inr (True, p)"
proof -
  have "length (demo_queue (demo_block 2 0 5)) = 16" "runnable (demo_block 2 0 5)" "demo_block 2 0 5 \<in> set (demo_queue (demo_block 2 0 5))"
    by (simp_all add: demo_queue_def demo_block_def runnable_def)
  then show ?thesis using find_slot_round_robin [of "demo_queue (demo_block 2 0 5)" runnable 3] by blast
qed

text \<open>
  C16. A fork whose parent runs in the queue of its own priority makes the child current: the
  registers returned are the child's, with 0 in \<^verbatim>\<open>v1\<close> and the stack pointer at the same offset
  in the new stack; the parent's block keeps the parent's registers with the child's identifier.
\<close>

theorem do_fork_child:
  assumes "kern_ok s" "runnable (cblk s)" "priority (cblk s) = curr_queue s"
    and "t \<in> set (task_queue s ! unat (curr_queue s))" "free_slot t"
    and "alloc_pidmap (pids s) = Inr (pid, ps)" "malloc 8192 (heap s) = Inr (ns, h)"
  shows "\<exists>c' s'. do_fork malloc c s = Inr (c', s') \<and> ASID (cblk s') = pid \<and> PPID (cblk s') = ASID (cblk s) \<and> ctx (cblk s') = c'
    \<and> c' = c\<lparr>r_v1 := 0, r_sp := ns + (r_sp c - stack (cblk s))\<rparr>
    \<and> ctx (task_queue s' ! unat (curr_queue s) ! unat (cpos s)) = c\<lparr>r_v1 := of_int pid\<rparr>"
proof -
  have len: "unat (priority (cblk s)) < 8" using kern_okD(4) [OF assms(1)] assms(3) by simp
  have t: "t \<in> set (task_queue s ! unat (priority (cblk s)))" using assms(3,4) by simp
  show ?thesis using do_fork_spec [of s t pid ps malloc ns h c, OF assms(1,2) len t assms(5-7)] assms(3)
    by (auto simp: cblk_def)
qed

text \<open>
  \<^verbatim>\<open>pc_create\<close>: one free block of the queue becomes the process, nothing else changes. The flag that
  asks for preemption is set when the creator is not init and the new process is in a higher queue.
\<close>

lemma pc_create_spec:
  assumes "kern_ok s" "ASID (cblk s) \<ge> 0" "unat prio < 8" "t \<in> set (task_queue s ! unat prio)" "free_slot t"
    and "0 \<in> set nm" "length nm \<le> 32"
  shows "\<exists>s' (p :: u32). pc_create asid func sp g nm prio s = Inr (ASID (cblk s) > 0 \<and> prio > curr_queue s, s') \<and> unat p < 16 \<and> free_slot (task_queue s ! unat prio ! unat p)
    \<and> s' = s\<lparr>task_queue := task_queue s'\<rparr> \<and> kern_ok s' \<and> cblk s' = cblk s
    \<and> alive_in (task_queue s') = alive_in (task_queue s) + one_alive asid
    \<and> (\<forall>i j. (i, j) \<noteq> (unat prio, unat p) \<longrightarrow> task_queue s' ! i ! j = task_queue s ! i ! j)
    \<and> (let b = task_queue s' ! unat prio ! unat p in ASID b = asid \<and> PPID b = ASID (cblk s) \<and> priority b = prio
         \<and> r_epc (ctx b) = func \<and> r_sp (ctx b) = sp \<and> takeWhile (\<lambda>c. c \<noteq> 0) (name b) = takeWhile (\<lambda>c. c \<noteq> 0) nm)"
proof -
  note d = kern_okD [OF assms(1)]
  let ?tq = "task_queue s"
  obtain p where p: "find_slot free_slot (?tq ! unat prio) 16 (curr_proc s ! unat prio) = Inr (True, p)" "unat p < 16"
    "free_slot (?tq ! unat prio ! unat p)"
    using free_slot_found [OF d(1) assms(3-5)] by blast
  let ?b = "?tq ! unat prio ! unat p"
  have b: "block_ok ?b" using tables_block [OF d(1) assms(3) p(2)] .
  have ne: "unat (curr_queue s) \<noteq> unat prio \<or> unat (cpos s) \<noteq> unat p"
  proof (rule ccontr)
    assume "\<not> ?thesis"
    then have "?b = cblk s" by (simp add: cblk_def)
    then show False using p(3) assms(2) by (simp add: free_slot_def)
  qed
  obtain nm' where nm': "str_into (name ?b) nm = Inr nm'" "length nm' = length (name ?b)" "0 \<in> set nm'"
    "takeWhile (\<lambda>c. c \<noteq> 0) nm' = takeWhile (\<lambda>c. c \<noteq> 0) nm"
    using str_into_spec [OF assms(6), of "name ?b"] assms(7) b by (auto simp: block_ok_def name_ok_def)
  let ?f = "\<lambda>t. t\<lparr>ctx := (ctx t)\<lparr>r_epc := func, r_sp := sp, r_gp := g\<rparr>, stack := sp - 8192, priority := prio, time_left := 0,
      name := nm', ASID := asid\<rparr>"
  let ?g = "\<lambda>t. t\<lparr>PPID := ASID (cblk s)\<rparr>"
  let ?t1 = "tq_upd prio p ?f ?tq"
  let ?t2 = "tq_upd prio p ?g ?t1"
  have t1: "tables_ok ?t1" using b nm'(2,3) assms(3)
    by (intro tq_upd_tables d(1) assms(3) p(2)) (simp add: block_ok_def name_ok_def)
  have t2: "tables_ok ?t2" using tables_block [OF t1 assms(3) p(2)] by (intro tq_upd_tables t1 assms(3) p(2)) (simp add: block_ok_def)
  have k: "kern_ok (s\<lparr>task_queue := ?t1\<rparr>)" "kern_ok (s\<lparr>task_queue := ?t2\<rparr>)" using assms(1) t1 t2 by (simp_all add: kern_ok_def)
  have o1: "?t1 ! i ! j = ?tq ! i ! j" if "(i, j) \<noteq> (unat prio, unat p)" for i j
    using tq_upd_nth(2) [OF d(1) assms(3) p(2), of i j ?f] that by auto
  have o2: "?t2 ! i ! j = ?tq ! i ! j" if "(i, j) \<noteq> (unat prio, unat p)" for i j
    using tq_upd_nth(2) [OF t1 assms(3) p(2), of i j ?g] o1 [OF that] that by auto
  have c: "cblk (s\<lparr>task_queue := ?t1\<rparr>) = cblk s" "cblk (s\<lparr>task_queue := ?t2\<rparr>) = cblk s"
    using o1 [of "unat (curr_queue s)" "unat (cpos s)"] o2 [of "unat (curr_queue s)" "unat (cpos s)"] ne
    by (auto simp: cblk_def cpos_def)
  have n: "?t2 ! unat prio ! unat p = ?g (?f ?b)"
    using tq_upd_nth(1) [OF t1 assms(3) p(2), of ?g] tq_upd_nth(1) [OF d(1) assms(3) p(2), of ?f] by simp
  have rd: "rd ?tq prio = Inr (?tq ! unat prio)" "rd (curr_proc s) prio = Inr (curr_proc s ! unat prio)"
    using assms(3) d(2) tables_length [OF d(1)] by simp_all
  have u2: "upd_pcb prio p ?g (s\<lparr>task_queue := ?t1\<rparr>) = Inr (s\<lparr>task_queue := ?t2\<rparr>)"
    using upd_pcb_ok [of "s\<lparr>task_queue := ?t1\<rparr>" prio p ?g] t1 assms(3) p(2) by simp
  have "alive_in ?t1 = alive_in ?tq + one_alive asid"
    using alive_upd [OF d(1) assms(3) p(2), of ?f] p(3) by (simp add: one_alive_def free_slot_def)
  then have a2: "alive_in ?t2 = alive_in ?tq + one_alive asid" by (simp add: alive_upd_same [OF t1 assms(3) p(2)])
  have "pc_create asid func sp g nm prio s = Inr (ASID (cblk s) > 0 \<and> prio > curr_queue s, s\<lparr>task_queue := ?t2\<rparr>)"
    using rd p(1) pcb_at_ok [OF d(1) assms(3) p(2)] nm'(1) upd_pcb_ok [OF d(1) assms(3) p(2), of ?f] u2
      get_curr_pcb_ok [OF k(1)] get_curr_pcb_ok [OF k(2)] c assms(2)
    by (simp add: pc_create_def)
  then show ?thesis using p(2,3) k(2) c(2) o2 n nm'(4) a2
    by (intro exI [of _ "s\<lparr>task_queue := ?t2\<rparr>"], intro exI [of _ p]) (simp add: Let_def)
qed

definition demo_malloc :: "u32 \<Rightarrow> unit \<Rightarrow> (u32 \<times> unit) res" where
  "demo_malloc n k = Inr (0x80500000, k)"

lemma demo_alloc_pid: obtains pid ps where "alloc_pidmap (pids demo_kern) = Inr (pid, ps)"
  using alloc_pidmap_spec [OF demo_pids(2)] by blast

theorem do_fork_child_witness:
  "\<exists>c' s'. do_fork demo_malloc demo_ctx demo_kern = Inr (c', s') \<and> r_v1 c' = 0 \<and> PPID (cblk s') = 2"
proof -
  obtain pid ps where a: "alloc_pidmap (pids demo_kern) = Inr (pid, ps)" by (rule demo_alloc_pid)
  have "runnable (cblk demo_kern)" "priority (cblk demo_kern) = curr_queue demo_kern" "ASID (cblk demo_kern) = 2"
    unfolding demo_cblk by (simp_all add: runnable_def demo_block_def)
  moreover have "demo_block (-1) 0 0 \<in> set (task_queue demo_kern ! unat (curr_queue demo_kern))"
    unfolding demo_cblk by (simp add: demo_kern_def demo_queue_def nth_append)
  moreover have "free_slot (demo_block (-1) 0 0)" by (simp add: free_slot_def demo_block_def)
  moreover have "demo_malloc 8192 (heap demo_kern) = Inr (0x80500000, heap demo_kern)" by (simp add: demo_malloc_def)
  ultimately show ?thesis
    using do_fork_child [OF demo_kern_ok _ _ _ _ a, of _ demo_malloc "0x80500000" "heap demo_kern" demo_ctx] by force
qed

text \<open>
  A process that was moved to another queue than that of its priority breaks \<^verbatim>\<open>do_fork\<close>: the
  child is put into the queue of the priority, but its position is recorded for the queue of the
  parent, so the block that counts as running afterwards is whatever stood there before, while
  the registers loaded are the child's.
\<close>

lemma do_fork_wrong_queue:
  assumes "kern_ok s" "runnable (cblk s)" "priority (cblk s) \<noteq> curr_queue s" "unat (priority (cblk s)) < 8"
    and "t \<in> set (task_queue s ! unat (priority (cblk s)))" "free_slot t"
    and "alloc_pidmap (pids s) = Inr (pid, ps)" "malloc 8192 (heap s) = Inr (ns, h)"
  shows "\<exists>c' s' pos. do_fork malloc c s = Inr (c', s') \<and> ctx (task_queue s' ! unat (priority (cblk s)) ! unat pos) = c'
    \<and> ASID (task_queue s' ! unat (priority (cblk s)) ! unat pos) = pid \<and> curr_queue s' = curr_queue s \<and> cpos s' = pos
    \<and> (pos \<noteq> cpos s \<longrightarrow> cblk s' = task_queue s ! unat (curr_queue s) ! unat pos)"
proof -
  obtain c' s' pos where f: "do_fork malloc c s = Inr (c', s')" "ASID (task_queue s' ! unat (priority (cblk s)) ! unat pos) = pid"
    "ctx (task_queue s' ! unat (priority (cblk s)) ! unat pos) = c'"
    "\<forall>q p. (q, p) \<noteq> (unat (priority (cblk s)), unat pos) \<and> (q, p) \<noteq> (unat (curr_queue s), unat (cpos s))
         \<longrightarrow> task_queue s' ! q ! p = task_queue s ! q ! p"
    "curr_queue s' = curr_queue s" "cpos s' = pos"
    using do_fork_spec [of s t pid ps malloc ns h c, OF assms(1,2,4-8)] by blast
  have "unat (priority (cblk s)) \<noteq> unat (curr_queue s)" using assms(3) by (simp add: word_unat_eq_iff)
  then have "cblk s' = task_queue s ! unat (curr_queue s) ! unat pos" if "pos \<noteq> cpos s"
    using f(4) [rule_format, of "unat (curr_queue s)" "unat pos"] that f(5,6) by (simp add: cblk_def word_unat_eq_iff)
  then show ?thesis using f by blast
qed

definition moved_kern :: "unit kern" where
  "moved_kern = demo_kern\<lparr>curr_queue := 6\<rparr>"

lemma do_fork_wrong_queue_witness:
  "\<exists>c' s' pos. do_fork demo_malloc demo_ctx (moved_kern\<lparr>task_queue := (task_queue demo_kern)[6 := demo_queue (demo_block 3 2 4)]\<rparr>) = Inr (c', s')
     \<and> cpos s' = pos"
proof -
  let ?s = "moved_kern\<lparr>task_queue := (task_queue demo_kern)[6 := demo_queue (demo_block 3 2 4)]\<rparr>"
  obtain pid ps where "alloc_pidmap (pids demo_kern) = Inr (pid, ps)" by (rule demo_alloc_pid)
  then have a: "alloc_pidmap (pids ?s) = Inr (pid, ps)" by (simp add: moved_kern_def)
  have k: "kern_ok ?s" by (auto simp: kern_ok_def tables_ok_def moved_kern_def demo_kern_def demo_queue_def demo_block_ok list_update_append)
  have b: "cblk ?s = demo_block 3 2 4" by (simp add: cblk_def cpos_def moved_kern_def demo_kern_def demo_queue_def nth_append list_update_append)
  have h: "runnable (cblk ?s)" "priority (cblk ?s) \<noteq> curr_queue ?s" "unat (priority (cblk ?s)) < 8"
    unfolding b by (simp_all add: runnable_def demo_block_def moved_kern_def)
  have "demo_block (-1) 0 0 \<in> set (task_queue ?s ! unat (priority (cblk ?s)))"
    unfolding b by (simp add: demo_block_def moved_kern_def demo_kern_def demo_queue_def nth_append list_update_append)
  moreover have "free_slot (demo_block (-1) 0 0)" by (simp add: free_slot_def demo_block_def)
  moreover have "demo_malloc 8192 (heap ?s) = Inr (0x80500000, heap ?s)" by (simp add: demo_malloc_def)
  ultimately show ?thesis using do_fork_wrong_queue [OF k h _ _ a, of _ demo_malloc "0x80500000" "heap ?s" demo_ctx] by blast
qed

text \<open>
  C17. \<^verbatim>\<open>pc_kill\<close> in the mode that hands orphans to init, for an identifier held by at most one
  block: that block is freed, its identifier is given back, every child gets parent 0, nothing
  else changes, and the result tells whether the process existed.
\<close>

theorem pc_kill_reparents:
  assumes "tables_ok (task_queue s)" "kill_state s \<noteq> 0" "pids_ok (pids s)" "proc \<notin> {0, 1}"
    and "\<And>x y. x \<in> set (slots s) \<Longrightarrow> y \<in> set (slots s) \<Longrightarrow> ASID (blk_of s x) = proc \<Longrightarrow> ASID (blk_of s y) = proc \<Longrightarrow> x = y"
    and "\<And>x. x \<in> set (slots s) \<Longrightarrow> ASID (blk_of s x) = proc \<Longrightarrow> proc \<in> used (pids s)"
  shows "\<exists>s'. pc_kill fuel proc s = Inr (if \<exists>x\<in>set (slots s). ASID (blk_of s x) = proc then 2 else 3, s')
    \<and> tables_ok (task_queue s') \<and> pids_ok (pids s')
    \<and> used (pids s') = used (pids s) - (if \<exists>x\<in>set (slots s). ASID (blk_of s x) = proc then {proc} else {})
    \<and> (\<forall>x\<in>set (slots s). blk_of s' x = killed proc (blk_of s x))"
  using assms by (rule pc_kill_spec)

lemma demo_asid:
  assumes "q < 8" "p < 16"
  shows "ASID (task_queue demo_kern ! q ! p) = (if p = 0 \<and> q = 4 then 0 else if p = 0 \<and> q = 5 then 2 else if p = 0 \<and> q = 6 then 3 else -1)"
proof -
  have e: "ASID (replicate 16 (demo_block (-1) 0 0) ! p) = -1" using assms(2) by (simp add: demo_block_def)
  have d: "ASID (demo_queue (demo_block a b pr) ! p) = (if p = 0 then a else -1)" for a b pr
    using assms(2) by (cases p) (simp_all add: demo_queue_def demo_block_def)
  have "q = 0 \<or> q = 1 \<or> q = 2 \<or> q = 3 \<or> q = 4 \<or> q = 5 \<or> q = 6 \<or> q = 7" using assms(1) by linarith
  then show ?thesis using e d by (elim disjE) (simp_all add: demo_kern_def nth_append)
qed

theorem pc_kill_reparents_witness:
  "\<exists>s'. pc_kill 0 2 demo_kern = Inr (2, s') \<and> used (pids s') = {0, 1, 3}"
proof -
  have at: "slot_index x = (5, 0)" if "x \<in> set (slots demo_kern)" "ASID (blk_of demo_kern x) = 2" for x
  proof -
    have "slot_index x \<in> {..<8} \<times> {..<16}" using that(1) slots_all(1) [of demo_kern] by blast
    then have "unat (fst x) < 8" "unat (snd x) < 16" by (simp_all add: slot_index_def)
    then show ?thesis using demo_asid [of "unat (fst x)" "unat (snd x)"] that(2)
      by (simp add: blk_of_def slot_index_def split: if_splits)
  qed
  obtain x where x: "x \<in> set (slots demo_kern)" "slot_index x = (5, 0)"
  proof -
    have "(5, 0) \<in> slot_index ` set (slots demo_kern)" unfolding slots_all(1) by simp
    then obtain y where y: "(5, 0) = slot_index y" "y \<in> set (slots demo_kern)" by (rule imageE)
    show thesis by (rule that [OF y(2) y(1) [symmetric]])
  qed
  have ex: "\<exists>x\<in>set (slots demo_kern). ASID (blk_of demo_kern x) = 2"
    using x demo_asid [of 5 0] by (intro bexI [of _ x]) (simp_all add: blk_of_def slot_index_def)
  have one: "x = y" if "x \<in> set (slots demo_kern)" "y \<in> set (slots demo_kern)" "ASID (blk_of demo_kern x) = 2" "ASID (blk_of demo_kern y) = 2" for x y
    using at that slot_index_inj by (metis injD)
  have k: "kill_state demo_kern \<noteq> 0" by (simp add: demo_kern_def)
  have n: "(2 :: int) \<notin> {0, 1}" by simp
  have u: "2 \<in> used (pids demo_kern)" unfolding demo_pids(1) by simp
  have "\<exists>s'. pc_kill 0 2 demo_kern = Inr (if \<exists>x\<in>set (slots demo_kern). ASID (blk_of demo_kern x) = 2 then 2 else 3, s')
    \<and> tables_ok (task_queue s') \<and> pids_ok (pids s')
    \<and> used (pids s') = used (pids demo_kern) - (if \<exists>x\<in>set (slots demo_kern). ASID (blk_of demo_kern x) = 2 then {2} else {})
    \<and> (\<forall>x\<in>set (slots demo_kern). blk_of s' x = killed 2 (blk_of demo_kern x))"
    by (rule pc_kill_reparents [OF kern_okD(1) [OF demo_kern_ok] k demo_pids(2) n]) (use one u in blast)+
  then show ?thesis using ex demo_pids(1) by auto
qed

end
