(* ===== verification/Trap.thy ===== *)
theory Trap
  imports PcThms Lock
begin

text \<open>
  How control reaches the process code: exceptions (\<^verbatim>\<open>arch/mips32/exc.c\<close>), interrupts
  (\<^verbatim>\<open>arch/mips32/intr.c\<close>) and system calls (\<^verbatim>\<open>kernel/syscall/syscall.c\<close>), with their tables of
  handlers, and what \<^verbatim>\<open>init_pc\<close> establishes for them. The \<^verbatim>\<open>status\<close> argument of
  the handlers is passed on and read by none of them.
\<close>

definition register_exception_handler :: "u32 \<Rightarrow> handler \<Rightarrow> 'k kern \<Rightarrow> 'k kern res" where
  "register_exception_handler index fn s = rbind (wr (exceptions s) (index AND 31) (Some fn)) (\<lambda>t. Inr (s\<lparr>exceptions := t\<rparr>))"

text \<open>\<^verbatim>\<open>init_exception\<close> also clears the Cause register, which the model does not keep.\<close>

definition init_exception :: "'k kern \<Rightarrow> 'k kern" where
  "init_exception s = s\<lparr>cp0_status := 0\<rparr>"

definition init_interrupts :: "'k kern \<Rightarrow> 'k kern" where
  "init_interrupts s = s\<lparr>cp0_status := cp0_status s OR 1\<rparr>"

definition init_syscall :: "'k kern \<Rightarrow> 'k kern res" where
  "init_syscall s = rbind (register_exception_handler 8 Syscall s) (register_syscall 4 Syscall4)"

definition syscall4 :: "regs \<Rightarrow> 'k kern \<Rightarrow> (regs \<times> 'k kern) res" where
  "syscall4 pt_context s = Inr (pt_context, s\<lparr>gpio_led := r_a0 pt_context\<rparr>)"

text \<open>\<^verbatim>\<open>run\<close> calls the function of a table entry.\<close>

definition syscall :: "(handler \<Rightarrow> regs \<Rightarrow> 'k kern \<Rightarrow> (regs \<times> 'k kern) res) \<Rightarrow> regs \<Rightarrow> 'k kern \<Rightarrow> (regs \<times> 'k kern) res" where
  "syscall run pt_context s =
     (let code = r_v0 pt_context; pt_context = pt_context\<lparr>r_epc := r_epc pt_context + 4\<rparr> in
      rbind (rd (syscalls s) code) (\<lambda>h. case h of None \<Rightarrow> Inr (pt_context, s) | Some h \<Rightarrow> run h pt_context s))"

text \<open>
  The functions behind the entries. A system call entry that leads back to \<^verbatim>\<open>syscall\<close> would
  recurse, so the depth is bounded; the kernel registers none. The keyboard handler works on the
  state of the driver (theory \<open>Ps2\<close>) and changes nothing here.
\<close>

primrec run_handler :: "nat \<Rightarrow> nat \<Rightarrow> (u32 \<Rightarrow> 'k \<Rightarrow> (u32 \<times> 'k) res) \<Rightarrow> handler \<Rightarrow> regs \<Rightarrow> 'k kern \<Rightarrow> (regs \<times> 'k kern) res" where
  "run_handler 0 fuel malloc = (\<lambda>h c s. Inl OutOfFuel)"
| "run_handler (Suc depth) fuel malloc = (\<lambda>h c s. case h of
     Pc_kill_syscall \<Rightarrow> pc_kill_syscall fuel c s
   | Pc_preempt_syscall \<Rightarrow> pc_preempt_syscall c s
   | Do_fork \<Rightarrow> do_fork malloc c s
   | Pc_schedule \<Rightarrow> pc_schedule c s
   | Syscall \<Rightarrow> syscall (run_handler depth fuel malloc) c s
   | Syscall4 \<Rightarrow> syscall4 c s
   | Ps2_handler \<Rightarrow> Inr (c, s))"

text \<open>An exception without a handler kills the process and then never returns.\<close>

definition do_exceptions :: "nat \<Rightarrow> (u32 \<Rightarrow> 'k \<Rightarrow> (u32 \<times> 'k) res) \<Rightarrow> u32 \<Rightarrow> regs \<Rightarrow> 'k kern \<Rightarrow> (regs \<times> 'k kern) res" where
  "do_exceptions fuel malloc cause pt_context s =
     (let index = drop_bit 2 cause AND 0x1f in
      rbind (rd (exceptions s) index) (\<lambda>h. case h of
        Some h \<Rightarrow> run_handler 2 fuel malloc h pt_context s
      | None \<Rightarrow> rbind (get_curr_pcb s) (\<lambda>_. rbind (pc_kill_syscall fuel pt_context s) (\<lambda>_. Inl Hang))))"

definition interrupt_round :: "nat \<Rightarrow> (u32 \<Rightarrow> 'k \<Rightarrow> (u32 \<times> 'k) res) \<Rightarrow> u32 \<Rightarrow> u32 \<times> regs \<times> 'k kern \<Rightarrow> (u32 \<times> regs \<times> 'k kern) res" where
  "interrupt_round fuel malloc i = (\<lambda>(index, c, s). rbind (rd (interrupts s) i) (\<lambda>h.
     rbind (case h of None \<Rightarrow> Inr (c, s) | Some h \<Rightarrow> if index AND 1 \<noteq> 0 then run_handler 2 fuel malloc h c s else Inr (c, s))
       (\<lambda>(c, s). Inr (drop_bit 1 index, c, s))))"

definition do_interrupts :: "nat \<Rightarrow> (u32 \<Rightarrow> 'k \<Rightarrow> (u32 \<times> 'k) res) \<Rightarrow> u32 \<Rightarrow> regs \<Rightarrow> 'k kern \<Rightarrow> (regs \<times> 'k kern) res" where
  "do_interrupts fuel malloc cause pt_context s =
     rbind (rfold (interrupt_round fuel malloc) [0, 1, 2, 3, 4, 5, 6, 7] (drop_bit 8 cause, pt_context, s)) (\<lambda>(_, c, s). Inr (c, s))"

section \<open>Which function a trap reaches\<close>

lemma and_31_word: "unat (w AND 31 :: u32) < 32"
proof -
  have "(31 :: u32) = mask 5" by (simp add: mask_eq_exp_minus_1)
  then have "w AND 31 = take_bit 5 w" by (simp only: take_bit_eq_mask)
  then have "unat (w AND 31) = take_bit 5 (unat w)" by (simp add: unsigned_take_bit_eq)
  then show ?thesis by (simp add: take_bit_nat_less_exp [of 5, simplified])
qed

lemma run_one [simp]:
  "run_handler 1 fuel malloc Pc_kill_syscall = pc_kill_syscall fuel" "run_handler 1 fuel malloc Pc_preempt_syscall = pc_preempt_syscall"
  "run_handler 1 fuel malloc Do_fork = do_fork malloc"
  by (simp_all add: One_nat_def del: One_nat_def [symmetric])

lemma run_two [simp]:
  "run_handler 2 fuel malloc Syscall = syscall (run_handler 1 fuel malloc)" "run_handler 2 fuel malloc Pc_schedule = pc_schedule"
  by (simp_all add: numeral_2_eq_2)

text \<open>The timer: with only the scheduler registered, at line 7, an interrupt on that line runs it once.\<close>

lemma timer_interrupt:
  assumes "interrupts s = (replicate 8 None)[7 := Some Pc_schedule]" "bit cause 15"
  shows "do_interrupts fuel malloc cause c s = pc_schedule c s"
proof -
  have r: "interrupt_round fuel malloc i (index, c, s) = Inr (drop_bit 1 index, c, s)" if "unat i < 7" for i index
    using that assms(1) by (simp add: interrupt_round_def)
  have "drop_bit 15 cause AND 1 \<noteq> 0"
    using assms(2) by (simp add: bit_iff_odd_drop_bit odd_iff_mod_2_eq_one and_one_eq)
  then show ?thesis
    using assms(1) by (simp add: do_interrupts_def r)
      (simp add: interrupt_round_def rbind_def split: sum.split)
qed

section \<open>The start\<close>

lemma init_blocks:
  assumes "tables_ok (task_queue s)" "unat i < 8" "n \<le> 16"
  shows "\<exists>s'. rfold (\<lambda>j. upd_pcb i j (\<lambda>t. t\<lparr>ASID := -1\<rparr>)) (map of_nat [0..<n]) s = Inr s' \<and> tables_ok (task_queue s')
    \<and> (\<forall>p<n. ASID (task_queue s' ! unat i ! p) = -1) \<and> (\<forall>q. q \<noteq> unat i \<longrightarrow> task_queue s' ! q = task_queue s ! q)
    \<and> s' = s\<lparr>task_queue := task_queue s'\<rparr>"
  using assms(3)
proof (induction n)
  case (Suc n)
  then obtain s' where s': "rfold (\<lambda>j. upd_pcb i j (\<lambda>t. t\<lparr>ASID := -1\<rparr>)) (map of_nat [0..<n]) s = Inr s'" "tables_ok (task_queue s')"
    "\<forall>p<n. ASID (task_queue s' ! unat i ! p) = -1" "\<forall>q. q \<noteq> unat i \<longrightarrow> task_queue s' ! q = task_queue s ! q"
    "s' = s\<lparr>task_queue := task_queue s'\<rparr>" by auto
  let ?f = "\<lambda>t. t\<lparr>ASID := -1\<rparr>"
  have u: "unat (of_nat n :: u32) = n" using Suc(2) by (simp add: unat_of_nat take_bit_nat_eq_self)
  have n: "unat (of_nat n :: u32) < 16" using Suc(2) u by simp
  let ?t = "tq_upd i (of_nat n) ?f (task_queue s')"
  have "rfold (\<lambda>j. upd_pcb i j ?f) (map of_nat [0..<Suc n]) s = Inr (s'\<lparr>task_queue := ?t\<rparr>)"
    using s'(1) upd_pcb_ok [OF s'(2) assms(2) n, of ?f] by (simp add: rfold_append)
  moreover have "tables_ok ?t"
    using tables_block [OF s'(2) assms(2) n] by (intro tq_upd_tables s'(2) assms(2) n) (simp add: block_ok_def)
  moreover have "ASID (?t ! unat i ! p) = -1" if "p < Suc n" for p
    using tq_upd_nth(1) [OF s'(2) assms(2) n, of ?f] tq_upd_nth(2) [OF s'(2) assms(2) n, of "unat i" p ?f] s'(3) that u
    by (cases "p = n") auto
  moreover have "?t ! q = task_queue s ! q" if "q \<noteq> unat i" for q
    using s'(4) that by (simp add: tq_upd_def)
  moreover have "s'\<lparr>task_queue := ?t\<rparr> = s\<lparr>task_queue := ?t\<rparr>" by (subst s'(5)) simp
  ultimately show ?case by (intro exI [of _ "s'\<lparr>task_queue := ?t\<rparr>"]) auto
qed (use assms(1) in simp)

lemma init_queue_spec:
  assumes "tables_ok (task_queue s)" "length (curr_proc s) = 8" "length (time_slice s) = 8" "length (bits_map s) = 8" "unat i < 8"
  shows "\<exists>s'. init_queue i s = Inr s' \<and> tables_ok (task_queue s') \<and> (\<forall>p<16. ASID (task_queue s' ! unat i ! p) = -1)
    \<and> (\<forall>q. q \<noteq> unat i \<longrightarrow> task_queue s' ! q = task_queue s ! q)
    \<and> s' = s\<lparr>task_queue := task_queue s', curr_proc := (curr_proc s)[unat i := -1], time_slice := (time_slice s)[unat i := 1000000 * (10 - i)],
         bits_map := (bits_map s)[unat i := 0]\<rparr>"
proof -
  obtain s1 where s1: "rfold (\<lambda>j. upd_pcb i j (\<lambda>t. t\<lparr>ASID := -1\<rparr>)) (map of_nat [0..<16]) s = Inr s1" "tables_ok (task_queue s1)"
    "\<forall>p<16. ASID (task_queue s1 ! unat i ! p) = -1" "\<forall>q. q \<noteq> unat i \<longrightarrow> task_queue s1 ! q = task_queue s ! q"
    "s1 = s\<lparr>task_queue := task_queue s1\<rparr>"
    using init_blocks [OF assms(1,5) order_refl] by blast
  have f: "curr_proc s1 = curr_proc s" "time_slice s1 = time_slice s" "bits_map s1 = bits_map s"
    using arg_cong [OF s1(5), of curr_proc] arg_cong [OF s1(5), of time_slice] arg_cong [OF s1(5), of bits_map] by simp_all
  let ?s = "s1\<lparr>curr_proc := (curr_proc s)[unat i := -1], time_slice := (time_slice s)[unat i := 1000000 * (10 - i)],
      bits_map := (bits_map s)[unat i := 0]\<rparr>"
  have "init_queue i s = Inr ?s" using s1(1) f assms by (simp add: init_queue_def)
  moreover have "?s = s\<lparr>task_queue := task_queue s1, curr_proc := (curr_proc s)[unat i := -1],
      time_slice := (time_slice s)[unat i := 1000000 * (10 - i)], bits_map := (bits_map s)[unat i := 0]\<rparr>"
    by (subst s1(5)) simp
  ultimately show ?thesis using s1(2-4) by (intro exI [of _ ?s]) simp
qed

lemma init_queues:
  assumes "tables_ok (task_queue s)" "length (curr_proc s) = 8" "length (time_slice s) = 8" "length (bits_map s) = 8" "n \<le> 8"
  shows "\<exists>s'. rfold init_queue (map of_nat [0..<n]) s = Inr s' \<and> tables_ok (task_queue s') \<and> (\<forall>q<n. \<forall>p<16. ASID (task_queue s' ! q ! p) = -1)
    \<and> length (curr_proc s') = 8 \<and> length (time_slice s') = 8 \<and> length (bits_map s') = 8
    \<and> pids s' = pids s \<and> syscalls s' = syscalls s \<and> interrupts s' = interrupts s \<and> exceptions s' = exceptions s \<and> heap s' = heap s"
  using assms(5)
proof (induction n)
  case (Suc n)
  then obtain s' where s': "rfold init_queue (map of_nat [0..<n]) s = Inr s'" "tables_ok (task_queue s')"
    "\<forall>q<n. \<forall>p<16. ASID (task_queue s' ! q ! p) = -1" "length (curr_proc s') = 8" "length (time_slice s') = 8" "length (bits_map s') = 8"
    "pids s' = pids s" "syscalls s' = syscalls s" "interrupts s' = interrupts s" "exceptions s' = exceptions s" "heap s' = heap s" by auto
  have u: "unat (of_nat n :: u32) = n" using Suc(2) by (simp add: unat_of_nat take_bit_nat_eq_self)
  have n: "unat (of_nat n :: u32) < 8" using Suc(2) u by simp
  obtain s2 where s2: "init_queue (of_nat n) s' = Inr s2" "tables_ok (task_queue s2)" "\<forall>p<16. ASID (task_queue s2 ! n ! p) = -1"
    "\<forall>q. q \<noteq> n \<longrightarrow> task_queue s2 ! q = task_queue s' ! q"
    "s2 = s'\<lparr>task_queue := task_queue s2, curr_proc := (curr_proc s')[n := -1], time_slice := (time_slice s')[n := 1000000 * (10 - of_nat n)],
       bits_map := (bits_map s')[n := 0]\<rparr>"
    using init_queue_spec [OF s'(2,4-6) n] unfolding u by blast
  have g: "length (curr_proc s2) = 8" "length (time_slice s2) = 8" "length (bits_map s2) = 8" "pids s2 = pids s" "syscalls s2 = syscalls s"
    "interrupts s2 = interrupts s" "exceptions s2 = exceptions s" "heap s2 = heap s"
    using s'(4-11) by (subst s2(5); simp)+
  have "ASID (task_queue s2 ! q ! p) = -1" if "q < Suc n" "p < 16" for q p
    using that s2(3,4) s'(3) by (cases "q = n") auto
  then show ?case using s'(1) s2(1,2) g by (simp add: rfold_append)
qed (use assms in simp)

lemma c_string_ok: "0 \<in> set (c_string xs)" "length (c_string xs) = length xs + 1"
  by (simp_all add: c_string_def)

text \<open>
  \<^verbatim>\<open>init_pc\<close> on cleared tables establishes the invariant the scheduler needs: the arrays have
  their shape, init has identifier 0 and is the current process in queue 4, every other block is
  free, and kill, preemption, fork and the timer are registered.
\<close>

lemma init_pc_spec:
  assumes "tables_ok (task_queue s)" "length (curr_proc s) = 8" "length (time_slice s) = 8" "length (bits_map s) = 8"
    "length (syscalls s) = 256" "length (interrupts s) = 8" "pids s = init_pid ps"
  shows "\<exists>s'. init_pc s = Inr s' \<and> kern_ok s' \<and> ASID (cblk s') = 0 \<and> curr_queue s' = 4 \<and> pids_ok (pids s') \<and> used (pids s') = {0}
    \<and> last_pid (pids s') = 0 \<and> (\<forall>q<8. \<forall>p<16. (q, p) \<noteq> (4, 0) \<longrightarrow> free_slot (task_queue s' ! q ! p))
    \<and> interrupts s' = (interrupts s)[7 := Some Pc_schedule] \<and> exceptions s' = exceptions s \<and> heap s' = heap s
    \<and> syscalls s' = (syscalls s)[10 := Some Pc_kill_syscall, 11 := Some Pc_preempt_syscall, 12 := Some Do_fork]
    \<and> kill_state s' = 1 \<and> alive_in (task_queue s') = {#}"
proof -
  obtain s1 where s1: "rfold init_queue (map of_nat [0..<8]) s = Inr s1" "tables_ok (task_queue s1)"
    "\<forall>q<8. \<forall>p<16. ASID (task_queue s1 ! q ! p) = -1" "length (curr_proc s1) = 8" "length (time_slice s1) = 8" "length (bits_map s1) = 8"
    "pids s1 = pids s" "syscalls s1 = syscalls s" "interrupts s1 = interrupts s" "exceptions s1 = exceptions s" "heap s1 = heap s"
    using init_queues [OF assms(1-4) order_refl] by blast
  obtain ps' where a: "alloc_pidmap (pids s1) = Inr (0, ps')" "used ps' = {0}" "pids_ok ps'" "last_pid ps' = 0"
  proof -
    have "pids_ok (pids s1)" "used (pids s1) = {}" "last_pid (pids s1) = -1" using s1(7) assms(7) init_pid_ok by simp_all
    then obtain pid ps' where p: "alloc_pidmap (pids s1) = Inr (pid, ps')" "0 \<le> pid" "{0..<pid} \<subseteq> {}" "used ps' = {pid}" "pids_ok ps'" "last_pid ps' = pid"
      using alloc_pidmap_spec [of "pids s1"] by auto
    then have "pid = 0" by (cases "pid = 0") auto
    then show thesis using p that by blast
  qed
  have q4: "unat (4 :: u32) < 8" "unat (0 :: u32) < 16" by simp_all
  let ?t = "task_queue s1 ! 4 ! 0"
  have b: "block_ok ?t" using tables_block [OF s1(2), of 4 0] by simp
  have g: "pcb_at 4 0 s1 = Inr ?t" using pcb_at_ok [OF s1(2) q4] by simp
  have nm_len: "length (c_string ''init'') \<le> length (name ?t)" using b by (simp add: c_string_ok block_ok_def name_ok_def)
  obtain nm where nm: "str_into (name ?t) (c_string ''init'') = Inr nm" "length nm = length (name ?t)" "0 \<in> set nm"
    using str_into_spec [OF c_string_ok(1) nm_len] by blast
  let ?f = "\<lambda>t. t\<lparr>ASID := 0, PPID := -1, counter := PROC_DEFAULT_TIMESLOTS, priority := 4, name := nm\<rparr>"
  let ?tq = "tq_upd 4 0 ?f (task_queue s1)"
  have tq: "tables_ok ?tq" using b nm(2,3) by (intro tq_upd_tables s1(2) q4) (simp add: block_ok_def name_ok_def)
  have up: "upd_pcb 4 0 ?f (s1\<lparr>pids := ps'\<rparr>) = Inr (s1\<lparr>pids := ps', task_queue := ?tq\<rparr>)"
    using upd_pcb_ok [of "s1\<lparr>pids := ps'\<rparr>" 4 0 ?f] s1(2) q4 by simp
  let ?s = "s1\<lparr>pids := ps', task_queue := ?tq, curr_proc := (curr_proc s1)[4 := 0], curr_queue := 4, kill_state := 1,
      syscalls := (syscalls s)[10 := Some Pc_kill_syscall, 11 := Some Pc_preempt_syscall, 12 := Some Do_fork],
      interrupts := (interrupts s)[7 := Some Pc_schedule], cp0_status := cp0_status s1 OR push_bit 15 1,
      cp0_compare := 10000000, cp0_count := 0\<rparr>"
  have r: "init_pc s = Inr ?s"
    using s1(1,4,8,9) a(1) g nm(1) up assms(5,6)
    by (simp add: init_pc_def register_syscall_def register_interrupt_handler_def Let_def)
  have n4: "?tq ! 4 ! 0 = ?f ?t" using tq_upd_nth(1) [OF s1(2) q4, of ?f] by simp
  have k: "kern_ok ?s" "cblk ?s = ?f ?t"
    using tq s1(4,5) n4 by (simp_all add: kern_ok_def cblk_def cpos_def)
  have fr: "free_slot (?tq ! q ! p)" if "q < 8" "p < 16" "(q, p) \<noteq> (4, 0)" for q p
    using tq_upd_nth(2) [OF s1(2) q4, of q p ?f] s1(3) that by (auto simp: free_slot_def)
  have "\<not> runnable (?tq ! q ! p)" if "q < 8" "p < 16" for q p
    using fr [OF that] n4 by (cases "(q, p) = (4, 0)") (auto simp: free_slot_def runnable_def)
  then have "alive_in ?tq = {#}"
    using alive_empty [OF tq] tables_nth [OF tq] by (metis in_set_conv_nth)
  then show ?thesis
    using r k fr a(2-4) s1(10,11) by (intro exI [of _ ?s]) simp
qed

text \<open>
  C30. The traps after the start. \<^verbatim>\<open>init_syscall\<close> and \<^verbatim>\<open>init_pc\<close>, on cleared tables, make every later system call
  instruction, exception code 8, do the following, whatever the state of the processes, with the program
  counter moved behind the instruction: number 4 in \<^verbatim>\<open>v0\<close> sets the lights to \<^verbatim>\<open>a0\<close>, 10 ends the process, 11
  schedules, 12 forks; every other number up to 255 does nothing; a number from 256 on is not checked and
  leaves the array. Every other exception never returns.
\<close>

theorem syscall_dispatch:
  fixes s :: "'k kern"
  assumes "tables_ok (task_queue s)" "length (curr_proc s) = 8" "length (time_slice s) = 8" "length (bits_map s) = 8"
    and "syscalls s = replicate 256 None" "exceptions s = replicate 32 None" "length (interrupts s) = 8" "pids s = init_pid ps"
  shows "\<exists>s'. rbind (init_syscall s) init_pc = Inr s' \<and> (\<forall>(k :: 'k kern) c cause. syscalls k = syscalls s' \<and> exceptions k = exceptions s' \<longrightarrow>
    (if drop_bit 2 cause AND 0x1f = 8 then
       let c' = c\<lparr>r_epc := r_epc c + 4\<rparr> in do_exceptions fuel malloc cause c k =
         (if r_v0 c = 4 then Inr (c', k\<lparr>gpio_led := r_a0 c\<rparr>)
          else if r_v0 c = 10 then pc_kill_syscall fuel c' k
          else if r_v0 c = 11 then pc_schedule c' k
          else if r_v0 c = 12 then do_fork malloc c' k
          else if unat (r_v0 c) < 256 then Inr (c', k)
          else Inl Fault)
     else \<forall>r. do_exceptions fuel malloc cause c k \<noteq> Inr r))"
proof -
  let ?s = "s\<lparr>exceptions := (exceptions s)[8 := Some Syscall], syscalls := (syscalls s)[4 := Some Syscall4]\<rparr>"
  have i: "init_syscall s = Inr ?s"
    using assms(5,6) by (simp add: init_syscall_def register_exception_handler_def register_syscall_def)
  have p: "tables_ok (task_queue ?s)" "length (curr_proc ?s) = 8" "length (time_slice ?s) = 8" "length (bits_map ?s) = 8"
    "length (syscalls ?s) = 256" "length (interrupts ?s) = 8" "pids ?s = init_pid ps" using assms by simp_all
  obtain s' where s': "init_pc ?s = Inr s'" "exceptions s' = exceptions ?s"
    "syscalls s' = (syscalls ?s)[10 := Some Pc_kill_syscall, 11 := Some Pc_preempt_syscall, 12 := Some Do_fork]"
    using init_pc_spec [OF p] by blast
  have t: "syscalls s' = (replicate 256 None)[4 := Some Syscall4, 10 := Some Pc_kill_syscall, 11 := Some Pc_preempt_syscall, 12 := Some Do_fork]"
    "exceptions s' = (replicate 32 None)[8 := Some Syscall]" unfolding s' by (simp_all add: assms(5,6))
  show ?thesis
  proof (intro exI [of _ s'] conjI allI impI)
    show "rbind (init_syscall s) init_pc = Inr s'" using i s'(1) by simp
    fix k :: "'k kern" and c cause
    assume "syscalls k = syscalls s' \<and> exceptions k = exceptions s'"
    then have k: "syscalls k = (replicate 256 None)[4 := Some Syscall4, 10 := Some Pc_kill_syscall, 11 := Some Pc_preempt_syscall, 12 := Some Do_fork]"
      "exceptions k = (replicate 32 None)[8 := Some Syscall]" using t by simp_all
    show "if drop_bit 2 cause AND 0x1f = 8 then
       let c' = c\<lparr>r_epc := r_epc c + 4\<rparr> in do_exceptions fuel malloc cause c k =
         (if r_v0 c = 4 then Inr (c', k\<lparr>gpio_led := r_a0 c\<rparr>)
          else if r_v0 c = 10 then pc_kill_syscall fuel c' k
          else if r_v0 c = 11 then pc_schedule c' k
          else if r_v0 c = 12 then do_fork malloc c' k
          else if unat (r_v0 c) < 256 then Inr (c', k)
          else Inl Fault)
     else \<forall>r. do_exceptions fuel malloc cause c k \<noteq> Inr r"
    proof (cases "drop_bit 2 cause AND 0x1f = 8")
      case True
      then have e: "do_exceptions fuel malloc cause c k = syscall (run_handler 1 fuel malloc) c k"
        using k(2) by (simp add: do_exceptions_def Let_def del: run_handler.simps)
      have u: "r_v0 c = 4 \<longleftrightarrow> unat (r_v0 c) = 4" "r_v0 c = 10 \<longleftrightarrow> unat (r_v0 c) = 10" "r_v0 c = 11 \<longleftrightarrow> unat (r_v0 c) = 11"
        "r_v0 c = 12 \<longleftrightarrow> unat (r_v0 c) = 12" by (simp_all add: word_unat_eq_iff)
      show ?thesis unfolding e using True k(1) by (simp add: u syscall_def Let_def rd_def nth_list_update pc_preempt_syscall_def syscall4_def)
    next
      case False
      then have "unat (drop_bit 2 cause AND 0x1f) \<noteq> 8" by (simp add: word_unat_eq_iff)
      then have "rd (exceptions k) (drop_bit 2 cause AND 0x1f) = Inr None" using and_31_word [of "drop_bit 2 cause"] k(2) by (simp add: rd_def nth_list_update)
      then show ?thesis using False by (auto simp: do_exceptions_def Let_def res_simps)
    qed
  qed
qed

definition demo_reset :: "unit kern" where
  "demo_reset = demo_kern\<lparr>exceptions := replicate 32 None, syscalls := replicate 256 None, interrupts := replicate 8 None,
     time_slice := replicate 8 0, bits_map := replicate 8 0, pids := init_pid (pids demo_kern)\<rparr>"

theorem syscall_dispatch_witness:
  "\<exists>s'. rbind (init_syscall demo_reset) init_pc = Inr s'
    \<and> do_exceptions 0 demo_malloc 32 (demo_ctx\<lparr>r_v0 := 4, r_a0 := 0xff\<rparr>) s' = Inr (demo_ctx\<lparr>r_v0 := 4, r_a0 := 0xff, r_epc := 4\<rparr>, s'\<lparr>gpio_led := 0xff\<rparr>)
    \<and> do_exceptions 0 demo_malloc 32 (demo_ctx\<lparr>r_v0 := 11\<rparr>) s' = pc_schedule (demo_ctx\<lparr>r_v0 := 11, r_epc := 4\<rparr>) s'"
proof -
  have h: "tables_ok (task_queue demo_reset)" "length (curr_proc demo_reset) = 8" "length (time_slice demo_reset) = 8" "length (bits_map demo_reset) = 8"
    "syscalls demo_reset = replicate 256 None" "exceptions demo_reset = replicate 32 None" "length (interrupts demo_reset) = 8"
    "pids demo_reset = init_pid (pids demo_kern)"
    using kern_okD [OF demo_kern_ok] by (simp_all add: demo_reset_def)
  have x: "drop_bit 2 (32 :: u32) AND 0x1f = 8" by simp
  obtain s' where s': "rbind (init_syscall demo_reset) init_pc = Inr s'"
    "\<And>c. do_exceptions 0 demo_malloc 32 c s' = (let c' = c\<lparr>r_epc := r_epc c + 4\<rparr> in
       if r_v0 c = 4 then Inr (c', s'\<lparr>gpio_led := r_a0 c\<rparr>)
       else if r_v0 c = 10 then pc_kill_syscall 0 c' s'
       else if r_v0 c = 11 then pc_schedule c' s'
       else if r_v0 c = 12 then do_fork demo_malloc c' s'
       else if unat (r_v0 c) < 256 then Inr (c', s')
       else Inl Fault)"
    using syscall_dispatch [OF h, of 0 demo_malloc] x unfolding Let_def by (auto simp: if_bool_eq_conj)
  have "demo_ctx\<lparr>r_v0 := 4, r_a0 := 0xff, r_epc := r_epc demo_ctx + 4\<rparr> = demo_ctx\<lparr>r_v0 := 4, r_a0 := 0xff, r_epc := 4\<rparr>"
    "demo_ctx\<lparr>r_v0 := 11, r_epc := r_epc demo_ctx + 4\<rparr> = demo_ctx\<lparr>r_v0 := 11, r_epc := 4\<rparr>" by (simp_all add: demo_ctx_def)
  then show ?thesis using s'(1) by (intro exI [of _ s']) (simp add: s'(2))
qed

end
