(* ===== verification/Vga.thy ===== *)
theory Vga
  imports KMem "HOL-Library.Signed_Division"
begin

text \<open>
  The text screen of \<^verbatim>\<open>driver/vga.c\<close>: the cursor, the character memory and the formatted
  printing on it. The character memory is indexed by words from \<^verbatim>\<open>CHAR_VRAM\<close> (32 rows of 128
  columns, 30 rows of 80 shown); \<^verbatim>\<open>int\<close> is a 32-bit word, compared as a signed number where
  the code does. A C string is the list of its bytes before the terminator.
\<close>

section \<open>Cursor and character memory\<close>

definition VGA_CHAR_MAX_COL :: u32 where "VGA_CHAR_MAX_COL = 128"
definition VGA_CHAR_ROW :: u32 where "VGA_CHAR_ROW = 30"
definition VGA_CHAR_COL :: u32 where "VGA_CHAR_COL = 80"

lemmas vga_consts = VGA_CHAR_MAX_COL_def VGA_CHAR_ROW_def VGA_CHAR_COL_def

record vga =
  cursor_row :: u32
  cursor_col :: u32
  cursor_freq :: u32
  gpio_cursor :: u32
  char_vram :: "u32 \<Rightarrow> u32"

definition kernel_set_cursor :: "vga \<Rightarrow> vga" where
  "kernel_set_cursor v = v\<lparr>gpio_cursor :=
     push_bit 16 (cursor_freq v AND 0xff) + push_bit 8 (cursor_row v AND 0xff) + (cursor_col v AND 0xff)\<rparr>"

definition init_vga :: "vga \<Rightarrow> vga" where
  "init_vga v = kernel_set_cursor (v\<lparr>cursor_row := 0, cursor_col := 0, cursor_freq := 31\<rparr>)"

definition blank :: u32 where "blank = 0x000fff00"

definition clear_words :: "u32 \<Rightarrow> u32 \<Rightarrow> vga \<Rightarrow> vga" where
  "clear_words dest len v = v\<lparr>char_vram := kernel_memset_word (char_vram v) dest blank len\<rparr>"

definition kernel_clear_screen :: "u32 \<Rightarrow> vga \<Rightarrow> vga" where
  "kernel_clear_screen scope v = (let scope = scope AND 31 in
     clear_words 0 (scope * VGA_CHAR_MAX_COL) (kernel_set_cursor (v\<lparr>cursor_col := 0, cursor_row := 0\<rparr>)))"

text \<open>\<^verbatim>\<open>kernel_memcpy\<close> moves bytes: the words of the screen as little-endian bytes and back.\<close>

definition vram_bytes :: "(u32 \<Rightarrow> u32) \<Rightarrow> memory" where
  "vram_bytes vram a = ucast (drop_bit (8 * unat (a AND 3)) (vram (drop_bit 2 a)))"

definition vram_words :: "memory \<Rightarrow> u32 \<Rightarrow> u32" where
  "vram_words mem i = (let a = push_bit 2 i in
     ucast (mem a) OR push_bit 8 (ucast (mem (a + 1))) OR push_bit 16 (ucast (mem (a + 2)))
       OR push_bit 24 (ucast (mem (a + 3))))"

definition kernel_scroll_screen :: "vga \<Rightarrow> vga" where
  "kernel_scroll_screen v =
     (let v = v\<lparr>char_vram := vram_words (kernel_memcpy (vram_bytes (char_vram v)) 0 (VGA_CHAR_MAX_COL * 4)
                ((VGA_CHAR_ROW - 2) * VGA_CHAR_MAX_COL * 4))\<rparr>
      in clear_words ((VGA_CHAR_ROW - 2) * VGA_CHAR_MAX_COL) VGA_CHAR_MAX_COL v)"

definition kernel_putchar_at :: "u32 \<Rightarrow> u32 \<Rightarrow> u32 \<Rightarrow> u32 \<Rightarrow> u32 \<Rightarrow> vga \<Rightarrow> vga" where
  "kernel_putchar_at ch fc bg row col v = (let row = row AND 31; col = col AND 127 in
     v\<lparr>char_vram := (char_vram v)(row * VGA_CHAR_MAX_COL + col :=
        push_bit 20 (bg AND 0xfff) + push_bit 8 (fc AND 0xfff) + (ch AND 0xff))\<rparr>)"

text \<open>
  The three branches of \<^verbatim>\<open>kernel_putchar\<close>: a newline clears the rest of its row; a tab clears
  \<^verbatim>\<open>4 - cursor_col & 3\<close> words, where the subtraction binds tighter than the mask; any other
  character wraps at the last column. The inner calls on a newline are the first branch.
\<close>

definition putchar_newline :: "vga \<Rightarrow> vga" where
  "putchar_newline v =
     (let v = clear_words (cursor_row v * VGA_CHAR_MAX_COL + cursor_col v) (VGA_CHAR_COL - cursor_col v) v;
          v = v\<lparr>cursor_col := 0\<rparr>;
          v = (if cursor_row v = VGA_CHAR_ROW - 2 then kernel_scroll_screen v
               else v\<lparr>cursor_row := cursor_row v + 1\<rparr>)
      in kernel_set_cursor v)"

definition putchar_tab :: "vga \<Rightarrow> vga" where
  "putchar_tab v =
     kernel_set_cursor
      (if VGA_CHAR_COL - 4 \<le>s cursor_col v then putchar_newline v
       else (let v = clear_words (cursor_row v * VGA_CHAR_MAX_COL + cursor_col v) ((4 - cursor_col v) AND 3) v
             in v\<lparr>cursor_col := (cursor_col v + 4) AND (-4)\<rparr>))"

definition putchar_other :: "u32 \<Rightarrow> u32 \<Rightarrow> u32 \<Rightarrow> vga \<Rightarrow> vga" where
  "putchar_other ch fc bg v =
     (let v = (if cursor_col v = VGA_CHAR_COL then putchar_newline v else v);
          v = kernel_putchar_at ch fc bg (cursor_row v) (cursor_col v) v
      in kernel_set_cursor (v\<lparr>cursor_col := cursor_col v + 1\<rparr>))"

definition kernel_putchar :: "u32 \<Rightarrow> u32 \<Rightarrow> u32 \<Rightarrow> vga \<Rightarrow> vga" where
  "kernel_putchar ch fc bg v =
     (if ch = 13 then v
      else if ch = 10 then putchar_newline v
      else if ch = 9 then putchar_tab v
      else putchar_other ch fc bg v)"

primrec puts_loop :: "u8 list \<Rightarrow> u32 \<Rightarrow> u32 \<Rightarrow> u32 \<Rightarrow> vga \<Rightarrow> u32 \<times> vga" where
  "puts_loop [] fc bg ret v = (ret, v)"
| "puts_loop (c # s) fc bg ret v = puts_loop s fc bg (ret + 1) (kernel_putchar (scast c) fc bg v)"

definition kernel_puts :: "u8 list \<Rightarrow> u32 \<Rightarrow> u32 \<Rightarrow> vga \<Rightarrow> u32 \<times> vga" where
  "kernel_puts s fc bg v = puts_loop s fc bg 0 v"

section \<open>Numbers\<close>

text \<open>
  The digits are stored downwards from \<^verbatim>\<open>buffer + 11\<close>, whose byte is the terminator: a store
  below \<^verbatim>\<open>buffer\<close> is a fault. \<open>radix_loop\<close> is the \<^verbatim>\<open>while (x)\<close> loop the four unsigned
  printers share, with their table, mask and shift.
\<close>

definition store_digit :: "u8 \<Rightarrow> nat \<times> u8 list \<Rightarrow> (nat \<times> u8 list) res" where
  "store_digit c = (\<lambda>(ptr, buffer). if ptr = 0 then Inl Fault else Inr (ptr - 1, buffer[ptr - 1 := c]))"

definition digit_buffer :: "nat \<times> u8 list" where
  "digit_buffer = (11, replicate 12 0)"

definition from_ptr :: "nat \<times> u8 list \<Rightarrow> u8 list" where
  "from_ptr = (\<lambda>(ptr, buffer). takeWhile (\<lambda>c. c \<noteq> 0) (drop ptr buffer))"

function radix_loop :: "u8 list \<Rightarrow> nat \<Rightarrow> u32 \<Rightarrow> nat \<times> u8 list \<Rightarrow> (nat \<times> u8 list) res" where
  "radix_loop tab k x b =
     (if x = 0 \<or> k = 0 then Inr b
      else rbind (store_digit (tab ! unat (x AND mask k)) b) (radix_loop tab k (drop_bit k x)))"
  by pat_completeness auto
termination
proof (relation "measure (\<lambda>(tab, k, x, b). unat x)", simp, goal_cases)
  case (1 tab k x b b')
  have "0 < unat x" using 1 by (simp add: unat_gt_0)
  moreover have "(1 :: nat) < 2 ^ k" using 1 by (intro one_less_power) auto
  ultimately have "unat x div 2 ^ k < unat x" by (rule div_less_dividend [rotated])
  moreover have "unat (drop_bit k x) = unat x div 2 ^ k"
    unfolding unsigned_drop_bit_eq by (simp add: drop_bit_eq_div take_bit_nat_eq_self)
  ultimately show ?case by (simp del: drop_bit_eq_div)
qed

declare radix_loop.simps [simp del]

function putint_loop :: "u32 \<Rightarrow> nat \<times> u8 list \<Rightarrow> (nat \<times> u8 list) res" where
  "putint_loop x b =
     (if x = 0 then Inr b
      else rbind (store_digit (ucast (word_of_int (sint x smod 10) + 48 :: u32)) b)
             (putint_loop (word_of_int (sint x sdiv 10))))"
  by pat_completeness auto
termination
proof (relation "measure (\<lambda>(x, b). nat \<bar>sint x\<bar>)", simp, goal_cases)
  case (1 x b b')
  have "sint x \<noteq> 0" using 1 by (metis scast_eq scast_id of_int_0)
  moreover have "- 2147483648 \<le> sint x" "sint x < 2147483648"
    using sint_greater_eq [of x] sint_less [of x] by simp_all
  ultimately have q: "\<bar>sint x sdiv 10\<bar> < \<bar>sint x\<bar>" "- 2147483648 \<le> sint x sdiv 10" "sint x sdiv 10 < 2147483648"
    by (auto simp: signed_divide_int_def sgn_if abs_if)
  then have "sint (word_of_int (sint x sdiv 10) :: u32) = sint x sdiv 10"
    by (simp add: sint_sbintrunc' signed_take_bit_int_eq_self)
  then show ?case using q by simp
qed

declare putint_loop.simps [simp del]

definition kernel_putint :: "u32 \<Rightarrow> u32 \<Rightarrow> u32 \<Rightarrow> vga \<Rightarrow> (u32 \<times> vga) res" where
  "kernel_putint x fc bg v =
     (if x = 0 then Inr (x, kernel_putchar 48 fc bg v)
      else let neg = x <s 0; x = (if neg then - x else x) in
        rbind (putint_loop x digit_buffer) (\<lambda>b.
        rbind (if neg then store_digit 45 b else Inr b) (\<lambda>b.
        Inr (0, snd (kernel_puts (from_ptr b) fc bg v)))))"

definition BIN_MAP :: "u8 list" where "BIN_MAP = [48, 49]"
definition OCT_MAP :: "u8 list" where "OCT_MAP = [48, 49, 50, 51, 52, 53, 54, 55]"
definition HEX_MAP :: "u8 list" where
  "HEX_MAP = [48, 49, 50, 51, 52, 53, 54, 55, 56, 57, 97, 98, 99, 100, 101, 102]"
definition HEX_MAP_M :: "u8 list" where
  "HEX_MAP_M = [48, 49, 50, 51, 52, 53, 54, 55, 56, 57, 65, 66, 67, 68, 69, 70]"

definition kernel_putintb :: "u32 \<Rightarrow> u32 \<Rightarrow> u32 \<Rightarrow> vga \<Rightarrow> (u32 \<times> vga) res" where
  "kernel_putintb x fc bg v =
     (if x = 0 then Inr (x, kernel_putchar 48 fc bg v)
      else rbind (radix_loop BIN_MAP 1 x digit_buffer) (\<lambda>b. Inr (0, snd (kernel_puts (from_ptr b) fc bg v))))"

definition kernel_putinto :: "u32 \<Rightarrow> u32 \<Rightarrow> u32 \<Rightarrow> vga \<Rightarrow> (u32 \<times> vga) res" where
  "kernel_putinto x fc bg v =
     (if x = 0 then Inr (x, kernel_putchar 48 fc bg v)
      else rbind (radix_loop OCT_MAP 3 x digit_buffer) (\<lambda>b. Inr (0, snd (kernel_puts (from_ptr b) fc bg v))))"

definition kernel_putintx :: "u32 \<Rightarrow> u32 \<Rightarrow> u32 \<Rightarrow> vga \<Rightarrow> (u32 \<times> vga) res" where
  "kernel_putintx x fc bg v =
     (if x = 0 then Inr (x, kernel_putchar 48 fc bg v)
      else rbind (radix_loop HEX_MAP 4 x digit_buffer) (\<lambda>b. Inr (0, snd (kernel_puts (from_ptr b) fc bg v))))"

definition kernel_putintX :: "u32 \<Rightarrow> u32 \<Rightarrow> u32 \<Rightarrow> vga \<Rightarrow> (u32 \<times> vga) res" where
  "kernel_putintX x fc bg v =
     (if x = 0 then Inr (x, kernel_putchar 48 fc bg v)
      else rbind (radix_loop HEX_MAP_M 4 x digit_buffer) (\<lambda>b. Inr (0, snd (kernel_puts (from_ptr b) fc bg v))))"

section \<open>Formatted printing\<close>

text \<open>
  An argument is a word or a string; \<^verbatim>\<open>va_arg\<close> past the last argument, or at the other type,
  is undefined: a fault. A directive that is not known, and a \<^verbatim>\<open>%\<close> at the end, stop with -1.
\<close>

datatype varg = VInt u32 | VStr "u8 list"

definition va_int :: "varg list \<Rightarrow> (u32 \<times> varg list) res" where
  "va_int ap = (case ap of VInt x # ap \<Rightarrow> Inr (x, ap) | _ \<Rightarrow> Inl Fault)"

definition va_str :: "varg list \<Rightarrow> (u8 list \<times> varg list) res" where
  "va_str ap = (case ap of VStr s # ap \<Rightarrow> Inr (s, ap) | _ \<Rightarrow> Inl Fault)"

definition print_char :: "u32 \<Rightarrow> vga \<Rightarrow> (u32 \<times> vga) res" where
  "print_char x v = Inr (0, kernel_putchar (scast (ucast x :: u8)) 0xfff 0 v)"

definition number_printer :: "u8 \<Rightarrow> (u32 \<Rightarrow> vga \<Rightarrow> (u32 \<times> vga) res) option" where
  "number_printer c =
     (if c = 99 then Some print_char
      else if c = 100 then Some (\<lambda>x. kernel_putint x 0xfff 0)
      else if c = 98 then Some (\<lambda>x. kernel_putintb x 0xfff 0)
      else if c = 111 then Some (\<lambda>x. kernel_putinto x 0xfff 0)
      else if c = 120 then Some (\<lambda>x. kernel_putintx x 0xfff 0)
      else if c = 88 then Some (\<lambda>x. kernel_putintX x 0xfff 0)
      else None)"

fun vprintf_loop :: "u8 list \<Rightarrow> varg list \<Rightarrow> u32 \<Rightarrow> vga \<Rightarrow> (u32 \<times> vga) res" where
  "vprintf_loop [] ap cnt v = Inr (cnt, v)"
| "vprintf_loop [c] ap cnt v = (if c \<noteq> 37 then Inr (cnt, kernel_putchar (scast c) 0xfff 0 v) else Inr (-1, v))"
| "vprintf_loop (c # d # format) ap cnt v =
     (if c \<noteq> 37 then vprintf_loop (d # format) ap cnt (kernel_putchar (scast c) 0xfff 0 v)
      else case number_printer d of
        Some print \<Rightarrow> rbind (va_int ap) (\<lambda>(x, ap). rbind (print x v) (\<lambda>(_, v). vprintf_loop format ap (cnt + 1) v))
      | None \<Rightarrow>
          if d = 115 then rbind (va_str ap) (\<lambda>(s, ap).
            vprintf_loop format ap (cnt + 1) (snd (kernel_puts s 0xfff 0 v)))
          else Inr (-1, v))"

definition kernel_vprintf :: "u8 list \<Rightarrow> varg list \<Rightarrow> vga \<Rightarrow> (u32 \<times> vga) res" where
  "kernel_vprintf format ap v = vprintf_loop format ap 0 v"

definition kernel_printf :: "u8 list \<Rightarrow> varg list \<Rightarrow> vga \<Rightarrow> (u32 \<times> vga) res" where
  "kernel_printf format ap v = kernel_vprintf format ap v"

end
