(* ===== verification/VgaThms.thy ===== *)
theory VgaThms
  imports Vga
begin

text \<open>
  What the text screen does: scrolling moves words, the number printers write the digits of
  their argument (or run over their buffer), and formatted printing stays on the text rows.
\<close>

section \<open>Scrolling\<close>

lemma vram_byte:
  assumes "i < 0x40000000" and "j < 4"
  shows "vram_bytes w (push_bit 2 i + j) = ucast (drop_bit (8 * unat j) (w i))"
proof -
  have i: "\<And>n. bit i n \<Longrightarrow> n < 30"
  proof -
    fix n assume b: "bit i n"
    have "i = take_bit 30 i" using assms(1)
      by (simp add: word_unat_eq_iff unsigned_take_bit_eq take_bit_nat_eq_self word_less_nat_alt)
    then show "n < 30" using b by (metis bit_take_bit_iff)
  qed
  have j: "j = take_bit 2 j"
    using assms(2) by (simp add: word_unat_eq_iff unsigned_take_bit_eq take_bit_nat_eq_self word_less_nat_alt)
  have o: "push_bit 2 i + j = push_bit 2 i OR j"
    by (rule disjunctive_add_eq_or, subst j) (auto simp: bit_simps intro!: bit_word_eqI)
  have "(push_bit 2 i OR j) AND 3 = j"
  proof -
    have three: "(3 :: u32) = mask 2" by (simp add: mask_eq_exp_minus_1)
    show ?thesis unfolding three by (subst (2) j) (auto simp: bit_simps intro!: bit_word_eqI)
  qed
  moreover have "drop_bit 2 (push_bit 2 i OR j) = i"
    by (subst j) (auto simp: bit_simps intro!: bit_word_eqI dest: i)
  ultimately show ?thesis by (simp add: vram_bytes_def o)
qed
lemma word_of_bytes:
  "ucast (ucast w :: u8) OR push_bit 8 (ucast (ucast (drop_bit 8 w) :: u8))
     OR push_bit 16 (ucast (ucast (drop_bit 16 w) :: u8)) OR push_bit 24 (ucast (ucast (drop_bit 24 w) :: u8)) = (w :: u32)"
  (is "?a OR ?b OR ?c OR ?d = w")
proof (rule bit_word_eqI)
  have bits: "bit ?a n \<longleftrightarrow> n < 8 \<and> bit w n" "bit ?b n \<longleftrightarrow> 8 \<le> n \<and> n < 16 \<and> bit w n"
    "bit ?c n \<longleftrightarrow> 16 \<le> n \<and> n < 24 \<and> bit w n" "bit ?d n \<longleftrightarrow> 24 \<le> n \<and> n < 32 \<and> bit w n" for n
    by (auto simp: bit_simps dest: bit_imp_le_length)
  fix n assume "n < LENGTH(32)"
  then show "bit (?a OR ?b OR ?c OR ?d) n = bit w n"
    unfolding bit_or_iff bits by (simp add: not_less) linarith
qed

lemma scroll_words:
  assumes "i < 0x40000000"
  shows "char_vram (kernel_scroll_screen v) i =
    (if i < 3584 then char_vram v (i + 128) else if i < 3712 then blank else char_vram v i)"
proof -
  let ?w = "char_vram v" and ?c = "kernel_memcpy (vram_bytes (char_vram v)) 0 512 14336"
  have small: "i + 128 < 0x40000000" if "i < 3584" using that
    by (simp add: word_less_nat_alt unat_word_ariths)
  have i: "unat i < 1073741824" using assms by (simp add: word_less_nat_alt)
  have byte: "?c (push_bit 2 i + j) = ucast (drop_bit (8 * unat j) (?w (if i < 3584 then i + 128 else i)))"
    if j: "j < 4" for j
  proof -
    have uj: "unat j < 4" using j by (simp add: word_less_nat_alt)
    have a: "push_bit 2 i + j = 4 * i + j" by (simp add: push_bit_eq_mult)
    have u: "unat (4 * i + j) = 4 * unat i + unat j" using i uj by (simp add: unat_word_ariths)
    have lt: "4 * i + j < 14336 \<longleftrightarrow> i < 3584" unfolding word_less_nat_alt u using uj by simp linarith
    have "?c (4 * i + j) = (if 4 * i + j < 14336 then vram_bytes ?w (512 + (4 * i + j)) else vram_bytes ?w (4 * i + j))"
      by (subst kernel_memcpy_apply) (simp_all add: word_le_nat_alt)
    moreover have e: "push_bit 2 (i + 128) + j = 512 + (4 * i + j)" by (simp add: push_bit_eq_mult)
    have "vram_bytes ?w (512 + (4 * i + j)) = ucast (drop_bit (8 * unat j) (?w (i + 128)))" if "i < 3584"
      using vram_byte [OF small [OF that] j, of ?w] unfolding e .
    ultimately show ?thesis using vram_byte [OF assms j, of ?w] unfolding a lt by (cases "i < 3584") simp_all
  qed
  have "vram_words ?c i = ?w (if i < 3584 then i + 128 else i)"
    unfolding vram_words_def Let_def
    using byte [of 0] byte [of 1] byte [of 2] byte [of 3] word_of_bytes [of "?w (if i < 3584 then i + 128 else i)"]
    by simp
  moreover have "i - 3584 < 128 \<longleftrightarrow> 3584 \<le> i \<and> i < 3712"
    using i by (auto simp: word_less_nat_alt word_le_nat_alt unat_sub_if')
  ultimately show ?thesis
    by (auto simp: kernel_scroll_screen_def clear_words_def vga_consts kernel_memset_word_apply not_less)
qed

section \<open>The digits\<close>

function nat_digits :: "nat \<Rightarrow> nat \<Rightarrow> nat list" where
  "nat_digits b n = (if n = 0 \<or> b < 2 then [] else nat_digits b (n div b) @ [n mod b])"
  by pat_completeness auto
termination by (relation "measure (\<lambda>(b, n). n)") auto

declare nat_digits.simps [simp del]

lemma nat_digits_value: "2 \<le> b \<Longrightarrow> foldl (\<lambda>a d. b * a + d) 0 (nat_digits b n) = n"
  by (induction b n rule: nat_digits.induct) (subst nat_digits.simps, simp)

lemma nat_digits_less: "d \<in> set (nat_digits b n) \<Longrightarrow> d < b"
  by (induction b n rule: nat_digits.induct) (subst (asm) (2) nat_digits.simps, auto split: if_splits)

lemma nat_digits_length: "2 \<le> b \<Longrightarrow> length (nat_digits b n) \<le> p \<longleftrightarrow> n < b ^ p"
proof (induction b n arbitrary: p rule: nat_digits.induct)
  case (1 b n)
  show ?case
  proof (cases "n = 0")
    case True then show ?thesis using 1(2) by (simp add: nat_digits.simps)
  next
    case False
    have "length (nat_digits b n) = Suc (length (nat_digits b (n div b)))"
      using False 1(2) by (subst nat_digits.simps) simp
    then show ?thesis using 1 False
      by (cases p) (simp_all add: div_less_iff_less_mult mult.commute)
  qed
qed

lemma store_digits:
  "p \<le> length buf \<Longrightarrow> rfold store_digit (rev cs) (p, buf)
   = (if length cs \<le> p then Inr (p - length cs, take (p - length cs) buf @ cs @ drop p buf) else Inl Fault)"
proof (induction cs arbitrary: p buf rule: rev_induct)
  case (snoc c cs)
  then show ?case
  proof (cases p)
    case (Suc q)
    have "drop q (buf[q := c]) = c # drop p buf" using snoc(2) Suc by (simp add: drop_update_first)
    then show ?thesis using snoc Suc by (simp add: store_digit_def)
  qed (simp add: store_digit_def)
qed simp

lemma radix_loop_store:
  "0 < k \<Longrightarrow> radix_loop tab k x b = rfold store_digit (rev (map ((!) tab) (nat_digits (2 ^ k) (unat x)))) b"
proof (induction tab k x b rule: radix_loop.induct)
  case (1 tab k x b)
  have k: "\<not> (2 :: nat) ^ k < 2" using \<open>0 < k\<close> self_le_power [of "2 :: nat" k] by simp
  have m: "unat (x AND mask k) = unat x mod 2 ^ k"
    unfolding take_bit_eq_mask [symmetric] unsigned_take_bit_eq by (rule take_bit_eq_mod)
  have d: "unat (drop_bit k x) = unat x div 2 ^ k"
    unfolding unsigned_drop_bit_eq by (simp add: drop_bit_eq_div take_bit_nat_eq_self)
  show ?case
  proof (cases "x = 0")
    case True then show ?thesis by (simp add: radix_loop.simps nat_digits.simps)
  next
    case False
    then have "nat_digits (2 ^ k) (unat x) = nat_digits (2 ^ k) (unat x div 2 ^ k) @ [unat x mod 2 ^ k]"
      using k by (subst nat_digits.simps) (simp add: unat_eq_0)
    then show ?thesis using 1 False
      by (subst radix_loop.simps) (auto simp: m d intro!: rbind_cong)
  qed
qed

lemma putint_loop_store:
  "0 \<le> sint x \<Longrightarrow> putint_loop x b = rfold store_digit (rev (map (\<lambda>d. of_nat (d + 48)) (nat_digits 10 (nat (sint x))))) b"
proof (induction x b rule: putint_loop.induct)
  case (1 x b)
  show ?case
  proof (cases "x = 0")
    case True then show ?thesis by (simp add: putint_loop.simps nat_digits.simps)
  next
    case False
    define n where "n = nat (sint x)"
    have n: "sint x = int n" "n < 2147483648" "n \<noteq> 0"
      using 1(2) sint_less [of x] False by (auto simp: n_def) (metis scast_eq scast_id of_int_0 antisym)
    have q: "sint x sdiv 10 = int (n div 10)" "sint x smod 10 = int (n mod 10)"
      by (simp_all add: n signed_divide_int_def signed_modulo_int_def sgn_if zdiv_int zmod_int minus_div_mult_eq_mod)
    have "sint (word_of_int (int (n div 10)) :: u32) = int (n div 10)"
      unfolding sint_sbintrunc' using n by (intro signed_take_bit_int_eq_self) simp_all
    then have s: "sint (word_of_nat (n div 10) :: u32) = int (n div 10)" by simp
    have c: "(ucast (word_of_nat (n mod 10) + 48 :: u32) :: u8) = of_nat (n mod 10 + 48)"
    proof -
      have "(word_of_nat (n mod 10) + 48 :: u32) = of_nat (n mod 10 + 48)" by simp
      moreover have "take_bit 32 (n mod 10 + 48) = n mod 10 + 48" by (rule take_bit_nat_eq_self) simp
      ultimately show ?thesis by (simp add: unsigned_of_nat del: of_nat_add)
    qed
    have ds: "nat_digits 10 n = nat_digits 10 (n div 10) @ [n mod 10]"
      using n by (subst nat_digits.simps) simp
    show ?thesis
      unfolding n(1) nat_int ds
      using 1(1) False by (subst putint_loop.simps) (auto simp: q s c intro!: rbind_cong)
  qed
qed

text \<open>The number a text shows in base \<open>b\<close>, digits first.\<close>

definition decimal :: "u8 list \<Rightarrow> int" where
  "decimal s = (if s \<noteq> [] \<and> hd s = 45 then - foldl (\<lambda>a c. 10 * a + (int (unat c) - 48)) 0 (tl s)
     else foldl (\<lambda>a c. 10 * a + (int (unat c) - 48)) 0 s)"

lemma digit_chars:
  "\<forall>d\<in>set ds. d < 10 \<Longrightarrow> foldl (\<lambda>a c. 10 * a + (int (unat c) - 48)) (int k) (map (\<lambda>d. of_nat (d + 48) :: u8) ds)
     = int (foldl (\<lambda>a d. 10 * a + d) k ds)"
proof (induction ds arbitrary: k)
  case (Cons d ds)
  have "int (unat (of_nat (d + 48) :: u8)) - 48 = int d"
    using Cons(2) by (simp add: unat_of_nat del: of_nat_add)
  then show ?case using Cons(1) [of "10 * k + d"] Cons(2) by simp
qed simp


lemma shown_text:
  assumes "length cs \<le> 11" and "0 \<notin> set cs"
  shows "\<exists>b. rfold store_digit (rev cs) digit_buffer = Inr b \<and> from_ptr b = cs"
proof -
  have "takeWhile (\<lambda>c. c \<noteq> 0) (cs @ [0]) = cs" using assms(2) by (subst takeWhile_append2) auto
  then show ?thesis using assms(1) by (auto simp: digit_buffer_def store_digits from_ptr_def)
qed

lemma kernel_putint_spec:
  assumes "x \<noteq> 0x80000000" and "x \<noteq> 0"
  defines "n \<equiv> nat \<bar>sint x\<bar>"
  defines "s \<equiv> (if sint x < 0 then [45] else []) @ map (\<lambda>d. of_nat (d + 48)) (nat_digits 10 n)"
  shows "kernel_putint x fc bg v = Inr (0, snd (kernel_puts s fc bg v))" and "decimal s = sint x"
proof -
  have lo: "- 2147483648 < sint x"
  proof -
    have "sint x \<noteq> sint (0x80000000 :: u32)" using assms(1) signed_word_eqI by blast
    then show ?thesis using sint_greater_eq [of x] by simp
  qed
  have hi: "sint x < 2147483648" using sint_less [of x] by simp
  define y where "y = (if x <s 0 then - x else x)"
  have neg: "x <s 0 \<longleftrightarrow> sint x < 0" by (simp add: word_sless_alt)
  have "sint (- x) = - sint x"
    using lo hi by (simp add: sint_word_ariths signed_take_bit_int_eq_self)
  then have y: "sint y = int n" by (auto simp: y_def neg n_def)
  let ?ds = "map (\<lambda>d. of_nat (d + 48) :: u8) (nat_digits 10 n)"
  have "n < 10 ^ 10" using lo hi by (auto simp: n_def)
  then have len: "length (nat_digits 10 n) \<le> 10" by (simp add: nat_digits_length)
  have small: "d < 10" if "d \<in> set (nat_digits 10 n)" for d using that by (rule nat_digits_less)
  have un: "unat (of_nat (d + 48) :: u8) = d + 48" if "d < 10" for d
    using that by (simp add: unat_of_nat del: of_nat_add)
  have ne: "c \<noteq> 0 \<and> c \<noteq> 45" if c: "c \<in> set ?ds" for c
  proof -
    obtain d where "d \<in> set (nat_digits 10 n)" "c = of_nat (d + 48)" using c by (auto simp del: of_nat_add)
    then have "d < 10" "c = of_nat (d + 48)" using small by blast+
    then have "unat c = d + 48" by (simp only: un)
    then show ?thesis by auto
  qed
  have loop: "putint_loop y digit_buffer = rfold store_digit (rev ?ds) digit_buffer"
    by (subst putint_loop_store) (simp_all add: y)
  have "rbind (putint_loop y digit_buffer) (\<lambda>b. if sint x < 0 then store_digit 45 b else Inr b)
      = rfold store_digit (rev s) digit_buffer"
    by (auto simp: loop s_def rfold_append intro!: rbind_cong) (simp add: rbind_def split: sum.splits)
  moreover have "\<exists>b. rfold store_digit (rev s) digit_buffer = Inr b \<and> from_ptr b = s"
    using len ne by (intro shown_text) (auto simp: s_def)
  then obtain b where "rfold store_digit (rev s) digit_buffer = Inr b" "from_ptr b = s" by blast
  ultimately show "kernel_putint x fc bg v = Inr (0, snd (kernel_puts s fc bg v))"
    using assms(2) by (simp add: kernel_putint_def Let_def neg y_def [symmetric, unfolded neg] rbind_assoc [symmetric])
  have "hd ?ds \<noteq> 45" if "?ds \<noteq> []" using ne [of "hd ?ds"] that by (simp add: hd_map)
  then show "decimal s = sint x"
    using digit_chars [of "nat_digits 10 n" 0] small nat_digits_value [of 10 n]
    by (auto simp: decimal_def s_def n_def)
qed

section \<open>The cursor stays on the text rows\<close>

definition cursor_ok :: "vga \<Rightarrow> bool" where
  "cursor_ok v \<longleftrightarrow> cursor_row v \<le> 28 \<and> cursor_col v \<le> 80"

text \<open>Rows 29 to 31 of the character memory, where the clock and the editor's status line are.\<close>

definition keeps_status :: "vga \<Rightarrow> vga \<Rightarrow> bool" where
  "keeps_status v v' \<longleftrightarrow> (\<forall>i. 3712 \<le> i \<longrightarrow> i < 4096 \<longrightarrow> char_vram v' i = char_vram v i)"

lemma keeps_status_refl [simp]: "keeps_status v v" by (simp add: keeps_status_def)

lemma keeps_status_trans: "keeps_status u v \<Longrightarrow> keeps_status v w \<Longrightarrow> keeps_status u w"
  by (simp add: keeps_status_def)

lemma set_cursor_simps [simp]:
  "cursor_row (kernel_set_cursor v) = cursor_row v" "cursor_col (kernel_set_cursor v) = cursor_col v"
  "char_vram (kernel_set_cursor v) = char_vram v"
  by (simp_all add: kernel_set_cursor_def)

lemma clear_words_simps [simp]:
  "cursor_row (clear_words d n v) = cursor_row v" "cursor_col (clear_words d n v) = cursor_col v"
  by (simp_all add: clear_words_def)

lemma scroll_simps [simp]:
  "cursor_row (kernel_scroll_screen v) = cursor_row v" "cursor_col (kernel_scroll_screen v) = cursor_col v"
  by (simp_all add: kernel_scroll_screen_def)

lemma clear_words_keeps:
  assumes "row \<le> 28" and "unat col + unat len \<le> 128"
  shows "keeps_status v (clear_words (row * VGA_CHAR_MAX_COL + col) len v)"
proof -
  have u: "unat (row * 128 + col) = unat row * 128 + unat col" "unat row \<le> 28"
    using assms by (auto simp: word_le_nat_alt unat_word_ariths)
  have "\<not> i - (row * 128 + col) < len" if "3712 \<le> i" "i < 4096" for i
    using that assms u by (auto simp: word_le_nat_alt word_less_nat_alt unat_sub_if')
  then show ?thesis by (simp add: keeps_status_def clear_words_def vga_consts kernel_memset_word_apply)
qed


definition stays :: "vga \<Rightarrow> vga \<Rightarrow> bool" where
  "stays v v' \<longleftrightarrow> (cursor_ok v \<longrightarrow> cursor_ok v' \<and> keeps_status v v')"

lemma stays_refl [simp]: "stays v v" by (simp add: stays_def)

lemma stays_trans: "stays u v \<Longrightarrow> stays v w \<Longrightarrow> stays u w"
  using keeps_status_trans by (auto simp: stays_def)

lemma stays_cursor [simp]: "stays v (kernel_set_cursor w) \<longleftrightarrow> stays v w"
  by (simp add: stays_def cursor_ok_def keeps_status_def)

lemma scroll_keeps: "keeps_status v (kernel_scroll_screen v)"
  unfolding keeps_status_def
proof (intro allI impI)
  fix i :: u32 assume i: "3712 \<le> i" "i < 4096"
  then have "i < 0x40000000" "\<not> i < 3584" "\<not> i < 3712"
    by (auto simp: word_less_nat_alt word_le_nat_alt)
  then show "char_vram (kernel_scroll_screen v) i = char_vram v i" by (simp add: scroll_words)
qed

lemma unat_less_uint: "unat (x :: u32) < numeral n \<longleftrightarrow> uint x < numeral n"
  using of_nat_less_iff [of "unat x" "numeral n", where 'a = int] by simp

lemma sint_unat: "unat (x :: u32) < 2147483648 \<Longrightarrow> sint x = int (unat x)"
  unfolding sint_uint of_nat_unat
  by (rule signed_take_bit_int_eq_self) (simp_all add: unat_less_uint, rule order_trans [OF _ uint_ge_0], simp)

lemma row_step: "r \<le> 28 \<Longrightarrow> r \<noteq> 28 \<Longrightarrow> r + 1 \<le> (28 :: u32)"
  by (metis inc_le order_le_less)

lemma putchar_newline_stays:
  assumes "cursor_ok v"
  shows "cursor_ok (putchar_newline v) \<and> cursor_col (putchar_newline v) = 0 \<and> keeps_status v (putchar_newline v)"
proof -
  have ok: "cursor_row v \<le> 28" "cursor_col v \<le> 80" using assms by (simp_all add: cursor_ok_def)
  define w where "w = clear_words (cursor_row v * VGA_CHAR_MAX_COL + cursor_col v) (VGA_CHAR_COL - cursor_col v) v"
  have "keeps_status v w" unfolding w_def
    using ok by (intro clear_words_keeps) (auto simp: vga_consts word_le_nat_alt unat_sub)
  moreover have "keeps_status (w\<lparr>cursor_col := 0\<rparr>) (kernel_scroll_screen (w\<lparr>cursor_col := 0\<rparr>))"
    by (rule scroll_keeps)
  moreover have "cursor_row w = cursor_row v" by (simp add: w_def)
  moreover have "putchar_newline v = kernel_set_cursor
     (if cursor_row w = VGA_CHAR_ROW - 2 then kernel_scroll_screen (w\<lparr>cursor_col := 0\<rparr>)
      else w\<lparr>cursor_col := 0, cursor_row := cursor_row w + 1\<rparr>)"
    by (simp add: putchar_newline_def w_def Let_def)
  ultimately show ?thesis using ok row_step [of "cursor_row v"]
    by (auto simp: cursor_ok_def keeps_status_def vga_consts)
qed

lemma col_step: "c \<le> 80 \<Longrightarrow> c \<noteq> 80 \<Longrightarrow> c + 1 \<le> (80 :: u32)"
  by (metis inc_le order_le_less)

lemma putchar_at_keeps:
  assumes "row \<le> 28"
  shows "keeps_status v (kernel_putchar_at ch fc bg row col v)"
proof -
  have "unat (row AND 31) \<le> 28" "unat (col AND 127) \<le> 127"
    using assms word_and_le2 [of row 31] word_and_le1 [of col 127] by (auto simp: word_le_nat_alt)
  then have "unat ((row AND 31) * 128 + (col AND 127)) < 3712" by (simp add: unat_word_ariths)
  then show ?thesis by (auto simp: keeps_status_def kernel_putchar_at_def Let_def vga_consts word_le_nat_alt)
qed

lemma kernel_putchar_stays: "stays v (kernel_putchar ch fc bg v)"
proof -
  have newline: "stays v (putchar_newline v)" using putchar_newline_stays by (simp add: stays_def)
  have "stays v (putchar_tab v)"
  proof (cases "VGA_CHAR_COL - 4 \<le>s cursor_col v")
    case False
    let ?c = "cursor_col v"
    have "cursor_ok v \<Longrightarrow> unat ?c < 76"
    proof -
      assume "cursor_ok v"
      then have "unat ?c \<le> 80" by (simp add: cursor_ok_def word_le_nat_alt)
      then have "sint ?c = int (unat ?c)" by (intro sint_unat) simp
      then show "unat ?c < 76" using False by (simp add: vga_consts word_sle_eq unat_less_uint)
    qed
    moreover have "((4 - ?c) AND 3) \<le> 3" "(?c + 4) AND -4 \<le> ?c + 4"
      by (simp_all add: word_and_le1 word_and_le2)
    moreover have "unat (?c + 4) \<le> unat ?c + 4" by (simp add: unat_word_ariths)
    ultimately show ?thesis using False clear_words_keeps [of "cursor_row v" ?c "(4 - ?c) AND 3" v]
      by (auto simp: putchar_tab_def stays_def Let_def cursor_ok_def word_le_nat_alt keeps_status_def)
  qed (simp add: putchar_tab_def newline)
  moreover have "stays v (putchar_other ch fc bg v)"
  proof -
    define u where "u = (if cursor_col v = VGA_CHAR_COL then putchar_newline v else v)"
    have u: "cursor_ok u" "cursor_col u \<noteq> 80" "keeps_status v u" if "cursor_ok v"
      using putchar_newline_stays [OF that] that by (auto simp: u_def vga_consts)
    have "putchar_other ch fc bg v = kernel_set_cursor ((kernel_putchar_at ch fc bg (cursor_row u) (cursor_col u) u)
            \<lparr>cursor_col := cursor_col u + 1\<rparr>)"
      by (simp add: putchar_other_def u_def Let_def kernel_putchar_at_def)
    moreover have "keeps_status u (kernel_putchar_at ch fc bg (cursor_row u) (cursor_col u) u)" if "cursor_ok v"
      by (rule putchar_at_keeps) (use u(1) [OF that] in \<open>simp add: cursor_ok_def\<close>)
    ultimately show ?thesis using u row_step
      by (auto simp: stays_def cursor_ok_def keeps_status_def kernel_putchar_at_def Let_def intro!: col_step)
  qed
  ultimately show ?thesis by (simp add: kernel_putchar_def newline)
qed

lemma kernel_puts_stays: "stays v (snd (kernel_puts s fc bg v))"
proof -
  have "stays v (snd (puts_loop s fc bg n v))" for n
    by (induction s arbitrary: n v) (auto intro: stays_trans [OF kernel_putchar_stays])
  then show ?thesis by (simp add: kernel_puts_def)
qed

lemma number_printer_stays:
  assumes "number_printer c = Some print" and "print x v = Inr (r, v')"
  shows "stays v v'"
  using assms
  by (auto simp: number_printer_def print_char_def kernel_putint_def kernel_putintb_def kernel_putinto_def
      kernel_putintx_def kernel_putintX_def res_simps Let_def kernel_putchar_stays kernel_puts_stays split: if_splits)

lemma vprintf_stays: "vprintf_loop format ap cnt v = Inr (n, v') \<Longrightarrow> stays v v'"
proof (induction format ap cnt v rule: vprintf_loop.induct)
  case (3 c d format ap cnt v)
  show ?case
  proof (cases "c = 37")
    case c: True
    show ?thesis
    proof (cases "number_printer d")
      case None
      then show ?thesis
      proof (cases "d = 115")
        case True
        with None 3(4) c obtain s ap' where s: "va_str ap = Inr (s, ap')"
            "vprintf_loop format ap' (cnt + 1) (snd (kernel_puts s 0xfff 0 v)) = Inr (n, v')"
          by (auto simp: res_simps)
        have "stays (snd (kernel_puts s 0xfff 0 v)) v'"
          by (rule 3(2) [OF _ None True s(1) refl s(2)]) (simp add: c)
        then show ?thesis by (rule stays_trans [OF kernel_puts_stays])
      qed (use 3(4) c None in simp)
    next
      case (Some print)
      then show ?thesis using 3 c
        by (auto simp: res_simps intro: stays_trans [OF number_printer_stays])
    qed
  qed (use 3 in \<open>auto intro: stays_trans [OF kernel_putchar_stays]\<close>)
qed (auto simp: kernel_putchar_stays split: if_splits)

text \<open>
  Decimal printing shows the number: for every \<^verbatim>\<open>int\<close> but the least one,
  \<^verbatim>\<open>kernel_putint\<close> stays inside its 12-byte buffer and puts on the screen a text whose
  value as a signed decimal number is the argument.
\<close>

lemma kernel_putint_decimal:
  assumes "x \<noteq> 0x80000000"
  shows "\<exists>s. kernel_putint x fc bg v = Inr (0, snd (kernel_puts s fc bg v)) \<and> decimal s = sint x"
proof (cases "x = 0")
  case True
  then have "kernel_putint x fc bg v = Inr (0, snd (kernel_puts [48] fc bg v)) \<and> decimal [48] = sint x"
    by (simp add: kernel_putint_def kernel_puts_def decimal_def)
  then show ?thesis by blast
next
  case False
  then show ?thesis using kernel_putint_spec [OF assms False] by blast
qed

definition demo_vga :: vga where
  "demo_vga = init_vga \<lparr>cursor_row = 7, cursor_col = 99, cursor_freq = 0, gpio_cursor = 0, char_vram = \<lambda>_. 0\<rparr>"

lemma kernel_putint_decimal_witness:
  "\<exists>s. kernel_putint (-42) 0xfff 0 demo_vga = Inr (0, snd (kernel_puts s 0xfff 0 demo_vga)) \<and> decimal s = -42"
  using kernel_putint_decimal [of "-42" "0xfff" 0 demo_vga] by simp

text \<open>
  C24. formatted printing never leaves the text rows: with the cursor on rows 0 to 28 and
  columns 0 to 80, \<^verbatim>\<open>kernel_printf\<close> keeps it there whatever it prints, newlines, tabs, wrapped
  lines and scrolling included, and does not change rows 29 to 31, which hold the clock.
\<close>

theorem kernel_printf_keeps_status_line:
  assumes "cursor_ok v" and "kernel_printf format ap v = Inr (n, v')"
  shows "cursor_ok v' \<and> (\<forall>i. 3712 \<le> i \<and> i < 4096 \<longrightarrow> char_vram v' i = char_vram v i)"
proof -
  have "stays v v'" using assms(2) by (auto simp: kernel_printf_def kernel_vprintf_def intro: vprintf_stays)
  then show ?thesis using assms(1) by (simp add: stays_def keeps_status_def)
qed

lemma demo_printf: "\<exists>v'. kernel_printf [75, 37, 120, 10] [VInt 255] demo_vga = Inr (1, v')"
proof -
  have "length (nat_digits 16 255) \<le> 11" by (simp add: nat_digits_length)
  then have "\<exists>b. rfold store_digit (rev (map ((!) HEX_MAP) (nat_digits 16 255))) digit_buffer = Inr b"
    by (simp add: digit_buffer_def store_digits)
  then obtain b where "rfold store_digit (rev (map ((!) HEX_MAP) (nat_digits 16 255))) digit_buffer = Inr b" by blast
  then show ?thesis
    by (simp add: kernel_printf_def kernel_vprintf_def number_printer_def va_int_def kernel_putintx_def
        radix_loop_store)
qed

theorem kernel_printf_keeps_status_line_witness:
  "\<exists>v'. kernel_printf [75, 37, 120, 10] [VInt 255] demo_vga = Inr (1, v') \<and> cursor_ok v'"
proof -
  obtain v' where "kernel_printf [75, 37, 120, 10] [VInt 255] demo_vga = Inr (1, v')" using demo_printf by blast
  moreover have "cursor_ok demo_vga" by (simp add: cursor_ok_def demo_vga_def init_vga_def)
  ultimately show ?thesis using kernel_printf_keeps_status_line by blast
qed

lemma kernel_putintb_overruns: "kernel_putintb x fc bg v = Inl Fault \<longleftrightarrow> 2048 \<le> unat x"
proof (cases "x = 0")
  case False
  have "radix_loop BIN_MAP 1 x digit_buffer
      = rfold store_digit (rev (map ((!) BIN_MAP) (nat_digits 2 (unat x)))) digit_buffer"
    by (subst radix_loop_store) simp_all
  then show ?thesis using False nat_digits_length [of 2 "unat x" 11]
    by (auto simp: kernel_putintb_def digit_buffer_def store_digits)
qed (simp add: kernel_putintb_def)

end
