(* ===== verification/Time.thy ===== *)
theory Time
  imports VgaThms
begin

text \<open>
  The clock of \<^verbatim>\<open>time/time.c\<close>: the text of a 64-bit tick counter (100 million ticks a second), the
  process that keeps it on the screen, and \<^verbatim>\<open>get_time\<close> with its assertion. The counter's two
  halves, read with \<^verbatim>\<open>mfc0\<close>, are parameters.
\<close>

text \<open>\<^verbatim>\<open>assert\<close> stops in an endless loop unless its argument is 1.\<close>

definition kernel_assert :: "bool \<Rightarrow> 'a \<Rightarrow> 'a res" where
  "kernel_assert statement x = (if statement then Inr x else Inl Hang)"

definition get_time_string :: "u32 \<Rightarrow> u32 \<Rightarrow> u8 list" where
  "get_time_string ticks_high ticks_low =
     (let ticks_low = drop_bit 8 ticks_low OR push_bit 24 ticks_high;
          ticks_high = drop_bit 8 ticks_high;
          second = ticks_high mod 390625;
          second = second * 10995 + (second * 45421) mod 390625;
          second = second + ticks_low div 390625;
          minute = second div 60;
          hour = minute div 60;
          second = second mod 60;
          minute = minute mod 60;
          hour = hour mod 24
      in [ucast (hour div 10 + 48), ucast (hour mod 10 + 48), 58,
          ucast (minute div 10 + 48), ucast (minute mod 10 + 48), 58,
          ucast (second div 10 + 48), ucast (second mod 10 + 48)])"

text \<open>The day is the constant \<^verbatim>\<open>"01/07/2016 "\<close>.\<close>

definition day :: "u8 list" where
  "day = [48, 49, 47, 48, 55, 47, 50, 48, 49, 54, 32]"

definition put_row :: "u8 list \<Rightarrow> u32 \<Rightarrow> vga \<Rightarrow> vga" where
  "put_row s col v = fold (\<lambda>i. kernel_putchar_at (scast (s ! i)) 0xfff 0 29 (col + of_nat i)) [0..<length s] v"

definition system_time_round :: "u32 \<times> u32 \<Rightarrow> vga \<Rightarrow> vga" where
  "system_time_round = (\<lambda>(ticks_high, ticks_low) v.
     put_row (get_time_string ticks_high ticks_low) 72 (put_row day 61 v))"

text \<open>\<^verbatim>\<open>system_time_proc\<close> never returns: the screen after the rounds with the given counter values.\<close>

definition system_time_proc :: "(u32 \<times> u32) list \<Rightarrow> vga \<Rightarrow> vga" where
  "system_time_proc clock v = fold system_time_round clock v"

definition get_time :: "u32 \<Rightarrow> u32 \<Rightarrow> u8 list \<Rightarrow> u32 \<Rightarrow> u8 list res" where
  "get_time ticks_high ticks_low buf len =
     rbind (kernel_assert (9 \<le>s len) ()) (\<lambda>_.
       if length buf < 9 then Inl Fault
       else Inr (get_time_string ticks_high ticks_low @ 0 # drop 9 buf))"

section \<open>What it does\<close>

text \<open>The text of a number of seconds, as a clock shows it.\<close>

definition two_digits :: "nat \<Rightarrow> u8 list" where
  "two_digits n = [of_nat (n div 10 + 48), of_nat (n mod 10 + 48)]"

definition clock_text :: "nat \<Rightarrow> u8 list" where
  "clock_text s = two_digits (s div 3600 mod 24) @ [58] @ two_digits (s div 60 mod 60) @ [58] @ two_digits (s mod 60)"

lemma unat_div_mod:
  fixes x :: u32
  shows "unat (x div k) = unat x div unat k" "unat (x mod k) = unat x mod unat k"
  by (simp_all add: unat_div unat_mod)

lemma digit_byte:
  fixes x :: u32
  assumes "unat x < 100"
  shows "ucast (x div 10 + 48) = (of_nat (unat x div 10 + 48) :: u8)"
    and "ucast (x mod 10 + 48) = (of_nat (unat x mod 10 + 48) :: u8)"
proof -
  have "unat (x div 10 + 48) = unat x div 10 + 48" "unat (x mod 10 + 48) = unat x mod 10 + 48"
    using assms by (simp_all add: unat_add_no_wrap unat_div_mod)
  then show "ucast (x div 10 + 48) = (of_nat (unat x div 10 + 48) :: u8)"
    and "ucast (x mod 10 + 48) = (of_nat (unat x mod 10 + 48) :: u8)"
    by (metis of_nat_unat)+
qed

lemma shifted_ticks:
  fixes hi lo :: u32
  assumes "hi < 256"
  shows "drop_bit 8 hi = 0"
    and "unat (drop_bit 8 lo OR push_bit 24 hi) = (unat hi * 4294967296 + unat lo) div 256"
proof -
  have hi: "unat hi < 256" using assms by (simp add: word_less_nat_alt)
  have d: "unat (drop_bit 8 w) = unat w div 256" for w :: u32
    unfolding unsigned_drop_bit_eq by (simp add: drop_bit_eq_div take_bit_nat_eq_self)
  show "drop_bit 8 hi = 0" using hi by (intro word_unat_eq_iff [THEN iffD2]) (simp only: d, simp)
  have "unat (push_bit 24 hi) = unat hi * 16777216"
    unfolding unsigned_push_bit_eq using hi by (simp add: push_bit_eq_mult take_bit_nat_eq_self)
  moreover have "drop_bit 8 lo OR push_bit 24 hi = drop_bit 8 lo + push_bit 24 hi"
  proof (rule disjunctive_add_eq_or [symmetric], rule bit_word_eqI)
    fix n
    show "bit (drop_bit 8 lo AND push_bit 24 hi) n = bit 0 n"
      using bit_imp_le_length [of lo "8 + n"] by (auto simp: bit_simps)
  qed
  moreover have "unat lo div 256 < 16777216" by (simp add: less_mult_imp_div_less)
  ultimately show "unat (drop_bit 8 lo OR push_bit 24 hi) = (unat hi * 4294967296 + unat lo) div 256"
    using hi by (simp add: d unat_add_no_wrap del: drop_bit_eq_div push_bit_eq_mult)
qed

text \<open>
  the clock is right for the first 2^40 ticks (a little over three hours at 100 MHz):
  the text is that of the number of whole seconds the counter holds.
\<close>

lemma get_time_string_early:
  assumes "ticks_high < 256"
  shows "get_time_string ticks_high ticks_low
    = clock_text ((unat ticks_high * 4294967296 + unat ticks_low) div 100000000)"
proof -
  define s where "s = (drop_bit 8 ticks_low OR push_bit 24 ticks_high) div 390625"
  have "unat s = (unat ticks_high * 4294967296 + unat ticks_low) div 256 div 390625"
    unfolding s_def unat_div_mod shifted_ticks(2) [OF assms] by simp
  then have s: "(unat ticks_high * 4294967296 + unat ticks_low) div 100000000 = unat s"
    by (simp only: div_mult2_eq [symmetric]) simp
  have h: "unat (s div 60 div 60 mod 24) = unat s div 3600 mod 24"
    and m: "unat (s div 60 mod 60) = unat s div 60 mod 60" and c: "unat (s mod 60) = unat s mod 60"
    by (simp_all add: unat_div_mod div_mult2_eq [symmetric])
  have "get_time_string ticks_high ticks_low = two_digits (unat (s div 60 div 60 mod 24)) @ [58]
      @ two_digits (unat (s div 60 mod 60)) @ [58] @ two_digits (unat (s mod 60))"
    by (simp add: get_time_string_def Let_def two_digits_def digit_byte h m c shifted_ticks(1) [OF assms] s_def [symmetric])
  then show ?thesis unfolding clock_text_def s h m c .
qed

lemma get_time_string_early_witness: "get_time_string 3 0 = clock_text 128"
  using get_time_string_early [of 3 0] by simp

lemma get_time_string_late: "get_time_string 256 0 \<noteq> clock_text (2 ^ 40 div 100000000)"
  by (simp add: get_time_string_def clock_text_def two_digits_def)

end
