(* ===== verification/Ps2.thy ===== *)
theory Ps2
  imports Prelude
begin

text \<open>
  The keyboard driver \<^verbatim>\<open>driver/ps2.c\<close>: the interrupt handler that decodes scan codes into a
  32-entry buffer, and the polling side that takes keys out of it. The two registers at
  \<^verbatim>\<open>PS2_PHY\<close> belong to the keyboard controller, a parameter with a state of its own, read and
  written in the order of the code.
\<close>

definition CAPSLOCK_MASK :: u32 where "CAPSLOCK_MASK = 4"
definition SHIFT_MASK :: u32 where "SHIFT_MASK = 8"
definition CTRL_MASK :: u32 where "CTRL_MASK = 16"
definition ALT_MASK :: u32 where "ALT_MASK = 32"

record ps2 =
  key_codes :: "u32 list"
  key_ready :: "u32 list"
  buffer_wptr :: u32
  buffer_rptr :: u32
  key_buffer :: u32
  keyboard_cmd_state :: u32
  keyboard_state :: u32

record 'd keyboard =
  read_data :: "'d \<Rightarrow> u32 \<times> 'd"
  read_ctrl :: "'d \<Rightarrow> u32 \<times> 'd"
  write_data :: "u32 \<Rightarrow> 'd \<Rightarrow> 'd"
  write_ctrl :: "u32 \<Rightarrow> 'd \<Rightarrow> 'd"

definition init_buffer :: "ps2 \<Rightarrow> ps2" where
  "init_buffer s = s\<lparr>key_codes := replicate 32 0, key_ready := replicate 32 0, buffer_wptr := 0, buffer_rptr := 0\<rparr>"

text \<open>\<open>register\<close> is \<open>register_interrupt_handler\<close> (theory \<open>Pc\<close>) for \<open>ps2_handler\<close>, on the rest of the kernel.\<close>

definition init_ps2 :: "'d keyboard \<Rightarrow> (u32 \<Rightarrow> 'k \<Rightarrow> 'k res) \<Rightarrow> ps2 \<Rightarrow> 'd \<Rightarrow> 'k \<Rightarrow> (ps2 \<times> 'd \<times> 'k) res" where
  "init_ps2 kb register s d k =
     (let s = init_buffer s in rbind (register 2 k) (\<lambda>k. Inr (s, write_ctrl kb (-1) d, k)))"

section \<open>The interrupt handler\<close>

definition key_acknowledged :: "'d keyboard \<Rightarrow> ps2 \<Rightarrow> 'd \<Rightarrow> ps2 \<times> 'd" where
  "key_acknowledged kb s d =
     (let d = (if keyboard_cmd_state s = 1 then write_data kb (keyboard_state s AND 7) d else d)
      in (s\<lparr>keyboard_cmd_state := 0\<rparr>, d))"

definition enqueue_key :: "u32 \<Rightarrow> ps2 \<Rightarrow> ps2 res" where
  "enqueue_key key s =
     rbind (wr (key_codes s) (buffer_wptr s) key) (\<lambda>codes.
     rbind (wr (key_ready s) (buffer_wptr s) 1) (\<lambda>rdy.
     Inr (s\<lparr>key_codes := codes, key_ready := rdy, buffer_wptr := (buffer_wptr s + 1) AND 31\<rparr>)))"

text \<open>The \<^verbatim>\<open>switch (key_buffer)\<close>: the modifier keys.\<close>

definition key_switch :: "'d keyboard \<Rightarrow> u32 \<Rightarrow> ps2 \<Rightarrow> 'd \<Rightarrow> ps2 \<times> 'd" where
  "key_switch kb key s d =
     (let st = keyboard_state s in
      if key = 0x58 then
        (s\<lparr>keyboard_state := st XOR CAPSLOCK_MASK, keyboard_cmd_state := 1\<rparr>, write_data kb 0xed d)
      else if key = 0x12 \<or> key = 0x59 then (s\<lparr>keyboard_state := st OR SHIFT_MASK\<rparr>, d)
      else if key = 0xf012 \<or> key = 0xf059 then (s\<lparr>keyboard_state := st AND NOT SHIFT_MASK\<rparr>, d)
      else if key = 0x14 \<or> key = 0xe014 then (s\<lparr>keyboard_state := st OR CTRL_MASK\<rparr>, d)
      else if key = 0xf014 \<or> key = 0xe0f014 then (s\<lparr>keyboard_state := st AND NOT CTRL_MASK\<rparr>, d)
      else if key = 0x11 \<or> key = 0xe011 then (s\<lparr>keyboard_state := st OR ALT_MASK\<rparr>, d)
      else if key = 0xf011 \<or> key = 0xe0f011 then (s\<lparr>keyboard_state := st AND NOT ALT_MASK\<rparr>, d)
      else (s, d))"

text \<open>The rest of the loop body, for a byte that is not an acknowledgement.\<close>

definition key_byte :: "'d keyboard \<Rightarrow> u32 \<Rightarrow> ps2 \<Rightarrow> 'd \<Rightarrow> (ps2 \<times> 'd) res" where
  "key_byte kb data s d =
     (let key = push_bit 8 (key_buffer s) OR data; s = s\<lparr>key_buffer := key\<rparr> in
      if data < 0x80 then
        rbind (if key AND 0x7f = key then enqueue_key key s else Inr s) (\<lambda>s.
          let (s, d) = key_switch kb key s d in Inr (s\<lparr>key_buffer := 0\<rparr>, d))
      else Inr (s, d))"

text \<open>
  The loop may not end: the branch of an acknowledgement continues with the control word read
  before, so it goes on reading data until a byte of another kind arrives. \<open>None\<close> is no end.
\<close>

partial_function (option) ps2_loop :: "'d keyboard \<Rightarrow> u32 \<Rightarrow> ps2 \<Rightarrow> 'd \<Rightarrow> (ps2 \<times> 'd) res option" where
  "ps2_loop kb ctrl s d =
     (if 0 < ctrl AND 0x3f then
        let (data, d) = read_data kb d in
        if data = 0xfa then let (s, d) = key_acknowledged kb s d in ps2_loop kb ctrl s d
        else case key_byte kb data s d of
          Inl e \<Rightarrow> Some (Inl e)
        | Inr (s, d) \<Rightarrow> let (ctrl, d) = read_ctrl kb d in ps2_loop kb ctrl s d
      else Some (Inr (s, d)))"

definition ps2_handler :: "'d keyboard \<Rightarrow> ps2 \<Rightarrow> 'd \<Rightarrow> (ps2 \<times> 'd) res option" where
  "ps2_handler kb s d =
     (let (ctrl, d) = read_ctrl kb d in
      if drop_bit 16 ctrl AND 7 \<noteq> 0 then Some (Inr (s, d)) else ps2_loop kb ctrl s d)"

section \<open>Taking keys out\<close>

definition kernel_getkey :: "ps2 \<Rightarrow> (u32 \<times> ps2) res" where
  "kernel_getkey s =
     rbind (rd (key_ready s) (buffer_rptr s)) (\<lambda>r.
     if r = 0 then Inr (0xfff, s)
     else rbind (rd (key_codes s) (buffer_rptr s)) (\<lambda>temp.
       rbind (wr (key_ready s) (buffer_rptr s) 0) (\<lambda>rdy.
       let s = s\<lparr>key_ready := rdy, buffer_rptr := buffer_rptr s + 1\<rparr> in
       Inr (temp, if buffer_rptr s = 32 then init_buffer s else s))))"

definition scantoascii_uppercase :: "8 word list" where
  "scantoascii_uppercase = [
     0xff, 0xff, 0xff, 0xff, 0xff, 0xff, 0xff, 0xff, 0xff, 0xff, 0xff, 0xff, 0xff, 0x09, 0x7e, 0xff,
     0xff, 0xff, 0xff, 0xff, 0xff, 0x51, 0x21, 0xff, 0xff, 0xff, 0x5a, 0x53, 0x41, 0x57, 0x40, 0xff,
     0xff, 0x43, 0x58, 0x44, 0x45, 0x24, 0x23, 0xff, 0xff, 0x20, 0x56, 0x46, 0x54, 0x52, 0x25, 0xff,
     0xff, 0x4e, 0x42, 0x48, 0x47, 0x59, 0x5e, 0xff, 0xff, 0xff, 0x4d, 0x4a, 0x55, 0x26, 0x2a, 0xff,
     0xff, 0x3c, 0x4b, 0x49, 0x4f, 0x29, 0x28, 0xff, 0xff, 0x3e, 0x3f, 0x4c, 0x3a, 0x50, 0x5f, 0xff,
     0xff, 0xff, 0x22, 0xff, 0x7b, 0x2b, 0xff, 0xff, 0xff, 0xff, 0x0a, 0x7d, 0xff, 0x7c, 0xff, 0xff,
     0xff, 0xff, 0xff, 0xff, 0xff, 0xff, 0x08, 0xff, 0xff, 0xff, 0xff, 0xff, 0xff, 0xff, 0xff, 0xff,
     0xff, 0xff, 0xff, 0xff, 0xff, 0xff, 0x1b, 0xff, 0xff, 0xff, 0xff, 0xff, 0xff, 0xff, 0xff, 0xff]"

definition scantoascii_lowercase :: "8 word list" where
  "scantoascii_lowercase = [
     0xff, 0xff, 0xff, 0xff, 0xff, 0xff, 0xff, 0xff, 0xff, 0xff, 0xff, 0xff, 0xff, 0x09, 0x60, 0xff,
     0xff, 0xff, 0xff, 0xff, 0xff, 0x71, 0x31, 0xff, 0xff, 0xff, 0x7a, 0x73, 0x61, 0x77, 0x32, 0xff,
     0xff, 0x63, 0x78, 0x64, 0x65, 0x34, 0x33, 0xff, 0xff, 0x20, 0x76, 0x66, 0x74, 0x72, 0x35, 0xff,
     0xff, 0x6e, 0x62, 0x68, 0x67, 0x79, 0x36, 0xff, 0xff, 0xff, 0x6d, 0x6a, 0x75, 0x37, 0x38, 0xff,
     0xff, 0x2c, 0x6b, 0x69, 0x6f, 0x30, 0x39, 0xff, 0xff, 0x2e, 0x2f, 0x6c, 0x3b, 0x70, 0x2d, 0xff,
     0xff, 0xff, 0x27, 0xff, 0x5b, 0x3d, 0xff, 0xff, 0xff, 0xff, 0x0a, 0x5d, 0xff, 0x5c, 0xff, 0xff,
     0xff, 0xff, 0xff, 0xff, 0xff, 0xff, 0x08, 0xff, 0xff, 0xff, 0xff, 0xff, 0xff, 0xff, 0xff, 0xff,
     0xff, 0xff, 0xff, 0xff, 0xff, 0xff, 0x1b, 0xff, 0xff, 0xff, 0xff, 0xff, 0xff, 0xff, 0xff, 0xff]"

text \<open>The tables hold \<^verbatim>\<open>signed char\<close>: the cast to \<^verbatim>\<open>int\<close> makes \<^verbatim>\<open>0xff\<close> the value -1.\<close>

definition kernel_scantoascii :: "u32 \<Rightarrow> ps2 \<Rightarrow> u32 res" where
  "kernel_scantoascii key s =
     (if key AND 0x7f \<noteq> key then Inr (-1)
      else if (keyboard_state s AND CAPSLOCK_MASK = 0) \<noteq> (keyboard_state s AND SHIFT_MASK = 0)
      then rbind (rd scantoascii_uppercase key) (\<lambda>c. Inr (scast c))
      else rbind (rd scantoascii_lowercase key) (\<lambda>c. Inr (scast c)))"

text \<open>\<^verbatim>\<open>while (cycle--);\<close> leaves the counter at -1; the loop does nothing else.\<close>

function sleep_cycles :: "u32 \<Rightarrow> u32" where
  "sleep_cycles cycle = (if cycle = 0 then cycle - 1 else sleep_cycles (cycle - 1))"
  by pat_completeness auto
termination by (relation "measure unat") (auto simp: unat_pred_pos unat_gt_0)

declare sleep_cycles.simps [simp del]

text \<open>
  The polling loop: \<open>irq n\<close> is what the interrupts taken while the n-th \<^verbatim>\<open>sleep\<close> counts down do to
  the driver's state.
\<close>

partial_function (option) getchar_loop :: "(nat \<Rightarrow> ps2 \<Rightarrow> ps2) \<Rightarrow> nat \<Rightarrow> ps2 \<Rightarrow> (u32 \<times> ps2) res option" where
  "getchar_loop irq n s =
     (case rbind (kernel_getkey s) (\<lambda>(key, s). rbind (kernel_scantoascii key s) (\<lambda>c. Inr (c, s))) of
        Inl e \<Rightarrow> Some (Inl e)
      | Inr (c, s) \<Rightarrow> let s = irq n s in if c = -1 then getchar_loop irq (n + 1) s else Some (Inr (c, s)))"

definition kernel_getchar :: "(nat \<Rightarrow> ps2 \<Rightarrow> ps2) \<Rightarrow> ps2 \<Rightarrow> (u32 \<times> ps2) res option" where
  "kernel_getchar irq s = getchar_loop irq 0 s"

section \<open>What it does\<close>

text \<open>
  The keys waiting, oldest first: the entries from the read position on are ready, the rest are
  not, and the write position is where the next one goes.
\<close>

definition waiting :: "u32 list \<Rightarrow> ps2 \<Rightarrow> bool" where
  "waiting q s \<longleftrightarrow> length (key_codes s) = 32 \<and> length (key_ready s) = 32
     \<and> unat (buffer_rptr s) < 32 \<and> length q \<le> 32
     \<and> buffer_wptr s = of_nat ((unat (buffer_rptr s) + length q) mod 32)
     \<and> (\<forall>j<32. key_ready s ! ((unat (buffer_rptr s) + j) mod 32) = (if j < length q then 1 else 0))
     \<and> (\<forall>j<length q. key_codes s ! ((unat (buffer_rptr s) + j) mod 32) = q ! j)"

text \<open>Two offsets below the length of a ring reach the same entry only when they are equal.\<close>

lemma mod_add_less_neq:
  fixes r n k :: nat
  assumes "r < n" "0 < k" "k < n"
  shows "(r + k) mod n \<noteq> r"
proof (cases "r + k < n")
  case False
  then have "(r + k) mod n = r + k - n" using assms by (simp add: le_mod_geq)
  then show ?thesis using assms False by linarith
qed (use assms in simp)

lemma mod_add_eq_iff:
  fixes r n i j :: nat
  assumes "i < n" "j < n"
  shows "(r + i) mod n = (r + j) mod n \<longleftrightarrow> i = j"
proof -
  have neq: "(r + i) mod n \<noteq> (r + j) mod n" if "i < j" "j < n" for i j
  proof -
    have "r + j = (r + i) + (j - i)" using that by simp
    then have "(r + j) mod n = ((r + i) mod n + (j - i)) mod n" by (metis mod_add_left_eq)
    moreover have "(r + i) mod n < n" using that by simp
    moreover have "0 < j - i" "j - i < n" using that by simp_all
    ultimately show ?thesis by (metis mod_add_less_neq)
  qed
  show ?thesis using neq [of i j] neq [of j i] assms by (cases i j rule: linorder_cases) auto
qed

lemma enqueue_key_waiting:
  assumes "waiting q s" and "length q < 32"
  shows "\<exists>s'. enqueue_key key s = Inr s' \<and> waiting (q @ [key]) s' \<and> keyboard_state s' = keyboard_state s"
proof -
  let ?r = "unat (buffer_rptr s)" and ?w = "(unat (buffer_rptr s) + length q) mod 32"
  have len: "length (key_codes s) = 32" "length (key_ready s) = 32" using assms(1) by (simp_all add: waiting_def)
  have w: "unat (buffer_wptr s) = ?w"
  proof -
    have "?w < 32" by simp
    then show ?thesis using assms(1) unfolding waiting_def by (simp add: unat_of_nat)
  qed
  have nx: "(buffer_wptr s + 1) AND 31 = of_nat ((?r + length (q @ [key])) mod 32)"
  proof -
    have t: "(31 :: u32) = mask 5" by (simp add: mask_eq_exp_minus_1)
    have "unat ((buffer_wptr s + 1) AND 31) = (?w + 1) mod 32"
      unfolding t take_bit_eq_mask [symmetric] unsigned_take_bit_eq
      using w by (simp add: take_bit_eq_mod unat_add_no_wrap)
    also have "\<dots> = (?r + length (q @ [key])) mod 32" by (simp add: mod_simps)
    finally have "unat ((buffer_wptr s + 1) AND 31) = (?r + length (q @ [key])) mod 32" .
    then show ?thesis by (metis of_nat_unat ucast_id)
  qed
  have inj: "(?r + j) mod 32 = ?w \<longleftrightarrow> j = length q" if "j < 32" for j
    using mod_add_eq_iff [of j 32 "length q" ?r] that assms(2) by simp
  define s' where "s' = s\<lparr>key_codes := (key_codes s)[?w := key], key_ready := (key_ready s)[?w := 1],
      buffer_wptr := (buffer_wptr s + 1) AND 31\<rparr>"
  have "enqueue_key key s = Inr s'"
    using w len by (simp add: enqueue_key_def s'_def)
  moreover have "waiting (q @ [key]) s'"
  proof -
    have "key_ready s' ! ((?r + j) mod 32) = (if j < length (q @ [key]) then 1 else 0)" if "j < 32" for j
    proof -
      have "key_ready s ! ((?r + j) mod 32) = (if j < length q then 1 else 0)"
        using assms(1) that by (simp add: waiting_def)
      then show ?thesis using inj [OF that] len by (cases "j = length q") (simp_all add: s'_def nth_list_update)
    qed
    moreover have "key_codes s' ! ((?r + j) mod 32) = (q @ [key]) ! j" if "j < length (q @ [key])" for j
    proof -
      have "key_codes s ! ((?r + j) mod 32) = q ! j" if "j < length q"
        using assms(1) that by (simp add: waiting_def)
      then show ?thesis using inj [of j] len that assms(2)
        by (auto simp: s'_def nth_list_update nth_append less_Suc_eq)
    qed
    ultimately show ?thesis using assms nx len by (simp add: waiting_def s'_def)
  qed
  ultimately show ?thesis by (auto simp: s'_def)
qed

lemma kernel_getkey_waiting:
  assumes "waiting (key # q) s"
  shows "\<exists>s'. kernel_getkey s = Inr (key, s') \<and> waiting (if buffer_rptr s = 31 then [] else q) s'"
proof -
  let ?r = "unat (buffer_rptr s)"
  define s' where "s' = s\<lparr>key_ready := (key_ready s)[?r := 0], buffer_rptr := buffer_rptr s + 1\<rparr>"
  have r: "?r < 32" "length q < 32" and len: "length (key_codes s) = 32" "length (key_ready s) = 32"
    and rdy: "\<And>j. j < 32 \<Longrightarrow> key_ready s ! ((?r + j) mod 32) = (if j < Suc (length q) then 1 else 0)"
    and codes: "\<And>j. j < Suc (length q) \<Longrightarrow> key_codes s ! ((?r + j) mod 32) = (key # q) ! j"
    and w: "buffer_wptr s = of_nat ((?r + Suc (length q)) mod 32)"
    using assms by (simp_all add: waiting_def)
  have u: "unat (buffer_rptr s + 1) = ?r + 1" using r by (simp add: unat_add_no_wrap)
  have last: "buffer_rptr s + 1 = 32 \<longleftrightarrow> buffer_rptr s = 31" 
    using add_right_cancel [of "buffer_rptr s" 1 31] by simp
  have "kernel_getkey s = Inr (key, if buffer_rptr s = 31 then init_buffer s' else s')"
    using r rdy [of 0] codes [of 0] by (simp add: kernel_getkey_def len s'_def Let_def last)
  moreover have "waiting [] (init_buffer s')" by (simp add: waiting_def init_buffer_def)
  moreover have "waiting q s'" if "buffer_rptr s \<noteq> 31"
  proof -
    have "?r \<noteq> unat (31 :: u32)" using that by (simp only: word_unat_eq_iff [symmetric] not_False_eq_True)
    then have r1: "?r + 1 < 32" using r by simp
    have step: "(?r + 1 + j) mod 32 = (?r + Suc j) mod 32" for j by simp
    have "((key_ready s)[?r := 0]) ! ((?r + 1 + j) mod 32) = (if j < length q then 1 else 0)" if "j < 32" for j
    proof (cases "j = 31")
      case False
      then have "(?r + Suc j) mod 32 \<noteq> ?r" using mod_add_less_neq [of ?r 32 "Suc j"] that r(1) by simp
      then show ?thesis using rdy [of "Suc j"] that False unfolding step by simp
    qed (use r r1 len in simp)
    moreover have "key_codes s ! ((?r + 1 + j) mod 32) = q ! j" if "j < length q" for j
      using codes [of "Suc j"] that unfolding step by simp
    ultimately show ?thesis using r1 r(2) w len
      by (auto simp: waiting_def s'_def u step [simplified])
  qed
  ultimately show ?thesis by auto
qed

text \<open>
  C35. the keyboard buffer is a queue with one hole: \<^verbatim>\<open>kernel_getkey\<close> returns the oldest key waiting
  and leaves the others, except at the last entry of the buffer, where \<^verbatim>\<open>init_buffer\<close> throws
  away every key that the interrupt handler has stored at the front in the meantime.
\<close>

theorem kernel_getkey_oldest:
  assumes "waiting (key # q) s"
  shows "\<exists>s'. kernel_getkey s = Inr (key, s') \<and> waiting (if buffer_rptr s = 31 then [] else q) s'"
  by (rule kernel_getkey_waiting [OF assms])

definition demo_keys :: ps2 where
  "demo_keys = \<lparr>key_codes = (replicate 32 0)[31 := 0x1c, 0 := 0x32], key_ready = (replicate 32 0)[31 := 1, 0 := 1],
     buffer_wptr = 1, buffer_rptr = 31, key_buffer = 0, keyboard_cmd_state = 0, keyboard_state = 0\<rparr>"

lemma demo_keys_waiting: "waiting [0x1c, 0x32] demo_keys"
  by code_simp

theorem kernel_getkey_oldest_witness:
  "\<exists>s'. kernel_getkey demo_keys = Inr (0x1c, s') \<and> waiting [] s'"
  using kernel_getkey_oldest [OF demo_keys_waiting] by (simp add: demo_keys_def)
end
