(* ===== verification/Fat.thy ===== *)
theory Fat
  imports FsCache
begin

text \<open>
  The FAT32 file system, \<^verbatim>\<open>kernel/fs/fat/fat.c\<close> and the table access of \<^verbatim>\<open>fat/utils.c\<close>, over the
  buffers of \<open>FsCache\<close>. The state holds the globals of \<^verbatim>\<open>fat.c\<close>, \<^verbatim>\<open>dir.c\<close> and \<^verbatim>\<open>usr.c\<close>, the
  device, and what a call gets by pointer: its \<^verbatim>\<open>FILE\<close>, its \<^verbatim>\<open>FS_FAT_DIR\<close> and its data buffer. An operation gives \<open>None\<close> where the code jumps to its
  error label and returns its error value; a loop that never ends is \<open>Hang\<close>.
\<close>

definition FAT_BUF_NUM :: u32 where "FAT_BUF_NUM = 2"
definition DIR_DATA_BUF_NUM :: u32 where "DIR_DATA_BUF_NUM = 4"
definition LOCAL_DATA_BUF_NUM :: u32 where "LOCAL_DATA_BUF_NUM = 4"

record FILE =
  path :: "u8 list"
  loc :: u32
  dir_entry_pos :: u32
  dir_entry_sector :: u32
  entry :: "u8 list"
  file_clock :: u32
  data_buf :: "BUF list"

record FS_FAT_DIR =
  cur_sector :: u32
  dir_loc :: u32
  dir_sec :: u32

record 'd fat =
  fat_info :: fs_info
  fat_clock_head :: u32
  fat_buf :: "BUF list"
  filename11 :: "u8 list"
  new_alloc_empty :: "u8 list"
  dir_data_buf :: "BUF list"
  dir_data_clock_head :: u32
  fdev :: 'd
  fil :: FILE
  ubuf :: "u8 list"
  fdir :: FS_FAT_DIR
  dir_find :: FILE
  file_create :: FILE
  mk_dir_buf :: "u8 list"

section \<open>Operations that may jump to their error label\<close>

type_synonym ('a, 'd) fop = "'d fat \<Rightarrow> ('a option \<times> 'd fat) res"

definition fret :: "'a \<Rightarrow> ('a, 'd) fop" where "fret x s = Inr (Some x, s)"
definition ferr :: "('a, 'd) fop" where "ferr s = Inr (None, s)"

definition fbind :: "('a, 'd) fop \<Rightarrow> ('a \<Rightarrow> ('b, 'd) fop) \<Rightarrow> ('b, 'd) fop" where
  "fbind m f s = rbind (m s) (\<lambda>(r, s). case r of None \<Rightarrow> Inr (None, s) | Some x \<Rightarrow> f x s)"

definition flift :: "'a res \<Rightarrow> ('a, 'd) fop" where
  "flift r s = rbind r (\<lambda>x. Inr (Some x, s))"

definition fget :: "('d fat \<Rightarrow> ('a, 'd) fop) \<Rightarrow> ('a, 'd) fop" where "fget f s = f s s"
definition fupd :: "('d fat \<Rightarrow> 'd fat) \<Rightarrow> (unit, 'd) fop" where "fupd f s = Inr (Some (), f s)"

text \<open>A loop whose body ends with a result or with the values of the next round.\<close>

partial_function (option) frepeat ::
  "('b \<Rightarrow> ('a + 'b, 'd) fop) \<Rightarrow> 'b \<Rightarrow> 'd fat \<Rightarrow> ('a option \<times> 'd fat) res option" where
  "frepeat body b s = (case body b s of
     Inl e \<Rightarrow> Some (Inl e)
   | Inr (r, s) \<Rightarrow> (case r of None \<Rightarrow> Some (Inr (None, s))
       | Some (Inl x) \<Rightarrow> Some (Inr (Some x, s))
       | Some (Inr b) \<Rightarrow> frepeat body b s))"

definition fwhile :: "('b \<Rightarrow> ('a + 'b, 'd) fop) \<Rightarrow> 'b \<Rightarrow> ('a, 'd) fop" where
  "fwhile body b s = (case frepeat body b s of None \<Rightarrow> Inl Hang | Some r \<Rightarrow> r)"

section \<open>Blocks\<close>

text \<open>A device call fails when it returns 1, a cached read when its index is \<^verbatim>\<open>0xffffffff\<close>.\<close>

definition fs_dev_read :: "'d block_io \<Rightarrow> u8 list \<Rightarrow> u32 \<Rightarrow> u32 \<Rightarrow> (u32 \<times> u8 list, 'd) fop" where
  "fs_dev_read io buf sec n s =
     rbind (blk_read io buf sec n (fdev s)) (\<lambda>(r, bytes, d). Inr (Some (r, bytes), s\<lparr>fdev := d\<rparr>))"

definition fs_dev_write :: "'d block_io \<Rightarrow> u8 list \<Rightarrow> u32 \<Rightarrow> u32 \<Rightarrow> (unit, 'd) fop" where
  "fs_dev_write io buf sec n s =
     rbind (blk_write io buf sec n (fdev s)) (\<lambda>(r, d). Inr (if r = 1 then None else Some (), s\<lparr>fdev := d\<rparr>))"

definition read_dir :: "'d block_io \<Rightarrow> u32 \<Rightarrow> (u32, 'd) fop" where
  "read_dir io sec s =
     rbind (fs_read_512 io (fat_info s) (dir_data_buf s) sec (dir_data_clock_head s) DIR_DATA_BUF_NUM (fdev s))
       (\<lambda>(index, bufs, head, d). Inr (if index = 0xffffffff then None else Some index,
          s\<lparr>dir_data_buf := bufs, dir_data_clock_head := head, fdev := d\<rparr>))"

definition read_data_block :: "'d block_io \<Rightarrow> u32 \<Rightarrow> (u32, 'd) fop" where
  "read_data_block io sec s =
     rbind (fs_read_4k io (fat_info s) (data_buf (fil s)) sec (file_clock (fil s)) LOCAL_DATA_BUF_NUM (fdev s))
       (\<lambda>(index, bufs, head, d). Inr (if index = 0xffffffff then None else Some index,
          s\<lparr>fil := (fil s)\<lparr>data_buf := bufs, file_clock := head\<rparr>, fdev := d\<rparr>))"

definition clear_dir :: "'d block_io \<Rightarrow> u32 \<Rightarrow> (unit, 'd) fop" where
  "clear_dir io sec s =
     rbind (fs_clr_512 io (dir_data_buf s) (dir_data_clock_head s) DIR_DATA_BUF_NUM sec (fdev s))
       (\<lambda>(r, bufs, head, d). Inr (if r = 1 then None else Some (),
          s\<lparr>dir_data_buf := bufs, dir_data_clock_head := head, fdev := d\<rparr>))"

definition clear_data :: "'d block_io \<Rightarrow> u32 \<Rightarrow> (unit, 'd) fop" where
  "clear_data io sec s =
     rbind (fs_clr_4k io (fat_info s) (data_buf (fil s)) (file_clock (fil s)) LOCAL_DATA_BUF_NUM sec (fdev s))
       (\<lambda>(r, bufs, head, d). Inr (if r = 1 then None else Some (),
          s\<lparr>fil := (fil s)\<lparr>data_buf := bufs, file_clock := head\<rparr>, fdev := d\<rparr>))"

definition dir_block :: "u32 \<Rightarrow> (BUF, 'd) fop" where
  "dir_block index = fget (\<lambda>s. flift (rd (dir_data_buf s) index))"

definition set_dir_block :: "u32 \<Rightarrow> BUF \<Rightarrow> (unit, 'd) fop" where
  "set_dir_block index b = fupd (\<lambda>s. s\<lparr>dir_data_buf := (dir_data_buf s)[unat index := b]\<rparr>)"

section \<open>Initialisation\<close>

text \<open>
  The parameter block stays in \<^verbatim>\<open>fat_info.BPB\<close>; the model keeps the members that are read. The
  messages of \<^verbatim>\<open>log\<close> are left out. The result is the code's: 0 or 1.
\<close>

definition zero_info :: fs_info where
  "zero_info = \<lparr>base_addr = 0, total_data_clusters = 0, first_data_sector = 0,
     BPB = \<lparr>sector_size = 0, sectors_per_cluster = 0, reserved_sectors = 0, max_root_dir_entries = 0,
       num_of_small_sectors = 0, sectors_per_fat16 = 0, num_of_sectors = 0, num_of_sectors_per_fat = 0\<rparr>,
     fat_fs_info = replicate 512 0\<rparr>"

definition upd_info :: "(fs_info \<Rightarrow> fs_info) \<Rightarrow> (unit, 'd) fop" where
  "upd_info f = fupd (\<lambda>s. s\<lparr>fat_info := f (fat_info s)\<rparr>)"

definition checked_info :: "(unit, 'd) fop" where
  "checked_info = fget (\<lambda>s. let bpb = BPB (fat_info s) in
     if sector_size bpb \<noteq> 512 then ferr
     else if max_root_dir_entries bpb \<noteq> 0 then ferr
     else if sectors_per_fat16 bpb \<noteq> 0 then ferr
     else if num_of_small_sectors bpb \<noteq> 0 then ferr
     else
       let total_data_sectors = num_of_sectors bpb - ucast (reserved_sectors bpb) - num_of_sectors_per_fat bpb * 2;
           spc = ucast (sectors_per_cluster bpb)
       in if spc = 0 then flift (Inl Fault)
          else fbind (upd_info (\<lambda>i. i\<lparr>total_data_clusters := total_data_sectors div spc\<rparr>)) (\<lambda>_.
            if total_data_sectors div spc < 65525 then ferr
            else upd_info (\<lambda>i. i\<lparr>first_data_sector := ucast (reserved_sectors bpb) + num_of_sectors_per_fat bpb * 2\<rparr>)))"

definition init_fat_info :: "'d block_io \<Rightarrow> (unit, 'd) fop" where
  "init_fat_info io =
     fbind (upd_info (\<lambda>_. zero_info)) (\<lambda>_.
     fbind (fs_dev_read io (replicate 512 0) 0 1) (\<lambda>(r, meta_buf).
     if r = 1 then ferr else
     fbind (flift (get_u32 meta_buf (446 + 8))) (\<lambda>base.
     fbind (upd_info (\<lambda>i. i\<lparr>base_addr := base\<rparr>)) (\<lambda>_.
     fbind (fs_dev_read io (replicate 512 0) base 1) (\<lambda>(r, bpb).
     if r = 1 then ferr else
     fbind (flift (BPB_attr_of bpb)) (\<lambda>bpb.
     fbind (upd_info (\<lambda>i. i\<lparr>BPB := bpb\<rparr>)) (\<lambda>_.
     fbind checked_info (\<lambda>_.
     fbind (fget (\<lambda>s. fs_dev_read io (fat_fs_info (fat_info s)) (1 + base) 1)) (\<lambda>(r, bytes).
     upd_info (\<lambda>i. i\<lparr>fat_fs_info := bytes\<rparr>))))))))))"

definition fresh_buf :: "BUF \<Rightarrow> BUF" where
  "fresh_buf b = b\<lparr>cur := 0xffffffff, state := 0\<rparr>"

definition init_fat_buf :: "'d fat \<Rightarrow> 'd fat" where
  "init_fat_buf s = s\<lparr>fat_buf := map fresh_buf (fat_buf s)\<rparr>"

definition init_dir_buf :: "'d fat \<Rightarrow> 'd fat" where
  "init_dir_buf s = s\<lparr>dir_data_buf := map fresh_buf (dir_data_buf s)\<rparr>"

definition init_fs :: "'d block_io \<Rightarrow> (unit, 'd) fop" where
  "init_fs io = fbind (init_fat_info io) (\<lambda>_. fbind (fupd init_fat_buf) (\<lambda>_. fupd init_dir_buf))"

section \<open>The allocation table\<close>

definition write_fat_sector :: "'d block_io \<Rightarrow> u32 \<Rightarrow> (unit, 'd) fop" where
  "write_fat_sector io index =
     fbind (fget (\<lambda>s. flift (rd (fat_buf s) index))) (\<lambda>b.
     if cur b \<noteq> 0xffffffff \<and> state b AND 2 \<noteq> 0 then
       fbind (fs_dev_write io (bdata b) (cur b) 1) (\<lambda>_.
       fbind (fget (\<lambda>s. fs_dev_write io (bdata b) (num_of_sectors_per_fat (BPB (fat_info s)) + cur b) 1)) (\<lambda>_.
       fupd (\<lambda>s. s\<lparr>fat_buf := (fat_buf s)[unat index := b\<lparr>state := state b AND 1\<rparr>]\<rparr>)))
     else fret ())"

definition read_fat_sector :: "'d block_io \<Rightarrow> u32 \<Rightarrow> (u32, 'd) fop" where
  "read_fat_sector io ThisFATSecNum =
     fbind (fget (\<lambda>s. flift (find_buf (fat_buf s) ThisFATSecNum (unat FAT_BUF_NUM) 0))) (\<lambda>index.
     if index = FAT_BUF_NUM then
       fbind (\<lambda>s. rbind (fs_victim_512 (fat_buf s) (fat_clock_head s) FAT_BUF_NUM) (\<lambda>(index, bufs, head).
         Inr (Some index, s\<lparr>fat_buf := bufs, fat_clock_head := head\<rparr>))) (\<lambda>index.
       fbind (write_fat_sector io index) (\<lambda>_.
       fbind (fget (\<lambda>s. flift (rd (fat_buf s) index))) (\<lambda>b.
       fbind (fs_dev_read io (bdata b) ThisFATSecNum 1) (\<lambda>(r, bytes).
       if r = 1 then fbind (fupd (\<lambda>s. s\<lparr>fat_buf := (fat_buf s)[unat index := b\<lparr>bdata := bytes\<rparr>]\<rparr>)) (\<lambda>_. ferr)
       else fbind (fupd (\<lambda>s. s\<lparr>fat_buf := (fat_buf s)[unat index := \<lparr>bdata = bytes, cur = ThisFATSecNum, state = 1\<rparr>]\<rparr>))
         (\<lambda>_. fret index)))))
     else
       fbind (fget (\<lambda>s. flift (rd (fat_buf s) index))) (\<lambda>b.
       fbind (fupd (\<lambda>s. s\<lparr>fat_buf := (fat_buf s)[unat index := b\<lparr>state := state b OR 1\<rparr>]\<rparr>)) (\<lambda>_. fret index)))"

definition get_fat_entry_value :: "'d block_io \<Rightarrow> u32 \<Rightarrow> (u32, 'd) fop" where
  "get_fat_entry_value io clus =
     fget (\<lambda>s. let (ThisFATSecNum, ThisFATEntOffset) = cluster_to_fat_entry (fat_info s) clus in
     fbind (read_fat_sector io ThisFATSecNum) (\<lambda>index.
     fbind (fget (\<lambda>s. flift (rd (fat_buf s) index))) (\<lambda>b.
     fbind (flift (get_u32 (bdata b) ThisFATEntOffset)) (\<lambda>v. fret (v AND 0x0FFFFFFF)))))"

definition fs_modify_fat :: "'d block_io \<Rightarrow> u32 \<Rightarrow> u32 \<Rightarrow> (unit, 'd) fop" where
  "fs_modify_fat io clus ClusEntryVal =
     fget (\<lambda>s. let (ThisFATSecNum, ThisFATEntOffset) = cluster_to_fat_entry (fat_info s) clus in
     fbind (read_fat_sector io ThisFATSecNum) (\<lambda>index.
     fbind (fget (\<lambda>s. flift (rd (fat_buf s) index))) (\<lambda>b.
     fbind (flift (get_u32 (bdata b) ThisFATEntOffset)) (\<lambda>old.
     fbind (flift (set_u32 (bdata b) ThisFATEntOffset ((old AND 0xF0000000) OR (ClusEntryVal AND 0x0FFFFFFF)))) (\<lambda>bytes.
     fupd (\<lambda>s. s\<lparr>fat_buf := (fat_buf s)[unat index := b\<lparr>bdata := bytes, state := 3\<rparr>]\<rparr>))))))"

end
