(* ===== verification/FatPath.thy ===== *)
theory FatPath
  imports FatUtils
begin

text \<open>
  Names in \<^verbatim>\<open>kernel/fs/fat/fat.c\<close>: \<^verbatim>\<open>fs_next_slash\<close> turns the next component of a path into the
  11-byte name of a directory entry, \<^verbatim>\<open>fs_cmp_filename\<close> compares two of these, and
  \<^verbatim>\<open>get_filename\<close> turns one back into text.
\<close>

section \<open>From a path to an entry\<close>

text \<open>The position of the terminator or of the slash; running off the path is a fault.\<close>

primrec next_slash :: "u8 list \<Rightarrow> nat res" where
  "next_slash [] = Inl Fault"
| "next_slash (c # f) = (if c \<noteq> 0 \<and> c \<noteq> 47 then rbind (next_slash f) (\<lambda>i. Inr (Suc i)) else Inr 0)"

definition upcase :: "u8 \<Rightarrow> u8" where
  "upcase c = (if 97 \<le> c \<and> c \<le> 122 then c - 97 + 65 else c)"

text \<open>\<^verbatim>\<open>chr11\<close>: at most 12 characters in upper case, zeros after them.\<close>

definition chr11_of :: "u8 list \<Rightarrow> nat \<Rightarrow> u8 list" where
  "chr11_of f i = map upcase (take (min 12 i) f) @ replicate (13 - min 12 i) 0"

text \<open>The loop up to the dot; it gives the position where it stops.\<close>

function copy_name :: "u8 list \<Rightarrow> nat \<Rightarrow> u8 list \<Rightarrow> nat \<times> u8 list" where
  "copy_name chr11 j filename11 =
     (if chr11 ! j \<noteq> 0 \<and> j < 12 \<and> chr11 ! j \<noteq> 46
      then copy_name chr11 (j + 1) (filename11[j := chr11 ! j]) else (j, filename11))"
  by pat_completeness auto
termination by (relation "measure (\<lambda>(chr11, j, filename11). 12 - j)") auto

function copy_ext :: "u8 list \<Rightarrow> nat \<Rightarrow> nat \<Rightarrow> u8 list \<Rightarrow> u8 list" where
  "copy_ext chr11 j k filename11 =
     (if chr11 ! j \<noteq> 0 \<and> j < 12 \<and> k < 11
      then copy_ext chr11 (j + 1) (k + 1) (filename11[k := chr11 ! j]) else filename11)"
  by pat_completeness auto
termination by (relation "measure (\<lambda>(chr11, j, k, filename11). 12 - j)") auto

declare copy_name.simps [simp del] copy_ext.simps [simp del]

text \<open>The length of the component and the 13 bytes of \<^verbatim>\<open>filename11\<close>, of which \<open>old12\<close> is not written.\<close>

definition fs_next_slash :: "u8 list \<Rightarrow> u8 \<Rightarrow> (nat \<times> u8 list) res" where
  "fs_next_slash f old12 =
     rbind (next_slash f) (\<lambda>i.
       let chr11 = chr11_of f i;
           (j, name) = copy_name chr11 0 (replicate 12 0x20 @ [old12]);
           name = (if chr11 ! j = 46 then copy_ext chr11 (j + 1) 8 name else name)
       in Inr (i, name[11 := 0]))"

text \<open>0 when the first 11 bytes agree; it stops at the first difference.\<close>

primrec cmp_bytes :: "nat \<Rightarrow> u8 list \<Rightarrow> u8 list \<Rightarrow> u32 res" where
  "cmp_bytes 0 f1 f2 = Inr 0"
| "cmp_bytes (Suc n) f1 f2 = rbind (rd f1 0) (\<lambda>a. rbind (rd f2 0) (\<lambda>b.
     if a \<noteq> b then Inr 1 else cmp_bytes n (tl f1) (tl f2)))"

definition fs_cmp_filename :: "u8 list \<Rightarrow> u8 list \<Rightarrow> u32 res" where
  "fs_cmp_filename f1 f2 = cmp_bytes 11 f1 f2"

section \<open>From an entry to text\<close>

text \<open>Bytes \<open>from\<close> to \<open>to - 1\<close> of an entry, and a terminator, at the start of a buffer.\<close>

definition entry_field :: "nat \<Rightarrow> nat \<Rightarrow> u8 list \<Rightarrow> u8 list \<Rightarrow> u8 list res" where
  "entry_field from to entry buf =
     rbind (rfold (\<lambda>i buf. rbind (rd entry (of_nat i)) (wr buf (of_nat (i - from)))) [from..<to] buf) (\<lambda>buf.
       wr buf (of_nat (to - from)) 0)"

definition get_filetime :: "u8 list \<Rightarrow> u8 list \<Rightarrow> u8 list res" where "get_filetime = entry_field 22 24"
definition get_filedate :: "u8 list \<Rightarrow> u8 list \<Rightarrow> u8 list res" where "get_filedate = entry_field 24 26"
definition get_filesize :: "u8 list \<Rightarrow> u8 list \<Rightarrow> u8 list res" where "get_filesize = entry_field 28 32"

text \<open>The first blank of the eight name characters becomes the dot; with none, the extension moves up.\<close>

definition place_dot :: "u8 list \<Rightarrow> (nat \<times> nat \<times> u8 list) res" where
  "place_dot buf =
     (case find (\<lambda>i. buf ! i = 0x20) [0..<8] of
        Some i \<Rightarrow> Inr (i, 8, buf[i := 46])
      | None \<Rightarrow>
          rbind (rfold (\<lambda>i buf. rbind (rd buf (of_nat (i - 1))) (wr buf (of_nat i))) [11, 10, 9] buf) (\<lambda>buf.
            Inr (8, 9, buf[8 := 46])))"

text \<open>The extension moves behind the dot up to a blank; \<open>n\<close> characters are left. It gives where it stops.\<close>

primrec move_ext :: "nat \<Rightarrow> nat \<Rightarrow> nat \<Rightarrow> u8 list \<Rightarrow> (nat \<times> u8 list) res" where
  "move_ext 0 i from buf = Inr (i, buf)"
| "move_ext (Suc n) i from buf = rbind (rd buf (of_nat from)) (\<lambda>c.
     if c \<noteq> 0x20 then rbind (wr buf (of_nat i) c) (move_ext n (i + 1) (from + 1)) else Inr (i, buf))"

definition get_filename :: "u8 list \<Rightarrow> u8 list \<Rightarrow> u8 list res" where
  "get_filename entry buf =
     rbind (rfold (\<lambda>i buf. rbind (rd entry (of_nat i)) (wr buf (of_nat i))) [0..<11] buf) (\<lambda>buf.
       if buf ! 0 = 46 then Inr (if buf ! 1 = 46 then buf[2 := 0] else buf[1 := 0])
       else rbind (place_dot buf) (\<lambda>(l1, l2, buf).
         rbind (move_ext 3 (l1 + 1) l2 buf) (\<lambda>(i, buf).
         rbind (wr buf (of_nat i) 0) (\<lambda>buf.
         Inr (if buf ! (i - 1) = 46 then buf[i - 1 := 0] else buf)))))"

section \<open>The round trip of a name\<close>

lemma unat_of_nat_small: "i < 4294967296 \<Longrightarrow> unat (of_nat i :: u32) = i"
  by (simp add: unat_of_nat)

text \<open>A character of a short name: none of the terminator, blank, dot and slash.\<close>

definition plain :: "u8 \<Rightarrow> bool" where
  "plain c \<longleftrightarrow> c \<noteq> 0 \<and> c \<noteq> 32 \<and> c \<noteq> 46 \<and> c \<noteq> 47"

lemma upcase_plain: "plain c \<Longrightarrow> plain (upcase c)"
proof (cases "97 \<le> c \<and> c \<le> 122")
  case True
  then have "97 \<le> unat c" "unat c \<le> 122" by (simp_all add: word_le_nat_alt)
  then have "unat (c - 97 + 65) = unat c - 32" by (simp add: unat_word_ariths unat_sub_if')
  then show ?thesis using True \<open>97 \<le> unat c\<close>
    by (auto simp: upcase_def plain_def word_unat_eq_iff)
qed (auto simp: upcase_def)

lemma next_slash_plain: "\<forall>c\<in>set cs. c \<noteq> 0 \<and> c \<noteq> 47 \<Longrightarrow> c = 0 \<or> c = 47 \<Longrightarrow> next_slash (cs @ c # rest) = Inr (length cs)"
  by (induction cs) auto

lemma copy_name_run:
  "(\<And>k. j \<le> k \<Longrightarrow> k < j + m \<Longrightarrow> chr ! k \<noteq> 0 \<and> chr ! k \<noteq> 46) \<Longrightarrow> chr ! (j + m) = 46 \<Longrightarrow> j + m \<le> 12
   \<Longrightarrow> 12 \<le> length fn \<Longrightarrow> j + m \<le> length chr
   \<Longrightarrow> copy_name chr j fn = (j + m, take j fn @ take m (drop j chr) @ drop (j + m) fn)"
proof (induction m arbitrary: j fn)
  case 0
  then show ?case by (subst copy_name.simps) simp
next
  case (Suc m)
  have c: "chr ! j \<noteq> 0 \<and> chr ! j \<noteq> 46" "j < 12" "j < length chr" using Suc.prems by auto
  have "copy_name chr j fn = copy_name chr (j + 1) (fn[j := chr ! j])"
    using c by (subst copy_name.simps) simp
  also have "\<dots> = (j + 1 + m, take (j + 1) (fn[j := chr ! j]) @ take m (drop (j + 1) chr) @ drop (j + 1 + m) (fn[j := chr ! j]))"
    using Suc.prems by (intro Suc.IH) auto
  also have "take (j + 1) (fn[j := chr ! j]) = take j fn @ [chr ! j]"
    using Suc.prems c by (simp add: take_update_last)
  finally show ?case using c by (simp add: Cons_nth_drop_Suc [symmetric])
qed

lemma copy_ext_run:
  "(\<And>x. x < m \<Longrightarrow> chr ! (j + x) \<noteq> 0) \<Longrightarrow> chr ! (j + m) = 0 \<Longrightarrow> j + m \<le> 12
   \<Longrightarrow> k + m \<le> 11 \<Longrightarrow> 11 \<le> length fn \<Longrightarrow> j + m \<le> length chr
   \<Longrightarrow> copy_ext chr j k fn = take k fn @ take m (drop j chr) @ drop (k + m) fn"
proof (induction m arbitrary: j k fn)
  case 0
  then show ?case by (subst copy_ext.simps) simp
next
  case (Suc m)
  have c: "chr ! j \<noteq> 0" "j < 12" "j < length chr" "k < 11" using Suc.prems(1) [of 0] Suc.prems by auto
  have "copy_ext chr j k fn = copy_ext chr (j + 1) (k + 1) (fn[k := chr ! j])"
    using c by (subst copy_ext.simps) simp
  also have "\<dots> = take (k + 1) (fn[k := chr ! j]) @ take m (drop (j + 1) chr) @ drop (k + 1 + m) (fn[k := chr ! j])"
    using Suc.prems(1) [of "Suc _"] Suc.prems by (intro Suc.IH) auto
  also have "take (k + 1) (fn[k := chr ! j]) = take k fn @ [chr ! j]"
    using Suc.prems c by (simp add: take_update_last)
  finally show ?case using c by (simp add: Cons_nth_drop_Suc [symmetric])
qed

definition short_name :: "u8 list \<Rightarrow> u8 list \<Rightarrow> bool" where
  "short_name n e \<longleftrightarrow> n \<noteq> [] \<and> length n \<le> 8 \<and> e \<noteq> [] \<and> length e \<le> 3 \<and> (\<forall>c\<in>set n \<union> set e. plain c)"

text \<open>The eleven bytes of a name and an extension, blanks at their ends.\<close>

definition entry_name :: "u8 list \<Rightarrow> u8 list \<Rightarrow> u8 list" where
  "entry_name n e = map upcase n @ replicate (8 - length n) 32 @ map upcase e @ replicate (3 - length e) 32"

lemma fs_next_slash_short:
  assumes "short_name n e" and "c = 0 \<or> c = 47"
  shows "fs_next_slash (n @ 46 # e @ c # rest) old = Inr (length n + 1 + length e, entry_name n e @ [0, old])"
proof -
  let ?f = "n @ 46 # e @ c # rest" and ?i = "length n + 1 + length e"
  let ?chr = "map upcase n @ 46 # map upcase e @ replicate (13 - ?i) 0"
  have len: "length n \<le> 8" "length e \<le> 3" "n \<noteq> []" and pl: "\<And>c. c \<in> set n \<union> set e \<Longrightarrow> plain c"
    using assms(1) by (auto simp: short_name_def)
  have up: "\<And>c. c \<in> set n \<union> set e \<Longrightarrow> plain (upcase c)" using pl upcase_plain by blast
  have ns: "next_slash ?f = Inr ?i"
    using next_slash_plain [of "n @ 46 # e" c rest] pl assms(2) by (auto simp: plain_def)
  have m: "min 12 ?i = ?i" using len by simp
  have chr: "chr11_of ?f ?i = ?chr" unfolding chr11_of_def m by (simp add: upcase_def)
  have name: "copy_name ?chr 0 (replicate 12 32 @ [old])
      = (length n, map upcase n @ replicate (12 - length n) 32 @ [old])"
    using len up by (subst copy_name_run [where m = "length n"]) (auto simp: nth_append plain_def drop_replicate)
  have ext: "copy_ext ?chr (length n + 1) 8 (map upcase n @ replicate (12 - length n) 32 @ [old])
      = entry_name n e @ [32, old]"
  proof -
    have "copy_ext ?chr (length n + 1) 8 (map upcase n @ replicate (12 - length n) 32 @ [old])
      = take 8 (map upcase n @ replicate (12 - length n) 32 @ [old])
        @ take (length e) (drop (length n + 1) ?chr) @ drop (8 + length e) (map upcase n @ replicate (12 - length n) 32 @ [old])"
      using len up by (intro copy_ext_run) (auto simp: nth_append plain_def)
    moreover have "12 - length n - (8 + length e - length n) = 3 - length e + 1" using len by simp
    ultimately show ?thesis using len
      by (simp add: entry_name_def take_replicate drop_replicate min_def replicate_app_Cons_same replicate_add)
  qed
  have dot: "?chr ! length n = 46" by (simp add: nth_append)
  have "length (entry_name n e) = 11" using len by (simp add: entry_name_def)
  then have "(entry_name n e @ [32, old])[11 := 0] = entry_name n e @ [0, old]" by (simp add: list_update_append)
  then show ?thesis
    unfolding fs_next_slash_def ns rbind_Inr Let_def chr name prod.case ext by (simp only: dot ext if_True refl)
qed

lemma copy_front:
  assumes "m \<le> length entry" and "m \<le> length buf" and "length buf < 4294967296"
  shows "rfold (\<lambda>i buf. rbind (rd entry (of_nat i)) (wr buf (of_nat i))) [0..<m] buf = Inr (take m entry @ drop m buf)"
  using assms(1,2)
proof (induction m)
  case (Suc m)
  then show ?case using assms(3)
    by (simp add: rfold_append unat_of_nat_small list_update_append take_Suc_conv_app_nth Cons_nth_drop_Suc [symmetric])
qed simp

lemma move_ext_run:
  assumes "length es \<le> n" and "i \<le> from" and "from + n \<le> length buf" and "length buf < 4294967296"
    and "\<And>k. k < length es \<Longrightarrow> buf ! (from + k) = es ! k" and "32 \<notin> set es"
    and "length es = n \<or> buf ! (from + length es) = 32"
  shows "move_ext n i from buf = Inr (i + length es, take i buf @ es @ drop (i + length es) buf)"
  using assms
proof (induction n arbitrary: i "from" buf es)
  case (Suc n)
  show ?case
  proof (cases es)
    case Nil
    then show ?thesis using Suc.prems by (simp add: unat_of_nat_small)
  next
    case (Cons c es')
    have c: "buf ! from = c" "c \<noteq> 32" using Suc.prems(5) [of 0] Suc.prems(6) Cons by auto
    have "move_ext (Suc n) i from buf = move_ext n (i + 1) (from + 1) (buf[i := c])"
      using Suc.prems c by (simp add: unat_of_nat_small)
    also have "\<dots> = Inr (i + 1 + length es', take (i + 1) (buf[i := c]) @ es' @ drop (i + 1 + length es') (buf[i := c]))"
      using Suc.prems(5) [of "Suc _"] Suc.prems Cons by (intro Suc.IH) auto
    finally show ?thesis using Suc.prems Cons by (simp add: take_update_last)
  qed
qed simp

lemma place_dot_blank:
  assumes "length n < 8" and "32 \<notin> set n"
  shows "place_dot (n @ 32 # tail) = Inr (length n, 8, n @ 46 # tail)"
proof -
  have "find (\<lambda>i. (n @ 32 # tail) ! i = 32) [0..<8] = Some (length n)"
    using assms unfolding find_Some_iff by (intro exI [of _ "length n"]) (auto simp: nth_append in_set_conv_nth)
  then show ?thesis by (simp add: place_dot_def list_update_append)
qed

lemma place_dot_full:
  assumes "length n = 8" and "32 \<notin> set n" and "length tail < 4294967284"
  shows "place_dot (n @ a # b # d # x # tail) = Inr (8, 9, n @ 46 # a # b # d # tail)"
proof -
  have "find (\<lambda>i. (n @ a # b # d # x # tail) ! i = 32) [0..<8] = None"
    using assms unfolding find_None_iff by (auto simp: nth_append in_set_conv_nth)
  then show ?thesis using assms by (simp add: place_dot_def nth_append list_update_append)
qed

text \<open>The end of \<^verbatim>\<open>get_filename\<close>, once the extension is in place.\<close>

lemma finish_name:
  assumes "move_ext 3 (length n + 1) from buf = Inr (length n + 1 + length e, n @ 46 # e @ rest)"
    and "e \<noteq> []" and "rest \<noteq> []" and "\<And>c. c \<in> set n \<union> set e \<Longrightarrow> plain c" and "length n + length e < 4294967200"
  shows "\<exists>out. rbind (move_ext 3 (length n + 1) from buf) (\<lambda>(i, buf).
         rbind (wr buf (of_nat i) 0) (\<lambda>buf. Inr (if buf ! (i - 1) = 46 then buf[i - 1 := 0] else buf))) = Inr out
       \<and> takeWhile (\<lambda>c. c \<noteq> 0) out = n @ 46 # e"
proof -
  let ?i = "length n + 1 + length e" and ?out = "n @ 46 # e @ rest[0 := 0]"
  have u: "unat (of_nat ?i :: u32) = ?i" using assms(5) by (intro unat_of_nat_small) simp
  have up: "(n @ 46 # e @ rest)[?i := 0] = ?out" using assms(2) by (simp add: list_update_append)
  have "last e \<noteq> 46" using assms(2) assms(4) [of "last e"] by (auto simp: plain_def)
  then have nd: "?out ! (?i - 1) \<noteq> 46" using assms(2) by (auto simp: nth_append nth_Cons last_conv_nth split: nat.splits)
  have lt: "?i < length (n @ 46 # e @ rest)" using assms(3) by (cases rest) auto
  obtain y ys where r: "rest = y # ys" using assms(3) by (cases rest) auto
  have "takeWhile (\<lambda>c. c \<noteq> 0) ((n @ 46 # e) @ 0 # ys) = n @ 46 # e"
    using assms(4) by (subst takeWhile_append2) (auto simp: plain_def)
  then have "takeWhile (\<lambda>c. c \<noteq> 0) ?out = n @ 46 # e" by (simp add: r)
  then show ?thesis using u up nd lt by (simp only: assms(1) rbind_Inr prod.case wr_def if_True if_False) simp
qed

lemma get_filename_short:
  assumes ne: "short_name n e" and buf: "13 \<le> length buf" "length buf < 4294967200" and entry: "entry = entry_name n e @ tail"
  shows "\<exists>out. get_filename entry buf = Inr out \<and> takeWhile (\<lambda>c. c \<noteq> 0) out = map upcase n @ 46 # map upcase e"
proof -
  let ?N = "map upcase n" and ?E = "map upcase e"
  have len: "length n \<le> 8" "length e \<le> 3" "n \<noteq> []" "e \<noteq> []" using ne by (auto simp: short_name_def)
  have up: "\<And>c. c \<in> set ?N \<union> set ?E \<Longrightarrow> plain c" using ne upcase_plain by (auto simp: short_name_def)
  have no32: "32 \<notin> set ?N" "32 \<notin> set ?E" using up by (auto simp: plain_def)
  define T where "T = drop 11 buf"
  have T: "2 \<le> length T" "length T < 4294967189" using buf by (simp_all add: T_def)
  have el: "length (entry_name n e) = 11" using len by (simp add: entry_name_def)
  have front: "rfold (\<lambda>i buf. rbind (rd entry (of_nat i)) (wr buf (of_nat i))) [0..<11] buf = Inr (entry_name n e @ T)"
    using buf el by (subst copy_front) (simp_all add: entry T_def)
  have hd: "(entry_name n e @ T) ! 0 \<noteq> 46" using len up [of "hd ?N"]
    by (cases n) (auto simp: entry_name_def plain_def)
  have "\<exists>from b rest. place_dot (entry_name n e @ T) = Inr (length ?N, from, b)
     \<and> move_ext 3 (length ?N + 1) from b = Inr (length ?N + 1 + length ?E, ?N @ 46 # ?E @ rest) \<and> rest \<noteq> []"
  proof (cases "length n < 8")
    case True
    define b where "b = ?N @ 46 # replicate (7 - length n) 32 @ ?E @ replicate (3 - length e) 32 @ T"
    have "entry_name n e @ T = ?N @ 32 # replicate (7 - length n) 32 @ ?E @ replicate (3 - length e) 32 @ T"
      using True by (simp add: entry_name_def Suc_diff_Suc replicate_Suc [symmetric] del: replicate_Suc)
    then have p: "place_dot (entry_name n e @ T) = Inr (length ?N, 8, b)"
      using place_dot_blank [of ?N] True no32 by (simp add: b_def)
    have m: "move_ext 3 (length ?N + 1) 8 b = Inr (length ?N + 1 + length ?E, take (length ?N + 1) b @ ?E @ drop (length ?N + 1 + length ?E) b)"
      using True len T no32 by (intro move_ext_run) (auto simp: b_def nth_append)
    have tk: "take (length ?N + 1) b = ?N @ [46]" by (simp add: b_def)
    have "length ?N + 1 + length ?E < length b" using True len T by (simp add: b_def)
    then show ?thesis using p m [unfolded tk]
      by (intro exI [of _ 8] exI [of _ b] exI [of _ "drop (length ?N + 1 + length ?E) b"] conjI) simp_all
  next
    case False
    then have l8: "length n = 8" using len by simp
    have three: "\<exists>a b d. xs = [a, b, d]" if "length xs = 3" for xs :: "u8 list"
      using that by (auto simp: numeral_3_eq_3 length_Suc_conv)
    obtain a b' d where ext: "?E @ replicate (3 - length e) 32 = [a, b', d]"
      using three [of "?E @ replicate (3 - length e) 32"] len by auto
    obtain x T' where x: "T = x # T'" "T' \<noteq> []" using T by (cases T; cases "tl T") auto
    define b where "b = ?N @ 46 # ?E @ replicate (3 - length e) 32 @ T'"
    have be: "b = ?N @ 46 # a # b' # d # T'" using ext by (simp add: b_def)
    have "entry_name n e @ T = ?N @ a # b' # d # x # T'" using ext l8 x by (simp add: entry_name_def)
    then have p: "place_dot (entry_name n e @ T) = Inr (length ?N, 9, b)"
      using place_dot_full [of ?N] l8 no32 T x by (simp add: be)
    have m: "move_ext 3 (length ?N + 1) 9 b = Inr (length ?N + 1 + length ?E, take (length ?N + 1) b @ ?E @ drop (length ?N + 1 + length ?E) b)"
      using l8 len T x no32 by (intro move_ext_run) (auto simp: b_def nth_append nth_Cons split: nat.splits)
    have "length ?N + 1 + length ?E < length b" using l8 len x(2) by (cases T') (simp_all add: b_def)
    moreover have tk: "take (length ?N + 1) b = ?N @ [46]" by (simp add: b_def)
    ultimately show ?thesis using p m [unfolded tk]
      by (intro exI [of _ 9] exI [of _ b] exI [of _ "drop (length ?N + 1 + length ?E) b"] conjI) simp_all
  qed
  then obtain "from" b rest where p: "place_dot (entry_name n e @ T) = Inr (length ?N, from, b)"
    and m: "move_ext 3 (length ?N + 1) from b = Inr (length ?N + 1 + length ?E, ?N @ 46 # ?E @ rest)" "rest \<noteq> []" by blast
  show ?thesis
    unfolding get_filename_def front rbind_Inr
    using finish_name [OF m(1) _ m(2)] len up hd by (simp add: p)
qed

text \<open>
  C32. names survive the way into a directory entry and back: for a component of a path made of
  up to eight and up to three characters around a dot, the entry name computed by
  \<^verbatim>\<open>fs_next_slash\<close> is shown by \<^verbatim>\<open>get_filename\<close> as the same name in upper case.
\<close>

theorem filename_round_trip:
  assumes "short_name n e" and "c = 0 \<or> c = 47" and "13 \<le> length buf" and "length buf < 4294967200"
  shows "\<exists>i name out. fs_next_slash (n @ 46 # e @ c # rest) old = Inr (i, name) \<and> i = length n + 1 + length e
    \<and> get_filename name buf = Inr out \<and> takeWhile (\<lambda>c. c \<noteq> 0) out = map upcase n @ 46 # map upcase e"
  using fs_next_slash_short [OF assms(1,2)] get_filename_short [OF assms(1,3,4) refl] by blast

theorem filename_round_trip_witness:
  "\<exists>i name out. fs_next_slash [97, 98, 46, 99, 0] 0 = Inr (i, name) \<and> i = 4
    \<and> get_filename name (replicate 13 0) = Inr out \<and> takeWhile (\<lambda>c. c \<noteq> 0) out = [65, 66, 46, 67]"
proof -
  have "short_name [97, 98] [99]" by (simp add: short_name_def plain_def)
  moreover have "map upcase [97, 98] @ 46 # map upcase [99] = [65, 66, 46, 67]" by (simp add: upcase_def)
  moreover have "length [97 :: u8, 98] + 1 + length [99 :: u8] = 4" by simp
  ultimately show ?thesis
    using filename_round_trip [of "[97, 98]" "[99]" 0 "replicate 13 0" "[]" 0] by (simp del: list.size)
qed

end
