(* ===== verification/FatFile.thy ===== *)
theory FatFile
  imports Fat FatPath
begin

text \<open>
  Files on the FAT32 file system: the second half of \<^verbatim>\<open>kernel/fs/fat/fat.c\<close>, from \<^verbatim>\<open>fs_find\<close> to
  \<^verbatim>\<open>fs_create\<close>, over the state and the operations of theory \<open>Fat\<close>.
\<close>

definition upd_file :: "(FILE \<Rightarrow> FILE) \<Rightarrow> (unit, 'd) fop" where
  "upd_file f = fupd (\<lambda>s. s\<lparr>fil := f (fil s)\<rparr>)"

definition max_cluster :: "'d fat \<Rightarrow> u32" where
  "max_cluster s = total_data_clusters (fat_info s) + 1"

definition cluster_sectors :: "'d fat \<Rightarrow> u32" where
  "cluster_sectors s = sectors_of_cluster (fat_info s)"

definition cluster_bytes :: "'d fat \<Rightarrow> u32" where
  "cluster_bytes s = push_bit 9 (cluster_sectors s)"

definition read_dir_cluster :: "'d block_io \<Rightarrow> u32 \<Rightarrow> (u32, 'd) fop" where
  "read_dir_cluster io clus = fget (\<lambda>s. read_dir io (fs_dataclus2sec (fat_info s) clus))"

definition start_cluster :: "(u32, 'd) fop" where
  "start_cluster = fget (\<lambda>s. flift (get_start_cluster (entry (fil s))))"

section \<open>Looking up a path\<close>

definition next_component :: "u8 list \<Rightarrow> (nat, 'd) fop" where
  "next_component f = fget (\<lambda>s. fbind (flift (fs_next_slash f (filename11 s ! 12))) (\<lambda>(i, name).
     fbind (fupd (\<lambda>s. s\<lparr>filename11 := name\<rparr>)) (\<lambda>_. fret i)))"

text \<open>
  One sector of a directory: the end of the directory (a zero byte), the entry with the name
  (not a volume label or a long name), or neither. \<open>i\<close> counts in steps of 32.
\<close>

datatype scan = EndOfDir | FoundAt u32 | NotHere

primrec scan_sector :: "u8 list \<Rightarrow> u8 list \<Rightarrow> nat \<Rightarrow> u32 \<Rightarrow> scan res" where
  "scan_sector buf name 0 i = Inr NotHere"
| "scan_sector buf name (Suc n) i = rbind (rd buf i) (\<lambda>c.
     if c = 0 then Inr EndOfDir
     else rbind (fs_cmp_filename (drop (unat i) buf) name) (\<lambda>d.
       if d \<noteq> 0 then scan_sector buf name n (i + 32)
       else rbind (rd buf (i + 11)) (\<lambda>a.
         if a AND 8 = 0 then Inr (FoundAt i) else scan_sector buf name n (i + 32))))"

definition found_entry :: "u32 \<Rightarrow> BUF \<Rightarrow> (unit, 'd) fop" where
  "found_entry i b = fget (\<lambda>s.
     if length (bdata b) < unat i + 32 then flift (Inl Fault)
     else upd_file (\<lambda>f. f\<lparr>dir_entry_pos := i, dir_entry_sector := cur b - base_addr (fat_info s),
            entry := take 32 (drop (unat i) (bdata b))\<rparr>))"

text \<open>
  The loop over the sectors of the clusters of a directory. The next sector and the next entry of
  the table are computed from \<^verbatim>\<open>dir_data_buf[index].cur\<close> as the code does, although \<^verbatim>\<open>cur\<close> is the
  absolute sector and the two callees expect a partition sector and a cluster.
\<close>

definition find_round :: "'d block_io \<Rightarrow> u32 \<times> u32 \<Rightarrow> (unit + u32 \<times> u32, 'd) fop" where
  "find_round io = (\<lambda>(sec, index). fget (\<lambda>s.
     if sec > cluster_sectors s then fret (Inr (1, index))
     else fbind (dir_block index) (\<lambda>b.
       fbind (flift (scan_sector (bdata b) (filename11 s) 16 0)) (\<lambda>r. case r of
         EndOfDir \<Rightarrow> fret (Inl ())
       | FoundAt i \<Rightarrow> fbind (found_entry i b) (\<lambda>_. fret (Inl ()))
       | NotHere \<Rightarrow>
           if sec < cluster_sectors s then
             fbind (read_dir io (cur b + 1)) (\<lambda>index. fret (Inr (sec + 1, index)))
           else
             fbind (get_fat_entry_value io (cur b - cluster_sectors s + 1)) (\<lambda>next_clus.
               if next_clus \<le> max_cluster s then
                 fbind (read_dir_cluster io next_clus) (\<lambda>index. fret (Inr (sec + 1, index)))
               else fret (Inl ()))))))"

text \<open>One component of the path; \<open>f\<close> is the rest of the path.\<close>

definition component_round :: "'d block_io \<Rightarrow> u8 list \<times> u32 \<Rightarrow> (unit + u8 list \<times> u32, 'd) fop" where
  "component_round io = (\<lambda>(f, index).
     fbind (upd_file (\<lambda>fl. fl\<lparr>dir_entry_pos := 0xFFFFFFFF\<rparr>)) (\<lambda>_.
     fbind (next_component f) (\<lambda>next_slash.
     fbind (fwhile (find_round io) (1, index)) (\<lambda>_.
     fget (\<lambda>s.
       if dir_entry_pos (fil s) = 0xFFFFFFFF then fret (Inl ())
       else if f ! next_slash = 0 then fret (Inl ())
       else fbind (flift (rd (entry (fil s)) 11)) (\<lambda>a.
         if a AND 0x10 = 0 then ferr
         else fbind start_cluster (\<lambda>next_clus.
           if next_clus \<le> max_cluster s then
             fbind (read_dir_cluster io next_clus) (\<lambda>index. fret (Inr (drop (next_slash + 1) f, index)))
           else ferr)))))))"

definition fs_find :: "'d block_io \<Rightarrow> (unit, 'd) fop" where
  "fs_find io = fget (\<lambda>s. fbind (flift (rd (path (fil s)) 0)) (\<lambda>c.
     if c \<noteq> 47 then ferr
     else fbind (read_dir_cluster io 2) (\<lambda>index.
       fwhile (component_round io) (tl (path (fil s)), index))))"

text \<open>A file name is a C string, the list of its bytes before the terminator.\<close>

definition fs_open :: "'d block_io \<Rightarrow> u8 list \<Rightarrow> (unit, 'd) fop" where
  "fs_open io filename =
     fbind (upd_file (\<lambda>f. f\<lparr>data_buf := map fresh_buf (data_buf f), file_clock := 0,
        path := take 256 filename @ replicate (256 - length filename) 0, loc := 0\<rparr>)) (\<lambda>_.
     fbind (fs_find io) (\<lambda>_.
     fget (\<lambda>s. if dir_entry_pos (fil s) = 0xFFFFFFFF then ferr else fret ())))"

section \<open>Writing back\<close>

definition each :: "('b \<Rightarrow> (unit, 'd) fop) \<Rightarrow> 'b list \<Rightarrow> (unit, 'd) fop" where
  "each f xs = foldr (\<lambda>x m. fbind (f x) (\<lambda>_. m)) xs (fret ())"

definition write_dir_block :: "'d block_io \<Rightarrow> u32 \<Rightarrow> (unit, 'd) fop" where
  "write_dir_block io i = fbind (dir_block i) (\<lambda>b.
     fbind (\<lambda>s. rbind (fs_write_512 io b (fdev s)) (\<lambda>(r, b, d). Inr (Some (r, b), s\<lparr>fdev := d\<rparr>))) (\<lambda>(r, b).
     fbind (set_dir_block i b) (\<lambda>_. if r = 1 then ferr else fret ())))"

definition write_data_block :: "'d block_io \<Rightarrow> u32 \<Rightarrow> (unit, 'd) fop" where
  "write_data_block io i = fget (\<lambda>s. fbind (flift (rd (data_buf (fil s)) i)) (\<lambda>b.
     fbind (\<lambda>s. rbind (fs_write_4k io (fat_info s) b (fdev s)) (\<lambda>(r, b, d). Inr (Some (r, b), s\<lparr>fdev := d\<rparr>))) (\<lambda>(r, b).
     fbind (upd_file (\<lambda>f. f\<lparr>data_buf := (data_buf f)[unat i := b]\<rparr>)) (\<lambda>_. if r = 1 then ferr else fret ()))))"

definition fs_fflush :: "'d block_io \<Rightarrow> (unit, 'd) fop" where
  "fs_fflush io =
     fbind (fget (\<lambda>s. fs_dev_write io (fat_fs_info (fat_info s)) (1 + base_addr (fat_info s)) 1)) (\<lambda>_.
     fbind (fget (\<lambda>s. fs_dev_write io (fat_fs_info (fat_info s)) (7 + base_addr (fat_info s)) 1)) (\<lambda>_.
     fbind (each (write_fat_sector io) [0, 1]) (\<lambda>_.
     each (write_dir_block io) [0, 1, 2, 3])))"

text \<open>Bytes written at a position of a block, one by one.\<close>

definition put_bytes :: "u8 list \<Rightarrow> u32 \<Rightarrow> u8 list \<Rightarrow> u8 list res" where
  "put_bytes buf pos bytes = rfold (\<lambda>i buf. wr buf (pos + of_nat i) (bytes ! i)) [0..<length bytes] buf"

definition fs_close :: "'d block_io \<Rightarrow> (unit, 'd) fop" where
  "fs_close io =
     fbind (fget (\<lambda>s. read_dir io (dir_entry_sector (fil s)))) (\<lambda>index.
     fbind (dir_block index) (\<lambda>b.
     fbind (fget (\<lambda>s. flift (put_bytes (bdata b) (dir_entry_pos (fil s)) (entry (fil s))))) (\<lambda>bytes.
     fbind (set_dir_block index (b\<lparr>bdata := bytes, state := 3\<rparr>)) (\<lambda>_.
     fbind (fs_fflush io) (\<lambda>_.
     each (write_data_block io) [0, 1, 2, 3])))))"

section \<open>Reading\<close>

text \<open>\<open>n\<close> bytes from position \<open>i\<close> of one buffer to position \<open>j\<close> of another.\<close>

primrec copy_bytes :: "nat \<Rightarrow> u8 list \<Rightarrow> u32 \<Rightarrow> u8 list \<Rightarrow> u32 \<Rightarrow> u8 list res" where
  "copy_bytes 0 src i dst j = Inr dst"
| "copy_bytes (Suc n) src i dst j =
     rbind (rd src i) (\<lambda>c. rbind (wr dst j c) (\<lambda>dst. copy_bytes n src (i + 1) dst (j + 1)))"

definition span :: "u32 \<Rightarrow> u32 \<Rightarrow> nat" where
  "span from to = (if from \<le> to then unat (to - from) + 1 else 0)"

definition follow_chain :: "'d block_io \<Rightarrow> u32 \<times> u32 \<Rightarrow> (u32 + u32 \<times> u32, 'd) fop" where
  "follow_chain io = (\<lambda>(n, clus).
     if n = 0 then fret (Inl clus)
     else fbind (get_fat_entry_value io clus) (\<lambda>next_clus. fret (Inr (n - 1, next_clus))))"

definition data_block :: "u32 \<Rightarrow> (BUF, 'd) fop" where
  "data_block index = fget (\<lambda>s. flift (rd (data_buf (fil s)) index))"

definition read_out :: "BUF \<Rightarrow> nat \<Rightarrow> u32 \<Rightarrow> u32 \<Rightarrow> (unit, 'd) fop" where
  "read_out b n i cc = fget (\<lambda>s. fbind (flift (copy_bytes n (bdata b) i (ubuf s) cc)) (\<lambda>buf.
     fupd (\<lambda>s. s\<lparr>ubuf := buf\<rparr>)))"

definition read_round :: "'d block_io \<Rightarrow> u32 \<Rightarrow> u32 \<Rightarrow> u32 \<times> u32 \<times> u32 \<times> u32 \<Rightarrow> (u32 + u32 \<times> u32 \<times> u32 \<times> u32, 'd) fop" where
  "read_round io end_clus end_byte = (\<lambda>(start_clus, start_byte, clus, cc).
     if start_clus \<le> end_clus then
       fget (\<lambda>s. fbind (read_data_block io (fs_dataclus2sec (fat_info s) clus)) (\<lambda>index.
       fbind (data_block index) (\<lambda>b.
       if start_clus = end_clus then
         let n = span start_byte end_byte in
         fbind (read_out b n start_byte cc) (\<lambda>_. fret (Inl (cc + of_nat n)))
       else
         let n = (if start_byte < cluster_bytes s then span start_byte (cluster_bytes s - 1) else 0) in
         fbind (read_out b n start_byte cc) (\<lambda>_.
         fbind (get_fat_entry_value io clus) (\<lambda>next_clus.
         fret (Inr (start_clus + 1, 0, next_clus, cc + of_nat n)))))))
     else fret (Inl cc))"

text \<open>The position in clusters and in bytes of a file offset.\<close>

definition cluster_of :: "'d fat \<Rightarrow> u32 \<Rightarrow> u32" where
  "cluster_of s off = drop_bit (unat (fs_wa (cluster_bytes s))) off"

definition byte_of :: "'d fat \<Rightarrow> u32 \<Rightarrow> u32" where
  "byte_of s off = off AND (cluster_bytes s - 1)"

definition fs_read :: "'d block_io \<Rightarrow> u32 \<Rightarrow> (u32, 'd) fop" where
  "fs_read io count =
     fbind (fget (\<lambda>s. flift (entry_size (entry (fil s))))) (\<lambda>filesize.
     fbind start_cluster (\<lambda>clus.
     if clus = 0 then fret 0
     else fget (\<lambda>s. let l = loc (fil s); count = (if l + count > filesize then filesize - l else count) in
       if count = 0 then fret 0
       else
         fbind (fwhile (follow_chain io) (cluster_of s l, clus)) (\<lambda>clus.
         fbind (fwhile (read_round io (cluster_of s (l + count - 1)) (byte_of s (l + count - 1)))
                  (cluster_of s l, byte_of s l, clus, 0)) (\<lambda>cc.
         fbind (upd_file (\<lambda>f. f\<lparr>loc := loc f + count\<rparr>)) (\<lambda>_. fret cc))))))"

definition fs_lseek :: "u32 \<Rightarrow> (unit, 'd) fop" where
  "fs_lseek new_loc = fget (\<lambda>s. fbind (flift (entry_size (entry (fil s)))) (\<lambda>filesize.
     upd_file (\<lambda>f. f\<lparr>loc := if new_loc < filesize then new_loc else filesize\<rparr>)))"

section \<open>Allocating and writing\<close>

text \<open>The first cluster from \<open>start\<close> on whose table entry is 0, or \<^verbatim>\<open>0xFFFFFFFF\<close>.\<close>

definition next_free_round :: "'d block_io \<Rightarrow> u32 \<Rightarrow> (u32 + u32, 'd) fop" where
  "next_free_round io clus = fget (\<lambda>s.
     if clus \<le> max_cluster s then
       fbind (get_fat_entry_value io clus) (\<lambda>v. fret (if v = 0 then Inl clus else Inr (clus + 1)))
     else fret (Inl 0xFFFFFFFF))"

definition fs_next_free :: "'d block_io \<Rightarrow> u32 \<Rightarrow> (u32, 'd) fop" where
  "fs_next_free io start = fwhile (next_free_round io) start"

definition info_u32 :: "u32 \<Rightarrow> (u32, 'd) fop" where
  "info_u32 pos = fget (\<lambda>s. flift (get_u32 (fat_fs_info (fat_info s)) pos))"

definition fs_alloc :: "'d block_io \<Rightarrow> (u32, 'd) fop" where
  "fs_alloc io =
     fbind (info_u32 492) (\<lambda>nxt_free. fbind (info_u32 488) (\<lambda>free_count.
     fbind (if nxt_free + 1 > free_count + 1
            then fbind (fs_next_free io 2) (\<lambda>clus. fbind (fs_modify_fat io clus 0xFFFFFFFF) (\<lambda>_. fret clus))
            else fret (nxt_free + 1)) (\<lambda>clus.
     fbind (fs_modify_fat io clus 0xFFFFFFFF) (\<lambda>_.
     fbind (fs_next_free io clus) (\<lambda>next_free.
     fget (\<lambda>s. if next_free > max_cluster s then ferr
       else fbind (flift (set_u32 (fat_fs_info (fat_info s)) 492 (next_free - 1))) (\<lambda>bytes.
         fbind (upd_info (\<lambda>i. i\<lparr>fat_fs_info := bytes\<rparr>)) (\<lambda>_.
         fbind (fs_dev_write io (new_alloc_empty s) (fs_dataclus2sec (fat_info s) clus) (cluster_sectors s)) (\<lambda>_.
         fret clus)))))))))"

definition clear_data_cluster :: "'d block_io \<Rightarrow> u32 \<Rightarrow> (unit, 'd) fop" where
  "clear_data_cluster io clus = fget (\<lambda>s. clear_data io (fs_dataclus2sec (fat_info s) clus))"

text \<open>The cluster after \<open>curr\<close>, a new one at the end of the chain.\<close>

definition next_or_new :: "'d block_io \<Rightarrow> u32 \<Rightarrow> (u32, 'd) fop" where
  "next_or_new io curr_cluster =
     fbind (get_fat_entry_value io curr_cluster) (\<lambda>next_cluster.
     fget (\<lambda>s. if next_cluster > max_cluster s then
         fbind (fs_alloc io) (\<lambda>next_cluster.
         fbind (fs_modify_fat io curr_cluster next_cluster) (\<lambda>_.
         fbind (clear_data_cluster io next_cluster) (\<lambda>_. fret next_cluster)))
       else fret next_cluster))"

definition first_cluster :: "'d block_io \<Rightarrow> (u32, 'd) fop" where
  "first_cluster io = fbind start_cluster (\<lambda>curr_cluster.
     if curr_cluster = 0 then
       fbind (fs_alloc io) (\<lambda>clus.
       fbind (fget (\<lambda>s. flift (rbind (set_u16 (entry (fil s)) 20 (ucast (drop_bit 16 clus AND 0xFFFF))) (\<lambda>e.
                set_u16 e 26 (ucast (clus AND 0xFFFF)))))) (\<lambda>e.
       fbind (upd_file (\<lambda>f. f\<lparr>entry := e\<rparr>)) (\<lambda>_.
       fbind (clear_data_cluster io clus) (\<lambda>_. fret clus))))
     else fret curr_cluster)"

definition write_chain :: "'d block_io \<Rightarrow> u32 \<times> u32 \<Rightarrow> (u32 + u32 \<times> u32, 'd) fop" where
  "write_chain io = (\<lambda>(n, clus).
     if n = 0 then fret (Inl clus)
     else fbind (next_or_new io clus) (\<lambda>clus. fret (Inr (n - 1, clus))))"

definition write_in :: "u32 \<Rightarrow> BUF \<Rightarrow> nat \<Rightarrow> u32 \<Rightarrow> u32 \<Rightarrow> (unit, 'd) fop" where
  "write_in index b n i cc = fget (\<lambda>s. fbind (flift (copy_bytes n (ubuf s) cc (bdata b) i)) (\<lambda>bytes.
     upd_file (\<lambda>f. f\<lparr>data_buf := (data_buf f)[unat index := b\<lparr>bdata := bytes, state := 3\<rparr>]\<rparr>)))"

definition write_round :: "'d block_io \<Rightarrow> u32 \<Rightarrow> u32 \<Rightarrow> u32 \<times> u32 \<times> u32 \<times> u32 \<Rightarrow> (u32 + u32 \<times> u32 \<times> u32 \<times> u32, 'd) fop" where
  "write_round io end_clus end_byte = (\<lambda>(start_clus, start_byte, clus, cc).
     if start_clus \<le> end_clus then
       fget (\<lambda>s. fbind (read_data_block io (fs_dataclus2sec (fat_info s) clus)) (\<lambda>index.
       fbind (data_block index) (\<lambda>b.
       if start_clus = end_clus then
         let n = span start_byte end_byte in
         fbind (write_in index b n start_byte cc) (\<lambda>_. fret (Inl (cc + of_nat n)))
       else
         let n = (if start_byte < cluster_bytes s then span start_byte (cluster_bytes s - 1) else 0) in
         fbind (write_in index b n start_byte cc) (\<lambda>_.
         fbind (next_or_new io clus) (\<lambda>next_cluster.
         fret (Inr (start_clus + 1, 0, next_cluster, cc + of_nat n)))))))
     else fret (Inl cc))"

definition fs_write :: "'d block_io \<Rightarrow> u32 \<Rightarrow> (u32, 'd) fop" where
  "fs_write io count =
     (if count = 0 then fret 0
      else fget (\<lambda>s. let l = loc (fil s) in
        fbind (first_cluster io) (\<lambda>clus.
        fbind (fwhile (write_chain io) (cluster_of s l, clus)) (\<lambda>clus.
        fbind (fwhile (write_round io (cluster_of s (l + count - 1)) (byte_of s (l + count - 1)))
                 (cluster_of s l, byte_of s l, clus, 0)) (\<lambda>cc.
        fbind (fget (\<lambda>s. flift (entry_size (entry (fil s))))) (\<lambda>filesize.
        fbind (if l + count > filesize then
                 fbind (fget (\<lambda>s. flift (set_u32 (entry (fil s)) 28 (l + count)))) (\<lambda>e. upd_file (\<lambda>f. f\<lparr>entry := e\<rparr>))
               else fret ()) (\<lambda>_.
        fbind (upd_file (\<lambda>f. f\<lparr>loc := l + count\<rparr>)) (\<lambda>_. fret cc))))))))"

section \<open>Creating a file\<close>

primrec empty_in_sector :: "u8 list \<Rightarrow> nat \<Rightarrow> u32 \<Rightarrow> u32 option res" where
  "empty_in_sector buf 0 i = Inr None"
| "empty_in_sector buf (Suc n) i = rbind (rd buf i) (\<lambda>c.
     if c = 0 \<or> c = 0xE5 then Inr (Some i) else empty_in_sector buf n (i + 32))"

definition empty_round :: "'d block_io \<Rightarrow> u32 \<times> u32 \<Rightarrow> ((u32 \<times> u32) + u32 \<times> u32, 'd) fop" where
  "empty_round io = (\<lambda>(sec, index). fget (\<lambda>s.
     if sec > cluster_sectors s then fret (Inr (1, index))
     else fbind (dir_block index) (\<lambda>b.
       fbind (flift (empty_in_sector (bdata b) 16 0)) (\<lambda>r. case r of
         Some i \<Rightarrow> fret (Inl (i, index))
       | None \<Rightarrow>
           if sec < cluster_sectors s then
             fbind (read_dir io (cur b + sec)) (\<lambda>index. fret (Inr (sec + 1, index)))
           else
             let clus = cur b - cluster_sectors s + 1 in
             fbind (get_fat_entry_value io clus) (\<lambda>next_clus.
             fbind (if next_clus > max_cluster s then
                 fbind (fs_alloc io) (\<lambda>new_clus.
                 fbind (fs_modify_fat io (fs_sec2dataclus (fat_info s) clus) new_clus) (\<lambda>_.
                 fbind (clear_dir io (fs_dataclus2sec (fat_info s) new_clus)) (\<lambda>_. fret new_clus)))
               else fret next_clus) (\<lambda>next_clus.
             fbind (read_dir_cluster io next_clus) (\<lambda>index. fret (Inr (sec + 1, index)))))))))"

definition fs_find_empty_entry :: "'d block_io \<Rightarrow> u32 \<Rightarrow> (u32 \<times> u32, 'd) fop" where
  "fs_find_empty_entry io index = fwhile (empty_round io) (1, index)"

text \<open>
  The local \<^verbatim>\<open>file_creat\<close> starts with whatever is on the stack, \<open>garbage\<close>. The loops
  \<^verbatim>\<open>for (i = 255; i >= 0; i--)\<close> on an unsigned \<^verbatim>\<open>i\<close> end only at a match: without one they read
  below the array.
\<close>

definition ftry :: "('a, 'd) fop \<Rightarrow> ('a option, 'd) fop" where
  "ftry m s = rbind (m s) (\<lambda>(r, s). Inr (Some r, s))"

definition with_file :: "FILE \<Rightarrow> ('a, 'd) fop \<Rightarrow> ('a, 'd) fop" where
  "with_file g m s = rbind (m (s\<lparr>fil := g\<rparr>)) (\<lambda>(r, s'). Inr (r, s'\<lparr>fil := fil s\<rparr>))"

definition last_index :: "(u8 \<Rightarrow> bool) \<Rightarrow> u8 list \<Rightarrow> nat res" where
  "last_index P p = (case find (\<lambda>i. P (p ! i)) (rev [0..<256]) of Some i \<Rightarrow> Inr i | None \<Rightarrow> Inl Fault)"

definition open_directory :: "'d block_io \<Rightarrow> nat \<Rightarrow> nat \<Rightarrow> (u32, 'd) fop" where
  "open_directory io l1 l2 =
     (if l1 \<noteq> 0 then
        fbind (upd_file (\<lambda>f. f\<lparr>path := fold (\<lambda>i p. p[i := 0]) [l1..<l2 + 1] (path f)\<rparr>)) (\<lambda>_.
        fbind (fs_find io) (\<lambda>_.
        fget (\<lambda>s. if dir_entry_pos (fil s) = 0xFFFFFFFF then ferr
          else fbind start_cluster (\<lambda>clus.
            fbind (read_dir_cluster io clus) (\<lambda>index.
            fbind (upd_file (\<lambda>f. f\<lparr>dir_entry_pos := clus\<rparr>)) (\<lambda>_. fret index))))))
      else fbind (read_dir_cluster io 2) (\<lambda>index.
        fbind (upd_file (\<lambda>f. f\<lparr>dir_entry_pos := 2\<rparr>)) (\<lambda>_. fret index)))"

definition store_entry :: "u32 \<Rightarrow> u32 \<Rightarrow> u8 \<Rightarrow> (unit, 'd) fop" where
  "store_entry index pos attr = fbind (dir_block index) (\<lambda>b. fget (\<lambda>s.
     fbind (flift (put_bytes (bdata b) pos (take 11 (filename11 s) @ [attr] @ replicate 20 0))) (\<lambda>bytes.
     set_dir_block index (b\<lparr>bdata := bytes, state := 3\<rparr>))))"

definition last_component :: "u8 list \<Rightarrow> nat \<Rightarrow> nat \<Rightarrow> u8 list \<Rightarrow> u8 list res" where
  "last_component filename l1 l2 p =
     rbind (rfold (\<lambda>i p. rbind (rd (filename @ [0]) (of_nat i)) (wr p (of_nat (i - l1 - 1)))) [l1 + 1..<l2 + 1] p) (\<lambda>p.
       wr p (of_nat (l2 - l1)) 0)"

definition fs_create_with_attr :: "'d block_io \<Rightarrow> FILE \<Rightarrow> u8 list \<Rightarrow> u8 \<Rightarrow> (unit, 'd) fop" where
  "fs_create_with_attr io garbage filename attr = with_file garbage
     (fbind (ftry (fs_open io filename)) (\<lambda>opened. if opened \<noteq> None then ferr else
      fbind (fget (\<lambda>s. flift (last_index (\<lambda>c. c \<noteq> 0) (path (fil s))))) (\<lambda>l2.
      fbind (fget (\<lambda>s. flift (last_index (\<lambda>c. c = 47) (path (fil s))))) (\<lambda>l1.
      fbind (open_directory io l1 l2) (\<lambda>index.
      fbind (fs_find_empty_entry io index) (\<lambda>(empty_entry, index).
      fbind (fget (\<lambda>s. flift (last_component filename l1 l2 (path (fil s))))) (\<lambda>p.
      fbind (upd_file (\<lambda>f. f\<lparr>path := p\<rparr>)) (\<lambda>_.
      fbind (next_component p) (\<lambda>_.
      fbind (store_entry index empty_entry attr) (\<lambda>_.
      fs_fflush io))))))))))"

definition fs_create :: "'d block_io \<Rightarrow> FILE \<Rightarrow> u8 list \<Rightarrow> (unit, 'd) fop" where
  "fs_create io garbage filename = fs_create_with_attr io garbage filename 0x20"

end
