(* ===== verification/FatDir.thy ===== *)
theory FatDir
  imports FatFile
begin

text \<open>
  Directories and the file commands: \<^verbatim>\<open>kernel/fs/fat/dir.c\<close> and \<^verbatim>\<open>kernel/fs/fat/usr.c\<close>. A local
  \<^verbatim>\<open>FILE\<close> starts with whatever is on the stack, an argument \<open>garbage\<close>.
\<close>

text \<open>A call on one of the global files.\<close>

definition on_dir_find :: "('a, 'd) fop \<Rightarrow> ('a, 'd) fop" where
  "on_dir_find m s = rbind (m (s\<lparr>fil := dir_find s\<rparr>)) (\<lambda>(r, s'). Inr (r, s'\<lparr>dir_find := fil s', fil := fil s\<rparr>))"

definition on_file_create :: "('a, 'd) fop \<Rightarrow> ('a, 'd) fop" where
  "on_file_create m s =
     rbind (m (s\<lparr>fil := file_create s\<rparr>)) (\<lambda>(r, s'). Inr (r, s'\<lparr>file_create := fil s', fil := fil s\<rparr>))"

definition upd_dir :: "(FS_FAT_DIR \<Rightarrow> FS_FAT_DIR) \<Rightarrow> (unit, 'd) fop" where
  "upd_dir f = fupd (\<lambda>s. s\<lparr>fdir := f (fdir s)\<rparr>)"

section \<open>Listing a directory\<close>

definition open_sub_dir :: "'d block_io \<Rightarrow> u8 list \<Rightarrow> (unit, 'd) fop" where
  "open_sub_dir io filename =
     fbind (on_dir_find
       (fbind (upd_file (\<lambda>f. f\<lparr>path := take 256 filename @ replicate (256 - length filename) 0\<rparr>)) (\<lambda>_.
        fbind (fs_find io) (\<lambda>_.
        fget (\<lambda>s. if dir_entry_pos (fil s) = 0xFFFFFFFF then ferr
          else fbind (flift (rd (entry (fil s)) 11)) (\<lambda>a.
            if a AND 0x10 = 0 then ferr else start_cluster)))))) (\<lambda>clus.
     fbind (fget (\<lambda>s. upd_dir (\<lambda>d. d\<lparr>cur_sector := fs_dataclus2sec (fat_info s) clus\<rparr>))) (\<lambda>_.
     fbind (fget (\<lambda>s. read_dir io (cur_sector (fdir s)))) (\<lambda>_. fret ())))"

text \<open>\<^verbatim>\<open>filename\<close> is the list of its bytes before the terminator: byte 1 is the terminator of \<^verbatim>\<open>"/"\<close>.\<close>

definition fs_open_dir :: "'d block_io \<Rightarrow> u8 list \<Rightarrow> (unit, 'd) fop" where
  "fs_open_dir io filename =
     fbind (flift (rd (filename @ [0]) 0)) (\<lambda>c. if c \<noteq> 47 then ferr else
     fbind (fget (\<lambda>s. upd_dir (\<lambda>_. \<lparr>cur_sector = fs_dataclus2sec (fat_info s) 2, dir_loc = 0, dir_sec = 1\<rparr>))) (\<lambda>_.
     fbind (fget (\<lambda>s. read_dir io (cur_sector (fdir s)))) (\<lambda>_.
     if length filename > 1 then open_sub_dir io filename else fret ())))"

text \<open>The entries of one sector from \<^verbatim>\<open>dir->loc\<close> on; deleted entries and volume labels are skipped.\<close>

function scan_dir :: "u8 list \<Rightarrow> u32 \<Rightarrow> scan res" where
  "scan_dir buf i =
     (if i < 512 then
        rbind (rd buf i) (\<lambda>c.
        if c = 0 then Inr EndOfDir
        else rbind (if c \<noteq> 0xE5 then rbind (rd buf (i + 11)) (\<lambda>a. Inr (a AND 8 = 0)) else Inr False) (\<lambda>hit.
          if hit then Inr (FoundAt i) else scan_dir buf (i + 32)))
      else Inr NotHere)"
  by pat_completeness auto
termination
proof (relation "measure (\<lambda>(buf, i). 1024 - unat i)", simp, goal_cases)
  case (1 buf i c hit)
  have "unat i < 512" using 1 by (simp add: word_less_nat_alt)
  then show ?case by (simp add: unat_add_no_wrap)
qed

declare scan_dir.simps [simp del]

definition go_to_sector :: "'d block_io \<Rightarrow> u32 \<Rightarrow> u32 \<Rightarrow> (u32, 'd) fop" where
  "go_to_sector io sec sector =
     fbind (upd_dir (\<lambda>_. \<lparr>cur_sector = sector, dir_loc = 0, dir_sec = sec\<rparr>)) (\<lambda>_. read_dir io sector)"

definition dir_round :: "'d block_io \<Rightarrow> u32 \<times> u32 \<Rightarrow> (u32 + u32 \<times> u32, 'd) fop" where
  "dir_round io = (\<lambda>(sec, index). fget (\<lambda>s.
     if sec > cluster_sectors s then fret (Inr (dir_sec (fdir s), index))
     else fbind (dir_block index) (\<lambda>b.
       fbind (flift (scan_dir (bdata b) (dir_loc (fdir s)))) (\<lambda>r. case r of
         EndOfDir \<Rightarrow> fret (Inl 0xffffffff)
       | FoundAt i \<Rightarrow>
           fbind (upd_dir (\<lambda>d. d\<lparr>dir_loc := i + 32\<rparr>)) (\<lambda>_.
           fbind (flift (copy_bytes 32 (bdata b) i (ubuf s) 0)) (\<lambda>buf.
           fbind (fupd (\<lambda>s. s\<lparr>ubuf := buf\<rparr>)) (\<lambda>_. fret (Inl 0))))
       | NotHere \<Rightarrow>
           if sec < cluster_sectors s then
             fbind (go_to_sector io (sec + 1) (cur b + sec)) (\<lambda>index. fret (Inr (sec + 1, index)))
           else
             fbind (get_fat_entry_value io (cur b - cluster_sectors s + 1)) (\<lambda>next_clus.
               if next_clus \<le> max_cluster s then
                 fbind (go_to_sector io 1 (fs_dataclus2sec (fat_info s) next_clus)) (\<lambda>index. fret (Inr (sec + 1, index)))
               else fret (Inl 0xffffffff))))))"

text \<open>0 with the entry in the buffer, \<^verbatim>\<open>0xffffffff\<close> at the end; the error value is 1.\<close>

definition fs_read_dir :: "'d block_io \<Rightarrow> (u32, 'd) fop" where
  "fs_read_dir io = fget (\<lambda>s. fbind (read_dir io (cur_sector (fdir s))) (\<lambda>index.
     fwhile (dir_round io) (dir_sec (fdir s), index)))"

section \<open>Removing, moving, copying\<close>

definition mark_deleted :: "(unit, 'd) fop" where
  "mark_deleted = upd_file (\<lambda>f. f\<lparr>entry := (entry f)[0 := 0xE5]\<rparr>)"

definition release_round :: "'d block_io \<Rightarrow> u32 \<Rightarrow> (unit + u32, 'd) fop" where
  "release_round io clus = fget (\<lambda>s.
     if clus \<noteq> 0 \<and> clus \<le> max_cluster s then
       fbind (get_fat_entry_value io clus) (\<lambda>next_clus.
       fbind (fs_modify_fat io clus 0) (\<lambda>_. fret (Inr next_clus)))
     else fret (Inl ()))"

definition fs_rm :: "'d block_io \<Rightarrow> FILE \<Rightarrow> u8 list \<Rightarrow> (unit, 'd) fop" where
  "fs_rm io garbage filename = with_file garbage
     (fbind (fs_open io filename) (\<lambda>_.
      fbind mark_deleted (\<lambda>_.
      fbind start_cluster (\<lambda>clus.
      fbind (fwhile (release_round io) clus) (\<lambda>_.
      fs_close io)))))"

definition copy_entry :: "'d block_io \<Rightarrow> FILE \<Rightarrow> u8 list \<Rightarrow> (unit, 'd) fop" where
  "copy_entry io garbage dest =
     fbind (fget (\<lambda>s. flift (rd (entry (fil s)) 11))) (\<lambda>attr.
     fbind (fs_create_with_attr io garbage dest attr) (\<lambda>_.
     fbind (fupd (\<lambda>s. s\<lparr>mk_dir_buf := entry (fil s)\<rparr>)) (\<lambda>_.
     on_file_create
       (fbind (fs_open io dest) (\<lambda>_.
        fbind (fget (\<lambda>s. upd_file (\<lambda>f. f\<lparr>entry := mk_dir_buf s\<rparr>))) (\<lambda>_.
        fs_close io))))))"

definition fs_mv :: "'d block_io \<Rightarrow> FILE \<Rightarrow> FILE \<Rightarrow> u8 list \<Rightarrow> u8 list \<Rightarrow> (unit, 'd) fop" where
  "fs_mv io garbage garbage' src dest = with_file garbage
     (fbind (fs_open io src) (\<lambda>_.
      fbind (copy_entry io garbage' dest) (\<lambda>_.
      fbind mark_deleted (\<lambda>_.
      fs_close io))))"

definition fs_cp :: "'d block_io \<Rightarrow> FILE \<Rightarrow> FILE \<Rightarrow> u8 list \<Rightarrow> u8 list \<Rightarrow> (unit, 'd) fop" where
  "fs_cp io garbage garbage' src dest = with_file garbage
     (fbind (fs_open io src) (\<lambda>_.
      fbind (copy_entry io garbage' dest) (\<lambda>_.
      fs_close io)))"

text \<open>\<^verbatim>\<open>fs_rmdir\<close> is \<^verbatim>\<open>fs_rm\<close> with another name for its local file.\<close>

definition fs_rmdir :: "'d block_io \<Rightarrow> FILE \<Rightarrow> u8 list \<Rightarrow> (unit, 'd) fop" where
  "fs_rmdir io garbage filename = with_file garbage
     (fbind (fs_open io filename) (\<lambda>_.
      fbind mark_deleted (\<lambda>_.
      fbind start_cluster (\<lambda>clus.
      fbind (fwhile (release_round io) clus) (\<lambda>_.
      fs_close io)))))"

section \<open>Making a directory and showing a file\<close>

text \<open>
  \<^verbatim>\<open>fs_write\<close> reports an error as \<^verbatim>\<open>0xFFFFFFFF\<close>, and \<^verbatim>\<open>fs_mkdir\<close> compares with 1: it goes on.
  The entry \<^verbatim>\<open>".."\<close> takes its cluster from the local \<^verbatim>\<open>file_creat\<close>, which nothing has set.
\<close>

definition dot_entry :: "u8 list \<Rightarrow> u8 list" where
  "dot_entry name = name @ replicate (11 - length name) 0x20 @ [0x30] @ replicate 20 0"

definition write_mk_dir_buf :: "'d block_io \<Rightarrow> (unit, 'd) fop" where
  "write_mk_dir_buf io = (\<lambda>s. rbind (fs_write io 32 (s\<lparr>ubuf := mk_dir_buf s\<rparr>)) (\<lambda>(_, s'). Inr (Some (), s'\<lparr>ubuf := ubuf s\<rparr>)))"

definition set_mk_dir_buf :: "u8 list \<Rightarrow> (unit, 'd) fop" where
  "set_mk_dir_buf b = fupd (\<lambda>s. s\<lparr>mk_dir_buf := b\<rparr>)"

definition own_cluster :: "u8 list \<Rightarrow> u8 list \<Rightarrow> u8 list" where
  "own_cluster e b = b[20 := e ! 20, 21 := e ! 21, 26 := e ! 26, 27 := e ! 27]"

definition parent_cluster :: "u32 \<Rightarrow> u8 list \<Rightarrow> u8 list res" where
  "parent_cluster pos b = rbind (set_u16 b 20 (ucast (drop_bit 16 pos AND 0xFFFF))) (\<lambda>b.
     set_u16 b 26 (ucast (pos AND 0xFFFF)))"

definition fs_mkdir :: "'d block_io \<Rightarrow> FILE \<Rightarrow> FILE \<Rightarrow> FILE \<Rightarrow> u8 list \<Rightarrow> (unit, 'd) fop" where
  "fs_mkdir io garbage file_creat garbage' filename = with_file garbage
     (fbind (fs_create_with_attr io garbage' filename 0x30) (\<lambda>_.
      fbind (fs_open io filename) (\<lambda>_.
      fbind (set_mk_dir_buf (dot_entry [46])) (\<lambda>_.
      fbind (write_mk_dir_buf io) (\<lambda>_.
      fbind (fs_lseek 0) (\<lambda>_.
      fbind (fget (\<lambda>s. set_mk_dir_buf (own_cluster (entry (fil s)) (mk_dir_buf s)))) (\<lambda>_.
      fbind (write_mk_dir_buf io) (\<lambda>_.
      fbind (flift (parent_cluster (dir_entry_pos file_creat) (dot_entry [46, 46]))) (\<lambda>b.
      fbind (set_mk_dir_buf b) (\<lambda>_.
      fbind (write_mk_dir_buf io) (\<lambda>_.
      fbind (upd_file (\<lambda>f. f\<lparr>entry := take 28 (entry f) @ [0, 0, 0, 0]\<rparr>)) (\<lambda>_.
      fs_close io))))))))))))"

text \<open>
  \<^verbatim>\<open>fs_cat\<close>: \<open>kmalloc\<close> gives the bytes of the buffer it returns for a size. The result is the text
  printed. The results of \<^verbatim>\<open>fs_read\<close> and \<^verbatim>\<open>fs_close\<close> are not looked at.
\<close>

definition fs_cat :: "'d block_io \<Rightarrow> FILE \<Rightarrow> (u32 \<Rightarrow> u8 list) \<Rightarrow> u8 list \<Rightarrow> (u8 list, 'd) fop" where
  "fs_cat io garbage kmalloc p = with_file garbage
     (fbind (fs_open io p) (\<lambda>_.
      fbind (fget (\<lambda>s. flift (get_entry_filesize (entry (fil s)) 0))) (\<lambda>file_size.
      fbind (fupd (\<lambda>s. s\<lparr>ubuf := kmalloc (file_size + 1)\<rparr>)) (\<lambda>_.
      fbind (ftry (fs_read io file_size)) (\<lambda>_.
      fbind (fget (\<lambda>s. flift (wr (ubuf s) file_size 0))) (\<lambda>buf.
      fbind (ftry (fs_close io)) (\<lambda>_.
      fret (takeWhile (\<lambda>c. c \<noteq> 0) buf))))))))"

end
