(* ===== verification/FatThms.thy ===== *)
theory FatThms
  imports FatDir
begin

text \<open>
  What the allocation table operations do: an entry written is read back through the table's
  own two-block cache, without touching the device.
\<close>

lemma fbind_Some:
  "fbind m f s = Inr (Some y, s') \<longleftrightarrow> (\<exists>x s1. m s = Inr (Some x, s1) \<and> f x s1 = Inr (Some y, s'))"
  by (auto simp: fbind_def res_simps split: option.splits)

lemma fop_simps [simp]:
  "fret x s = Inr (Some x, s)" "ferr s = Inr (None, s)" "fget f s = f s s" "fupd g s = Inr (Some (), g s)"
  by (simp_all add: fret_def ferr_def fget_def fupd_def)

lemma flift_Some: "flift r s = Inr (Some y, s') \<longleftrightarrow> r = Inr y \<and> s' = s"
  by (auto simp: flift_def res_simps)

lemma flift_Inr [simp]: "flift (Inr x) s = Inr (Some x, s)"
  by (simp add: flift_def)

lemma get_after_set: "set_u32 ch i v = Inr ch' \<Longrightarrow> get_u32 ch' i = Inr v"
proof -
  assume a: "set_u32 ch i v = Inr ch'"
  have d: "unat (i + a) \<noteq> unat (i + b)" if "a \<noteq> b" for a b :: u32
    using that by (simp only: word_unat_eq_iff [symmetric] add_left_cancel not_False_eq_True)
  have ne: "unat i \<noteq> unat (i + 1)" "unat i \<noteq> unat (i + 2)" "unat i \<noteq> unat (i + 3)"
    "unat (i + 1) \<noteq> unat (i + 2)" "unat (i + 1) \<noteq> unat (i + 3)" "unat (i + 2) \<noteq> unat (i + 3)"
    using d [of 0 1] d [of 0 2] d [of 0 3] d [of 1 2] d [of 1 3] d [of 2 3] by simp_all
  show ?thesis using a ne u8_parts [of v]
    by (auto simp: set_u32_def get_u32_def res_simps ucast_and_ff nth_list_update)
qed

text \<open>Which block of the table cache holds a sector, if the code finds it.\<close>

definition in_fat_buf :: "BUF list \<Rightarrow> u32 \<Rightarrow> u32 \<Rightarrow> bool" where
  "in_fat_buf bufs sec i \<longleftrightarrow> length bufs = 2 \<and> i < 2 \<and> cur (bufs ! unat i) = sec \<and> (i = 1 \<longrightarrow> cur (bufs ! 0) \<noteq> sec)"

lemma below_2: "(i :: u32) < 2 \<longleftrightarrow> i = 0 \<or> i = 1"
proof -
  have "unat i < 2 \<longleftrightarrow> unat i = 0 \<or> unat i = 1" by auto
  then show ?thesis by (simp add: word_less_nat_alt word_unat_eq_iff)
qed

lemma find_two:
  "length bufs = 2 \<Longrightarrow> find_buf bufs sec (unat FAT_BUF_NUM) 0 =
     Inr (if cur (bufs ! 0) = sec then 0 else if cur (bufs ! 1) = sec then 1 else 2)"
proof -
  assume len: "length bufs = 2"
  have n: "unat FAT_BUF_NUM = Suc (Suc 0)" by (simp add: FAT_BUF_NUM_def)
  have r: "rd bufs 0 = Inr (bufs ! 0)" "rd bufs 1 = Inr (bufs ! 1)" using len by simp_all
  show ?thesis unfolding n by (simp add: r)
qed

lemma in_fat_buf_found: "in_fat_buf bufs sec i \<Longrightarrow> find_buf bufs sec (unat FAT_BUF_NUM) 0 = Inr i"
  unfolding in_fat_buf_def below_2 by (auto simp: find_two)

lemma in_fat_buf_upd:
  "in_fat_buf bufs sec i \<Longrightarrow> cur b = sec \<Longrightarrow> in_fat_buf (bufs[unat i := b]) sec i"
  unfolding in_fat_buf_def below_2 by (auto simp: nth_list_update)

lemma in_fat_buf_new:
  "length bufs = 2 \<Longrightarrow> i < 2 \<Longrightarrow> cur (bufs ! 0) \<noteq> sec \<Longrightarrow> cur b = sec \<Longrightarrow> in_fat_buf (bufs[unat i := b]) sec i"
  unfolding in_fat_buf_def below_2 by (auto simp: nth_list_update)

lemma dev_read_Some:
  "fs_dev_read io buf sec n s = Inr (Some (r, bytes), s') \<Longrightarrow> \<exists>d. s' = s\<lparr>fdev := d\<rparr>"
  by (auto simp: fs_dev_read_def res_simps)

lemma dev_write_Some:
  "fs_dev_write io buf sec n s = Inr (Some u, s') \<Longrightarrow> \<exists>d. s' = s\<lparr>fdev := d\<rparr>"
  by (auto simp: fs_dev_write_def res_simps)

lemma write_fat_sector_Some:
  assumes "write_fat_sector io i s = Inr (Some u, s')"
  shows "\<exists>d b. s' = s\<lparr>fdev := d, fat_buf := (fat_buf s)[unat i := b]\<rparr> \<and> cur b = cur (fat_buf s ! unat i)"
proof -
  obtain b where b: "b = fat_buf s ! unat i" and
    rest: "(if cur b \<noteq> 0xffffffff \<and> state b AND 2 \<noteq> 0 then
       fbind (fs_dev_write io (bdata b) (cur b) 1) (\<lambda>_.
       fbind (fget (\<lambda>s. fs_dev_write io (bdata b) (num_of_sectors_per_fat (BPB (fat_info s)) + cur b) 1)) (\<lambda>_.
       fupd (\<lambda>s. s\<lparr>fat_buf := (fat_buf s)[unat i := b\<lparr>state := state b AND 1\<rparr>]\<rparr>)))
     else fret ()) s = Inr (Some u, s')"
    using assms unfolding write_fat_sector_def by (auto simp: fbind_Some flift_Some res_simps)
  show ?thesis
  proof (cases "cur b \<noteq> 0xffffffff \<and> state b AND 2 \<noteq> 0")
    case True
    then obtain u1 s1 u2 s2 where w: "fs_dev_write io (bdata b) (cur b) 1 s = Inr (Some u1, s1)"
      "fs_dev_write io (bdata b) (num_of_sectors_per_fat (BPB (fat_info s1)) + cur b) 1 s1 = Inr (Some u2, s2)"
      "s' = s2\<lparr>fat_buf := (fat_buf s2)[unat i := b\<lparr>state := state b AND 1\<rparr>]\<rparr>"
      using rest by (auto simp: fbind_Some)
    obtain d1 where "s1 = s\<lparr>fdev := d1\<rparr>" using dev_write_Some [OF w(1)] by blast
    moreover obtain d where "s2 = s1\<lparr>fdev := d\<rparr>" using dev_write_Some [OF w(2)] by blast
    ultimately have "s' = s\<lparr>fdev := d, fat_buf := (fat_buf s)[unat i := b\<lparr>state := state b AND 1\<rparr>]\<rparr>" using w(3) by simp
    then show ?thesis using b by (intro exI [of _ d] exI [of _ "b\<lparr>state := state b AND 1\<rparr>"]) simp
  next
    case False
    then have "s' = s" using rest by (simp only: if_False fop_simps) simp
    then show ?thesis by (intro exI [of _ "fdev s"] exI [of _ "fat_buf s ! unat i"]) simp
  qed
qed

lemma read_fat_sector_Some:
  assumes "length (fat_buf s) = 2" and "fat_clock_head s < 2" and "read_fat_sector io sec s = Inr (Some i, s')"
  shows "in_fat_buf (fat_buf s') sec i \<and> fat_info s' = fat_info s"
proof -
  let ?j = "if cur (fat_buf s ! 0) = sec then 0 else if cur (fat_buf s ! 1) = sec then 1 else 2 :: u32"
  have j: "find_buf (fat_buf s) sec (unat FAT_BUF_NUM) 0 = Inr ?j" using assms(1) by (rule find_two)
  show ?thesis
  proof (cases "?j = FAT_BUF_NUM")
    case False
    then have "?j = 0 \<or> ?j = 1" by (auto simp: FAT_BUF_NUM_def split: if_splits)
    moreover have "in_fat_buf (fat_buf s) sec ?j" using False assms(1)
      by (cases "cur (fat_buf s ! 0) = sec"; cases "cur (fat_buf s ! 1) = sec") (simp_all add: in_fat_buf_def FAT_BUF_NUM_def)
    ultimately have "in_fat_buf ((fat_buf s)[unat ?j := (fat_buf s ! unat ?j)\<lparr>state := state (fat_buf s ! unat ?j) OR 1\<rparr>]) sec ?j"
      by (intro in_fat_buf_upd) (auto simp: in_fat_buf_def)
    moreover have "i = ?j \<and> s' = s\<lparr>fat_buf := (fat_buf s)[unat ?j := (fat_buf s ! unat ?j)\<lparr>state := state (fat_buf s ! unat ?j) OR 1\<rparr>]\<rparr>"
      using assms(3) False unfolding read_fat_sector_def
      by (simp only: fbind_Some fop_simps j flift_Some if_False) (auto simp: fbind_Some flift_Some res_simps)
    ultimately show ?thesis by auto
  next
    case True
    then have miss: "cur (fat_buf s ! 0) \<noteq> sec" "cur (fat_buf s ! 1) \<noteq> sec" by (auto simp: FAT_BUF_NUM_def split: if_splits)
    obtain v bufs h where v: "fs_victim_512 (fat_buf s) (fat_clock_head s) FAT_BUF_NUM = Inr (v, bufs, h)" "v < 2"
      "list_all2 same_but_ref (fat_buf s) bufs"
      using fs_victim_spec [of "fat_clock_head s" FAT_BUF_NUM "fat_buf s"] assms(1,2)
      by (auto simp: FAT_BUF_NUM_def fs_victim_512_def)
    define s0 where "s0 = s\<lparr>fat_buf := bufs, fat_clock_head := h\<rparr>"
    have bufs: "length bufs = 2" "cur (bufs ! 0) \<noteq> sec" "cur (bufs ! 1) \<noteq> sec"
      using v(3) assms(1) miss by (auto simp: list_all2_conv_all_nth same_but_ref_def)
    have j2: "find_buf (fat_buf s) sec (unat FAT_BUF_NUM) 0 = Inr FAT_BUF_NUM" using j True by simp
    obtain u1 s1 r bytes s2 and b :: BUF where s1: "write_fat_sector io v s0 = Inr (Some u1, s1)"
      and s2: "fs_dev_read io (bdata b) sec 1 s1 = Inr (Some (r, bytes), s2)"
      and s': "i = v" "s' = s2\<lparr>fat_buf := (fat_buf s2)[unat v := \<lparr>bdata = bytes, cur = sec, state = 1\<rparr>]\<rparr>"
      using assms(3) unfolding read_fat_sector_def
      by (auto simp: fbind_Some flift_Some j2 v(1) s0_def [symmetric] split: if_splits)
    obtain d b' where w: "s1 = s0\<lparr>fdev := d, fat_buf := bufs[unat v := b']\<rparr>" "cur b' = cur (bufs ! unat v)"
      using write_fat_sector_Some [OF s1] by (auto simp: s0_def)
    obtain d' where "s2 = s1\<lparr>fdev := d'\<rparr>" using dev_read_Some [OF s2] by blast
    then have "fat_buf s' = bufs[unat v := \<lparr>bdata = bytes, cur = sec, state = 1\<rparr>]" "fat_info s' = fat_info s"
      using s' w by (simp_all add: s0_def)
    then show ?thesis using in_fat_buf_new [OF bufs(1) v(2) bufs(2)] s'(1) by simp
  qed
qed


lemma read_fat_sector_hit:
  assumes "in_fat_buf (fat_buf s) sec i"
  shows "read_fat_sector io sec s = Inr (Some i,
    s\<lparr>fat_buf := (fat_buf s)[unat i := (fat_buf s ! unat i)\<lparr>state := state (fat_buf s ! unat i) OR 1\<rparr>]\<rparr>)"
proof -
  have j: "find_buf (fat_buf s) sec (unat FAT_BUF_NUM) 0 = Inr i" using assms by (rule in_fat_buf_found)
  have i: "i \<noteq> FAT_BUF_NUM" "unat i < length (fat_buf s)"
    using assms unfolding in_fat_buf_def below_2 by (auto simp: FAT_BUF_NUM_def)
  show ?thesis unfolding read_fat_sector_def using i by (simp add: fbind_def j)
qed

lemma low_28: "((a AND 0xF0000000) OR (v AND 0x0FFFFFFF)) AND 0x0FFFFFFF = (v :: u32) AND 0x0FFFFFFF"
  by (simp add: and.assoc bit.conj_disj_distrib2)

text \<open>
  the allocation table is written through its cache: after \<^verbatim>\<open>fs_modify_fat\<close> has succeeded for
  a cluster, \<^verbatim>\<open>get_fat_entry_value\<close> succeeds for it and gives the 28 bits written, without any
  device access, whichever block of the cache was replaced.
\<close>

lemma fs_modify_fat_read_back:
  assumes "length (fat_buf s) = 2" and "fat_clock_head s < 2"
    and "fs_modify_fat io clus v s = Inr (Some (), s')"
  shows "\<exists>s''. get_fat_entry_value io clus s' = Inr (Some (v AND 0x0FFFFFFF), s'') \<and> fdev s'' = fdev s'"
proof -
  obtain sec off where c: "cluster_to_fat_entry (fat_info s) clus = (sec, off)" by fastforce
  obtain i s1 old bytes where r: "read_fat_sector io sec s = Inr (Some i, s1)"
    and st: "set_u32 (bdata (fat_buf s1 ! unat i)) off ((old AND 0xF0000000) OR (v AND 0x0FFFFFFF)) = Inr bytes"
    and s': "s' = s1\<lparr>fat_buf := (fat_buf s1)[unat i := (fat_buf s1 ! unat i)\<lparr>bdata := bytes, state := 3\<rparr>]\<rparr>"
    using assms(3) by (auto simp: fs_modify_fat_def c fbind_Some flift_Some res_simps)
  have s1: "in_fat_buf (fat_buf s1) sec i" "fat_info s1 = fat_info s"
    using read_fat_sector_Some [OF assms(1,2) r] by simp_all
  let ?b = "(fat_buf s1 ! unat i)\<lparr>bdata := bytes, state := 3\<rparr>"
  have "cur ?b = sec" using s1(1) by (simp add: in_fat_buf_def)
  then have hit: "in_fat_buf (fat_buf s') sec i" using in_fat_buf_upd [OF s1(1)] s' by simp
  have len: "unat i < length (fat_buf s1)" using s1(1) unfolding in_fat_buf_def below_2 by auto
  have "get_u32 bytes off = Inr ((old AND 0xF0000000) OR (v AND 0x0FFFFFFF))" using st by (rule get_after_set)
  moreover have "cluster_to_fat_entry (fat_info s') clus = (sec, off)" using c s' s1(2) by simp
  moreover have "fat_buf s' ! unat i = ?b" "unat i < length (fat_buf s')" using len s' by simp_all
  ultimately show ?thesis
    by (simp add: get_fat_entry_value_def fbind_def read_fat_sector_hit [OF hit] low_28)
qed

definition demo_fat :: "unit fat" where
  "demo_fat = (let f = \<lparr>path = [], loc = 0, dir_entry_pos = 0, dir_entry_sector = 0, entry = [], file_clock = 0, data_buf = []\<rparr> in
     \<lparr>fat_info = demo_fs, fat_clock_head = 0,
      fat_buf = [\<lparr>bdata = replicate 512 0, cur = 1, state = 0\<rparr>, \<lparr>bdata = replicate 512 0, cur = fst (cluster_to_fat_entry demo_fs 5), state = 0\<rparr>],
      filename11 = [], new_alloc_empty = [], dir_data_buf = [], dir_data_clock_head = 0, fdev = (), fil = f, ubuf = [],
      fdir = \<lparr>cur_sector = 0, dir_loc = 0, dir_sec = 0\<rparr>, dir_find = f, file_create = f, mk_dir_buf = []\<rparr>)"

definition no_io :: "unit block_io" where
  "no_io = \<lparr>blk_read = \<lambda>buf a n d. Inr (1, buf, d), blk_write = \<lambda>buf a n d. Inr (1, d)\<rparr>"

lemma demo_modify: "\<exists>s'. fs_modify_fat no_io 5 7 demo_fat = Inr (Some (), s')"
proof -
  have c: "cluster_to_fat_entry demo_fs 5 = (2080, 20)" by code_simp
  have "in_fat_buf (fat_buf demo_fat) 2080 1" by (simp add: in_fat_buf_def demo_fat_def c Let_def)
  from read_fat_sector_hit [OF this] show ?thesis
    by (simp add: fs_modify_fat_def fbind_def demo_fat_def c Let_def get_u32_def set_u32_def)
qed

lemma fs_modify_fat_read_back_witness:
  "\<exists>s' s''. fs_modify_fat no_io 5 7 demo_fat = Inr (Some (), s') \<and> get_fat_entry_value no_io 5 s' = Inr (Some 7, s'')"
proof -
  obtain s' where s': "fs_modify_fat no_io 5 7 demo_fat = Inr (Some (), s')" using demo_modify by blast
  have "length (fat_buf demo_fat) = 2" "fat_clock_head demo_fat < 2" by (simp_all add: demo_fat_def Let_def)
  then show ?thesis using fs_modify_fat_read_back [OF _ _ s'] s' by auto
qed

end
