(* ===== verification/FatStore.thy ===== *)
theory FatStore
  imports FatThms
begin

text \<open>
  The data of a file between its own cluster cache and the card. The contents the file system works on
  are a disk of their own, the \<^emph>\<open>logical\<close> disk: where a block of the cache is waiting to be written, the card
  still has older contents. The state the operations work on is that of theory \<open>Fat\<close>.
\<close>

section \<open>Ranges of sectors\<close>

lemma concat_slice:
  "(\<And>x. x \<in> set xss \<Longrightarrow> length x = n) \<Longrightarrow> k < length xss \<Longrightarrow> take n (drop (k * n) (concat xss)) = xss ! k"
proof (induction xss arbitrary: k)
  case (Cons x xss)
  then show ?case by (cases k) (auto simp: add.commute)
qed simp

lemma slice_of_slice:
  "i + m \<le> n \<Longrightarrow> take m (drop i (take n (drop p xs))) = take m (drop (p + i) xs)"
  by (simp add: drop_take min_def add.commute)

text \<open>The clusters are areas of \<open>n\<close> sectors from sector \<open>lo\<close> on, up to the end of the disk.\<close>

definition area :: "u32 \<Rightarrow> u32 \<Rightarrow> nat \<Rightarrow> u32 \<Rightarrow> bool" where
  "area lo capv n a \<longleftrightarrow> unat lo \<le> unat a \<and> (unat a - unat lo) mod n = 0 \<and> unat a + n \<le> unat capv"

lemma area_disjoint:
  assumes "area lo capv n a" "area lo capv n b" "a \<noteq> b" "within n a x"
  shows "\<not> within n b x"
proof
  assume "within n b x"
  let ?a = "unat a - unat lo" and ?b = "unat b - unat lo" and ?x = "unat x - unat lo"
  have "?a div n = ?x div n"
  proof (rule div_nat_eqI [symmetric])
    show "n * (?a div n) \<le> ?x" "?x < n * Suc (?a div n)"
      using assms(1,4) mult_div_mod_eq [of n ?a] by (auto simp: area_def within_def)
  qed
  moreover have "?b div n = ?x div n"
  proof (rule div_nat_eqI [symmetric])
    show "n * (?b div n) \<le> ?x" "?x < n * Suc (?b div n)"
      using assms(2) \<open>within n b x\<close> mult_div_mod_eq [of n ?b] by (auto simp: area_def within_def)
  qed
  ultimately have "?a = ?b" using assms(1,2) mult_div_mod_eq [of n ?a] mult_div_mod_eq [of n ?b] by (simp add: area_def)
  then have "unat a = unat b" using assms(1,2) unfolding area_def by linarith
  then show False using assms(3) by (simp add: word_unat_eq_iff)
qed

lemma area_le: "area lo capv n a \<Longrightarrow> unat a + n \<le> 4294967296"
  using unat_less_2p32 [of capv] unfolding area_def by linarith

lemma area_not_empty: "area lo capv n a \<Longrightarrow> 0 < n \<Longrightarrow> a \<noteq> 0xffffffff"
proof
  assume "area lo capv n a" "0 < n" "a = 0xffffffff"
  then show False using unat_less_2p32 [of capv] by (simp add: area_def)
qed

lemma range_index:
  assumes "unat a + n \<le> 4294967296" "within n a x"
  shows "unat x - unat a < n" "a + of_nat (unat x - unat a) = x"
proof -
  show "unat x - unat a < n" using assms(2) by (auto simp: within_def)
  have "of_nat (unat a + (unat x - unat a)) = x" using assms(2) by (simp add: within_def)
  then show "a + of_nat (unat x - unat a) = x" by simp
qed

lemma range_sector:
  assumes "\<And>a. length (disk a) = 512" "unat a + n \<le> 4294967296" "within n a x"
  shows "take 512 (drop (512 * (unat x - unat a)) (range_bytes disk a n)) = disk x"
proof -
  let ?k = "unat x - unat a"
  note k = range_index [OF assms(2,3)]
  have "take 512 (drop (?k * 512) (concat (map (\<lambda>k. disk (a + of_nat k)) [0..<n]))) = map (\<lambda>k. disk (a + of_nat k)) [0..<n] ! ?k"
    using k(1) assms(1) by (intro concat_slice) auto
  then show ?thesis using k by (simp add: range_bytes_def mult.commute)
qed

lemma range_bytes_cong:
  assumes "unat a + n \<le> 4294967296" "\<And>x. within n a x \<Longrightarrow> disk x = disk' x"
  shows "range_bytes disk a n = range_bytes disk' a n"
proof -
  have "disk (a + of_nat k) = disk' (a + of_nat k)" if "k < n" for k
  proof -
    have "unat (of_nat k :: u32) = k" "unat a + k < 4294967296"
      using that assms(1) by (simp_all add: unat_of_nat take_bit_nat_eq_self)
    then have "unat (a + of_nat k) = unat a + k" by (subst unat_add_no_wrap) simp_all
    then show ?thesis using that by (intro assms(2)) (simp add: within_def)
  qed
  then have "map (\<lambda>k. disk (a + of_nat k)) [0..<n] = map (\<lambda>k. disk' (a + of_nat k)) [0..<n]" by simp
  then show ?thesis by (simp only: range_bytes_def)
qed

text \<open>A range that is overwritten holds the new bytes.\<close>

lemma put_range_length:
  "(\<And>a. length (disk a) = 512) \<Longrightarrow> 512 * n \<le> length buf \<Longrightarrow> length (put_range disk a n buf x) = 512"
  by (auto simp: put_range_def within_def)

lemma chunks: "512 * n \<le> length buf \<Longrightarrow> concat (map (\<lambda>k. take 512 (drop (512 * k) buf)) [0..<n]) = take (512 * n) buf"
proof (induction n)
  case (Suc n)
  then show ?case using take_add [of "512 * n" 512 buf] by (simp add: add.commute)
qed simp

lemma range_bytes_put:
  assumes "unat a + n \<le> 4294967296" "512 * n \<le> length buf"
  shows "range_bytes (put_range disk a n buf) a n = take (512 * n) buf"
proof -
  have "put_range disk a n buf (a + of_nat k) = take 512 (drop (512 * k) buf)" if "k < n" for k
  proof -
    have "unat (of_nat k :: u32) = k" "unat a + k < 4294967296"
      using that assms(1) by (simp_all add: unat_of_nat take_bit_nat_eq_self)
    then have "unat (a + of_nat k) = unat a + k" by (subst unat_add_no_wrap) simp_all
    then show ?thesis using that by (simp add: put_range_def within_def)
  qed
  then have "map (\<lambda>k. put_range disk a n buf (a + of_nat k)) [0..<n] = map (\<lambda>k. take 512 (drop (512 * k) buf)) [0..<n]" by simp
  then show ?thesis unfolding range_bytes_def by (simp only: chunks [OF assms(2)])
qed

section \<open>A cache that is coherent with a logical disk\<close>

definition dirty :: "BUF \<Rightarrow> bool" where
  "dirty b \<longleftrightarrow> cur b \<noteq> 0xffffffff \<and> state b AND 2 \<noteq> 0"

text \<open>Every block holds the logical contents of the area it stands for.\<close>

definition holds_area :: "(u32 \<Rightarrow> u8 list) \<Rightarrow> u32 \<Rightarrow> u32 \<Rightarrow> nat \<Rightarrow> BUF \<Rightarrow> bool" where
  "holds_area D lo capv n b \<longleftrightarrow> length (bdata b) = 4096
     \<and> (cur b \<noteq> 0xffffffff \<longrightarrow> area lo capv n (cur b) \<and> take (512 * n) (bdata b) = range_bytes D (cur b) n)"

text \<open>
  No area is cached twice, and outside the areas of dirty blocks the disk \<open>dk\<close> has the logical
  contents.
\<close>

definition coherent :: "(u32 \<Rightarrow> u8 list) \<Rightarrow> (u32 \<Rightarrow> u8 list) \<Rightarrow> u32 \<Rightarrow> u32 \<Rightarrow> nat \<Rightarrow> BUF list \<Rightarrow> bool" where
  "coherent D dk lo capv n bufs \<longleftrightarrow> (\<forall>i<length bufs. holds_area D lo capv n (bufs ! i)) \<and> unique_cur bufs
     \<and> (\<forall>x. (\<forall>i<length bufs. dirty (bufs ! i) \<longrightarrow> \<not> within n (cur (bufs ! i)) x) \<longrightarrow> dk x = D x)"

lemma coherent_refs:
  assumes "coherent D dk lo capv n bufs" "list_all2 same_but_ref bufs bufs'"
  shows "coherent D dk lo capv n bufs'"
proof -
  have l: "length bufs' = length bufs" using assms(2) by (simp add: list_all2_lengthD)
  have e: "cur (bufs' ! i) = cur (bufs ! i)" "bdata (bufs' ! i) = bdata (bufs ! i)" "dirty (bufs' ! i) = dirty (bufs ! i)" if "i < length bufs" for i
  proof -
    have r: "same_but_ref (bufs ! i) (bufs' ! i)" using assms(2) that by (simp add: list_all2_conv_all_nth)
    then show "cur (bufs' ! i) = cur (bufs ! i)" "bdata (bufs' ! i) = bdata (bufs ! i)" by (simp_all add: same_but_ref_def)
    then show "dirty (bufs' ! i) = dirty (bufs ! i)" using same_but_ref_dirty [OF r] by (simp add: dirty_def)
  qed
  show ?thesis using assms(1) unfolding coherent_def unique_cur_def holds_area_def l by (simp add: e)
qed

text \<open>Replacing one block: what has to be shown of it and of the disk.\<close>

lemma coherent_update:
  assumes "unique_cur bufs" "i < length bufs" "\<And>k. k < length bufs \<Longrightarrow> k \<noteq> i \<Longrightarrow> holds_area D lo capv n (bufs ! k)"
    and "holds_area D lo capv n b" "\<And>k. k < length bufs \<Longrightarrow> k \<noteq> i \<Longrightarrow> cur (bufs ! k) \<noteq> cur b \<or> cur b = 0xffffffff"
    and "\<And>x. (\<And>k. k < length bufs \<Longrightarrow> k \<noteq> i \<Longrightarrow> dirty (bufs ! k) \<Longrightarrow> \<not> within n (cur (bufs ! k)) x) \<Longrightarrow>
      (dirty b \<Longrightarrow> \<not> within n (cur b) x) \<Longrightarrow> dk x = D x"
  shows "coherent D dk lo capv n (bufs[i := b])"
proof -
  have "unique_cur (bufs[i := b])" unfolding unique_cur_def
  proof (intro allI impI)
    fix j k
    assume "j < length (bufs[i := b])" "k < length (bufs[i := b])" "cur (bufs[i := b] ! j) = cur (bufs[i := b] ! k)" "cur (bufs[i := b] ! j) \<noteq> 0xffffffff"
    then show "j = k" using assms(1,2) assms(5) [of j] assms(5) [of k] by (auto simp: unique_cur_def nth_list_update split: if_splits)
  qed
  moreover have "holds_area D lo capv n (bufs[i := b] ! k)" if "k < length bufs" for k
    using assms(2) assms(3) [of k] assms(4) that by (simp add: nth_list_update)
  moreover have "dk x = D x" if x: "\<forall>k<length bufs. dirty (bufs[i := b] ! k) \<longrightarrow> \<not> within n (cur (bufs[i := b] ! k)) x" for x
  proof (rule assms(6))
    show "\<not> within n (cur (bufs ! k)) x" if "k < length bufs" "k \<noteq> i" "dirty (bufs ! k)" for k using x that by (auto simp: nth_list_update)
    show "dirty b \<Longrightarrow> \<not> within n (cur b) x" using x assms(2) by (auto simp: nth_list_update dest: spec [of _ i])
  qed
  ultimately show ?thesis by (simp add: coherent_def)
qed

lemma coherentD:
  assumes "coherent D dk lo capv n bufs" "i < length bufs"
  shows "holds_area D lo capv n (bufs ! i)" "length (bdata (bufs ! i)) = 4096" "unique_cur bufs"
    and "k < length bufs \<Longrightarrow> k \<noteq> i \<Longrightarrow> cur (bufs ! k) \<noteq> cur (bufs ! i) \<or> cur (bufs ! i) = 0xffffffff"
  using assms by (auto simp: coherent_def holds_area_def unique_cur_def)

lemma coherent_outside:
  assumes "coherent D dk lo capv n bufs" "\<And>a. area lo capv n a \<Longrightarrow> \<not> within n a x"
  shows "dk x = D x"
proof -
  have "\<not> within n (cur (bufs ! i)) x" if "i < length bufs" "dirty (bufs ! i)" for i
    using coherentD(1) [OF assms(1) that(1)] that(2) assms(2) by (simp add: holds_area_def dirty_def)
  then show ?thesis using assms(1) by (simp add: coherent_def)
qed

text \<open>A dirty area is put on the disk.\<close>

lemma coherent_written:
  assumes "coherent D dk lo capv n bufs" "i < length bufs" "dirty (bufs ! i)" "512 * n \<le> 4096" "\<And>a. length (D a) = 512"
  shows "coherent D (put_range dk (cur (bufs ! i)) n (bdata (bufs ! i))) lo capv n (bufs[i := cleaned (bufs ! i)])"
proof -
  let ?b = "bufs ! i"
  note b = coherentD [OF assms(1,2)]
  have ar: "area lo capv n (cur ?b)" "take (512 * n) (bdata ?b) = range_bytes D (cur ?b) n"
    using b(1) assms(3) by (simp_all add: holds_area_def dirty_def)
  have le: "unat (cur ?b) + n \<le> 4294967296" using ar(1) by (rule area_le)
  show ?thesis
  proof (rule coherent_update [OF b(3) assms(2)])
    show "holds_area D lo capv n (bufs ! k)" if "k < length bufs" for k using coherentD(1) [OF assms(1) that] .
    show "holds_area D lo capv n (cleaned ?b)" using b(1) by (simp add: holds_area_def)
    show "cur (bufs ! k) \<noteq> cur (cleaned ?b) \<or> cur (cleaned ?b) = 0xffffffff" if "k < length bufs" "k \<noteq> i" for k using b(4) [OF that] by simp
    fix x
    assume x: "\<And>k. k < length bufs \<Longrightarrow> k \<noteq> i \<Longrightarrow> dirty (bufs ! k) \<Longrightarrow> \<not> within n (cur (bufs ! k)) x"
    show "put_range dk (cur ?b) n (bdata ?b) x = D x"
    proof (cases "within n (cur ?b) x")
      case True
      then have k: "512 * (unat x - unat (cur ?b)) + 512 \<le> 512 * n" by (auto simp: within_def)
      have "take 512 (drop (512 * (unat x - unat (cur ?b))) (bdata ?b))
          = take 512 (drop (512 * (unat x - unat (cur ?b))) (take (512 * n) (bdata ?b)))"
        using slice_of_slice [OF k, of 0 "bdata ?b"] by simp
      then show ?thesis using range_sector [OF assms(5) le True] ar(2) True by (simp add: put_range_def)
    next
      case False
      then have "\<forall>k<length bufs. dirty (bufs ! k) \<longrightarrow> \<not> within n (cur (bufs ! k)) x" using x by (metis)
      then show ?thesis using assms(1) False by (simp add: coherent_def put_range_def)
    qed
  qed
qed

text \<open>A block that is not dirty is loaded with another area, which is not in the cache.\<close>

lemma coherent_loaded:
  assumes "coherent D dk lo capv n bufs" "i < length bufs" "\<not> dirty (bufs ! i)" "\<And>k. k < length bufs \<Longrightarrow> cur (bufs ! k) \<noteq> a"
    and "area lo capv n a" "\<And>a. length (D a) = 512" "length rest = 4096 - 512 * n" "512 * n \<le> 4096"
  shows "coherent D dk lo capv n (bufs[i := \<lparr>bdata = range_bytes dk a n @ rest, cur = a, state = 1\<rparr>])" "range_bytes dk a n = range_bytes D a n"
proof -
  note b = coherentD [OF assms(1,2)]
  have le: "unat a + n \<le> 4294967296" using assms(5) by (rule area_le)
  have "dk x = D x" if "within n a x" for x
  proof -
    have "\<not> within n (cur (bufs ! k)) x" if "k < length bufs" "dirty (bufs ! k)" for k
      using area_disjoint [OF assms(5) _ _ \<open>within n a x\<close>] assms(4) [OF that(1)] coherentD(1) [OF assms(1) that(1)] that(2)
      by (auto simp: holds_area_def dirty_def)
    then show ?thesis using assms(1) by (simp add: coherent_def)
  qed
  then show e: "range_bytes dk a n = range_bytes D a n" by (rule range_bytes_cong [OF le])
  show "coherent D dk lo capv n (bufs[i := \<lparr>bdata = range_bytes dk a n @ rest, cur = a, state = 1\<rparr>])"
  proof (rule coherent_update [OF b(3) assms(2)])
    show "holds_area D lo capv n (bufs ! k)" if "k < length bufs" for k using coherentD(1) [OF assms(1) that] .
    show "holds_area D lo capv n \<lparr>bdata = range_bytes dk a n @ rest, cur = a, state = 1\<rparr>"
      using assms(5,7,8) range_bytes_length [of D a n, OF assms(6)] by (simp add: holds_area_def e)
    show "cur (bufs ! k) \<noteq> cur \<lparr>bdata = range_bytes dk a n @ rest, cur = a, state = 1\<rparr>
        \<or> cur \<lparr>bdata = range_bytes dk a n @ rest, cur = a, state = 1\<rparr> = 0xffffffff" if "k < length bufs" for k
      using assms(4) [OF that] by simp
    fix x
    assume "\<And>k. k < length bufs \<Longrightarrow> k \<noteq> i \<Longrightarrow> dirty (bufs ! k) \<Longrightarrow> \<not> within n (cur (bufs ! k)) x"
    then have "\<forall>k<length bufs. dirty (bufs ! k) \<longrightarrow> \<not> within n (cur (bufs ! k)) x" using assms(3) by metis
    then show "dk x = D x" using assms(1) by (simp add: coherent_def)
  qed
qed

text \<open>New bytes in a block change the logical contents of its area, and of no other.\<close>

lemma coherent_changed:
  assumes "coherent D dk lo capv n bufs" "i < length bufs" "area lo capv n a" "cur (bufs ! i) = a" "length bytes = 4096" "512 * n \<le> 4096" "0 < n"
  shows "coherent (put_range D a n bytes) dk lo capv n (bufs[i := (bufs ! i)\<lparr>bdata := bytes, state := 3\<rparr>])"
proof -
  note b = coherentD [OF assms(1,2)]
  have other: "range_bytes (put_range D a n bytes) c n = range_bytes D c n" if "area lo capv n c" "c \<noteq> a" for c
    using area_disjoint [OF that(1) assms(3) that(2)] by (intro range_bytes_cong area_le [OF that(1)]) (simp add: put_range_def)
  have ne: "a \<noteq> 0xffffffff" using area_not_empty [OF assms(3,7)] .
  show ?thesis
  proof (rule coherent_update [OF b(3) assms(2)])
    show "holds_area (put_range D a n bytes) lo capv n (bufs ! k)" if "k < length bufs" "k \<noteq> i" for k
      using coherentD(1) [OF assms(1) that(1)] b(4) [OF that] other ne assms(4) by (auto simp: holds_area_def)
    show "holds_area (put_range D a n bytes) lo capv n ((bufs ! i)\<lparr>bdata := bytes, state := 3\<rparr>)"
      using assms(3-6) range_bytes_put [OF area_le [OF assms(3)], of bytes D] by (simp add: holds_area_def)
    show "cur (bufs ! k) \<noteq> cur ((bufs ! i)\<lparr>bdata := bytes, state := 3\<rparr>) \<or> cur ((bufs ! i)\<lparr>bdata := bytes, state := 3\<rparr>) = 0xffffffff"
      if "k < length bufs" "k \<noteq> i" for k using b(4) [OF that] by simp
    fix x
    assume x: "\<And>k. k < length bufs \<Longrightarrow> k \<noteq> i \<Longrightarrow> dirty (bufs ! k) \<Longrightarrow> \<not> within n (cur (bufs ! k)) x"
      "dirty ((bufs ! i)\<lparr>bdata := bytes, state := 3\<rparr>) \<Longrightarrow> \<not> within n (cur ((bufs ! i)\<lparr>bdata := bytes, state := 3\<rparr>)) x"
    then have "\<not> within n a x" using assms(4) ne by (simp add: dirty_def)
    moreover have "\<forall>k<length bufs. dirty (bufs ! k) \<longrightarrow> \<not> within n (cur (bufs ! k)) x" using x(1) calculation assms(4) by metis
    ultimately show "dk x = put_range D a n bytes x" using assms(1) by (simp add: coherent_def put_range_def)
  qed
qed

section \<open>The file system on a logical disk\<close>

lemma cluster_sizes_ubuf [simp]:
  "cluster_sectors (s\<lparr>ubuf := x\<rparr>) = cluster_sectors s" "cluster_bytes (s\<lparr>ubuf := x\<rparr>) = cluster_bytes s"
  "max_cluster (s\<lparr>ubuf := x\<rparr>) = max_cluster s"
  by (simp_all add: cluster_sectors_def cluster_bytes_def max_cluster_def)

lemma cluster_sizes_fil [simp]:
  "cluster_sectors (s\<lparr>fil := f\<rparr>) = cluster_sectors s" "cluster_bytes (s\<lparr>fil := f\<rparr>) = cluster_bytes s"
  "max_cluster (s\<lparr>fil := f\<rparr>) = max_cluster s"
  by (simp_all add: cluster_sectors_def cluster_bytes_def max_cluster_def)

definition data_start :: "fs_info \<Rightarrow> u32" where
  "data_start fi = first_data_sector fi + base_addr fi"

text \<open>The blocks of the table cache are in front of the data, and none is waiting to be written.\<close>

definition table_cache :: "(u32 \<Rightarrow> u8 list) \<Rightarrow> u32 \<Rightarrow> BUF list \<Rightarrow> bool" where
  "table_cache D lo bufs \<longleftrightarrow> (\<forall>b\<in>set bufs. length (bdata b) = 512 \<and> state b AND 2 = 0
     \<and> (cur b \<noteq> 0xffffffff \<longrightarrow> cur b < lo \<and> bdata b = D (cur b)))"

lemma table_cacheD:
  "table_cache D lo bufs \<Longrightarrow> i < length bufs \<Longrightarrow> length (bdata (bufs ! i)) = 512 \<and> state (bufs ! i) AND 2 = 0
     \<and> (cur (bufs ! i) \<noteq> 0xffffffff \<longrightarrow> cur (bufs ! i) < lo \<and> bdata (bufs ! i) = D (cur (bufs ! i)))"
  by (simp add: table_cache_def)

lemma table_cache_update:
  assumes "table_cache D lo bufs" "length (bdata b) = 512" "state b AND 2 = 0" "cur b \<noteq> 0xffffffff \<longrightarrow> cur b < lo \<and> bdata b = D (cur b)"
  shows "table_cache D lo (bufs[i := b])"
  using assms set_update_subset_insert [of bufs i b] by (fastforce simp: table_cache_def)

lemma table_cache_refs:
  assumes "table_cache D lo bufs" "list_all2 same_but_ref bufs bufs'"
  shows "table_cache D lo bufs'"
  unfolding table_cache_def
proof
  fix b'
  assume "b' \<in> set bufs'"
  then obtain i where i: "i < length bufs'" "b' = bufs' ! i" by (auto simp: in_set_conv_nth)
  then have r: "i < length bufs" "same_but_ref (bufs ! i) b'" using assms(2) by (auto simp: list_all2_conv_all_nth)
  show "length (bdata b') = 512 \<and> state b' AND 2 = 0 \<and> (cur b' \<noteq> 0xffffffff \<longrightarrow> cur b' < lo \<and> bdata b' = D (cur b'))"
    using table_cacheD [OF assms(1) r(1)] r(2) same_but_ref_dirty [OF r(2)] by (simp add: same_but_ref_def)
qed

lemma table_cache_cong: "table_cache D lo bufs \<Longrightarrow> (\<And>x. x < lo \<Longrightarrow> D' x = D x) \<Longrightarrow> table_cache D' lo bufs"
  by (simp add: table_cache_def)

lemma or_one_clean: "state b AND 2 = 0 \<Longrightarrow> (state b OR 1) AND 2 = (0 :: u32)"
  by (simp add: bit.conj_disj_distrib2)

text \<open>The state of the file system and of the open file is coherent with the logical disk \<open>D\<close>.\<close>

definition fs_coherent :: "('d \<Rightarrow> u32 \<Rightarrow> u8 list) \<Rightarrow> ('d \<Rightarrow> u32) \<Rightarrow> ('d \<Rightarrow> bool) \<Rightarrow> (u32 \<Rightarrow> u8 list) \<Rightarrow> 'd fat \<Rightarrow> bool" where
  "fs_coherent disk cap okd D s \<longleftrightarrow> okd (fdev s) \<and> (\<forall>a. length (D a) = 512)
     \<and> length (fat_buf s) = 2 \<and> fat_clock_head s < 2 \<and> table_cache D (data_start (fat_info s)) (fat_buf s)
     \<and> length (data_buf (fil s)) = 4 \<and> file_clock (fil s) < 4
     \<and> coherent D (disk (fdev s)) (data_start (fat_info s)) (cap (fdev s)) (unat (cluster_sectors s)) (data_buf (fil s))"

text \<open>Two states that differ in the caches and the device only.\<close>

definition only_caches :: "('d \<Rightarrow> u32) \<Rightarrow> 'd fat \<Rightarrow> 'd fat \<Rightarrow> bool" where
  "only_caches cap s s' \<longleftrightarrow> (\<exists>d fb fh db fc. cap d = cap (fdev s)
     \<and> s' = s\<lparr>fdev := d, fat_buf := fb, fat_clock_head := fh, fil := (fil s)\<lparr>data_buf := db, file_clock := fc\<rparr>\<rparr>)"

lemma only_caches_refl: "only_caches cap s s"
proof -
  have "s = s\<lparr>fdev := fdev s, fat_buf := fat_buf s, fat_clock_head := fat_clock_head s,
      fil := (fil s)\<lparr>data_buf := data_buf (fil s), file_clock := file_clock (fil s)\<rparr>\<rparr>" by simp
  then show ?thesis unfolding only_caches_def by blast
qed

lemma only_caches_trans: "only_caches cap s s1 \<Longrightarrow> only_caches cap s1 s2 \<Longrightarrow> only_caches cap s s2"
proof -
  assume "only_caches cap s s1" "only_caches cap s1 s2"
  then obtain d fb fh db fc d' fb' fh' db' fc' where
    1: "cap d = cap (fdev s)" "s1 = s\<lparr>fdev := d, fat_buf := fb, fat_clock_head := fh, fil := (fil s)\<lparr>data_buf := db, file_clock := fc\<rparr>\<rparr>"
    and 2: "cap d' = cap (fdev s1)"
      "s2 = s1\<lparr>fdev := d', fat_buf := fb', fat_clock_head := fh', fil := (fil s1)\<lparr>data_buf := db', file_clock := fc'\<rparr>\<rparr>"
    unfolding only_caches_def by blast
  have "s2 = s\<lparr>fdev := d', fat_buf := fb', fat_clock_head := fh', fil := (fil s)\<lparr>data_buf := db', file_clock := fc'\<rparr>\<rparr>"
    unfolding 2(2) 1(2) by simp
  moreover have "cap d' = cap (fdev s)" using 1 2(1) by simp
  ultimately show ?thesis unfolding only_caches_def by blast
qed

lemma only_caches_fields:
  assumes "only_caches cap s s'"
  shows "cap (fdev s') = cap (fdev s)" "fat_info s' = fat_info s" "ubuf s' = ubuf s"
    "entry (fil s') = entry (fil s)" "loc (fil s') = loc (fil s)" "cluster_sectors s' = cluster_sectors s"
    "cluster_bytes s' = cluster_bytes s" "max_cluster s' = max_cluster s"
  using assms by (auto simp: only_caches_def cluster_sectors_def cluster_bytes_def max_cluster_def)

lemma only_caches_update:
  "cap d = cap (fdev s) \<Longrightarrow>
    only_caches cap s (s\<lparr>fdev := d, fat_buf := fb, fat_clock_head := fh, fil := (fil s)\<lparr>data_buf := db, file_clock := fc\<rparr>\<rparr>)"
  unfolding only_caches_def by blast

lemma only_caches_ubuf: "only_caches cap s s' \<Longrightarrow> only_caches cap (s\<lparr>ubuf := x\<rparr>) (s'\<lparr>ubuf := x\<rparr>)"
proof -
  assume "only_caches cap s s'"
  then obtain d fb fh db fc where d: "cap d = cap (fdev s)"
    "s' = s\<lparr>fdev := d, fat_buf := fb, fat_clock_head := fh, fil := (fil s)\<lparr>data_buf := db, file_clock := fc\<rparr>\<rparr>"
    unfolding only_caches_def by blast
  let ?s = "s\<lparr>ubuf := x\<rparr>"
  have e: "s'\<lparr>ubuf := x\<rparr> = ?s\<lparr>fdev := d, fat_buf := fb, fat_clock_head := fh, fil := (fil ?s)\<lparr>data_buf := db, file_clock := fc\<rparr>\<rparr>"
    unfolding d(2) by simp
  have "cap d = cap (fdev ?s)" using d by simp
  then show ?thesis unfolding e by (rule only_caches_update)
qed

text \<open>Reading does no more, and a data cache without blocks to be written stays without them.\<close>

definition reads_only :: "('d \<Rightarrow> u32) \<Rightarrow> 'd fat \<Rightarrow> 'd fat \<Rightarrow> bool" where
  "reads_only cap s s' \<longleftrightarrow> only_caches cap s s' \<and> (all_clean (data_buf (fil s)) \<longrightarrow> all_clean (data_buf (fil s')))"

lemma reads_only_refl: "reads_only cap s s"
  by (simp add: reads_only_def only_caches_refl)

lemma reads_only_trans: "reads_only cap s s1 \<Longrightarrow> reads_only cap s1 s2 \<Longrightarrow> reads_only cap s s2"
  using only_caches_trans by (auto simp: reads_only_def)

lemma reads_only_caches: "reads_only cap s s' \<Longrightarrow> only_caches cap s s'"
  by (simp add: reads_only_def)

lemmas reads_only_fields = only_caches_fields [OF reads_only_caches]

lemma reads_only_clean: "reads_only cap s s' \<Longrightarrow> all_clean (data_buf (fil s)) \<Longrightarrow> all_clean (data_buf (fil s'))"
  by (simp add: reads_only_def)

lemma reads_only_ubuf: "reads_only cap s s' \<Longrightarrow> reads_only cap (s\<lparr>ubuf := x\<rparr>) (s'\<lparr>ubuf := x\<rparr>)"
  using only_caches_ubuf by (auto simp: reads_only_def)

lemma reads_only_update:
  "cap d = cap (fdev s) \<Longrightarrow> (all_clean (data_buf (fil s)) \<Longrightarrow> all_clean db) \<Longrightarrow>
    reads_only cap s (s\<lparr>fdev := d, fat_buf := fb, fat_clock_head := fh, fil := (fil s)\<lparr>data_buf := db, file_clock := fc\<rparr>\<rparr>)"
  using only_caches_update by (simp add: reads_only_def)

lemma fs_coherent_ubuf [simp]: "fs_coherent disk cap okd D (s\<lparr>ubuf := x\<rparr>) = fs_coherent disk cap okd D s"
  by (simp add: fs_coherent_def cluster_sectors_def)

lemma fs_coherent_file [simp]:
  "fs_coherent disk cap okd D (s\<lparr>fil := (fil s)\<lparr>loc := l\<rparr>\<rparr>) = fs_coherent disk cap okd D s"
  "fs_coherent disk cap okd D (s\<lparr>fil := (fil s)\<lparr>entry := e\<rparr>\<rparr>) = fs_coherent disk cap okd D s"
  by (simp_all add: fs_coherent_def cluster_sectors_def)

lemma fat_offset: "unat (snd (cluster_to_fat_entry fi clus)) + 4 \<le> 512"
proof -
  have "(511 :: u32) = mask 9" by (simp add: mask_eq_exp_minus_1)
  then have e: "push_bit 2 clus AND 511 = push_bit 2 (take_bit 7 clus)"
    by (simp only: take_bit_eq_mask [symmetric] take_bit_push_bit) simp
  have "unat (take_bit 7 clus) \<le> 127" unfolding unsigned_take_bit_eq using take_bit_nat_less_exp [of 7 "unat clus"] by simp
  then have "unat (push_bit 2 (take_bit 7 clus)) \<le> 508"
    unfolding unsigned_push_bit_eq by (simp add: push_bit_eq_mult take_bit_nat_eq_self)
  then show ?thesis by (simp add: cluster_to_fat_entry_def Let_def e)
qed

section \<open>Clusters and files\<close>

text \<open>The entry of the allocation table for a cluster, and the first sector and the bytes of the cluster.\<close>

definition table_entry :: "(u32 \<Rightarrow> u8 list) \<Rightarrow> fs_info \<Rightarrow> u32 \<Rightarrow> u32" where
  "table_entry D fi clus = (let (t, off) = cluster_to_fat_entry fi clus in
     case get_u32 (D t) off of Inr v \<Rightarrow> v AND 0x0FFFFFFF | Inl _ \<Rightarrow> 0)"

definition cluster_sector :: "fs_info \<Rightarrow> u32 \<Rightarrow> u32" where
  "cluster_sector fi c = fs_dataclus2sec fi c + base_addr fi"

definition cluster_data :: "(u32 \<Rightarrow> u8 list) \<Rightarrow> fs_info \<Rightarrow> u32 \<Rightarrow> u8 list" where
  "cluster_data D fi c = range_bytes D (cluster_sector fi c) (unat (sectors_of_cluster fi))"

text \<open>A cluster whose sectors are on the disk and whose table entry is in front of the data.\<close>

definition valid_cluster :: "u32 \<Rightarrow> fs_info \<Rightarrow> u32 \<Rightarrow> bool" where
  "valid_cluster capv fi c \<longleftrightarrow> 2 \<le> unat c \<and> c \<le> total_data_clusters fi + 1 \<and> fst (cluster_to_fat_entry fi c) < data_start fi
     \<and> unat (first_data_sector fi) + unat (base_addr fi) + (unat c - 1) * unat (sectors_of_cluster fi) \<le> unat capv"

text \<open>
  The clusters of a file: no cluster comes twice, and each entry of the table leads to the next cluster.
  The file's bytes are those of its clusters in this order.
\<close>

definition file_chain :: "(u32 \<Rightarrow> u8 list) \<Rightarrow> u32 \<Rightarrow> fs_info \<Rightarrow> u32 list \<Rightarrow> bool" where
  "file_chain D capv fi cs \<longleftrightarrow> distinct cs \<and> (\<forall>c\<in>set cs. valid_cluster capv fi c)
     \<and> (\<forall>i. Suc i < length cs \<longrightarrow> table_entry D fi (cs ! i) = cs ! Suc i)"

definition file_bytes :: "(u32 \<Rightarrow> u8 list) \<Rightarrow> fs_info \<Rightarrow> u32 list \<Rightarrow> u8 list" where
  "file_bytes D fi cs = concat (map (cluster_data D fi) cs)"

lemma cluster_area:
  assumes "valid_cluster capv fi c" "unat (sectors_of_cluster fi) = 2 ^ k" "k \<le> 3"
  shows "unat (data_start fi) = unat (first_data_sector fi) + unat (base_addr fi)"
    and "unat (cluster_sector fi c) = unat (data_start fi) + (unat c - 2) * 2 ^ k"
    and "area (data_start fi) capv (unat (sectors_of_cluster fi)) (cluster_sector fi c)"
proof -
  have two: "2 \<le> unat c" using assms(1) by (simp add: valid_cluster_def)
  then have c: "(unat c - 1) * 2 ^ k = (unat c - 2) * 2 ^ k + 2 ^ k" by (cases "unat c - 1") auto
  have le: "unat (first_data_sector fi) + unat (base_addr fi) + ((unat c - 2) * 2 ^ k + 2 ^ k) \<le> unat capv"
    using assms(1,2) c by (simp add: valid_cluster_def)
  have lt: "unat (first_data_sector fi) + unat (base_addr fi) + (unat c - 2) * 2 ^ k < 4294967296"
    using le unat_less_2p32 [of capv] by linarith
  show ds: "unat (data_start fi) = unat (first_data_sector fi) + unat (base_addr fi)"
    unfolding data_start_def using lt by (intro unat_add_no_wrap) simp
  have "unat (sectors_per_cluster (BPB fi)) < 256" using unsigned_less [of "sectors_per_cluster (BPB fi)", where 'a = nat] by simp
  then have spc: "unat (sectors_per_cluster (BPB fi)) = 2 ^ k"
    using assms(2) by (simp add: sectors_of_cluster_def unsigned_ucast_eq take_bit_nat_eq_self)
  have "unat (fs_dataclus2sec fi c) = unat (first_data_sector fi) + (unat c - 2) * 2 ^ k"
    using assms(3) spc two lt by (intro dataclus2sec_unat) simp_all
  then show cs: "unat (cluster_sector fi c) = unat (data_start fi) + (unat c - 2) * 2 ^ k"
    unfolding cluster_sector_def ds using lt by (subst unat_add_no_wrap) simp_all
  show "area (data_start fi) capv (unat (sectors_of_cluster fi)) (cluster_sector fi c)"
    unfolding area_def cs assms(2) using le ds by simp
qed

lemma area_sectors: "x < lo \<Longrightarrow> area lo capv n a \<Longrightarrow> \<not> within n a x"
  by (simp add: area_def within_def word_less_nat_alt)

lemma cluster_bytes_unat: "unat (cluster_sectors s) \<le> 8 \<Longrightarrow> unat (cluster_bytes s) = 512 * unat (cluster_sectors s)"
  unfolding cluster_bytes_def unsigned_push_bit_eq by (simp add: push_bit_eq_mult take_bit_nat_eq_self)

section \<open>The caches on a device that reads and writes ranges\<close>

locale file_device = range_store "blk_read io" sec cap okd "blk_write io"
  for io :: "'d block_io" and sec :: "'d \<Rightarrow> u32 \<Rightarrow> u8 list" and cap :: "'d \<Rightarrow> u32" and okd :: "'d \<Rightarrow> bool"
begin

abbreviation ok_with :: "(u32 \<Rightarrow> u8 list) \<Rightarrow> 'd fat \<Rightarrow> bool" where
  "ok_with D s \<equiv> fs_coherent sec cap okd D s"

lemma write_buf_coherent:
  assumes "okd d" "coherent D (sec d) lo (cap d) (unat n) bufs" "i < length bufs" "\<And>a. length (D a) = 512" "512 * unat n \<le> 4096"
  shows "\<exists>d'. fs_write_buf io n (bufs ! i) d = Inr (0, cleaned (bufs ! i), d') \<and> okd d' \<and> cap d' = cap d
    \<and> coherent D (sec d') lo (cap d) (unat n) (bufs[i := cleaned (bufs ! i)])"
proof (cases "dirty (bufs ! i)")
  case True
  note b = coherentD [OF assms(2,3)]
  have "area lo (cap d) (unat n) (cur (bufs ! i))" using b(1) True by (simp add: holds_area_def dirty_def)
  then have le: "unat (cur (bufs ! i)) + unat n \<le> unat (cap d)" by (simp add: area_def)
  obtain d' where d': "blk_write io (bdata (bufs ! i)) (cur (bufs ! i)) n d = Inr (0, d')" "okd d'"
    "sec d' = put_range (sec d) (cur (bufs ! i)) (unat n) (bdata (bufs ! i))" "cap d' = cap d"
    using write_range [OF assms(1) le, of "bdata (bufs ! i)"] b(2) assms(5) by auto
  have "fs_write_buf io n (bufs ! i) d = Inr (0, cleaned (bufs ! i), d')"
    using True d'(1) by (simp add: fs_write_buf_def dirty_def cleaned_def)
  moreover note coherent_written [OF assms(2,3) True assms(5,4)]
  ultimately show ?thesis using d'(2-4) by simp
next
  case False
  then have "cleaned (bufs ! i) = bufs ! i" "fs_write_buf io n (bufs ! i) d = Inr (0, bufs ! i, d)"
    by (auto simp: dirty_def cleaned_def fs_write_buf_def)
  then show ?thesis using assms(1,2) by simp
qed

lemma read_buf_coherent:
  assumes "okd d" "coherent D (sec d) lo (cap d) (unat n) bufs" "head < nbuf" "unat nbuf = length bufs"
    and "\<And>a. length (D a) = 512" "512 * unat n \<le> 4096" "n \<noteq> 0" "area lo (cap d) (unat n) (sector + base_addr fi)"
  shows "\<exists>i bufs' head' d'. fs_read_buf io fi n bufs sector head nbuf d = Inr (i, bufs', head', d')
    \<and> i < nbuf \<and> head' < nbuf \<and> length bufs' = length bufs \<and> okd d' \<and> cap d' = cap d
    \<and> coherent D (sec d') lo (cap d) (unat n) bufs' \<and> cur (bufs' ! unat i) = sector + base_addr fi
    \<and> take (512 * unat n) (bdata (bufs' ! unat i)) = range_bytes D (sector + base_addr fi) (unat n)
    \<and> (all_clean bufs \<longrightarrow> all_clean bufs')"
proof -
  let ?a = "sector + base_addr fi"
  have n0: "0 < unat n" using assms(7) by (simp add: unat_gt_0)
  have a: "?a \<noteq> 0xffffffff" using area_not_empty [OF assms(8) n0] .
  have len: "length bufs < 4294967296" using assms(4) unat_less_2p32 [of nbuf] by simp
  obtain j where j: "find_buf bufs ?a (unat nbuf) 0 = Inr j" "unat j \<le> unat nbuf" "unat j < unat nbuf \<longrightarrow> cur (bufs ! unat j) = ?a"
    "\<forall>k. k < unat j \<longrightarrow> cur (bufs ! k) \<noteq> ?a"
    using find_buf_spec [of 0 "unat nbuf" bufs ?a] assms(4) len by auto
  show ?thesis
  proof (cases "j = nbuf")
    case False
    then have jl: "unat j < length bufs" using j(2) assms(4) by (metis le_neq_implies_less word_unat_eq_iff)
    have c: "cur (bufs ! unat j) = ?a" using j(3) jl assms(4) by simp
    let ?b = "(bufs ! unat j)\<lparr>state := state (bufs ! unat j) OR 1\<rparr>"
    have r: "fs_read_buf io fi n bufs sector head nbuf d = Inr (j, bufs[unat j := ?b], head, d)"
      using j(1) False jl by (simp add: fs_read_buf_def Let_def)
    have b: "holds_area D lo (cap d) (unat n) ?b" "dirty ?b = dirty (bufs ! unat j)"
      using coherentD(1) [OF assms(2) jl] by (simp_all add: holds_area_def dirty_def bit.conj_disj_distrib2)
    have "coherent D (sec d) lo (cap d) (unat n) (bufs[unat j := ?b])"
    proof (rule coherent_update [OF coherentD(3) [OF assms(2) jl] jl _ b(1)])
      show "holds_area D lo (cap d) (unat n) (bufs ! k)" if "k < length bufs" for k using coherentD(1) [OF assms(2) that] .
      show "cur (bufs ! k) \<noteq> cur ?b \<or> cur ?b = 0xffffffff" if "k < length bufs" "k \<noteq> unat j" for k
        using coherentD(4) [OF assms(2) jl that] by simp
      fix x
      assume "\<And>k. k < length bufs \<Longrightarrow> k \<noteq> unat j \<Longrightarrow> dirty (bufs ! k) \<Longrightarrow> \<not> within (unat n) (cur (bufs ! k)) x"
        "dirty ?b \<Longrightarrow> \<not> within (unat n) (cur ?b) x"
      then have "\<forall>k<length bufs. dirty (bufs ! k) \<longrightarrow> \<not> within (unat n) (cur (bufs ! k)) x" using b(2) by auto
      then show "sec d x = D x" using assms(2) by (simp add: coherent_def)
    qed
    moreover have "take (512 * unat n) (bdata (bufs ! unat j)) = range_bytes D ?a (unat n)"
      using coherentD(1) [OF assms(2) jl] c a by (simp add: holds_area_def)
    moreover have "all_clean (bufs[unat j := ?b])" if "all_clean bufs"
      using that jl or_one_clean [of "bufs ! unat j"] by (intro all_clean_update) (simp_all add: all_clean_def)
    ultimately show ?thesis using r assms(1,3,4) jl c by (auto simp: word_less_nat_alt)
  next
    case True
    obtain i bufs1 head' where v: "fs_victim_4k bufs head nbuf = Inr (i, bufs1, head')" "i < nbuf" "head' < nbuf"
      "list_all2 same_but_ref bufs bufs1"
      using fs_victim_spec [OF assms(3,4)] by blast
    have l1: "length bufs1 = length bufs" using v(4) by (simp add: list_all2_lengthD)
    have il: "unat i < length bufs1" using v(2) assms(4) l1 by (simp add: word_less_nat_alt)
    let ?b = "bufs1 ! unat i" and ?bufs2 = "bufs1[unat i := cleaned (bufs1 ! unat i)]"
    obtain d1 where d1: "fs_write_buf io n ?b d = Inr (0, cleaned ?b, d1)" "okd d1" "cap d1 = cap d"
      "coherent D (sec d1) lo (cap d) (unat n) ?bufs2"
      using write_buf_coherent [OF assms(1) coherent_refs [OF assms(2) v(4)] il assms(5,6)] by blast
    have blen: "length (bdata ?b) = 4096" using coherentD(2) [OF coherent_refs [OF assms(2) v(4)] il] .
    have le: "unat ?a + unat n \<le> unat (cap d1)" using assms(8) d1(3) by (simp add: area_def)
    obtain d2 where d2: "blk_read io (bdata ?b) ?a n d1 = Inr (0, range_bytes (sec d1) ?a (unat n) @ drop (512 * unat n) (bdata ?b), d2)"
      "okd d2" "sec d2 = sec d1" "cap d2 = cap d1"
      using read_range [OF d1(2) le, of "bdata ?b"] blen assms(6) by auto
    let ?n = "\<lparr>bdata = range_bytes (sec d1) ?a (unat n) @ drop (512 * unat n) (bdata ?b), cur = ?a, state = 1\<rparr>"
    have r: "fs_read_buf io fi n bufs sector head nbuf d = Inr (i, ?bufs2[unat i := ?n], head', d2)"
      using j(1) True v(1) il d1(1) d2(1) by (simp add: fs_read_buf_def Let_def)
    have il2: "unat i < length ?bufs2" using il by simp
    have cl: "\<not> dirty (?bufs2 ! unat i)" using cleaned_clean [of ?b] il by (auto simp: dirty_def)
    have miss: "cur (?bufs2 ! k) \<noteq> ?a" if "k < length ?bufs2" for k
    proof -
      have "cur (bufs ! k) \<noteq> ?a" using j(4) True that assms(4) l1 by simp
      moreover have "cur (bufs1 ! k) = cur (bufs ! k)"
        using v(4) that l1 by (simp add: list_all2_conv_all_nth same_but_ref_def)
      ultimately show ?thesis using that il by (simp add: nth_list_update)
    qed
    have rest: "length (drop (512 * unat n) (bdata ?b)) = 4096 - 512 * unat n" using blen by simp
    note new = coherent_loaded [OF d1(4) il2 cl miss assms(8,5) rest assms(6)]
    have "length (range_bytes (sec d1) ?a (unat n)) = 512 * unat n" using sector_length [OF d1(2)] by (rule range_bytes_length)
    moreover have "all_clean (?bufs2[unat i := ?n])" if "all_clean bufs"
      using all_clean_refs [OF v(4) that] by (auto intro: all_clean_update)
    ultimately show ?thesis using r v(2,3) l1 il d2 d1(3) new by simp
  qed
qed

lemma read_fat_sector_coherent:
  assumes "ok_with D s" "t < data_start (fat_info s)" "unat t + 1 \<le> unat (cap (fdev s))"
  shows "\<exists>i s'. read_fat_sector io t s = Inr (Some i, s') \<and> i < 2 \<and> ok_with D s' \<and> reads_only cap s s'
    \<and> bdata (fat_buf s' ! unat i) = D t"
proof -
  let ?lo = "data_start (fat_info s)"
  have c: "okd (fdev s)" "length (fat_buf s) = 2" "fat_clock_head s < 2" "table_cache D ?lo (fat_buf s)"
    "coherent D (sec (fdev s)) ?lo (cap (fdev s)) (unat (cluster_sectors s)) (data_buf (fil s))"
    using assms(1) by (simp_all add: fs_coherent_def)
  have t: "t \<noteq> 0xffffffff"
  proof
    assume "t = 0xffffffff"
    then show False using assms(3) unat_less_2p32 [of "cap (fdev s)"] by simp
  qed
  define j where "j = (if cur (fat_buf s ! 0) = t then 0 else if cur (fat_buf s ! 1) = t then 1 else 2 :: u32)"
  have j: "find_buf (fat_buf s) t (unat FAT_BUF_NUM) 0 = Inr j" using c(2) unfolding j_def by (rule find_two)
  show ?thesis
  proof (cases "j = FAT_BUF_NUM")
    case False
    then have jl: "j < 2" "unat j < 2" "cur (fat_buf s ! unat j) = t"
      unfolding j_def by (auto simp: FAT_BUF_NUM_def split: if_splits)
    let ?b = "(fat_buf s ! unat j)\<lparr>state := state (fat_buf s ! unat j) OR 1\<rparr>"
    let ?s = "s\<lparr>fat_buf := (fat_buf s)[unat j := ?b]\<rparr>"
    note b = table_cacheD [OF c(4), of "unat j"]
    have r: "read_fat_sector io t s = Inr (Some j, ?s)"
      unfolding read_fat_sector_def using False jl(2) c(2) by (simp add: fbind_def j)
    have "table_cache D ?lo ((fat_buf s)[unat j := ?b])"
      using b jl c(2) t or_one_clean [of "fat_buf s ! unat j"] by (intro table_cache_update [OF c(4)]) auto
    then have "ok_with D ?s" using assms(1) by (simp add: fs_coherent_def cluster_sectors_def)
    moreover have "reads_only cap s ?s"
      using reads_only_update [of cap "fdev s" s, where fb = "fat_buf ?s" and fh = "fat_clock_head s" and db = "data_buf (fil s)" and fc = "file_clock (fil s)"] by simp
    moreover have "bdata (fat_buf ?s ! unat j) = D t" using b jl t c(2) by auto
    ultimately show ?thesis using r jl(1) by blast
  next
    case True
    obtain v bufs h where v: "fs_victim_512 (fat_buf s) (fat_clock_head s) FAT_BUF_NUM = Inr (v, bufs, h)" "v < 2" "h < 2"
      "list_all2 same_but_ref (fat_buf s) bufs"
      using fs_victim_spec [of "fat_clock_head s" FAT_BUF_NUM "fat_buf s"] c(2,3) by (auto simp: FAT_BUF_NUM_def fs_victim_512_def)
    note c1 = table_cache_refs [OF c(4) v(4)]
    have vl: "unat v < length bufs" "length bufs = 2" using v(2,4) c(2) by (simp_all add: word_less_nat_alt list_all2_lengthD)
    note b = table_cacheD [OF c1 vl(1)]
    have le: "unat t + unat (1 :: u32) \<le> unat (cap (fdev s))" using assms(3) by simp
    have "sec (fdev s) t = D t"
      using c(5) area_sectors [OF assms(2)] by (rule coherent_outside)
    then have "range_bytes (sec (fdev s)) t 1 = D t" by (simp add: range_bytes_def)
    then obtain d' where d': "blk_read io (bdata (bufs ! unat v)) t 1 (fdev s) = Inr (0, D t, d')" "okd d'"
      "sec d' = sec (fdev s)" "cap d' = cap (fdev s)"
      using read_range [OF c(1) le, of "bdata (bufs ! unat v)"] b by auto
    let ?n = "\<lparr>bdata = D t, cur = t, state = 1\<rparr>"
    let ?s = "s\<lparr>fdev := d', fat_buf := bufs[unat v := ?n], fat_clock_head := h\<rparr>"
    have j2: "find_buf (fat_buf s) t (unat FAT_BUF_NUM) 0 = Inr FAT_BUF_NUM" using j True by simp
    have r: "read_fat_sector io t s = Inr (Some v, ?s)"
      unfolding read_fat_sector_def using v(1) vl b d'(1)
      by (simp add: fbind_def j2 write_fat_sector_def fs_dev_read_def)
    have "table_cache D ?lo (bufs[unat v := ?n])"
      using assms(1,2) by (intro table_cache_update [OF c1]) (simp_all add: fs_coherent_def)
    then have "ok_with D ?s" using assms(1) d' v(3) vl(2) by (simp add: fs_coherent_def cluster_sectors_def)
    moreover have "reads_only cap s ?s"
      using reads_only_update [OF d'(4), where fb = "fat_buf ?s" and fh = h and db = "data_buf (fil s)" and fc = "file_clock (fil s)"] by simp
    ultimately show ?thesis using r v(2) vl by (intro exI [of _ v] exI [of _ ?s]) simp
  qed
qed

lemma get_fat_entry_coherent:
  assumes "ok_with D s" "valid_cluster (cap (fdev s)) (fat_info s) c" "unat (cluster_sectors s) = 2 ^ k" "k \<le> 3"
  shows "\<exists>s'. get_fat_entry_value io c s = Inr (Some (table_entry D (fat_info s) c), s') \<and> ok_with D s' \<and> reads_only cap s s'"
proof -
  obtain t off where c: "cluster_to_fat_entry (fat_info s) c = (t, off)" by fastforce
  have off: "unat off + 4 \<le> 512" using fat_offset [of "fat_info s" c] c by simp
  have t: "t < data_start (fat_info s)" using assms(2) c by (simp add: valid_cluster_def)
  have "unat (sectors_of_cluster (fat_info s)) = 2 ^ k" using assms(3) by (simp add: cluster_sectors_def)
  note ar = cluster_area [OF assms(2) this assms(4)]
  have "unat t + 1 \<le> unat (cap (fdev s))" using t ar(2,3) by (simp add: area_def word_less_nat_alt)
  then obtain i s' where r: "read_fat_sector io t s = Inr (Some i, s')" "i < 2" "ok_with D s'" "reads_only cap s s'"
    "bdata (fat_buf s' ! unat i) = D t"
    using read_fat_sector_coherent [OF assms(1) t] by auto
  have l: "length (D t) = 512" using assms(1) by (simp add: fs_coherent_def)
  obtain v where v: "get_u32 (D t) off = Inr v" using get_u32_total [of off "D t"] off l by auto
  have "unat i < length (fat_buf s')" using r(2,3) by (simp add: fs_coherent_def word_less_nat_alt)
  then have "get_fat_entry_value io c s = Inr (Some (v AND 0x0FFFFFFF), s')"
    using r(1,5) v c by (simp add: get_fat_entry_value_def fbind_def)
  moreover have "table_entry D (fat_info s) c = v AND 0x0FFFFFFF" using c v by (simp add: table_entry_def)
  ultimately show ?thesis using r(3,4) by auto
qed

lemma read_data_coherent:
  assumes "ok_with D s" "valid_cluster (cap (fdev s)) (fat_info s) c" "unat (cluster_sectors s) = 2 ^ k" "k \<le> 3"
  shows "\<exists>i s'. read_data_block io (fs_dataclus2sec (fat_info s) c) s = Inr (Some i, s') \<and> i < 4 \<and> ok_with D s' \<and> reads_only cap s s'
    \<and> cur (data_buf (fil s') ! unat i) = cluster_sector (fat_info s) c \<and> length (bdata (data_buf (fil s') ! unat i)) = 4096
    \<and> take (unat (cluster_bytes s)) (bdata (data_buf (fil s') ! unat i)) = cluster_data D (fat_info s) c"
proof -
  let ?n = "cluster_sectors s" and ?lo = "data_start (fat_info s)"
  have c: "okd (fdev s)" "\<And>a. length (D a) = 512" "length (data_buf (fil s)) = 4" "file_clock (fil s) < 4"
    "coherent D (sec (fdev s)) ?lo (cap (fdev s)) (unat ?n) (data_buf (fil s))"
    using assms(1) by (simp_all add: fs_coherent_def)
  have n: "512 * unat ?n \<le> 4096" "?n \<noteq> 0" "unat ?n \<le> 8"
    using power_increasing [OF assms(4), of "2 :: nat"] assms(3) by auto
  note cb = cluster_bytes_unat [OF n(3)]
  have "unat (sectors_of_cluster (fat_info s)) = 2 ^ k" using assms(3) by (simp add: cluster_sectors_def)
  from cluster_area(3) [OF assms(2) this assms(4)]
  have ar: "area ?lo (cap (fdev s)) (unat ?n) (fs_dataclus2sec (fat_info s) c + base_addr (fat_info s))"
    by (simp add: cluster_sector_def cluster_sectors_def)
  have l4: "unat (4 :: u32) = length (data_buf (fil s))" using c(3) by simp
  obtain i bufs h d where r: "fs_read_buf io (fat_info s) ?n (data_buf (fil s)) (fs_dataclus2sec (fat_info s) c) (file_clock (fil s)) 4 (fdev s)
      = Inr (i, bufs, h, d)" "i < 4" "h < 4" "length bufs = 4" "okd d" "cap d = cap (fdev s)"
    "coherent D (sec d) ?lo (cap (fdev s)) (unat ?n) bufs" "cur (bufs ! unat i) = cluster_sector (fat_info s) c"
    "take (512 * unat ?n) (bdata (bufs ! unat i)) = cluster_data D (fat_info s) c"
    "all_clean (data_buf (fil s)) \<longrightarrow> all_clean bufs"
    using read_buf_coherent [OF c(1,5,4) l4 c(2) n(1,2) ar] c(3) by (auto simp: cluster_data_def cluster_sector_def cluster_sectors_def)
  let ?s = "s\<lparr>fil := (fil s)\<lparr>data_buf := bufs, file_clock := h\<rparr>, fdev := d\<rparr>"
  have il: "unat i < 4" using r(2) by (simp add: word_less_nat_alt)
  have ne: "i \<noteq> 0xffffffff" using il by auto
  have "read_data_block io (fs_dataclus2sec (fat_info s) c) s = Inr (Some i, ?s)"
    using r(1) ne by (simp add: read_data_block_def fs_read_4k_def LOCAL_DATA_BUF_NUM_def cluster_sectors_def)
  moreover have "ok_with D ?s" using assms(1) r by (simp add: fs_coherent_def cluster_sectors_def)
  moreover have "?s = s\<lparr>fdev := d, fat_buf := fat_buf s, fat_clock_head := fat_clock_head s,
      fil := (fil s)\<lparr>data_buf := bufs, file_clock := h\<rparr>\<rparr>" by simp
  then have "reads_only cap s ?s" by (simp only:) (rule reads_only_update [OF r(6)], use r(10) in simp)
  moreover have "length (bdata (bufs ! unat i)) = 4096" using coherentD(2) [OF r(7)] il r(4) by simp
  ultimately show ?thesis using r(2,8,9) cb by (intro exI [of _ i] exI [of _ ?s]) simp
qed

end

interpretation card_files: file_device "sd_io card_hw" card_disk "\<lambda>s. capacity (dev s)" card_ok
  using card_store.range_store_axioms by unfold_locales (simp_all add: sd_io_def range_store_def range_store_axioms_def range_device_def)

end
