(* ===== verification/FatRead.thy ===== *)
theory FatRead
  imports FatStore
begin

text \<open>
  Reading a file: what \<^verbatim>\<open>fs_read\<close> copies out of the clusters of a file, through the table cache, the
  file's own cluster cache, the driver and the card.
\<close>

section \<open>Bytes of a file\<close>

lemma copy_bytes_spec:
  "unat i + n \<le> length src \<Longrightarrow> unat j + n \<le> length dst \<Longrightarrow> length src < 4294967296 \<Longrightarrow> length dst < 4294967296 \<Longrightarrow>
    copy_bytes n src i dst j = Inr (take (unat j) dst @ take n (drop (unat i) src) @ drop (unat j + n) dst)"
proof (induction n arbitrary: i j dst)
  case (Suc n)
  have u: "unat (i + 1) = Suc (unat i)" "unat (j + 1) = Suc (unat j)"
    using Suc.prems by (simp_all add: unat_add_no_wrap)
  have "copy_bytes (Suc n) src i dst j = copy_bytes n src (i + 1) (dst[unat j := src ! unat i]) (j + 1)"
    using Suc.prems by simp
  also have "\<dots> = Inr (take (Suc (unat j)) (dst[unat j := src ! unat i]) @ take n (drop (Suc (unat i)) src)
      @ drop (Suc (unat j) + n) (dst[unat j := src ! unat i]))"
    using Suc.IH [of "i + 1" "j + 1" "dst[unat j := src ! unat i]"] Suc.prems u by simp
  also have "take (Suc (unat j)) (dst[unat j := src ! unat i]) = take (unat j) dst @ [src ! unat i]"
    using Suc.prems by (intro take_update_last) simp
  also have "drop (Suc (unat j) + n) (dst[unat j := src ! unat i]) = drop (unat j + Suc n) dst" by simp
  finally show ?case using Suc.prems by (simp add: Cons_nth_drop_Suc [symmetric])
qed simp

lemma fwhile_done: "body b s = Inr (Some (Inl x), s') \<Longrightarrow> fwhile body b s = Inr (Some x, s')"
  by (simp add: fwhile_def frepeat.simps)

lemma fwhile_more: "body b s = Inr (Some (Inr b'), s') \<Longrightarrow> fwhile body b s = fwhile body b' s'"
  by (simp add: fwhile_def frepeat.simps)

text \<open>A buffer with some bytes of it replaced.\<close>

definition overwrite :: "u8 list \<Rightarrow> nat \<Rightarrow> u8 list \<Rightarrow> u8 list" where
  "overwrite buf i xs = take i buf @ xs @ drop (i + length xs) buf"

lemma overwrite_length: "i + length xs \<le> length buf \<Longrightarrow> length (overwrite buf i xs) = length buf"
  by (simp add: overwrite_def)

lemma overwrite_overwrite:
  "i + length xs \<le> length buf \<Longrightarrow> overwrite (overwrite buf i xs) (i + length xs) ys = overwrite buf i (xs @ ys)"
  by (simp add: overwrite_def ac_simps)

lemma cluster_data_length:
  "(\<And>a. length (disk a) = 512) \<Longrightarrow> length (cluster_data disk fi c) = 512 * unat (sectors_of_cluster fi)"
  unfolding cluster_data_def by (rule range_bytes_length)

lemma file_bytes_length:
  "(\<And>a. length (disk a) = 512) \<Longrightarrow> length (file_bytes disk fi cs) = length cs * (512 * unat (sectors_of_cluster fi))"
  by (induction cs) (simp_all add: file_bytes_def cluster_data_length)

lemma file_slice:
  assumes "\<And>a. length (disk a) = 512" "k < length cs" "sb + n \<le> 512 * unat (sectors_of_cluster fi)"
  shows "take n (drop (k * (512 * unat (sectors_of_cluster fi)) + sb) (file_bytes disk fi cs))
    = take n (drop sb (cluster_data disk fi (cs ! k)))"
proof -
  let ?cb = "512 * unat (sectors_of_cluster fi)"
  have "length (cluster_data disk fi c) = ?cb" for c using assms(1) by (rule cluster_data_length)
  then have "take ?cb (drop (k * ?cb) (file_bytes disk fi cs)) = cluster_data disk fi (cs ! k)"
    unfolding file_bytes_def using concat_slice [of "map (cluster_data disk fi) cs" ?cb k] assms(2) by auto
  then show ?thesis using slice_of_slice [OF assms(3), of "k * ?cb" "file_bytes disk fi cs"] by simp
qed

text \<open>The cluster and the byte of it that a file offset stands for.\<close>

lemma file_position:
  assumes "unat (cluster_sectors s) = 2 ^ k" "k \<le> 3"
  shows "unat (cluster_of s l) = unat l div unat (cluster_bytes s)" "unat (byte_of s l) = unat l mod unat (cluster_bytes s)"
proof -
  have "(2 :: nat) ^ k \<le> 2 ^ 3" using assms(2) by (intro power_increasing) simp_all
  then have cb: "unat (cluster_bytes s) = 2 ^ (k + 9)" using cluster_bytes_unat [of s] assms(1) by (simp add: power_add)
  have "fs_wa (cluster_bytes s) = of_nat (k + 9)" using cb by (intro fs_wa_log) simp_all
  then have w: "unat (fs_wa (cluster_bytes s)) = k + 9"
    using assms(2) by (simp add: unat_of_nat take_bit_nat_eq_self del: of_nat_add)
  show "unat (cluster_of s l) = unat l div unat (cluster_bytes s)"
    unfolding cluster_of_def w cb unsigned_drop_bit_eq by (simp add: drop_bit_eq_div take_bit_nat_eq_self)
  have "cluster_bytes s = 2 ^ (k + 9)" using cb assms(2) by (simp add: word_unat_eq_iff unat_two_power)
  then have mk: "cluster_bytes s - 1 = mask (k + 9)" by (simp only: mask_eq_exp_minus_1)
  show "unat (byte_of s l) = unat l mod unat (cluster_bytes s)"
    unfolding byte_of_def cb mk take_bit_eq_mask [symmetric] unsigned_take_bit_eq by (rule take_bit_eq_mod)
qed

text \<open>
  The open file has the contents \<open>xs\<close>: they are the beginning of the bytes of its clusters \<open>cs\<close>. The
  cluster has 1, 2, 4 or 8 sectors, as much as a block of the cache can hold.
\<close>

definition is_file :: "('d \<Rightarrow> u32) \<Rightarrow> (u32 \<Rightarrow> u8 list) \<Rightarrow> 'd fat \<Rightarrow> u32 list \<Rightarrow> u8 list \<Rightarrow> bool" where
  "is_file cap D s cs xs \<longleftrightarrow> unat (cluster_sectors s) \<in> {1, 2, 4, 8} \<and> cs \<noteq> [] \<and> file_chain D (cap (fdev s)) (fat_info s) cs
     \<and> get_start_cluster (entry (fil s)) = Inr (hd cs) \<and> entry_size (entry (fil s)) = Inr (of_nat (length xs))
     \<and> length xs < 4294967296 \<and> length xs \<le> length cs * unat (cluster_bytes s)
     \<and> xs = take (length xs) (file_bytes D (fat_info s) cs)"

lemma is_file_cong:
  assumes "cap (fdev s') = cap (fdev s)" "fat_info s' = fat_info s" "entry (fil s') = entry (fil s)"
  shows "is_file cap D s' cs xs = is_file cap D s cs xs"
  unfolding is_file_def cluster_bytes_def cluster_sectors_def by (simp only: assms)

lemma is_fileE:
  assumes "is_file cap D s cs xs"
  obtains p sz where "unat (cluster_sectors s) = 2 ^ p" "p \<le> 3" "entry_size (entry (fil s)) = Inr sz" "unat sz = length xs"
    "get_start_cluster (entry (fil s)) = Inr (cs ! 0)" "cs ! 0 \<noteq> 0"
proof -
  have k: "unat (cluster_sectors s) \<in> {1, 2, 4, 8}" "cs \<noteq> []" using assms by (simp_all add: is_file_def)
  have p: "\<exists>p\<le>3. unat (cluster_sectors s) = 2 ^ p"
    using k(1) exI [of "\<lambda>p. p \<le> 3 \<and> unat (cluster_sectors s) = 2 ^ p" 0] exI [of "\<lambda>p. p \<le> 3 \<and> unat (cluster_sectors s) = 2 ^ p" 1]
      exI [of "\<lambda>p. p \<le> 3 \<and> unat (cluster_sectors s) = 2 ^ p" 2] exI [of "\<lambda>p. p \<le> 3 \<and> unat (cluster_sectors s) = 2 ^ p" 3] by auto
  have "valid_cluster (cap (fdev s)) (fat_info s) (hd cs)" using assms k(2) by (simp add: is_file_def file_chain_def)
  then have "hd cs \<noteq> 0" by (auto simp: valid_cluster_def)
  moreover have "unat (of_nat (length xs) :: u32) = length xs" using assms by (simp add: is_file_def unat_of_nat take_bit_nat_eq_self)
  ultimately show ?thesis using assms p that k(2) by (auto simp: is_file_def hd_conv_nth)
qed

lemma cluster_size:
  assumes "unat (cluster_sectors s) = 2 ^ p" "p \<le> 3"
  shows "unat (cluster_bytes s) = 512 * unat (cluster_sectors s)" "0 < unat (cluster_bytes s)" "unat (cluster_bytes s) \<le> 4096"
proof -
  have "unat (cluster_sectors s) \<le> 8" using power_increasing [OF assms(2), of "2 :: nat"] assms(1) by simp
  then show "unat (cluster_bytes s) = 512 * unat (cluster_sectors s)" "0 < unat (cluster_bytes s)" "unat (cluster_bytes s) \<le> 4096"
    using cluster_bytes_unat [of s] assms(1) by simp_all
qed

text \<open>The first and the last byte of a span of \<open>m\<close> bytes that ends in front of cluster \<open>c\<close>.\<close>

lemma file_span:
  assumes "unat (cluster_sectors s) = 2 ^ k" "k \<le> 3" "unat n = m" "0 < m" "unat l + m \<le> c * unat (cluster_bytes s)" "unat l + m < 4294967296"
  shows "unat (cluster_of s (l + n - 1)) < c" "unat (cluster_of s l) \<le> unat (cluster_of s (l + n - 1))"
    and "unat (byte_of s l) < unat (cluster_bytes s)" "unat (byte_of s (l + n - 1)) < unat (cluster_bytes s)"
    and "unat (cluster_of s l) * unat (cluster_bytes s) + unat (byte_of s l) = unat l"
    and "m + unat l = unat (cluster_of s (l + n - 1)) * unat (cluster_bytes s) + unat (byte_of s (l + n - 1)) + 1"
proof -
  let ?cb = "unat (cluster_bytes s)" and ?e = "l + n - 1"
  have "unat (l + n) = unat l + m" using assms(3,6) by (simp add: unat_add_no_wrap)
  then have e: "unat ?e = unat l + m - 1" using assms(4) by (simp add: unat_pred)
  have cb: "0 < ?cb" using cluster_size [OF assms(1,2)] by simp
  note posl = file_position [OF assms(1,2), of l] and pose = file_position [OF assms(1,2), of ?e]
  show "unat (cluster_of s ?e) < c" "unat (cluster_of s l) \<le> unat (cluster_of s ?e)"
    unfolding posl pose e using assms(4,5) by (auto intro: less_mult_imp_div_less div_le_mono)
  show "unat (byte_of s l) < ?cb" "unat (byte_of s ?e) < ?cb" unfolding posl pose using cb by simp_all
  show "unat (cluster_of s l) * ?cb + unat (byte_of s l) = unat l" unfolding posl by simp
  show "m + unat l = unat (cluster_of s ?e) * ?cb + unat (byte_of s ?e) + 1" unfolding pose using e assms(4) by simp
qed

section \<open>Reading\<close>

context file_device
begin

lemma follow_chain_coherent:
  assumes "ok_with D s" "file_chain D (cap (fdev s)) (fat_info s) cs" "j + n < length cs" "n < 4294967296"
    and "unat (cluster_sectors s) = 2 ^ p" "p \<le> 3"
  shows "\<exists>s'. fwhile (follow_chain io) (of_nat n, cs ! j) s = Inr (Some (cs ! (j + n)), s') \<and> ok_with D s' \<and> reads_only cap s s'"
  using assms
proof (induction n arbitrary: j s)
  case 0
  then show ?case by (intro exI [of _ s]) (simp add: fwhile_done follow_chain_def reads_only_refl)
next
  case (Suc n)
  have c: "valid_cluster (cap (fdev s)) (fat_info s) (cs ! j)"
    "table_entry D (fat_info s) (cs ! j) = cs ! Suc j"
    using Suc.prems(2,3) by (simp_all add: file_chain_def)
  obtain s1 where s1: "get_fat_entry_value io (cs ! j) s = Inr (Some (cs ! Suc j), s1)" "ok_with D s1" "reads_only cap s s1"
    using get_fat_entry_coherent [OF Suc.prems(1) c(1) Suc.prems(5,6)] c(2) by auto
  note k = reads_only_fields [OF s1(3)]
  have n: "(of_nat (Suc n) :: u32) \<noteq> 0"
    using Suc.prems(4) by (simp add: word_unat_eq_iff unat_of_nat take_bit_nat_eq_self del: of_nat_Suc)
  have "fwhile (follow_chain io) (of_nat (Suc n), cs ! j) s = fwhile (follow_chain io) (of_nat n, cs ! Suc j) s1"
    using n s1(1) by (intro fwhile_more) (simp add: follow_chain_def fbind_def)
  moreover obtain s' where "fwhile (follow_chain io) (of_nat n, cs ! Suc j) s1 = Inr (Some (cs ! (Suc j + n)), s')"
    "ok_with D s'" "reads_only cap s1 s'"
    using Suc.IH [OF s1(2), of "Suc j"] Suc.prems(2-6) k by auto
  ultimately show ?case using reads_only_trans [OF s1(3)] by auto
qed

lemma cluster_read_coherent:
  assumes "ok_with D s" "file_chain D (cap (fdev s)) (fat_info s) cs" "k < length cs"
    and "unat (cluster_sectors s) = 2 ^ p" "p \<le> 3"
    and "unat sb + n \<le> unat (cluster_bytes s)" "unat cc + n \<le> length (ubuf s)" "length (ubuf s) < 4294967296"
  shows "\<exists>i s0 b s1. read_data_block io (fs_dataclus2sec (fat_info s) (cs ! k)) s = Inr (Some i, s0)
    \<and> data_block i s0 = Inr (Some b, s0) \<and> read_out b n sb cc s0 = Inr (Some (), s1) \<and> ok_with D s1
    \<and> reads_only cap (s\<lparr>ubuf := overwrite (ubuf s) (unat cc)
          (take n (drop (k * unat (cluster_bytes s) + unat sb) (file_bytes D (fat_info s) cs)))\<rparr>) s1"
proof -
  let ?c = "cs ! k" and ?fi = "fat_info s"
  note cb = cluster_size [OF assms(4,5)]
  have D: "length (D a) = 512" for a using assms(1) by (simp add: fs_coherent_def)
  have v: "valid_cluster (cap (fdev s)) ?fi ?c" using assms(2,3) by (simp add: file_chain_def)
  obtain i s0 where s0: "read_data_block io (fs_dataclus2sec ?fi ?c) s = Inr (Some i, s0)" "i < 4" "ok_with D s0"
    "reads_only cap s s0" "length (bdata (data_buf (fil s0) ! unat i)) = 4096"
    "take (unat (cluster_bytes s)) (bdata (data_buf (fil s0) ! unat i)) = cluster_data D ?fi ?c"
    using read_data_coherent [OF assms(1) v assms(4,5)] by blast
  let ?b = "data_buf (fil s0) ! unat i"
  note k0 = reads_only_fields [OF s0(4)]
  have il: "unat i < length (data_buf (fil s0))" using s0(2,3) by (simp add: fs_coherent_def word_less_nat_alt)
  have fs: "take n (drop (k * unat (cluster_bytes s) + unat sb) (file_bytes D ?fi cs)) = take n (drop (unat sb) (bdata ?b))"
    using file_slice [of "D", OF D assms(3), of "unat sb" n ?fi] assms(6) slice_of_slice [OF assms(6), of 0 "bdata ?b"]
    by (simp add: s0(6) [symmetric] cb cluster_sectors_def [symmetric])
  have "copy_bytes n (bdata ?b) sb (ubuf s0) cc = Inr (overwrite (ubuf s) (unat cc) (take n (drop (unat sb) (bdata ?b))))"
    using copy_bytes_spec [of sb n "bdata ?b" cc "ubuf s"] s0(5) assms(6-8) cb k0(3) by (simp add: overwrite_def)
  then have o: "read_out ?b n sb cc s0 = Inr (Some (), s0\<lparr>ubuf := overwrite (ubuf s) (unat cc) (take n (drop (unat sb) (bdata ?b)))\<rparr>)"
    by (simp add: read_out_def fbind_def)
  have "data_block i s0 = Inr (Some ?b, s0)" using il by (simp add: data_block_def)
  then show ?thesis using s0(1,3) o reads_only_ubuf [OF s0(4)] unfolding fs by fastforce
qed

lemma read_round_coherent:
  assumes "ok_with D s" "file_chain D (cap (fdev s)) (fat_info s) cs" "unat ec < length cs"
    and "unat (cluster_sectors s) = 2 ^ p" "p \<le> 3" "unat sb < unat (cluster_bytes s)" "unat eb < unat (cluster_bytes s)"
    and "length (ubuf s) < 4294967296" "unat k * unat (cluster_bytes s) + unat sb \<le> unat ec * unat (cluster_bytes s) + unat eb"
    and "unat cc + n \<le> length (ubuf s)" "n + (unat k * unat (cluster_bytes s) + unat sb) = unat ec * unat (cluster_bytes s) + unat eb + 1"
  shows "\<exists>s'. fwhile (read_round io ec eb) (k, sb, cs ! unat k, cc) s = Inr (Some (cc + of_nat n), s') \<and> ok_with D s'
    \<and> reads_only cap (s\<lparr>ubuf := overwrite (ubuf s) (unat cc)
          (take n (drop (unat k * unat (cluster_bytes s) + unat sb) (file_bytes D (fat_info s) cs)))\<rparr>) s'"
  using assms
proof (induction "unat ec - unat k" arbitrary: k sb cc n s)
  case 0
  let ?cb = "unat (cluster_bytes s)"
  have "\<not> unat ec < unat k"
  proof
    assume "unat ec < unat k"
    then have "(unat ec + 1) * ?cb \<le> unat k * ?cb" by (intro mult_le_mono1) simp
    then show False using "0.prems"(7,9) by (simp add: algebra_simps)
  qed
  then have k: "k = ec" using "0.hyps" by (simp add: word_unat_eq_iff)
  have n: "n = span sb eb" "unat sb + n \<le> ?cb"
    using "0.prems"(7,9,11) unfolding k by (simp_all add: span_def word_le_nat_alt unat_sub)
  obtain i s0 b s1 where r: "read_data_block io (fs_dataclus2sec (fat_info s) (cs ! unat ec)) s = Inr (Some i, s0)"
    "data_block i s0 = Inr (Some b, s0)" "read_out b n sb cc s0 = Inr (Some (), s1)" "ok_with D s1"
    "reads_only cap (s\<lparr>ubuf := overwrite (ubuf s) (unat cc)
        (take n (drop (unat ec * ?cb + unat sb) (file_bytes D (fat_info s) cs)))\<rparr>) s1"
    using cluster_read_coherent [OF "0.prems"(1,2,3,4,5) n(2) "0.prems"(10,8)] by blast
  have "read_round io ec eb (ec, sb, cs ! unat ec, cc) s = Inr (Some (Inl (cc + of_nat n)), s1)"
    using r(1-3) n(1) by (simp add: read_round_def fbind_def Let_def)
  from fwhile_done [of "read_round io ec eb", OF this] r(4,5) show ?case unfolding k by blast
next
  case (Suc m)
  let ?cb = "unat (cluster_bytes s)" and ?bytes = "file_bytes D (fat_info s) cs"
  define n1 where "n1 = ?cb - unat sb"
  have k: "unat k < unat ec" "k < ec" "k \<noteq> ec" using Suc.hyps(2) by (auto simp: word_less_nat_alt)
  have "unat k + 1 < 4294967296" using k(1) unat_less_2p32 [of ec] by linarith
  then have k1: "unat (k + 1) = Suc (unat k)" by (simp add: unat_add_no_wrap)
  have n1: "unat sb + n1 \<le> ?cb" "n1 = span sb (cluster_bytes s - 1)" "sb < cluster_bytes s"
    using Suc.prems(6) by (simp_all add: n1_def span_def word_less_nat_alt word_le_nat_alt unat_sub unat_minus_one) arith
  have le: "(unat k + 1) * ?cb \<le> unat ec * ?cb" using k(1) by (intro mult_le_mono1) simp
  then have nn: "n1 \<le> n" "n - n1 + (unat (k + 1) * ?cb + unat (0 :: u32)) = unat ec * ?cb + unat eb + 1"
    using Suc.prems(6,11) unfolding n1_def k1 by (simp_all add: algebra_simps)
  have kl: "unat k < length cs" "Suc (unat k) < length cs" using k(1) Suc.prems(3) by simp_all
  have l1: "unat cc + n1 \<le> length (ubuf s)" using Suc.prems(10) nn(1) by simp
  obtain i s0 b s1 where r: "read_data_block io (fs_dataclus2sec (fat_info s) (cs ! unat k)) s = Inr (Some i, s0)"
    "data_block i s0 = Inr (Some b, s0)" "read_out b n1 sb cc s0 = Inr (Some (), s1)" "ok_with D s1"
    "reads_only cap (s\<lparr>ubuf := overwrite (ubuf s) (unat cc) (take n1 (drop (unat k * ?cb + unat sb) ?bytes))\<rparr>) s1"
    using cluster_read_coherent [OF Suc.prems(1,2) kl(1) Suc.prems(4,5) n1(1) l1 Suc.prems(8)] by blast
  note f1 = reads_only_fields [OF r(5), simplified]
  have c: "valid_cluster (cap (fdev s)) (fat_info s) (cs ! unat k)"
    "table_entry D (fat_info s) (cs ! unat k) = cs ! unat (k + 1)"
    using Suc.prems(2) kl k1 by (simp_all add: file_chain_def)
  obtain s2 where s2: "get_fat_entry_value io (cs ! unat k) s1 = Inr (Some (cs ! unat (k + 1)), s2)" "ok_with D s2"
    "reads_only cap s1 s2"
    using get_fat_entry_coherent [OF r(4), of "cs ! unat k" p] c f1 Suc.prems(4,5) by auto
  note f2 = reads_only_fields [OF s2(3), simplified]
  have "read_round io ec eb (k, sb, cs ! unat k, cc) s = Inr (Some (Inr (k + 1, 0, cs ! unat (k + 1), cc + of_nat n1)), s2)"
    using r(1-3) s2(1) n1(2,3) k(2,3) by (simp add: read_round_def fbind_def Let_def)
  note step = fwhile_more [of "read_round io ec eb", OF this]
  have D: "length (D a) = 512" for a using Suc.prems(1) by (simp add: fs_coherent_def)
  have len: "length ?bytes = length cs * ?cb"
    using file_bytes_length [of D, OF D] cluster_size(1) [OF Suc.prems(4,5)]
    by (simp add: cluster_sectors_def)
  have cb2: "cluster_bytes s2 = cluster_bytes s" "fat_info s2 = fat_info s" "cluster_sectors s2 = cluster_sectors s"
    "cap (fdev s2) = cap (fdev s)"
    using f1 f2 by (simp_all add: cluster_bytes_def cluster_sectors_def)
  have u2: "ubuf s2 = overwrite (ubuf s) (unat cc) (take n1 (drop (unat k * ?cb + unat sb) ?bytes))" using f1 f2 by simp
  let ?cc = "cc + of_nat n1"
  have n1w: "unat (of_nat n1 :: u32) = n1" using l1 Suc.prems(8) by (simp add: unat_of_nat take_bit_nat_eq_self)
  have cc: "unat ?cc = unat cc + n1" using l1 Suc.prems(8) n1w by (simp add: unat_add_no_wrap)
  have pos: "unat k * ?cb + unat sb + n1 = unat (k + 1) * ?cb + unat (0 :: u32)"
    using Suc.prems(6) unfolding k1 n1_def by simp
  have "(unat k + 1) * ?cb \<le> length cs * ?cb" using kl(1) by (intro mult_le_mono1) simp
  then have part: "length (take n1 (drop (unat k * ?cb + unat sb) ?bytes)) = n1"
    using pos len k1 by simp
  have lu: "length (ubuf s2) = length (ubuf s)" unfolding u2 using l1 part by (intro overwrite_length) simp
  have hyp: "m = unat ec - unat (k + 1)" using Suc.hyps(2) k1 by simp
  have ub: "overwrite (ubuf s2) (unat ?cc) (take (n - n1) (drop (unat (k + 1) * ?cb + unat (0 :: u32)) ?bytes))
      = overwrite (ubuf s) (unat cc) (take n (drop (unat k * ?cb + unat sb) ?bytes))"
    using overwrite_overwrite [of "unat cc" "take n1 (drop (unat k * ?cb + unat sb) ?bytes)" "ubuf s"] part l1 nn(1)
      take_add [of n1 "n - n1" "drop (unat k * ?cb + unat sb) ?bytes"]
    unfolding u2 cc pos [symmetric] by (simp add: ac_simps)
  obtain s' where s': "fwhile (read_round io ec eb) (k + 1, 0, cs ! unat (k + 1), ?cc) s2 = Inr (Some (?cc + of_nat (n - n1)), s')"
    "ok_with D s'" "reads_only cap (s2\<lparr>ubuf := overwrite (ubuf s2) (unat ?cc)
       (take (n - n1) (drop (unat (k + 1) * ?cb + unat (0 :: u32)) ?bytes))\<rparr>) s'"
    using Suc.hyps(1) [OF hyp s2(2), of 0 "?cc" "n - n1", unfolded cb2] Suc.prems nn cc lu k1 n1(1) k(1) le by auto
  have "reads_only cap (s2\<lparr>ubuf := x\<rparr>) (s'\<lparr>ubuf := x\<rparr>)" for x
    using reads_only_ubuf [OF s'(3), of x] by simp
  have "reads_only cap (s\<lparr>ubuf := overwrite (ubuf s) (unat cc) (take n (drop (unat k * ?cb + unat sb) ?bytes))\<rparr>) s'"
    using reads_only_trans [OF reads_only_ubuf [OF reads_only_trans [OF r(5) s2(3)]] s'(3) [unfolded ub]] by simp
  moreover have "?cc + of_nat (n - n1) = cc + of_nat n" using nn(1) by (simp add: of_nat_diff)
  ultimately show ?case unfolding step using s'(1,2) by auto
qed

lemma fs_read_coherent:
  assumes "ok_with D s" "is_file cap D s cs xs" "unat (loc (fil s)) \<le> length xs" "unat (loc (fil s)) + unat count < 4294967296"
    and "unat count \<le> length (ubuf s)" "length (ubuf s) < 4294967296"
    and m: "m = min (unat count) (length xs - unat (loc (fil s)))"
  shows "\<exists>s'. fs_read io count s = Inr (Some (of_nat m), s'\<lparr>fil := (fil s')\<lparr>loc := loc (fil s) + of_nat m\<rparr>\<rparr>) \<and> ok_with D s'
    \<and> reads_only cap (s\<lparr>ubuf := overwrite (ubuf s) 0 (take m (drop (unat (loc (fil s))) xs))\<rparr>) s'"
proof -
  let ?l = "loc (fil s)" and ?cb = "unat (cluster_bytes s)" and ?bytes = "file_bytes D (fat_info s) cs"
  obtain p sz where f: "unat (cluster_sectors s) = 2 ^ p" "p \<le> 3" "entry_size (entry (fil s)) = Inr sz" "unat sz = length xs"
    "get_start_cluster (entry (fil s)) = Inr (cs ! 0)" "cs ! 0 \<noteq> 0"
    using is_fileE [OF assms(2)] .
  have ch: "file_chain D (cap (fdev s)) (fat_info s) cs" "length xs \<le> length cs * ?cb" "xs = take (length xs) ?bytes"
    using assms(2) by (simp_all add: is_file_def)
  define n where "n = (if ?l + count > sz then sz - ?l else count)"
  have l: "unat ?l \<le> unat sz" "unat (sz - ?l) = unat sz - unat ?l" using assms(3) f(4) by (simp_all add: word_le_nat_alt unat_sub)
  have n: "unat n = m" "m \<le> unat count" "unat ?l + m \<le> unat sz"
    using assms(4) l f(4) unfolding m n_def by (auto simp: word_less_nat_alt unat_add_no_wrap)
  have nm: "n = of_nat m" unfolding n(1) [symmetric] by simp
  have slice: "take m (drop (unat ?l) xs) = take m (drop (unat ?l) ?bytes)"
    using slice_of_slice [of "unat ?l" m "length xs" 0 ?bytes] n(3) f(4) ch(3) by simp
  have pre: "fs_read io count s = (if n = 0 then fret 0 else
      fbind (fwhile (follow_chain io) (cluster_of s ?l, cs ! 0)) (\<lambda>clus.
        fbind (fwhile (read_round io (cluster_of s (?l + n - 1)) (byte_of s (?l + n - 1))) (cluster_of s ?l, byte_of s ?l, clus, 0)) (\<lambda>cc.
        fbind (upd_file (\<lambda>f. f\<lparr>loc := loc f + n\<rparr>)) (\<lambda>_. fret cc)))) s"
    unfolding fs_read_def n_def start_cluster_def using f(3,5,6) by (simp add: fbind_def Let_def)
  show ?thesis
  proof (cases "n = 0")
    case True
    then show ?thesis using pre assms(1) n(1) reads_only_refl by (intro exI [of _ s]) (simp add: overwrite_def)
  next
    case False
    then have m1: "0 < m" using n(1) unat_gt_0 [of n] by simp
    let ?e = "?l + n - 1"
    have inside: "unat (cluster_of s ?e) < length cs" "unat (cluster_of s ?l) \<le> unat (cluster_of s ?e)"
      "unat (byte_of s ?l) < ?cb" "unat (byte_of s ?e) < ?cb" "unat (cluster_of s ?l) * ?cb + unat (byte_of s ?l) = unat ?l"
      "m + unat ?l = unat (cluster_of s ?e) * ?cb + unat (byte_of s ?e) + 1"
      using file_span [OF f(1,2), of n m ?l "length cs"] n m1 ch(2) f(4) unat_less_2p32 [of sz] by auto
    obtain s1 where s1: "fwhile (follow_chain io) (cluster_of s ?l, cs ! 0) s = Inr (Some (cs ! unat (cluster_of s ?l)), s1)"
      "ok_with D s1" "reads_only cap s s1"
      using follow_chain_coherent [OF assms(1) ch(1), of 0 "unat (cluster_of s ?l)" p] inside(1,2) f(1,2) by auto
    note f1 = reads_only_fields [OF s1(3)]
    have le: "unat (cluster_of s ?l) * ?cb + unat (byte_of s ?l) \<le> unat (cluster_of s ?e) * ?cb + unat (byte_of s ?e)"
      using inside(5,6) m1 by linarith
    obtain s2 where s2: "fwhile (read_round io (cluster_of s ?e) (byte_of s ?e))
          (cluster_of s ?l, byte_of s ?l, cs ! unat (cluster_of s ?l), 0) s1 = Inr (Some (0 + of_nat m), s2)" "ok_with D s2"
      "reads_only cap (s1\<lparr>ubuf := overwrite (ubuf s) (unat (0 :: u32)) (take m
         (drop (unat (cluster_of s ?l) * ?cb + unat (byte_of s ?l)) ?bytes))\<rparr>) s2"
      using read_round_coherent [OF s1(2), of cs "cluster_of s ?e" p "byte_of s ?l" "byte_of s ?e" "cluster_of s ?l" 0 m, unfolded f1]
        ch(1) inside(1,3,4,6) f(1,2) le assms(5,6) n(2) unfolding inside(5) by auto
    have oc: "reads_only cap (s\<lparr>ubuf := overwrite (ubuf s) 0 (take m (drop (unat ?l) xs))\<rparr>) s2"
      using reads_only_trans [OF reads_only_ubuf [OF s1(3)] s2(3)] unfolding slice f1 inside(5) by simp
    have "loc (fil s2) = ?l" using reads_only_fields [OF oc] by simp
    then have "fs_read io count s = Inr (Some (of_nat m), s2\<lparr>fil := (fil s2)\<lparr>loc := ?l + of_nat m\<rparr>\<rparr>)"
      unfolding pre using False s1(1) s2(1) nm by (simp add: fbind_def upd_file_def)
    then show ?thesis using s2(2) oc by blast
  qed
qed

lemma read_result:
  assumes "ok_with D s" "is_file cap D s cs xs" "unat (loc (fil s)) \<le> length xs" "unat (loc (fil s)) + unat count < 4294967296"
    and "unat count \<le> length (ubuf s)" "length (ubuf s) < 4294967296"
    and m: "m = min (unat count) (length xs - unat (loc (fil s)))"
  shows "\<exists>s'. fs_read io count s = Inr (Some (of_nat m), s')
    \<and> ubuf s' = take m (drop (unat (loc (fil s))) xs) @ drop m (ubuf s) \<and> loc (fil s') = loc (fil s) + of_nat m
    \<and> ok_with D s' \<and> is_file cap D s' cs xs"
proof -
  let ?l = "loc (fil s)"
  obtain s' where s': "fs_read io count s = Inr (Some (of_nat m), s'\<lparr>fil := (fil s')\<lparr>loc := ?l + of_nat m\<rparr>\<rparr>)" "ok_with D s'"
    "reads_only cap (s\<lparr>ubuf := overwrite (ubuf s) 0 (take m (drop (unat ?l) xs))\<rparr>) s'"
    using fs_read_coherent [OF assms] by blast
  note f = reads_only_fields [OF s'(3), simplified]
  have "length (take m (drop (unat ?l) xs)) = m" using m by simp
  then have u: "ubuf s' = take m (drop (unat ?l) xs) @ drop m (ubuf s)" using f(3) by (simp add: overwrite_def)
  have "is_file cap D (s'\<lparr>fil := (fil s')\<lparr>loc := ?l + of_nat m\<rparr>\<rparr>) cs xs"
    using is_file_cong [of cap "s'\<lparr>fil := (fil s')\<lparr>loc := ?l + of_nat m\<rparr>\<rparr>" s D] assms(2) f by simp
  moreover have "ok_with D (s'\<lparr>fil := (fil s')\<lparr>loc := ?l + of_nat m\<rparr>\<rparr>)" using s'(2) by simp
  ultimately show ?thesis using s'(1) u by (intro exI [of _ "s'\<lparr>fil := (fil s')\<lparr>loc := ?l + of_nat m\<rparr>\<rparr>"]) simp
qed

end

section \<open>Properties\<close>

text \<open>
  C8. On the reference card, \<^verbatim>\<open>fs_read\<close> copies out the contents of the file from the current position on, as
  many bytes as are asked for and the file still has; it follows the table from the first cluster of the
  entry on, over any number of clusters, and takes what is waiting in the cache instead of what the card still
  has. It returns their number and moves the position by it, writes nothing behind them in the caller's
  buffer, and leaves the contents of the file and of the logical disk as they are.
\<close>

theorem fs_read_contents:
  assumes "fs_coherent card_disk (\<lambda>d. capacity (dev d)) card_ok D s" "is_file (\<lambda>d. capacity (dev d)) D s cs xs"
    and "unat (loc (fil s)) \<le> length xs" "unat (loc (fil s)) + unat count < 4294967296"
    and "unat count \<le> length (ubuf s)" "length (ubuf s) < 4294967296"
    and m: "m = min (unat count) (length xs - unat (loc (fil s)))"
  shows "\<exists>s'. fs_read (sd_io card_hw) count s = Inr (Some (of_nat m), s')
    \<and> ubuf s' = take m (drop (unat (loc (fil s))) xs) @ drop m (ubuf s) \<and> loc (fil s') = loc (fil s) + of_nat m
    \<and> fs_coherent card_disk (\<lambda>d. capacity (dev d)) card_ok D s' \<and> is_file (\<lambda>d. capacity (dev d)) D s' cs xs"
  using assms by (rule card_files.read_result)

text \<open>
  A file \<^verbatim>\<open>F.T\<close> of 5000 bytes in the clusters 5 and 7, with its entry in the first sector of the root directory,
  opened and moved to six bytes before the end of the first cluster.
\<close>

definition read_entry :: "u8 list" where
  "read_entry = [70, 32, 32, 32, 32, 32, 32, 32, 84, 32, 32, 32] @ replicate 14 0 @ [5, 0] @ u32_bytes 5000"

definition read_card :: "card sd" where
  "read_card = demo_card\<lparr>dev := (dev demo_card)\<lparr>capacity := 600000,
     sectors := (\<lambda>a. if a = 2080 then [0, 0, 0, 0, 0, 7, 0, 0x0FFFFFFF] @ replicate 120 0
       else if a = 3174 then [0x20202046, 0x20202020, 0x20202054, 0, 0, 0, 0x50000, 5000,
           0x20202047, 0x20202020, 0x20202054, 0, 0, 0, 0x50000, 200] @ replicate 112 0 else replicate 128 a)\<rparr>\<rparr>"

definition read_fat :: "card sd fat" where
  "read_fat = (let f = \<lparr>path = [], loc = 4090, dir_entry_pos = 0, dir_entry_sector = 0,
         entry = read_entry, file_clock = 0,
         data_buf = replicate 4 \<lparr>bdata = replicate 4096 0, cur = 0xffffffff, state = 0\<rparr>\<rparr> in
     \<lparr>fat_info = demo_fs, fat_clock_head = 0, fat_buf = replicate 2 \<lparr>bdata = replicate 512 0, cur = 0xffffffff, state = 0\<rparr>,
      filename11 = replicate 13 0, new_alloc_empty = [],
      dir_data_buf = replicate 4 \<lparr>bdata = replicate 512 0, cur = 0xffffffff, state = 0\<rparr>, dir_data_clock_head = 0, fdev = read_card, fil = f,
      ubuf = replicate 100 9, fdir = \<lparr>cur_sector = 0, dir_loc = 0, dir_sec = 0\<rparr>, dir_find = f, file_create = f, mk_dir_buf = []\<rparr>)"

definition read_bytes :: "u8 list" where
  "read_bytes = take 5000 (file_bytes (card_disk read_card) demo_fs [5, 7])"

lemma read_card_ok: "card_ok read_card"
  by (simp add: card_ok_def read_card_def demo_card_def)

lemma read_fat_fields: "fdev read_fat = read_card" "fat_info read_fat = demo_fs" "loc (fil read_fat) = 4090"
  "ubuf read_fat = replicate 100 9" "capacity (dev read_card) = 600000"
  by (simp_all add: read_fat_def read_card_def Let_def)

lemma read_fat_coherent: "fs_coherent card_disk (\<lambda>d. capacity (dev d)) card_ok (card_disk read_card) read_fat"
proof -
  have "coherent D D lo capv n (replicate 4 \<lparr>bdata = replicate 4096 0, cur = 0xffffffff, state = 0\<rparr>)" for D lo capv n
    by (simp add: coherent_def holds_area_def unique_cur_def dirty_def)
  then show ?thesis using read_card_ok disk_length [OF read_card_ok] by (simp add: fs_coherent_def table_cache_def read_fat_def Let_def)
qed

lemma read_fat_chain: "file_chain (card_disk read_card) 600000 demo_fs [5, 7]"
proof -
  have e: "cluster_to_fat_entry demo_fs 5 = (2080, 20)" "cluster_to_fat_entry demo_fs 7 = (2080, 28)" "data_start demo_fs = 3174"
    "sectors_of_cluster demo_fs = 8" "base_addr demo_fs = 2048" "first_data_sector demo_fs = 1126" "total_data_clusters demo_fs = 70000"
    by code_simp+
  have "card_disk read_card 2080 = concat (map u32_bytes [0, 0, 0, 0, 0, 7, 0, 0x0FFFFFFF]) @ sector_bytes (replicate 120 0)"
    by (simp add: card_disk_def sector_bytes_def read_card_def)
  then have "table_entry (card_disk read_card) demo_fs 5 = 7"
    by (simp add: table_entry_def get_u32_def rd_def u32_bytes_def sector_bytes_length e(1))
  then show ?thesis by (simp add: file_chain_def valid_cluster_def less_Suc_eq e)
qed

lemma read_bytes_length: "length (file_bytes (card_disk read_card) demo_fs [5, 7]) = 8192" "length read_bytes = 5000"
proof -
  have "sectors_of_cluster demo_fs = 8" by code_simp
  then show "length (file_bytes (card_disk read_card) demo_fs [5, 7]) = 8192"
    using file_bytes_length [of "card_disk read_card" demo_fs "[5, 7]", OF disk_length [OF read_card_ok]] by simp
  then show "length read_bytes = 5000" by (simp add: read_bytes_def)
qed

lemma read_fat_file: "is_file (\<lambda>d. capacity (dev d)) (card_disk read_card) read_fat [5, 7] read_bytes"
proof -
  have e: "get_start_cluster (entry (fil read_fat)) = Inr 5" "entry_size (entry (fil read_fat)) = Inr 5000"
    "unat (cluster_sectors read_fat) = 8" "unat (cluster_bytes read_fat) = 4096"
    by code_simp+
  have "read_bytes = take (length read_bytes) (file_bytes (card_disk read_card) demo_fs [5, 7])"
    unfolding read_bytes_length(2) by (simp only: read_bytes_def)
  then show ?thesis unfolding is_file_def read_fat_fields using e read_fat_chain by (simp add: read_bytes_length(2))
qed

theorem fs_read_contents_witness:
  "\<exists>s'. fs_read (sd_io card_hw) 20 read_fat = Inr (Some 20, s') \<and> loc (fil s') = 4110
     \<and> ubuf s' = take 20 (drop 4090 read_bytes) @ replicate 80 9"
proof -
  have m: "20 = min (unat (20 :: u32)) (length read_bytes - unat (loc (fil read_fat)))"
    "unat (loc (fil read_fat)) \<le> length read_bytes" "unat (loc (fil read_fat)) + unat (20 :: u32) < 4294967296"
    "unat (20 :: u32) \<le> length (ubuf read_fat)" "length (ubuf read_fat) < 4294967296"
    by (simp_all add: read_fat_fields read_bytes_length(2))
  show ?thesis
    using fs_read_contents [OF read_fat_coherent read_fat_file m(2-5,1)] unfolding read_fat_fields by fastforce
qed

end
