(* ===== verification/FatWrite.thy ===== *)
theory FatWrite
  imports FatRead
begin

text \<open>
  Writing into the clusters a file has: \<^verbatim>\<open>fs_write\<close> replaces bytes of the file, seen through the cache, and what
  was written is read back.
\<close>

section \<open>Replacing bytes of a file\<close>

lemma overwrite_append: "i + length w \<le> length xs \<Longrightarrow> overwrite (xs @ ys) i w = overwrite xs i w @ ys"
  by (simp add: overwrite_def)

lemma overwrite_skip: "overwrite (xs @ ys) (length xs + i) w = xs @ overwrite ys i w"
  by (simp add: overwrite_def)

lemma concat_overwrite:
  assumes "\<And>x. x \<in> set xss \<Longrightarrow> length x = n" "k < length xss" "i + length w \<le> n"
  shows "concat (xss[k := overwrite (xss ! k) i w]) = overwrite (concat xss) (k * n + i) w"
  using assms(1,2)
proof (induction xss arbitrary: k)
  case (Cons x xss)
  show ?case
  proof (cases k)
    case 0
    then show ?thesis using Cons.prems(1) assms(3) by (simp add: overwrite_append)
  next
    case (Suc j)
    have "concat (xss[j := overwrite (xss ! j) i w]) = overwrite (concat xss) (j * n + i) w"
      using Cons.prems Suc by (intro Cons.IH) auto
    moreover have "length x = n" using Cons.prems(1) by simp
    ultimately show ?thesis using Suc overwrite_skip [of x "concat xss" "j * n + i" w] by (simp add: add.assoc)
  qed
qed simp

text \<open>The size of the file in its entry.\<close>

lemma entry_new_size:
  assumes "entry_size e = Inr sz" "get_start_cluster e = Inr c"
  shows "\<exists>e'. set_u32 e 28 v = Inr e' \<and> entry_size e' = Inr v \<and> get_start_cluster e' = Inr c"
proof -
  have len: "32 \<le> length e" using assms(1) by (auto simp: entry_size_def get_u32_def rd_def res_simps split: if_splits)
  define e' where "e' = e[28 := ucast (v AND 0xFF), 29 := ucast (drop_bit 8 v AND 0xFF), 30 := ucast (drop_bit 16 v AND 0xFF), 31 := ucast (drop_bit 24 v AND 0xFF)]"
  have s: "set_u32 e 28 v = Inr e'" using len by (simp add: set_u32_def wr_def e'_def)
  have "get_start_cluster e' = get_start_cluster e"
    using len by (simp add: get_start_cluster_def entry_starthi_def entry_startlow_def get_u16_def rd_def e'_def)
  then show ?thesis using s get_after_set [OF s] assms(2) by (simp add: entry_size_def)
qed

lemma overwrite_take:
  assumes "i \<le> n" "n \<le> length ys" "i + length w \<le> length ys"
  shows "overwrite (take n ys) i w = take (max n (i + length w)) (overwrite ys i w)"
proof -
  have "take i (take n ys) = take i ys" using assms(1) by (simp add: min_absorb1)
  then show ?thesis using assms by (cases "i + length w \<le> n") (simp_all add: overwrite_def drop_take)
qed

text \<open>A change that stays inside the clusters of a file.\<close>

definition only_clusters :: "fs_info \<Rightarrow> u32 list \<Rightarrow> (u32 \<Rightarrow> u8 list) \<Rightarrow> (u32 \<Rightarrow> u8 list) \<Rightarrow> bool" where
  "only_clusters fi cs D D' \<longleftrightarrow>
     (\<forall>x. (\<forall>c\<in>set cs. \<not> within (unat (sectors_of_cluster fi)) (cluster_sector fi c) x) \<longrightarrow> D' x = D x)"

lemma only_clusters_refl: "only_clusters fi cs D D"
  by (simp add: only_clusters_def)

lemma only_clusters_trans: "only_clusters fi cs D D1 \<Longrightarrow> only_clusters fi cs D1 D2 \<Longrightarrow> only_clusters fi cs D D2"
  by (simp add: only_clusters_def)

lemma table_entry_cong:
  assumes "fst (cluster_to_fat_entry fi c) < lo" "\<And>x. x < lo \<Longrightarrow> D' x = D x"
  shows "table_entry D' fi c = table_entry D fi c"
  using assms by (cases "cluster_to_fat_entry fi c") (simp add: table_entry_def)

text \<open>New bytes for one cluster of a file.\<close>

lemma file_put:
  assumes "file_chain D capv fi cs" "j < length cs" "unat (sectors_of_cluster fi) = 2 ^ p" "p \<le> 3" "\<And>a. length (D a) = 512"
    and n: "n = unat (sectors_of_cluster fi)"
    and b: "length bytes = 4096" "take (512 * n) bytes = overwrite (cluster_data D fi (cs ! j)) i w" "i + length w \<le> 512 * n"
  defines "D' \<equiv> put_range D (cluster_sector fi (cs ! j)) n bytes"
  shows "file_bytes D' fi cs = overwrite (file_bytes D fi cs) (j * (512 * n) + i) w" "file_chain D' capv fi cs"
    and "only_clusters fi cs D D'" "x < data_start fi \<Longrightarrow> D' x = D x" "length (D' x) = 512"
proof -
  let ?a = "cluster_sector fi (cs ! j)"
  have n8: "512 * n \<le> 4096" using power_increasing [OF assms(4), of "2 :: nat"] assms(3) n by simp
  have v: "valid_cluster capv fi c" if "c \<in> set cs" for c using assms(1) that by (simp add: file_chain_def)
  have ar: "area (data_start fi) capv n (cluster_sector fi c)" if "c \<in> set cs" for c
    unfolding n by (rule cluster_area(3) [OF v [OF that] assms(3,4)])
  have js: "cs ! j \<in> set cs" using assms(2) by simp
  have same: "D' x = D x" if "\<not> within n ?a x" for x using that by (simp add: D'_def put_range_def)
  show low: "x < data_start fi \<Longrightarrow> D' x = D x" for x using area_sectors [OF _ ar [OF js]] same by blast
  show "only_clusters fi cs D D'" unfolding only_clusters_def using same js n by blast
  show "length (D' x) = 512" unfolding D'_def using b(1) n8 assms(5) by (intro put_range_length) simp_all
  have cl: "cluster_data D' fi c = (if c = cs ! j then overwrite (cluster_data D fi (cs ! j)) i w else cluster_data D fi c)"
    if "c \<in> set cs" for c
  proof (cases "c = cs ! j")
    case True
    have "range_bytes D' ?a n = take (512 * n) bytes"
      unfolding D'_def using area_le [OF ar [OF js]] b(1) n8 by (intro range_bytes_put) simp_all
    then show ?thesis using True b(2) n by (simp add: cluster_data_def)
  next
    case False
    have "unat (cluster_sector fi c) \<noteq> unat ?a"
    proof
      assume "unat (cluster_sector fi c) = unat ?a"
      then have "(unat c - 2) * 2 ^ p = (unat (cs ! j) - 2) * 2 ^ p"
        using cluster_area(2) [OF v [OF that] assms(3,4)] cluster_area(2) [OF v [OF js] assms(3,4)] by simp
      then have "unat c - 2 = unat (cs ! j) - 2" by simp
      moreover have "2 \<le> unat c" "2 \<le> unat (cs ! j)" using v [OF that] v [OF js] by (simp_all add: valid_cluster_def)
      ultimately have "unat c = unat (cs ! j)" by linarith
      then show False using False by (simp add: word_unat_eq_iff)
    qed
    then have "cluster_sector fi c \<noteq> ?a" by auto
    then have "range_bytes D' (cluster_sector fi c) n = range_bytes D (cluster_sector fi c) n"
      using area_disjoint [OF ar [OF that] ar [OF js]] same by (intro range_bytes_cong area_le [OF ar [OF that]]) simp
    then show ?thesis using False n by (simp add: cluster_data_def)
  qed
  have dist: "distinct cs" using assms(1) by (simp add: file_chain_def)
  have "map (cluster_data D' fi) cs = (map (cluster_data D fi) cs)[j := overwrite (cluster_data D fi (cs ! j)) i w]"
    using dist assms(2) cl by (intro nth_equalityI) (auto simp: nth_list_update nth_eq_iff_index_eq)
  then show "file_bytes D' fi cs = overwrite (file_bytes D fi cs) (j * (512 * n) + i) w"
    using concat_overwrite [of "map (cluster_data D fi) cs" "512 * n" j i w] assms(2,5) b(3) cluster_data_length [of D fi] n
    by (auto simp: file_bytes_def)
  show "file_chain D' capv fi cs"
    unfolding file_chain_def
  proof (intro conjI allI impI)
    fix i
    assume i: "Suc i < length cs"
    have "fst (cluster_to_fat_entry fi (cs ! i)) < data_start fi" using v [of "cs ! i"] i by (simp add: valid_cluster_def)
    then have "table_entry D' fi (cs ! i) = table_entry D fi (cs ! i)" using low by (rule table_entry_cong)
    then show "table_entry D' fi (cs ! i) = cs ! Suc i" using assms(1) i by (simp add: file_chain_def)
  qed (use dist v in auto)
qed

text \<open>What a write of the bytes \<open>w\<close> at position \<open>pos\<close> makes of the logical disk.\<close>

definition writes :: "fs_info \<Rightarrow> u32 \<Rightarrow> u32 list \<Rightarrow> nat \<Rightarrow> u8 list \<Rightarrow> (u32 \<Rightarrow> u8 list) \<Rightarrow> (u32 \<Rightarrow> u8 list) \<Rightarrow> bool" where
  "writes fi capv cs pos w D D' \<longleftrightarrow> file_bytes D' fi cs = overwrite (file_bytes D fi cs) pos w
     \<and> file_chain D' capv fi cs \<and> only_clusters fi cs D D'"

section \<open>Writing\<close>

context file_device
begin

lemma next_or_new_coherent:
  assumes "ok_with D s" "valid_cluster (cap (fdev s)) (fat_info s) c" "unat (cluster_sectors s) = 2 ^ p" "p \<le> 3"
    and "table_entry D (fat_info s) c = c'" "valid_cluster (cap (fdev s)) (fat_info s) c'"
  shows "\<exists>s'. next_or_new io c s = Inr (Some c', s') \<and> ok_with D s' \<and> only_caches cap s s'"
proof -
  obtain s' where s': "get_fat_entry_value io c s = Inr (Some c', s')" "ok_with D s'" "only_caches cap s s'"
    using get_fat_entry_coherent [OF assms(1-4)] assms(5) reads_only_caches by auto
  have "c' \<le> total_data_clusters (fat_info s) + 1" using assms(6) by (simp add: valid_cluster_def)
  then have "\<not> c' > max_cluster s'" using only_caches_fields [OF s'(3)] by (simp add: max_cluster_def)
  then have "next_or_new io c s = Inr (Some c', s')" using s'(1) by (simp add: next_or_new_def fbind_def)
  then show ?thesis using s'(2,3) by blast
qed

lemma write_chain_coherent:
  assumes "ok_with D s" "file_chain D (cap (fdev s)) (fat_info s) cs" "j + n < length cs" "n < 4294967296"
    and "unat (cluster_sectors s) = 2 ^ p" "p \<le> 3"
  shows "\<exists>s'. fwhile (write_chain io) (of_nat n, cs ! j) s = Inr (Some (cs ! (j + n)), s') \<and> ok_with D s' \<and> only_caches cap s s'"
  using assms
proof (induction n arbitrary: j s)
  case 0
  then show ?case by (intro exI [of _ s]) (simp add: fwhile_done write_chain_def only_caches_refl)
next
  case (Suc n)
  have c: "valid_cluster (cap (fdev s)) (fat_info s) (cs ! j)" "valid_cluster (cap (fdev s)) (fat_info s) (cs ! Suc j)"
    "table_entry D (fat_info s) (cs ! j) = cs ! Suc j"
    using Suc.prems(2,3) by (simp_all add: file_chain_def)
  obtain s1 where s1: "next_or_new io (cs ! j) s = Inr (Some (cs ! Suc j), s1)" "ok_with D s1" "only_caches cap s s1"
    using next_or_new_coherent [OF Suc.prems(1) c(1) Suc.prems(5,6) c(3,2)] by auto
  note k = only_caches_fields [OF s1(3)]
  have n: "(of_nat (Suc n) :: u32) \<noteq> 0"
    using Suc.prems(4) by (simp add: word_unat_eq_iff unat_of_nat take_bit_nat_eq_self del: of_nat_Suc)
  have "fwhile (write_chain io) (of_nat (Suc n), cs ! j) s = fwhile (write_chain io) (of_nat n, cs ! Suc j) s1"
    using n s1(1) by (intro fwhile_more) (simp add: write_chain_def fbind_def)
  moreover obtain s' where "fwhile (write_chain io) (of_nat n, cs ! Suc j) s1 = Inr (Some (cs ! (Suc j + n)), s')"
    "ok_with D s'" "only_caches cap s1 s'"
    using Suc.IH [OF s1(2), of "Suc j"] Suc.prems(2-6) k by auto
  ultimately show ?case using only_caches_trans [OF s1(3)] by auto
qed

lemma cluster_write_coherent:
  assumes "ok_with D s" "file_chain D (cap (fdev s)) (fat_info s) cs" "k < length cs"
    and "unat (cluster_sectors s) = 2 ^ p" "p \<le> 3"
    and "unat sb + n \<le> unat (cluster_bytes s)" "unat cc + n \<le> length (ubuf s)" "length (ubuf s) < 4294967296"
  shows "\<exists>i s0 b s1 D'. read_data_block io (fs_dataclus2sec (fat_info s) (cs ! k)) s = Inr (Some i, s0)
    \<and> data_block i s0 = Inr (Some b, s0) \<and> write_in i b n sb cc s0 = Inr (Some (), s1) \<and> ok_with D' s1 \<and> only_caches cap s s1
    \<and> writes (fat_info s) (cap (fdev s)) cs (k * unat (cluster_bytes s) + unat sb) (take n (drop (unat cc) (ubuf s))) D D'"
proof -
  let ?c = "cs ! k" and ?fi = "fat_info s" and ?n = "unat (cluster_sectors s)" and ?w = "take n (drop (unat cc) (ubuf s))"
  note cb = cluster_size [OF assms(4,5)]
  have D: "length (D a) = 512" for a using assms(1) by (simp add: fs_coherent_def)
  have v: "valid_cluster (cap (fdev s)) ?fi ?c" using assms(2,3) by (simp add: file_chain_def)
  obtain i s0 where s0: "read_data_block io (fs_dataclus2sec ?fi ?c) s = Inr (Some i, s0)" "i < 4" "ok_with D s0"
    "only_caches cap s s0" "cur (data_buf (fil s0) ! unat i) = cluster_sector ?fi ?c" "length (bdata (data_buf (fil s0) ! unat i)) = 4096"
    "take (unat (cluster_bytes s)) (bdata (data_buf (fil s0) ! unat i)) = cluster_data D ?fi ?c"
    using read_data_coherent [OF assms(1) v assms(4,5)] reads_only_caches by blast
  let ?b = "data_buf (fil s0) ! unat i"
  note k0 = only_caches_fields [OF s0(4)]
  have il: "unat i < length (data_buf (fil s0))" using s0(2,3) by (simp add: fs_coherent_def word_less_nat_alt)
  let ?bytes = "overwrite (bdata ?b) (unat sb) ?w"
  have w: "length ?w = n" using assms(7) by simp
  have bl: "length ?bytes = 4096" using overwrite_length [of "unat sb" ?w "bdata ?b"] s0(6) w assms(6) cb by simp
  have "copy_bytes n (ubuf s0) cc (bdata ?b) sb = Inr ?bytes"
    using copy_bytes_spec [of cc n "ubuf s" sb "bdata ?b"] s0(6) assms(6-8) cb w k0(3) by (simp add: overwrite_def)
  let ?s1 = "s0\<lparr>fil := (fil s0)\<lparr>data_buf := (data_buf (fil s0))[unat i := ?b\<lparr>bdata := ?bytes, state := 3\<rparr>]\<rparr>\<rparr>"
  have wi: "write_in i ?b n sb cc s0 = Inr (Some (), ?s1)"
    using \<open>copy_bytes n (ubuf s0) cc (bdata ?b) sb = Inr ?bytes\<close> by (simp add: write_in_def fbind_def upd_file_def)
  let ?D = "put_range D (cluster_sector ?fi ?c) ?n ?bytes"
  have spc: "unat (sectors_of_cluster ?fi) = 2 ^ p" using assms(4) by (simp add: cluster_sectors_def)
  have "take (512 * ?n) ?bytes = overwrite (cluster_data D ?fi ?c) (unat sb) ?w"
  proof -
    let ?k = "512 * ?n"
    have "bdata ?b = cluster_data D ?fi ?c @ drop ?k (bdata ?b)"
      using s0(7) cb(1) by (metis append_take_drop_id)
    moreover have l: "length (cluster_data D ?fi ?c) = ?k" using cluster_data_length [of D, OF D] by (simp add: cluster_sectors_def)
    ultimately have e: "?bytes = overwrite (cluster_data D ?fi ?c) (unat sb) ?w @ drop ?k (bdata ?b)"
      using overwrite_append [of "unat sb" ?w "cluster_data D ?fi ?c" "drop ?k (bdata ?b)"] w assms(6) cb(1) by simp
    have "length (overwrite (cluster_data D ?fi ?c) (unat sb) ?w) = ?k"
      using overwrite_length [of "unat sb" ?w "cluster_data D ?fi ?c"] l w assms(6) cb(1) by simp
    then show ?thesis unfolding e by simp
  qed
  then have put: "file_bytes ?D ?fi cs = overwrite (file_bytes D ?fi cs) (k * (512 * ?n) + unat sb) ?w" "file_chain ?D (cap (fdev s)) ?fi cs"
    "only_clusters ?fi cs D ?D" "\<And>x. x < data_start ?fi \<Longrightarrow> ?D x = D x" "\<And>x. length (?D x) = 512"
    using file_put [OF assms(2,3) spc assms(5) D, of ?n ?bytes "unat sb" ?w] bl w assms(6) cb(1) by (auto simp: cluster_sectors_def)
  have coh: "coherent ?D (sec (fdev s0)) (data_start ?fi) (cap (fdev s0)) ?n ((data_buf (fil s0))[unat i := ?b\<lparr>bdata := ?bytes, state := 3\<rparr>])"
  proof (rule coherent_changed [OF _ il _ s0(5) bl])
    show "coherent D (sec (fdev s0)) (data_start ?fi) (cap (fdev s0)) ?n (data_buf (fil s0))" using s0(3) k0 by (simp add: fs_coherent_def)
    show "area (data_start ?fi) (cap (fdev s0)) ?n (cluster_sector ?fi ?c)"
      using cluster_area(3) [OF v spc assms(5)] k0 by (simp add: cluster_sectors_def)
    show "512 * ?n \<le> 4096" "0 < ?n" using cb by simp_all
  qed
  have parts: "okd (fdev s0)" "length (fat_buf s0) = 2" "fat_clock_head s0 < 2" "table_cache D (data_start ?fi) (fat_buf s0)"
    "length (data_buf (fil s0)) = 4" "file_clock (fil s0) < 4"
    using s0(3) k0(2) by (simp_all add: fs_coherent_def)
  note tc = table_cache_cong [OF parts(4) put(4)]
  have ok: "ok_with ?D ?s1" unfolding fs_coherent_def using parts tc coh put(5) k0(2,6) by simp
  have "?s1 = s0\<lparr>fdev := fdev s0, fat_buf := fat_buf s0, fat_clock_head := fat_clock_head s0,
      fil := (fil s0)\<lparr>data_buf := (data_buf (fil s0))[unat i := ?b\<lparr>bdata := ?bytes, state := 3\<rparr>], file_clock := file_clock (fil s0)\<rparr>\<rparr>"
    by simp
  then have "only_caches cap s0 ?s1" by (simp only: only_caches_update)
  then have oc: "only_caches cap s ?s1" by (rule only_caches_trans [OF s0(4)])
  have "data_block i s0 = Inr (Some ?b, s0)" using il by (simp add: data_block_def)
  moreover have "writes ?fi (cap (fdev s)) cs (k * unat (cluster_bytes s) + unat sb) ?w D ?D"
    using put(1-3) cb(1) by (simp add: writes_def)
  ultimately show ?thesis using s0(1) wi ok oc by blast
qed

lemma write_round_coherent:
  assumes "ok_with D s" "file_chain D (cap (fdev s)) (fat_info s) cs" "unat ec < length cs"
    and "unat (cluster_sectors s) = 2 ^ p" "p \<le> 3" "unat sb < unat (cluster_bytes s)" "unat eb < unat (cluster_bytes s)"
    and "length (ubuf s) < 4294967296" "unat k * unat (cluster_bytes s) + unat sb \<le> unat ec * unat (cluster_bytes s) + unat eb"
    and "unat cc + n \<le> length (ubuf s)" "n + (unat k * unat (cluster_bytes s) + unat sb) = unat ec * unat (cluster_bytes s) + unat eb + 1"
  shows "\<exists>D' s'. fwhile (write_round io ec eb) (k, sb, cs ! unat k, cc) s = Inr (Some (cc + of_nat n), s') \<and> ok_with D' s' \<and> only_caches cap s s'
    \<and> writes (fat_info s) (cap (fdev s)) cs (unat k * unat (cluster_bytes s) + unat sb) (take n (drop (unat cc) (ubuf s))) D D'"
  using assms
proof (induction "unat ec - unat k" arbitrary: k sb cc n s D)
  case 0
  let ?cb = "unat (cluster_bytes s)"
  have "\<not> unat ec < unat k"
  proof
    assume "unat ec < unat k"
    then have "(unat ec + 1) * ?cb \<le> unat k * ?cb" by (intro mult_le_mono1) simp
    then show False using "0.prems"(7,9) by (simp add: algebra_simps)
  qed
  then have k: "k = ec" using "0.hyps" by (simp add: word_unat_eq_iff)
  have n: "n = span sb eb" "unat sb + n \<le> ?cb"
    using "0.prems"(7,9,11) unfolding k by (simp_all add: span_def word_le_nat_alt unat_sub)
  obtain i s0 b s1 D' where r: "read_data_block io (fs_dataclus2sec (fat_info s) (cs ! unat ec)) s = Inr (Some i, s0)"
    "data_block i s0 = Inr (Some b, s0)" "write_in i b n sb cc s0 = Inr (Some (), s1)" "ok_with D' s1" "only_caches cap s s1"
    "writes (fat_info s) (cap (fdev s)) cs (unat ec * ?cb + unat sb) (take n (drop (unat cc) (ubuf s))) D D'"
    using cluster_write_coherent [OF "0.prems"(1,2,3,4,5) n(2) "0.prems"(10,8)] by blast
  have "write_round io ec eb (ec, sb, cs ! unat ec, cc) s = Inr (Some (Inl (cc + of_nat n)), s1)"
    using r(1-3) n(1) by (simp add: write_round_def fbind_def Let_def)
  from fwhile_done [of "write_round io ec eb", OF this] r(4-6) show ?case unfolding k by blast
next
  case (Suc m)
  let ?cb = "unat (cluster_bytes s)" and ?fi = "fat_info s"
  define n1 where "n1 = ?cb - unat sb"
  have k: "unat k < unat ec" "k < ec" "k \<noteq> ec" using Suc.hyps(2) by (auto simp: word_less_nat_alt)
  have "unat k + 1 < 4294967296" using k(1) unat_less_2p32 [of ec] by linarith
  then have k1: "unat (k + 1) = Suc (unat k)" by (simp add: unat_add_no_wrap)
  have n1: "unat sb + n1 \<le> ?cb" "n1 = span sb (cluster_bytes s - 1)" "sb < cluster_bytes s"
    using Suc.prems(6) by (simp_all add: n1_def span_def word_less_nat_alt word_le_nat_alt unat_sub unat_minus_one) arith
  have le: "(unat k + 1) * ?cb \<le> unat ec * ?cb" using k(1) by (intro mult_le_mono1) simp
  then have nn: "n1 \<le> n" "n - n1 + (unat (k + 1) * ?cb + unat (0 :: u32)) = unat ec * ?cb + unat eb + 1"
    using Suc.prems(6,11) unfolding n1_def k1 by (simp_all add: algebra_simps)
  have kl: "unat k < length cs" "Suc (unat k) < length cs" using k(1) Suc.prems(3) by simp_all
  have l1: "unat cc + n1 \<le> length (ubuf s)" using Suc.prems(10) nn(1) by simp
  obtain i s0 b s1 D1 where r: "read_data_block io (fs_dataclus2sec ?fi (cs ! unat k)) s = Inr (Some i, s0)"
    "data_block i s0 = Inr (Some b, s0)" "write_in i b n1 sb cc s0 = Inr (Some (), s1)" "ok_with D1 s1" "only_caches cap s s1"
    "writes ?fi (cap (fdev s)) cs (unat k * ?cb + unat sb) (take n1 (drop (unat cc) (ubuf s))) D D1"
    using cluster_write_coherent [OF Suc.prems(1,2) kl(1) Suc.prems(4,5) n1(1) l1 Suc.prems(8)] by blast
  note f1 = only_caches_fields [OF r(5)]
  have ch: "file_chain D1 (cap (fdev s)) ?fi cs" using r(6) by (simp add: writes_def)
  have c: "valid_cluster (cap (fdev s1)) (fat_info s1) (cs ! unat k)" "valid_cluster (cap (fdev s1)) (fat_info s1) (cs ! unat (k + 1))"
    "table_entry D1 (fat_info s1) (cs ! unat k) = cs ! unat (k + 1)" "unat (cluster_sectors s1) = 2 ^ p"
    using ch kl k1 f1 Suc.prems(4) by (simp_all add: file_chain_def)
  obtain s2 where s2: "next_or_new io (cs ! unat k) s1 = Inr (Some (cs ! unat (k + 1)), s2)" "ok_with D1 s2" "only_caches cap s1 s2"
    using next_or_new_coherent [OF r(4) c(1,4) Suc.prems(5) c(3,2)] by blast
  have oc: "only_caches cap s s2" using only_caches_trans [OF r(5) s2(3)] .
  note f2 = only_caches_fields [OF oc]
  have "write_round io ec eb (k, sb, cs ! unat k, cc) s = Inr (Some (Inr (k + 1, 0, cs ! unat (k + 1), cc + of_nat n1)), s2)"
    using r(1-3) s2(1) n1(2,3) k(2,3) by (simp add: write_round_def fbind_def Let_def)
  note step = fwhile_more [of "write_round io ec eb", OF this]
  let ?cc = "cc + of_nat n1"
  have n1w: "unat (of_nat n1 :: u32) = n1" using l1 Suc.prems(8) by (simp add: unat_of_nat take_bit_nat_eq_self)
  have cc: "unat ?cc = unat cc + n1" using l1 Suc.prems(8) n1w by (simp add: unat_add_no_wrap)
  have hyp: "m = unat ec - unat (k + 1)" using Suc.hyps(2) k1 by simp
  obtain D' s' where s': "fwhile (write_round io ec eb) (k + 1, 0, cs ! unat (k + 1), ?cc) s2 = Inr (Some (?cc + of_nat (n - n1)), s')"
    "ok_with D' s'" "only_caches cap s2 s'"
    "writes ?fi (cap (fdev s)) cs (unat (k + 1) * ?cb + unat (0 :: u32)) (take (n - n1) (drop (unat ?cc) (ubuf s))) D1 D'"
    using Suc.hyps(1) [OF hyp s2(2), of 0 "?cc" "n - n1", unfolded f2] ch Suc.prems nn cc k1 n1(1) k(1) le by auto
  have pos: "unat (k + 1) * ?cb + unat (0 :: u32) = unat k * ?cb + unat sb + n1" using Suc.prems(6) unfolding k1 n1_def by simp
  have D: "length (D a) = 512" for a using Suc.prems(1) by (simp add: fs_coherent_def)
  have "length (file_bytes D ?fi cs) = length cs * ?cb"
    using file_bytes_length [of D, OF D] cluster_size(1) [OF Suc.prems(4,5)] by (simp add: cluster_sectors_def)
  moreover have "(unat k + 1) * ?cb \<le> length cs * ?cb" using kl(1) by (intro mult_le_mono1) simp
  moreover have w1: "length (take n1 (drop (unat cc) (ubuf s))) = n1" using l1 by simp
  ultimately have "unat k * ?cb + unat sb + length (take n1 (drop (unat cc) (ubuf s))) \<le> length (file_bytes D ?fi cs)"
    using n1(1) by simp
  from overwrite_overwrite [OF this, of "take (n - n1) (drop (unat ?cc) (ubuf s))"]
  have "writes ?fi (cap (fdev s)) cs (unat k * ?cb + unat sb) (take n (drop (unat cc) (ubuf s))) D D'"
    using r(6) s'(4) take_add [of n1 "n - n1" "drop (unat cc) (ubuf s)"] nn(1) only_clusters_trans [of ?fi cs D D1 D'] w1
    unfolding writes_def pos cc by (simp add: add.commute [of n1])
  moreover have "?cc + of_nat (n - n1) = cc + of_nat n" using nn(1) by (simp add: of_nat_diff)
  ultimately show ?case unfolding step using s'(1,2) only_caches_trans [OF oc s'(3)] by auto
qed

lemma fs_write_coherent:
  assumes "ok_with D s" "is_file cap D s cs xs" "unat (loc (fil s)) \<le> length xs"
    and "unat (loc (fil s)) + unat count \<le> length cs * unat (cluster_bytes s)" "unat (loc (fil s)) + unat count < 4294967296"
    and "unat count \<le> length (ubuf s)" "length (ubuf s) < 4294967296"
  shows "\<exists>D' s'. fs_write io count s = Inr (Some count, s') \<and> ok_with D' s' \<and> only_clusters (fat_info s) cs D D'
    \<and> is_file cap D' s' cs (overwrite xs (unat (loc (fil s))) (take (unat count) (ubuf s))) \<and> loc (fil s') = loc (fil s) + count
    \<and> fat_info s' = fat_info s \<and> ubuf s' = ubuf s \<and> cap (fdev s') = cap (fdev s)"
proof (cases "count = 0")
  case True
  then have "fs_write io count s = Inr (Some count, s)" by (simp add: fs_write_def)
  then show ?thesis using assms(1,2) True only_clusters_refl by (intro exI [of _ D] exI [of _ s]) (simp add: overwrite_def)
next
  case False
  let ?l = "loc (fil s)" and ?cb = "unat (cluster_bytes s)" and ?fi = "fat_info s" and ?m = "unat count"
  let ?w = "take ?m (ubuf s)" and ?e = "loc (fil s) + count - 1"
  obtain p sz where f: "unat (cluster_sectors s) = 2 ^ p" "p \<le> 3" "entry_size (entry (fil s)) = Inr sz" "unat sz = length xs"
    "get_start_cluster (entry (fil s)) = Inr (cs ! 0)" "cs ! 0 \<noteq> 0"
    using is_fileE [OF assms(2)] .
  have ch: "file_chain D (cap (fdev s)) ?fi cs" "length xs \<le> length cs * ?cb" "xs = take (length xs) (file_bytes D ?fi cs)"
    using assms(2) by (simp_all add: is_file_def)
  have ne: "cs \<noteq> []" "unat (cluster_sectors s) \<in> {1, 2, 4, 8}" "length xs < 4294967296"
    using assms(2) unfolding is_file_def by blast+
  have m1: "0 < ?m" using False by (simp add: unat_gt_0)
  note inside = file_span [OF f(1,2) refl m1 assms(4,5)]
  have pre: "first_cluster io s = Inr (Some (cs ! 0), s)"
    using f(5,6) by (simp add: first_cluster_def start_cluster_def fbind_def)
  have lc: "unat (cluster_of s ?l) < length cs" using inside(1,2) by linarith
  obtain s1 where s1: "fwhile (write_chain io) (cluster_of s ?l, cs ! 0) s = Inr (Some (cs ! unat (cluster_of s ?l)), s1)"
    "ok_with D s1" "only_caches cap s s1"
    using write_chain_coherent [OF assms(1) ch(1), of 0 "unat (cluster_of s ?l)" p] lc f(1,2) by auto
  note f1 = only_caches_fields [OF s1(3)]
  have le: "unat (cluster_of s ?l) * ?cb + unat (byte_of s ?l) \<le> unat (cluster_of s ?e) * ?cb + unat (byte_of s ?e)"
    using inside(5,6) m1 by linarith
  obtain D' s2 where s2: "fwhile (write_round io (cluster_of s ?e) (byte_of s ?e))
        (cluster_of s ?l, byte_of s ?l, cs ! unat (cluster_of s ?l), 0) s1 = Inr (Some (0 + of_nat ?m), s2)" "ok_with D' s2" "only_caches cap s1 s2"
    "writes ?fi (cap (fdev s)) cs (unat ?l) ?w D D'"
    using write_round_coherent [OF s1(2), of cs "cluster_of s ?e" p "byte_of s ?l" "byte_of s ?e" "cluster_of s ?l" 0 ?m, unfolded f1]
      ch(1) inside(1,3,4,6) f(1,2) le assms(6,7) unfolding inside(5) by auto
  have oc: "only_caches cap s s2" using only_caches_trans [OF s1(3) s2(3)] .
  note f2 = only_caches_fields [OF oc]
  obtain e' where e': "set_u32 (entry (fil s)) 28 (?l + count) = Inr e'" "entry_size e' = Inr (?l + count)" "get_start_cluster e' = Inr (cs ! 0)"
    using entry_new_size [OF f(3,5)] by blast
  define en where "en = (if ?l + count > sz then e' else entry (fil s))"
  let ?s' = "s2\<lparr>fil := (fil s2)\<lparr>entry := en, loc := ?l + count\<rparr>\<rparr>"
  have lc2: "unat (?l + count) = unat ?l + ?m" using assms(5) by (simp add: unat_add_no_wrap)
  have lw: "length ?w = ?m" using assms(6) by simp
  let ?ys = "overwrite xs (unat ?l) ?w"
  have ly: "length ?ys = max (length xs) (unat ?l + ?m)" using assms(3) lw by (simp add: overwrite_def)
  have en: "entry_size en = Inr (of_nat (length ?ys))" "get_start_cluster en = Inr (hd cs)"
  proof -
    have "of_nat (length ?ys) = (if ?l + count > sz then ?l + count else sz)"
      unfolding ly using lc2 f(4) assms(5) unat_less_2p32 [of sz]
      by (auto simp: word_less_nat_alt max_def word_unat_eq_iff unat_of_nat take_bit_nat_eq_self)
    then show "entry_size en = Inr (of_nat (length ?ys))" using e'(2) f(3) by (simp add: en_def)
    show "get_start_cluster en = Inr (hd cs)" using e'(3) f(5) ne(1) by (simp add: en_def hd_conv_nth)
  qed
  have "fs_write io count s = Inr (Some count, ?s')"
  proof (cases "?l + count > sz")
    case True
    then show ?thesis using False pre s1(1) s2(1) e'(1) f(3) f2(4)
      by (simp add: fs_write_def fbind_def Let_def upd_file_def en_def)
  next
    case 2: False
    then have "?s' = s2\<lparr>fil := (fil s2)\<lparr>loc := ?l + count\<rparr>\<rparr>" using f2(4) by (simp add: en_def)
    then show ?thesis using False 2 pre s1(1) s2(1) f(3) f2(4) by (simp add: fs_write_def fbind_def Let_def upd_file_def)
  qed
  moreover have "ok_with D' ?s'" using s2(2) by (simp add: fs_coherent_def)
  moreover have "is_file cap D' ?s' cs ?ys"
  proof -
    have D: "length (D a) = 512" for a using assms(1) by (simp add: fs_coherent_def)
    have fb: "length (file_bytes D ?fi cs) = length cs * ?cb"
      using file_bytes_length [of D, OF D] cluster_size(1) [OF f(1,2)] by (simp add: cluster_sectors_def)
    have "?ys = overwrite (take (length xs) (file_bytes D ?fi cs)) (unat ?l) ?w" using ch(3) by simp
    also have "\<dots> = take (length ?ys) (overwrite (file_bytes D ?fi cs) (unat ?l) ?w)"
      using overwrite_take [of "unat ?l" "length xs" "file_bytes D ?fi cs" ?w] assms(3,4) ch(2) fb lw ly by simp
    finally have "?ys = take (length ?ys) (file_bytes D' ?fi cs)" using s2(4) by (simp add: writes_def)
    moreover have "length ?ys < 4294967296" "length ?ys \<le> length cs * ?cb"
      using ly ne(3) ch(2) assms(4,5) by simp_all
    moreover have "file_chain D' (cap (fdev s)) ?fi cs" using s2(4) by (simp add: writes_def)
    ultimately show ?thesis unfolding is_file_def using ne f2 en by simp
  qed
  moreover have "only_clusters ?fi cs D D'" using s2(4) by (simp add: writes_def)
  ultimately show ?thesis using f2 by (intro exI [of _ D'] exI [of _ ?s']) simp
qed

text \<open>The last loop of \<^verbatim>\<open>fs_close\<close>.\<close>

lemma write_data_block_coherent:
  assumes "ok_with D s" "i < 4" "unat (cluster_sectors s) = 2 ^ p" "p \<le> 3"
  shows "\<exists>s'. write_data_block io i s = Inr (Some (), s') \<and> ok_with D s' \<and> only_caches cap s s'
    \<and> data_buf (fil s') = (data_buf (fil s))[unat i := cleaned (data_buf (fil s) ! unat i)]"
proof -
  let ?bufs = "data_buf (fil s)" and ?n = "cluster_sectors s" and ?lo = "data_start (fat_info s)"
  have c: "okd (fdev s)" "\<And>a. length (D a) = 512" "length ?bufs = 4" "coherent D (sec (fdev s)) ?lo (cap (fdev s)) (unat ?n) ?bufs"
    using assms(1) by (simp_all add: fs_coherent_def)
  have il: "unat i < length ?bufs" using assms(2) c(3) by (simp add: word_less_nat_alt)
  have n: "512 * unat ?n \<le> 4096" using cluster_size [OF assms(3,4)] by simp
  obtain d' where d': "fs_write_buf io ?n (?bufs ! unat i) (fdev s) = Inr (0, cleaned (?bufs ! unat i), d')" "okd d'" "cap d' = cap (fdev s)"
    "coherent D (sec d') ?lo (cap (fdev s)) (unat ?n) (?bufs[unat i := cleaned (?bufs ! unat i)])"
    using write_buf_coherent [OF c(1,4) il c(2) n] by blast
  let ?s = "s\<lparr>fdev := d', fil := (fil s)\<lparr>data_buf := ?bufs[unat i := cleaned (?bufs ! unat i)]\<rparr>\<rparr>"
  have "write_data_block io i s = Inr (Some (), ?s)"
    using d'(1) il by (simp add: write_data_block_def fs_write_4k_def cluster_sectors_def fbind_def upd_file_def)
  moreover have "ok_with D ?s" using assms(1) d' by (simp add: fs_coherent_def cluster_sectors_def)
  moreover have "?s = s\<lparr>fdev := d', fat_buf := fat_buf s, fat_clock_head := fat_clock_head s,
      fil := (fil s)\<lparr>data_buf := ?bufs[unat i := cleaned (?bufs ! unat i)], file_clock := file_clock (fil s)\<rparr>\<rparr>" by simp
  then have "only_caches cap s ?s" by (simp only: only_caches_update [OF d'(3)])
  ultimately show ?thesis by (intro exI [of _ ?s]) simp
qed

lemma flush_data:
  assumes "ok_with D s" "unat (cluster_sectors s) = 2 ^ p" "p \<le> 3"
  shows "\<exists>s'. each (write_data_block io) [0, 1, 2, 3] s = Inr (Some (), s') \<and> ok_with D s' \<and> only_caches cap s s' \<and> sec (fdev s') = D"
proof -
  obtain s1 where s1: "write_data_block io 0 s = Inr (Some (), s1)" "ok_with D s1" "only_caches cap s s1"
    "data_buf (fil s1) = (data_buf (fil s))[0 := cleaned (data_buf (fil s) ! 0)]"
    using write_data_block_coherent [OF assms(1) _ assms(2,3), of 0] by auto
  note f1 = only_caches_fields [OF s1(3)]
  obtain s2 where s2: "write_data_block io 1 s1 = Inr (Some (), s2)" "ok_with D s2" "only_caches cap s1 s2"
    "data_buf (fil s2) = (data_buf (fil s1))[1 := cleaned (data_buf (fil s1) ! 1)]"
    using write_data_block_coherent [OF s1(2), of 1 p] assms(2,3) f1 by auto
  note f2 = only_caches_fields [OF s2(3)]
  obtain s3 where s3: "write_data_block io 2 s2 = Inr (Some (), s3)" "ok_with D s3" "only_caches cap s2 s3"
    "data_buf (fil s3) = (data_buf (fil s2))[2 := cleaned (data_buf (fil s2) ! 2)]"
    using write_data_block_coherent [OF s2(2), of 2 p] assms(2,3) f1 f2 by auto
  note f3 = only_caches_fields [OF s3(3)]
  obtain s4 where s4: "write_data_block io 3 s3 = Inr (Some (), s4)" "ok_with D s4" "only_caches cap s3 s4"
    "data_buf (fil s4) = (data_buf (fil s3))[3 := cleaned (data_buf (fil s3) ! 3)]"
    using write_data_block_coherent [OF s3(2), of 3 p] assms(2,3) f1 f2 f3 by auto
  have oc: "only_caches cap s s4"
    using only_caches_trans [OF only_caches_trans [OF s1(3) s2(3)] only_caches_trans [OF s3(3) s4(3)]] .
  have l: "length (data_buf (fil s)) = 4" using assms(1) by (simp add: fs_coherent_def)
  have "\<not> dirty (data_buf (fil s4) ! i)" if "i < 4" for i
  proof -
    have "i = 0 \<or> i = 1 \<or> i = 2 \<or> i = 3" using that by auto
    then have "data_buf (fil s4) ! i = cleaned (data_buf (fil s) ! i)" unfolding s4(4) s3(4) s2(4) s1(4) using l by auto
    then show ?thesis using cleaned_clean [of "data_buf (fil s) ! i"] by (auto simp: dirty_def)
  qed
  then have "sec (fdev s4) = D" using s4(2) by (auto simp: fs_coherent_def coherent_def)
  moreover have "each (write_data_block io) [0, 1, 2, 3] s = Inr (Some (), s4)"
    using s1(1) s2(1) s3(1) s4(1) by (simp add: each_def fbind_def)
  ultimately show ?thesis using s4(2) oc by blast
qed

text \<open>Writing, moving back and reading.\<close>

lemma write_seek_read:
  assumes "ok_with D s" "is_file cap D s cs xs" "unat (loc (fil s)) \<le> length xs"
    and "unat (loc (fil s)) + unat count \<le> length cs * unat (cluster_bytes s)" "unat (loc (fil s)) + unat count < 4294967296"
    and "unat count \<le> length (ubuf s)" "length (ubuf s) < 4294967296" "unat count \<le> length buf" "length buf < 4294967296"
  shows "\<exists>s1 s2 s3. fs_write io count s = Inr (Some count, s1) \<and> fs_lseek (loc (fil s)) s1 = Inr (Some (), s2)
    \<and> fs_read io count (s2\<lparr>ubuf := buf\<rparr>) = Inr (Some count, s3) \<and> ubuf s3 = take (unat count) (ubuf s) @ drop (unat count) buf"
proof -
  let ?l = "loc (fil s)" and ?m = "unat count"
  let ?w = "take ?m (ubuf s)"
  let ?ys = "overwrite xs (unat ?l) ?w"
  obtain D' s1 where s1: "fs_write io count s = Inr (Some count, s1)" "ok_with D' s1" "is_file cap D' s1 cs ?ys" "loc (fil s1) = ?l + count"
    using fs_write_coherent [OF assms(1-7)] by blast
  have lw: "length ?w = ?m" using assms(6) by simp
  have ly: "length ?ys = max (length xs) (unat ?l + ?m)" using assms(3) lw by (simp add: overwrite_def)
  obtain p :: nat and sz where sz: "entry_size (entry (fil s1)) = Inr sz" "unat sz = length ?ys" using is_fileE [OF s1(3)] .
  have "unat ?l \<le> unat sz" using sz(2) ly assms(3) by simp
  then have "(if ?l < sz then ?l else sz) = ?l" by (auto simp: word_less_nat_alt word_unat_eq_iff)
  then have sk: "fs_lseek ?l s1 = Inr (Some (), s1\<lparr>fil := (fil s1)\<lparr>loc := ?l\<rparr>\<rparr>)"
    using sz(1) by (simp add: fs_lseek_def fbind_def upd_file_def)
  let ?s2 = "s1\<lparr>fil := (fil s1)\<lparr>loc := ?l\<rparr>, ubuf := buf\<rparr>"
  have ok: "ok_with D' ?s2" using s1(2) by simp
  have fl: "is_file cap D' ?s2 cs ?ys" using is_file_cong [of cap ?s2 s1 D'] s1(3) by simp
  have m: "?m = min ?m (length ?ys - unat (loc (fil ?s2)))" using ly by simp
  have "unat (loc (fil ?s2)) \<le> length ?ys" "unat (loc (fil ?s2)) + ?m < 4294967296" "?m \<le> length (ubuf ?s2)" "length (ubuf ?s2) < 4294967296"
    using ly assms(3,5,8,9) by simp_all
  from read_result [OF ok fl this m] obtain s3 where s3: "fs_read io count ?s2 = Inr (Some (of_nat ?m), s3)"
    "ubuf s3 = take ?m (drop (unat ?l) ?ys) @ drop ?m buf" by auto
  have "take ?m (drop (unat ?l) ?ys) = ?w" using assms(3) lw by (simp add: overwrite_def)
  then show ?thesis using s1(1) sk s3 by auto
qed

lemma write_flush:
  assumes "ok_with D s" "is_file cap D s cs xs" "unat (loc (fil s)) \<le> length xs"
    and "unat (loc (fil s)) + unat count \<le> length cs * unat (cluster_bytes s)" "unat (loc (fil s)) + unat count < 4294967296"
    and "unat count \<le> length (ubuf s)" "length (ubuf s) < 4294967296"
  shows "\<exists>s1 s2. fs_write io count s = Inr (Some count, s1) \<and> each (write_data_block io) [0, 1, 2, 3] s1 = Inr (Some (), s2)
    \<and> is_file cap (sec (fdev s2)) s2 cs (overwrite xs (unat (loc (fil s))) (take (unat count) (ubuf s)))
    \<and> only_clusters (fat_info s) cs D (sec (fdev s2))"
proof -
  let ?ys = "overwrite xs (unat (loc (fil s))) (take (unat count) (ubuf s))"
  obtain D' s1 where s1: "fs_write io count s = Inr (Some count, s1)" "ok_with D' s1" "is_file cap D' s1 cs ?ys"
    "only_clusters (fat_info s) cs D D'"
    using fs_write_coherent [OF assms] by blast
  obtain p sz where p: "unat (cluster_sectors s1) = 2 ^ p" "p \<le> 3" "entry_size (entry (fil s1)) = Inr sz" using is_fileE [OF s1(3)] .
  obtain s2 where s2: "each (write_data_block io) [0, 1, 2, 3] s1 = Inr (Some (), s2)" "only_caches cap s1 s2" "sec (fdev s2) = D'"
    using flush_data [OF s1(2) p(1,2)] by blast
  have "is_file cap D' s2 cs ?ys" using is_file_cong [of cap s2 s1 D'] only_caches_fields [OF s2(2)] s1(3) by simp
  then show ?thesis using s1(1,4) s2 by auto
qed

end

section \<open>Properties\<close>

text \<open>
  C9. Writing refines replacing bytes of the file's contents: inside the clusters the file has, \<^verbatim>\<open>fs_write\<close>
  puts the bytes of the caller's buffer at the current position, over any number of clusters, makes the file
  longer when they reach behind its end, moves the position, and changes no sector outside the file's
  clusters. Some of the new bytes are only in the cache: the logical disk that the state is coherent with
  has them.
\<close>

theorem fs_write_contents:
  assumes "fs_coherent card_disk (\<lambda>d. capacity (dev d)) card_ok D s" "is_file (\<lambda>d. capacity (dev d)) D s cs xs"
    and "unat (loc (fil s)) \<le> length xs" "unat (loc (fil s)) + unat count \<le> length cs * unat (cluster_bytes s)"
    and "unat (loc (fil s)) + unat count < 4294967296" "unat count \<le> length (ubuf s)" "length (ubuf s) < 4294967296"
  shows "\<exists>D' s'. fs_write (sd_io card_hw) count s = Inr (Some count, s') \<and> fs_coherent card_disk (\<lambda>d. capacity (dev d)) card_ok D' s'
    \<and> only_clusters (fat_info s) cs D D'
    \<and> is_file (\<lambda>d. capacity (dev d)) D' s' cs (overwrite xs (unat (loc (fil s))) (take (unat count) (ubuf s)))
    \<and> loc (fil s') = loc (fil s) + count"
  using card_files.fs_write_coherent [OF assms] by blast

lemma read_fat_room:
  "unat (loc (fil read_fat)) \<le> length read_bytes"
  "unat (loc (fil read_fat)) + unat (20 :: u32) \<le> length [5, 7 :: u32] * unat (cluster_bytes read_fat)"
  "unat (loc (fil read_fat)) + unat (20 :: u32) < 4294967296"
  "unat (20 :: u32) \<le> length (ubuf read_fat)" "length (ubuf read_fat) < 4294967296"
  "unat (20 :: u32) \<le> length (replicate 30 (0 :: u8))" "length (replicate 30 (0 :: u8)) < 4294967296"
proof -
  have "unat (cluster_bytes read_fat) = 4096" by code_simp
  then show "unat (loc (fil read_fat)) + unat (20 :: u32) \<le> length [5, 7 :: u32] * unat (cluster_bytes read_fat)"
    by (simp add: read_fat_fields)
qed (simp_all add: read_fat_fields read_bytes_length(2))

theorem fs_write_contents_witness:
  "\<exists>D' s'. fs_write (sd_io card_hw) 20 read_fat = Inr (Some 20, s')
     \<and> is_file (\<lambda>d. capacity (dev d)) D' s' [5, 7] (overwrite read_bytes 4090 (replicate 20 9)) \<and> loc (fil s') = 4110"
  using fs_write_contents [OF read_fat_coherent read_fat_file read_fat_room(1-5)] unfolding read_fat_fields by fastforce

text \<open>
  C10. What \<^verbatim>\<open>fs_write\<close> wrote at a position is read back by \<^verbatim>\<open>fs_lseek\<close> to that position and \<^verbatim>\<open>fs_read\<close>,
  whatever of it has left the cache in between.
\<close>

theorem fs_write_read_back:
  assumes "fs_coherent card_disk (\<lambda>d. capacity (dev d)) card_ok D s" "is_file (\<lambda>d. capacity (dev d)) D s cs xs"
    and "unat (loc (fil s)) \<le> length xs" "unat (loc (fil s)) + unat count \<le> length cs * unat (cluster_bytes s)"
    and "unat (loc (fil s)) + unat count < 4294967296" "unat count \<le> length (ubuf s)" "length (ubuf s) < 4294967296"
    and "unat count \<le> length buf" "length buf < 4294967296"
  shows "\<exists>s1 s2 s3. fs_write (sd_io card_hw) count s = Inr (Some count, s1) \<and> fs_lseek (loc (fil s)) s1 = Inr (Some (), s2)
    \<and> fs_read (sd_io card_hw) count (s2\<lparr>ubuf := buf\<rparr>) = Inr (Some count, s3)
    \<and> ubuf s3 = take (unat count) (ubuf s) @ drop (unat count) buf"
  using assms by (rule card_files.write_seek_read)

theorem fs_write_read_back_witness:
  "\<exists>s1 s2 s3. fs_write (sd_io card_hw) 20 read_fat = Inr (Some 20, s1) \<and> fs_lseek 4090 s1 = Inr (Some (), s2)
    \<and> fs_read (sd_io card_hw) 20 (s2\<lparr>ubuf := replicate 30 0\<rparr>) = Inr (Some 20, s3) \<and> ubuf s3 = replicate 20 9 @ replicate 10 0"
  using fs_write_read_back [OF read_fat_coherent read_fat_file read_fat_room] unfolding read_fat_fields by fastforce

text \<open>
  C13. After a write, the loop over the file's blocks that ends \<^verbatim>\<open>fs_close\<close> leaves the new contents on the card
  itself: the sectors of the card hold the file, and outside the file's clusters they hold what was the
  logical disk before.
\<close>

theorem fs_write_reaches_card:
  assumes "fs_coherent card_disk (\<lambda>d. capacity (dev d)) card_ok D s" "is_file (\<lambda>d. capacity (dev d)) D s cs xs"
    and "unat (loc (fil s)) \<le> length xs" "unat (loc (fil s)) + unat count \<le> length cs * unat (cluster_bytes s)"
    and "unat (loc (fil s)) + unat count < 4294967296" "unat count \<le> length (ubuf s)" "length (ubuf s) < 4294967296"
  shows "\<exists>s1 s2. fs_write (sd_io card_hw) count s = Inr (Some count, s1)
    \<and> each (write_data_block (sd_io card_hw)) [0, 1, 2, 3] s1 = Inr (Some (), s2)
    \<and> is_file (\<lambda>d. capacity (dev d)) (card_disk (fdev s2)) s2 cs (overwrite xs (unat (loc (fil s))) (take (unat count) (ubuf s)))
    \<and> only_clusters (fat_info s) cs D (card_disk (fdev s2))"
  using assms by (rule card_files.write_flush)

theorem fs_write_reaches_card_witness:
  "\<exists>s1 s2. fs_write (sd_io card_hw) 20 read_fat = Inr (Some 20, s1)
    \<and> each (write_data_block (sd_io card_hw)) [0, 1, 2, 3] s1 = Inr (Some (), s2)
    \<and> is_file (\<lambda>d. capacity (dev d)) (card_disk (fdev s2)) s2 [5, 7] (overwrite read_bytes 4090 (replicate 20 9))"
  using fs_write_reaches_card [OF read_fat_coherent read_fat_file read_fat_room(1-5)] unfolding read_fat_fields by fastforce

end
