(* ===== verification/FatOpen.thy ===== *)
theory FatOpen
  imports FatRead FatDir
begin

text \<open>
  Opening a file by its name in the root directory, \<^verbatim>\<open>fs_open\<close>, and showing it, \<^verbatim>\<open>fs_cat\<close>: the entry
  found in the first sector of the directory leads to the contents that \<open>FatRead\<close> speaks of.
\<close>

section \<open>Directory entries\<close>

lemma cmp_bytes_spec: "n \<le> length f1 \<Longrightarrow> n \<le> length f2 \<Longrightarrow> cmp_bytes n f1 f2 = Inr (if take n f1 = take n f2 then 0 else 1)"
proof (induction n arbitrary: f1 f2)
  case (Suc n)
  then show ?case by (cases f1; cases f2) auto
qed simp

definition dir_slot :: "u8 list \<Rightarrow> nat \<Rightarrow> u8 list" where
  "dir_slot buf k = take 32 (drop (32 * k) buf)"

text \<open>An entry with the name that is no volume label and no part of a long name.\<close>

definition holds_name :: "u8 list \<Rightarrow> u8 list \<Rightarrow> bool" where
  "holds_name e nm \<longleftrightarrow> take 11 e = nm \<and> e ! 11 AND 8 = 0"

text \<open>Slot \<open>k\<close> of the sector is the first that holds the name, and the directory does not end before it.\<close>

definition slot_of :: "u8 list \<Rightarrow> u8 list \<Rightarrow> nat \<Rightarrow> bool" where
  "slot_of buf nm k \<longleftrightarrow> k < 16 \<and> holds_name (dir_slot buf k) nm
     \<and> (\<forall>j\<le>k. dir_slot buf j ! 0 \<noteq> 0) \<and> (\<forall>j<k. \<not> holds_name (dir_slot buf j) nm)"

lemma scan_sector_step:
  assumes "length buf = 512" "11 \<le> length name" "j < 16" "dir_slot buf j ! 0 \<noteq> 0"
  shows "scan_sector buf name (Suc n) (of_nat (32 * j))
    = (if holds_name (dir_slot buf j) (take 11 name) then Inr (FoundAt (of_nat (32 * j))) else scan_sector buf name n (of_nat (32 * Suc j)))"
proof -
  let ?i = "of_nat (32 * j) :: u32"
  have i: "unat ?i = 32 * j" "unat (?i + 11) = 32 * j + 11"
    using assms(3) by (simp_all add: unat_of_nat take_bit_nat_eq_self unat_add_no_wrap del: of_nat_mult)
  have s: "dir_slot buf j ! k = buf ! (32 * j + k)" if "k < 32" for k using that assms(1,3) by (simp add: dir_slot_def)
  have t: "take 11 (dir_slot buf j) = take 11 (drop (32 * j) buf)" by (simp add: dir_slot_def)
  have "fs_cmp_filename (drop (32 * j) buf) name = Inr (if take 11 (dir_slot buf j) = take 11 name then 0 else 1)"
    unfolding t fs_cmp_filename_def using assms(1-3) by (intro cmp_bytes_spec) simp_all
  moreover have "?i + 32 = of_nat (32 * Suc j)" by simp
  ultimately show ?thesis
    using i s [of 0] s [of 11] assms by (simp add: holds_name_def add.commute [of 32] del: of_nat_mult)
qed

lemma scan_sector_finds:
  assumes "length buf = 512" "11 \<le> length name" "slot_of buf (take 11 name) k" "j \<le> k"
  shows "scan_sector buf name (16 - j) (of_nat (32 * j)) = Inr (FoundAt (of_nat (32 * k)))"
  using assms(4)
proof (induction "k - j" arbitrary: j)
  case 0
  then have "j = k" "16 - k = Suc (15 - k)" using assms(3) by (auto simp: slot_of_def)
  then show ?case using scan_sector_step [OF assms(1,2), of k "15 - k"] assms(3) by (simp add: slot_of_def del: of_nat_mult)
next
  case (Suc m)
  have j: "16 - j = Suc (16 - Suc j)" using Suc.hyps(2) assms(3) by (auto simp: slot_of_def)
  have "j < k" using Suc.hyps(2) by simp
  then show ?case
    using scan_sector_step [OF assms(1,2), of j "16 - Suc j"] Suc.hyps(1) [of "Suc j"] Suc.hyps(2) assms(3) unfolding j
    by (simp add: slot_of_def del: of_nat_mult)
qed

lemma rfold_same: "(\<And>x. x \<in> set xs \<Longrightarrow> f x s = Inr s) \<Longrightarrow> rfold f xs s = Inr s"
  by (induction xs) simp_all

text \<open>Putting an entry back where it was changes nothing.\<close>

lemma put_same_entry:
  assumes "length buf = 512" "k < 16"
  shows "put_bytes buf (of_nat (32 * k)) (dir_slot buf k) = Inr buf"
  unfolding put_bytes_def
proof (rule rfold_same)
  fix i assume "i \<in> set [0..<length (dir_slot buf k)]"
  then have i: "i < 32" "dir_slot buf k ! i = buf ! (32 * k + i)" using assms by (simp_all add: dir_slot_def)
  have "(of_nat (32 * k) + of_nat i :: u32) = of_nat (32 * k + i)" by simp
  then have "unat (of_nat (32 * k) + of_nat i :: u32) = 32 * k + i"
    using i(1) assms(2) by (simp add: unat_of_nat take_bit_nat_eq_self del: of_nat_mult of_nat_add)
  then show "wr buf (of_nat (32 * k) + of_nat i) (dir_slot buf k ! i) = Inr buf" using i assms by (simp del: of_nat_mult)
qed

section \<open>Between two commands\<close>

text \<open>Nothing is waiting to be written: the caches hold contents of the disk.\<close>

definition idle :: "('d \<Rightarrow> u32 \<Rightarrow> u8 list) \<Rightarrow> ('d \<Rightarrow> u32) \<Rightarrow> ('d \<Rightarrow> bool) \<Rightarrow> 'd fat \<Rightarrow> bool" where
  "idle disk cap okd s \<longleftrightarrow> okd (fdev s) \<and> length (fat_buf s) = 2 \<and> fat_clock_head s < 2
     \<and> table_cache (disk (fdev s)) (data_start (fat_info s)) (fat_buf s)
     \<and> length (dir_data_buf s) = 4 \<and> dir_data_clock_head s < 4
     \<and> cache_ok (disk (fdev s)) (cap (fdev s)) (dir_data_buf s) \<and> all_clean (dir_data_buf s)"

definition file_shape :: "FILE \<Rightarrow> bool" where
  "file_shape f \<longleftrightarrow> length (data_buf f) = 4 \<and> (\<forall>b\<in>set (data_buf f). length (bdata b) = 4096)"

lemma idle_file [simp]: "idle disk cap okd (s\<lparr>fil := f\<rparr>) = idle disk cap okd s"
  "idle disk cap okd (s\<lparr>ubuf := x\<rparr>) = idle disk cap okd s" "idle disk cap okd (s\<lparr>filename11 := y\<rparr>) = idle disk cap okd s"
  by (simp_all add: idle_def)

lemma view_clean:
  assumes "cache_ok disk cap bufs" "all_clean bufs" "a \<noteq> 0xffffffff"
  shows "view disk bufs a = disk a"
proof (rule view_cases [of bufs a disk])
  show "unique_cur bufs" "a \<noteq> 0xffffffff" using assms(1,3) by (simp_all add: cache_ok_def)
  fix j assume "j < length bufs" "cur (bufs ! j) = a" "view disk bufs a = bdata (bufs ! j)"
  then show ?thesis using assms by (auto simp: cache_ok_def blk_ok_def all_clean_def)
qed

text \<open>
  The file \<^verbatim>\<open>/n.x\<close> has its entry in the first sector of the root directory and the contents \<open>xs\<close>
  in the clusters \<open>cs\<close>; \<open>garbage\<close> is what the caller's \<^verbatim>\<open>FILE\<close> holds before it is opened.
\<close>

definition root_sector :: "fs_info \<Rightarrow> u32" where
  "root_sector fi = fs_dataclus2sec fi 2 + base_addr fi"

definition root_file :: "('d \<Rightarrow> u32 \<Rightarrow> u8 list) \<Rightarrow> ('d \<Rightarrow> u32) \<Rightarrow> ('d \<Rightarrow> bool) \<Rightarrow> 'd fat \<Rightarrow> FILE \<Rightarrow> u8 list \<Rightarrow> u8 list \<Rightarrow> u32 list \<Rightarrow> u8 list \<Rightarrow> bool" where
  "root_file disk cap okd s garbage n x cs xs \<longleftrightarrow> (let D = disk (fdev s); fi = fat_info s; a = root_sector fi in
     idle disk cap okd s \<and> file_shape garbage \<and> short_name n x \<and> length (fat_fs_info fi) = 512
     \<and> a < cap (fdev s) \<and> unat (base_addr fi) + 8 \<le> unat a
     \<and> (\<exists>k. slot_of (D a) (entry_name n x) k \<and> is_file cap D (s\<lparr>fil := garbage\<lparr>entry := dir_slot (D a) k\<rparr>\<rparr>) cs xs))"

text \<open>The information sector and its copy, which every \<^verbatim>\<open>fs_close\<close> writes.\<close>

definition with_info :: "fs_info \<Rightarrow> (u32 \<Rightarrow> u8 list) \<Rightarrow> u32 \<Rightarrow> u8 list" where
  "with_info fi D = D(1 + base_addr fi := fat_fs_info fi, 7 + base_addr fi := fat_fs_info fi)"

locale path_device = file_device io sec cap okd + cached_device io sec cap okd
  for io :: "'d block_io" and sec :: "'d \<Rightarrow> u32 \<Rightarrow> u8 list" and cap :: "'d \<Rightarrow> u32" and okd :: "'d \<Rightarrow> bool"
begin

lemma read_dir_idle:
  assumes "idle sec cap okd s" "sector + base_addr (fat_info s) < cap (fdev s)"
  shows "\<exists>i s' db h d. read_dir io sector s = Inr (Some i, s') \<and> s' = s\<lparr>dir_data_buf := db, dir_data_clock_head := h, fdev := d\<rparr>
    \<and> idle sec cap okd s' \<and> sec d = sec (fdev s) \<and> cap d = cap (fdev s) \<and> unat i < 4
    \<and> cur (db ! unat i) = sector + base_addr (fat_info s) \<and> bdata (db ! unat i) = sec (fdev s) (sector + base_addr (fat_info s))"
proof -
  let ?a = "sector + base_addr (fat_info s)"
  have a: "?a \<noteq> 0xffffffff"
  proof
    assume "?a = 0xffffffff"
    then have "unat (0xffffffff :: u32) < unat (cap (fdev s))" using assms(2) by (simp only: word_less_nat_alt)
    then show False using unat_less_2p32 [of "cap (fdev s)"] by simp
  qed
  have s: "okd (fdev s)" "cache_ok (sec (fdev s)) (cap (fdev s)) (dir_data_buf s)" "dir_data_clock_head s < 4"
    "unat (4 :: u32) = length (dir_data_buf s)" "all_clean (dir_data_buf s)"
    using assms(1) by (simp_all add: idle_def)
  obtain i db h d where r: "fs_read_512 io (fat_info s) (dir_data_buf s) sector (dir_data_clock_head s) 4 (fdev s) = Inr (i, db, h, d)"
    "i < 4" "h < 4" "length db = length (dir_data_buf s)" "okd d" "cap d = cap (fdev s)" "cache_ok (sec d) (cap d) db"
    "cur (db ! unat i) = ?a" "bdata (db ! unat i) = view (sec (fdev s)) (dir_data_buf s) ?a" "sec d = sec (fdev s)" "all_clean db"
    using read_512 [OF s(1-4) assms(2)] s(5) by blast
  have "i \<noteq> 0xffffffff" "unat i < 4" using r(2) by (auto simp: word_less_nat_alt)
  then show ?thesis
    using r assms(1) view_clean [OF s(2,5) a]
    by (intro exI [of _ i] exI [of _ "s\<lparr>dir_data_buf := db, dir_data_clock_head := h, fdev := d\<rparr>"] exI [of _ db] exI [of _ h] exI [of _ d])
      (simp add: read_dir_def DIR_DATA_BUF_NUM_def idle_def)
qed

lemma find_root_entry:
  assumes "idle sec cap okd s" "short_name n e" "filename11 s = entry_name n e @ [0, old]" "unat i < 4" "cluster_sectors s \<noteq> 0"
    and "cur (dir_data_buf s ! unat i) = a" "bdata (dir_data_buf s ! unat i) = sec (fdev s) a" "slot_of (sec (fdev s) a) (entry_name n e) k"
  shows "fwhile (find_round io) (1, i) s = Inr (Some (), s\<lparr>fil := (fil s)\<lparr>dir_entry_pos := of_nat (32 * k),
      dir_entry_sector := a - base_addr (fat_info s), entry := dir_slot (sec (fdev s) a) k\<rparr>\<rparr>)"
proof -
  have nm: "length (entry_name n e) = 11" using assms(2) by (simp add: short_name_def entry_name_def)
  have k: "k < 16" "unat (of_nat (32 * k) :: u32) = 32 * k"
    using assms(8) by (simp_all add: slot_of_def unat_of_nat take_bit_nat_eq_self del: of_nat_mult)
  have len: "length (sec (fdev s) a) = 512" using assms(1) sector_length by (simp add: idle_def)
  have ss: "scan_sector (sec (fdev s) a) (filename11 s) 16 0 = Inr (FoundAt (of_nat (32 * k)))"
    using scan_sector_finds [OF len, of "filename11 s" k 0] assms(3,8) nm by (simp del: of_nat_mult)
  have i: "unat i < length (dir_data_buf s)" using assms(1,4) by (simp add: idle_def)
  have "\<not> cluster_sectors s < 1" using assms(5) by (simp add: word_less_nat_alt word_unat_eq_iff)
  then show ?thesis
    using ss i len k assms(6,7)
    by (intro fwhile_done) (simp add: find_round_def dir_block_def fbind_def found_entry_def upd_file_def dir_slot_def del: of_nat_mult)
qed

lemma fs_open_idle:
  assumes "idle sec cap okd s" "short_name n e" "cluster_sectors s \<noteq> 0"
    and a: "a = fs_dataclus2sec (fat_info s) 2 + base_addr (fat_info s)" "a < cap (fdev s)"
    and "slot_of (sec (fdev s) a) (entry_name n e) k"
  shows "\<exists>s'. fs_open io (47 # n @ 46 # e) s = Inr (Some (), s') \<and> idle sec cap okd s' \<and> sec (fdev s') = sec (fdev s)
    \<and> cap (fdev s') = cap (fdev s) \<and> fat_info s' = fat_info s \<and> ubuf s' = ubuf s
    \<and> data_buf (fil s') = map fresh_buf (data_buf (fil s)) \<and> file_clock (fil s') = 0 \<and> loc (fil s') = 0
    \<and> dir_entry_pos (fil s') = of_nat (32 * k) \<and> dir_entry_sector (fil s') = fs_dataclus2sec (fat_info s) 2
    \<and> entry (fil s') = dir_slot (sec (fdev s) a) k"
proof -
  have len: "length n \<le> 8" "length e \<le> 3" using assms(2) by (simp_all add: short_name_def)
  define m where "m = 253 - length n - length e"
  let ?name = "47 # n @ 46 # e"
  let ?f = "n @ 46 # e @ 0 # replicate m 0"
  have p: "take 256 ?name @ replicate (256 - length ?name) 0 = 47 # ?f"
  proof -
    have "256 - length ?name = Suc m" using len by (simp add: m_def)
    moreover have "take 256 ?name = ?name" using len by simp
    ultimately show ?thesis by simp
  qed
  let ?fl = "(fil s)\<lparr>data_buf := map fresh_buf (data_buf (fil s)), file_clock := 0, path := 47 # ?f, loc := 0\<rparr>"
  let ?s1 = "s\<lparr>fil := ?fl\<rparr>"
  have s1: "idle sec cap okd ?s1" "fs_dataclus2sec (fat_info ?s1) 2 + base_addr (fat_info ?s1) < cap (fdev ?s1)" using assms(1) a by simp_all
  obtain i s2 db h d where s2: "read_dir io (fs_dataclus2sec (fat_info s) 2) ?s1 = Inr (Some i, s2)"
    "s2 = ?s1\<lparr>dir_data_buf := db, dir_data_clock_head := h, fdev := d\<rparr>" "idle sec cap okd s2" "sec d = sec (fdev s)" "cap d = cap (fdev s)"
    "unat i < 4" "cur (db ! unat i) = a" "bdata (db ! unat i) = sec (fdev s) a"
    using read_dir_idle [OF s1] a(1) by auto
  let ?s3 = "s2\<lparr>fil := (fil s2)\<lparr>dir_entry_pos := 0xFFFFFFFF\<rparr>\<rparr>"
  have nx: "fs_next_slash ?f (filename11 s2 ! 12) = Inr (length n + 1 + length e, entry_name n e @ [0, filename11 s2 ! 12])"
    using fs_next_slash_short [OF assms(2), of 0] by simp
  let ?s4 = "?s3\<lparr>filename11 := entry_name n e @ [0, filename11 s2 ! 12]\<rparr>"
  let ?s5 = "?s4\<lparr>fil := (fil ?s4)\<lparr>dir_entry_pos := of_nat (32 * k), dir_entry_sector := a - base_addr (fat_info s), entry := dir_slot (sec (fdev s) a) k\<rparr>\<rparr>"
  have f2: "fdev s2 = d" "dir_data_buf s2 = db" "fat_info s2 = fat_info s" "ubuf s2 = ubuf s" "fil s2 = ?fl" unfolding s2(2) by simp_all
  have w: "fwhile (find_round io) (1, i) ?s4 = Inr (Some (), ?s5)"
    using find_root_entry [of ?s4 n e "filename11 s2 ! 12" i a k] s2(3-8) assms(2,3,6) f2
    by (simp add: cluster_sectors_def del: of_nat_mult)
  have k: "k < 16" using assms(6) by (simp add: slot_of_def)
  have pos: "(of_nat (32 * k) :: u32) \<noteq> 0xFFFFFFFF"
  proof
    assume "(of_nat (32 * k) :: u32) = 0xFFFFFFFF"
    then have "unat (of_nat (32 * k) :: u32) = unat (0xFFFFFFFF :: u32)" by (simp only:)
    then show False using k by (simp add: unat_of_nat take_bit_nat_eq_self del: of_nat_mult)
  qed
  have z: "?f ! (length n + 1 + length e) = 0" by (simp add: nth_append)
  have c: "component_round io (?f, i) s2 = Inr (Some (Inl ()), ?s5)"
    using nx w pos z by (simp add: component_round_def fbind_def upd_file_def next_component_def del: of_nat_mult)
  have "fs_find io ?s1 = Inr (Some (), ?s5)"
    using s2(1) fwhile_done [of "component_round io", OF c] by (simp add: fs_find_def read_dir_cluster_def fbind_def)
  then have "fs_open io ?name s = Inr (Some (), ?s5)"
    unfolding fs_open_def p using pos by (simp add: fbind_def upd_file_def del: of_nat_mult)
  then show ?thesis using s2(3-5) f2 a(1) by (intro exI [of _ ?s5]) (simp del: of_nat_mult)
qed

text \<open>An opened file is coherent with the disk, and stays so while it is read.\<close>

lemma coherent_fresh:
  assumes "\<And>b. b \<in> set bufs \<Longrightarrow> length (bdata b) = 4096"
  shows "coherent D D lo capv n (map fresh_buf bufs)"
  using assms by (auto simp: coherent_def holds_area_def unique_cur_def fresh_buf_def)

lemma opened_coherent:
  assumes "idle sec cap okd s" "file_shape f" "data_buf (fil s) = map fresh_buf (data_buf f)" "file_clock (fil s) = 0"
  shows "ok_with (sec (fdev s)) s" "all_clean (data_buf (fil s))"
proof -
  show "ok_with (sec (fdev s)) s"
    using assms coherent_fresh [of "data_buf f"] sector_length unfolding fs_coherent_def idle_def file_shape_def by auto
  show "all_clean (data_buf (fil s))" using assms(3) by (auto simp: all_clean_def fresh_buf_def)
qed

lemma clean_disk:
  assumes "ok_with D s" "all_clean (data_buf (fil s))"
  shows "sec (fdev s) = D"
proof -
  have "\<not> dirty (data_buf (fil s) ! i)" if "i < length (data_buf (fil s))" for i
    using assms(2) that by (auto simp: all_clean_def dirty_def)
  then show ?thesis using assms(1) by (auto simp: fs_coherent_def coherent_def)
qed

lemma idle_reads:
  assumes "idle sec cap okd s" "ok_with (sec (fdev s)) s" "all_clean (data_buf (fil s))" "reads_only cap (s\<lparr>ubuf := x\<rparr>) s'" "ok_with (sec (fdev s)) s'"
  shows "idle sec cap okd s'" "sec (fdev s') = sec (fdev s)" "all_clean (data_buf (fil s'))"
    "dir_entry_pos (fil s') = dir_entry_pos (fil s)" "dir_entry_sector (fil s') = dir_entry_sector (fil s)" "entry (fil s') = entry (fil s)"
    "fat_info s' = fat_info s" "cap (fdev s') = cap (fdev s)" "ubuf s' = x"
proof -
  show c: "all_clean (data_buf (fil s'))" using reads_only_clean [OF assms(4)] assms(3) by simp
  show d: "sec (fdev s') = sec (fdev s)" using clean_disk [OF assms(5) c] .
  have f: "dir_data_buf s' = dir_data_buf s" "dir_data_clock_head s' = dir_data_clock_head s" "fat_info s' = fat_info s"
    "cap (fdev s') = cap (fdev s)" "dir_entry_pos (fil s') = dir_entry_pos (fil s)" "dir_entry_sector (fil s') = dir_entry_sector (fil s)"
    "entry (fil s') = entry (fil s)" "ubuf s' = x"
    using reads_only_caches [OF assms(4)] by (auto simp: only_caches_def)
  then show "dir_entry_pos (fil s') = dir_entry_pos (fil s)" "dir_entry_sector (fil s') = dir_entry_sector (fil s)" "entry (fil s') = entry (fil s)"
    "fat_info s' = fat_info s" "cap (fdev s') = cap (fdev s)" "ubuf s' = x" by simp_all
  have "okd (fdev s')" "length (fat_buf s') = 2" "fat_clock_head s' < 2" "table_cache (sec (fdev s)) (data_start (fat_info s)) (fat_buf s')"
    using assms(5) f(3) by (simp_all add: fs_coherent_def)
  then show "idle sec cap okd s'" using assms(1) d f by (simp add: idle_def)
qed

section \<open>Closing a file that was only read\<close>

lemma write_fat_clean:
  assumes "all_clean (fat_buf s)" "unat j < length (fat_buf s)"
  shows "write_fat_sector io j s = Inr (Some (), s)"
  using assms by (simp add: write_fat_sector_def fbind_def all_clean_def)

lemma write_data_clean:
  assumes "all_clean (data_buf (fil s))" "unat j < length (data_buf (fil s))"
  shows "write_data_block io j s = Inr (Some (), s)"
proof -
  have "state (data_buf (fil s) ! unat j) AND 2 = 0" using assms by (simp add: all_clean_def)
  then show ?thesis using assms(2) by (simp add: write_data_block_def fs_write_4k_def fs_write_buf_def fbind_def upd_file_def)
qed

text \<open>Blocks of directories that are clean or hold what the disk has.\<close>

definition dirs_agree :: "'d fat \<Rightarrow> bool" where
  "dirs_agree s \<longleftrightarrow> okd (fdev s) \<and> length (dir_data_buf s) = 4 \<and> (\<forall>b\<in>set (dir_data_buf s). length (bdata b) = 512
     \<and> (cur b \<noteq> 0xffffffff \<longrightarrow> cur b < cap (fdev s)) \<and> (state b AND 2 = 0 \<or> bdata b = sec (fdev s) (cur b)))"

lemma write_dir_agrees:
  assumes "dirs_agree s" "unat j < 4"
  shows "\<exists>s' db d. write_dir_block io j s = Inr (Some (), s') \<and> s' = s\<lparr>dir_data_buf := db, fdev := d\<rparr> \<and> dirs_agree s'
    \<and> sec d = sec (fdev s) \<and> cap d = cap (fdev s)"
proof -
  let ?b = "dir_data_buf s ! unat j"
  have j: "unat j < length (dir_data_buf s)" using assms by (simp add: dirs_agree_def)
  then have b: "okd (fdev s)" "length (bdata ?b) = 512" "cur ?b \<noteq> 0xffffffff \<longrightarrow> cur ?b < cap (fdev s)"
    "state ?b AND 2 = 0 \<or> bdata ?b = sec (fdev s) (cur ?b)" using assms(1) by (simp_all add: dirs_agree_def)
  have k: "blk_ok (\<lambda>a. bdata ?b) (cap (fdev s)) ?b" using b(2,3) by (simp add: blk_ok_def)
  obtain d where d: "fs_write_512 io ?b (fdev s) = Inr (0, cleaned ?b, d)" "okd d" "cap d = cap (fdev s)" "sec d = write_back (sec (fdev s)) ?b"
    using write_512 [OF b(1) k] by blast
  have e: "sec d = sec (fdev s)" using d(4) b(4) by (auto simp: write_back_def)
  let ?s = "s\<lparr>dir_data_buf := (dir_data_buf s)[unat j := cleaned ?b], fdev := d\<rparr>"
  have "write_dir_block io j s = Inr (Some (), ?s)"
    using j d(1) by (simp add: write_dir_block_def dir_block_def set_dir_block_def fbind_def)
  moreover have "length (bdata (cleaned ?b)) = 512 \<and> (cur (cleaned ?b) \<noteq> 0xffffffff \<longrightarrow> cur (cleaned ?b) < cap d)
      \<and> (state (cleaned ?b) AND 2 = 0 \<or> bdata (cleaned ?b) = sec d (cur (cleaned ?b)))"
    using b e d(3) by (auto simp: cleaned_def)
  then have "dirs_agree ?s"
    using assms(1) d(2,3) e set_update_subset_insert [of "dir_data_buf s" "unat j" "cleaned ?b"] by (auto simp: dirs_agree_def)
  ultimately show ?thesis using e d(3) by blast
qed

lemma dev_write_sector:
  assumes "okd (fdev s)" "length buf = 512" "a < cap (fdev s)"
  shows "\<exists>d. fs_dev_write io buf a 1 s = Inr (Some (), s\<lparr>fdev := d\<rparr>) \<and> okd d \<and> cap d = cap (fdev s) \<and> sec d = (sec (fdev s))(a := buf)"
  using write1 [OF assms(1,2), of a] assms(3) by (auto simp: fs_dev_write_def)

lemma write_dirs_agree:
  assumes "dirs_agree s"
  shows "\<exists>s' db d. each (write_dir_block io) [0, 1, 2, 3] s = Inr (Some (), s') \<and> s' = s\<lparr>dir_data_buf := db, fdev := d\<rparr>
    \<and> okd d \<and> sec d = sec (fdev s) \<and> cap d = cap (fdev s)"
proof -
  have u: "unat (0 :: u32) < 4" "unat (1 :: u32) < 4" "unat (2 :: u32) < 4" "unat (3 :: u32) < 4" by simp_all
  obtain s1 b1 d1 where s1: "write_dir_block io 0 s = Inr (Some (), s1)" "s1 = s\<lparr>dir_data_buf := b1, fdev := d1\<rparr>" "dirs_agree s1"
    "sec d1 = sec (fdev s)" "cap d1 = cap (fdev s)" using write_dir_agrees [OF assms u(1)] by blast
  obtain s2 b2 d2 where s2: "write_dir_block io 1 s1 = Inr (Some (), s2)" "s2 = s1\<lparr>dir_data_buf := b2, fdev := d2\<rparr>" "dirs_agree s2"
    "sec d2 = sec (fdev s1)" "cap d2 = cap (fdev s1)" using write_dir_agrees [OF s1(3) u(2)] by blast
  obtain s3 b3 d3 where s3: "write_dir_block io 2 s2 = Inr (Some (), s3)" "s3 = s2\<lparr>dir_data_buf := b3, fdev := d3\<rparr>" "dirs_agree s3"
    "sec d3 = sec (fdev s2)" "cap d3 = cap (fdev s2)" using write_dir_agrees [OF s2(3) u(3)] by blast
  obtain s4 b4 d4 where s4: "write_dir_block io 3 s3 = Inr (Some (), s4)" "s4 = s3\<lparr>dir_data_buf := b4, fdev := d4\<rparr>" "dirs_agree s4"
    "sec d4 = sec (fdev s3)" "cap d4 = cap (fdev s3)" using write_dir_agrees [OF s3(3) u(4)] by blast
  have "s4 = s\<lparr>dir_data_buf := b4, fdev := d4\<rparr>" unfolding s4(2) s3(2) s2(2) s1(2) by simp
  moreover have "sec d4 = sec (fdev s)" "cap d4 = cap (fdev s)"
    using s4(4,5) s3(4,5) s2(4,5) s1(4,5) unfolding s3(2) s2(2) s1(2) by simp_all
  moreover have "okd d4" using s4(3) unfolding s4(2) by (simp add: dirs_agree_def)
  moreover have "each (write_dir_block io) [0, 1, 2, 3] s = Inr (Some (), s4)"
    using s1(1) s2(1) s3(1) s4(1) by (simp add: each_def fbind_def)
  ultimately show ?thesis by blast
qed

lemma fs_close_idle:
  assumes "idle sec cap okd s" "all_clean (data_buf (fil s))" "length (data_buf (fil s)) = 4" "length (fat_fs_info (fat_info s)) = 512"
    and a: "a = dir_entry_sector (fil s) + base_addr (fat_info s)" "a < cap (fdev s)" "unat (base_addr (fat_info s)) + 8 \<le> unat a"
    and e: "dir_entry_pos (fil s) = of_nat (32 * k)" "k < 16" "entry (fil s) = dir_slot (sec (fdev s) a) k"
  shows "\<exists>s'. fs_close io s = Inr (Some (), s') \<and> okd (fdev s') \<and> cap (fdev s') = cap (fdev s)
    \<and> sec (fdev s') = (sec (fdev s))(1 + base_addr (fat_info s) := fat_fs_info (fat_info s), 7 + base_addr (fat_info s) := fat_fs_info (fat_info s))"
proof -
  let ?base = "base_addr (fat_info s)" and ?info = "fat_fs_info (fat_info s)"
  have "unat ?base + 8 < 4294967296" using a(3) unat_less_2p32 [of a] by linarith
  then have ba: "unat (1 + ?base) = unat ?base + 1" "unat (7 + ?base) = unat ?base + 7" by (simp_all add: unat_add_no_wrap)
  have sec: "1 + ?base < cap (fdev s)" "7 + ?base < cap (fdev s)" "a \<noteq> 1 + ?base" "a \<noteq> 7 + ?base"
    using a(2,3) ba by (auto simp: word_less_nat_alt)
  obtain i s1 db h d where s1: "read_dir io (dir_entry_sector (fil s)) s = Inr (Some i, s1)"
    "s1 = s\<lparr>dir_data_buf := db, dir_data_clock_head := h, fdev := d\<rparr>"
    "idle sec cap okd s1" "sec d = sec (fdev s)" "cap d = cap (fdev s)" "unat i < 4" "cur (db ! unat i) = a" "bdata (db ! unat i) = sec (fdev s) a"
    using read_dir_idle [OF assms(1), of "dir_entry_sector (fil s)"] a by auto
  let ?b = "(db ! unat i)\<lparr>state := 3\<rparr>"
  have db: "length db = 4" "all_clean db" "cache_ok (sec (fdev s)) (cap (fdev s)) db" "okd d"
    using s1(3-5) unfolding s1(2) by (simp_all add: idle_def)
  have len: "length (sec (fdev s) a) = 512" using assms(1) sector_length by (simp add: idle_def)
  have p: "put_bytes (bdata (db ! unat i)) (dir_entry_pos (fil s)) (entry (fil s)) = Inr (bdata (db ! unat i))"
    unfolding e(1,3) s1(8) by (rule put_same_entry [OF len e(2)])
  let ?s2 = "s1\<lparr>dir_data_buf := db[unat i := ?b]\<rparr>"
  obtain d3 where d3: "fs_dev_write io ?info (1 + ?base) 1 ?s2 = Inr (Some (), ?s2\<lparr>fdev := d3\<rparr>)" "okd d3" "cap d3 = cap (fdev s)"
    "sec d3 = (sec (fdev s))(1 + ?base := ?info)"
    using dev_write_sector [of ?s2 ?info "1 + ?base"] db(4) assms(4) sec(1) s1(4,5) unfolding s1(2) by auto
  let ?s3 = "?s2\<lparr>fdev := d3\<rparr>"
  obtain d4 where d4: "fs_dev_write io ?info (7 + ?base) 1 ?s3 = Inr (Some (), ?s3\<lparr>fdev := d4\<rparr>)" "okd d4" "cap d4 = cap (fdev s)"
    "sec d4 = (sec (fdev s))(1 + ?base := ?info, 7 + ?base := ?info)"
    using dev_write_sector [of ?s3 ?info "7 + ?base"] d3 assms(4) sec(2) by auto
  let ?s4 = "?s3\<lparr>fdev := d4\<rparr>"
  have f4: "fat_buf ?s4 = fat_buf s" "fil ?s4 = fil s" "fat_info ?s4 = fat_info s" "dir_data_buf ?s4 = db[unat i := ?b]" "fdev ?s4 = d4"
    unfolding s1(2) by simp_all
  have fb: "all_clean (fat_buf ?s4)" "length (fat_buf ?s4) = 2"
    using assms(1) unfolding f4(1) by (simp_all add: idle_def table_cache_def all_clean_def)
  have "unat (0 :: u32) < length (fat_buf ?s4)" "unat (1 :: u32) < length (fat_buf ?s4)" unfolding fb(2) by simp_all
  then have "write_fat_sector io 0 ?s4 = Inr (Some (), ?s4)" "write_fat_sector io 1 ?s4 = Inr (Some (), ?s4)"
    using write_fat_clean [OF fb(1)] by blast+
  then have fat: "each (write_fat_sector io) [0, 1] ?s4 = Inr (Some (), ?s4)" by (simp add: each_def fbind_def)
  let ?P = "\<lambda>b. length (bdata b) = 512 \<and> (cur b \<noteq> 0xffffffff \<longrightarrow> cur b < cap d4) \<and> (state b AND 2 = 0 \<or> bdata b = sec d4 (cur b))"
  have old: "?P b" if "b \<in> set db" for b
    using db(2,3) that unfolding d4(3) cache_ok_def blk_ok_def all_clean_def by blast
  have "sec d4 a = sec (fdev s) a" using d4(4) sec(3,4) by simp
  then have new: "?P ?b"
    using s1(7,8) len a(2) d4(3) by simp
  have "dirs_agree ?s4"
    unfolding dirs_agree_def f4(4,5)
  proof (intro conjI)
    have "\<forall>b\<in>insert ?b (set db). ?P b" using old new by blast
    then show "\<forall>b\<in>set (db[unat i := ?b]). ?P b" using set_update_subset_insert [of db "unat i" ?b] by blast
  qed (use d4(2) db(1) in simp_all)
  then obtain s5 db5 d5 where s5: "each (write_dir_block io) [0, 1, 2, 3] ?s4 = Inr (Some (), s5)" "s5 = ?s4\<lparr>dir_data_buf := db5, fdev := d5\<rparr>"
    "okd d5" "sec d5 = sec d4" "cap d5 = cap d4"
    using write_dirs_agree [of ?s4] by auto
  have fi: "fat_info s1 = fat_info s" unfolding s1(2) by simp
  have flush: "fs_fflush io ?s2 = Inr (Some (), s5)"
    using d3(1) d4(1) fat s5(1) fi by (simp add: fs_fflush_def fbind_def)
  have f5: "data_buf (fil s5) = data_buf (fil s)" unfolding s5(2) s1(2) by simp
  have data: "each (write_data_block io) [0, 1, 2, 3] s5 = Inr (Some (), s5)"
  proof -
    have c: "all_clean (data_buf (fil s5))" using assms(2) f5 by simp
    have "unat (0 :: u32) < length (data_buf (fil s5))" "unat (1 :: u32) < length (data_buf (fil s5))"
      "unat (2 :: u32) < length (data_buf (fil s5))" "unat (3 :: u32) < length (data_buf (fil s5))" unfolding f5 assms(3) by simp_all
    then have "write_data_block io 0 s5 = Inr (Some (), s5)" "write_data_block io 1 s5 = Inr (Some (), s5)"
      "write_data_block io 2 s5 = Inr (Some (), s5)" "write_data_block io 3 s5 = Inr (Some (), s5)"
      using write_data_clean [OF c] by blast+
    then show ?thesis by (simp add: each_def fbind_def)
  qed
  have "fil s1 = fil s" "dir_data_buf s1 = db" unfolding s1(2) by simp_all
  moreover have "?b = (db ! unat i)\<lparr>bdata := bdata (db ! unat i), state := 3\<rparr>" by simp
  ultimately have "fs_close io s = Inr (Some (), s5)"
    using s1(1,6) db(1) p flush data by (simp add: fs_close_def fbind_def dir_block_def set_dir_block_def)
  moreover have "fdev s5 = d5" unfolding s5(2) by simp
  ultimately show ?thesis using s5(3-5) d4(3,4) by auto
qed

text \<open>Showing a file: opening, reading all of it into a buffer of its size, closing.\<close>

lemma open_root_file:
  assumes "root_file sec cap okd s garbage n x cs xs"
  shows "\<exists>s1 k. fs_open io (47 # n @ 46 # x) (s\<lparr>fil := garbage\<rparr>) = Inr (Some (), s1) \<and> idle sec cap okd s1 \<and> sec (fdev s1) = sec (fdev s)
    \<and> cap (fdev s1) = cap (fdev s) \<and> fat_info s1 = fat_info s \<and> ok_with (sec (fdev s)) s1 \<and> all_clean (data_buf (fil s1)) \<and> loc (fil s1) = 0
    \<and> k < 16 \<and> dir_entry_pos (fil s1) = of_nat (32 * k) \<and> dir_entry_sector (fil s1) = fs_dataclus2sec (fat_info s) 2
    \<and> entry (fil s1) = dir_slot (sec (fdev s) (root_sector (fat_info s))) k \<and> is_file cap (sec (fdev s)) s1 cs xs
    \<and> get_entry_filesize (entry (fil s1)) 0 = Inr (of_nat (length xs))"
proof -
  let ?s0 = "s\<lparr>fil := garbage\<rparr>" and ?D = "sec (fdev s)" and ?a = "root_sector (fat_info s)"
  obtain k where r: "idle sec cap okd s" "file_shape garbage" "short_name n x" "?a < cap (fdev s)"
    "slot_of (?D ?a) (entry_name n x) k" "is_file cap ?D (s\<lparr>fil := garbage\<lparr>entry := dir_slot (?D ?a) k\<rparr>\<rparr>) cs xs"
    using assms by (auto simp: root_file_def Let_def)
  have i0: "idle sec cap okd ?s0" using r(1) by simp
  have "cluster_sectors ?s0 \<noteq> 0" using r(6) by (auto simp: is_file_def cluster_sectors_def)
  then obtain s1 where s1: "fs_open io (47 # n @ 46 # x) ?s0 = Inr (Some (), s1)" "idle sec cap okd s1" "sec (fdev s1) = ?D"
    "cap (fdev s1) = cap (fdev s)" "fat_info s1 = fat_info s" "data_buf (fil s1) = map fresh_buf (data_buf garbage)" "file_clock (fil s1) = 0"
    "loc (fil s1) = 0" "dir_entry_pos (fil s1) = of_nat (32 * k)" "dir_entry_sector (fil s1) = fs_dataclus2sec (fat_info s) 2"
    "entry (fil s1) = dir_slot (?D ?a) k"
    using fs_open_idle [OF i0 r(3), of ?a k] r(4,5) by (auto simp: root_sector_def)
  have f: "is_file cap ?D s1 cs xs"
    using is_file_cong [of cap s1 "s\<lparr>fil := garbage\<lparr>entry := dir_slot (?D ?a) k\<rparr>\<rparr>" ?D] r(6) s1(4,5,11) by simp
  then have "get_entry_filesize (entry (fil s1)) 0 = Inr (of_nat (length xs))"
    by (simp add: is_file_def get_entry_filesize_def entry_size_def)
  moreover have "k < 16" using r(5) by (simp add: slot_of_def)
  ultimately show ?thesis
    using s1(1-5,8-11) f opened_coherent [OF s1(2) r(2) s1(6,7), unfolded s1(3)] by (intro exI [of _ s1] exI [of _ k] conjI)
qed

lemma fs_cat_root_file:
  assumes fl: "root_file sec cap okd s garbage n x cs xs"
    and mal: "length xs + 1 < 4294967296" "length (kmalloc (of_nat (length xs) + 1)) = length xs + 1"
  shows "\<exists>s'. fs_cat io garbage kmalloc (47 # n @ 46 # x) s = Inr (Some (takeWhile (\<lambda>c. c \<noteq> 0) xs), s')
    \<and> okd (fdev s') \<and> cap (fdev s') = cap (fdev s) \<and> fil s' = fil s \<and> sec (fdev s') = with_info (fat_info s) (sec (fdev s))"
proof -
  let ?D = "sec (fdev s)" and ?len = "of_nat (length xs) :: u32" and ?a = "root_sector (fat_info s)"
  obtain s1 k where s1: "fs_open io (47 # n @ 46 # x) (s\<lparr>fil := garbage\<rparr>) = Inr (Some (), s1)" "idle sec cap okd s1" "sec (fdev s1) = ?D"
    "cap (fdev s1) = cap (fdev s)" "fat_info s1 = fat_info s" "ok_with ?D s1" "all_clean (data_buf (fil s1))" "loc (fil s1) = 0"
    "k < 16" "dir_entry_pos (fil s1) = of_nat (32 * k)" "dir_entry_sector (fil s1) = fs_dataclus2sec (fat_info s) 2"
    "entry (fil s1) = dir_slot (?D ?a) k" "is_file cap ?D s1 cs xs" "get_entry_filesize (entry (fil s1)) 0 = Inr ?len"
    using open_root_file [OF fl] by blast
  let ?K = "kmalloc (?len + 1)"
  let ?s1 = "s1\<lparr>ubuf := ?K\<rparr>"
  have f1: "is_file cap ?D ?s1 cs xs" using is_file_cong [of cap ?s1 s1 ?D] s1(13) by simp
  have l: "unat ?len = length xs" using mal(1) by (simp add: unat_of_nat take_bit_nat_eq_self)
  have ok1: "ok_with ?D ?s1" using s1(6) by simp
  have m: "length xs = min (unat ?len) (length xs - unat (loc (fil ?s1)))" using l s1(8) by simp
  have pre: "unat (loc (fil ?s1)) \<le> length xs" "unat (loc (fil ?s1)) + unat ?len < 4294967296" "unat ?len \<le> length (ubuf ?s1)"
    "length (ubuf ?s1) < 4294967296" using s1(8) l mal by simp_all
  let ?y = "overwrite ?K 0 xs"
  obtain s2 where s2: "fs_read io ?len ?s1 = Inr (Some ?len, s2\<lparr>fil := (fil s2)\<lparr>loc := ?len\<rparr>\<rparr>)" "ok_with ?D s2" "reads_only cap (s1\<lparr>ubuf := ?y\<rparr>) s2"
    using fs_read_coherent [OF ok1 f1 pre m] s1(8) by auto
  note r2 = idle_reads [OF s1(2) s1(6) [folded s1(3)] s1(7) s2(3) s2(2) [folded s1(3)]]
  let ?s2 = "s2\<lparr>fil := (fil s2)\<lparr>loc := ?len\<rparr>\<rparr>"
  have y: "?y = xs @ drop (length xs) ?K" by (simp add: overwrite_def)
  obtain g where "drop (length xs) ?K = [g]" using mal(2) by (cases "drop (length xs) ?K") (auto dest: arg_cong [of _ _ length])
  then have w: "wr (ubuf ?s2) ?len 0 = Inr (xs @ [0])" using r2(9) y l by simp
  have d2: "length (data_buf (fil ?s2)) = 4" using s2(2) by (simp add: fs_coherent_def)
  have i2: "idle sec cap okd ?s2" "all_clean (data_buf (fil ?s2))" "length (fat_fs_info (fat_info ?s2)) = 512"
    "?a = dir_entry_sector (fil ?s2) + base_addr (fat_info ?s2)" "?a < cap (fdev ?s2)" "unat (base_addr (fat_info ?s2)) + 8 \<le> unat ?a"
    "dir_entry_pos (fil ?s2) = of_nat (32 * k)" "entry (fil ?s2) = dir_slot (sec (fdev ?s2) ?a) k"
    using r2 s1(3-5,10-12) fl by (simp_all add: root_file_def Let_def root_sector_def del: of_nat_mult)
  obtain s3 where s3: "fs_close io ?s2 = Inr (Some (), s3)" "okd (fdev s3)" "cap (fdev s3) = cap (fdev ?s2)"
    "sec (fdev s3) = (sec (fdev ?s2))(1 + base_addr (fat_info ?s2) := fat_fs_info (fat_info ?s2), 7 + base_addr (fat_info ?s2) := fat_fs_info (fat_info ?s2))"
    using fs_close_idle [OF i2(1,2) d2 i2(3-7) s1(9) i2(8)] by blast
  have t: "takeWhile (\<lambda>c. c \<noteq> 0) (ys @ [0 :: u8]) = takeWhile (\<lambda>c. c \<noteq> 0) ys" for ys by (induction ys) auto
  have "fs_cat io garbage kmalloc (47 # n @ 46 # x) s = Inr (Some (takeWhile (\<lambda>c. c \<noteq> 0) xs), s3\<lparr>fil := fil s\<rparr>)"
    using s1(1,14) s2(1) w s3(1) by (simp add: fs_cat_def with_file_def fbind_def ftry_def t)
  then show ?thesis using s3(2-4) r2(2,7,8) s1(3-5) by (intro exI [of _ "s3\<lparr>fil := fil s\<rparr>"]) (simp add: with_info_def)
qed

end

interpretation card_paths: path_device "sd_io card_hw" card_disk "\<lambda>s. capacity (dev s)" card_ok
  by unfold_locales

section \<open>Properties\<close>

text \<open>
  C11. \<^verbatim>\<open>cat\<close> shows the file. With nothing waiting in the caches, a short name with an entry in the first
  sector of the root directory, and the contents of that file on the card, \<^verbatim>\<open>fs_cat\<close> opens it by its path,
  allocates a buffer of its size, reads every cluster of its chain and prints the contents up to the first
  zero byte. Closing the file writes its entry back as it was and the information sector with its copy; no
  other sector of the card changes.
\<close>

theorem fs_cat_shows_file:
  assumes "root_file card_disk (\<lambda>d. capacity (dev d)) card_ok s garbage n x cs xs"
    and "length xs + 1 < 4294967296" "length (kmalloc (of_nat (length xs) + 1)) = length xs + 1"
  shows "\<exists>s'. fs_cat (sd_io card_hw) garbage kmalloc (47 # n @ 46 # x) s = Inr (Some (takeWhile (\<lambda>c. c \<noteq> 0) xs), s')
    \<and> card_ok (fdev s') \<and> capacity (dev (fdev s')) = capacity (dev (fdev s)) \<and> fil s' = fil s
    \<and> card_disk (fdev s') = with_info (fat_info s) (card_disk (fdev s))"
  using assms by (rule card_paths.fs_cat_root_file)

lemma read_fat_idle: "idle card_disk (\<lambda>d. capacity (dev d)) card_ok read_fat"
proof -
  have "cache_ok D c (replicate 4 \<lparr>bdata = replicate 512 0, cur = 0xffffffff, state = 0\<rparr>)" for D c
    by (simp add: cache_ok_def blk_ok_def unique_cur_def)
  then show ?thesis
    using read_card_ok by (simp add: idle_def table_cache_def all_clean_def read_fat_def Let_def)
qed

definition small_entry :: "u8 list" where
  "small_entry = [71, 32, 32, 32, 32, 32, 32, 32, 84, 32, 32, 32] @ replicate 14 0 @ [5, 0] @ u32_bytes 200"

lemma read_card_root:
  shows "dir_slot (card_disk read_card 3174) 0 = read_entry" "dir_slot (card_disk read_card 3174) 1 = small_entry"
    "slot_of (card_disk read_card 3174) (entry_name [102] [116]) 0" "slot_of (card_disk read_card 3174) (entry_name [103] [116]) 1"
proof -
  have "card_disk read_card 3174 = concat (map u32_bytes [0x20202046, 0x20202020, 0x20202054, 0, 0, 0, 0x50000, 5000])
      @ concat (map u32_bytes [0x20202047, 0x20202020, 0x20202054, 0, 0, 0, 0x50000, 200]) @ sector_bytes (replicate 112 0)"
    by (simp add: card_disk_def sector_bytes_def read_card_def)
  moreover have "concat (map u32_bytes [0x20202046, 0x20202020, 0x20202054, 0, 0, 0, 0x50000, 5000]) = read_entry"
    "concat (map u32_bytes [0x20202047, 0x20202020, 0x20202054, 0, 0, 0, 0x50000, 200]) = small_entry" by code_simp+
  ultimately have "card_disk read_card 3174 = read_entry @ small_entry @ sector_bytes (replicate 112 0)" by (simp only:)
  moreover have "length read_entry = 32" "length small_entry = 32" by code_simp+
  ultimately show e: "dir_slot (card_disk read_card 3174) 0 = read_entry" "dir_slot (card_disk read_card 3174) 1 = small_entry"
    by (simp_all add: dir_slot_def)
  have "take 11 read_entry = entry_name [102] [116]" "read_entry ! 11 AND 8 = 0" "read_entry ! 0 \<noteq> 0"
    "take 11 small_entry = entry_name [103] [116]" "small_entry ! 11 AND 8 = 0" "small_entry ! 0 \<noteq> 0"
    "entry_name [102] [116] \<noteq> entry_name [103] [116]" by code_simp+
  then show "slot_of (card_disk read_card 3174) (entry_name [102] [116]) 0" "slot_of (card_disk read_card 3174) (entry_name [103] [116]) 1"
    unfolding slot_of_def holds_name_def by (simp_all add: e le_Suc_eq e [unfolded One_nat_def])
qed

lemma read_root_file: "root_file card_disk (\<lambda>d. capacity (dev d)) card_ok read_fat (fil read_fat) [102] [116] [5, 7] read_bytes"
proof -
  have shape: "file_shape (fil read_fat)" "entry (fil read_fat) = read_entry" by (simp_all add: file_shape_def read_fat_def Let_def)
  have fi: "length (fat_fs_info demo_fs) = 512" "root_sector demo_fs = 3174" "base_addr demo_fs = 2048" by code_simp+
  have same: "read_fat\<lparr>fil := (fil read_fat)\<lparr>entry := read_entry\<rparr>\<rparr> = read_fat" using shape(2) by simp
  have nm: "short_name [102] [116]" by (simp add: short_name_def plain_def)
  show ?thesis
    unfolding root_file_def Let_def read_fat_fields fi using read_fat_idle shape nm fi read_card_root read_fat_file
    by (auto intro!: exI [of _ 0] simp: same)
qed

theorem fs_cat_shows_file_witness:
  "\<exists>s'. fs_cat (sd_io card_hw) (fil read_fat) (\<lambda>n. replicate (unat n) 7) [47, 102, 46, 116] read_fat
     = Inr (Some (takeWhile (\<lambda>c. c \<noteq> 0) read_bytes), s') \<and> card_disk (fdev s') 2080 = card_disk read_card 2080"
proof -
  have b: "base_addr demo_fs = 2048" by code_simp
  have "(of_nat (length read_bytes) + 1 :: u32) = 5001" by (simp add: read_bytes_length(2))
  then show ?thesis
    using fs_cat_shows_file [OF read_root_file, of "\<lambda>n. replicate (unat n) 7"] b unfolding read_fat_fields
    by (fastforce simp: read_bytes_length(2) with_info_def)
qed

end
