(* ===== verification/FileTree.thy ===== *)
theory FileTree
  imports Prelude
begin

text \<open>
  The tree of names kept in memory, \<^verbatim>\<open>kernel/fs/tree/tree.c\<close>: nodes on the kernel heap linked by
  pointers, 0 being \<^verbatim>\<open>NULL\<close>. A node that was never allocated, or was freed, cannot be reached:
  a fault. A name is the bytes from its pointer on. What is printed is a list of names.
\<close>

record filetree =
  node_name :: "u8 list"
  child :: u32
  parent :: u32
  next_node :: u32
  before :: u32

type_synonym nodes = "u32 \<Rightarrow> filetree option"

definition node_at :: "nodes \<Rightarrow> u32 \<Rightarrow> filetree res" where
  "node_at ns p = (case ns p of None \<Rightarrow> Inl Fault | Some n \<Rightarrow> Inr n)"

definition upd_node :: "u32 \<Rightarrow> (filetree \<Rightarrow> filetree) \<Rightarrow> nodes \<Rightarrow> nodes res" where
  "upd_node p f ns = rbind (node_at ns p) (\<lambda>n. Inr (ns(p \<mapsto> f n)))"

text \<open>\<open>p\<close> is the address \<^verbatim>\<open>kmalloc\<close> returns. The result is the store; the address is also the root.\<close>

definition init_filetree :: "u32 \<Rightarrow> nodes \<Rightarrow> nodes" where
  "init_filetree p ns = ns(p \<mapsto> \<lparr>node_name = 47 # replicate 255 0, child = 0, parent = 0, next_node = 0, before = 0\<rparr>)"

text \<open>\<^verbatim>\<open>do ... while\<close>: the first byte is copied whatever it is; \<open>n\<close> bytes may still follow.\<close>

primrec copy_rest :: "nat \<Rightarrow> u8 list \<Rightarrow> u8 list res" where
  "copy_rest 0 name = Inr []"
| "copy_rest (Suc n) name = rbind (rd name 0) (\<lambda>c.
     if c = 0 then Inr [] else rbind (copy_rest n (tl name)) (\<lambda>cs. Inr (c # cs)))"

definition init_treenode :: "u32 \<Rightarrow> u8 list \<Rightarrow> nodes \<Rightarrow> nodes res" where
  "init_treenode p name ns =
     rbind (rd name 0) (\<lambda>c. rbind (copy_rest 255 (tl name)) (\<lambda>cs.
       Inr (ns(p \<mapsto> \<lparr>node_name = (c # cs) @ replicate (255 - length cs) 0,
                      child = 0, parent = 0, next_node = 0, before = 0\<rparr>))))"

definition c_text :: "u8 list \<Rightarrow> u8 list" where "c_text s = takeWhile (\<lambda>c. c \<noteq> 0) s"

text \<open>The loop tests the parent's child, which it never changes, and walks on from the last node.\<close>

partial_function (option) output_loop :: "nodes \<Rightarrow> u32 \<Rightarrow> u32 \<Rightarrow> u8 list list \<Rightarrow> u8 list list res option" where
  "output_loop ns tParent p out = (case rbind (node_at ns tParent) (\<lambda>t.
       if child t = 0 then Inr None else rbind (node_at ns p) (\<lambda>n. Inr (Some (c_text (node_name n), next_node n)))) of
     Inl e \<Rightarrow> Some (Inl e)
   | Inr r \<Rightarrow> (case r of None \<Rightarrow> Some (Inr out) | Some (t, p) \<Rightarrow> output_loop ns tParent p (out @ [t])))"

definition outputDir :: "nodes \<Rightarrow> u32 \<Rightarrow> u8 list list res" where
  "outputDir ns tParent = rbind (node_at ns tParent) (\<lambda>t. rbind (ends (output_loop ns tParent (child t) [])) (\<lambda>r. r))"

definition becomeChild :: "u32 \<Rightarrow> u32 \<Rightarrow> nodes \<Rightarrow> nodes res" where
  "becomeChild tParent tChild ns =
     rbind (node_at ns tParent) (\<lambda>t.
     if child t = 0 then
       rbind (upd_node tParent (\<lambda>n. n\<lparr>child := tChild\<rparr>) ns) (upd_node tChild (\<lambda>n. n\<lparr>parent := tParent\<rparr>))
     else
       rbind (upd_node tChild (\<lambda>n. n\<lparr>next_node := child t\<rparr>) ns) (\<lambda>ns.
       rbind (upd_node (child t) (\<lambda>n. n\<lparr>before := tChild\<rparr>) ns) (\<lambda>ns.
       rbind (upd_node tParent (\<lambda>n. n\<lparr>child := tChild\<rparr>) ns) (upd_node tChild (\<lambda>n. n\<lparr>parent := tParent\<rparr>)))))"

text \<open>The names agree up to and with the terminator of the node's; \<open>n\<close> bytes are left to compare.\<close>

primrec agree :: "nat \<Rightarrow> u8 list \<Rightarrow> u8 list \<Rightarrow> bool res" where
  "agree 0 a b = Inr True"
| "agree (Suc n) a b = rbind (rd a 0) (\<lambda>x. rbind (rd b 0) (\<lambda>y.
     if x = y then agree n (tl a) (tl b) else Inr False))"

definition matching :: "nodes \<Rightarrow> u32 \<Rightarrow> u8 list \<Rightarrow> bool res" where
  "matching ns p param = rbind (node_at ns p) (\<lambda>n.
     if 0 \<in> set (node_name n) then agree (length (c_text (node_name n)) + 1) (node_name n) param else Inl Fault)"

text \<open>The first match among \<open>c\<close> and its later brothers; then down the first children.\<close>

partial_function (option) find_brother :: "nodes \<Rightarrow> u8 list \<Rightarrow> u32 \<Rightarrow> u32 res option" where
  "find_brother ns param c = (case rbind (matching ns c param) (\<lambda>m. rbind (node_at ns c) (\<lambda>n. Inr (m, next_node n))) of
     Inl e \<Rightarrow> Some (Inl e)
   | Inr (m, nx) \<Rightarrow> if m then Some (Inr c) else if nx \<noteq> 0 then find_brother ns param nx else Some (Inr 0))"

partial_function (option) find_level :: "nodes \<Rightarrow> u8 list \<Rightarrow> u32 \<Rightarrow> u32 res option" where
  "find_level ns param p =
     (if p = 0 then Some (Inr 0)
      else (case rbind (ends (find_brother ns param p)) (\<lambda>r. rbind r (\<lambda>c. rbind (node_at ns p) (\<lambda>n. Inr (c, child n)))) of
          Inl e \<Rightarrow> Some (Inl e)
        | Inr (c, q) \<Rightarrow> if c \<noteq> 0 then Some (Inr c) else find_level ns param q))"

definition findNode :: "nodes \<Rightarrow> u32 \<Rightarrow> u8 list \<Rightarrow> u32 res" where
  "findNode ns root param = rbind (ends (find_level ns param root)) (\<lambda>r. r)"

text \<open>A node without a parent is freed; one with a parent is unlinked as if it were the first child.\<close>

definition deleteNode :: "u32 \<Rightarrow> u8 list \<Rightarrow> nodes \<Rightarrow> nodes res" where
  "deleteNode root param ns =
     rbind (findNode ns root param) (\<lambda>p. rbind (node_at ns p) (\<lambda>n.
     if parent n = 0 then
       if before n \<noteq> 0 then
         rbind (upd_node (before n) (\<lambda>t. t\<lparr>next_node := next_node n\<rparr>) ns) (\<lambda>ns. Inr (ns(p := None)))
       else Inr (ns(p := None))
     else if next_node n \<noteq> 0 then
       rbind (upd_node (parent n) (\<lambda>t. t\<lparr>child := next_node n\<rparr>) ns) (\<lambda>ns.
       rbind (upd_node (next_node n) (\<lambda>t1. t1\<lparr>parent := parent n\<rparr>) ns) (\<lambda>ns.
       rbind (upd_node p (\<lambda>n. n\<lparr>next_node := 0\<rparr>) ns) (upd_node (next_node n) (\<lambda>t1. t1\<lparr>before := 0\<rparr>))))
     else
       rbind (upd_node (parent n) (\<lambda>t. t\<lparr>child := 0\<rparr>) ns) (upd_node p (\<lambda>n. n\<lparr>parent := 0, before := 0, next_node := 0\<rparr>))))"

partial_function (option) brother_names :: "nodes \<Rightarrow> u32 \<Rightarrow> u8 list list \<Rightarrow> u8 list list res option" where
  "brother_names ns c out = (case node_at ns c of
     Inl e \<Rightarrow> Some (Inl e)
   | Inr n \<Rightarrow> if next_node n \<noteq> 0 then brother_names ns (next_node n) (out @ [c_text (node_name n)])
              else Some (Inr (out @ [c_text (node_name n)])))"

partial_function (option) print_loop :: "nodes \<Rightarrow> u32 \<Rightarrow> u8 list list \<Rightarrow> u8 list list res option" where
  "print_loop ns p out =
     (if p = 0 then Some (Inr out)
      else (case rbind (ends (brother_names ns p out)) (\<lambda>r. rbind r (\<lambda>out. rbind (node_at ns p) (\<lambda>n. Inr (out, child n)))) of
          Inl e \<Rightarrow> Some (Inl e)
        | Inr (out, q) \<Rightarrow> print_loop ns q out))"

definition print_tree :: "nodes \<Rightarrow> u32 \<Rightarrow> u8 list list res" where
  "print_tree ns ft = rbind (ends (print_loop ns ft [])) (\<lambda>r. r)"

definition tree_Empty :: "nodes \<Rightarrow> u32 \<Rightarrow> u32 res" where
  "tree_Empty ns ft = rbind (node_at ns ft) (\<lambda>n. Inr (if child n = 0 then 1 else 0))"

end
