(* ===== verification/Myvi.thy ===== *)
theory Myvi
  imports FatDir VgaThms
begin

text \<open>
  The editor \<^verbatim>\<open>usr/myvi.c\<close>: a text buffer of 4096 bytes, three modes, the screen, and loading and
  saving through the file system. \<^verbatim>\<open>int\<close> variables that index the buffer are \<open>int\<close>: they stay
  between -1 and 4097. An access outside an array is a fault.
\<close>

definition BUFFER_SIZE :: int where "BUFFER_SIZE = 4096"
definition ROW_LEN :: int where "ROW_LEN = 29"
definition COLUMN_LEN :: int where "COLUMN_LEN = 80"

definition COLOR_BLACK_WHITE :: u32 where "COLOR_BLACK_WHITE = 0x00000FFF"
definition COLOR_WHITE_BLACK :: u32 where "COLOR_WHITE_BLACK = 0x0FFF0000"
definition COLOR_BLACK_BLUE :: u32 where "COLOR_BLACK_BLUE = 0x0000000F"
definition COLOR_GREEN_WHITE :: u32 where "COLOR_GREEN_WHITE = 0x00F00FFF"

record vi =
  vbuf :: "u8 list"
  instruction :: "u8 list"
  inst_len :: int
  vsize :: int
  cursor_location :: int
  page_location :: int
  page_end :: int
  verr :: int
  vmode :: int
  is_new_file :: bool
  screen :: vga

definition at :: "u8 list \<Rightarrow> int \<Rightarrow> u8 res" where
  "at b i = (if 0 \<le> i \<and> i < int (length b) then Inr (b ! nat i) else Inl Fault)"

definition put :: "u8 list \<Rightarrow> int \<Rightarrow> u8 \<Rightarrow> u8 list res" where
  "put b i c = (if 0 \<le> i \<and> i < int (length b) then Inr (b[nat i := c]) else Inl Fault)"

definition myvi_init :: "vi \<Rightarrow> vi" where
  "myvi_init v = v\<lparr>vsize := 0, inst_len := 0, cursor_location := 0, page_location := 0, verr := 0, vmode := 0,
     page_end := 0, vbuf := replicate 4096 0\<rparr>"

definition to_lower_case :: "u8 \<Rightarrow> u8" where
  "to_lower_case ch = (if 65 \<le> ch \<and> ch \<le> 90 then ch - 65 + 97 else ch)"

section \<open>The text\<close>

text \<open>The two shifting loops: \<^verbatim>\<open>buffer[i] = buffer[i - 1]\<close> down to \<open>site\<close>, \<^verbatim>\<open>buffer[i] = buffer[i + 1]\<close> up.\<close>

function shift_up :: "u8 list \<Rightarrow> int \<Rightarrow> int \<Rightarrow> u8 list res" where
  "shift_up b i site =
     (if i > site then rbind (at b (i - 1)) (\<lambda>c. rbind (put b i c) (\<lambda>b. shift_up b (i - 1) site)) else Inr b)"
  by pat_completeness auto
termination by (relation "measure (\<lambda>(b, i, site). nat (i - site))") auto

function shift_down :: "u8 list \<Rightarrow> int \<Rightarrow> int \<Rightarrow> u8 list res" where
  "shift_down b i sz =
     (if i < sz - 1 then rbind (at b (i + 1)) (\<lambda>c. rbind (put b i c) (\<lambda>b. shift_down b (i + 1) sz)) else Inr b)"
  by pat_completeness auto
termination by (relation "measure (\<lambda>(b, i, sz). nat (sz - i))") auto

declare shift_up.simps [simp del] shift_down.simps [simp del]

definition insert_key :: "u8 \<Rightarrow> int \<Rightarrow> vi \<Rightarrow> vi res" where
  "insert_key key site v =
     (if vsize v \<ge> BUFFER_SIZE then Inr (v\<lparr>verr := 1\<rparr>)
      else rbind (shift_up (vbuf v) (vsize v) site) (\<lambda>b. rbind (put b site key) (\<lambda>b.
        Inr (v\<lparr>vbuf := b, vsize := vsize v + 1\<rparr>))))"

definition delete_key :: "int \<Rightarrow> vi \<Rightarrow> vi res" where
  "delete_key site v = rbind (shift_down (vbuf v) site (vsize v)) (\<lambda>b. Inr (v\<lparr>vbuf := b, vsize := vsize v - 1\<rparr>))"

section \<open>The screen\<close>

definition put_char_on_screen :: "u8 \<Rightarrow> int \<Rightarrow> int \<Rightarrow> u32 \<Rightarrow> vga \<Rightarrow> vga" where
  "put_char_on_screen ch row column color =
     kernel_putchar_at (scast ch) (color AND 0xFFFF) (drop_bit 16 color AND 0xFFFF) (word_of_int row) (word_of_int column)"

text \<open>Spaces from a column up to a limit.\<close>

definition put_spaces :: "int \<Rightarrow> int \<Rightarrow> int \<Rightarrow> u32 \<Rightarrow> vga \<Rightarrow> vga" where
  "put_spaces row from to color s = fold (\<lambda>c. put_char_on_screen 32 row c color) [from..to - 1] s"

text \<open>One character of the text: the next row, column and screen.\<close>

definition show_char :: "u8 \<Rightarrow> u32 \<Rightarrow> int \<times> int \<times> vga \<Rightarrow> int \<times> int \<times> vga" where
  "show_char ch color = (\<lambda>(row, column, s).
     let (row, column, s) =
       (if ch = 10 then
          (row + 1, 0, put_spaces row (column + 1) COLUMN_LEN COLOR_BLACK_WHITE (put_char_on_screen 32 row column color s))
        else if ch = 13 then (row, column, s)
        else if ch = 9 then
          (let next_column = (column div 4) * 4 + 4 in (row, max column next_column, put_spaces row column next_column color s))
        else (row, column + 1, put_char_on_screen ch row column color s))
     in if column = COLUMN_LEN then (row + 1, 0, s) else (row, column, s))"

function flush_text :: "vi \<Rightarrow> int \<Rightarrow> int \<times> int \<times> vga \<Rightarrow> (int \<times> int \<times> int \<times> vga) res" where
  "flush_text v pos p =
     (if fst p < ROW_LEN \<and> pos < vsize v then
        rbind (at (vbuf v) pos) (\<lambda>ch.
          flush_text v (pos + 1) (show_char ch (if pos \<noteq> cursor_location v then COLOR_BLACK_WHITE else COLOR_WHITE_BLACK) p))
      else Inr (pos, p))"
  by pat_completeness auto
termination by (relation "measure (\<lambda>(v, pos, p). nat (vsize v - pos))") auto

declare flush_text.simps [simp del]

definition flush_rows :: "int \<times> int \<times> vga \<Rightarrow> vga" where
  "flush_rows = (\<lambda>(row, column, s).
     if row < ROW_LEN then
       let (row, s) = (if column \<noteq> 0 then (row + 1, put_spaces row column COLUMN_LEN COLOR_BLACK_WHITE s) else (row, s))
       in fold (\<lambda>r s. put_spaces r 1 COLUMN_LEN COLOR_BLACK_WHITE (put_char_on_screen 126 r 0 COLOR_BLACK_BLUE s)) [row..ROW_LEN - 1] s
     else s)"

definition flush_instruction :: "vi \<Rightarrow> vga \<Rightarrow> vga res" where
  "flush_instruction v = rfold (\<lambda>i s.
     if i < inst_len v then rbind (at (instruction v) i) (\<lambda>c. Inr (put_char_on_screen c ROW_LEN i COLOR_GREEN_WHITE s))
     else Inr (put_char_on_screen 32 ROW_LEN i COLOR_GREEN_WHITE s)) [0..COLUMN_LEN - 21]"

definition screen_flush :: "vi \<Rightarrow> vi res" where
  "screen_flush v =
     rbind (flush_text v (page_location v) (0, 0, screen v)) (\<lambda>(pos, row, column, s).
       let p = (if pos = vsize v \<and> pos = cursor_location v then
                  let s = put_char_on_screen 32 row column COLOR_WHITE_BLACK s in
                  if column + 1 = COLUMN_LEN then (row + 1, 0, s) else (row, column + 1, s)
                else (row, column, s))
       in rbind (flush_instruction v (flush_rows p)) (\<lambda>s. Inr (v\<lparr>page_end := pos, screen := s\<rparr>)))"

section \<open>Moving\<close>

text \<open>\<^verbatim>\<open>while (pos > 0 && buffer[pos - 1] != '\n') pos--;\<close>, and for \<open>cr\<close> also \<^verbatim>\<open>'\r'\<close>.\<close>

function line_start :: "bool \<Rightarrow> u8 list \<Rightarrow> int \<Rightarrow> int res" where
  "line_start cr b pos =
     (if pos > 0 then rbind (at b (pos - 1)) (\<lambda>c.
        if c \<noteq> 10 \<and> \<not> (cr \<and> c = 13) then line_start cr b (pos - 1) else Inr pos)
      else Inr pos)"
  by pat_completeness auto
termination by (relation "measure (\<lambda>(cr, b, pos). nat pos)") auto

text \<open>\<^verbatim>\<open>while (pos < size && buffer[pos] != '\n') pos++;\<close>\<close>

function line_end :: "u8 list \<Rightarrow> int \<Rightarrow> int \<Rightarrow> int res" where
  "line_end b sz pos =
     (if pos < sz then rbind (at b pos) (\<lambda>c. if c \<noteq> 10 then line_end b sz (pos + 1) else Inr pos) else Inr pos)"
  by pat_completeness auto
termination by (relation "measure (\<lambda>(b, sz, pos). nat (sz - pos))") auto

declare line_start.simps [simp del] line_end.simps [simp del]

definition page_location_last_line :: "vi \<Rightarrow> vi res" where
  "page_location_last_line v = rbind (line_start True (vbuf v) (page_location v - 1)) (\<lambda>pos.
     Inr (if pos \<ge> 0 then v\<lparr>page_location := pos\<rparr> else v))"

definition page_location_next_line :: "vi \<Rightarrow> vi res" where
  "page_location_next_line v = rbind (line_end (vbuf v) (vsize v) (page_location v)) (\<lambda>pos.
     Inr (if pos + 1 < vsize v then v\<lparr>page_location := pos + 1\<rparr> else v))"

definition cursor_prev_line :: "vi \<Rightarrow> vi res" where
  "cursor_prev_line v = rbind (line_start False (vbuf v) (cursor_location v - 1)) (\<lambda>pos.
     if pos \<le> 0 then Inr v
     else rbind (line_start False (vbuf v) pos) (\<lambda>pos. Inr (v\<lparr>cursor_location := pos\<rparr>)))"

definition cursor_next_line :: "vi \<Rightarrow> vi res" where
  "cursor_next_line v = rbind (line_end (vbuf v) (vsize v) (cursor_location v)) (\<lambda>pos.
     Inr (if pos + 1 < vsize v then v\<lparr>cursor_location := pos + 1\<rparr> else v))"

section \<open>The modes\<close>

definition start_instruction :: "vi \<Rightarrow> vi" where
  "start_instruction v = v\<lparr>vmode := 2, instruction := 58 # replicate 79 32, inst_len := 1\<rparr>"

text \<open>\<^verbatim>\<open>i\<close> leaves without touching the screen; all other keys end with the page and the screen.\<close>

definition command_key :: "u8 \<Rightarrow> vi \<Rightarrow> vi res" where
  "command_key key v =
     (if key = 106 then cursor_next_line v
      else if key = 104 then
        (if cursor_location v > 0 then rbind (at (vbuf v) (cursor_location v - 1)) (\<lambda>c.
           Inr (if c \<noteq> 10 then v\<lparr>cursor_location := cursor_location v - 1\<rparr> else v)) else Inr v)
      else if key = 107 then cursor_prev_line v
      else if key = 108 then
        (if cursor_location v + 1 < vsize v then rbind (at (vbuf v) (cursor_location v)) (\<lambda>c.
           Inr (if c \<noteq> 10 then v\<lparr>cursor_location := cursor_location v + 1\<rparr> else v)) else Inr v)
      else if key = 120 then (if cursor_location v \<noteq> vsize v - 1 then delete_key (cursor_location v) v else Inr v)
      else if key = 58 then Inr (start_instruction v)
      else Inr v)"

definition do_command_mode :: "u8 \<Rightarrow> vi \<Rightarrow> vi res" where
  "do_command_mode key v =
     (if key = 105 then Inr (v\<lparr>vmode := 1\<rparr>)
      else rbind (command_key key v) (\<lambda>v.
        rbind (if cursor_location v < page_location v then page_location_last_line v
               else if cursor_location v \<ge> page_end v then page_location_next_line v else Inr v) screen_flush))"

definition do_insert_mode :: "u8 \<Rightarrow> vi \<Rightarrow> vi res" where
  "do_insert_mode key v =
     (if key = 27 then Inr (v\<lparr>vmode := 0\<rparr>)
      else if key = 8 then
        rbind (if cursor_location v \<noteq> 0 then delete_key (cursor_location v - 1) v else Inr v) (\<lambda>v.
        rbind (screen_flush (v\<lparr>cursor_location := cursor_location v - 1\<rparr>)) (\<lambda>v.
        rbind (if cursor_location v < page_location v then page_location_last_line v else Inr v) screen_flush))
      else
        rbind (insert_key key (cursor_location v) v) (\<lambda>v.
        rbind (screen_flush (v\<lparr>cursor_location := cursor_location v + 1\<rparr>)) (\<lambda>v.
        rbind (if cursor_location v \<ge> page_end v then page_location_next_line v else Inr v) screen_flush)))"

section \<open>Files and the main loop\<close>

text \<open>
  The file system's state holds the editor's global \<^verbatim>\<open>FILE\<close> as the one its calls are about. The
  results of the calls are looked at only where the code does.
\<close>

definition append_newline :: "vi \<Rightarrow> vi res" where
  "append_newline v = rbind (put (vbuf v) (vsize v) 10) (\<lambda>b. Inr (v\<lparr>vbuf := b, vsize := vsize v + 1\<rparr>))"

text \<open>The rounds of the reading loop, \<open>n\<close> left; \<open>newch\<close> keeps its value when a read fails. True is an early return.\<close>

primrec load_loop :: "'d block_io \<Rightarrow> nat \<Rightarrow> u8 list \<Rightarrow> vi \<Rightarrow> 'd fat \<Rightarrow> (bool \<times> vi \<times> 'd fat) res" where
  "load_loop io 0 newch v s = Inr (False, v, s)"
| "load_loop io (Suc n) newch v s =
     rbind (fs_read io 1 (s\<lparr>ubuf := newch\<rparr>)) (\<lambda>(_, s). let newch = ubuf s in
     rbind (rd newch 0) (\<lambda>c.
     rbind (if c \<noteq> 13 then rbind (put (vbuf v) (vsize v) c) (\<lambda>b. Inr (v\<lparr>vbuf := b, vsize := vsize v + 1\<rparr>)) else Inr v) (\<lambda>v.
     if vsize v = BUFFER_SIZE - 1 then Inr (True, v\<lparr>verr := 2\<rparr>, s) else load_loop io n newch v s)))"

definition load_file :: "'d block_io \<Rightarrow> u8 list \<Rightarrow> u8 \<Rightarrow> vi \<Rightarrow> 'd fat \<Rightarrow> (vi \<times> 'd fat) res" where
  "load_file io file_path newch v s =
     rbind (fs_open io file_path s) (\<lambda>(r, s). case r of
       None \<Rightarrow> rbind (append_newline (v\<lparr>is_new_file := True\<rparr>)) (\<lambda>v. Inr (v, s))
     | Some _ \<Rightarrow> let v = v\<lparr>is_new_file := False\<rparr> in
         rbind (get_entry_filesize (entry (fil s)) 0) (\<lambda>file_size.
         rbind (load_loop io (nat (sint file_size)) [newch] v s) (\<lambda>(early, v, s).
         if early then Inr (v, s)
         else rbind (if vsize v = 0 then append_newline v
                     else rbind (at (vbuf v) (vsize v - 1)) (\<lambda>c. if c \<noteq> 10 then append_newline v else Inr v)) (\<lambda>v.
           rbind (fs_close io s) (\<lambda>(_, s). Inr (v, s))))))"

definition save_file :: "'d block_io \<Rightarrow> FILE \<Rightarrow> u8 list \<Rightarrow> vi \<Rightarrow> 'd fat \<Rightarrow> 'd fat res" where
  "save_file io garbage filename v s =
     rbind (if is_new_file v then rbind (fs_create io garbage filename s) (\<lambda>(_, s). Inr s) else Inr s) (\<lambda>s.
     rbind (fs_open io filename s) (\<lambda>(_, s).
     rbind (fs_lseek 0 s) (\<lambda>(_, s).
     rbind (fs_write io (word_of_int (vsize v)) (s\<lparr>ubuf := vbuf v\<rparr>)) (\<lambda>(_, s).
     rbind (fs_close io s) (\<lambda>(_, s). Inr s)))))"

definition do_last_line_mode :: "'d block_io \<Rightarrow> FILE \<Rightarrow> u8 list \<Rightarrow> u8 \<Rightarrow> vi \<Rightarrow> 'd fat \<Rightarrow> (vi \<times> 'd fat) res" where
  "do_last_line_mode io garbage filename key v s =
     rbind
      (if key = 27 then Inr (v\<lparr>inst_len := 0, vmode := 0\<rparr>, s)
       else if key = 8 then Inr (if inst_len v > 0 then v\<lparr>inst_len := inst_len v - 1\<rparr> else v, s)
       else if key = 10 then
         (let ins = instruction v in
          if inst_len v > 0 \<and> ins ! 0 = 58 then
            if inst_len v = 3 \<and> ins ! 1 = 113 \<and> ins ! 2 = 33 then Inr (v\<lparr>verr := 1\<rparr>, s)
            else if inst_len v = 3 \<and> ins ! 1 = 119 \<and> ins ! 2 = 113 then
              rbind (save_file io garbage filename v s) (\<lambda>s. Inr (v\<lparr>verr := 1\<rparr>, s))
            else Inr (v, s)
          else Inr (v, s))
       else rbind (put (instruction v) (inst_len v) (to_lower_case key)) (\<lambda>ins.
         Inr (v\<lparr>instruction := ins, inst_len := inst_len v + 1\<rparr>, s)))
      (\<lambda>(v, s). rbind (screen_flush v) (\<lambda>v. Inr (v, s)))"

definition vi_key :: "'d block_io \<Rightarrow> FILE \<Rightarrow> u8 list \<Rightarrow> u8 \<Rightarrow> vi \<times> 'd fat \<Rightarrow> (vi \<times> 'd fat) res" where
  "vi_key io garbage filename key = (\<lambda>(v, s).
     if vmode v = 0 then rbind (do_command_mode key v) (\<lambda>v. Inr (v, s))
     else if vmode v = 1 then rbind (do_insert_mode key v) (\<lambda>v. Inr (v, s))
     else if vmode v = 2 then do_last_line_mode io garbage filename key v s
     else Inr (v, s))"

text \<open>The loop on the keys typed: it ends when \<^verbatim>\<open>err\<close> is set, or waits for the next key.\<close>

primrec vi_loop :: "'d block_io \<Rightarrow> FILE \<Rightarrow> u8 list \<Rightarrow> u8 list \<Rightarrow> vi \<times> 'd fat \<Rightarrow> (vi \<times> 'd fat) res" where
  "vi_loop io garbage filename [] p = Inr p"
| "vi_loop io garbage filename (key # keys) p =
     (if verr (fst p) = 0 then rbind (vi_key io garbage filename key p) (vi_loop io garbage filename keys) else Inr p)"

text \<open>\<^verbatim>\<open>mystrcpy\<close> copies no terminator; \<^verbatim>\<open>src\<close> is the bytes from its pointer on.\<close>

primrec mystrcpy_loop :: "u8 list \<Rightarrow> nat \<Rightarrow> u8 list \<Rightarrow> u8 list res" where
  "mystrcpy_loop [] i dest = Inl Fault"
| "mystrcpy_loop (c # src) i dest = rbind (wr dest (of_nat i) c) (\<lambda>dest.
     rbind (rd src 0) (\<lambda>d. if d \<noteq> 0 then mystrcpy_loop src (i + 1) dest else Inr dest))"

definition mystrcpy :: "u8 list \<Rightarrow> u8 list \<Rightarrow> u8 list res" where
  "mystrcpy dest src = mystrcpy_loop src 0 dest"

definition set_freq :: "u32 \<Rightarrow> vi \<Rightarrow> vi" where
  "set_freq f v = v\<lparr>screen := kernel_set_cursor ((screen v)\<lparr>cursor_freq := f\<rparr>)\<rparr>"

definition myvi :: "'d block_io \<Rightarrow> FILE \<Rightarrow> u8 \<Rightarrow> u8 list \<Rightarrow> u8 list \<Rightarrow> vi \<times> 'd fat \<Rightarrow> (vi \<times> 'd fat) res" where
  "myvi io garbage newch para keys = (\<lambda>(v, s).
     let v = myvi_init v; pre_cursor_freq = cursor_freq (screen v); v = set_freq 0 v in
     rbind (mystrcpy (path (fil s)) (para @ [0])) (\<lambda>p.
     rbind (load_file io para newch v (s\<lparr>fil := (fil s)\<lparr>path := p\<rparr>\<rparr>)) (\<lambda>(v, s).
     rbind (screen_flush v) (\<lambda>v.
     rbind (vi_loop io garbage para keys (v, s)) (\<lambda>(v, s).
     if verr v = 0 then Inr (v, s)
     else let v = set_freq pre_cursor_freq v in Inr (v\<lparr>screen := kernel_clear_screen 31 (screen v)\<rparr>, s))))))"

end
