(* ===== verification/MyviThms.thy ===== *)
theory MyviThms
  imports Myvi
begin

text \<open>
  What keys do to the editor's text: insertion and deletion shift the bytes behind the cursor, and
  between two keys the cursor is on a character of the text.
\<close>

section \<open>The cursor stays in the text\<close>

text \<open>
  Between two keys: the cursor is on a character of the text, the last character is a newline, the
  page starts in the buffer, and the command line fits its array.
\<close>

definition vi_ok :: "vi \<Rightarrow> bool" where
  "vi_ok v \<longleftrightarrow> length (vbuf v) = 4096 \<and> length (instruction v) = 80 \<and> vsize v \<le> 4096
     \<and> 0 \<le> cursor_location v \<and> cursor_location v < vsize v \<and> vbuf v ! nat (vsize v - 1) = 10
     \<and> 0 \<le> page_location v \<and> page_location v \<le> 4096 \<and> 0 \<le> inst_len v \<and> inst_len v \<le> 80"

lemma at_in [simp]: "0 \<le> i \<Longrightarrow> i < int (length b) \<Longrightarrow> at b i = Inr (b ! nat i)"
  by (simp add: at_def)

lemma put_in [simp]: "0 \<le> i \<Longrightarrow> i < int (length b) \<Longrightarrow> put b i c = Inr (b[nat i := c])"
  by (simp add: put_def)

lemma shift_up_spec:
  "0 \<le> site \<Longrightarrow> i < int (length b) \<Longrightarrow> \<exists>b'. shift_up b i site = Inr b' \<and> length b' = length b
    \<and> (\<forall>k<length b. b' ! k = (if site < int k \<and> int k \<le> i then b ! (k - 1) else b ! k))"
proof (induction b i site rule: shift_up.induct)
  case (1 b i site)
  show ?case
  proof (cases "i > site")
    case False
    then show ?thesis by (subst shift_up.simps) auto
  next
    case True
    let ?b = "b[nat i := b ! nat (i - 1)]"
    have r: "at b (i - 1) = Inr (b ! nat (i - 1))" "put b i (b ! nat (i - 1)) = Inr ?b" using True 1 by simp_all
    have "shift_up b i site = shift_up ?b (i - 1) site"
      using True r by (subst shift_up.simps) simp
    moreover obtain b' where "shift_up ?b (i - 1) site = Inr b'" "length b' = length b"
      "\<forall>k<length b. b' ! k = (if site < int k \<and> int k \<le> i - 1 then ?b ! (k - 1) else ?b ! k)"
      using 1(1) [OF True r] 1(2,3) by auto
    moreover have "nat (i - 1) = nat i - 1" using True 1 by simp
    ultimately show ?thesis using True 1(2,3) by (auto simp: nth_list_update nat_le_iff)
  qed
qed

lemma shift_down_spec:
  "0 \<le> i \<Longrightarrow> sz \<le> int (length b) \<Longrightarrow> \<exists>b'. shift_down b i sz = Inr b' \<and> length b' = length b
    \<and> (\<forall>k<length b. b' ! k = (if i \<le> int k \<and> int k < sz - 1 then b ! (k + 1) else b ! k))"
proof (induction b i sz rule: shift_down.induct)
  case (1 b i sz)
  show ?case
  proof (cases "i < sz - 1")
    case False
    then show ?thesis by (subst shift_down.simps) auto
  next
    case True
    let ?b = "b[nat i := b ! nat (i + 1)]"
    have r: "at b (i + 1) = Inr (b ! nat (i + 1))" "put b i (b ! nat (i + 1)) = Inr ?b" using True 1 by simp_all
    have "shift_down b i sz = shift_down ?b (i + 1) sz"
      using True r by (subst shift_down.simps) simp
    moreover obtain b' where "shift_down ?b (i + 1) sz = Inr b'" "length b' = length b"
      "\<forall>k<length b. b' ! k = (if i + 1 \<le> int k \<and> int k < sz - 1 then ?b ! (k + 1) else ?b ! k)"
      using 1(1) [OF True r] 1(2,3) by auto
    moreover have "nat (i + 1) = nat i + 1" using 1 by simp
    ultimately show ?thesis using True 1(2,3) by (auto simp: nth_list_update)
  qed
qed

lemma insert_key_spec:
  assumes "0 \<le> site" "site \<le> vsize v" "vsize v < 4096" "length (vbuf v) = 4096"
  shows "\<exists>b. insert_key key site v = Inr (v\<lparr>vbuf := b, vsize := vsize v + 1\<rparr>) \<and> length b = 4096
    \<and> (\<forall>k<4096. b ! k = (if int k = site then key else if site < int k \<and> int k \<le> vsize v then vbuf v ! (k - 1) else vbuf v ! k))"
proof -
  obtain b where b: "shift_up (vbuf v) (vsize v) site = Inr b" "length b = 4096"
    "\<forall>k<4096. b ! k = (if site < int k \<and> int k \<le> vsize v then vbuf v ! (k - 1) else vbuf v ! k)"
    using shift_up_spec [of site "vsize v" "vbuf v"] assms by auto
  have "insert_key key site v = Inr (v\<lparr>vbuf := b[nat site := key], vsize := vsize v + 1\<rparr>)"
    using b assms by (simp add: insert_key_def BUFFER_SIZE_def)
  then show ?thesis using b assms by (intro exI [of _ "b[nat site := key]"]) (auto simp: nth_list_update)
qed

lemma delete_key_spec:
  assumes "0 \<le> site" "vsize v \<le> 4096" "length (vbuf v) = 4096"
  shows "\<exists>b. delete_key site v = Inr (v\<lparr>vbuf := b, vsize := vsize v - 1\<rparr>) \<and> length b = 4096
    \<and> (\<forall>k<4096. b ! k = (if site \<le> int k \<and> int k < vsize v - 1 then vbuf v ! (k + 1) else vbuf v ! k))"
  using shift_down_spec [of site "vsize v" "vbuf v"] assms by (auto simp: delete_key_def)

lemma line_start_spec:
  "p \<le> int (length b) \<Longrightarrow> \<exists>q. line_start cr b p = Inr q \<and> q \<le> p \<and> (0 \<le> p \<longrightarrow> 0 \<le> q)"
proof (induction cr b p rule: line_start.induct)
  case (1 cr b p)
  show ?case
  proof (cases "p > 0")
    case True
    then have r: "at b (p - 1) = Inr (b ! nat (p - 1))" using 1(2) by simp
    show ?thesis using 1(1) [OF True r] 1(2) True r by (subst line_start.simps) fastforce
  qed (subst line_start.simps, simp)
qed

lemma line_end_spec: "0 \<le> p \<Longrightarrow> sz \<le> int (length b) \<Longrightarrow> \<exists>q. line_end b sz p = Inr q \<and> p \<le> q"
proof (induction b sz p rule: line_end.induct)
  case (1 b sz p)
  show ?case
  proof (cases "p < sz")
    case True
    then have r: "at b p = Inr (b ! nat p)" using 1(2,3) by simp
    show ?thesis using 1(1) [OF True r] 1(2,3) True r by (subst line_end.simps) fastforce
  qed (subst line_end.simps, simp)
qed

lemma flush_text_total:
  "0 \<le> p \<Longrightarrow> vsize v \<le> int (length (vbuf v)) \<Longrightarrow> \<exists>r. flush_text v p q = Inr r"
proof (induction v p q rule: flush_text.induct)
  case (1 v p q)
  show ?case
  proof (cases "fst q < ROW_LEN \<and> p < vsize v")
    case True
    then have r: "at (vbuf v) p = Inr (vbuf v ! nat p)" using 1(2,3) by simp
    show ?thesis using 1(1) [OF True r] 1(2,3) True r by (subst flush_text.simps) simp
  qed (subst flush_text.simps, simp only: if_False, blast)
qed

lemma rfold_total: "(\<And>x s. x \<in> set xs \<Longrightarrow> \<exists>s'. f x s = Inr s') \<Longrightarrow> \<exists>s'. rfold f xs s = Inr s'"
proof (induction xs arbitrary: s)
  case (Cons x xs)
  obtain s1 where "f x s = Inr s1" using Cons.prems [of x s] by auto
  then show ?case using Cons by simp
qed simp

lemma screen_flush_total:
  assumes "0 \<le> page_location v" "vsize v \<le> int (length (vbuf v))" "length (instruction v) = 80"
  shows "\<exists>e s. screen_flush v = Inr (v\<lparr>page_end := e, screen := s\<rparr>)"
proof -
  obtain e row column s where t: "flush_text v (page_location v) (0, 0, screen v) = Inr (e, row, column, s)"
    using flush_text_total [OF assms(1,2), of "(0, 0, screen v)"] by (metis prod_cases4)
  let ?p = "if e = vsize v \<and> e = cursor_location v then
      if column + 1 = COLUMN_LEN then (row + 1, 0, put_char_on_screen 32 row column COLOR_WHITE_BLACK s)
      else (row, column + 1, put_char_on_screen 32 row column COLOR_WHITE_BLACK s)
    else (row, column, s)"
  have "\<exists>s'. flush_instruction v (flush_rows ?p) = Inr s'"
    unfolding flush_instruction_def using assms(3) by (intro rfold_total) (simp add: COLUMN_LEN_def)
  then obtain s' where "flush_instruction v (flush_rows ?p) = Inr s'" by blast
  then have "screen_flush v = Inr (v\<lparr>page_end := e, screen := s'\<rparr>)"
    by (simp only: screen_flush_def t rbind_Inr prod.case Let_def)
  then show ?thesis by blast
qed

text \<open>What the cursor and page movements leave unchanged, and that they stay in the text.\<close>

lemma page_last_total:
  assumes "vi_ok v" shows "\<exists>v'. page_location_last_line v = Inr v' \<and> vi_ok v' \<and> verr v' = verr v"
proof -
  obtain q where "line_start True (vbuf v) (page_location v - 1) = Inr q" "q \<le> page_location v - 1"
    using line_start_spec [of "page_location v - 1" "vbuf v" True] assms by (auto simp: vi_ok_def)
  then show ?thesis using assms by (auto simp: page_location_last_line_def vi_ok_def)
qed

lemma page_next_total:
  assumes "length (vbuf v) = 4096" "vsize v \<le> 4096" "0 \<le> page_location v"
  shows "\<exists>p. page_location_next_line v = Inr (v\<lparr>page_location := p\<rparr>) \<and> 0 \<le> p \<and> (p = page_location v \<or> p < 4096)"
proof -
  obtain q where "line_end (vbuf v) (vsize v) (page_location v) = Inr q" "page_location v \<le> q"
    using line_end_spec [of "page_location v" "vsize v" "vbuf v"] assms by auto
  then show ?thesis using assms
    by (auto simp: page_location_next_line_def intro: exI [of _ "q + 1"] exI [of _ "page_location v"])
qed

lemma page_next_ok: "vi_ok v \<Longrightarrow> \<exists>v'. page_location_next_line v = Inr v' \<and> vi_ok v' \<and> verr v' = verr v"
  using page_next_total [of v] by (fastforce simp: vi_ok_def)

lemma flush_ok: "vi_ok v \<Longrightarrow> \<exists>v'. screen_flush v = Inr v' \<and> vi_ok v' \<and> verr v' = verr v"
  using screen_flush_total [of v] by (fastforce simp: vi_ok_def)

lemma cursor_moves_ok:
  assumes "vi_ok v"
  shows "\<exists>v'. cursor_prev_line v = Inr v' \<and> vi_ok v' \<and> verr v' = verr v"
    and "\<exists>v'. cursor_next_line v = Inr v' \<and> vi_ok v' \<and> verr v' = verr v"
proof -
  obtain q where q: "line_start False (vbuf v) (cursor_location v - 1) = Inr q" "q \<le> cursor_location v - 1"
    using line_start_spec [of "cursor_location v - 1" "vbuf v" False] assms by (auto simp: vi_ok_def)
  show "\<exists>v'. cursor_prev_line v = Inr v' \<and> vi_ok v' \<and> verr v' = verr v"
  proof (cases "q \<le> 0")
    case False
    then obtain r where "line_start False (vbuf v) q = Inr r" "r \<le> q" "0 \<le> r"
      using line_start_spec [of q "vbuf v" False] q assms by (auto simp: vi_ok_def)
    then show ?thesis using q False assms by (auto simp: cursor_prev_line_def vi_ok_def)
  qed (use q assms in \<open>simp add: cursor_prev_line_def\<close>)
  obtain e where "line_end (vbuf v) (vsize v) (cursor_location v) = Inr e" "cursor_location v \<le> e"
    using line_end_spec [of "cursor_location v" "vsize v" "vbuf v"] assms by (auto simp: vi_ok_def)
  then show "\<exists>v'. cursor_next_line v = Inr v' \<and> vi_ok v' \<and> verr v' = verr v"
    using assms by (auto simp: cursor_next_line_def vi_ok_def)
qed

lemma delete_ok:
  assumes "vi_ok v" "0 \<le> site" "site < vsize v - 1"
    and c: "c = cursor_location v \<and> c < vsize v - 1 \<or> c = cursor_location v - 1 \<and> 0 \<le> c"
  shows "\<exists>b. delete_key site v = Inr (v\<lparr>vbuf := b, vsize := vsize v - 1\<rparr>)
    \<and> vi_ok (v\<lparr>vbuf := b, vsize := vsize v - 1, cursor_location := c\<rparr>)"
proof -
  obtain b where b: "delete_key site v = Inr (v\<lparr>vbuf := b, vsize := vsize v - 1\<rparr>)" "length b = 4096"
    "\<And>k. k < 4096 \<Longrightarrow> b ! k = (if site \<le> int k \<and> int k < vsize v - 1 then vbuf v ! (k + 1) else vbuf v ! k)"
    using delete_key_spec [of site v] assms by (auto simp: vi_ok_def)
  obtain m where m: "vsize v - 2 = int m" using nonneg_int_cases [of "vsize v - 2"] assms(2,3) by auto
  then have "nat (vsize v - 1 - 1) = m" "nat (vsize v - 1) = m + 1" by simp_all
  moreover have "b ! m = vbuf v ! (m + 1)"
    using b(3) [of m] m assms(1,3) by (simp add: vi_ok_def)
  ultimately have "b ! nat (vsize v - 1 - 1) = vbuf v ! nat (vsize v - 1)" by simp
  then show ?thesis using b assms by (auto simp: vi_ok_def)
qed

lemma insert_ok:
  assumes "vi_ok v" "vsize v < 4096"
  shows "\<exists>b. insert_key key (cursor_location v) v = Inr (v\<lparr>vbuf := b, vsize := vsize v + 1\<rparr>)
    \<and> vi_ok (v\<lparr>vbuf := b, vsize := vsize v + 1, cursor_location := cursor_location v + 1\<rparr>)"
proof -
  obtain b where b: "insert_key key (cursor_location v) v = Inr (v\<lparr>vbuf := b, vsize := vsize v + 1\<rparr>)" "length b = 4096"
    "\<And>k. k < 4096 \<Longrightarrow> b ! k = (if int k = cursor_location v then key
       else if cursor_location v < int k \<and> int k \<le> vsize v then vbuf v ! (k - 1) else vbuf v ! k)"
    using insert_key_spec [of "cursor_location v" v key] assms by (auto simp: vi_ok_def)
  obtain m where m: "vsize v - 1 = int m" using nonneg_int_cases [of "vsize v - 1"] assms(1) by (auto simp: vi_ok_def)
  then have "nat (vsize v + 1 - 1) = m + 1" "nat (vsize v - 1) = m" by simp_all
  moreover have "b ! (m + 1) = vbuf v ! m" using b(3) [of "m + 1"] m assms by (simp add: vi_ok_def)
  ultimately have "b ! nat (vsize v + 1 - 1) = vbuf v ! nat (vsize v - 1)" by simp
  then show ?thesis using b assms by (auto simp: vi_ok_def)
qed

lemma command_key_ok:
  assumes "vi_ok v"
  shows "\<exists>v'. command_key key v = Inr v' \<and> vi_ok v' \<and> verr v' = verr v"
proof -
  have r: "0 < cursor_location v \<Longrightarrow> at (vbuf v) (cursor_location v - 1) = Inr (vbuf v ! nat (cursor_location v - 1))"
    "cursor_location v + 1 < vsize v \<Longrightarrow> at (vbuf v) (cursor_location v) = Inr (vbuf v ! nat (cursor_location v))"
    using assms by (auto simp: vi_ok_def)
  have x: "\<exists>v'. delete_key (cursor_location v) v = Inr v' \<and> vi_ok v' \<and> verr v' = verr v"
    if "cursor_location v \<noteq> vsize v - 1"
    using delete_ok [OF assms, of "cursor_location v" "cursor_location v"] that assms by (auto simp: vi_ok_def)
  show ?thesis
    using cursor_moves_ok [OF assms] r x assms
    by (simp add: command_key_def) (auto simp: vi_ok_def start_instruction_def)
qed

lemma page_moves:
  assumes "vi_ok v"
  shows "\<exists>v'. (if P then page_location_last_line v else if Q then page_location_next_line v else Inr v) = Inr v'
      \<and> vi_ok v' \<and> verr v' = verr v"
    and "\<exists>v'. (if P then page_location_last_line v else Inr v) = Inr v' \<and> vi_ok v' \<and> verr v' = verr v"
    and "\<exists>v'. (if P then page_location_next_line v else Inr v) = Inr v' \<and> vi_ok v' \<and> verr v' = verr v"
  using page_last_total [OF assms] page_next_ok [OF assms] assms by (simp_all split: if_split)

lemma do_command_mode_ok:
  assumes "vi_ok v"
  shows "\<exists>v'. do_command_mode key v = Inr v' \<and> vi_ok v' \<and> verr v' = verr v"
proof (cases "key = 105")
  case False
  obtain v1 where v1: "command_key key v = Inr v1" "vi_ok v1" "verr v1 = verr v"
    using command_key_ok [OF assms] by blast
  obtain v2 where "(if cursor_location v1 < page_location v1 then page_location_last_line v1
      else if cursor_location v1 \<ge> page_end v1 then page_location_next_line v1 else Inr v1) = Inr v2" "vi_ok v2" "verr v2 = verr v"
    using page_moves(1) [OF v1(2)] v1(3) by metis
  then show ?thesis using flush_ok [of v2] False v1(1) by (simp add: do_command_mode_def)
qed (use assms in \<open>simp add: do_command_mode_def vi_ok_def\<close>)

lemma insert_backspace_ok:
  assumes "vi_ok v" "cursor_location v \<noteq> 0"
  shows "\<exists>v'. do_insert_mode 8 v = Inr v' \<and> vi_ok v' \<and> verr v' = verr v"
proof -
  obtain b where b: "delete_key (cursor_location v - 1) v = Inr (v\<lparr>vbuf := b, vsize := vsize v - 1\<rparr>)"
    "vi_ok (v\<lparr>vbuf := b, vsize := vsize v - 1, cursor_location := cursor_location v - 1\<rparr>)"
    using delete_ok [OF assms(1), of "cursor_location v - 1" "cursor_location v - 1"] assms by (auto simp: vi_ok_def)
  obtain v1 where v1: "screen_flush (v\<lparr>vbuf := b, vsize := vsize v - 1, cursor_location := cursor_location v - 1\<rparr>) = Inr v1"
    "vi_ok v1" "verr v1 = verr v"
    using flush_ok [OF b(2)] by auto
  then obtain v2 where "(if cursor_location v1 < page_location v1 then page_location_last_line v1 else Inr v1) = Inr v2"
    "vi_ok v2" "verr v2 = verr v"
    using page_moves(2) [OF v1(2)] v1(3) by metis
  then show ?thesis using flush_ok [of v2] b(1) v1(1) assms(2) by (simp add: do_insert_mode_def)
qed

lemma page_next_if:
  assumes "length (vbuf v) = 4096" "vsize v \<le> 4096" "0 \<le> page_location v"
  shows "\<exists>p. (if P then page_location_next_line v else Inr v) = Inr (v\<lparr>page_location := p\<rparr>) \<and> 0 \<le> p"
proof (cases P)
  case False
  then show ?thesis using assms(3) by (intro exI [of _ "page_location v"]) simp
qed (use page_next_total [OF assms] in auto)

text \<open>A full buffer: the key is dropped, the cursor still moves, and \<^verbatim>\<open>err\<close> ends the editor.\<close>

lemma insert_full:
  assumes "vi_ok v" "\<not> vsize v < 4096" "key \<noteq> 8" "key \<noteq> 27"
  shows "\<exists>v'. do_insert_mode key v = Inr v' \<and> verr v' = 1"
proof -
  let ?v = "v\<lparr>verr := 1, cursor_location := cursor_location v + 1\<rparr>"
  obtain e s where f: "screen_flush ?v = Inr (?v\<lparr>page_end := e, screen := s\<rparr>)"
    using screen_flush_total [of ?v] assms(1) by (auto simp: vi_ok_def)
  let ?w = "?v\<lparr>page_end := e, screen := s\<rparr>"
  obtain p where p: "(if cursor_location ?w \<ge> page_end ?w then page_location_next_line ?w else Inr ?w)
      = Inr (?w\<lparr>page_location := p\<rparr>)" "0 \<le> p"
    using page_next_if [of ?w "cursor_location ?w \<ge> page_end ?w"] assms(1) by (auto simp: vi_ok_def)
  let ?x = "?w\<lparr>page_location := p\<rparr>"
  obtain e' s' where "screen_flush ?x = Inr (?x\<lparr>page_end := e', screen := s'\<rparr>)"
    using screen_flush_total [of ?x] assms(1) p by (auto simp: vi_ok_def)
  then show ?thesis using p f assms(2,3,4)
    by (auto simp: do_insert_mode_def insert_key_def BUFFER_SIZE_def)
qed

lemma insert_char_ok:
  assumes "vi_ok v" "vsize v < 4096" "key \<noteq> 8" "key \<noteq> 27"
  shows "\<exists>v'. do_insert_mode key v = Inr v' \<and> vi_ok v'"
proof -
  obtain b where b: "insert_key key (cursor_location v) v = Inr (v\<lparr>vbuf := b, vsize := vsize v + 1\<rparr>)"
    "vi_ok (v\<lparr>vbuf := b, vsize := vsize v + 1, cursor_location := cursor_location v + 1\<rparr>)"
    using insert_ok [OF assms(1,2)] by blast
  obtain v1 where v1: "screen_flush (v\<lparr>vbuf := b, vsize := vsize v + 1, cursor_location := cursor_location v + 1\<rparr>) = Inr v1"
    "vi_ok v1"
    using flush_ok [OF b(2)] by auto
  then obtain v2 where "(if cursor_location v1 \<ge> page_end v1 then page_location_next_line v1 else Inr v1) = Inr v2" "vi_ok v2"
    using page_moves(3) [OF v1(2)] by metis
  then show ?thesis using flush_ok [of v2] b(1) v1(1) assms(3,4) by (auto simp: do_insert_mode_def)
qed

text \<open>
  C21. Editing keeps the cursor in the text: from a state where it is, every key in command mode, and
  every key in insert mode but a backspace at the first character, is handled without leaving an
  array and ends in such a state again, unless the buffer was full, which ends the editor.
\<close>

theorem editor_stays_in_text:
  assumes "vi_ok v"
  shows "(\<exists>v'. do_command_mode key v = Inr v' \<and> vi_ok v' \<and> verr v' = verr v)
    \<and> (\<not> (key = 8 \<and> cursor_location v = 0) \<longrightarrow>
        (\<exists>v'. do_insert_mode key v = Inr v' \<and> (vi_ok v' \<or> vsize v = 4096 \<and> verr v' = 1)))"
proof -
  have "\<exists>v'. do_insert_mode key v = Inr v' \<and> (vi_ok v' \<or> vsize v = 4096 \<and> verr v' = 1)"
    if key: "\<not> (key = 8 \<and> cursor_location v = 0)"
  proof -
    have "vsize v < 4096 \<or> vsize v = 4096" using assms by (auto simp: vi_ok_def)
    then consider "key = 27" | "key = 8" "cursor_location v \<noteq> 0" | "key \<noteq> 8" "key \<noteq> 27" "vsize v < 4096"
      | "key \<noteq> 8" "key \<noteq> 27" "vsize v = 4096" using key by blast
    then show ?thesis
    proof cases
      case 1
      then show ?thesis using assms by (simp add: do_insert_mode_def vi_ok_def)
    next
      case 2
      then show ?thesis using insert_backspace_ok [OF assms] by blast
    next
      case 3
      then show ?thesis using insert_char_ok [OF assms] by blast
    next
      case 4
      then show ?thesis using insert_full [OF assms] by auto
    qed
  qed
  then show ?thesis using do_command_mode_ok [OF assms] by blast
qed

definition demo_vi :: vi where
  "demo_vi = \<lparr>vbuf = 10 # replicate 4095 0, instruction = replicate 80 32, inst_len = 0, vsize = 1, cursor_location = 0,
     page_location = 0, page_end = 1, verr = 0, vmode = 1, is_new_file = True, screen = demo_vga\<rparr>"

lemma demo_vi_ok: "vi_ok demo_vi"
  by (simp add: vi_ok_def demo_vi_def)

theorem editor_stays_in_text_witness:
  "\<exists>v'. do_insert_mode 97 demo_vi = Inr v' \<and> vi_ok v'"
  using editor_stays_in_text [OF demo_vi_ok, of 97] by (auto simp: demo_vi_def)

text \<open>The key left out: the cursor moves before the buffer, and the next character is stored there.\<close>

lemma shift_up_below: "0 \<le> i \<Longrightarrow> i < int (length b) \<Longrightarrow> shift_up b i (-1) = Inl Fault"
proof (induction "nat i" arbitrary: i b)
  case 0
  then show ?case by (subst shift_up.simps) (simp add: at_def)
next
  case (Suc n)
  have "shift_up (b[nat i := b ! nat (i - 1)]) (i - 1) (-1) = Inl Fault" using Suc by simp
  then show ?case using Suc(2,4) by (subst shift_up.simps) simp
qed

lemma page_last_fields:
  assumes "0 \<le> page_location v" "page_location v \<le> int (length (vbuf v))"
  shows "\<exists>p. page_location_last_line v = Inr (v\<lparr>page_location := p\<rparr>) \<and> 0 \<le> p"
proof -
  obtain q where "line_start True (vbuf v) (page_location v - 1) = Inr q"
    using line_start_spec [of "page_location v - 1" "vbuf v" True] assms by auto
  then show ?thesis using assms
    by (auto simp: page_location_last_line_def intro: exI [of _ q] exI [of _ "page_location v"])
qed

lemma backspace_at_start:
  assumes "vi_ok v" "cursor_location v = 0" "vsize v < 4096" "c \<noteq> 8" "c \<noteq> 27"
  shows "\<exists>v'. do_insert_mode 8 v = Inr v' \<and> cursor_location v' = -1 \<and> do_insert_mode c v' = Inl Fault"
proof -
  let ?v = "v\<lparr>cursor_location := -1\<rparr>"
  obtain e s where f: "screen_flush ?v = Inr (?v\<lparr>page_end := e, screen := s\<rparr>)"
    using screen_flush_total [of ?v] assms(1) by (auto simp: vi_ok_def)
  let ?w = "?v\<lparr>page_end := e, screen := s\<rparr>"
  obtain p where p: "page_location_last_line ?w = Inr (?w\<lparr>page_location := p\<rparr>)" "0 \<le> p"
    using page_last_fields [of ?w] assms(1) by (auto simp: vi_ok_def)
  let ?x = "?w\<lparr>page_location := p\<rparr>"
  obtain e' s' where g: "screen_flush ?x = Inr (?x\<lparr>page_end := e', screen := s'\<rparr>)"
    using screen_flush_total [of ?x] assms(1) p by (auto simp: vi_ok_def)
  let ?y = "?x\<lparr>page_end := e', screen := s'\<rparr>"
  have "do_insert_mode 8 v = Inr ?y"
    using f p g assms(1,2) by (simp add: do_insert_mode_def vi_ok_def)
  moreover have "shift_up (vbuf v) (vsize v) (-1) = Inl Fault"
    using assms(1,3) by (intro shift_up_below) (auto simp: vi_ok_def)
  then have "do_insert_mode c ?y = Inl Fault"
    using assms(3,4,5) by (simp add: do_insert_mode_def insert_key_def BUFFER_SIZE_def)
  ultimately show ?thesis by auto
qed

end
