(* ===== verification/FileTreeThms.thy ===== *)
theory FileTreeThms
  imports FileTree
begin

text \<open>
  What the tree of \<open>FileTree\<close> keeps about the entries of the root directory: the children of the
  root are a list that \<^verbatim>\<open>becomeChild\<close> puts a node in front of, and \<^verbatim>\<open>findNode\<close> gives the first one with
  the path. Deeper levels are searched below the first child only, as the last lemma shows.
\<close>

section \<open>Brothers\<close>

text \<open>The nodes from \<open>c\<close> on along \<^verbatim>\<open>next\<close>, every name with its terminator.\<close>

fun chain :: "nodes \<Rightarrow> u32 \<Rightarrow> u32 list \<Rightarrow> bool" where
  "chain ns c [] \<longleftrightarrow> c = 0"
| "chain ns c (x # xs) \<longleftrightarrow> c = x \<and> x \<noteq> 0 \<and> (\<exists>n. ns x = Some n \<and> 0 \<in> set (node_name n) \<and> chain ns (next_node n) xs)"

definition path_of :: "nodes \<Rightarrow> u32 \<Rightarrow> u8 list" where
  "path_of ns x = (case ns x of None \<Rightarrow> [] | Some n \<Rightarrow> c_text (node_name n))"

lemma c_text_split: "0 \<in> set b \<Longrightarrow> \<exists>r. b = c_text b @ 0 # r"
proof -
  assume "0 \<in> set b"
  then have "dropWhile (\<lambda>c. c \<noteq> 0) b \<noteq> []" by (auto simp: dropWhile_eq_Nil_conv)
  then have "dropWhile (\<lambda>c. c \<noteq> 0) b = 0 # tl (dropWhile (\<lambda>c. c \<noteq> 0) b)"
    using hd_dropWhile [of "\<lambda>c. c \<noteq> 0" b] by (cases "dropWhile (\<lambda>c. c \<noteq> 0) b") auto
  then show ?thesis unfolding c_text_def by (metis takeWhile_dropWhile_id)
qed

lemma c_text_no_nul [simp]: "0 \<notin> set (c_text b)"
  by (auto simp: c_text_def dest: set_takeWhileD)

lemma agree_strings:
  "0 \<notin> set t \<Longrightarrow> 0 \<notin> set q \<Longrightarrow> agree (Suc (length t)) (t @ 0 # a) (q @ 0 # b) = Inr (t = q)"
proof (induction t arbitrary: q)
  case Nil
  then show ?case by (cases q) auto
next
  case (Cons x t)
  show ?case
  proof (cases q)
    case (Cons y q')
    then show ?thesis using Cons.IH [of q'] Cons.prems by simp
  qed (use Cons.prems in auto)
qed

lemma matching_path:
  assumes "ns x = Some n" "0 \<in> set (node_name n)" "0 \<notin> set q"
  shows "matching ns x (q @ 0 # r) = Inr (path_of ns x = q)"
proof -
  obtain a where "node_name n = c_text (node_name n) @ 0 # a" using c_text_split [OF assms(2)] by blast
  then have "agree (Suc (length (c_text (node_name n)))) (node_name n) (q @ 0 # r) = Inr (c_text (node_name n) = q)"
    using agree_strings [of "c_text (node_name n)" q a r] assms(3) by simp
  then show ?thesis using assms by (simp add: matching_def node_at_def path_of_def)
qed

definition first_with :: "nodes \<Rightarrow> u8 list \<Rightarrow> u32 list \<Rightarrow> u32" where
  "first_with ns q xs = (case find (\<lambda>x. path_of ns x = q) xs of None \<Rightarrow> 0 | Some x \<Rightarrow> x)"

lemma find_brother_chain:
  "chain ns c xs \<Longrightarrow> xs \<noteq> [] \<Longrightarrow> 0 \<notin> set q \<Longrightarrow> find_brother ns (q @ 0 # r) c = Some (Inr (first_with ns q xs))"
proof (induction xs arbitrary: c)
  case (Cons x xs)
  obtain n where n: "c = x" "x \<noteq> 0" "ns x = Some n" "0 \<in> set (node_name n)" "chain ns (next_node n) xs" using Cons.prems by auto
  have "next_node n = 0 \<longleftrightarrow> xs = []" using n(5) by (cases xs) auto
  then show ?case using Cons n matching_path [of ns x n q r]
    by (subst find_brother.simps) (auto simp: node_at_def first_with_def)
qed simp

lemma first_with_zero: "chain ns c xs \<Longrightarrow> first_with ns q xs = 0 \<longleftrightarrow> (\<forall>x\<in>set xs. path_of ns x \<noteq> q)"
proof -
  assume "chain ns c xs"
  then have nz: "\<forall>x\<in>set xs. x \<noteq> 0" by (induction xs arbitrary: c) auto
  show ?thesis
  proof (cases "find (\<lambda>x. path_of ns x = q) xs")
    case None
    then have "\<forall>x\<in>set xs. path_of ns x \<noteq> q" by (auto simp: find_None_iff)
    then show ?thesis using None by (simp add: first_with_def)
  next
    case (Some x)
    then have "x \<in> set xs" "path_of ns x = q" by (auto simp: find_Some_iff)
    then show ?thesis using Some nz by (auto simp: first_with_def)
  qed
qed

section \<open>The root and its entries\<close>

definition root_dir :: "nodes \<Rightarrow> u32 \<Rightarrow> u32 list \<Rightarrow> bool" where
  "root_dir ns rp cs \<longleftrightarrow> distinct (rp # cs) \<and> chain ns rp [rp] \<and> path_of ns rp = [47]
     \<and> chain ns (child (the (ns rp))) cs"

lemma findNode_root_dir:
  assumes "root_dir ns rp cs" "0 \<notin> set q" "q = [47] \<or> (\<exists>x\<in>set cs. path_of ns x = q)"
  shows "findNode ns rp (q @ 0 # r) = Inr (if q = [47] then rp else first_with ns q cs)"
proof -
  obtain n where n: "rp \<noteq> 0" "ns rp = Some n" "chain ns rp [rp]" "path_of ns rp = [47]" "chain ns (child n) cs"
    using assms(1) by (auto simp: root_dir_def)
  have top: "find_brother ns (q @ 0 # r) rp = Some (Inr (if q = [47] then rp else 0))"
    using find_brother_chain [OF n(3) _ assms(2), of r] n(4) by (auto simp: first_with_def)
  show ?thesis
  proof (cases "q = [47]")
    case True
    then show ?thesis using top n by (simp add: findNode_def find_level.simps [of _ _ rp] node_at_def)
  next
    case False
    then have cs: "\<exists>x\<in>set cs. path_of ns x = q" "cs \<noteq> []" using assms(3) by auto
    then have "child n \<noteq> 0" using n(5) by (cases cs) auto
    moreover have "first_with ns q cs \<noteq> 0" using cs(1) first_with_zero [OF n(5), of q] by blast
    moreover obtain m where "ns (child n) = Some m" using n(5) cs(2) by (cases cs) auto
    moreover have "find_brother ns (q @ 0 # r) (child n) = Some (Inr (first_with ns q cs))"
      by (rule find_brother_chain [OF n(5) cs(2) assms(2)])
    ultimately have "find_level ns (q @ 0 # r) (child n) = Some (Inr (first_with ns q cs))"
      by (simp add: find_level.simps [of _ _ "child n"] node_at_def)
    then show ?thesis using top n False by (simp add: findNode_def find_level.simps [of _ _ rp] node_at_def)
  qed
qed

text \<open>
  A path that no entry has is searched for below the first entry; when that has no children, nothing is
  found.
\<close>

lemma findNode_not_there:
  assumes "root_dir ns rp (x # cs)" "0 \<notin> set q" "q \<noteq> [47]" "\<forall>y\<in>set (x # cs). path_of ns y \<noteq> q" "child (the (ns x)) = 0"
  shows "findNode ns rp (q @ 0 # r) = Inr 0"
proof -
  obtain n m where n: "rp \<noteq> 0" "ns rp = Some n" "chain ns rp [rp]" "path_of ns rp = [47]" "chain ns (child n) (x # cs)"
    "child n = x" "x \<noteq> 0" "ns x = Some m"
    using assms(1) by (auto simp: root_dir_def)
  have top: "find_brother ns (q @ 0 # r) rp = Some (Inr 0)"
    using find_brother_chain [OF n(3) _ assms(2), of r] n(4) assms(3) by (auto simp: first_with_def)
  have "find_brother ns (q @ 0 # r) x = Some (Inr (first_with ns q (x # cs)))"
    using find_brother_chain [OF n(5) _ assms(2), of r] n(6) by simp
  moreover have "first_with ns q (x # cs) = 0" using first_with_zero [OF n(5), of q] assms(4) by blast
  ultimately have "find_level ns (q @ 0 # r) x = Some (Inr 0)"
    using n(7,8) assms(5) by (simp add: find_level.simps [of _ _ x] find_level.simps [of _ _ 0] node_at_def)
  then show ?thesis using top n by (simp add: findNode_def find_level.simps [of _ _ rp] node_at_def)
qed

lemma chain_same:
  "(\<And>x. x \<in> set xs \<Longrightarrow> \<exists>n n'. ns x = Some n \<and> ns' x = Some n' \<and> node_name n' = node_name n \<and> next_node n' = next_node n)
    \<Longrightarrow> chain ns c xs \<Longrightarrow> chain ns' c xs"
proof (induction xs arbitrary: c)
  case (Cons x xs)
  obtain n n' where "ns x = Some n" "ns' x = Some n'" "node_name n' = node_name n" "next_node n' = next_node n"
    using Cons.prems(1) [of x] by auto
  moreover have "chain ns' (next_node n) xs" using Cons calculation by (intro Cons.IH) auto
  ultimately show ?case using Cons.prems(2) by auto
qed simp

lemma chain_allocated: "chain ns c xs \<Longrightarrow> x \<in> set xs \<Longrightarrow> \<exists>n. ns x = Some n"
  by (induction xs arbitrary: c) auto

lemma becomeChild_root_dir:
  assumes "root_dir ns rp cs" "ns p = Some new" "0 \<in> set (node_name new)" "next_node new = 0" "p \<noteq> 0" "p \<notin> set (rp # cs)"
  shows "\<exists>ns'. becomeChild rp p ns = Inr ns' \<and> root_dir ns' rp (p # cs) \<and> (\<forall>x\<in>set (p # cs). path_of ns' x = path_of ns x)
    \<and> child (the (ns' p)) = child new"
proof -
  obtain n where n: "rp \<noteq> 0" "ns rp = Some n" "0 \<in> set (node_name n)" "next_node n = 0" "path_of ns rp = [47]" "chain ns (child n) cs" "distinct (rp # cs)"
    using assms(1) by (auto simp: root_dir_def)
  show ?thesis
  proof (cases "cs = []")
    case True
    then have "child n = 0" using n(6) by simp
    then show ?thesis using True n assms
      by (auto simp: becomeChild_def upd_node_def node_at_def root_dir_def path_of_def)
  next
    case False
    define c where "c = child n"
    have c: "c \<in> set cs" "c \<noteq> 0" using n(6) False by (cases cs; simp add: c_def)+
    obtain m where m: "ns c = Some m" using chain_allocated [OF n(6) c(1)] by blast
    have neq: "c \<noteq> rp" "c \<noteq> p" "p \<noteq> rp" using c(1) n(7) assms(6) by auto
    let ?ns = "ns(p \<mapsto> new\<lparr>next_node := c, parent := rp\<rparr>, c \<mapsto> m\<lparr>before := p\<rparr>, rp \<mapsto> n\<lparr>child := p\<rparr>)"
    have "becomeChild rp p ns = Inr ?ns"
      using n m neq assms(2) c(2) by (auto simp: becomeChild_def upd_node_def node_at_def c_def [symmetric] fun_eq_iff)
    moreover have "chain ?ns c cs"
    proof (rule chain_same [OF _ n(6) [folded c_def]])
      fix x assume x: "x \<in> set cs"
      then obtain a where "ns x = Some a" using chain_allocated [OF n(6)] by blast
      moreover have "x \<noteq> p" "x \<noteq> rp" using x assms(6) n(7) by auto
      ultimately show "\<exists>a a'. ns x = Some a \<and> ?ns x = Some a' \<and> node_name a' = node_name a \<and> next_node a' = next_node a"
        using m by (cases "x = c") auto
    qed
    moreover have "path_of ?ns x = path_of ns x" if "x \<in> set (p # cs)" for x
      using that n m neq assms(2) by (auto simp: path_of_def)
    moreover have "path_of ?ns rp = [47]" "child (the (?ns p)) = child new" using n neq by (simp_all add: path_of_def)
    ultimately show ?thesis using n assms neq by (auto simp: root_dir_def)
  qed
qed

text \<open>
  C26. Adding a file to the root directory: afterwards its path leads to the new node, the root and
  the paths of all the other entries lead to the nodes they led to, unless they are the path
  just added; a path that is neither the root's nor an entry's is not found, since the new node, now the
  first entry and the only one that is searched below, has no children.
\<close>

theorem new_entry_found:
  assumes "root_dir ns rp cs" "ns p = Some new" "0 \<in> set (node_name new)" "next_node new = 0" "p \<noteq> 0" "p \<notin> set (rp # cs)"
    and "path_of ns p \<noteq> [47]"
  shows "\<exists>ns'. becomeChild rp p ns = Inr ns' \<and> findNode ns' rp (path_of ns p @ 0 # r) = Inr p
    \<and> findNode ns' rp ([47] @ 0 # r) = Inr rp
    \<and> (\<forall>x\<in>set cs. path_of ns x \<noteq> path_of ns p \<longrightarrow>
          findNode ns' rp (path_of ns x @ 0 # r) = findNode ns rp (path_of ns x @ 0 # r))
    \<and> (child new = 0 \<longrightarrow> (\<forall>q. 0 \<notin> set q \<and> q \<noteq> [47] \<and> q \<notin> path_of ns ` set (p # cs) \<longrightarrow> findNode ns' rp (q @ 0 # r) = Inr 0))"
proof -
  obtain ns' where ns': "becomeChild rp p ns = Inr ns'" "root_dir ns' rp (p # cs)" "\<forall>x\<in>set (p # cs). path_of ns' x = path_of ns x"
    "child (the (ns' p)) = child new"
    using becomeChild_root_dir [OF assms(1-6)] by blast
  have nul: "0 \<notin> set (path_of ns x)" for x by (simp add: path_of_def split: option.splits)
  have "findNode ns' rp (path_of ns p @ 0 # r) = Inr p"
    using findNode_root_dir [OF ns'(2) nul, of p r] ns'(3) assms(7) by (simp add: first_with_def)
  moreover have "findNode ns' rp ([47] @ 0 # r) = Inr rp"
    using findNode_root_dir [OF ns'(2), of "[47]" r] by simp
  moreover have "findNode ns' rp (path_of ns x @ 0 # r) = findNode ns rp (path_of ns x @ 0 # r)"
    if x: "x \<in> set cs" "path_of ns x \<noteq> path_of ns p" for x
  proof -
    have "find (\<lambda>y. path_of ns' y = path_of ns x) cs = find (\<lambda>y. path_of ns y = path_of ns x) cs"
      using ns'(3) by (intro find_cong) auto
    then have "first_with ns' (path_of ns x) (p # cs) = first_with ns (path_of ns x) cs"
      using x(2) ns'(3) by (simp add: first_with_def)
    moreover have "\<exists>y\<in>set (p # cs). path_of ns' y = path_of ns x" using x(1) ns'(3) by (intro bexI [of _ x]) auto
    moreover have "\<exists>y\<in>set cs. path_of ns y = path_of ns x" using x(1) by blast
    ultimately show ?thesis
      using findNode_root_dir [OF ns'(2) nul, of x r] findNode_root_dir [OF assms(1) nul, of x r] by (auto simp del: set_simps)
  qed
  moreover have "findNode ns' rp (q @ 0 # r) = Inr 0" if "child new = 0" "0 \<notin> set q" "q \<noteq> [47]" "q \<notin> path_of ns ` set (p # cs)" for q
    using findNode_not_there [OF ns'(2) that(2,3)] ns'(3,4) that(1,4) by (metis image_eqI)
  ultimately show ?thesis using ns'(1) by blast
qed

text \<open>A tree with the root at 16, \<^verbatim>\<open>/a\<close> at 32, and a new node for \<^verbatim>\<open>/b\<close> at 48.\<close>

definition named :: "u8 list \<Rightarrow> u32 \<Rightarrow> u32 \<Rightarrow> filetree" where
  "named t ch par = \<lparr>node_name = t @ replicate (256 - length t) 0, child = ch, parent = par, next_node = 0, before = 0\<rparr>"

definition demo_tree :: nodes where
  "demo_tree = [16 \<mapsto> named [47] 32 0, 32 \<mapsto> named [47, 97] 0 16, 48 \<mapsto> named [47, 98] 0 0]"

lemma demo_root_dir: "root_dir demo_tree 16 [32]" "path_of demo_tree 32 = [47, 97]" "path_of demo_tree 48 = [47, 98]"
  by (simp_all add: root_dir_def demo_tree_def named_def path_of_def c_text_def)

theorem new_entry_found_witness:
  "\<exists>ns'. becomeChild 16 48 demo_tree = Inr ns' \<and> findNode ns' 16 [47, 98, 0] = Inr 48
    \<and> findNode ns' 16 [47, 97, 0] = findNode demo_tree 16 [47, 97, 0] \<and> findNode ns' 16 [47, 99, 0] = Inr 0"
proof -
  have "demo_tree 48 = Some (named [47, 98] 0 0)" by (simp add: demo_tree_def)
  then show ?thesis
    using new_entry_found [OF demo_root_dir(1), of 48 "named [47, 98] 0 0" "[]"]
    by (auto simp: demo_root_dir named_def dest: spec [of _ "[47, 99]"])
qed

text \<open>
  Below the root the search goes down the first child only: with \<^verbatim>\<open>/b\<close> added after \<^verbatim>\<open>/a\<close>, a file
  inside \<^verbatim>\<open>/a\<close> is not found, and deleting it follows \<^verbatim>\<open>NULL\<close>.
\<close>

definition deep_tree :: nodes where
  "deep_tree = [16 \<mapsto> named [47] 48 0, 48 \<mapsto> (named [47, 98] 0 16)\<lparr>next_node := 32\<rparr>,
     32 \<mapsto> (named [47, 97] 64 16)\<lparr>before := 48\<rparr>, 64 \<mapsto> named [47, 97, 47, 120] 0 32]"

lemma deep_root_dir: "root_dir deep_tree 16 [48, 32]" "path_of deep_tree 48 = [47, 98]" "path_of deep_tree 32 = [47, 97]" "path_of deep_tree 16 = [47]"
  by (simp_all add: root_dir_def deep_tree_def named_def path_of_def c_text_def)

lemma deep_entry_not_found:
  "findNode deep_tree 16 [47, 97, 47, 120, 0] = Inr 0" "deleteNode 16 [47, 97, 47, 120, 0] deep_tree = Inl Fault"
proof -
  have nodes: "deep_tree 16 = Some (named [47] 48 0)" "deep_tree 48 = Some ((named [47, 98] 0 16)\<lparr>next_node := 32\<rparr>)" "deep_tree 0 = None"
    by (simp_all add: deep_tree_def)
  have c: "chain deep_tree 16 [16]" "chain deep_tree 48 [48, 32]" using deep_root_dir(1) by (simp_all add: root_dir_def nodes named_def)
  have "find_brother deep_tree [47, 97, 47, 120, 0] 16 = Some (Inr 0)" "find_brother deep_tree [47, 97, 47, 120, 0] 48 = Some (Inr 0)"
    using find_brother_chain [OF c(1), of "[47, 97, 47, 120]" "[]"] find_brother_chain [OF c(2), of "[47, 97, 47, 120]" "[]"]
    by (simp_all add: first_with_def deep_root_dir)
  then show f: "findNode deep_tree 16 [47, 97, 47, 120, 0] = Inr 0"
    using nodes by (simp add: findNode_def find_level.simps [of _ _ 16] find_level.simps [of _ _ 48] find_level.simps [of _ _ 0] node_at_def named_def)
  then show "deleteNode 16 [47, 97, 47, 120, 0] deep_tree = Inl Fault"
    using nodes by (simp add: deleteNode_def node_at_def)
qed

end
