(* ===== verification/Cd.thy ===== *)
theory Cd
  imports Prelude
begin

text \<open>
  The text handling of the shell's commands: the working directory of \<^verbatim>\<open>usr/cd.c\<close>, a path in an
  array of 256 bytes, and the scanning of arguments in \<^verbatim>\<open>usr/ls.c\<close>. A pointer into an array is the
  list of the bytes from it to the end of the array; an access behind the end is a fault.
\<close>

section \<open>Arrays indexed by natural numbers\<close>

definition rdn :: "'a list \<Rightarrow> nat \<Rightarrow> 'a res" where
  "rdn xs i = (if i < length xs then Inr (xs ! i) else Inl Fault)"

definition wrn :: "'a list \<Rightarrow> nat \<Rightarrow> 'a \<Rightarrow> 'a list res" where
  "wrn xs i v = (if i < length xs then Inr (xs[i := v]) else Inl Fault)"

lemma rdn_in_range [simp]: "i < length xs \<Longrightarrow> rdn xs i = Inr (xs ! i)"
  by (simp add: rdn_def)

lemma wrn_in_range [simp]: "i < length xs \<Longrightarrow> wrn xs i v = Inr (xs[i := v])"
  by (simp add: wrn_def)

lemma rdn_eq_Inr [res_simps]: "rdn xs i = Inr v \<longleftrightarrow> i < length xs \<and> v = xs ! i"
  by (auto simp: rdn_def)

lemma wrn_eq_Inr [res_simps]: "wrn xs i v = Inr ys \<longleftrightarrow> i < length xs \<and> ys = xs[i := v]"
  by (auto simp: wrn_def)

section \<open>Arguments\<close>

primrec strlen :: "u8 list \<Rightarrow> nat res" where
  "strlen [] = Inl Fault"
| "strlen (c # s) = (if c = 0 then Inr 0 else rbind (strlen s) (\<lambda>n. Inr (Suc n)))"

primrec count_blanks :: "u8 list \<Rightarrow> nat res" where
  "count_blanks [] = Inl Fault"
| "count_blanks (c # s) = (if c = 32 then rbind (count_blanks s) (\<lambda>n. Inr (Suc n)) else Inr 0)"

text \<open>\<^verbatim>\<open>while (*s) { *(s - index) = *s; ++s; }\<close> with \<^verbatim>\<open>s\<close> as a position; it gives where \<^verbatim>\<open>s\<close> stops.\<close>

function move_front :: "nat \<Rightarrow> nat \<Rightarrow> u8 list \<Rightarrow> (nat \<times> u8 list) res" where
  "move_front index s str =
     (if s < length str
      then if str ! s \<noteq> 0 then move_front index (s + 1) (str[s - index := str ! s]) else Inr (s, str)
      else Inl Fault)"
  by pat_completeness auto
termination by (relation "measure (\<lambda>(index, s, str). length str - s)") auto

declare move_front.simps [simp del]

definition cut_front_blank :: "u8 list \<Rightarrow> u8 list res" where
  "cut_front_blank str = rbind (count_blanks str) (\<lambda>index.
     if index = 0 then Inr str
     else rbind (move_front index index str) (\<lambda>(s, str). Inr (str[s - 1 := 0])))"

text \<open>The next word, up to \<open>ch\<close> or the terminator, goes to the array \<open>word\<close>; the result is where it ends.\<close>

function each_loop :: "u8 list \<Rightarrow> u8 list \<Rightarrow> nat \<Rightarrow> nat \<Rightarrow> u8 \<Rightarrow> (nat \<times> u8 list) res" where
  "each_loop para word index off ch =
     (if off < length para
      then if para ! off \<noteq> 0 \<and> para ! off \<noteq> ch
           then rbind (wrn word index (para ! off)) (\<lambda>word. each_loop para word (index + 1) (off + 1) ch)
           else rbind (wrn word index 0) (\<lambda>word. Inr (off, word))
      else Inl Fault)"
  by pat_completeness auto
termination by (relation "measure (\<lambda>(para, word, index, off, ch). length para - off)") auto

declare each_loop.simps [simp del]

definition each_param :: "u8 list \<Rightarrow> u8 list \<Rightarrow> nat \<Rightarrow> u8 \<Rightarrow> (nat \<times> u8 list) res" where
  "each_param para word off ch = each_loop para word 0 off ch"

section \<open>The working directory\<close>

text \<open>\<^verbatim>\<open>while (j != 1 && pwd[j-1] != '/') { pwd[j-1] = 0; j--; }\<close>\<close>

primrec up_loop :: "nat \<Rightarrow> u8 list \<Rightarrow> (nat \<times> u8 list) res" where
  "up_loop 0 pwd = Inl Fault"
| "up_loop (Suc k) pwd =
     (if Suc k = 1 then Inr (Suc k, pwd)
      else rbind (rdn pwd k) (\<lambda>c. if c \<noteq> 47 then rbind (wrn pwd k 0) (up_loop k) else Inr (Suc k, pwd)))"

primrec copy_param :: "u8 list \<Rightarrow> nat \<Rightarrow> nat \<Rightarrow> u8 list \<Rightarrow> u8 list res" where
  "copy_param param 0 pos pwd = Inr pwd"
| "copy_param param (Suc i) pos pwd =
     rbind (rdn param 0) (\<lambda>c. rbind (wrn pwd pos c) (copy_param (tl param) i (pos + 1)))"

definition do_cd :: "u8 list \<Rightarrow> u8 list \<Rightarrow> u8 list res" where
  "do_cd param pwd =
     rbind (strlen param) (\<lambda>i. rbind (strlen pwd) (\<lambda>len.
     rbind (rdn param 0) (\<lambda>c.
     if c = 46 then
       rbind (rdn param 1) (\<lambda>d.
       if d = 46 then
         rbind (up_loop len pwd) (\<lambda>(j, pwd). if j \<noteq> 1 then wrn pwd (j - 1) 0 else Inr pwd)
       else Inr pwd)
     else if len \<noteq> 1 then
       rbind (wrn pwd len 47) (\<lambda>pwd. rbind (copy_param param i (len + 1) pwd) (\<lambda>pwd. wrn pwd (len + i + 1) 0))
     else rbind (copy_param param i len pwd) (\<lambda>pwd. wrn pwd (len + i) 0))))"

section \<open>What they do\<close>

text \<open>The path an array holds.\<close>

definition cwd :: "u8 list \<Rightarrow> u8 list" where
  "cwd pwd = takeWhile (\<lambda>c. c \<noteq> 0) pwd"

lemma cwd_append [simp]: "0 \<notin> set t \<Longrightarrow> cwd (t @ 0 # r) = t"
  by (auto simp: cwd_def takeWhile_append)

lemma cwd_split: "0 \<in> set pwd \<Longrightarrow> \<exists>r. pwd = cwd pwd @ 0 # r"
proof -
  assume "0 \<in> set pwd"
  then have "dropWhile (\<lambda>c. c \<noteq> 0) pwd \<noteq> []" by (auto simp: dropWhile_eq_Nil_conv)
  then have "dropWhile (\<lambda>c. c \<noteq> 0) pwd = 0 # tl (dropWhile (\<lambda>c. c \<noteq> 0) pwd)"
    using hd_dropWhile [of "\<lambda>c. c \<noteq> 0" pwd] by (cases "dropWhile (\<lambda>c. c \<noteq> 0) pwd") auto
  then show ?thesis unfolding cwd_def by (metis takeWhile_dropWhile_id)
qed

lemma cwd_no_nul [simp]: "0 \<notin> set (cwd pwd)"
  by (auto simp: cwd_def dest: set_takeWhileD)

lemma strlen_append [simp]: "0 \<notin> set t \<Longrightarrow> strlen (t @ 0 # r) = Inr (length t)"
  by (induction t) auto

lemma copy_param_spec:
  "pos + length n \<le> length pwd \<Longrightarrow>
    copy_param (n @ r) (length n) pos pwd = Inr (take pos pwd @ n @ drop (pos + length n) pwd)"
proof (induction n arbitrary: pos pwd)
  case (Cons c n)
  then have "copy_param (n @ r) (length n) (pos + 1) (pwd[pos := c])
      = Inr (take (pos + 1) (pwd[pos := c]) @ n @ drop (pos + 1 + length n) (pwd[pos := c]))"
    by simp
  moreover have "take (pos + 1) (pwd[pos := c]) = take pos pwd @ [c]" using Cons.prems by (simp add: take_update_last)
  ultimately show ?case using Cons.prems by simp
qed simp

text \<open>Going up erases the last component: the bytes behind the last slash.\<close>

lemma up_loop_spec:
  "47 \<notin> set n \<Longrightarrow> up_loop (length p + 1 + length n) (p @ 47 # n @ r) = Inr (length p + 1, p @ 47 # replicate (length n) 0 @ r)"
proof (induction n arbitrary: r rule: rev_induct)
  case (snoc c n)
  have "(p @ 47 # (n @ [c]) @ r)[length p + 1 + length n := 0] = p @ 47 # n @ (0 # r)"
    by (simp add: list_update_append)
  moreover have "(p @ 47 # (n @ [c]) @ r) ! (length p + 1 + length n) = c"
    by (simp add: nth_append)
  ultimately have "up_loop (length p + 1 + length (n @ [c])) (p @ 47 # (n @ [c]) @ r)
      = up_loop (length p + 1 + length n) (p @ 47 # n @ (0 # r))"
    using snoc.prems by simp
  also have "\<dots> = Inr (length p + 1, p @ 47 # replicate (length n) 0 @ (0 # r))"
    using snoc.IH [of "0 # r"] snoc.prems by simp
  also have "replicate (length n) 0 @ (0 # r) = replicate (length (n @ [c])) 0 @ r"
    by (simp add: replicate_append_same [symmetric])
  finally show ?case .
qed simp

text \<open>A name as one types it: not empty, not starting with a dot, without a slash.\<close>

definition dir_name :: "u8 list \<Rightarrow> bool" where
  "dir_name n \<longleftrightarrow> n \<noteq> [] \<and> hd n \<noteq> 46 \<and> 0 \<notin> set n \<and> 47 \<notin> set n"

lemma do_cd_name:
  assumes "dir_name n" "0 \<notin> set t" "t \<noteq> []" "length t + length n + 2 \<le> length (t @ 0 # r)"
  shows "\<exists>r'. do_cd (n @ 0 # e) (t @ 0 # r) = Inr ((if length t = 1 then t else t @ [47]) @ n @ 0 # r')
    \<and> length ((if length t = 1 then t else t @ [47]) @ n @ 0 # r') = length (t @ 0 # r)"
proof -
  let ?t = "if length t = 1 then t else t @ [47]"
  define pwd where "pwd = (if length t = 1 then t @ 0 # r else t @ 47 # r)"
  have len: "length ?t + length n < length pwd" using assms(4) by (simp add: pwd_def)
  have pre: "take (length ?t) pwd = ?t" by (simp add: pwd_def)
  have copied: "copy_param (n @ 0 # e) (length n) (length ?t) pwd = Inr (?t @ n @ drop (length ?t + length n) pwd)"
    using copy_param_spec [of "length ?t" n pwd "0 # e"] len pre by simp
  have tail: "drop (length ?t + length n) pwd = pwd ! (length ?t + length n) # drop (length ?t + length n + 1) pwd"
    using len by (simp add: Cons_nth_drop_Suc)
  have "do_cd (n @ 0 # e) (t @ 0 # r) = rbind (copy_param (n @ 0 # e) (length n) (length ?t) pwd) (\<lambda>pwd. wrn pwd (length ?t + length n) 0)"
    using assms by (cases n) (auto simp: do_cd_def dir_name_def pwd_def)
  also have "\<dots> = Inr (?t @ n @ 0 # drop (length ?t + length n + 1) pwd)"
    unfolding copied tail by (simp add: list_update_append)
  finally show ?thesis using len
    by (intro exI [of _ "drop (length ?t + length n + 1) pwd"]) (simp add: pwd_def split: if_splits)
qed

lemma do_cd_up:
  assumes "0 \<notin> set (p @ 47 # n)" "47 \<notin> set n" "strlen (46 # 46 # e) = Inr k"
  shows "do_cd (46 # 46 # e) (p @ 47 # n @ 0 # r)
    = Inr (if p = [] then 47 # replicate (length n) 0 @ 0 # r else p @ 0 # replicate (length n) 0 @ 0 # r)"
proof -
  have "strlen (p @ 47 # n @ 0 # r) = Inr (length p + 1 + length n)"
    using strlen_append [of "p @ 47 # n" r] assms(1) by simp
  then show ?thesis using up_loop_spec [OF assms(2), of p "0 # r"] assms(3)
    by (simp add: do_cd_def list_update_append)
qed

text \<open>
  \<^verbatim>\<open>cd ..\<close> undoes \<^verbatim>\<open>cd name\<close>: from any directory, with room for the name in the array of 256
  bytes, the first leads to the named entry of the directory and the second back to it.
\<close>

lemma cd_up_undoes_cd:
  assumes "length pwd = 256" "0 \<in> set pwd" "cwd pwd = t" "t = [47] \<or> (t \<noteq> [] \<and> length t \<noteq> 1)"
    and "dir_name n" "length t + length n + 2 \<le> 256"
  shows "\<exists>pwd' pwd''. do_cd (n @ 0 # e) pwd = Inr pwd' \<and> cwd pwd' = (if t = [47] then [] else t) @ 47 # n
    \<and> do_cd (46 # 46 # 0 # e') pwd' = Inr pwd'' \<and> cwd pwd'' = t \<and> length pwd'' = 256"
proof -
  obtain r where pwd: "pwd = t @ 0 # r" and t: "0 \<notin> set t" "t \<noteq> []"
    using cwd_split [OF assms(2)] assms(3,4) by auto
  let ?p = "if t = [47] then [] else t"
  have one: "length t = 1 \<longleftrightarrow> t = [47]" using assms(4) by auto
  then have pn: "(if length t = 1 then t else t @ [47]) @ n @ 0 # r' = ?p @ 47 # n @ 0 # r'" for r' by simp
  obtain r' where down: "do_cd (n @ 0 # e) pwd = Inr (?p @ 47 # n @ 0 # r')" "length (?p @ 47 # n @ 0 # r') = 256"
    using do_cd_name [OF assms(5) t, of r e] assms(1,6) unfolding pwd pn by metis
  have nul: "0 \<notin> set (?p @ 47 # n)" "47 \<notin> set n" using assms(5) t by (auto simp: dir_name_def)
  let ?up = "if ?p = [] then 47 # replicate (length n) 0 @ 0 # r' else ?p @ 0 # replicate (length n) 0 @ 0 # r'"
  have up: "do_cd (46 # 46 # 0 # e') (?p @ 47 # n @ 0 # r') = Inr ?up"
    using do_cd_up [OF nul, of "0 # e'" 2] by simp
  have "cwd (?p @ 47 # n @ 0 # r') = ?p @ 47 # n" using cwd_append [OF nul(1), of r'] by simp
  moreover have "cwd ?up = t" using t by (cases n) (auto simp: cwd_def takeWhile_append)
  moreover have "length ?up = 256" using down(2) t by (simp split: if_splits)
  ultimately show ?thesis using down(1) up by blast
qed

lemma cd_up_undoes_cd_witness:
  "\<exists>pwd' pwd''. do_cd [98, 105, 110, 0] (47 # replicate 255 0) = Inr pwd' \<and> cwd pwd' = [47, 98, 105, 110]
    \<and> do_cd [46, 46, 0] pwd' = Inr pwd'' \<and> cwd pwd'' = [47] \<and> length pwd'' = 256"
  using cd_up_undoes_cd [of "47 # replicate 255 0" "[47]" "[98, 105, 110]" "[]" "[]"]
  by (simp add: cwd_def dir_name_def)

section \<open>Leading blanks\<close>

lemma count_blanks_spec: "hd (t @ [0]) \<noteq> 32 \<Longrightarrow> count_blanks (replicate k 32 @ t @ 0 # r) = Inr k"
  by (induction k) (cases t; simp)+

lemma move_front_spec:
  assumes "0 \<notin> set t" "0 < k"
  shows "m \<le> length t \<Longrightarrow>
    move_front k (k + m) (take m t @ drop m (replicate k 32 @ t @ 0 # r)) = Inr (k + length t, t @ drop (length t) (replicate k 32 @ t @ 0 # r))"
proof (induction "length t - m" arbitrary: m)
  case 0
  then have "m = length t" by simp
  moreover have "(t @ drop (length t) (replicate k 32 @ t @ 0 # r)) ! (k + length t) = (replicate k 32 @ t @ 0 # r) ! (k + length t)"
    by (simp add: nth_append add.commute del: drop_append)
  moreover have "(replicate k 32 @ t @ 0 # r) ! (k + length t) = 0" by (simp add: nth_append)
  ultimately show ?case by (subst move_front.simps) simp
next
  case (Suc d)
  let ?all = "replicate k 32 @ t @ 0 # r" and ?s = "take m t @ drop m (replicate k 32 @ t @ 0 # r)"
  have m: "m < length t" using Suc.hyps(2) by simp
  have "?s ! (k + m) = ?all ! (k + m)" using m by (simp add: nth_append add.commute del: drop_append)
  then have at: "?s ! (k + m) = t ! m" using m by (simp add: nth_append)
  have "?s[m := t ! m] = take (Suc m) t @ drop (Suc m) ?all"
    using m by (simp add: list_update_append take_Suc_conv_app_nth drop_update_first drop_Cons' Cons_nth_drop_Suc [symmetric, of m ?all] del: drop_append)
  moreover have "t ! m \<noteq> 0" using assms(1) m by (metis nth_mem)
  moreover have "move_front k (k + Suc m) (take (Suc m) t @ drop (Suc m) ?all) = Inr (k + length t, t @ drop (length t) ?all)"
    using Suc.hyps(1) [of "Suc m"] Suc.hyps(2) m by simp
  ultimately show ?case using m at by (subst move_front.simps) simp
qed

lemma cut_front_blank_text:
  assumes "0 \<notin> set t" "hd (t @ [0]) \<noteq> 32"
  shows "\<exists>r'. cut_front_blank (replicate k 32 @ t @ 0 # r) = Inr (t @ take (k - 1) (drop (length t) (replicate k 32 @ t)) @ 0 # r')"
proof (cases k)
  case 0
  then show ?thesis using count_blanks_spec [OF assms(2), of k r] by (simp add: cut_front_blank_def)
next
  case (Suc j)
  let ?u = "drop (length t) (replicate k 32 @ t)"
  have u: "length ?u = k" by simp
  have "t @ drop (length t) (replicate k 32 @ t @ 0 # r) = t @ ?u @ 0 # r" by simp
  also have "?u = take j ?u @ [?u ! j]" using u Suc by (metis lessI take_Suc_conv_app_nth take_all order_refl)
  finally have "(t @ drop (length t) (replicate k 32 @ t @ 0 # r))[k + length t - 1 := 0] = t @ take j ?u @ 0 # 0 # r"
    using u Suc by (simp add: list_update_append)
  then show ?thesis
    using move_front_spec [OF assms(1), of k 0 r] count_blanks_spec [OF assms(2), of k r] Suc
    by (simp add: cut_front_blank_def)
qed

text \<open>
  \<^verbatim>\<open>cut_front_blank\<close> removes the blank in front of a text when there is one; of k blanks it
  leaves k - 1 characters of the old text behind the moved one.
\<close>

lemma cut_front_blank_result:
  assumes "0 \<notin> set t" "hd (t @ [0]) \<noteq> 32"
  shows "\<exists>str. cut_front_blank (replicate k 32 @ t @ 0 # r) = Inr str
    \<and> cwd str = t @ take (k - 1) (drop (length t) (replicate k 32 @ t))"
proof -
  let ?w = "t @ take (k - 1) (drop (length t) (replicate k 32 @ t))"
  have "0 \<notin> set ?w" using assms(1) by (auto dest!: in_set_takeD in_set_dropD)
  then show ?thesis using cut_front_blank_text [OF assms, of k r] cwd_append [of ?w] by auto
qed

lemma cut_front_blank_result_witness:
  "(\<exists>str. cut_front_blank [32, 97, 98, 0] = Inr str \<and> cwd str = [97, 98])
    \<and> (\<exists>str. cut_front_blank [32, 32, 97, 98, 0] = Inr str \<and> cwd str = [97, 98, 97])"
proof -
  have "replicate 2 (32 :: u8) = [32, 32]" by (simp add: numeral_2_eq_2)
  then show ?thesis
    using cut_front_blank_result [of "[97, 98]" 1 "[]"] cut_front_blank_result [of "[97, 98]" 2 "[]"] by simp
qed

end
