(* ===== verification/LineEditor.thy ===== *)
theory LineEditor
  imports VgaThms
begin

text \<open>
  The line editor of the shell, the loop of \<^verbatim>\<open>ps\<close> in \<^verbatim>\<open>usr/ps.c\<close> up to the newline: the line typed
  so far is the first \<^verbatim>\<open>ps_buffer_index\<close> bytes of an array of 64, and every change is shown on the
  screen. The index is a natural number: it starts at 0 and is decremented only when it is not 0.
\<close>

record shell =
  ps_buffer :: "u8 list"
  ps_buffer_index :: nat
  pwd :: "u8 list"

section \<open>The editor\<close>

definition ps_init :: "shell \<Rightarrow> shell" where
  "ps_init sh = sh\<lparr>pwd := 47 # replicate 255 0, ps_buffer_index := 0, ps_buffer := replicate 64 0\<rparr>"

definition erase_char :: "shell \<times> vga \<Rightarrow> shell \<times> vga" where
  "erase_char = (\<lambda>(sh, v).
     if ps_buffer_index sh \<noteq> 0 then
       (sh\<lparr>ps_buffer_index := ps_buffer_index sh - 1\<rparr>,
        let v = kernel_putchar_at 32 0xfff 0 (cursor_row v) (cursor_col v - 1) v
        in kernel_set_cursor (v\<lparr>cursor_col := cursor_col v - 1\<rparr>))
     else (sh, v))"

definition add_char :: "u8 \<Rightarrow> shell \<times> vga \<Rightarrow> (shell \<times> vga) res" where
  "add_char c = (\<lambda>(sh, v).
     if ps_buffer_index sh < 63 then
       if ps_buffer_index sh < length (ps_buffer sh) then
         Inr (sh\<lparr>ps_buffer := (ps_buffer sh)[ps_buffer_index sh := c], ps_buffer_index := ps_buffer_index sh + 1\<rparr>,
              kernel_putchar (scast c) 0xfff 0 v)
       else Inl Fault
     else Inr (sh, v))"

definition type_char :: "u8 \<Rightarrow> shell \<times> vga \<Rightarrow> (shell \<times> vga) res" where
  "type_char c x = (if c = 8 then Inr (erase_char x) else add_char c x)"

text \<open>The newline ends the line before the command is looked at.\<close>

definition end_line :: "shell \<Rightarrow> shell res" where
  "end_line sh = (if ps_buffer_index sh < length (ps_buffer sh)
     then Inr (sh\<lparr>ps_buffer := (ps_buffer sh)[ps_buffer_index sh := 0]\<rparr>) else Inl Fault)"

section \<open>What it does\<close>

text \<open>The line as the user sees it: at most 63 characters, and a backspace takes the last one back.\<close>

definition edit :: "u8 list \<Rightarrow> u8 \<Rightarrow> u8 list" where
  "edit line c = (if c = 8 then butlast line else if length line < 63 then line @ [c] else line)"

definition screen_cell :: "u8 \<Rightarrow> u32" where
  "screen_cell c = 0xfff00 + ucast c"

text \<open>The line is in the buffer, and on the screen behind the prompt of five characters.\<close>

definition line_shown :: "u32 \<Rightarrow> u8 list \<Rightarrow> shell \<times> vga \<Rightarrow> bool" where
  "line_shown row line = (\<lambda>(sh, v). length (ps_buffer sh) = 64 \<and> length line \<le> 63
     \<and> ps_buffer_index sh = length line \<and> take (length line) (ps_buffer sh) = line
     \<and> cursor_row v = row \<and> cursor_col v = of_nat (5 + length line)
     \<and> (\<forall>i < length line. char_vram v (row * 128 + of_nat (5 + i)) = screen_cell (line ! i)))"

lemma and_mask_small:
  fixes x :: u32
  assumes "unat x < 2 ^ n"
  shows "x AND mask n = x"
proof -
  have "unat (take_bit n x) = take_bit n (unat x)" by (rule unsigned_take_bit_eq)
  also have "\<dots> = unat x" using assms by (rule take_bit_nat_eq_self)
  finally have "unat (take_bit n x) = unat x" .
  then show ?thesis unfolding take_bit_eq_mask by (metis of_nat_unat ucast_id)
qed

lemma and_31_small: "unat x < 32 \<Longrightarrow> x AND 31 = (x :: u32)"
  using and_mask_small [of x 5] by (simp add: mask_eq_exp_minus_1)

lemma and_127_small: "unat x < 128 \<Longrightarrow> x AND 127 = (x :: u32)"
  using and_mask_small [of x 7] by (simp add: mask_eq_exp_minus_1)

lemma low_byte: "(scast (c :: u8) :: u32) AND 0xff = ucast c"
proof -
  have "(0xff :: u32) = mask 8" by (simp add: mask_eq_exp_minus_1)
  then have "(scast c :: u32) AND 0xff = take_bit 8 (scast c)" by (simp only: take_bit_eq_mask)
  also have "\<dots> = ucast c"
  proof (rule bit_word_eqI)
    fix n assume "n < LENGTH(32)"
    then show "bit (take_bit 8 (scast c) :: u32) n = bit (ucast c :: u32) n"
      by (cases "n < 8") (auto simp: bit_simps min_absorb1 min_absorb2 dest: bit_imp_le_length)
  qed
  finally show ?thesis .
qed

lemma putchar_at_cell:
  assumes "unat row < 32" "unat col < 128"
  shows "kernel_putchar_at ch 0xfff 0 row col v = v\<lparr>char_vram := (char_vram v)(row * 128 + col := 0xfff00 + (ch AND 0xff))\<rparr>"
  using assms by (simp add: kernel_putchar_at_def and_31_small and_127_small VGA_CHAR_MAX_COL_def push_bit_eq_mult)

lemma col_inject:
  fixes a b :: nat
  assumes "a < 128" "b < 128"
  shows "row * 128 + of_nat a = (row * 128 + of_nat b :: u32) \<longleftrightarrow> a = b"
proof -
  have "unat (of_nat a :: u32) = a" "unat (of_nat b :: u32) = b" using assms by (simp_all add: unat_of_nat)
  then have "(of_nat a :: u32) = of_nat b \<longleftrightarrow> a = b" by metis
  then show ?thesis by simp
qed

text \<open>A character that is shown as itself.\<close>

definition typed :: "u8 \<Rightarrow> bool" where
  "typed c \<longleftrightarrow> c \<noteq> 9 \<and> c \<noteq> 10 \<and> c \<noteq> 13"

lemma scast_eq_iff: "(scast (c :: u8) :: u32) = scast d \<longleftrightarrow> c = d"
proof
  assume "(scast c :: u32) = scast d"
  then have "(ucast c :: u32) = ucast d" by (metis low_byte)
  then have "unat (ucast c :: u32) = unat (ucast d :: u32)" by simp
  moreover have "unat c < 2 ^ 32" "unat d < 2 ^ 32" using unsigned_less [of c, where 'a = nat] unsigned_less [of d, where 'a = nat] by simp_all
  ultimately have "unat c = unat d" by (simp add: unsigned_ucast_eq take_bit_nat_eq_self del: unsigned_less)
  then show "c = d" by (simp only: word_unat_eq_iff)
qed simp

lemma putchar_typed:
  assumes "typed c" "cursor_col v \<noteq> 80"
  shows "kernel_putchar (scast c) 0xfff 0 v = putchar_other (scast c) 0xfff 0 v"
proof -
  have "(scast c :: u32) \<noteq> scast (13 :: u8)" "(scast c :: u32) \<noteq> scast (10 :: u8)" "(scast c :: u32) \<noteq> scast (9 :: u8)"
    using assms(1) unfolding scast_eq_iff by (simp_all add: typed_def)
  then show ?thesis by (simp add: kernel_putchar_def)
qed

lemma shown_col:
  assumes "line_shown row line (sh, v)"
  shows "unat (cursor_col v) = 5 + length line" "unat (cursor_col v) < 80" "cursor_col v \<noteq> 80"
proof -
  have "length line \<le> 63" "cursor_col v = of_nat (5 + length line)" using assms by (simp_all add: line_shown_def)
  then show u: "unat (cursor_col v) = 5 + length line" "unat (cursor_col v) < 80" by (simp_all add: unat_of_nat del: of_nat_add)
  then show "cursor_col v \<noteq> 80" by auto
qed

lemma add_char_shown:
  assumes "line_shown row line (sh, v)" "unat row < 29" "typed c" "c \<noteq> 8"
  shows "\<exists>x. add_char c (sh, v) = Inr x \<and> line_shown row (edit line c) x"
proof (cases "length line < 63")
  case True
  have sh: "length (ps_buffer sh) = 64" "ps_buffer_index sh = length line" "take (length line) (ps_buffer sh) = line"
    and v: "cursor_row v = row" "cursor_col v = of_nat (5 + length line)"
    and cells: "\<And>i. i < length line \<Longrightarrow> char_vram v (row * 128 + of_nat (5 + i)) = screen_cell (line ! i)"
    using assms(1) by (simp_all add: line_shown_def)
  note col = shown_col [OF assms(1)]
  let ?sh = "sh\<lparr>ps_buffer := (ps_buffer sh)[length line := c], ps_buffer_index := length line + 1\<rparr>"
  let ?v = "kernel_set_cursor (v\<lparr>char_vram := (char_vram v)(row * 128 + cursor_col v := screen_cell c), cursor_col := cursor_col v + 1\<rparr>)"
  have "unat (cursor_row v) < 32" "unat (cursor_col v) < 128" using assms(2) col v(1) by simp_all
  then have "kernel_putchar (scast c) 0xfff 0 v = ?v"
    using col(3) v(1) by (simp add: putchar_typed [OF assms(3)] putchar_other_def VGA_CHAR_COL_def putchar_at_cell low_byte screen_cell_def)
  then have "add_char c (sh, v) = Inr (?sh, ?v)" using True sh by (simp add: add_char_def)
  moreover have "line_shown row (line @ [c]) (?sh, ?v)"
  proof -
    have "(char_vram ?v) (row * 128 + of_nat (5 + i)) = screen_cell ((line @ [c]) ! i)" if "i < length (line @ [c])" for i
    proof (cases "i = length line")
      case False
      then have "row * 128 + of_nat (5 + i) \<noteq> row * 128 + (of_nat (5 + length line) :: u32)"
        using True that by (subst col_inject) auto
      then show ?thesis using cells [of i] that False unfolding v(2) by (simp add: nth_append del: of_nat_add)
    qed (simp add: v(2))
    moreover have "cursor_col v + 1 = of_nat (5 + length (line @ [c]))" by (simp add: v(2))
    ultimately show ?thesis using True sh v take_update_last [of "length line" "ps_buffer sh" c]
      by (simp add: line_shown_def del: of_nat_add of_nat_Suc)
  qed
  ultimately show ?thesis using True assms(4) by (simp add: edit_def)
next
  case False
  then have "add_char c (sh, v) = Inr (sh, v)" using assms(1) by (simp add: add_char_def line_shown_def)
  then show ?thesis using False assms(1,4) by (simp add: edit_def)
qed

lemma erase_char_shown:
  assumes "line_shown row line (sh, v)" "unat row < 29"
  shows "line_shown row (butlast line) (erase_char (sh, v))"
proof (cases "line = []")
  case False
  then obtain l where l: "length line = Suc l" by (cases line) auto
  have sh: "length (ps_buffer sh) = 64" "ps_buffer_index sh = length line" "take (length line) (ps_buffer sh) = line" "length line \<le> 63"
    and v: "cursor_row v = row" "cursor_col v = of_nat (5 + length line)"
    and cells: "\<And>i. i < length line \<Longrightarrow> char_vram v (row * 128 + of_nat (5 + i)) = screen_cell (line ! i)"
    using assms(1) by (simp_all add: line_shown_def)
  have col: "cursor_col v - 1 = of_nat (5 + l)" using v(2) l by simp
  then have "unat (cursor_col v - 1) < 128" using sh(4) l by (simp add: unat_of_nat del: of_nat_add)
  then have put: "kernel_putchar_at 32 0xfff 0 (cursor_row v) (cursor_col v - 1) v
      = v\<lparr>char_vram := (char_vram v)(row * 128 + of_nat (5 + l) := 0xfff00 + (32 AND 0xff))\<rparr>" (is "_ = ?v")
    using assms(2) by (subst putchar_at_cell) (simp_all add: v(1) col [simplified])
  have "(char_vram ?v) (row * 128 + of_nat (5 + i)) = screen_cell (butlast line ! i)" if "i < l" for i
  proof -
    have "row * 128 + of_nat (5 + i) \<noteq> row * 128 + (of_nat (5 + l) :: u32)"
      using that sh(4) l by (subst col_inject) auto
    then show ?thesis using cells [of i] that l by (simp add: nth_butlast)
  qed
  moreover have "take l (ps_buffer sh) = butlast line"
  proof -
    have "butlast line = take l line" using l by (simp add: butlast_conv_take)
    also have "\<dots> = take l (take (Suc l) (ps_buffer sh))" using sh(3) l by simp
    finally show ?thesis by simp
  qed
  moreover have "erase_char (sh, v) = (sh\<lparr>ps_buffer_index := l\<rparr>, kernel_set_cursor (?v\<lparr>cursor_col := cursor_col v - 1\<rparr>))"
    using sh(2) l by (simp add: erase_char_def Let_def put)
  ultimately show ?thesis using sh v(1) l col by (simp add: line_shown_def del: of_nat_add)
qed (use assms in \<open>simp add: erase_char_def line_shown_def\<close>)

lemma type_char_shown:
  assumes "line_shown row line (sh, v)" "unat row < 29" "typed c"
  shows "\<exists>x. type_char c (sh, v) = Inr x \<and> line_shown row (edit line c) x"
  using add_char_shown [OF assms] erase_char_shown [OF assms(1,2)] by (cases "c = 8") (auto simp: type_char_def edit_def)

lemma line_editor_steps:
  assumes "line_shown row line x" "unat row < 29" "\<forall>c\<in>set cs. typed c"
  shows "\<exists>x'. rfold type_char cs x = Inr x' \<and> line_shown row (foldl edit line cs) x'"
  using assms
proof (induction cs arbitrary: line x)
  case (Cons c cs)
  obtain sh v where x: "x = (sh, v)" by (cases x)
  obtain y where "type_char c x = Inr y" "line_shown row (edit line c) y"
    using type_char_shown [of row line sh v c] Cons.prems x by auto
  then show ?case using Cons.IH [of "edit line c" y] Cons.prems by auto
qed simp

text \<open>The line is in the buffer, whatever the screen shows.\<close>

definition line_held :: "u8 list \<Rightarrow> shell \<times> vga \<Rightarrow> bool" where
  "line_held line = (\<lambda>(sh, v). length (ps_buffer sh) = 64 \<and> length line \<le> 63
     \<and> ps_buffer_index sh = length line \<and> take (length line) (ps_buffer sh) = line)"

lemma line_shown_held: "line_shown row line x \<Longrightarrow> line_held line x"
  by (auto simp: line_shown_def line_held_def)

lemma type_char_held:
  assumes "line_held line (sh, v)"
  shows "\<exists>x. type_char c (sh, v) = Inr x \<and> line_held (edit line c) x"
proof -
  have sh: "length (ps_buffer sh) = 64" "ps_buffer_index sh = length line" "take (length line) (ps_buffer sh) = line" "length line \<le> 63"
    using assms by (simp_all add: line_held_def)
  consider (none) "c = 8" "line = []" | (erase) d l where "c = 8" "line = l @ [d]" | (room) "c \<noteq> 8" "length line < 63"
    | (full) "c \<noteq> 8" "length line = 63"
    using sh(4) by (cases line rule: rev_cases) (auto simp: le_less)
  then show ?thesis
  proof cases
    case erase
    have "take (length l) (ps_buffer sh) = take (length l) (take (length line) (ps_buffer sh))" using erase(2) by simp
    then have "take (length l) (ps_buffer sh) = l" unfolding sh(3) using erase(2) by simp
    then show ?thesis using erase sh by (simp add: type_char_def erase_char_def line_held_def edit_def Let_def)
  next
    case room
    then show ?thesis using sh take_update_last [of "length line" "ps_buffer sh" c]
      by (simp add: type_char_def add_char_def line_held_def edit_def)
  qed (use sh in \<open>simp_all add: type_char_def erase_char_def add_char_def line_held_def edit_def\<close>)
qed

lemma line_editor_holds: "line_held line x \<Longrightarrow> \<exists>x'. rfold type_char cs x = Inr x' \<and> line_held (foldl edit line cs) x'"
proof (induction cs arbitrary: line x)
  case (Cons c cs)
  obtain sh v where x: "x = (sh, v)" by (cases x)
  obtain y where "type_char c x = Inr y" "line_held (edit line c) y" using type_char_held [of line sh v c] Cons.prems x by auto
  then show ?case using Cons.IH [of "edit line c" y] by auto
qed simp

text \<open>
  C20. The line editor refines editing a list of characters. Whatever characters it is given, tabs and
  control characters included, the accesses stay in the array of 64 bytes and the buffer holds the line with
  every backspace applied and nothing beyond 63 characters. When none of them is a tab, a carriage return
  or a newline, which move the cursor on their own, the row of the prompt shows exactly that line with the
  cursor behind it.
\<close>

theorem line_editor_shows_line:
  assumes "line_shown row line x" "unat row < 29"
  shows "\<exists>x'. rfold type_char cs x = Inr x' \<and> line_held (foldl edit line cs) x'
    \<and> ((\<forall>c\<in>set cs. typed c) \<longrightarrow> line_shown row (foldl edit line cs) x')"
proof -
  obtain x' where x': "rfold type_char cs x = Inr x'" "line_held (foldl edit line cs) x'"
    using line_editor_holds [OF line_shown_held [OF assms(1)]] by blast
  then show ?thesis using line_editor_steps [OF assms, of cs] by auto
qed

definition demo_shell :: "shell \<times> vga" where
  "demo_shell = (\<lparr>ps_buffer = replicate 64 0, ps_buffer_index = 0, pwd = 47 # replicate 255 0\<rparr>, demo_vga\<lparr>cursor_row := 3, cursor_col := 5\<rparr>)"

theorem line_editor_shows_line_witness:
  "(\<exists>x. rfold type_char [108, 116, 8, 115] demo_shell = Inr x \<and> line_shown 3 [108, 115] x)
    \<and> (\<exists>x. rfold type_char [108, 9, 115] demo_shell = Inr x \<and> line_held [108, 9, 115] x)"
  using line_editor_shows_line [of 3 "[]" demo_shell "[108, 116, 8, 115]"] line_editor_shows_line [of 3 "[]" demo_shell "[108, 9, 115]"]
  by (auto simp: demo_shell_def line_shown_def typed_def edit_def)

text \<open>
  A tab moves the cursor to the next multiple of four, a backspace takes back one column: after both the
  line is empty and the cursor is two columns behind the prompt.
\<close>

lemma tab_and_backspace: "\<exists>sh v. rfold type_char [9, 8] demo_shell = Inr (sh, v) \<and> ps_buffer_index sh = 0 \<and> cursor_col v = 7"
proof -
  have "map_sum id (\<lambda>(sh, v). (ps_buffer_index sh, cursor_col v)) (rfold type_char [9, 8] demo_shell) = Inr (0, 7)" by code_simp
  then show ?thesis by (cases "rfold type_char [9, 8] demo_shell") auto
qed

text \<open>The line that ends at the newline is the command: the bytes up to its first terminator.\<close>

lemma end_line_command:
  assumes "line_shown row line (sh, v)" "0 \<notin> set line"
  shows "\<exists>sh'. end_line sh = Inr sh' \<and> takeWhile (\<lambda>c. c \<noteq> 0) (ps_buffer sh') = line \<and> length (ps_buffer sh') = 64"
proof -
  have sh: "length (ps_buffer sh) = 64" "ps_buffer_index sh = length line" "take (length line) (ps_buffer sh) = line" "length line \<le> 63"
    using assms(1) by (simp_all add: line_shown_def)
  have "(ps_buffer sh)[length line := 0] = line @ 0 # drop (Suc (length line)) (ps_buffer sh)"
    using sh by (simp add: upd_conv_take_nth_drop)
  then show ?thesis using sh assms(2) by (auto simp: end_line_def takeWhile_append)
qed

end
