(* ===== verification/Info.thy ===== *)
theory Info
  imports BootMM Buddy Pc Time
begin

text \<open>
  What the kernel reports on the screen: the log of \<^verbatim>\<open>utils/log.c\<close>, the tables of the boot memory
  manager and of the buddy system, and the list of processes. Strings are written as the code
  writes them; \<open>nl\<close> is the newline.
\<close>

definition ascii :: "string \<Rightarrow> u8 list" where
  "ascii cs = map (\<lambda>c. of_nat (of_char c)) cs"

definition nl :: "u8 list" where "nl = [10]"
definition tab :: "u8 list" where "tab = [9]"

text \<open>\<^verbatim>\<open>kernel_printf\<close> as a statement: its result is not used.\<close>

definition say :: "u8 list \<Rightarrow> varg list \<Rightarrow> vga \<Rightarrow> vga res" where
  "say fmt args v = rbind (kernel_printf fmt args v) (\<lambda>(_, v). Inr v)"

definition put_text :: "u8 list \<Rightarrow> u32 \<Rightarrow> u32 \<Rightarrow> vga \<Rightarrow> vga" where
  "put_text s fc bg v = snd (kernel_puts s fc bg v)"

section \<open>What is printed\<close>

lemma puts_loop_append: "snd (puts_loop (s @ t) fc bg n v) = snd (puts_loop t fc bg m (snd (puts_loop s fc bg n v)))"
proof (induction s arbitrary: n v)
  case Nil
  have "snd (puts_loop t fc bg n v) = snd (puts_loop t fc bg m v)" by (induction t arbitrary: n m v) simp_all
  then show ?case by simp
qed simp

lemma put_text_append: "put_text t fc bg (put_text s fc bg v) = put_text (s @ t) fc bg v"
  unfolding put_text_def kernel_puts_def using puts_loop_append by metis

lemma puts_loop_count: "snd (puts_loop s fc bg n v) = snd (puts_loop s fc bg m v)"
  by (induction s arbitrary: n m v) simp_all

lemma put_text_Cons: "put_text (c # s) fc bg v = put_text s fc bg (kernel_putchar (scast c) fc bg v)"
  by (simp add: put_text_def kernel_puts_def puts_loop_count [of s fc bg 1 _ 0])

lemma put_text_Nil [simp]: "put_text [] fc bg v = v"
  by (simp add: put_text_def kernel_puts_def)

text \<open>What a format prints: text without a percent sign as it is, a string and the number 0 in their places.\<close>

lemma vprintf_text:
  "37 \<notin> set t \<Longrightarrow> f \<noteq> [] \<Longrightarrow> vprintf_loop (t @ f) ap cnt v = vprintf_loop f ap cnt (put_text t 0xfff 0 v)"
proof (induction t arbitrary: v)
  case (Cons c t)
  then obtain d g where "t @ f = d # g" by (cases "t @ f") simp_all
  then show ?case using Cons by (simp add: put_text_Cons)
qed simp

lemma vprintf_last: "37 \<notin> set t \<Longrightarrow> vprintf_loop t ap cnt v = Inr (cnt, put_text t 0xfff 0 v)"
proof (induction t arbitrary: v)
  case (Cons c t)
  then show ?case by (cases t) (simp_all add: put_text_Cons)
qed simp

lemma say_text: "37 \<notin> set t \<Longrightarrow> say t ap v = Inr (put_text t 0xfff 0 v)"
  by (simp add: say_def kernel_printf_def kernel_vprintf_def vprintf_last)

lemma say_str:
  assumes "37 \<notin> set a" "37 \<notin> set b"
  shows "say (a @ 37 # 115 # b) [VStr t] v = Inr (put_text (a @ t @ b) 0xfff 0 v)"
proof -
  have "vprintf_loop (a @ 37 # 115 # b) [VStr t] 0 v = Inr (1, put_text b 0xfff 0 (put_text t 0xfff 0 (put_text a 0xfff 0 v)))"
    using assms by (simp add: vprintf_text vprintf_last number_printer_def va_str_def) (simp add: put_text_def)
  then show ?thesis by (simp add: say_def kernel_printf_def kernel_vprintf_def put_text_append)
qed

lemma say_zero:
  assumes "37 \<notin> set a" "37 \<notin> set b"
  shows "say (a @ 37 # 100 # b) [VInt 0] v = Inr (put_text (a @ 48 # b) 0xfff 0 v)"
proof -
  have "kernel_putchar 48 0xfff 0 w = put_text [48] 0xfff 0 w" for w by (simp add: put_text_def kernel_puts_def)
  then have "vprintf_loop (a @ 37 # 100 # b) [VInt 0] 0 v = Inr (1, put_text b 0xfff 0 (put_text [48] 0xfff 0 (put_text a 0xfff 0 v)))"
    using assms by (simp add: vprintf_text vprintf_last number_printer_def va_int_def kernel_putint_def)
  then show ?thesis by (simp add: say_def kernel_printf_def kernel_vprintf_def put_text_append)
qed

section \<open>The log\<close>

definition MAX_LEVEL :: u32 where "MAX_LEVEL = 4"
definition MIN_LEVEL :: u32 where "MIN_LEVEL = 0"

definition log_level_adv :: "u32 \<Rightarrow> u32" where
  "log_level_adv lv = (if lv <s MAX_LEVEL then lv + 1 else lv)"

definition log_level_rec :: "u32 \<Rightarrow> u32" where
  "log_level_rec lv = (if MIN_LEVEL <s lv then lv - 1 else lv)"

definition VGA_BLACK :: u32 where "VGA_BLACK = 0"
definition VGA_BLUE :: u32 where "VGA_BLUE = 0xf00"
definition VGA_GREEN :: u32 where "VGA_GREEN = 0x0f0"
definition VGA_RED :: u32 where "VGA_RED = 0x00f"
definition VGA_WHITE :: u32 where "VGA_WHITE = 0xfff"

datatype log_status = LOG_OK | LOG_FAIL | LOG_START | LOG_END | LOG_STEP

fun log_tag :: "log_status \<Rightarrow> vga \<Rightarrow> vga" where
  "log_tag LOG_OK = put_text (ascii ''  [ O K ] '') VGA_GREEN VGA_BLACK"
| "log_tag LOG_FAIL = put_text (ascii ''  [FAIL] '') VGA_RED VGA_BLACK"
| "log_tag LOG_START = put_text (ascii ''  [START] '') VGA_BLUE VGA_BLACK"
| "log_tag LOG_END = put_text (ascii ''  [ END ] '') VGA_BLUE VGA_BLACK"
| "log_tag LOG_STEP = put_text (ascii ''  [STEP] '') VGA_WHITE VGA_BLACK"

text \<open>\<open>clock\<close> is the reading of the tick counter; a status that is not one of the five stops.\<close>

definition log :: "u32 \<times> u32 \<Rightarrow> log_status option \<Rightarrow> u8 list \<Rightarrow> varg list \<Rightarrow> vga \<Rightarrow> vga res" where
  "log clock st format ap v =
     rbind (case st of Some st \<Rightarrow> Inr (log_tag st v) | None \<Rightarrow> kernel_assert False v) (\<lambda>v.
     rbind (get_time (fst clock) (snd clock) (replicate 9 0) 9) (\<lambda>time_buf.
     rbind (say (ascii ''   %s '') [VStr (takeWhile (\<lambda>c. c \<noteq> 0) time_buf)] v) (\<lambda>v.
     rbind (kernel_vprintf format ap v) (\<lambda>(_, v).
     say (ascii ''  '' @ nl) [] v))))"

definition log_step :: "u32 \<times> u32 \<Rightarrow> u32 \<times> vga \<Rightarrow> (u32 \<times> vga) res" where
  "log_step clock = (\<lambda>(gstep, v). let gstep = gstep + 1 in
     rbind (log clock (Some LOG_STEP) (ascii ''%x'') [VInt gstep] v) (\<lambda>v. Inr (gstep, v)))"

definition step_reset :: "u32 \<Rightarrow> u32" where "step_reset gstep = 0"

section \<open>Memory\<close>

fun mem_msg :: "mm_usage \<Rightarrow> string" where
  "mem_msg MM_KERNEL = ''Kernel code/data''"
| "mem_msg MM_MMMAP = ''Mm Bitmap''"
| "mem_msg MM_VGABUFF = ''Vga Buffer''"
| "mem_msg MM_PDTABLE = ''Kernel page directory''"
| "mem_msg MM_PTABLE = ''Kernel page table''"
| "mem_msg MM_DYNAMIC = ''Dynamic''"
| "mem_msg MM_RESERVED = ''Reserved''"

definition bootmap_info :: "bootmm \<Rightarrow> vga \<Rightarrow> vga res" where
  "bootmap_info mm v =
     rbind (say (ascii ''  Mem Map:'' @ nl) [] v)
       (rfold (\<lambda>index v. rbind (info_at mm (of_nat index)) (\<lambda>i.
            say (ascii ''  '' @ tab @ ascii ''%x-%x : %s'' @ nl) [VInt (start_pn i), VInt (end_pn i), VStr (ascii (mem_msg (seg_type i)))] v))
          [0..<unat (count mm)])"

definition buddy_info :: "buddy_sys \<Rightarrow> vga \<Rightarrow> vga res" where
  "buddy_info b v =
     rbind (say (ascii ''  Buddy-system :'' @ nl) [] v) (\<lambda>v.
     rbind (say (ascii ''  '' @ tab @ ascii ''start page-frame number : %x'' @ nl) [VInt (buddy_start_pn b)] v) (\<lambda>v.
     rbind (say (ascii ''  '' @ tab @ ascii ''end page-frame number : %x'' @ nl) [VInt (buddy_end_pn b)] v)
       (rfold (\<lambda>index v. rbind (rd (free_count b) (of_nat index)) (\<lambda>c.
            say (ascii ''  '' @ tab @ ascii ''(%x)# : %x frees'' @ nl) [VInt (of_nat index), VInt c] v))
          [0..<unat MAX_BUDDY_ORDER + 1])))"

section \<open>Processes\<close>

text \<open>One line for each block that \<open>print_proc\<close> lists; the result of the function is 0.\<close>

definition show_proc :: "int \<times> int \<times> u32 \<times> u8 list \<Rightarrow> vga \<Rightarrow> vga res" where
  "show_proc = (\<lambda>(ppid, asid, prio, nm).
     say (ascii ''   %d'' @ tab @ tab @ ascii ''%d'' @ tab @ tab @ ascii ''%d'' @ tab @ tab @ ascii ''%s'' @ nl)
       [VInt (word_of_int ppid), VInt (word_of_int asid), VInt prio, VStr (takeWhile (\<lambda>c. c \<noteq> 0) nm)])"

definition show_procs :: "'k kern \<Rightarrow> vga \<Rightarrow> vga res" where
  "show_procs s v = rfold show_proc (print_proc s)
     (put_text (ascii ''  PPID'' @ tab @ tab @ ascii ''PID'' @ tab @ tab @ ascii ''statP'' @ tab @ tab @ ascii ''name'' @ nl) 0xfff 0 v)"

section \<open>Every report stays on the text rows\<close>

text \<open>If \<open>r\<close> returns, the cursor is still on the text rows and rows 29 to 31 are as in \<open>v\<close>.\<close>

definition quiet :: "vga \<Rightarrow> vga res \<Rightarrow> bool" where
  "quiet v r \<longleftrightarrow> (\<forall>v'. r = Inr v' \<longrightarrow> stays v v')"

named_theorems quiet_intros \<open>rules for reports that stay on the text rows\<close>

lemma quiet_Inr [quiet_intros]: "stays v w \<Longrightarrow> quiet v (Inr w)"
  and quiet_Inl [quiet_intros]: "quiet v (Inl e)"
  by (simp_all add: quiet_def)

lemma quiet_bind [quiet_intros]: "quiet v m \<Longrightarrow> (\<And>w. quiet w (f w)) \<Longrightarrow> quiet v (rbind m f)"
  by (cases m) (auto simp: quiet_def intro: stays_trans)

lemma quiet_from: "stays u v \<Longrightarrow> quiet v r \<Longrightarrow> quiet u r"
  by (auto simp: quiet_def intro: stays_trans)

lemma quiet_value [quiet_intros]: "(\<And>x. quiet v (f x)) \<Longrightarrow> quiet v (rbind m f)"
  by (cases m) (auto simp: quiet_def)

lemma quiet_say [quiet_intros]: "quiet v (say fmt args v)"
  by (auto simp: quiet_def say_def kernel_printf_def kernel_vprintf_def res_simps dest: vprintf_stays)

lemma quiet_fold [quiet_intros]: "(\<And>x w. quiet w (f x w)) \<Longrightarrow> quiet v (rfold f xs v)"
  by (induction xs arbitrary: v) (auto intro: quiet_intros)

lemma put_text_stays: "stays v (put_text s fc bg v)"
  by (simp add: put_text_def kernel_puts_stays)

lemma log_tag_stays: "stays v (log_tag st v)"
  by (cases st) (simp_all add: put_text_stays)

lemma quiet_log: "quiet v (log clock st format ap v)"
proof -
  have tag: "quiet v (case st of Some st \<Rightarrow> Inr (log_tag st v) | None \<Rightarrow> kernel_assert False v)"
    by (auto simp: kernel_assert_def quiet_def log_tag_stays split: option.splits)
  have msg: "quiet v (rbind (kernel_vprintf format ap v) (\<lambda>(_, v). say fmt args v))" for v fmt args
    using quiet_say by (auto simp: quiet_def kernel_vprintf_def res_simps intro: stays_trans dest: vprintf_stays)
  show ?thesis unfolding log_def
    by (rule quiet_bind [OF tag], rule quiet_value, rule quiet_bind [OF quiet_say], rule msg)
qed

lemma quiet_bootmap_info: "quiet v (bootmap_info mm v)"
  unfolding bootmap_info_def by (intro quiet_bind [OF quiet_say] quiet_fold quiet_value quiet_say)

lemma quiet_buddy_info: "quiet v (buddy_info b v)"
  unfolding buddy_info_def by (intro quiet_bind [OF quiet_say] quiet_fold quiet_value quiet_say)

lemma quiet_show_procs: "quiet v (show_procs s v)"
  unfolding show_procs_def show_proc_def
  by (rule quiet_from [OF put_text_stays]) (auto intro: quiet_fold quiet_say)

end
