(* ===== verification/Vfs.thy ===== *)
theory Vfs
  imports FatDir
begin

text \<open>
  The virtual file system of \<^verbatim>\<open>kernel/fs/vfs/vfs.c\<close>: a table of the operations of FAT32, through which
  the shell calls them. An entry takes, besides its arguments, the contents of the local files
  its function starts with. The table is a block of the kernel heap: an entry that
  \<^verbatim>\<open>initial_vfs\<close> does not set, \<^verbatim>\<open>write\<close> or \<^verbatim>\<open>lseek\<close>, keeps what was there.
\<close>

record 'd fat32 =
  vfs_find :: "(unit, 'd) fop"
  vfs_init :: "(unit, 'd) fop"
  vfs_open :: "u8 list \<Rightarrow> (unit, 'd) fop"
  vfs_close :: "(unit, 'd) fop"
  vfs_read :: "u32 \<Rightarrow> (u32, 'd) fop"
  vfs_write :: "u32 \<Rightarrow> (u32, 'd) fop"
  vfs_fflush :: "(unit, 'd) fop"
  vfs_lseek :: "u32 \<Rightarrow> (unit, 'd) fop"
  vfs_create :: "FILE \<Rightarrow> u8 list \<Rightarrow> (unit, 'd) fop"
  vfs_mkdir :: "FILE \<Rightarrow> FILE \<Rightarrow> FILE \<Rightarrow> u8 list \<Rightarrow> (unit, 'd) fop"
  vfs_rmdir :: "FILE \<Rightarrow> u8 list \<Rightarrow> (unit, 'd) fop"
  vfs_rm :: "FILE \<Rightarrow> u8 list \<Rightarrow> (unit, 'd) fop"
  vfs_mv :: "FILE \<Rightarrow> FILE \<Rightarrow> u8 list \<Rightarrow> u8 list \<Rightarrow> (unit, 'd) fop"
  vfs_cp :: "FILE \<Rightarrow> FILE \<Rightarrow> u8 list \<Rightarrow> u8 list \<Rightarrow> (unit, 'd) fop"
  vfs_open_dir :: "u8 list \<Rightarrow> (unit, 'd) fop"
  vfs_read_dir :: "(u32, 'd) fop"
  vfs_cat :: "FILE \<Rightarrow> (u32 \<Rightarrow> u8 list) \<Rightarrow> u8 list \<Rightarrow> (u8 list, 'd) fop"

definition bind_fat32 :: "'d block_io \<Rightarrow> 'd fat32 \<Rightarrow> 'd fat32" where
  "bind_fat32 io t = t\<lparr>vfs_find := fs_find io, vfs_init := init_fs io, vfs_open := fs_open io, vfs_close := fs_close io,
     vfs_read := fs_read io, vfs_fflush := fs_fflush io, vfs_create := fs_create io, vfs_mkdir := fs_mkdir io,
     vfs_rmdir := fs_rmdir io, vfs_rm := fs_rm io, vfs_mv := fs_mv io, vfs_cp := fs_cp io,
     vfs_open_dir := fs_open_dir io, vfs_read_dir := fs_read_dir io, vfs_cat := fs_cat io\<rparr>"

text \<open>
  The three blocks: \<^verbatim>\<open>struct vfs\<close> has 36 bytes, \<^verbatim>\<open>struct fat32\<close> 72 and \<^verbatim>\<open>struct ext2\<close> 32; \<open>malloc\<close> is
  \<^verbatim>\<open>kmalloc\<close> on the allocator's state. The result holds the addresses of the first two.
\<close>

definition initial_vfs :: "(u32 \<Rightarrow> 'k \<Rightarrow> (u32 \<times> 'k) res) \<Rightarrow> 'd block_io \<Rightarrow> 'd fat32 \<Rightarrow> 'k \<Rightarrow> ('d fat32 \<times> u32 \<times> u32 \<times> 'k) res" where
  "initial_vfs malloc io t k =
     rbind (malloc 36 k) (\<lambda>(vfsfile, k). rbind (malloc 72 k) (\<lambda>(fat32_file, k). rbind (malloc 32 k) (\<lambda>(ext2_file, k).
       Inr (bind_fat32 io t, vfsfile, fat32_file, k))))"

end
