(* ===== verification/Shell.thy ===== *)
theory Shell
  imports Cd LineEditor Ps2 Info Vfs FileTree Myvi Trap SlabThms KString
begin

text \<open>
  The shell of \<^verbatim>\<open>usr/ps.c\<close> with \<^verbatim>\<open>usr/ls.c\<close> and \<^verbatim>\<open>usr/exec.c\<close>: the loop that reads a line, the
  splitting of the line and one operation for each command, on the state of all the components
  the commands reach.
\<close>

section \<open>The system the shell runs on\<close>

record 'h sys =
  shell_st :: shell
  con :: vga
  keyb :: ps2
  files :: "'h sd fat"
  vfs :: "'h sd fat32"
  names :: nodes
  root_node :: u32
  kernel :: "slabs kern"
  boot :: bootmm
  editor :: vi

text \<open>
  What the commands take from outside: the SD controller, the contents of local variables before
  they are set (files by number, bytes by size), the tick counter, the fuel of \<^verbatim>\<open>kmalloc\<close> and
  \<^verbatim>\<open>pc_kill\<close>, the global pointer and the addresses of functions, the registers at a trap, what a
  preemption and the processes that run until the shell gets the processor back do to the
  kernel, the interrupts while the shell waits for a key, the keys typed to the editor, and the
  program that \<^verbatim>\<open>exec\<close> has loaded.
\<close>

record 'h env =
  hw :: "'h sd_hw"
  local_file :: "nat \<Rightarrow> FILE"
  local_bytes :: "u32 \<Rightarrow> u8 list"
  clock :: "u32 \<times> u32"
  fuel :: nat
  gp :: u32
  addr_of :: "string \<Rightarrow> u32"
  trap_regs :: regs
  yield :: "slabs kern \<Rightarrow> slabs kern res"
  irq :: "nat \<Rightarrow> ps2 \<Rightarrow> ps2"
  vi_keys :: "u8 list"
  run_program :: "u32 \<Rightarrow> 'h sys \<Rightarrow> (u32 \<times> 'h sys) res"

definition io_of :: "'h env \<Rightarrow> 'h sd block_io" where "io_of e = sd_io (hw e)"

section \<open>Calls into the components\<close>

definition print_line :: "u8 list \<Rightarrow> varg list \<Rightarrow> 'h sys \<Rightarrow> 'h sys res" where
  "print_line fmt args s = rbind (say fmt args (con s)) (\<lambda>v. Inr (s\<lparr>con := v\<rparr>))"

definition print_text :: "u8 list \<Rightarrow> 'h sys \<Rightarrow> 'h sys res" where
  "print_text t s = Inr (s\<lparr>con := put_text t 0xfff 0 (con s)\<rparr>)"

definition on_files :: "('a, 'h sd) fop \<Rightarrow> ('a option \<Rightarrow> 'h sys \<Rightarrow> 'h sys res) \<Rightarrow> 'h sys \<Rightarrow> 'h sys res" where
  "on_files m k s = rbind (m (files s)) (\<lambda>(r, f). k r (s\<lparr>files := f\<rparr>))"

definition on_shell :: "(shell \<Rightarrow> shell) \<Rightarrow> 'h sys \<Rightarrow> 'h sys" where
  "on_shell f s = s\<lparr>shell_st := f (shell_st s)\<rparr>"

definition alloc :: "'h env \<Rightarrow> u32 \<Rightarrow> (u32 \<Rightarrow> 'h sys \<Rightarrow> 'h sys res) \<Rightarrow> 'h sys \<Rightarrow> 'h sys res" where
  "alloc e n k s = rbind (kmalloc (fuel e) n (heap (kernel s))) (\<lambda>(a, h). k a (s\<lparr>kernel := (kernel s)\<lparr>heap := h\<rparr>\<rparr>))"

definition dealloc :: "u32 \<Rightarrow> 'h sys \<Rightarrow> 'h sys res" where
  "dealloc a s = rbind (kfree a (heap (kernel s))) (\<lambda>h. Inr (s\<lparr>kernel := (kernel s)\<lparr>heap := h\<rparr>\<rparr>))"

text \<open>A file operation reports an error as 1; every command ends with its result.\<close>

definition code_of :: "'a option \<Rightarrow> u32" where
  "code_of r = (case r of None \<Rightarrow> 1 | Some _ \<Rightarrow> 0)"

definition returned :: "string \<Rightarrow> u32 \<Rightarrow> 'h sys \<Rightarrow> 'h sys res" where
  "returned nm r = print_line (ascii (''  '' @ nm @ '' return with %d'') @ nl) [VInt r]"

text \<open>The string a pointer into an array leads to.\<close>

definition c_str :: "u8 list \<Rightarrow> u8 list res" where
  "c_str b = rbind (strlen b) (\<lambda>n. Inr (take n b))"

section \<open>Splitting the line\<close>

text \<open>\<^verbatim>\<open>for (i = 0; i < 63; i++) if (b[i] == ' ') break;\<close> from \<open>i\<close> on, \<open>n\<close> rounds left.\<close>

primrec find_blank :: "nat \<Rightarrow> u8 list \<Rightarrow> nat \<Rightarrow> nat res" where
  "find_blank 0 b i = Inr i"
| "find_blank (Suc n) b i = rbind (rdn b i) (\<lambda>c. if c = 32 then Inr i else find_blank n b (i + 1))"

text \<open>The line and the position of the parameter: after the first blank, or the line itself.\<close>

definition split_line :: "u8 list \<Rightarrow> (u8 list \<times> nat) res" where
  "split_line b = rbind (find_blank 63 b 0) (\<lambda>i. if i = 63 then Inr (b, 0) else Inr (b[i := 0], i + 1))"

datatype cmd = Clear | Echo | Gettime | Cmd_syscall4 | Sdwi | Sdr | Sdwz | Mminfo | Mmtest | Cmd_ps | Forktest | Pidtest
  | Killmode | Mmtest1 | Mmtest2 | Mmtest3 | Mmtest4 | Kill | Cmd_time | Time7 | Proc | Cat | Cmd_ls | Cmd_vi | Cmd_exec
  | Rm | Mkdir | Rmdir | Touch | Cmd_ls_l | Cmd_ls_help | Pwd | Cmd_tree | Cmd_cd | Mv | Cp

definition command_table :: "(string \<times> cmd) list" where
  "command_table = [(''clear'', Clear), (''echo'', Echo), (''gettime'', Gettime), (''syscall4'', Cmd_syscall4), (''sdwi'', Sdwi),
     (''sdr'', Sdr), (''sdwz'', Sdwz), (''mminfo'', Mminfo), (''mmtest'', Mmtest), (''ps'', Cmd_ps), (''forktest'', Forktest),
     (''pidtest'', Pidtest), (''killmode'', Killmode), (''mmtest1'', Mmtest1), (''mmtest2'', Mmtest2), (''mmtest3'', Mmtest3),
     (''mmtest4'', Mmtest4), (''kill'', Kill), (''time'', Cmd_time), (''time7'', Time7), (''proc'', Proc), (''cat'', Cat),
     (''ls'', Cmd_ls), (''vi'', Cmd_vi), (''exec'', Cmd_exec), (''rm'', Rm), (''mkdir'', Mkdir), (''rmdir'', Rmdir), (''touch'', Touch),
     (''ls_l'', Cmd_ls_l), (''ls_help'', Cmd_ls_help), (''pwd'', Pwd), (''tree'', Cmd_tree), (''cd'', Cmd_cd), (''mv'', Mv), (''cp'', Cp)]"

text \<open>\<^verbatim>\<open>kernel_strcmp(ps_buffer, name) == 0\<close>, with the line at address 0 and the name at 256.\<close>

definition two_strings :: "u8 list \<Rightarrow> u8 list \<Rightarrow> memory" where
  "two_strings a b p = (let i = unat p in if i < length a then a ! i
     else if 256 \<le> i \<and> i < 256 + length b then b ! (i - 256) else 0)"

definition is_cmd :: "u8 list \<Rightarrow> string \<Rightarrow> bool" where
  "is_cmd b nm \<longleftrightarrow> kernel_strcmp (two_strings b (c_string nm)) 0 256 = Some 0"

definition command_of :: "u8 list \<Rightarrow> cmd option" where
  "command_of b = map_option snd (find (\<lambda>(nm, c). is_cmd b nm) command_table)"

end
