(* ===== verification/Commands.thy ===== *)
theory Commands
  imports Shell
begin

text \<open>
  The commands of the shell, one operation each, and the dispatch of \<^verbatim>\<open>parse_cmd\<close>. \<open>param\<close> is the
  array of the line from the parameter on.
\<close>

section \<open>Console, clock and card\<close>

definition cmd_clear :: "'h sys \<Rightarrow> 'h sys res" where
  "cmd_clear s = Inr (s\<lparr>con := kernel_clear_screen 31 (con s)\<rparr>)"

definition cmd_echo :: "u8 list \<Rightarrow> 'h sys \<Rightarrow> 'h sys res" where
  "cmd_echo param s = rbind (c_str param) (\<lambda>t. print_line (ascii ''  %s'' @ nl) [VStr t] s)"

definition cmd_gettime :: "'h env \<Rightarrow> 'h sys \<Rightarrow> 'h sys res" where
  "cmd_gettime e s = rbind (get_time (fst (clock e)) (snd (clock e)) (local_bytes e 10) 10) (\<lambda>buf.
     rbind (c_str buf) (\<lambda>t. print_line (ascii ''  %s'' @ nl) [VStr t] s))"

text \<open>\<^verbatim>\<open>test_syscall4\<close>: the trap with 4 in \<^verbatim>\<open>v0\<close> and 0xff in \<^verbatim>\<open>a0\<close>; the exception code of a system call is 8.\<close>

definition test_syscall4 :: "'h env \<Rightarrow> 'h sys \<Rightarrow> 'h sys res" where
  "test_syscall4 e s =
     rbind (do_exceptions (fuel e) (kmalloc (fuel e)) (push_bit 2 8) ((trap_regs e)\<lparr>r_a0 := 0xff, r_v0 := 4\<rparr>) (kernel s))
       (\<lambda>(_, k). Inr (s\<lparr>kernel := k\<rparr>))"

definition upd_card :: "'h sd \<Rightarrow> 'h sys \<Rightarrow> 'h sys" where
  "upd_card d s = s\<lparr>files := (files s)\<lparr>fdev := d\<rparr>\<rparr>"

text \<open>The array of 2048 bytes on the stack; its first 512 are set.\<close>

definition cmd_sdwi :: "'h env \<Rightarrow> 'h sys \<Rightarrow> 'h sys res" where
  "cmd_sdwi e s = (let sd_buffer = map (\<lambda>i. of_nat i) [0..<512] @ drop 512 (local_bytes e 2048) in
     rbind (sd_write_block (hw e) sd_buffer 7 1 (fdev (files s))) (\<lambda>(_, d).
       print_text (ascii ''  sdwi'' @ nl) (upd_card d s)))"

definition cmd_sdr :: "'h env \<Rightarrow> 'h sys \<Rightarrow> 'h sys res" where
  "cmd_sdr e s =
     rbind (sd_read_block (hw e) (local_bytes e 2048) 7 1 (fdev (files s))) (\<lambda>(_, sd_buffer, d).
     rbind (rfold (\<lambda>i s. rbind (rdn sd_buffer i) (\<lambda>c. print_line (ascii ''  %d '') [VInt (scast c)] s)) [0..<512] (upd_card d s)) (\<lambda>s.
       Inr (s\<lparr>con := kernel_putchar 10 0xfff 0 (con s)\<rparr>)))"

definition cmd_sdwz :: "'h env \<Rightarrow> 'h sys \<Rightarrow> 'h sys res" where
  "cmd_sdwz e s = (let sd_buffer = replicate 512 0 @ drop 512 (local_bytes e 2048) in
     rbind (sd_write_block (hw e) sd_buffer 7 1 (fdev (files s))) (\<lambda>(_, d).
       print_text (ascii ''  sdwz'' @ nl) (upd_card d s)))"

section \<open>Memory\<close>

definition cmd_mminfo :: "'h sys \<Rightarrow> 'h sys res" where
  "cmd_mminfo s = rbind (bootmap_info (boot s) (con s)) (\<lambda>v.
     rbind (buddy_info (buddy (km (heap (kernel s)))) v) (\<lambda>v. Inr (s\<lparr>con := v\<rparr>)))"

definition kmalloc_shown :: "'h env \<Rightarrow> u32 \<Rightarrow> string \<Rightarrow> (u32 \<Rightarrow> 'h sys \<Rightarrow> 'h sys res) \<Rightarrow> 'h sys \<Rightarrow> 'h sys res" where
  "kmalloc_shown e n sz k = alloc e n (\<lambda>addr s.
     rbind (print_line (ascii (''  kmalloc : %x, size = '' @ sz) @ nl) [VInt addr] s) (k addr))"

definition cmd_mmtest :: "'h env \<Rightarrow> 'h sys \<Rightarrow> 'h sys res" where
  "cmd_mmtest e = kmalloc_shown e 1024 ''1KB'' (\<lambda>_. Inr)"

definition cmd_mmtest1 :: "'h env \<Rightarrow> 'h sys \<Rightarrow> 'h sys res" where
  "cmd_mmtest1 e = kmalloc_shown e 512 ''0.5KB'' (\<lambda>addr1. kmalloc_shown e 512 ''0.5KB'' (\<lambda>_. dealloc addr1))"

definition cmd_mmtest2 :: "'h env \<Rightarrow> 'h sys \<Rightarrow> 'h sys res" where
  "cmd_mmtest2 e = kmalloc_shown e 512 ''0.5KB'' (\<lambda>_. kmalloc_shown e 512 ''0.5KB'' (\<lambda>_.
     kmalloc_shown e 512 ''0.5KB'' (\<lambda>_. Inr)))"

definition cmd_mmtest3 :: "'h env \<Rightarrow> 'h sys \<Rightarrow> 'h sys res" where
  "cmd_mmtest3 e = kmalloc_shown e 1024 ''1KB'' (\<lambda>_. kmalloc_shown e 1024 ''1KB'' (\<lambda>_.
     kmalloc_shown e 1024 ''1KB'' (\<lambda>_. Inr)))"

definition cmd_mmtest4 :: "'h env \<Rightarrow> 'h sys \<Rightarrow> 'h sys res" where
  "cmd_mmtest4 e = kmalloc_shown e 8192 ''8KB'' (\<lambda>addr1. kmalloc_shown e 8192 ''8KB'' (\<lambda>_. dealloc addr1))"

section \<open>Processes\<close>

text \<open>The system call that \<^verbatim>\<open>pc_create\<close> ends with takes the processor away; \<open>yield\<close> is what follows.\<close>

definition start_process :: "'h env \<Rightarrow> int \<Rightarrow> string \<Rightarrow> u32 \<Rightarrow> string \<Rightarrow> u32 \<Rightarrow> 'h sys \<Rightarrow> 'h sys res" where
  "start_process e asid fn sp nm prio s =
     rbind (pc_create asid (addr_of e fn) sp (gp e) (c_string nm) prio (kernel s)) (\<lambda>(preempt, k).
     rbind (if preempt then yield e k else Inr k) (\<lambda>k. Inr (s\<lparr>kernel := k\<rparr>)))"

definition spawn :: "'h env \<Rightarrow> string \<Rightarrow> string \<Rightarrow> u32 \<Rightarrow> 'h sys \<Rightarrow> 'h sys res" where
  "spawn e fn nm prio s = rbind (alloc_pidmap (pids (kernel s))) (\<lambda>(asid, p).
     alloc e 8192 (\<lambda>m. start_process e asid fn (m + 8192) nm prio) (s\<lparr>kernel := (kernel s)\<lparr>pids := p\<rparr>\<rparr>))"

definition cmd_forktest :: "'h env \<Rightarrow> 'h sys \<Rightarrow> 'h sys res" where
  "cmd_forktest e = spawn e ''test_fork'' ''forktest'' (4 + 2)"

definition cmd_pidtest :: "'h env \<Rightarrow> 'h sys \<Rightarrow> 'h sys res" where
  "cmd_pidtest e = spawn e ''test_pidmap'' ''pidtest'' (4 + 2)"

definition cmd_time :: "'h env \<Rightarrow> 'h sys \<Rightarrow> 'h sys res" where
  "cmd_time e = spawn e ''system_time_proc'' ''time'' 4"

definition cmd_time7 :: "'h env \<Rightarrow> 'h sys \<Rightarrow> 'h sys res" where
  "cmd_time7 e = spawn e ''system_time_proc'' ''time7'' 7"

text \<open>
  \<^verbatim>\<open>proc_demo_create\<close> takes the position of a free block as the identifier, and hands the start of
  the allocated block over as the stack pointer.
\<close>

definition proc_demo_create :: "'h env \<Rightarrow> 'h sys \<Rightarrow> (u32 \<times> 'h sys) res" where
  "proc_demo_create e s = rbind (pc_peek 4 (kernel s)) (\<lambda>asid.
     if asid < 0 then rbind (print_text (ascii ''  Failed to allocate pid.'' @ nl) s) (\<lambda>s. Inr (1, s))
     else rbind (alloc e 8192 (\<lambda>m. start_process e asid ''test_proc'' m ''test'' 4) s) (\<lambda>s. Inr (0, s)))"

definition cmd_proc :: "'h env \<Rightarrow> 'h sys \<Rightarrow> 'h sys res" where
  "cmd_proc e s = rbind (proc_demo_create e s) (\<lambda>(r, s). returned ''proc'' r s)"

definition cmd_ps :: "'h sys \<Rightarrow> 'h sys res" where
  "cmd_ps s = rbind (show_procs (kernel s) (con s)) (\<lambda>v. returned ''ps'' 0 (s\<lparr>con := v\<rparr>))"

definition cmd_killmode :: "'h sys \<Rightarrow> 'h sys res" where
  "cmd_killmode s = print_line (ascii ''  Kill mode has changed!'' @ nl) [] (s\<lparr>kernel := alt_kill_mode (kernel s)\<rparr>)"

text \<open>The message that \<^verbatim>\<open>pc_kill\<close> prints before it returns an error.\<close>

definition kill_message :: "int \<Rightarrow> 'h sys \<Rightarrow> 'h sys res" where
  "kill_message r s =
     (if r = 0 then print_text (ascii ''  Error: Init process cannot be killed!'' @ nl) s
      else if r = 1 then print_text (ascii ''  Error: Powershell process cannot be killed!'' @ nl) s
      else if r = 3 then print_text (ascii ''  Error: No process with input ID is found!'' @ nl) s
      else Inr s)"

definition cmd_kill :: "'h env \<Rightarrow> u8 list \<Rightarrow> 'h sys \<Rightarrow> 'h sys res" where
  "cmd_kill e param s = rbind (rdn param 0) (\<lambda>c. let pid = sint c - 48 in
     rbind (print_line (ascii ''  Killing process %d'' @ nl) [VInt (word_of_int pid)] s) (\<lambda>s.
     rbind (pc_kill (fuel e) pid (kernel s)) (\<lambda>(r, k).
     rbind (kill_message r (s\<lparr>kernel := k\<rparr>)) (\<lambda>s. returned ''kill'' (word_of_int r) s))))"

section \<open>Listing\<close>

text \<open>One entry of the listing; the arrays are \<^verbatim>\<open>name\<close>, \<^verbatim>\<open>size\<close>, \<^verbatim>\<open>date\<close> and \<^verbatim>\<open>time\<close> of 32 bytes.\<close>

definition show_entry :: "u8 list \<Rightarrow> u8 list \<Rightarrow> 'h sys \<Rightarrow> (u8 list \<times> 'h sys) res" where
  "show_entry ent nm s = rbind (get_filename ent nm) (\<lambda>nm. rbind (c_str nm) (\<lambda>t. rbind (rd ent 11) (\<lambda>attr.
     let s = s\<lparr>con := put_text t (if attr = 0x10 then VGA_WHITE else VGA_GREEN) VGA_BLACK (con s)\<rparr> in
     rbind (print_line (ascii ''  '' @ nl) [] s) (\<lambda>s. Inr (nm, s)))))"

definition show_entry_l :: "u8 list \<Rightarrow> u8 list \<times> u8 list \<times> u8 list \<times> u8 list \<Rightarrow> 'h sys
    \<Rightarrow> ((u8 list \<times> u8 list \<times> u8 list \<times> u8 list) \<times> 'h sys) res" where
  "show_entry_l ent = (\<lambda>(nm, sz, date, tm) s.
     rbind (get_filename ent nm) (\<lambda>nm. rbind (get_filedate ent date) (\<lambda>date. rbind (get_filesize ent sz) (\<lambda>sz.
     rbind (get_filetime ent tm) (\<lambda>tm. rbind (rd ent 11) (\<lambda>attr.
     rbind (c_str sz) (\<lambda>t. rbind (print_line (ascii ''  %s'') [VStr t] s) (\<lambda>s.
     rbind (c_str date) (\<lambda>t. rbind (print_line (ascii ''  %s'') [VStr t] s) (\<lambda>s.
     rbind (c_str tm) (\<lambda>t. rbind (print_line (ascii ''  %s'') [VStr t] s) (\<lambda>s.
     rbind (c_str nm) (\<lambda>t. rbind (print_line (if attr = 0x10 then ascii ''  %s/'' else ascii ''  %s'') [VStr t] s) (\<lambda>s.
     rbind (print_line (ascii ''  '' @ nl) [] s) (\<lambda>s. Inr ((nm, sz, date, tm), s))))))))))))))))"

text \<open>
  The loop at the label \<^verbatim>\<open>readdir\<close>, with the local entry in the buffer the file system fills: the
  result of the function, 1 for a read error and 0 at the end of the directory. \<open>None\<close> is no end.
\<close>

partial_function (option) list_loop ::
  "'h env \<Rightarrow> (u8 list \<Rightarrow> 'b \<Rightarrow> 'h sys \<Rightarrow> ('b \<times> 'h sys) res) \<Rightarrow> 'b \<Rightarrow> 'h sys \<Rightarrow> (u32 \<times> 'h sys) res option" where
  "list_loop e show_one b s = (case fs_read_dir (io_of e) (files s) of
     Inl x \<Rightarrow> Some (Inl x)
   | Inr (None, f) \<Rightarrow> Some (Inr (1, s\<lparr>files := f\<rparr>))
   | Inr (Some r, f) \<Rightarrow>
       if r = 0xffffffff then Some (rbind (print_line (ascii ''  '' @ nl) [] (s\<lparr>files := f\<rparr>)) (\<lambda>s. Inr (0, s)))
       else (case show_one (take 32 (ubuf f)) b (s\<lparr>files := f\<rparr>) of
           Inl x \<Rightarrow> Some (Inl x)
         | Inr (b, s) \<Rightarrow> list_loop e show_one b s))"

text \<open>
  \<^verbatim>\<open>ls\<close> and \<^verbatim>\<open>ls_l\<close> up to their way of showing an entry: the operand, in the array of its pointer,
  loses its leading blanks, and its first word goes to an array of 128 bytes.
\<close>

definition list_dir :: "'h env \<Rightarrow> (u8 list \<Rightarrow> 'b \<Rightarrow> 'h sys \<Rightarrow> ('b \<times> 'h sys) res) \<Rightarrow> 'b \<Rightarrow> u8 list \<Rightarrow> 'h sys \<Rightarrow> (u32 \<times> 'h sys) res" where
  "list_dir e show_one b p s =
     rbind (strlen p) (\<lambda>p_len.
     rbind (each_param p (local_bytes e 128) 0 32) (\<lambda>(k, dir).
     rbind (c_str dir) (\<lambda>t.
     rbind (fs_open_dir (io_of e) t (files s)) (\<lambda>(r, f). let s = s\<lparr>files := f\<rparr> in
     case r of
       None \<Rightarrow> rbind (print_line (ascii ''  open dir(%s) failed : No such directory!'' @ nl) [VStr t] s) (\<lambda>s. Inr (1, s))
     | Some _ \<Rightarrow> rbind (ends (list_loop e show_one b (s\<lparr>files := f\<lparr>ubuf := local_bytes e 32\<rparr>\<rparr>))) (\<lambda>r. r)))))"

text \<open>\<^verbatim>\<open>ls\<close> is given the working directory, \<^verbatim>\<open>ls_l\<close> the parameter; each may change its operand.\<close>

definition cmd_ls :: "'h env \<Rightarrow> 'h sys \<Rightarrow> 'h sys res" where
  "cmd_ls e s = rbind (cut_front_blank (pwd (shell_st s))) (\<lambda>p.
     rbind (list_dir e show_entry (local_bytes e 32) p (on_shell (\<lambda>x. x\<lparr>pwd := p\<rparr>) s)) (\<lambda>(r, s). returned ''ls'' r s))"

definition set_param :: "nat \<Rightarrow> u8 list \<Rightarrow> 'h sys \<Rightarrow> 'h sys" where
  "set_param off p = on_shell (\<lambda>x. x\<lparr>ps_buffer := take off (ps_buffer x) @ p\<rparr>)"

definition cmd_ls_l :: "'h env \<Rightarrow> nat \<Rightarrow> u8 list \<Rightarrow> 'h sys \<Rightarrow> 'h sys res" where
  "cmd_ls_l e off param s = rbind (cut_front_blank param) (\<lambda>p. let b = local_bytes e 32 in
     rbind (list_dir e show_entry_l (b, b, b, b) p (set_param off p s)) (\<lambda>(r, s). returned ''ls_l'' r s))"

definition cmd_ls_help :: "'h sys \<Rightarrow> 'h sys res" where
  "cmd_ls_help s = rbind (c_str (ascii ''Usage: ls [OPTION]... [FILE]...'' @ [0])) (\<lambda>t.
     rbind (print_line (ascii ''  %s'') [VStr t] s) (returned ''ls_a'' 1))"

section \<open>Files\<close>

text \<open>
  \<^verbatim>\<open>fs_cat\<close> allocates a buffer of the size of the file it opens, prints it and frees it. The file
  system's model gives the bytes; the heap and the screen are here, and the size for the allocator is
  read from the file opened on a copy of the state.
\<close>

definition log_line :: "'h env \<Rightarrow> log_status \<Rightarrow> u8 list \<Rightarrow> varg list \<Rightarrow> 'h sys \<Rightarrow> 'h sys res" where
  "log_line e st fmt args s = rbind (log (clock e) (Some st) fmt args (con s)) (\<lambda>v. Inr (s\<lparr>con := v\<rparr>))"

definition cmd_cat :: "'h env \<Rightarrow> u8 list \<Rightarrow> 'h sys \<Rightarrow> 'h sys res" where
  "cmd_cat e param s = rbind (print_line (ascii ''cat instruction'' @ nl) [] s) (\<lambda>s. rbind (c_str param) (\<lambda>t.
     rbind (with_file (local_file e 0) (fbind (fs_open (io_of e) t) (\<lambda>_. fget (\<lambda>f. flift (get_entry_filesize (entry (fil f)) 0)))) (files s))
       (\<lambda>(file_size, _).
     let cat = vfs_cat (vfs s) (local_file e 0) (local_bytes e) t in
     case file_size of
       None \<Rightarrow> on_files cat (\<lambda>r s.
         rbind (log_line e LOG_FAIL (ascii ''File %s open failed'') [VStr t] s) (returned ''cat'' (code_of r))) s
     | Some n \<Rightarrow> alloc e (n + 1) (\<lambda>buf. on_files cat (\<lambda>r s.
         rbind (case r of None \<Rightarrow> Inr s | Some out \<Rightarrow> print_line (ascii ''  %s'' @ nl) [VStr out] s) (\<lambda>s.
         rbind (dealloc buf s) (returned ''cat'' (code_of r))))) s)))"

text \<open>The editor comes back to the shell when a key ends it; the keys given may be too few.\<close>

definition cmd_vi :: "'h env \<Rightarrow> u8 list \<Rightarrow> 'h sys \<Rightarrow> 'h sys res" where
  "cmd_vi e param s = rbind (c_str param) (\<lambda>t.
     rbind (myvi (io_of e) (local_file e 0) (hd (local_bytes e 1)) t (vi_keys e) ((editor s)\<lparr>screen := con s\<rparr>, files s)) (\<lambda>(v, f).
     if verr v = 0 then Inl OutOfFuel
     else returned ''vi'' 0 (s\<lparr>editor := v, con := screen v, files := f\<rparr>)))"

text \<open>Blocks of 64 bytes of the program go to the 4096 bytes allocated, whatever its length.\<close>

definition CACHE_BLOCK_SIZE :: u32 where "CACHE_BLOCK_SIZE = 64"

definition store_bytes :: "u32 \<Rightarrow> u8 list \<Rightarrow> memory \<Rightarrow> memory" where
  "store_bytes a bytes m = fold (\<lambda>i m. m(a + of_nat i := bytes ! i)) [0..<length bytes] m"

definition load_round :: "'h env \<Rightarrow> u32 \<Rightarrow> nat \<Rightarrow> 'h sys \<Rightarrow> 'h sys res" where
  "load_round e ENTRY j s = rbind (fs_read (io_of e) CACHE_BLOCK_SIZE (files s)) (\<lambda>(_, f).
     if length (ubuf f) < 64 then Inl Fault
     else Inr (s\<lparr>files := f, kernel := (kernel s)\<lparr>mem := store_bytes (ENTRY + of_nat j * CACHE_BLOCK_SIZE) (take 64 (ubuf f)) (mem (kernel s))\<rparr>\<rparr>))"

text \<open>The program runs at virtual address 0, which the entry for the TLB maps to the block.\<close>

definition exec_prog :: "'h env \<Rightarrow> u8 list \<Rightarrow> 'h sys \<Rightarrow> (u32 \<times> 'h sys) res" where
  "exec_prog e filename s =
     rbind (fs_open (io_of e) filename (files s)) (\<lambda>(r, f). let s = s\<lparr>files := f\<rparr> in
     if r = None then rbind (print_line (ascii ''  File %s not exist'' @ nl) [VStr filename] s) (\<lambda>s. Inr (1, s))
     else rbind (get_entry_filesize (entry (fil f)) 0) (\<lambda>sz. let n = sz div CACHE_BLOCK_SIZE + 1 in
       rbind (kmalloc (fuel e) 4096 (heap (kernel s))) (\<lambda>(ENTRY, h).
       rbind (rfold (load_round e ENTRY) [0..<unat n]
           (s\<lparr>kernel := (kernel s)\<lparr>heap := h\<rparr>, files := (files s)\<lparr>ubuf := local_bytes e 512\<rparr>\<rparr>)) (\<lambda>s.
       rbind (run_program e (drop_bit 6 ENTRY AND 0x01ffffc0 OR 0x1e) s) (\<lambda>(r, s).
       rbind (dealloc ENTRY s) (\<lambda>s. Inr (r, s)))))))"

definition cmd_exec :: "'h env \<Rightarrow> u8 list \<Rightarrow> 'h sys \<Rightarrow> 'h sys res" where
  "cmd_exec e param s = rbind (c_str param) (\<lambda>t. rbind (exec_prog e t s) (\<lambda>(r, s). returned ''exec'' r s))"

section \<open>The tree of names\<close>

text \<open>
  A node has 280 bytes. \<open>deleteNode\<close> is the change of the tree; the messages of the C function, with
  the name of the node and whether it has a parent, are here, and the node it frees goes back to the allocator.
\<close>

definition remove_node :: "u8 list \<Rightarrow> 'h sys \<Rightarrow> 'h sys res" where
  "remove_node param s =
     rbind (findNode (names s) (root_node s) param) (\<lambda>p.
     rbind (node_at (names s) p) (\<lambda>n.
     rbind (c_str (node_name n)) (\<lambda>t.
     rbind (print_line (ascii ''%s'' @ nl) [VStr t] s) (\<lambda>s.
     rbind (print_line ((if parent n = 0 then ascii ''parent is NULL'' else ascii ''parent is not NULL'') @ nl) [] s) (\<lambda>s.
     rbind (deleteNode (root_node s) param (names s)) (\<lambda>ns. let s = s\<lparr>names := ns\<rparr> in
     if parent n = 0 then dealloc p s else Inr s))))))"

definition cmd_rm :: "'h env \<Rightarrow> u8 list \<Rightarrow> 'h sys \<Rightarrow> 'h sys res" where
  "cmd_rm e param s = rbind (print_line (ascii ''In remove instruction'' @ nl) [] s) (\<lambda>s. rbind (c_str param) (\<lambda>t.
     on_files (vfs_rm (vfs s) (local_file e 0) t) (\<lambda>r s.
       rbind (if r \<noteq> None then remove_node param s else Inr s) (returned ''rm'' (code_of r))) s))"

definition cmd_rmdir :: "'h env \<Rightarrow> u8 list \<Rightarrow> 'h sys \<Rightarrow> 'h sys res" where
  "cmd_rmdir e param s = rbind (c_str param) (\<lambda>t.
     on_files (vfs_rmdir (vfs s) (local_file e 0) t) (\<lambda>r s.
       rbind (if r \<noteq> None then remove_node param s else Inr s) (returned ''rmdir'' (code_of r))) s)"

text \<open>\<^verbatim>\<open>for (i = len - 1; i >= 0; i--) if (param[i] == '/') { param[i] = 0; break; }\<close>\<close>

primrec cut_slash :: "nat \<Rightarrow> u8 list \<Rightarrow> u8 list" where
  "cut_slash 0 b = b"
| "cut_slash (Suc i) b = (if b ! i = 47 then b[i := 0] else cut_slash i b)"

definition add_node :: "u32 \<Rightarrow> u8 list \<Rightarrow> 'h sys \<Rightarrow> 'h sys res" where
  "add_node p par s =
     rbind (findNode (names s) (root_node s) par) (\<lambda>fd. rbind (becomeChild fd p (names s)) (\<lambda>ns. Inr (s\<lparr>names := ns\<rparr>)))"

text \<open>The new node has the whole path as its name; the path is then cut to its parent, in place.\<close>

definition mkdir_node :: "'h env \<Rightarrow> nat \<Rightarrow> u8 list \<Rightarrow> 'h sys \<Rightarrow> 'h sys res" where
  "mkdir_node e off param s = rbind (strlen param) (\<lambda>len. alloc e 280 (\<lambda>p s.
     rbind (init_treenode p param (names s)) (\<lambda>ns.
     let par = cut_slash len param in add_node p par (set_param off par (s\<lparr>names := ns\<rparr>)))) s)"

definition cmd_mkdir :: "'h env \<Rightarrow> nat \<Rightarrow> u8 list \<Rightarrow> 'h sys \<Rightarrow> 'h sys res" where
  "cmd_mkdir e off param s = rbind (c_str param) (\<lambda>t.
     on_files (vfs_mkdir (vfs s) (local_file e 0) (local_file e 1) (local_file e 2) t) (\<lambda>r s.
       rbind (if r \<noteq> None then mkdir_node e off param s else Inr s) (returned ''mkdir'' (code_of r))) s)"

text \<open>\<^verbatim>\<open>touch\<close> makes an empty parent the root, which \<^verbatim>\<open>mkdir\<close> does not.\<close>

definition root_if_empty :: "u8 list \<Rightarrow> u8 list res" where
  "root_if_empty b = rbind (rdn b 0) (\<lambda>c. if c = 0 then rbind (wrn b 0 47) (\<lambda>b. wrn b 1 0) else Inr b)"

definition touch_node :: "'h env \<Rightarrow> nat \<Rightarrow> u8 list \<Rightarrow> 'h sys \<Rightarrow> 'h sys res" where
  "touch_node e off param s = rbind (strlen param) (\<lambda>len. alloc e 280 (\<lambda>p s.
     rbind (init_treenode p param (names s)) (\<lambda>ns.
     rbind (root_if_empty (cut_slash len param)) (\<lambda>par. rbind (c_str par) (\<lambda>t.
     rbind (print_line (ascii ''%s'' @ nl) [VStr t] (set_param off par (s\<lparr>names := ns\<rparr>))) (add_node p par))))) s)"

definition cmd_touch :: "'h env \<Rightarrow> nat \<Rightarrow> u8 list \<Rightarrow> 'h sys \<Rightarrow> 'h sys res" where
  "cmd_touch e off param s = rbind (c_str param) (\<lambda>t.
     on_files (vfs_create (vfs s) (local_file e 0) t) (\<lambda>r s.
       rbind (if r \<noteq> None then touch_node e off param s else Inr s) (returned ''touch'' (code_of r))) s)"

definition cmd_tree :: "'h sys \<Rightarrow> 'h sys res" where
  "cmd_tree s = rbind (print_tree (names s) (root_node s)) (\<lambda>ts. rfold (\<lambda>t. print_line (ascii ''    %s'' @ nl) [VStr t]) ts s)"

section \<open>Directories and the commands with two parameters\<close>

definition cmd_pwd :: "'h sys \<Rightarrow> 'h sys res" where
  "cmd_pwd s = rbind (c_str (pwd (shell_st s))) (\<lambda>t. print_line (ascii ''  %s'' @ nl) [VStr t] s)"

definition cmd_cd :: "u8 list \<Rightarrow> 'h sys \<Rightarrow> 'h sys res" where
  "cmd_cd param s = rbind (do_cd param (pwd (shell_st s))) (\<lambda>p. Inr (on_shell (\<lambda>x. x\<lparr>pwd := p\<rparr>) s))"

text \<open>
  The second parameter. The loop looks at 63 bytes from the parameter on, beyond the end of the
  line's array if it meets no blank before; without a blank \<^verbatim>\<open>dest\<close> is used without a value.
\<close>

definition two_params :: "nat \<Rightarrow> u8 list \<Rightarrow> (u8 list \<Rightarrow> u8 list \<Rightarrow> 'h sys \<Rightarrow> 'h sys res) \<Rightarrow> 'h sys \<Rightarrow> 'h sys res" where
  "two_params off param k s = rbind (find_blank 63 param 0) (\<lambda>i.
     if i = 63 then Inl Fault
     else let param = param[i := 0] in
       rbind (c_str param) (\<lambda>src. rbind (c_str (drop (i + 1) param)) (\<lambda>dest. k src dest (set_param off param s))))"

definition cmd_mv :: "'h env \<Rightarrow> nat \<Rightarrow> u8 list \<Rightarrow> 'h sys \<Rightarrow> 'h sys res" where
  "cmd_mv e off param = two_params off param (\<lambda>src dest.
     on_files (fs_mv (io_of e) (local_file e 0) (local_file e 1) src dest) (\<lambda>r. returned ''mv'' (code_of r)))"

definition cmd_cp :: "'h env \<Rightarrow> nat \<Rightarrow> u8 list \<Rightarrow> 'h sys \<Rightarrow> 'h sys res" where
  "cmd_cp e off param = two_params off param (\<lambda>src dest.
     on_files (fs_cp (io_of e) (local_file e 0) (local_file e 1) src dest) (\<lambda>r s.
       rbind (print_line (ascii ''%s'' @ nl) [VStr src] s) (\<lambda>s.
       rbind (print_line (ascii ''%s'' @ nl) [VStr dest] s) (returned ''cp'' (code_of r)))))"

section \<open>The dispatch and the loop\<close>

fun run_cmd :: "'h env \<Rightarrow> nat \<Rightarrow> u8 list \<Rightarrow> cmd \<Rightarrow> 'h sys \<Rightarrow> 'h sys res" where
  "run_cmd e off param Clear = cmd_clear"
| "run_cmd e off param Echo = cmd_echo param"
| "run_cmd e off param Gettime = cmd_gettime e"
| "run_cmd e off param Cmd_syscall4 = test_syscall4 e"
| "run_cmd e off param Sdwi = cmd_sdwi e"
| "run_cmd e off param Sdr = cmd_sdr e"
| "run_cmd e off param Sdwz = cmd_sdwz e"
| "run_cmd e off param Mminfo = cmd_mminfo"
| "run_cmd e off param Mmtest = cmd_mmtest e"
| "run_cmd e off param Cmd_ps = cmd_ps"
| "run_cmd e off param Forktest = cmd_forktest e"
| "run_cmd e off param Pidtest = cmd_pidtest e"
| "run_cmd e off param Killmode = cmd_killmode"
| "run_cmd e off param Mmtest1 = cmd_mmtest1 e"
| "run_cmd e off param Mmtest2 = cmd_mmtest2 e"
| "run_cmd e off param Mmtest3 = cmd_mmtest3 e"
| "run_cmd e off param Mmtest4 = cmd_mmtest4 e"
| "run_cmd e off param Kill = cmd_kill e param"
| "run_cmd e off param Cmd_time = cmd_time e"
| "run_cmd e off param Time7 = cmd_time7 e"
| "run_cmd e off param Proc = cmd_proc e"
| "run_cmd e off param Cat = cmd_cat e param"
| "run_cmd e off param Cmd_ls = cmd_ls e"
| "run_cmd e off param Cmd_vi = cmd_vi e param"
| "run_cmd e off param Cmd_exec = cmd_exec e param"
| "run_cmd e off param Rm = cmd_rm e param"
| "run_cmd e off param Mkdir = cmd_mkdir e off param"
| "run_cmd e off param Rmdir = cmd_rmdir e param"
| "run_cmd e off param Touch = cmd_touch e off param"
| "run_cmd e off param Cmd_ls_l = cmd_ls_l e off param"
| "run_cmd e off param Cmd_ls_help = cmd_ls_help"
| "run_cmd e off param Pwd = cmd_pwd"
| "run_cmd e off param Cmd_tree = cmd_tree"
| "run_cmd e off param Cmd_cd = cmd_cd param"
| "run_cmd e off param Mv = cmd_mv e off param"
| "run_cmd e off param Cp = cmd_cp e off param"

definition not_found :: "u8 list \<Rightarrow> 'h sys \<Rightarrow> 'h sys res" where
  "not_found b s = rbind (print_line (ascii ''  '') [] s) (\<lambda>s. rbind (c_str b) (\<lambda>t. rbind (print_text t s)
     (print_text (ascii ''  : command not found'' @ nl))))"

definition parse_cmd :: "'h env \<Rightarrow> 'h sys \<Rightarrow> 'h sys res" where
  "parse_cmd e s =
     (let s = s\<lparr>con := kernel_putchar 10 0 0 (con s)\<rparr> in
      rbind (split_line (ps_buffer (shell_st s))) (\<lambda>(b, off). let param = drop off b; s = on_shell (\<lambda>x. x\<lparr>ps_buffer := b\<rparr>) s in
      rbind (c_str param) (\<lambda>t.
      rbind (print_line (ascii ''  %s'' @ nl) [VStr t] s) (\<lambda>s.
      rbind (rdn b 0) (\<lambda>c.
      if c = 0 then Inr s
      else case command_of b of Some cmd \<Rightarrow> run_cmd e off param cmd s | None \<Rightarrow> not_found b s)))))"

text \<open>\<^verbatim>\<open>exit\<close> only empties the line: the shell has no way out.\<close>

definition newline_typed :: "'h env \<Rightarrow> 'h sys \<Rightarrow> 'h sys res" where
  "newline_typed e s = rbind (end_line (shell_st s)) (\<lambda>sh. let s = s\<lparr>shell_st := sh\<rparr> in
     rbind (if is_cmd (ps_buffer sh) ''exit''
            then print_line (ascii ''  '' @ nl @ ascii ''PowerShell exit.'' @ nl) []
                   (on_shell (\<lambda>x. x\<lparr>ps_buffer_index := 0, ps_buffer := (ps_buffer x)[0 := 0]\<rparr>) s)
            else parse_cmd e s) (\<lambda>s.
     print_text (ascii ''  PS>'') (on_shell (\<lambda>x. x\<lparr>ps_buffer_index := 0\<rparr>) s)))"

definition key_typed :: "'h env \<Rightarrow> u8 \<Rightarrow> 'h sys \<Rightarrow> 'h sys res" where
  "key_typed e c s = (if c = 10 then newline_typed e s
     else rbind (type_char c (shell_st s, con s)) (\<lambda>(sh, v). Inr (s\<lparr>shell_st := sh, con := v\<rparr>)))"

definition getchar :: "'h env \<Rightarrow> 'h sys \<Rightarrow> (u8 \<times> 'h sys) res" where
  "getchar e s = rbind (ends (kernel_getchar (irq e) (keyb s))) (\<lambda>r. rbind r (\<lambda>(c, k). Inr (ucast c, s\<lparr>keyb := k\<rparr>)))"

text \<open>\<open>ps e n\<close> is \<^verbatim>\<open>ps\<close> up to the end of the n-th round of its endless loop.\<close>

primrec ps_rounds :: "'h env \<Rightarrow> nat \<Rightarrow> 'h sys \<Rightarrow> 'h sys res" where
  "ps_rounds e 0 s = Inr s"
| "ps_rounds e (Suc n) s = rbind (getchar e s) (\<lambda>(c, s). rbind (key_typed e c s) (ps_rounds e n))"

definition ps :: "'h env \<Rightarrow> nat \<Rightarrow> 'h sys \<Rightarrow> 'h sys res" where
  "ps e n s =
     rbind (print_line (ascii ''  Press any key to enter shell.'' @ nl) [] s) (\<lambda>s.
     rbind (getchar e s) (\<lambda>(_, s).
     rbind (cmd_clear (on_shell ps_init s)) (\<lambda>s.
     rbind (print_text (ascii ''  PowerShell'' @ nl) s) (\<lambda>s.
     rbind (print_text (ascii ''  PS>'') s) (ps_rounds e n)))))"

end
