(* ===== verification/ShellThms.thy ===== *)
theory ShellThms
  imports Commands FatThms MyviThms
begin

text \<open>
  What the shell does with a line: which command a line names, where its parameter is, and what a
  whole typed line does to the system.
\<close>

section \<open>The command of a line\<close>

lemma cstr_list:
  "0 \<notin> set xs \<Longrightarrow> (\<And>i. i \<le> length xs \<Longrightarrow> m (a + of_nat i) = (xs @ [0]) ! i) \<Longrightarrow> cstr m a xs"
proof (induction xs arbitrary: a)
  case Nil
  then show ?case using Nil(2) [of 0] by simp
next
  case (Cons x xs)
  have "cstr m (a + 1) xs"
  proof (rule Cons.IH)
    fix i assume "i \<le> length xs"
    then show "m (a + 1 + of_nat i) = (xs @ [0]) ! i" using Cons.prems(2) [of "Suc i"] by (simp add: add.assoc)
  qed (use Cons.prems in simp)
  then show ?case using Cons.prems(1) Cons.prems(2) [of 0] by simp
qed

lemma c_string_ascii: "c_string nm = ascii nm @ [0]"
  by (simp add: c_string_def ascii_def)

lemma is_cmd_iff:
  assumes "0 \<in> set b" "length b \<le> 256" "0 \<notin> set (ascii nm)" "length nm < 256"
  shows "is_cmd b nm \<longleftrightarrow> cwd b = ascii nm"
proof -
  let ?m = "two_strings b (c_string nm)"
  obtain r where b: "b = cwd b @ 0 # r" using cwd_split [OF assms(1)] by blast
  have "length b = length (cwd b @ 0 # r)" by (rule arg_cong [OF b])
  then have len: "length (cwd b) < length b" by simp
  have "cstr ?m 0 (cwd b)"
  proof (rule cstr_list [OF cwd_no_nul])
    fix i assume i: "i \<le> length (cwd b)"
    then have "?m (0 + of_nat i) = b ! i" using len assms(2) by (simp add: two_strings_def Let_def unat_of_nat)
    also have "\<dots> = (cwd b @ 0 # r) ! i" by (rule arg_cong [OF b])
    also have "\<dots> = (cwd b @ [0]) ! i" using i by (simp add: nth_append)
    finally show "?m (0 + of_nat i) = (cwd b @ [0]) ! i" .
  qed
  moreover have "cstr ?m 256 (ascii nm)"
  proof (rule cstr_list [OF assms(3)])
    fix i assume i: "i \<le> length (ascii nm)"
    then have "unat (256 + of_nat i :: u32) = 256 + i"
      using assms(4) by (simp add: unat_word_ariths unat_of_nat ascii_def)
    then show "?m (256 + of_nat i) = (ascii nm @ [0]) ! i"
      using i assms(2,4) by (simp add: two_strings_def Let_def c_string_ascii ascii_def)
  qed
  ultimately obtain r where "kernel_strcmp ?m 0 256 = Some r" "r = 0 \<longleftrightarrow> cwd b = ascii nm"
    using kernel_strcmp_cstr by blast
  then show ?thesis by (simp add: is_cmd_def)
qed

lemma table_names: "\<forall>(nm, c)\<in>set command_table. 0 \<notin> set (ascii nm) \<and> length nm < 256"
  by (simp add: command_table_def ascii_def)

lemma find_is_cmd:
  assumes "0 \<in> set b" "length b \<le> 256"
  shows "\<forall>(nm, c)\<in>set t. 0 \<notin> set (ascii nm) \<and> length nm < 256 \<Longrightarrow>
    map_option snd (find (\<lambda>(nm, c). is_cmd b nm) t) = map_of (map (\<lambda>(nm, c). (ascii nm, c)) t) (cwd b)"
  by (induction t) (auto simp: is_cmd_iff [OF assms])

lemma command_of_map:
  assumes "0 \<in> set b" "length b = 64"
  shows "command_of b = map_of (map (\<lambda>(nm, c). (ascii nm, c)) command_table) (cwd b)"
  unfolding command_of_def using find_is_cmd [OF assms(1) _ table_names] assms(2) by simp

section \<open>The parameter\<close>

lemma find_blank_spec:
  "i \<le> j \<Longrightarrow> j < i + n \<Longrightarrow> j < length b \<Longrightarrow> \<forall>k. i \<le> k \<and> k < j \<longrightarrow> b ! k \<noteq> 32 \<Longrightarrow> b ! j = 32 \<Longrightarrow> find_blank n b i = Inr j"
proof (induction n arbitrary: i)
  case (Suc n)
  show ?case
  proof (cases "i = j")
    case False
    then have "find_blank n b (i + 1) = Inr j" using Suc.prems by (intro Suc.IH) auto
    then show ?thesis using Suc.prems False by simp
  qed (use Suc.prems in simp)
qed simp

lemma split_line_at:
  assumes "32 \<notin> set w" "length w < 63"
  shows "split_line (w @ 32 # r) = Inr (w @ 0 # r, length w + 1)"
proof -
  have "find_blank 63 (w @ 32 # r) 0 = Inr (length w)"
    using assms by (intro find_blank_spec) (auto simp: nth_append in_set_conv_nth)
  then show ?thesis using assms by (simp add: split_line_def)
qed

lemma c_str_append [simp]: "0 \<notin> set t \<Longrightarrow> c_str (t @ 0 # r) = Inr t"
  by (simp add: c_str_def)

text \<open>
  C33. The parameter of a command is what follows the first blank in the line's array: the text
  behind the command when a blank was typed, but when none was typed it is text that an earlier,
  longer line has left there.
\<close>

theorem parameter_of_line:
  assumes "32 \<notin> set w" "0 \<notin> set w" "0 \<notin> set p" "0 \<notin> set y" "32 \<notin> set x" "length w + length x + 1 < 63"
  shows "(\<exists>b off. split_line (w @ 32 # p @ 0 # r) = Inr (b, off) \<and> cwd b = w \<and> c_str (drop off b) = Inr p)
    \<and> (\<exists>b off. split_line (w @ 0 # x @ 32 # y @ 0 # r) = Inr (b, off) \<and> cwd b = w \<and> c_str (drop off b) = Inr y)"
proof
  have "split_line (w @ 32 # p @ 0 # r) = Inr (w @ 0 # p @ 0 # r, length w + 1)"
    using split_line_at [of w "p @ 0 # r"] assms by simp
  then show "\<exists>b off. split_line (w @ 32 # p @ 0 # r) = Inr (b, off) \<and> cwd b = w \<and> c_str (drop off b) = Inr p"
    using assms by simp
  have "split_line ((w @ 0 # x) @ 32 # y @ 0 # r) = Inr ((w @ 0 # x) @ 0 # y @ 0 # r, length (w @ 0 # x) + 1)"
    by (rule split_line_at) (use assms in auto)
  then show "\<exists>b off. split_line (w @ 0 # x @ 32 # y @ 0 # r) = Inr (b, off) \<and> cwd b = w \<and> c_str (drop off b) = Inr y"
    using assms by simp
qed

text \<open>After \<^verbatim>\<open>rm /a b\<close>, the line \<^verbatim>\<open>cat\<close> gets the parameter \<^verbatim>\<open>b\<close>.\<close>

theorem parameter_of_line_witness:
  "\<exists>b off. split_line (ascii ''cat'' @ 0 # ascii ''a'' @ 32 # ascii ''b'' @ 0 # replicate 56 0) = Inr (b, off)
    \<and> cwd b = ascii ''cat'' \<and> c_str (drop off b) = Inr (ascii ''b'')"
  using parameter_of_line [of "ascii ''cat''" "[]" "ascii ''b''" "ascii ''a''" "replicate 56 0"]
  by (simp add: ascii_def)

section \<open>A whole line\<close>

lemma print_line_text: "37 \<notin> set t \<Longrightarrow> print_line t ap s = Inr (s\<lparr>con := put_text t 0xfff 0 (con s)\<rparr>)"
  by (simp add: print_line_def say_text)

lemma print_line_str: "print_line (ascii ''  %s'' @ nl) [VStr t] s = Inr (s\<lparr>con := put_text (ascii ''  '' @ t @ nl) 0xfff 0 (con s)\<rparr>)"
  using say_str [of "ascii ''  ''" nl t "con s"] by (simp add: print_line_def ascii_def nl_def)

lemma split_line_keeps:
  assumes "split_line a = Inr (b, off)"
  shows "length b = length a" "0 \<in> set a \<Longrightarrow> 0 \<in> set b"
proof -
  obtain i where i: "find_blank 63 a 0 = Inr i" "b = (if i = 63 then a else a[i := 0])"
    using assms by (auto simp: split_line_def res_simps split: if_splits)
  then show "length b = length a" by simp
  show "0 \<in> set b" if "0 \<in> set a"
  proof (cases "i < length a \<and> i \<noteq> 63")
    case True
    then show ?thesis using i(2) by (simp add: set_update_memI)
  next
    case False
    then have "b = a" using i(2) by (auto simp: list_update_beyond)
    then show ?thesis using that by simp
  qed
qed

lemma case_if_Some: "case_option n f (if c then Some x else r) = (if c then f x else case_option n f r)"
  by simp

text \<open>
  C34. The dispatch of a line. Its command is the text up to the first terminator of the line as it is split,
  and must be exactly the name: then \<^verbatim>\<open>parse_cmd\<close> runs the operation of that branch with the parameter; an empty
  command does nothing more, and of any other the shell says that it is not found. Before that the newline and the
  parameter are shown.
\<close>

theorem parse_cmd_dispatch:
  assumes "length (ps_buffer (shell_st s)) = 64" "0 \<in> set (ps_buffer (shell_st s))"
    and "split_line (ps_buffer (shell_st s)) = Inr (b, off)" "c_str (drop off b) = Inr p"
  shows "parse_cmd e s =
    (let w = cwd b;
       t = s\<lparr>shell_st := (shell_st s)\<lparr>ps_buffer := b\<rparr>, con := put_text (ascii ''  '' @ p @ nl) 0xfff 0 (kernel_putchar 10 0 0 (con s))\<rparr>
     in if w = [] then Inr t
       else if w = ascii ''clear'' then cmd_clear t
       else if w = ascii ''echo'' then cmd_echo (drop off b) t
       else if w = ascii ''gettime'' then cmd_gettime e t
       else if w = ascii ''syscall4'' then test_syscall4 e t
       else if w = ascii ''sdwi'' then cmd_sdwi e t
       else if w = ascii ''sdr'' then cmd_sdr e t
       else if w = ascii ''sdwz'' then cmd_sdwz e t
       else if w = ascii ''mminfo'' then cmd_mminfo t
       else if w = ascii ''mmtest'' then cmd_mmtest e t
       else if w = ascii ''ps'' then cmd_ps t
       else if w = ascii ''forktest'' then cmd_forktest e t
       else if w = ascii ''pidtest'' then cmd_pidtest e t
       else if w = ascii ''killmode'' then cmd_killmode t
       else if w = ascii ''mmtest1'' then cmd_mmtest1 e t
       else if w = ascii ''mmtest2'' then cmd_mmtest2 e t
       else if w = ascii ''mmtest3'' then cmd_mmtest3 e t
       else if w = ascii ''mmtest4'' then cmd_mmtest4 e t
       else if w = ascii ''kill'' then cmd_kill e (drop off b) t
       else if w = ascii ''time'' then cmd_time e t
       else if w = ascii ''time7'' then cmd_time7 e t
       else if w = ascii ''proc'' then cmd_proc e t
       else if w = ascii ''cat'' then cmd_cat e (drop off b) t
       else if w = ascii ''ls'' then cmd_ls e t
       else if w = ascii ''vi'' then cmd_vi e (drop off b) t
       else if w = ascii ''exec'' then cmd_exec e (drop off b) t
       else if w = ascii ''rm'' then cmd_rm e (drop off b) t
       else if w = ascii ''mkdir'' then cmd_mkdir e off (drop off b) t
       else if w = ascii ''rmdir'' then cmd_rmdir e (drop off b) t
       else if w = ascii ''touch'' then cmd_touch e off (drop off b) t
       else if w = ascii ''ls_l'' then cmd_ls_l e off (drop off b) t
       else if w = ascii ''ls_help'' then cmd_ls_help t
       else if w = ascii ''pwd'' then cmd_pwd t
       else if w = ascii ''tree'' then cmd_tree t
       else if w = ascii ''cd'' then cmd_cd (drop off b) t
       else if w = ascii ''mv'' then cmd_mv e off (drop off b) t
       else if w = ascii ''cp'' then cmd_cp e off (drop off b) t
       else not_found b t)"
proof -
  let ?t = "s\<lparr>shell_st := (shell_st s)\<lparr>ps_buffer := b\<rparr>, con := put_text (ascii ''  '' @ p @ nl) 0xfff 0 (kernel_putchar 10 0 0 (con s))\<rparr>"
  have b: "length b = 64" "0 \<in> set b" using split_line_keeps [OF assms(3)] assms(1,2) by simp_all
  then have c: "rdn b 0 = Inr (b ! 0)" "b ! 0 = 0 \<longleftrightarrow> cwd b = []" by (simp add: rdn_def, cases b) (auto simp: cwd_def)
  let ?u = "on_shell (\<lambda>x. x\<lparr>ps_buffer := b\<rparr>) (s\<lparr>con := kernel_putchar 10 0 0 (con s)\<rparr>)"
  have u: "?u\<lparr>con := put_text (ascii ''  '' @ p @ nl) 0xfff 0 (con ?u)\<rparr> = ?t" by (simp add: on_shell_def)
  have sp: "split_line (ps_buffer (shell_st (s\<lparr>con := kernel_putchar 10 0 0 (con s)\<rparr>))) = Inr (b, off)" using assms(3) by simp
  have "parse_cmd e s = (if cwd b = [] then Inr ?t
      else case command_of b of Some cmd \<Rightarrow> run_cmd e off (drop off b) cmd ?t | None \<Rightarrow> not_found b ?t)"
    unfolding parse_cmd_def Let_def using sp assms(4) c by (simp only: rbind_Inr prod.case print_line_str u)
  then show ?thesis
    by (simp only: Let_def command_of_map [OF b(2,1)] command_table_def list.map prod.case map_of.simps fst_conv snd_conv
      fun_upd_apply case_if_Some option.case run_cmd.simps)
qed

lemma type_char_pwd: "type_char c (sh, v) = Inr (sh', v') \<Longrightarrow> pwd sh' = pwd sh"
  by (auto simp: type_char_def erase_char_def add_char_def split: if_splits)

lemma keys_typed:
  "10 \<notin> set cs \<Longrightarrow> rfold (key_typed e) cs s =
    rbind (rfold type_char cs (shell_st s, con s)) (\<lambda>(sh, v). Inr (s\<lparr>shell_st := sh, con := v\<rparr>))"
proof (induction cs arbitrary: s)
  case (Cons c cs)
  have k: "key_typed e c s = rbind (type_char c (shell_st s, con s)) (\<lambda>(sh, v). Inr (s\<lparr>shell_st := sh, con := v\<rparr>))"
    using Cons.prems by (simp add: key_typed_def)
  show ?case
  proof (cases "type_char c (shell_st s, con s)")
    case (Inr x)
    then show ?thesis using Cons.IH [of "s\<lparr>shell_st := fst x, con := snd x\<rparr>"] Cons.prems k
      by (cases x) (auto simp: rbind_def split: sum.splits)
  qed (use k in simp)
qed simp

lemma typed_keep_pwd: "rfold type_char cs x = Inr y \<Longrightarrow> pwd (fst y) = pwd (fst x)"
proof (induction cs arbitrary: x)
  case (Cons c cs)
  obtain z where z: "type_char c x = Inr z" "rfold type_char cs z = Inr y" using Cons.prems by (auto simp: res_simps)
  then have "pwd (fst z) = pwd (fst x)" using type_char_pwd [of c "fst x" "snd x" "fst z" "snd z"] by simp
  then show ?case using Cons.IH [OF z(2)] by simp
qed simp

lemma edit_plain: "8 \<notin> set cs \<Longrightarrow> length line + length cs \<le> 63 \<Longrightarrow> foldl edit line cs = line @ cs"
  by (induction cs arbitrary: line) (auto simp: edit_def)

text \<open>A line of plain characters, up to the moment its newline is handled.\<close>

lemma line_typed:
  assumes "line_shown row [] (shell_st s, con s)" "unat row < 29"
    and "\<forall>c\<in>set cs. typed c \<and> c \<noteq> 8 \<and> c \<noteq> 0" "length cs \<le> 63"
  shows "\<exists>sh v sh' r. rfold (key_typed e) cs s = Inr (s\<lparr>shell_st := sh, con := v\<rparr>) \<and> line_shown row cs (sh, v) \<and> end_line sh = Inr sh'
    \<and> ps_buffer sh' = cs @ 0 # r \<and> length (ps_buffer sh') = 64 \<and> pwd sh' = pwd (shell_st s)"
proof -
  have "8 \<notin> set cs" "0 \<notin> set cs" using assms(3) by auto
  then have e: "foldl edit [] cs = cs" using edit_plain [of cs "[]"] assms(4) by simp
  obtain x where "rfold type_char cs (shell_st s, con s) = Inr x" "line_shown row (foldl edit [] cs) x"
    using line_editor_steps [OF assms(1,2), of cs] assms(3) by auto
  then obtain sh v where x: "rfold type_char cs (shell_st s, con s) = Inr (sh, v)" "line_shown row cs (sh, v)"
    unfolding e by (cases x) auto
  obtain sh' where sh': "end_line sh = Inr sh'" "takeWhile (\<lambda>c. c \<noteq> 0) (ps_buffer sh') = cs" "length (ps_buffer sh') = 64"
    using end_line_command [OF x(2) \<open>0 \<notin> set cs\<close>] by blast
  have "0 \<in> set (ps_buffer sh')"
    using sh'(1) by (auto simp: end_line_def set_update_memI split: if_splits)
  then obtain r where "ps_buffer sh' = cs @ 0 # r" using cwd_split [of "ps_buffer sh'"] sh'(2) by (auto simp: cwd_def)
  moreover have "pwd sh' = pwd (shell_st s)"
    using typed_keep_pwd [OF x(1)] sh'(1) by (auto simp: end_line_def split: if_splits)
  moreover have "10 \<notin> set cs" using assms(3) by (auto simp: typed_def)
  then have "rfold (key_typed e) cs s = Inr (s\<lparr>shell_st := sh, con := v\<rparr>)" using keys_typed [of cs e s] x(1) by simp
  ultimately show ?thesis using sh' x(2) by blast
qed

lemma cmd_no_nul: "0 \<notin> set (ascii ''exit'')" by (simp add: ascii_def)

lemma not_exit:
  assumes "ps_buffer sh = cs @ 0 # r" "length (ps_buffer sh) = 64" "0 \<notin> set cs" "cs \<noteq> ascii ''exit''"
  shows "\<not> is_cmd (ps_buffer sh) ''exit''"
  using is_cmd_iff [of "ps_buffer sh" "''exit''"] assms by (simp add: cmd_no_nul)

text \<open>The command of a line with one parameter reaches its operation with the parameter's bytes.\<close>

lemma parse_cmd_one:
  assumes "ps_buffer (shell_st s) = w @ 32 # p @ 0 # r" "length (ps_buffer (shell_st s)) = 64"
    and "w \<noteq> []" "0 \<notin> set w" "32 \<notin> set w" "0 \<notin> set p" "map_of (map (\<lambda>(nm, c). (ascii nm, c)) command_table) w = Some c"
  shows "parse_cmd e s = run_cmd e (length w + 1) (p @ 0 # r) c
    (s\<lparr>shell_st := (shell_st s)\<lparr>ps_buffer := w @ 0 # p @ 0 # r\<rparr>, con := put_text (ascii ''  '' @ p @ nl) 0xfff 0 (kernel_putchar 10 0 0 (con s))\<rparr>)"
proof -
  let ?b = "w @ 0 # p @ 0 # r"
  let ?s = "on_shell (\<lambda>x. x\<lparr>ps_buffer := ?b\<rparr>) (s\<lparr>con := kernel_putchar 10 0 0 (con s)\<rparr>)"
  have len: "length w < 63" "length ?b = 64" using assms(1,2) by simp_all
  have sp: "split_line (ps_buffer (shell_st s)) = Inr (?b, length w + 1)"
    unfolding assms(1) using split_line_at [OF assms(5) len(1)] by simp
  let ?v = "put_text (ascii ''  '' @ p @ nl) 0xfff 0 (kernel_putchar 10 0 0 (con s))"
  have v: "print_line (ascii ''  %s'' @ nl) [VStr p] ?s = Inr (?s\<lparr>con := ?v\<rparr>)" by (simp add: print_line_str on_shell_def)
  have "cwd ?b = w" using assms(4) by simp
  then have "command_of ?b = Some c" using command_of_map [of ?b] len(2) assms(7) by simp
  moreover have "rdn ?b 0 = Inr (hd w)" "hd w \<noteq> 0" using assms(3,4) by (cases w; simp)+
  moreover have "c_str (p @ 0 # r) = Inr p" using assms(6) by simp
  ultimately have "parse_cmd e s = run_cmd e (length w + 1) (p @ 0 # r) c (?s\<lparr>con := ?v\<rparr>)"
    using sp v by (simp add: parse_cmd_def on_shell_def Let_def)
  moreover have "?s\<lparr>con := ?v\<rparr> = s\<lparr>shell_st := (shell_st s)\<lparr>ps_buffer := ?b\<rparr>, con := ?v\<rparr>" by (simp add: on_shell_def)
  ultimately show ?thesis by simp
qed

text \<open>
  C19. Typing \<^verbatim>\<open>cd name\<close> and a newline at the prompt, seen through the line editor, the splitting of the
  line, the dispatch and \<^verbatim>\<open>do_cd\<close>: the working directory becomes the named entry of the one before,
  and of the rest of the system only the line and the screen change. The screen has the line behind the
  prompt, the name below it, and a new prompt.
\<close>

theorem typing_cd:
  assumes "line_shown row [] (shell_st s, con s)" "unat row < 29"
    and "dir_name n" "\<forall>c\<in>set n. typed c \<and> c \<noteq> 8" "length n \<le> 60"
    and "length (pwd (shell_st s)) = 256" "0 \<in> set (pwd (shell_st s))" "cwd (pwd (shell_st s)) = t"
    and "t \<noteq> []" "length t + length n + 2 \<le> 256"
  shows "\<exists>sh sh0 v0. rfold (key_typed e) (ascii ''cd '' @ n @ [10]) s = Inr (s\<lparr>shell_st := sh,
      con := put_text (ascii ''  '' @ n @ nl @ ascii ''  PS>'') 0xfff 0 (kernel_putchar 10 0 0 v0)\<rparr>)
    \<and> line_shown row (ascii ''cd '' @ n) (sh0, v0)
    \<and> cwd (pwd sh) = (if length t = 1 then t else t @ [47]) @ n \<and> length (pwd sh) = 256"
proof -
  let ?cs = "ascii ''cd '' @ n" and ?t = "(if length t = 1 then t else t @ [47]) @ n"
  have n: "0 \<notin> set n" using assms(3) by (auto simp: dir_name_def)
  have cs: "\<forall>c\<in>set ?cs. typed c \<and> c \<noteq> 8 \<and> c \<noteq> 0" using assms(4) n by (auto simp: ascii_def typed_def)
  have "length ?cs \<le> 63" using assms(5) by (simp add: ascii_def)
  note typed = line_typed [OF assms(1,2) cs this, of e]
  obtain sh v sh' r where t1: "rfold (key_typed e) ?cs s = Inr (s\<lparr>shell_st := sh, con := v\<rparr>)" "end_line sh = Inr sh'"
    "line_shown row ?cs (sh, v)" "ps_buffer sh' = ?cs @ 0 # r" "length (ps_buffer sh') = 64" "pwd sh' = pwd (shell_st s)"
    using typed by blast
  have b: "ps_buffer sh' = [99, 100] @ 32 # n @ 0 # r" using t1(4) by (simp add: ascii_def)
  have lk: "map_of (map (\<lambda>(nm, c). (ascii nm, c)) command_table) [99, 100] = Some Cmd_cd" by (simp add: command_table_def ascii_def)
  let ?s1 = "s\<lparr>con := v, shell_st := sh'\<rparr>"
  let ?v1 = "put_text (ascii ''  '' @ n @ nl) 0xfff 0 (kernel_putchar 10 0 0 v)"
  have p: "parse_cmd e ?s1 = run_cmd e 3 (n @ 0 # r) Cmd_cd (?s1\<lparr>shell_st := sh'\<lparr>ps_buffer := [99, 100] @ 0 # n @ 0 # r\<rparr>, con := ?v1\<rparr>)"
    using parse_cmd_one [of ?s1 "[99, 100]" n r Cmd_cd e] b t1(5) n lk by simp
  obtain q where q: "pwd (shell_st s) = t @ 0 # q" "0 \<notin> set t" using cwd_split [OF assms(7)] assms(8) by auto
  obtain q' where cd: "do_cd (n @ 0 # r) (pwd (shell_st s)) = Inr (?t @ 0 # q')" "length (?t @ 0 # q') = 256"
    using do_cd_name [OF assms(3) q(2) assms(9), of q r] assms(6,10) q(1) by auto
  have ne: "\<not> is_cmd (ps_buffer sh') ''exit''"
    by (rule not_exit [OF t1(4,5)]) (use cs in \<open>auto simp: ascii_def\<close>)
  define sh'' where "sh'' = sh'\<lparr>ps_buffer := [99, 100] @ 0 # n @ 0 # r, pwd := ?t @ 0 # q', ps_buffer_index := 0\<rparr>"
  define v2 where "v2 = put_text (ascii ''  PS>'') 0xfff 0 ?v1"
  have fin: "newline_typed e (s\<lparr>shell_st := sh, con := v\<rparr>) = Inr (s\<lparr>shell_st := sh'', con := v2\<rparr>)" "pwd sh'' = ?t @ 0 # q'"
    using t1(2,6) ne p cd(1) by (simp_all add: newline_typed_def Let_def cmd_cd_def on_shell_def print_text_def sh''_def v2_def)
  have "rfold (key_typed e) (ascii ''cd '' @ n @ [10]) s = Inr (s\<lparr>shell_st := sh'', con := v2\<rparr>)"
    using rfold_append [of "key_typed e" ?cs "[10]" s] t1(1) fin(1) by (simp add: key_typed_def)
  moreover have "cwd (pwd sh'') = ?t" using fin(2) q(2) n cwd_append [of ?t q'] by auto
  moreover have "v2 = put_text (ascii ''  '' @ n @ nl @ ascii ''  PS>'') 0xfff 0 (kernel_putchar 10 0 0 v)"
    by (simp add: v2_def put_text_append)
  ultimately show ?thesis using fin(2) cd(2) t1(3) by (intro exI [of _ sh''] exI [of _ sh] exI [of _ v]) simp
qed

text \<open>A whole system: the card of \<open>Sd\<close>, one process table, one slab cache, an empty tree but for the root.\<close>

definition demo_file :: FILE where
  "demo_file = \<lparr>path = replicate 256 0, loc = 0, dir_entry_pos = 0, dir_entry_sector = 0, entry = replicate 32 0, file_clock = 0, data_buf = []\<rparr>"

definition demo_files :: "card sd fat" where
  "demo_files = \<lparr>fat_info = demo_fs, fat_clock_head = 0, fat_buf = demo_bufs, filename11 = replicate 13 0,
     new_alloc_empty = replicate 4096 0, dir_data_buf = demo_bufs, dir_data_clock_head = 0, fdev = demo_card, fil = demo_file,
     ubuf = [], fdir = \<lparr>cur_sector = 0, dir_loc = 0, dir_sec = 0\<rparr>, dir_find = demo_file, file_create = demo_file,
     mk_dir_buf = replicate 32 0\<rparr>"

definition demo_vfs :: "card sd fat32" where
  "demo_vfs = bind_fat32 (sd_io card_hw) \<lparr>vfs_find = ferr, vfs_init = ferr, vfs_open = (\<lambda>_. ferr), vfs_close = ferr,
     vfs_read = (\<lambda>_. ferr), vfs_write = (\<lambda>_. ferr), vfs_fflush = ferr, vfs_lseek = (\<lambda>_. ferr), vfs_create = (\<lambda>_ _. ferr),
     vfs_mkdir = (\<lambda>_ _ _ _. ferr), vfs_rmdir = (\<lambda>_ _. ferr), vfs_rm = (\<lambda>_ _. ferr), vfs_mv = (\<lambda>_ _ _ _. ferr),
     vfs_cp = (\<lambda>_ _ _ _. ferr), vfs_open_dir = (\<lambda>_. ferr), vfs_read_dir = ferr, vfs_cat = (\<lambda>_ _ _. ferr)\<rparr>"

definition demo_kernel :: "slabs kern" where
  "demo_kernel = \<lparr>task_queue = task_queue demo_kern, curr_proc = curr_proc demo_kern, curr_queue = 5, time_slice = time_slice demo_kern,
     bits_map = bits_map demo_kern, kill_state = 1, pids = pids demo_kern, cp0_count = 500, cp0_compare = 1000, cp0_status = 1,
     syscalls = replicate 256 None, interrupts = replicate 8 None, exceptions = replicate 32 None, gpio_led = 0, mem = (\<lambda>_. 0),
     heap = demo_slabs\<rparr>"

definition demo_sys :: "card sys" where
  "demo_sys = \<lparr>shell_st = fst demo_shell, con = snd demo_shell, keyb = demo_keys, files = demo_files, vfs = demo_vfs,
     names = init_filetree 16 Map.empty, root_node = 16, kernel = demo_kernel, boot = sample_bmm, editor = demo_vi\<rparr>"

definition demo_sys_env :: "card env" where
  "demo_sys_env = \<lparr>hw = card_hw, local_file = (\<lambda>_. demo_file), local_bytes = (\<lambda>n. replicate (unat n) 0), clock = (0, 0),
     fuel = 1000, gp = 0x80100000, addr_of = (\<lambda>_. 0x80200000), trap_regs = demo_ctx, yield = Inr, irq = (\<lambda>_. id), vi_keys = [],
     run_program = (\<lambda>_ s. Inr (0, s))\<rparr>"

text \<open>The line \<^verbatim>\<open>echo a\<close> at the prompt of that system.\<close>

theorem parse_cmd_dispatch_witness:
  "\<exists>sh v. parse_cmd demo_sys_env (demo_sys\<lparr>shell_st := (shell_st demo_sys)\<lparr>ps_buffer := ascii ''echo'' @ 32 # ascii ''a'' @ 0 # replicate 57 0\<rparr>\<rparr>)
    = cmd_echo (ascii ''a'' @ 0 # replicate 57 0) (demo_sys\<lparr>shell_st := sh, con := v\<rparr>)"
proof -
  let ?b = "ascii ''echo'' @ 0 # ascii ''a'' @ 0 # replicate 57 0"
  let ?s = "demo_sys\<lparr>shell_st := (shell_st demo_sys)\<lparr>ps_buffer := ascii ''echo'' @ 32 # ascii ''a'' @ 0 # replicate 57 0\<rparr>\<rparr>"
  have "split_line (ps_buffer (shell_st ?s)) = Inr (?b, 5)" "c_str (drop 5 ?b) = Inr (ascii ''a'')"
    "length (ps_buffer (shell_st ?s)) = 64" "0 \<in> set (ps_buffer (shell_st ?s))"
    using split_line_at [of "ascii ''echo''" "ascii ''a'' @ 0 # replicate 57 0"] by (simp_all add: ascii_def c_str_def)
  note d = parse_cmd_dispatch [of ?s ?b 5 "ascii ''a''" demo_sys_env, unfolded Let_def, OF this(3,4,1,2)]
  have "cwd ?b = ascii ''echo''" "drop 5 ?b = ascii ''a'' @ 0 # replicate 57 0" "ascii ''echo'' \<noteq> []" "ascii ''echo'' \<noteq> ascii ''clear''"
    by (simp_all add: cwd_def ascii_def)
  note d = d [unfolded this(1,2), simplified if_not_P [OF this(3)] if_not_P [OF this(4)] refl if_True]
  show ?thesis by (rule exI, rule exI, rule d [simplified])
qed

theorem typing_cd_witness:
  "\<exists>sh sh0 v0. rfold (key_typed demo_sys_env) (ascii ''cd bin'' @ [10]) demo_sys = Inr (demo_sys\<lparr>shell_st := sh,
      con := put_text (ascii ''  bin'' @ nl @ ascii ''  PS>'') 0xfff 0 (kernel_putchar 10 0 0 v0)\<rparr>)
    \<and> line_shown 3 (ascii ''cd bin'') (sh0, v0)
    \<and> cwd (pwd sh) = ascii ''/bin'' \<and> length (pwd sh) = 256"
proof -
  have "line_shown 3 [] (shell_st demo_sys, con demo_sys)" by (simp add: demo_sys_def demo_shell_def line_shown_def)
  moreover have "length (pwd (shell_st demo_sys)) = 256" "0 \<in> set (pwd (shell_st demo_sys))" "cwd (pwd (shell_st demo_sys)) = [47]"
    by (simp_all add: demo_sys_def demo_shell_def cwd_def)
  ultimately show ?thesis
    using typing_cd [of 3 demo_sys "ascii ''bin''" "[47]" demo_sys_env] by (simp add: dir_name_def typed_def ascii_def)
qed

end
