(* ===== verification/ShellTree.thy ===== *)
theory ShellTree
  imports ShellThms FileTreeThms
begin

text \<open>
  How \<^verbatim>\<open>touch\<close> and \<^verbatim>\<open>mkdir\<close> keep the tree of names in step with the directory on the card.
\<close>

lemma cut_slash_last:
  "47 \<notin> set n \<Longrightarrow> cut_slash (Suc (length n)) (47 # n @ r) = 0 # n @ r"
proof (induction n arbitrary: r rule: rev_induct)
  case (snoc c n)
  then show ?case by (simp add: nth_append)
qed simp

lemma copy_rest_string: "0 \<notin> set n \<Longrightarrow> length n \<le> k \<Longrightarrow> n \<noteq> [] \<or> 0 < k \<Longrightarrow> copy_rest k (n @ 0 # r) = Inr n"
proof (induction n arbitrary: k)
  case Nil
  then show ?case by (cases k) auto
next
  case (Cons c n)
  then obtain j where "k = Suc j" by (cases k) auto
  moreover have "copy_rest j (n @ 0 # r) = Inr n"
  proof (cases "n = [] \<and> j = 0")
    case False
    then show ?thesis using Cons calculation by (intro Cons.IH) auto
  qed simp
  ultimately show ?case using Cons.prems by simp
qed

definition fresh_node :: "u8 list \<Rightarrow> filetree" where
  "fresh_node n = \<lparr>node_name = 47 # n @ replicate (255 - length n) 0, child = 0, parent = 0, next_node = 0, before = 0\<rparr>"

lemma init_treenode_path:
  assumes "0 \<notin> set n" "length n \<le> 254"
  shows "init_treenode p (47 # n @ 0 # r) ns = Inr (ns(p \<mapsto> fresh_node n))"
  using copy_rest_string [OF assms(1), of 255 r] assms by (simp add: init_treenode_def fresh_node_def)

lemma fresh_path: "0 \<notin> set n \<Longrightarrow> length n \<le> 254 \<Longrightarrow> path_of (ns(p \<mapsto> fresh_node n)) p = 47 # n \<and> 0 \<in> set (node_name (fresh_node n))"
  by (auto simp: path_of_def fresh_node_def c_text_def takeWhile_append)

lemma root_dir_fresh:
  assumes "root_dir ns rp cs" "p \<notin> set (rp # cs)"
  shows "root_dir (ns(p \<mapsto> x)) rp cs" "\<forall>y\<in>set cs. path_of (ns(p \<mapsto> x)) y = path_of ns y"
proof -
  let ?ns = "ns(p \<mapsto> x)"
  have d: "distinct (rp # cs)" "chain ns rp [rp]" "path_of ns rp = [47]" "chain ns (child (the (ns rp))) cs"
    using assms(1) by (simp_all only: root_dir_def)
  have "chain ?ns c xs" if "chain ns c xs" "p \<notin> set xs" for c xs
    by (rule chain_same [OF _ that(1)]) (use chain_allocated [OF that(1)] that(2) in fastforce)
  then have "chain ?ns rp [rp]" "chain ?ns (child (the (ns rp))) cs" using d assms(2) by auto
  moreover have "rp \<noteq> p" using assms(2) by auto
  ultimately show "root_dir ?ns rp cs" using d(1,3) by (simp add: root_dir_def path_of_def)
  show "\<forall>y\<in>set cs. path_of ?ns y = path_of ns y" using assms(2) by (auto simp: path_of_def)
qed

text \<open>The empty path is no path of the tree when the first entry of the root is not a directory with entries.\<close>

lemma findNode_empty_path:
  assumes "root_dir ns rp cs" "\<forall>x\<in>set cs. path_of ns x \<noteq> []" "cs \<noteq> [] \<longrightarrow> child (the (ns (hd cs))) = 0"
  shows "findNode ns rp (0 # r) = Inr 0"
proof -
  obtain n where n: "rp \<noteq> 0" "ns rp = Some n" "chain ns rp [rp]" "path_of ns rp = [47]" "chain ns (child n) cs"
    using assms(1) by (auto simp: root_dir_def)
  have top: "find_brother ns (0 # r) rp = Some (Inr 0)"
    using find_brother_chain [OF n(3), of "[]" r] n(4) by (simp add: first_with_def)
  have "find_level ns (0 # r) (child n) = Some (Inr 0)"
  proof (cases cs)
    case Nil
    then show ?thesis using n(5) by (simp add: find_level.simps)
  next
    case (Cons x xs)
    then obtain m where m: "child n = x" "x \<noteq> 0" "ns x = Some m" using n(5) by auto
    have "first_with ns [] cs = 0" using first_with_zero [OF n(5), of "[]"] assms(2) by blast
    then have "find_brother ns (0 # r) x = Some (Inr 0)"
      using find_brother_chain [OF n(5), of "[]" r] Cons m(1) by simp
    moreover have "child m = 0" using assms(3) Cons m(3) by simp
    ultimately show ?thesis using m by (simp add: find_level.simps [of _ _ x] find_level.simps [of _ _ 0] node_at_def)
  qed
  then show ?thesis using top n by (simp add: findNode_def find_level.simps [of _ _ rp] node_at_def)
qed

text \<open>
  C27. \<^verbatim>\<open>touch /name\<close> puts a node with the path first among the root's entries, where \<^verbatim>\<open>findNode\<close> finds
  it. \<^verbatim>\<open>mkdir /name\<close> asks for the parent with the empty path instead of \<^verbatim>\<open>/\<close>, gets \<^verbatim>\<open>NULL\<close> and
  follows it: the directory is made on the card, and the kernel faults.
\<close>

theorem touch_and_mkdir_in_root:
  assumes "root_dir (names s) (root_node s) cs" "names s 0 = None"
    and "kmalloc (fuel e) 280 (heap (kernel s)) = Inr (p, h)" "p \<noteq> 0" "names s p = None"
    and "n \<noteq> []" "0 \<notin> set n" "47 \<notin> set n" "length n \<le> 254"
    and "\<forall>x\<in>set cs. path_of (names s) x \<noteq> []" "cs \<noteq> [] \<longrightarrow> child (the (names s (hd cs))) = 0"
  shows "(\<exists>s'. touch_node e off (47 # n @ 0 # r) s = Inr s' \<and> root_dir (names s') (root_node s) (p # cs)
        \<and> findNode (names s') (root_node s) (47 # n @ 0 # r) = Inr p)
    \<and> mkdir_node e off (47 # n @ 0 # r) s = Inl Fault"
proof -
  let ?rp = "root_node s" and ?ns = "(names s)(p \<mapsto> fresh_node n)" and ?path = "47 # n @ 0 # r"
  have len: "strlen ?path = Inr (Suc (length n))" using strlen_append [of "47 # n" r] assms(7) by simp
  have cut: "cut_slash (Suc (length n)) ?path = 0 # n @ 0 # r" using cut_slash_last [OF assms(8), of "0 # r"] by simp
  have p: "p \<notin> set (?rp # cs)"
  proof
    assume "p \<in> set (?rp # cs)"
    then have "\<exists>x. names s p = Some x"
      using assms(1) chain_allocated [of "names s" _ cs p] chain_allocated [of "names s" _ "[?rp]" p] by (auto simp: root_dir_def)
    then show False using assms(5) by simp
  qed
  note fresh = root_dir_fresh [OF assms(1) p, of "fresh_node n"]
  note fp = fresh_path [OF assms(7,9), of "names s" p]
  have init: "init_treenode p ?path (names s) = Inr ?ns" by (rule init_treenode_path [OF assms(7,9)])
  obtain ns' where ns': "becomeChild ?rp p ?ns = Inr ns'" "root_dir ns' ?rp (p # cs)" "\<forall>x\<in>set (p # cs). path_of ns' x = path_of ?ns x"
    using becomeChild_root_dir [OF fresh(1), of p "fresh_node n"] fp assms(4) p by (auto simp: fresh_node_def)
  have "findNode ?ns ?rp ([47] @ 0 # (tl n @ 0 # r)) = Inr ?rp" using findNode_root_dir [OF fresh(1), of "[47]"] by simp
  then have root: "findNode ?ns ?rp (47 # 0 # tl n @ 0 # r) = Inr ?rp" by simp
  have "findNode ns' ?rp ((47 # n) @ 0 # r) = Inr p"
    using findNode_root_dir [OF ns'(2), of "47 # n" r] ns'(3) fp assms(6,7) by (simp add: first_with_def)
  moreover have rif: "root_if_empty (0 # n @ 0 # r) = Inr (47 # 0 # tl n @ 0 # r)"
    using assms(6) by (cases n) (simp_all add: root_if_empty_def)
  have "c_str (47 # 0 # tl n @ 0 # r) = Inr [47]" using c_str_append [of "[47]"] by simp
  moreover have "\<exists>v. print_line (ascii ''%s'' @ nl) [VStr t] x = Inr (x\<lparr>con := v\<rparr>)" for t and x :: "'a sys"
  proof -
    have "\<exists>v. say (ascii ''%s'' @ nl) [VStr t] (con x) = Inr v"
      by (simp add: say_def kernel_printf_def kernel_vprintf_def ascii_def nl_def number_printer_def va_str_def)
    then show ?thesis by (auto simp: print_line_def)
  qed
  then obtain v where "print_line (ascii ''%s'' @ nl) [VStr [47]] (set_param off (47 # 0 # tl n @ 0 # r) (s\<lparr>kernel := (kernel s)\<lparr>heap := h\<rparr>, names := ?ns\<rparr>))
      = Inr ((set_param off (47 # 0 # tl n @ 0 # r) (s\<lparr>kernel := (kernel s)\<lparr>heap := h\<rparr>, names := ?ns\<rparr>))\<lparr>con := v\<rparr>)" by blast
  ultimately have "\<exists>s'. touch_node e off ?path s = Inr s' \<and> names s' = ns'"
    using len cut rif init assms(3) root ns'(1)
    by (simp add: touch_node_def alloc_def add_node_def set_param_def on_shell_def)
  moreover have "mkdir_node e off ?path s = Inl Fault"
  proof -
    have "\<forall>x\<in>set cs. path_of ?ns x \<noteq> []" using fresh(2) assms(10) by simp
    moreover have "cs \<noteq> [] \<longrightarrow> child (the (?ns (hd cs))) = 0" using assms(11) p by (cases cs) auto
    ultimately have "findNode ?ns ?rp (0 # n @ 0 # r) = Inr 0" by (rule findNode_empty_path [OF fresh(1)])
    then show ?thesis using len cut init assms(2,3,4)
      by (simp add: mkdir_node_def alloc_def add_node_def set_param_def on_shell_def becomeChild_def node_at_def)
  qed
  ultimately show ?thesis using ns'(2) \<open>findNode ns' ?rp ((47 # n) @ 0 # r) = Inr p\<close> by auto
qed

text \<open>A heap whose cache for 512 bytes has an empty page, and a system with an empty tree on it.\<close>

definition demo_page :: page where
  "demo_page = \<lparr>flag = 0, reference = 1, virtual = 8, bplevel = 0, slabp = 0, end_ptr = 0, nr_objs = 0, max_object = 7, freeobj = 0x80005000\<rparr>"

definition demo_heap :: slabs where
  "demo_heap = demo_slabs\<lparr>km := demo_kmem\<lparr>pages := \<lambda>_. demo_page\<rparr>,
     kmalloc_caches := map (\<lambda>sz. \<lparr>obj_total = sz + 4, objsize = sz, offset = sz, cpu_freeobj = 0, cpu_page = Some 5\<rparr>) size_kmem_cache\<rparr>"

lemma demo_heap_kmalloc: "\<exists>h. kmalloc 1000 280 demo_heap = Inr (0x80005000, h)"
  by (simp add: demo_heap_def kmalloc_def slab_alloc_def slab_check.simps take_object_def cache_at_def get_slab_def size_kmem_cache_def
      demo_page_def upd_cache_def upd_km_def upd_page_def Let_def rd_def KERNEL_ENTRY_def)

definition demo_tree_sys :: "card sys" where
  "demo_tree_sys = demo_sys\<lparr>kernel := demo_kernel\<lparr>heap := demo_heap\<rparr>\<rparr>"

theorem touch_and_mkdir_in_root_witness:
  "(\<exists>s'. touch_node demo_sys_env 6 [47, 97, 0] demo_tree_sys = Inr s' \<and> findNode (names s') 16 [47, 97, 0] = Inr 0x80005000)
    \<and> mkdir_node demo_sys_env 6 [47, 97, 0] demo_tree_sys = Inl Fault"
proof -
  have s: "names demo_tree_sys = init_filetree 16 Map.empty" "root_node demo_tree_sys = 16"
    "heap (kernel demo_tree_sys) = demo_heap" "fuel demo_sys_env = 1000"
    by (simp_all add: demo_tree_sys_def demo_sys_def demo_sys_env_def)
  have "root_dir (names demo_tree_sys) (root_node demo_tree_sys) []"
    by (simp add: s root_dir_def init_filetree_def path_of_def c_text_def)
  moreover obtain h where "kmalloc 1000 280 demo_heap = Inr (0x80005000, h)" using demo_heap_kmalloc by blast
  ultimately show ?thesis
    using touch_and_mkdir_in_root [of demo_tree_sys "[]" demo_sys_env "0x80005000" h "[97]" 6 "[]"]
    by (auto simp: s init_filetree_def)
qed

end
