(* ===== verification/ShellCat.thy ===== *)
theory ShellCat
  imports ShellTree FatOpen
begin

text \<open>
  A line typed at the shell, down to the card: \<^verbatim>\<open>cat\<close> of a file in the root directory, through the keyboard's
  characters, the line editor, the splitting and dispatch of the line, the virtual file system, the file
  system with its caches, and the card, and back to the screen.
\<close>



section \<open>Properties\<close>










end
