(* ===== verification/Sem.thy ===== *)
theory Sem
  imports Slab
begin

text \<open>
  Semaphores, \<^verbatim>\<open>kernel/pc/sem.c\<close>: a counter with a queue of waiting processes, linked by pointers,
  and a table of 64 semaphores. The file calls \<^verbatim>\<open>sleep_on\<close>, \<^verbatim>\<open>wake_up\<close>, \<^verbatim>\<open>get_free_page\<close>, \<^verbatim>\<open>free_page\<close>, \<^verbatim>\<open>cli\<close>,
  \<^verbatim>\<open>sti\<close> and \<^verbatim>\<open>strcmp\<close>, which the repository does not have: they are the parameters of an environment with a
  state of its own. \<^verbatim>\<open>sleep_on\<close> and \<^verbatim>\<open>wake_up\<close> are given the address of a cell for a process; they are functions
  of that address and of what the cell holds, and give what it holds afterwards. \<open>page_word\<close> is what the
  first word of a free page holds. Address 0 is \<^verbatim>\<open>NULL\<close>; a block that is not allocated cannot be reached.
\<close>

record 'e sem_env =
  get_free_page :: "'e \<Rightarrow> u32 \<times> 'e"
  free_page :: "u32 \<Rightarrow> 'e \<Rightarrow> 'e"
  page_word :: "u32 \<Rightarrow> u32"
  sleep_on :: "u32 \<Rightarrow> u32 \<Rightarrow> 'e \<Rightarrow> u32 \<times> 'e"
  wake_up :: "u32 \<Rightarrow> u32 \<Rightarrow> 'e \<Rightarrow> u32 \<times> 'e"
  cli :: "'e \<Rightarrow> 'e"
  sti :: "'e \<Rightarrow> 'e"
  strcmp :: "u8 list \<Rightarrow> u8 list \<Rightarrow> int"

text \<open>
  \<^verbatim>\<open>point\<close>, the first word of the page, is the waiting process as \<^verbatim>\<open>sleep_on\<close> stores it: the address of
  this cell is the address of the page. \<open>sem_heap\<close> is the state of the allocator.
\<close>

record queue =
  point :: u32
  q_next :: u32

record sem_t =
  head :: u32
  tail :: u32
  sem_name :: "u8 list"
  sem_value :: "32 word"

record 'e sems =
  sem_num :: nat
  semaphore :: "u32 list"
  sem_at :: "u32 \<Rightarrow> sem_t option"
  queue_at :: "u32 \<Rightarrow> queue option"
  sem_heap :: slabs
  outside :: 'e

definition SEM_NAME_LENGTH :: nat where "SEM_NAME_LENGTH = 20"

definition the_sem :: "u32 \<Rightarrow> 'e sems \<Rightarrow> sem_t res" where
  "the_sem p s = (case sem_at s p of None \<Rightarrow> Inl Fault | Some x \<Rightarrow> Inr x)"

definition the_queue :: "u32 \<Rightarrow> 'e sems \<Rightarrow> queue res" where
  "the_queue p s = (case queue_at s p of None \<Rightarrow> Inl Fault | Some x \<Rightarrow> Inr x)"

definition set_sem :: "u32 \<Rightarrow> sem_t \<Rightarrow> 'e sems \<Rightarrow> 'e sems" where
  "set_sem p x s = s\<lparr>sem_at := (sem_at s)(p \<mapsto> x)\<rparr>"

definition set_queue :: "u32 \<Rightarrow> queue \<Rightarrow> 'e sems \<Rightarrow> 'e sems" where
  "set_queue p x s = s\<lparr>queue_at := (queue_at s)(p \<mapsto> x)\<rparr>"

definition init_sem :: "'e sems \<Rightarrow> 'e sems" where
  "init_sem s = s\<lparr>sem_num := 0\<rparr>"

text \<open>The name is copied with a fixed length of 20 bytes, whatever the string's; \<^verbatim>\<open>sem_t\<close> has 32 bytes.\<close>

definition sem_open :: "nat \<Rightarrow> u8 list \<Rightarrow> u32 \<Rightarrow> 'e sems \<Rightarrow> (u32 \<times> 'e sems) res" where
  "sem_open fuel nm v s =
     rbind (kmalloc fuel 32 (sem_heap s)) (\<lambda>(sem, h). let s = s\<lparr>sem_heap := h\<rparr> in
      if length nm < SEM_NAME_LENGTH then Inl Fault
      else let s = set_sem sem \<lparr>head = 0, tail = 0, sem_name = take SEM_NAME_LENGTH nm, sem_value = v\<rparr> s in
        if sem_num s < length (semaphore s)
        then Inr (sem, s\<lparr>semaphore := (semaphore s)[sem_num s := sem], sem_num := sem_num s + 1\<rparr>)
        else Inl Fault)"

text \<open>\<open>n\<close> rounds of the loop are left: the index where it stops.\<close>

primrec unlink_loop :: "'e sem_env \<Rightarrow> u8 list \<Rightarrow> nat \<Rightarrow> nat \<Rightarrow> 'e sems \<Rightarrow> (nat \<times> 'e sems) res" where
  "unlink_loop env nm 0 i s = Inr (i, s)"
| "unlink_loop env nm (Suc n) i s =
     (if i < length (semaphore s) then
        let sem = semaphore s ! i in
        if sem = 0 then unlink_loop env nm n (i + 1) s
        else rbind (the_sem sem s) (\<lambda>x.
          if strcmp env (sem_name x) nm = 0
          then Inr (i, s\<lparr>outside := free_page env sem (outside s), sem_at := (sem_at s)(sem := None)\<rparr>)
          else unlink_loop env nm n (i + 1) s)
      else Inl Fault)"

definition sem_unlink :: "'e sem_env \<Rightarrow> u8 list \<Rightarrow> 'e sems \<Rightarrow> (int \<times> 'e sems) res" where
  "sem_unlink env nm s =
     rbind (unlink_loop env nm (sem_num s) 0 (s\<lparr>outside := cli env (outside s)\<rparr>)) (\<lambda>(i, s).
       Inr (if i = sem_num s then -1 else 0, s\<lparr>outside := sti env (outside s)\<rparr>))"

text \<open>
  The new page goes to the end of the queue before the process sleeps; \<open>sleep_on\<close> gives the
  process it stores in the page, and the state in which the process sleeps.
\<close>

definition enqueue_page :: "'e sem_env \<Rightarrow> u32 \<Rightarrow> u32 \<Rightarrow> 'e sems \<Rightarrow> 'e sems res" where
  "enqueue_page env sem tmp s =
     (let s = set_queue tmp \<lparr>point = page_word env tmp, q_next = 0\<rparr> s in
      rbind (the_sem sem s) (\<lambda>x.
      if head x = 0 then Inr (set_sem sem (x\<lparr>head := tmp, tail := tmp\<rparr>) s)
      else rbind (the_queue (tail x) s) (\<lambda>q.
        Inr (set_sem sem (x\<lparr>tail := tmp\<rparr>) (set_queue (tail x) (q\<lparr>q_next := tmp\<rparr>) s)))))"

definition sem_wait :: "'e sem_env \<Rightarrow> u32 \<Rightarrow> 'e sems \<Rightarrow> (int \<times> 'e sems) res" where
  "sem_wait env sem s =
     (if sem = 0 then Inr (-1, s)
      else rbind (the_sem sem s) (\<lambda>x.
        let x = x\<lparr>sem_value := sem_value x - 1\<rparr>; s = set_sem sem x s in
        if sem_value x <s 0 then
          let (tmp, e) = get_free_page env (outside s) in
          rbind (enqueue_page env sem tmp (s\<lparr>outside := e\<rparr>)) (\<lambda>s.
            rbind (the_queue tmp s) (\<lambda>q. let (proc, e) = sleep_on env tmp (point q) (outside s) in
            Inr (0, set_queue tmp (q\<lparr>point := proc\<rparr>) (s\<lparr>outside := e\<rparr>))))
        else Inr (0, s)))"

definition sem_post :: "'e sem_env \<Rightarrow> u32 \<Rightarrow> 'e sems \<Rightarrow> (int \<times> 'e sems) res" where
  "sem_post env sem s =
     (if sem = 0 then Inr (-1, s)
      else let s = s\<lparr>outside := cli env (outside s)\<rparr> in
        rbind (the_sem sem s) (\<lambda>x.
        let x = x\<lparr>sem_value := sem_value x + 1\<rparr>; s = set_sem sem x s in
        rbind
          (if sem_value x \<le>s 0 \<and> head x \<noteq> 0 then
             rbind (the_queue (head x) s) (\<lambda>q.
               let (cell, e) = wake_up env (head x) (point q) (outside s);
                   s = set_queue (head x) (q\<lparr>point := cell\<rparr>) (s\<lparr>outside := e\<rparr>);
                   s = set_sem sem (x\<lparr>head := q_next q\<rparr>) s
               in Inr (s\<lparr>outside := free_page env (head x) (outside s), queue_at := (queue_at s)(head x := None)\<rparr>))
           else Inr s) (\<lambda>s. Inr (0, s\<lparr>outside := sti env (outside s)\<rparr>))))"

section \<open>A counter with a first-in first-out queue\<close>

text \<open>
  The pages from \<open>p\<close> on, in the order of their links, each with the process stored in it. The last page
  may belong to a process that is not stored yet: \<open>page_links\<close> are the pages alone.
\<close>

fun page_links :: "(u32 \<Rightarrow> queue option) \<Rightarrow> u32 \<Rightarrow> u32 list \<Rightarrow> bool" where
  "page_links qa p [] \<longleftrightarrow> p = 0"
| "page_links qa p (x # xs) \<longleftrightarrow> p = x \<and> x \<noteq> 0 \<and> (\<exists>q. qa x = Some q \<and> page_links qa (q_next q) xs)"

definition stored :: "(u32 \<Rightarrow> queue option) \<Rightarrow> (u32 \<times> u32) list \<Rightarrow> bool" where
  "stored qa ws \<longleftrightarrow> (\<forall>(t, w)\<in>set ws. map_option point (qa t) = Some w)"

text \<open>
  A semaphore with value \<open>v\<close> and the waiting processes \<open>ws\<close>, as pairs of a page and the process in it, the
  one that waits longest first: there are any only when the value is negative, and then it is minus
  their number.
\<close>

definition sem_state :: "u32 \<Rightarrow> int \<Rightarrow> (u32 \<times> u32) list \<Rightarrow> 'e sems \<Rightarrow> bool" where
  "sem_state sem v ws s \<longleftrightarrow> sem \<noteq> 0 \<and> distinct (map fst ws) \<and> v = (if ws = [] then \<bar>v\<bar> else - int (length ws))
     \<and> stored (queue_at s) ws
     \<and> (\<exists>x. sem_at s sem = Some x \<and> sint (sem_value x) = v \<and> page_links (queue_at s) (head x) (map fst ws)
         \<and> (ws \<noteq> [] \<longrightarrow> tail x = fst (last ws)))"

lemma page_links_other: "x \<notin> set qs \<Longrightarrow> page_links (qa(x := v)) p qs \<longleftrightarrow> page_links qa p qs"
  by (induction qs arbitrary: p) auto

lemma page_links_point:
  "page_links qa p qs \<Longrightarrow> qa t = Some q \<Longrightarrow> page_links (qa(t \<mapsto> q\<lparr>point := a\<rparr>)) p qs"
  by (induction qs arbitrary: p) (auto split: if_splits)

lemma page_links_snoc:
  "page_links qa p qs \<Longrightarrow> qs \<noteq> [] \<Longrightarrow> distinct qs \<Longrightarrow> y \<notin> set qs \<Longrightarrow> y \<noteq> 0 \<Longrightarrow> qa y = Some \<lparr>point = a, q_next = 0\<rparr>
    \<Longrightarrow> \<exists>q. qa (last qs) = Some q \<and> page_links (qa(last qs \<mapsto> q\<lparr>q_next := y\<rparr>)) p (qs @ [y])"
proof (induction qs arbitrary: p)
  case (Cons x qs)
  obtain q where q: "qa x = Some q" "page_links qa (q_next q) qs" "p = x" "x \<noteq> 0" using Cons.prems(1) by auto
  show ?case
  proof (cases "qs = []")
    case False
    have "\<exists>q'. qa (last qs) = Some q' \<and> page_links (qa(last qs \<mapsto> q'\<lparr>q_next := y\<rparr>)) (q_next q) (qs @ [y])"
      by (rule Cons.IH [OF q(2) False]) (use Cons.prems in auto)
    then obtain q' where "qa (last qs) = Some q'" "page_links (qa(last qs \<mapsto> q'\<lparr>q_next := y\<rparr>)) (q_next q) (qs @ [y])"
      by blast
    moreover have "last qs \<noteq> x" using False Cons.prems(3) by auto
    ultimately show ?thesis using q False by (auto simp del: fun_upd_apply) (auto simp: fun_upd_def)
  qed (use q Cons.prems in auto)
qed simp

lemma stored_other: "stored qa ws \<Longrightarrow> x \<notin> fst ` set ws \<Longrightarrow> stored (qa(x := v)) ws"
  unfolding stored_def by force

lemma stored_next: "stored qa ws \<Longrightarrow> qa t = Some q \<Longrightarrow> stored (qa(t \<mapsto> q\<lparr>q_next := y\<rparr>)) ws"
  unfolding stored_def by fastforce

lemma stored_snoc: "stored qa ws \<Longrightarrow> qa t = Some q \<Longrightarrow> point q = w \<Longrightarrow> stored qa (ws @ [(t, w)])"
  by (auto simp: stored_def)

lemma sint_minus_1:
  fixes x :: u32
  assumes "- 2147483648 < sint x"
  shows "sint (x - 1) = sint x - 1"
proof -
  have "sint x < 2147483648" using sint_less [of x] by simp
  then show ?thesis using assms by (simp add: sint_word_ariths signed_take_bit_int_eq_self)
qed

lemma sint_plus_1:
  fixes x :: u32
  assumes "sint x < 2147483647"
  shows "sint (x + 1) = sint x + 1"
proof -
  have "- 2147483648 \<le> sint x" using sint_greater_eq [of x] by simp
  then show ?thesis using assms by (simp add: sint_word_ariths signed_take_bit_int_eq_self)
qed

lemma enqueue_page_state:
  assumes "sem_at s sem = Some x" "page_links (queue_at s) (head x) (map fst ws)" "ws \<noteq> [] \<longrightarrow> tail x = fst (last ws)" "distinct (map fst ws)"
    and "stored (queue_at s) ws" "tmp \<noteq> 0" "tmp \<notin> fst ` set ws"
  shows "\<exists>s' y z. enqueue_page env sem tmp s = Inr s' \<and> sem_at s' sem = Some y \<and> sem_value y = sem_value x
    \<and> page_links (queue_at s') (head y) (map fst ws @ [tmp]) \<and> tail y = tmp \<and> stored (queue_at s') ws
    \<and> queue_at s' tmp = Some z \<and> point z = page_word env tmp \<and> outside s' = outside s"
proof -
  let ?n = "\<lparr>point = page_word env tmp, q_next = 0\<rparr>" and ?qs = "map fst ws"
  let ?qa = "(queue_at s)(tmp \<mapsto> ?n)"
  have l: "page_links ?qa (head x) ?qs" using assms(2,7) by (simp add: page_links_other del: fun_upd_apply)
  have st: "stored ?qa ws" using assms(5,7) by (rule stored_other)
  show ?thesis
  proof (cases "ws = []")
    case True
    then show ?thesis using assms st by (simp add: enqueue_page_def the_sem_def set_sem_def set_queue_def Let_def)
  next
    case False
    then have "head x \<noteq> 0" using assms(2) by (cases ws) auto
    moreover have la: "last ?qs = fst (last ws)" using False by (simp add: last_map)
    moreover obtain q where q: "?qa (last ?qs) = Some q" "page_links (?qa(last ?qs \<mapsto> q\<lparr>q_next := tmp\<rparr>)) (head x) (?qs @ [tmp])"
      using page_links_snoc [OF l, of tmp] False assms(4,6,7) by auto
    moreover have "stored (?qa(last ?qs \<mapsto> q\<lparr>q_next := tmp\<rparr>)) ws" using stored_next [OF st q(1)] .
    moreover have "last ?qs \<noteq> tmp" using assms(7) False la by (metis image_eqI last_in_set)
    ultimately show ?thesis using assms False
      by (simp add: enqueue_page_def the_sem_def the_queue_def set_sem_def set_queue_def Let_def del: fun_upd_apply) (simp add: fun_upd_def)
  qed
qed

text \<open>The process that \<open>sem_wait\<close> puts to sleep.\<close>

definition sleeper :: "'e sem_env \<Rightarrow> u32 \<Rightarrow> 'e \<Rightarrow> u32" where
  "sleeper env tmp e = fst (sleep_on env tmp (page_word env tmp) e)"

lemma sem_wait_state:
  assumes "sem_state sem v ws s" "- 2147483648 < v" "get_free_page env (outside s) = (tmp, e)" "tmp \<noteq> 0" "tmp \<notin> fst ` set ws"
  shows "\<exists>s'. sem_wait env sem s = Inr (0, s') \<and> sem_state sem (v - 1) (if 0 < v then ws else ws @ [(tmp, sleeper env tmp e)]) s'"
proof -
  obtain x where x: "sem_at s sem = Some x" "sint (sem_value x) = v" "page_links (queue_at s) (head x) (map fst ws)" "ws \<noteq> [] \<longrightarrow> tail x = fst (last ws)"
    and q: "sem \<noteq> 0" "distinct (map fst ws)" "v = (if ws = [] then \<bar>v\<bar> else - int (length ws))" "stored (queue_at s) ws"
    using assms(1) by (auto simp: sem_state_def)
  let ?x = "x\<lparr>sem_value := sem_value x - 1\<rparr>" and ?s = "set_sem sem (x\<lparr>sem_value := sem_value x - 1\<rparr>) s"
  have v: "sint (sem_value x - 1) = v - 1" using sint_minus_1 x(2) assms(2) by simp
  then have neg: "sem_value ?x <s 0 \<longleftrightarrow> \<not> 0 < v" by (simp add: word_sless_alt; linarith)
  show ?thesis
  proof (cases "0 < v")
    case True
    then have "ws = []" using q(3) by (simp split: if_splits)
    then show ?thesis using True x q v neg
      by (simp add: sem_wait_def the_sem_def set_sem_def sem_state_def Let_def)
  next
    case False
    obtain s' y z where e: "enqueue_page env sem tmp (?s\<lparr>outside := e\<rparr>) = Inr s'" "sem_at s' sem = Some y" "sem_value y = sem_value ?x"
        "page_links (queue_at s') (head y) (map fst ws @ [tmp])" "tail y = tmp" "stored (queue_at s') ws"
        "queue_at s' tmp = Some z" "point z = page_word env tmp" "outside s' = e"
      using enqueue_page_state [of "?s\<lparr>outside := e\<rparr>" sem ?x ws tmp env] x q assms(4,5) by (auto simp: set_sem_def)
    obtain proc e' where sl: "sleep_on env tmp (page_word env tmp) e = (proc, e')" by force
    let ?t = "set_queue tmp (z\<lparr>point := proc\<rparr>) (s'\<lparr>outside := e'\<rparr>)"
    have "outside ?s = outside s" by (simp add: set_sem_def)
    then have "sem_wait env sem s = Inr (0, ?t)"
      using q(1) x(1) neg False assms(3) e(1,7-9) sl by (simp add: sem_wait_def the_sem_def the_queue_def Let_def)
    moreover have "stored (queue_at ?t) (ws @ [(tmp, proc)])"
      using stored_snoc [OF stored_other [OF e(6) assms(5), of "Some (z\<lparr>point := proc\<rparr>)"], of tmp "z\<lparr>point := proc\<rparr>" proc]
      by (simp add: set_queue_def)
    moreover have "page_links (queue_at ?t) (head y) (map fst (ws @ [(tmp, proc)]))"
      using page_links_point [OF e(4,7)] by (simp add: set_queue_def del: fun_upd_apply)
    moreover have "sem_at ?t sem = Some y" "sint (sem_value y) = v - 1" using e(2,3) v by (simp_all add: set_queue_def)
    moreover have "sleeper env tmp e = proc" using sl by (simp add: sleeper_def)
    ultimately show ?thesis using False q e(5) assms(5) by (simp add: sem_state_def split: if_splits)
  qed
qed

lemma sem_post_state:
  assumes "sem_state sem v ws s" "v < 2147483647"
  shows "\<exists>s'. sem_post env sem s = Inr (0, s') \<and> sem_state sem (v + 1) (tl ws) s'
    \<and> outside s' = sti env (if ws = [] then cli env (outside s)
        else free_page env (fst (hd ws)) (snd (wake_up env (fst (hd ws)) (snd (hd ws)) (cli env (outside s)))))"
proof -
  obtain x where x: "sem_at s sem = Some x" "sint (sem_value x) = v" "page_links (queue_at s) (head x) (map fst ws)" "ws \<noteq> [] \<longrightarrow> tail x = fst (last ws)"
    and q: "sem \<noteq> 0" "distinct (map fst ws)" "v = (if ws = [] then \<bar>v\<bar> else - int (length ws))" "stored (queue_at s) ws"
    using assms(1) by (auto simp: sem_state_def)
  have v: "sint (sem_value x + 1) = v + 1" using sint_plus_1 x(2) assms(2) by simp
  then have neg: "sem_value x + 1 \<le>s 0 \<longleftrightarrow> v < 0" by (simp add: word_sle_eq; linarith)
  show ?thesis
  proof (cases ws)
    case Nil
    then have "\<not> v < 0" using q(3) by simp
    then show ?thesis using Nil x q v neg
      by (simp add: sem_post_def the_sem_def set_sem_def sem_state_def Let_def)
  next
    case (Cons tw ts)
    obtain t w where tw: "tw = (t, w)" by force
    have neg': "v < 0" using Cons q(3) by simp
    obtain z where z: "queue_at s t = Some z" "head x = t" "t \<noteq> 0" "page_links (queue_at s) (q_next z) (map fst ts)" using x(3) Cons tw by auto
    have w: "point z = w" using q(4) z(1) Cons tw by (auto simp: stored_def)
    obtain cell e where wk: "wake_up env t w (cli env (outside s)) = (cell, e)" by force
    have t: "t \<notin> fst ` set ts" "t \<notin> set (map fst ts)" using q(2) Cons tw by auto
    have qa: "((queue_at s)(t \<mapsto> c))(t := None) = (queue_at s)(t := None)" for c by simp
    have "page_links ((queue_at s)(t := None)) (q_next z) (map fst ts)" using z(4) t(2) by (simp add: page_links_other del: fun_upd_apply)
    moreover have "stored ((queue_at s)(t := None)) ts" using q(4) t(1) Cons by (intro stored_other) (auto simp: stored_def)
    ultimately show ?thesis using Cons tw x q v neg neg' z w wk
      by (auto simp: sem_post_def the_sem_def the_queue_def set_sem_def set_queue_def sem_state_def Let_def simp del: fun_upd_apply)
        (auto simp: fun_upd_def)
  qed
qed

text \<open>
  C25. A semaphore is a counter with a first-in first-out queue of processes, provided pages come fresh.
  Waiting takes one from the value and, unless it was positive, puts the process that \<^verbatim>\<open>sleep_on\<close> stores at
  the end of the queue, behind the processes stored by earlier waits, which stay as they are. Posting gives
  one back and, when processes wait, hands the cell with the one that waits longest, and no other, to
  \<^verbatim>\<open>wake_up\<close>, frees its page and leaves the rest of the queue as it is; a negative value is always minus
  the number of processes waiting.
\<close>

theorem semaphore_is_fifo:
  assumes "sem_state sem v ws s" "- 2147483648 < v" "v < 2147483647"
    and "get_free_page env (outside s) = (tmp, e)" "tmp \<noteq> 0" "tmp \<notin> fst ` set ws"
  shows "(\<exists>s'. sem_wait env sem s = Inr (0, s') \<and> sem_state sem (v - 1) (if 0 < v then ws else ws @ [(tmp, sleeper env tmp e)]) s')
    \<and> (\<exists>s'. sem_post env sem s = Inr (0, s') \<and> sem_state sem (v + 1) (tl ws) s'
        \<and> outside s' = sti env (if ws = [] then cli env (outside s)
            else free_page env (fst (hd ws)) (snd (wake_up env (fst (hd ws)) (snd (hd ws)) (cli env (outside s))))))"
  using sem_wait_state [OF assms(1,2,4,5,6)] sem_post_state [OF assms(1,3)] by (rule conjI)

text \<open>
  An environment with the next page, the running process and a record of the processes woken: \<^verbatim>\<open>sleep_on\<close> stores
  the running process, \<^verbatim>\<open>wake_up\<close> clears the cell. The semaphore has two waiting processes, 5 and 6.
\<close>

definition demo_env :: "(u32 \<times> u32 \<times> u32 list) sem_env" where
  "demo_env = \<lparr>get_free_page = (\<lambda>(n, p, w). (n, n + 4096, p, w)), free_page = (\<lambda>_ e. e), page_word = (\<lambda>_. 0),
     sleep_on = (\<lambda>_ _ (n, p, w). (p, n, p, w)), wake_up = (\<lambda>_ c (n, p, w). (0, n, p, w @ [c])), cli = id, sti = id,
     strcmp = (\<lambda>a b. if a = b then 0 else 1)\<rparr>"

definition no_heap :: slabs where
  "no_heap = \<lparr>km = \<lparr>npages = 0, pages = (\<lambda>_. fresh_page), lists = \<lparr>prv = (\<lambda>p. p), nxt = (\<lambda>p. p)\<rparr>,
     buddy = \<lparr>buddy_start_pn = 0, buddy_end_pn = 0, start_page = 0, buddy_lock = \<lparr>spin = 0\<rparr>, free_count = replicate 5 0\<rparr>, status = 1\<rparr>,
     wmem = (\<lambda>_. 0), kmalloc_caches = []\<rparr>"

definition demo_sems :: "(u32 \<times> u32 \<times> u32 list) sems" where
  "demo_sems = \<lparr>sem_num = 1, semaphore = replicate 64 0, sem_at = [100 \<mapsto> \<lparr>head = 4096, tail = 8192, sem_name = replicate 20 0, sem_value = -2\<rparr>],
     queue_at = [4096 \<mapsto> \<lparr>point = 5, q_next = 8192\<rparr>, 8192 \<mapsto> \<lparr>point = 6, q_next = 0\<rparr>], sem_heap = no_heap, outside = (12288, 7, [])\<rparr>"

theorem semaphore_is_fifo_witness:
  "(\<exists>s'. sem_wait demo_env 100 demo_sems = Inr (0, s') \<and> sem_state 100 (-3) [(4096, 5), (8192, 6), (12288, 7)] s')
    \<and> (\<exists>s'. sem_post demo_env 100 demo_sems = Inr (0, s') \<and> sem_state 100 (-1) [(8192, 6)] s' \<and> outside s' = (12288, 7, [5]))"
  using semaphore_is_fifo [of 100 "-2" "[(4096, 5), (8192, 6)]" demo_sems demo_env 12288 "(16384, 7, [])"]
  by (simp add: sem_state_def stored_def sleeper_def demo_sems_def demo_env_def)

text \<open>\<^verbatim>\<open>sem_unlink\<close> leaves the address in the table: the next \<^verbatim>\<open>sem_unlink\<close> follows it into freed memory.\<close>

lemma sem_unlink_twice:
  "\<exists>s'. sem_unlink demo_env (replicate 20 0) (demo_sems\<lparr>semaphore := (replicate 64 0)[0 := 100]\<rparr>) = Inr (0, s')
    \<and> sem_unlink demo_env (replicate 20 0) s' = Inl Fault"
  by (simp add: sem_unlink_def demo_sems_def demo_env_def the_sem_def Let_def)

end
