(* ===== verification/KInit.thy ===== *)
theory KInit
  imports Commands
begin

text \<open>
  The start of the kernel, \<^verbatim>\<open>kernel/init.c\<close>: the parts are initialised in a fixed order on the state
  of the whole system, with a line of the log for each. \<^verbatim>\<open>init_pgtable\<close> and the setting of Cause are
  instructions on registers that nothing else here reads; the messages of \<^verbatim>\<open>init_fs\<close> are left out.
\<close>

definition klog :: "'h env \<Rightarrow> log_status \<Rightarrow> string \<Rightarrow> 'h sys \<Rightarrow> 'h sys res" where
  "klog e st txt s = rbind (log (clock e) (Some st) (ascii txt) [] (con s)) (\<lambda>v. Inr (s\<lparr>con := v\<rparr>))"

definition upd_kernel :: "(slabs kern \<Rightarrow> slabs kern res) \<Rightarrow> 'h sys \<Rightarrow> 'h sys res" where
  "upd_kernel f s = rbind (f (kernel s)) (\<lambda>k. Inr (s\<lparr>kernel := k\<rparr>))"

section \<open>Devices\<close>

definition init_devices :: "'b keyboard \<Rightarrow> 'h sys \<times> 'b \<Rightarrow> ('h sys \<times> 'b) res" where
  "init_devices kb = (\<lambda>(s, d).
     let s = s\<lparr>con := kernel_clear_screen 31 (con s)\<rparr>;
         s = s\<lparr>kernel := init_exception (kernel s)\<rparr>;
         s = s\<lparr>con := init_vga (con s)\<rparr>
     in rbind (init_ps2 kb (\<lambda>i. register_interrupt_handler i Ps2_handler) (keyb s) d (kernel s)) (\<lambda>(p, d, k).
          Inr (s\<lparr>keyb := p, kernel := k\<rparr>, d)))"

section \<open>Memory\<close>

text \<open>\<open>m\<close> is the memory of the bitmap before it is set.\<close>

definition boot_memory :: "memory \<Rightarrow> 'h sys \<Rightarrow> 'h sys res" where
  "boot_memory m s = rbind (init_bootmm m) (\<lambda>b. rbind (bootmap_info b (con s)) (\<lambda>v. Inr (s\<lparr>boot := b, con := v\<rparr>)))"

definition buddy_memory :: "'h sys \<Rightarrow> 'h sys res" where
  "buddy_memory s = rbind (init_buddy (boot s) (km (heap (kernel s)))) (\<lambda>(b, k).
     rbind (buddy_info (buddy k) (con s)) (\<lambda>v.
     Inr (s\<lparr>boot := b, con := v, kernel := (kernel s)\<lparr>heap := (heap (kernel s))\<lparr>km := k\<rparr>\<rparr>\<rparr>)))"

definition slab_memory :: "'h sys \<Rightarrow> 'h sys" where
  "slab_memory s = s\<lparr>kernel := (kernel s)\<lparr>heap := init_slab (heap (kernel s))\<rparr>\<rparr>"

definition init_memory :: "'h env \<Rightarrow> memory \<Rightarrow> 'h sys \<Rightarrow> 'h sys res" where
  "init_memory e m s =
     rbind (klog e LOG_START ''Memory Modules.'' s) (\<lambda>s. rbind (boot_memory m s) (\<lambda>s.
     rbind (klog e LOG_OK ''Bootmem.'' s) (\<lambda>s. rbind (buddy_memory s) (\<lambda>s.
     rbind (klog e LOG_OK ''Buddy.'' s) (\<lambda>s. rbind (klog e LOG_OK ''Slab.'' (slab_memory s))
     (klog e LOG_END ''Memory Modules.''))))))"

section \<open>File systems\<close>

definition init_names :: "'h env \<Rightarrow> 'h sys \<Rightarrow> 'h sys res" where
  "init_names e = alloc e 280 (\<lambda>p s. Inr (s\<lparr>names := init_filetree p (names s), root_node := p\<rparr>))"

definition init_vfs :: "'h env \<Rightarrow> 'h sys \<Rightarrow> 'h sys res" where
  "init_vfs e s = rbind (initial_vfs (kmalloc (fuel e)) (io_of e) (vfs s) (heap (kernel s))) (\<lambda>(t, _, _, h).
     Inr (s\<lparr>vfs := t, kernel := (kernel s)\<lparr>heap := h\<rparr>\<rparr>))"

definition init_file_systems :: "'h env \<Rightarrow> 'h sys \<Rightarrow> 'h sys res" where
  "init_file_systems e s =
     rbind (klog e LOG_START ''File System.'' s) (\<lambda>s. rbind (init_fs (io_of e) (files s)) (\<lambda>(_, f).
     rbind (klog e LOG_END ''File System.'' (s\<lparr>files := f\<rparr>)) (\<lambda>s.
     rbind (klog e LOG_START ''Virtual File System.'' s) (\<lambda>s. rbind (init_vfs e s) (\<lambda>s.
     rbind (klog e LOG_OK ''Virtual File System.'' s) (\<lambda>s. rbind (klog e LOG_END ''Virtual File System.'' s) (\<lambda>s.
     rbind (klog e LOG_START ''File Tree.'' s) (\<lambda>s. rbind (init_names e s) (\<lambda>s.
     rbind (klog e LOG_OK ''File Tree.'' s) (klog e LOG_END ''File Tree.''))))))))))"

section \<open>System calls and processes\<close>

definition pid_start :: "slabs kern \<Rightarrow> slabs kern" where
  "pid_start k = k\<lparr>pids := init_pid (pids k)\<rparr>"

text \<open>One of the two processes that \<^verbatim>\<open>create_startup_process\<close> makes.\<close>

definition start_one :: "'h env \<Rightarrow> string \<Rightarrow> string \<Rightarrow> string \<Rightarrow> u32 \<Rightarrow> string \<Rightarrow> 'h sys \<Rightarrow> 'h sys res" where
  "start_one e label fn nm prio done_text s = rbind (alloc_pidmap (pids (kernel s))) (\<lambda>(asid, p).
     rbind (print_line (ascii (''  '' @ label @ '' is %d'') @ nl) [VInt (word_of_int asid)] (s\<lparr>kernel := (kernel s)\<lparr>pids := p\<rparr>\<rparr>)) (\<lambda>s.
     rbind (alloc e 8192 (\<lambda>m. start_process e asid fn (m + 8192) nm prio) s) (klog e LOG_OK done_text)))"

definition create_startup_process :: "'h env \<Rightarrow> 'h sys \<Rightarrow> 'h sys res" where
  "create_startup_process e s =
     rbind (print_text (ascii ''  create_startup_process_start'' @ nl) s) (\<lambda>s.
     rbind (start_one e ''asid1'' ''ps'' ''Shell'' (4 + 2) ''Shell init'' s)
       (start_one e ''asid2'' ''system_time_proc'' ''time'' (4 + 1) ''Timer init''))"

definition init_processes :: "'h env \<Rightarrow> 'h sys \<Rightarrow> 'h sys res" where
  "init_processes e s =
     rbind (klog e LOG_START ''System Calls.'' s) (\<lambda>s. rbind (upd_kernel init_syscall s) (\<lambda>s.
     rbind (klog e LOG_END ''System Calls.'' s) (\<lambda>s.
     rbind (klog e LOG_START ''Process Control Module.'' s) (\<lambda>s.
     rbind (upd_kernel (\<lambda>k. init_pc (pid_start k)) s) (\<lambda>s. rbind (create_startup_process e s) (\<lambda>s.
     rbind (klog e LOG_END ''Process Control Module.'' s) (\<lambda>s.
     rbind (klog e LOG_START ''Enable Interrupts.'' s) (\<lambda>s. let s = s\<lparr>kernel := init_interrupts (kernel s)\<rparr> in
     klog e LOG_END ''Enable Interrupts.'' s))))))))"

section \<open>The whole start\<close>

text \<open>The second line goes to row 29, beside the clock; the cursor then returns.\<close>

definition machine_info :: "'h sys \<Rightarrow> 'h sys res" where
  "machine_info s =
     rbind (print_line (nl @ ascii ''  %s'' @ nl) [VStr (ascii ''Mini_Operating_System V1.0'')] s) (\<lambda>s.
     let row = cursor_row (con s); col = cursor_col (con s) in
     rbind (print_line (ascii ''  %s'') [VStr (ascii ''Created by OS Group, MAN Yunze, BIAN Song, CHEN jiaao.'')]
         (s\<lparr>con := (con s)\<lparr>cursor_row := 29\<rparr>\<rparr>)) (\<lambda>s.
     Inr (s\<lparr>con := kernel_set_cursor ((con s)\<lparr>cursor_row := row, cursor_col := col\<rparr>)\<rparr>)))"

text \<open>The result is the system, the keyboard controller and the seven-segment display at the final loop.\<close>

definition init_kernel :: "'h env \<Rightarrow> 'b keyboard \<Rightarrow> memory \<Rightarrow> 'h sys \<times> 'b \<Rightarrow> ('h sys \<times> 'b \<times> u32) res" where
  "init_kernel e kb m x =
     rbind (init_devices kb x) (\<lambda>(s, d). rbind (init_memory e m s) (\<lambda>s. rbind (init_file_systems e s) (\<lambda>s.
     rbind (init_processes e s) (\<lambda>s. rbind (machine_info s) (\<lambda>s. Inr (s, d, 0x11223344))))))"

end
