(* ===== verification/PcRuns.thy ===== *)
theory PcRuns
  imports PcThms
begin

text \<open>
  Runs of the process machinery, \<^verbatim>\<open>kernel/pc/pc.c\<close>: the operations of \<open>Pc\<close> as the steps of a relation,
  in the order in which timer interrupts, system calls and shell commands happen to come, and what
  every such run keeps.
\<close>

section \<open>Positions and the processes alive\<close>

lemma mset_positions:
  assumes "tables_ok tq"
  shows "mset (concat tq) = image_mset (\<lambda>(i, j). tq ! i ! j) (mset_set ({..<8} \<times> {..<16}))"
proof -
  have "map (\<lambda>j. tq ! i ! j) [0..<16] = tq ! i" if "i < 8" for i
    using tables_nth [OF assms that] map_nth [of "tq ! i"] by simp
  then have "map (\<lambda>i. map (\<lambda>j. tq ! i ! j) [0..<16]) [0..<8] = map (\<lambda>i. tq ! i) [0..<8]" by simp
  also have "\<dots> = tq" using tables_length [OF assms] map_nth [of tq] by simp
  finally have "concat tq = map (\<lambda>(i, j). tq ! i ! j) (List.product [0..<8] [0..<16])"
    by (simp add: product_concat_map map_concat comp_def)
  moreover have "mset (List.product [0..<8] [0..<16]) = mset_set ({..<8} \<times> {..<16})"
    by (metis atLeast_upt distinct_product distinct_upt mset_set_set set_product)
  ultimately show ?thesis by simp
qed

lemma alive_positions:
  "tables_ok tq \<Longrightarrow> alive_in tq = filter_mset (\<lambda>a. a > 0) (image_mset (\<lambda>(i, j). ASID (tq ! i ! j)) (mset_set ({..<8} \<times> {..<16})))"
  by (simp add: alive_in_def mset_positions multiset.map_comp comp_def case_prod_unfold)

lemma alive_member:
  assumes "tables_ok tq" "i < 8" "j < 16" "ASID (tq ! i ! j) = a" "a > 0"
  shows "a \<in># alive_in tq"
  using assms by (force simp: alive_positions)

lemma alive_twice:
  assumes "tables_ok tq" "x \<in> {..<8} \<times> {..<16}" "y \<in> {..<8} \<times> {..<16}" "x \<noteq> y"
    "(\<lambda>(i, j). ASID (tq ! i ! j)) x = a" "(\<lambda>(i, j). ASID (tq ! i ! j)) y = a" "a > 0"
  shows "1 < count (alive_in tq) a"
proof -
  let ?A = "\<lambda>(i, j). ASID (tq ! i ! j)"
  have "mset_set {x, y} \<subseteq># mset_set ({..<8} \<times> {..<16})" using assms(2,3) by (intro subset_imp_msubset_mset_set) auto
  then have "image_mset ?A {#x, y#} \<subseteq># image_mset ?A (mset_set ({..<8} \<times> {..<16}))"
    using assms(4) by (intro image_mset_subseteq_mono) simp
  then have "filter_mset (\<lambda>a. a > 0) {#a, a#} \<subseteq># alive_in tq"
    unfolding alive_positions [OF assms(1)] using assms(5,6) by (intro multiset_filter_mono) simp
  then have "count {#a, a#} a \<le> count (alive_in tq) a" using assms(7) by (intro mset_subset_eq_count) simp
  then show ?thesis by simp
qed

lemma alive_without:
  assumes "tables_ok tq" "tables_ok tq'" "proc > 0"
    and "\<And>i j. i < 8 \<Longrightarrow> j < 16 \<Longrightarrow> ASID (tq' ! i ! j) = (if ASID (tq ! i ! j) = proc then -1 else ASID (tq ! i ! j))"
  shows "alive_in tq' = filter_mset (\<lambda>a. a \<noteq> proc) (alive_in tq)"
proof -
  let ?M = "mset_set ({..<8 :: nat} \<times> {..<16 :: nat})"
  have f: "filter_mset (\<lambda>a. a > 0) (image_mset (\<lambda>x. if g x = proc then -1 else g x) M)
      = filter_mset (\<lambda>a. a \<noteq> proc) (filter_mset (\<lambda>a. a > 0) (image_mset g M))" for g :: "nat \<times> nat \<Rightarrow> int" and M
    using assms(3) by (induction M) auto
  have "image_mset (\<lambda>(i, j). ASID (tq' ! i ! j)) ?M
      = image_mset (\<lambda>x. if (\<lambda>(i, j). ASID (tq ! i ! j)) x = proc then -1 else (\<lambda>(i, j). ASID (tq ! i ! j)) x) ?M"
    using assms(4) by (intro image_mset_cong) auto
  then show ?thesis unfolding alive_positions [OF assms(1)] alive_positions [OF assms(2)] using f by simp
qed

section \<open>What every operation keeps\<close>

text \<open>
  Without a condition on the state but the shape of the tables: an operation that returns leaves the tables in
  shape, whichever block counts as the running one, and a fork or a creation adds one process, if it has an identifier.
\<close>

lemma kern_ok_tables: "kern_ok s \<Longrightarrow> tables_ok tq \<Longrightarrow> kern_ok (s\<lparr>task_queue := tq\<rparr>)"
  by (simp add: kern_ok_def)

lemma upd_pcb_keeps:
  assumes "kern_ok s" "upd_pcb q p f s = Inr t" "\<And>b. block_ok b \<Longrightarrow> block_ok (f b)"
  shows "kern_ok t"
proof -
  note d = kern_okD [OF assms(1)]
  have qp: "unat q < 8" "unat p < 16"
    using assms(2) tables_length [OF d(1)] tables_nth [OF d(1), of "unat q"] by (auto simp: upd_pcb_def res_simps rd_def split: if_splits)
  have "tables_ok (tq_upd q p f (task_queue s))"
    using tables_block [OF d(1) qp] assms(3) by (intro tq_upd_tables d(1) qp) blast
  then show ?thesis using assms(1,2) upd_pcb_ok [OF d(1) qp, of f] kern_ok_tables by auto
qed

lemma block_ok_end [simp]: "block_ok (t\<lparr>ASID := a\<rparr>) = block_ok t" "block_ok (t\<lparr>PPID := a\<rparr>) = block_ok t"
    "block_ok (t\<lparr>ctx := c\<rparr>) = block_ok t" "block_ok (t\<lparr>stack := w\<rparr>) = block_ok t" 
  by (simp_all add: block_ok_def)

lemma kern_ok_pids [simp]: "kern_ok (s\<lparr>pids := ps\<rparr>) = kern_ok s"
  by (simp add: kern_ok_def)

lemma kill_visit_keeps:
  assumes "\<And>a s r s'. kern_ok s \<Longrightarrow> rec a s = Inr (r, s') \<Longrightarrow> kern_ok s'"
    and "kern_ok s" "kill_visit rec proc x (f, s) = Inr (f', s')"
  shows "kern_ok s'"
  using assms(2,3)
  by (cases x) (auto simp: kill_visit_def res_simps split: if_splits dest: assms(1) upd_pcb_keeps [rotated])

lemma kill_all_keeps:
  assumes "\<And>a s r s'. kern_ok s \<Longrightarrow> rec a s = Inr (r, s') \<Longrightarrow> kern_ok s'"
  shows "kern_ok s \<Longrightarrow> rfold (kill_visit rec proc) xs (f, s) = Inr (f', s') \<Longrightarrow> kern_ok s'"
proof (induction xs arbitrary: f s)
  case (Cons x xs)
  obtain g t where g: "kill_visit rec proc x (f, s) = Inr (g, t)" "rfold (kill_visit rec proc) xs (g, t) = Inr (f', s')"
    using Cons.prems(2) by (auto simp: res_simps)
  show ?case using Cons.IH [OF kill_visit_keeps [OF assms Cons.prems(1) g(1)] g(2)] by simp
qed simp

lemma kill_body_keeps:
  assumes "\<And>a s r s'. kern_ok s \<Longrightarrow> rec a s = Inr (r, s') \<Longrightarrow> kern_ok s'"
    and "kern_ok s" "kill_body rec proc s = Inr (r, s')"
  shows "kern_ok s'"
proof (cases "proc = 0 \<or> proc = 1")
  case True
  then show ?thesis using assms(2,3) by (auto simp: kill_body_def)
next
  case False
  then obtain f where f: "rfold (kill_visit rec proc) (slots s) (False, s) = Inr (f, s')"
    using assms(3) by (auto simp: kill_body_def res_simps)
  show ?thesis by (rule kill_all_keeps [OF _ assms(2) f]) (rule assms(1))
qed

lemma pc_kill_keeps: "kern_ok s \<Longrightarrow> pc_kill fuel proc s = Inr (r, s') \<Longrightarrow> kern_ok s'"
proof (induction fuel arbitrary: proc s r s')
  case 0
  then show ?case using kill_body_keeps [of "\<lambda>_ _. Inl OutOfFuel"] by simp
next
  case (Suc fuel)
  show ?case by (rule kill_body_keeps [OF _ Suc.prems(1)]) (use Suc in auto)
qed

lemma orphan_all_keeps: "kern_ok s \<Longrightarrow> rfold (orphan_visit fuel a) xs s = Inr s' \<Longrightarrow> kern_ok s'"
proof (induction xs arbitrary: s)
  case (Cons x xs)
  obtain t where t: "orphan_visit fuel a x s = Inr t" "rfold (orphan_visit fuel a) xs t = Inr s'"
    using Cons.prems(2) by (auto simp: res_simps)
  have "kern_ok t" using t(1) Cons.prems(1)
    by (cases x) (auto simp: orphan_visit_def res_simps split: if_splits dest: pc_kill_keeps upd_pcb_keeps [rotated])
  then show ?case using Cons.IH t(2) by simp
qed simp

lemma pc_schedule_keeps: "kern_ok s \<Longrightarrow> pc_schedule c s = Inr (c', s') \<Longrightarrow> kern_ok s'"
  using pc_schedule_spec [of s c] pc_schedule_hang [of s c] by (cases "alive_in (task_queue s) = {#}") auto

lemma pc_kill_syscall_keeps: 
  assumes "kern_ok s" "pc_kill_syscall fuel c s = Inr (c', s')"
  shows "kern_ok s'"
proof -
  obtain t :: task_struct and ps u v where u: "rfold (orphan_visit fuel (ASID t)) (slots s) (s\<lparr>pids := ps\<rparr>) = Inr u" "upd_curr (\<lambda>t. t\<lparr>ASID := -1\<rparr>) u = Inr v"
    "pc_schedule c v = Inr (c', s')" using assms(2) by (auto simp: pc_kill_syscall_def res_simps)
  have "kern_ok u" using orphan_all_keeps [OF _ u(1)] assms(1) by simp
  then have "kern_ok v" using u(2) by (auto simp: upd_curr_def res_simps dest: upd_pcb_keeps [rotated])
  then show ?thesis using pc_schedule_keeps u(3) by blast
qed

lemma str_into_ok: "str_into d c = Inr r \<Longrightarrow> length r = length d \<and> 0 \<in> set r"
  by (induction d c arbitrary: r rule: str_into.induct) (auto simp: res_simps split: if_splits)

lemma pc_create_effect:
  assumes k: "kern_ok s" and c: "pc_create asid func sp g nm prio s = Inr (b, s')"
  shows "kern_ok s' \<and> s' = s\<lparr>task_queue := task_queue s'\<rparr> \<and> alive_in (task_queue s') = alive_in (task_queue s) + one_alive asid"
proof -
  note d = kern_okD [OF k]
  obtain l where "rd (task_queue s) prio = Inr l" using c by (auto simp: pc_create_def res_simps)
  then have prio: "unat prio < 8" using tables_length [OF d(1)] by (simp add: rd_def split: if_splits)
  let ?tq = "task_queue s"
  have rd: "rd ?tq prio = Inr (?tq ! unat prio)" "rd (curr_proc s) prio = Inr (curr_proc s ! unat prio)"
    using prio d(2) tables_length [OF d(1)] by simp_all
  obtain p where p: "find_slot free_slot (?tq ! unat prio) 16 (curr_proc s ! unat prio) = Inr (True, p)" "unat p < 16"
    "free_slot (?tq ! unat prio ! unat p)"
    using find_slot_all [OF tables_nth [OF d(1) prio], of free_slot "curr_proc s ! unat prio"] c rd by (auto simp: pc_create_def)
  let ?b = "?tq ! unat prio ! unat p"
  have b: "block_ok ?b" using tables_block [OF d(1) prio p(2)] .
  have pa: "pcb_at prio p s = Inr ?b" using pcb_at_ok [OF d(1) prio p(2)] .
  obtain nm' where nm': "str_into (name ?b) nm = Inr nm'" using c rd p(1) pa by (auto simp: pc_create_def res_simps)
  then have no: "name_ok nm'" using str_into_ok [OF nm'] b by (simp add: block_ok_def name_ok_def)
  let ?f = "\<lambda>t. t\<lparr>ctx := (ctx t)\<lparr>r_epc := func, r_sp := sp, r_gp := g\<rparr>, stack := sp - 8192, priority := prio, time_left := 0,
      name := nm', ASID := asid\<rparr>"
  let ?t1 = "tq_upd prio p ?f ?tq"
  have t1: "tables_ok ?t1" using b no prio by (intro tq_upd_tables d(1) prio p(2)) (simp add: block_ok_def)
  let ?s1 = "s\<lparr>task_queue := ?t1\<rparr>"
  have k1: "kern_ok ?s1" using k t1 by (rule kern_ok_tables)
  let ?g = "\<lambda>t. t\<lparr>PPID := ASID (cblk ?s1)\<rparr>"
  let ?t2 = "tq_upd prio p ?g ?t1"
  have t2: "tables_ok ?t2" using tables_block [OF t1 prio p(2)] by (intro tq_upd_tables t1 prio p(2)) simp
  have k2: "kern_ok (s\<lparr>task_queue := ?t2\<rparr>)" using k t2 by (rule kern_ok_tables)
  have "s' = s\<lparr>task_queue := ?t2\<rparr>"
    using c rd p(1) pa nm' upd_pcb_ok [OF d(1) prio p(2), of ?f] get_curr_pcb_ok [OF k1] upd_pcb_ok [of ?s1 prio p ?g] t1 prio p(2)
      get_curr_pcb_ok [OF k2] by (simp add: pc_create_def)
  moreover have "alive_in ?t1 = alive_in ?tq + one_alive asid"
    using alive_upd [OF d(1) prio p(2), of ?f] p(3) by (simp add: one_alive_def free_slot_def)
  moreover have "alive_in ?t2 = alive_in ?t1" by (rule alive_upd_same [OF t1 prio p(2)]) simp
  ultimately show ?thesis using k2 by simp
qed


lemma do_fork_effect:
  assumes k: "kern_ok s" and r: "do_fork malloc c s = Inr (c', s')"
  shows "kern_ok s' \<and> kill_state s' = kill_state s
    \<and> (\<exists>pid. alloc_pidmap (pids s) = Inr (pid, pids s') \<and> alive_in (task_queue s') = alive_in (task_queue s) + one_alive pid)
    \<and> find_slot free_slot (task_queue s ! unat (priority (cblk s))) 16 (curr_proc s ! unat (priority (cblk s))) = Inr (True, cpos s')"
proof -
  note d = kern_okD [OF k]
  let ?q = "priority (cblk s)" and ?tq = "task_queue s" and ?cq = "curr_queue s" and ?cp = "cpos s"
  have len: "unat ?q < 8" using d(6) by (simp add: block_ok_def)
  have rd: "rd ?tq ?q = Inr (?tq ! unat ?q)" "rd (curr_proc s) ?q = Inr (curr_proc s ! unat ?q)"
    using len d(2) tables_length [OF d(1)] by simp_all
  have g: "get_curr_pcb s = Inr (cblk s)" using get_curr_pcb_ok [OF k] .
  obtain p where p: "find_slot free_slot (?tq ! unat ?q) 16 (curr_proc s ! unat ?q) = Inr (True, p)" "unat p < 16"
    "free_slot (?tq ! unat ?q ! unat p)"
    using find_slot_all [OF tables_nth [OF d(1) len], of free_slot "curr_proc s ! unat ?q"] r rd g by (auto simp: do_fork_def)
  obtain pid ps where pid: "alloc_pidmap (pids s) = Inr (pid, ps)"
    using r g rd p(1) by (auto simp: do_fork_def Let_def res_simps)
  let ?c1 = "c\<lparr>r_v1 := of_int pid\<rparr>"
  let ?f1 = "\<lambda>t. t\<lparr>ASID := pid\<rparr>" and ?f2 = "\<lambda>t. t\<lparr>ctx := ?c1\<rparr>"
  let ?t1 = "tq_upd ?q p ?f1 ?tq"
  let ?s1 = "s\<lparr>pids := ps, task_queue := ?t1\<rparr>"
  have t1: "tables_ok ?t1" using tables_block [OF d(1) len p(2)] by (intro tq_upd_tables d(1) len p(2)) simp
  have k1: "kern_ok ?s1" using kern_ok_tables [of "s\<lparr>pids := ps\<rparr>", OF _ t1] k by simp
  have cp: "cpos ?s1 = ?cp" by (simp add: cpos_def)
  let ?t2 = "tq_upd ?cq ?cp ?f2 ?t1"
  let ?s2 = "?s1\<lparr>task_queue := ?t2\<rparr>"
  have u2: "upd_curr ?f2 ?s1 = Inr ?s2" using upd_curr_ok [OF k1, of ?f2] cp by simp
  have t2: "tables_ok ?t2" using tables_block [OF t1 d(4,5)] by (intro tq_upd_tables t1 d(4,5)) simp
  have k2: "kern_ok ?s2" using kern_ok_tables [OF k1 t2] .
  let ?b2 = "?t2 ! unat ?q ! unat p"
  have b2: "block_ok ?b2" "block_ok (cblk ?s2)" using tables_block [OF t2 len p(2)] kern_okD(6) [OF k2] by simp_all
  obtain nm where nm: "str_into (name ?b2) (name (cblk ?s2)) = Inr nm" "name_ok nm"
    using str_into_name b2 unfolding block_ok_def by blast
  let ?f3 = "\<lambda>t. t\<lparr>ctx := ?c1\<lparr>r_v1 := 0\<rparr>, priority := ?q, time_left := 0, name := nm, PPID := ASID (cblk ?s2)\<rparr>"
  let ?t3 = "tq_upd ?q p ?f3 ?t2"
  have t3: "tables_ok ?t3" using nm(2) len by (intro tq_upd_tables t2 len p(2)) (simp add: block_ok_def)
  obtain ns h where mal: "malloc 8192 (heap s) = Inr (ns, h)"
    using r g rd p(1) pid upd_pcb_ok [of "s\<lparr>pids := ps\<rparr>" ?q p ?f1] u2 get_curr_pcb_ok [OF k2] pcb_at_ok [of ?s2 ?q p]
      upd_pcb_ok [of ?s2 ?q p ?f3] d(1) len p(2) t2 nm(1) by (auto simp: do_fork_def Let_def res_simps)
  let ?f4 = "\<lambda>t. t\<lparr>stack := ns\<rparr>"
  let ?t4 = "tq_upd ?q p ?f4 ?t3"
  have t4: "tables_ok ?t4" using tables_block [OF t3 len p(2)] by (intro tq_upd_tables t3 len p(2)) simp
  let ?s4 = "s\<lparr>pids := ps, heap := h, task_queue := ?t4\<rparr>"
  have k4: "kern_ok ?s4" using k t4 by (simp add: kern_ok_def)
  let ?off = "r_sp c - stack (cblk ?s2)"
  let ?f5 = "\<lambda>t. t\<lparr>ctx := (ctx t)\<lparr>r_sp := ns + ?off\<rparr>\<rparr>"
  let ?t5 = "tq_upd ?q p ?f5 ?t4"
  have t5: "tables_ok ?t5" using tables_block [OF t4 len p(2)] by (intro tq_upd_tables t4 len p(2)) simp
  let ?m = "kernel_memcpy (mem s) ns (stack (cblk ?s4)) 8192"
  let ?s5 = "s\<lparr>pids := ps, heap := h, mem := ?m, task_queue := ?t5, curr_proc := (curr_proc s)[unat ?cq := p]\<rparr>"
  have e: "s' = ?s5"
    using r rd p(1) pid mal g upd_pcb_ok [of "s\<lparr>pids := ps\<rparr>" ?q p ?f1] u2 get_curr_pcb_ok [OF k2] pcb_at_ok [of ?s2 ?q p]
      upd_pcb_ok [of ?s2 ?q p ?f3] upd_pcb_ok [of "?s2\<lparr>task_queue := ?t3, heap := h\<rparr>" ?q p ?f4] get_curr_pcb_ok [OF k4]
      upd_pcb_ok [of "?s4\<lparr>mem := ?m\<rparr>" ?q p ?f5] pcb_at_ok [of ?s5 ?q p]
      d(1,2,4) len p(2) t2 t3 t4 t5 nm(1)
    by (simp add: do_fork_def Let_def)
  have k5: "kern_ok ?s5" using k t5 p(2) d(2,4) by (simp add: kern_ok_def)
  have "alive_in ?t1 = alive_in ?tq + one_alive pid"
    using alive_upd [OF d(1) len p(2), of ?f1] p(3) by (simp add: one_alive_def free_slot_def)
  moreover have "alive_in ?t5 = alive_in ?t4" by (rule alive_upd_same [OF t4 len p(2)]) simp
  moreover have "alive_in ?t4 = alive_in ?t3" by (rule alive_upd_same [OF t3 len p(2)]) simp
  moreover have "alive_in ?t3 = alive_in ?t2" by (rule alive_upd_same [OF t2 len p(2)]) simp
  moreover have "alive_in ?t2 = alive_in ?t1" by (rule alive_upd_same [OF t1 d(4,5)]) simp
  ultimately have "alive_in ?t5 = alive_in ?tq + one_alive pid" by (simp only:)
  then show ?thesis using k5 pid p(1) d(2,4) unfolding e by (simp add: cpos_def)
qed

section \<open>The invariant\<close>

text \<open>\<open>alive_ok\<close> is the part that does not depend on the mode of killing.\<close>

definition alive_ok :: "'k kern \<Rightarrow> bool" where
  "alive_ok s \<longleftrightarrow> kern_ok s \<and> pids_ok (pids s) \<and> (\<forall>a. count (alive_in (task_queue s)) a \<le> 1)
     \<and> set_mset (alive_in (task_queue s)) \<subseteq> used (pids s) \<and> 1 \<in># alive_in (task_queue s)"

definition procs_ok :: "'k kern \<Rightarrow> bool" where
  "procs_ok s \<longleftrightarrow> kern_ok s \<and> pids_ok (pids s) \<and> kill_state s \<noteq> 0 \<and> (\<forall>a. count (alive_in (task_queue s)) a \<le> 1)
     \<and> set_mset (alive_in (task_queue s)) \<subseteq> used (pids s) \<and> 1 \<in># alive_in (task_queue s)"

lemma procs_ok_alive: "procs_ok s \<longleftrightarrow> alive_ok s \<and> kill_state s \<noteq> 0"
  by (auto simp: procs_ok_def alive_ok_def)

lemma procs_okI:
  assumes "kern_ok s'" "pids_ok (pids s')" "kill_state s' \<noteq> 0" "alive_in (task_queue s') \<subseteq># A" "\<And>a. count A a \<le> 1"
    "set_mset (alive_in (task_queue s')) \<subseteq> used (pids s')" "1 \<in># alive_in (task_queue s')"
  shows "procs_ok s'"
  using assms mset_subset_eq_count [OF assms(4)] le_trans unfolding procs_ok_def by blast

lemma procs_okD:
  assumes "procs_ok s"
  shows "kern_ok s" "pids_ok (pids s)" "kill_state s \<noteq> 0" "count (alive_in (task_queue s)) a \<le> 1"
    "set_mset (alive_in (task_queue s)) \<subseteq> used (pids s)" "1 \<in># alive_in (task_queue s)" "alive_in (task_queue s) \<noteq> {#}"
  using assms unfolding procs_ok_def by auto

section \<open>The timer and preemption\<close>

lemma alive_okD:
  assumes "alive_ok s"
  shows "kern_ok s" "pids_ok (pids s)" "count (alive_in (task_queue s)) a \<le> 1"
    "set_mset (alive_in (task_queue s)) \<subseteq> used (pids s)" "1 \<in># alive_in (task_queue s)" "alive_in (task_queue s) \<noteq> {#}"
  using assms unfolding alive_ok_def by auto

lemma tick_ok:
  assumes "alive_ok s"
  obtains c' s' where "pc_schedule c s = Inr (c', s')" "alive_ok s'" "kill_state s' = kill_state s" "runnable (cblk s')"
    "c' = ctx (cblk s')" "alive_in (task_queue s') = alive_in (task_queue s)"
proof -
  note p = alive_okD [OF assms]
  obtain c' s' where s': "pc_schedule c s = Inr (c', s')" "kern_ok s'" "runnable (cblk s')" "c' = ctx (cblk s')"
    "alive_in (task_queue s') = alive_in (task_queue s)" "pids s' = pids s" "kill_state s' = kill_state s"
    using pc_schedule_spec [OF p(1,6), of c] by blast
  then have "alive_ok s'" using assms by (simp add: alive_ok_def)
  then show thesis using that s' by blast
qed

section \<open>Killing\<close>

text \<open>Killing touches the blocks and the identifiers only.\<close>

definition frame :: "'k kern \<Rightarrow> 'k kern \<Rightarrow> bool" where
  "frame s s' \<longleftrightarrow> (\<exists>ps tq. s' = s\<lparr>pids := ps, task_queue := tq\<rparr>)"

lemma frame_refl: "frame s s"
  unfolding frame_def by (intro exI [of _ "pids s"] exI [of _ "task_queue s"]) simp

lemma frame_trans: "frame s t \<Longrightarrow> frame t u \<Longrightarrow> frame s u"
  unfolding frame_def by force

lemma frame_kill_state: "frame s s' \<Longrightarrow> kill_state s' = kill_state s"
  by (auto simp: frame_def)

lemma upd_pcb_frame: "upd_pcb q p f (s\<lparr>pids := ps\<rparr>) = Inr s' \<Longrightarrow> frame s s'" "upd_pcb q p f s = Inr s' \<Longrightarrow> frame s s'"
proof -
  have "\<exists>tq. s' = s\<lparr>task_queue := tq\<rparr>" if "upd_pcb q p f s = Inr s'" for s :: "'k kern" and s'
    using that by (auto simp: upd_pcb_def res_simps)
  then show "upd_pcb q p f (s\<lparr>pids := ps\<rparr>) = Inr s' \<Longrightarrow> frame s s'" "upd_pcb q p f s = Inr s' \<Longrightarrow> frame s s'"
    unfolding frame_def by (force, metis kern.surjective kern.update_convs(7))
qed

lemma kill_visit_frame:
  assumes "kill_visit rec proc x (f, s) = Inr (f', s')" "kill_state s \<noteq> 0"
  shows "frame s s'"
  using assms by (cases x) (auto simp: kill_visit_def res_simps frame_refl split: if_splits dest: upd_pcb_frame)

lemma kill_all_frame:
  "rfold (kill_visit rec proc) xs (f, s) = Inr (f', s') \<Longrightarrow> kill_state s \<noteq> 0 \<Longrightarrow> frame s s'"
proof (induction xs arbitrary: f s)
  case (Cons x xs)
  obtain g t where g: "kill_visit rec proc x (f, s) = Inr (g, t)" "rfold (kill_visit rec proc) xs (g, t) = Inr (f', s')"
    using Cons.prems(1) by (auto simp: res_simps)
  have t: "frame s t" using kill_visit_frame [OF g(1) Cons.prems(2)] .
  then have "frame t s'" using Cons.IH [OF g(2)] Cons.prems(2) frame_kill_state [OF t] by simp
  with t show ?case by (rule frame_trans)
qed (simp add: frame_refl)

lemma pc_kill_frame:
  assumes "pc_kill fuel proc s = Inr (r, s')" "kill_state s \<noteq> 0"
  shows "frame s s'"
proof (cases fuel)
  case 0
  then show ?thesis using assms kill_all_frame by (fastforce simp: kill_body_def res_simps frame_refl split: if_splits)
next
  case (Suc n)
  then show ?thesis using assms kill_all_frame by (fastforce simp: kill_body_def res_simps frame_refl split: if_splits)
qed

lemma slot_at:
  assumes "i < 8" "j < 16"
  shows "\<exists>x\<in>set (slots s). slot_index x = (i, j)"
proof -
  have "(i, j) \<in> slot_index ` set (slots s)" unfolding slots_all(1) using assms by simp
  then show ?thesis by (auto simp: image_iff)
qed

lemma blk_of_index: "blk_of s x = (\<lambda>(i, j). task_queue s ! i ! j) (slot_index x)"
  by (simp add: blk_of_def slot_index_def)

lemma kill_ok:
  assumes "procs_ok s" "0 \<le> proc"
  obtains r s' where "pc_kill fuel proc s = Inr (r, s')" "procs_ok s'"
    "alive_in (task_queue s') = (if proc \<le> 1 then alive_in (task_queue s) else filter_mset (\<lambda>a. a \<noteq> proc) (alive_in (task_queue s)))"
proof (cases "proc \<le> 1")
  case True
  then have "proc = 0 \<or> proc = 1" using assms(2) by auto
  then have "\<exists>r. pc_kill fuel proc s = Inr (r, s)" by (cases fuel) (auto simp: kill_body_def)
  then show thesis using that assms(1) True by auto
next
  case False
  note p = procs_okD [OF assms(1)] and d = kern_okD [OF procs_okD(1) [OF assms(1)]]
  let ?A = "\<lambda>(i, j). ASID (task_queue s ! i ! j)"
  have b: "ASID (blk_of s x) = ?A (slot_index x)" for x by (simp add: blk_of_def slot_index_def)
  have r: "slot_index x \<in> {..<8} \<times> {..<16}" if "x \<in> set (slots s)" for x using slots_all(1) that by blast
  have one: "x = y" if "x \<in> set (slots s)" "y \<in> set (slots s)" "ASID (blk_of s x) = proc" "ASID (blk_of s y) = proc" for x y
  proof (rule ccontr)
    assume "x \<noteq> y"
    then have "slot_index x \<noteq> slot_index y" using slot_index_inj by (auto dest: injD)
    then show False using alive_twice [OF d(1) r r, of x y proc] that False p(4) [of proc] b by simp
  qed
  have u: "proc \<in> used (pids s)" if "x \<in> set (slots s)" "ASID (blk_of s x) = proc" for x
    using alive_member [OF d(1), of "fst (slot_index x)" "snd (slot_index x)" proc] r [OF that(1)] that(2) b [of x] False p(5)
    by (auto simp: case_prod_unfold)
  obtain v s' where s': "pc_kill fuel proc s = Inr (v, s')" "tables_ok (task_queue s')" "pids_ok (pids s')"
    "used (pids s') \<supseteq> used (pids s) - {proc}" "\<forall>x\<in>set (slots s). blk_of s' x = killed proc (blk_of s x)"
    using pc_kill_spec [OF d(1) p(3,2), of proc fuel] one u False by (auto split: if_splits)
  have f: "frame s s'" using pc_kill_frame [OF s'(1) p(3)] .
  then have k: "kern_ok s'" "kill_state s' = kill_state s" using p(1) s'(2) by (auto simp: kern_ok_def frame_def)
  have "ASID (task_queue s' ! i ! j) = (if ASID (task_queue s ! i ! j) = proc then -1 else ASID (task_queue s ! i ! j))" if ij: "i < 8" "j < 16" for i j
  proof -
    obtain x where "x \<in> set (slots s)" "slot_index x = (i, j)" using slot_at [OF ij] by blast
    then show ?thesis using s'(5) by (auto simp: blk_of_index killed_def)
  qed
  then have a: "alive_in (task_queue s') = filter_mset (\<lambda>a. a \<noteq> proc) (alive_in (task_queue s))"
    using False by (intro alive_without [OF d(1) s'(2)]) auto
  have "procs_ok s'"
    using k s'(3,4) p False a by (intro procs_okI [of s' "alive_in (task_queue s)"]) auto
  then show thesis using that s'(1) a False by simp
qed

section \<open>The end of a process\<close>

lemma orphan_visit_ok:
  assumes "kern_ok s" "kill_state s \<noteq> 0" "unat q < 8" "unat p < 16"
  shows "\<exists>tq. orphan_visit fuel a (q, p) s = Inr (s\<lparr>task_queue := tq\<rparr>) \<and> kern_ok (s\<lparr>task_queue := tq\<rparr>)
    \<and> alive_in tq = alive_in (task_queue s) \<and> ASID (cblk (s\<lparr>task_queue := tq\<rparr>)) = ASID (cblk s)"
proof (cases "PPID (task_queue s ! unat q ! unat p) = a")
  case True
  note d = kern_okD [OF assms(1)]
  let ?f = "\<lambda>t. t\<lparr>PPID := 0\<rparr>"
  let ?tq = "tq_upd q p ?f (task_queue s)"
  have "tables_ok ?tq" using tables_block [OF d(1) assms(3,4)] by (intro tq_upd_tables d(1) assms(3,4)) (simp add: block_ok_def)
  moreover have "ASID (?tq ! i ! j) = ASID (task_queue s ! i ! j)" for i j
    using tq_upd_nth(1) [OF d(1) assms(3,4), of ?f] tq_upd_nth(2) [OF d(1) assms(3,4), of i j ?f]
    by (cases "i = unat q \<and> j = unat p") auto
  moreover have "alive_in ?tq = alive_in (task_queue s)" by (rule alive_upd_same [OF d(1) assms(3,4)]) simp
  ultimately show ?thesis
    using True assms(1,2) pcb_at_ok [OF d(1) assms(3,4)] upd_pcb_ok [OF d(1) assms(3,4), of ?f]
    by (intro exI [of _ ?tq]) (simp add: orphan_visit_def kern_ok_def cblk_def cpos_def)
next
  case False
  then show ?thesis using assms pcb_at_ok [OF kern_okD(1) [OF assms(1)] assms(3,4)]
    by (intro exI [of _ "task_queue s"]) (simp add: orphan_visit_def)
qed

lemma orphan_all_ok:
  assumes "kern_ok s" "kill_state s \<noteq> 0" "\<And>x. x \<in> set xs \<Longrightarrow> unat (fst x) < 8 \<and> unat (snd x) < 16"
  shows "\<exists>tq. rfold (orphan_visit fuel a) xs s = Inr (s\<lparr>task_queue := tq\<rparr>) \<and> kern_ok (s\<lparr>task_queue := tq\<rparr>)
    \<and> alive_in tq = alive_in (task_queue s) \<and> ASID (cblk (s\<lparr>task_queue := tq\<rparr>)) = ASID (cblk s)"
  using assms
proof (induction xs arbitrary: s)
  case Nil
  then show ?case by (intro exI [of _ "task_queue s"]) simp
next
  case (Cons x xs)
  obtain t where t: "orphan_visit fuel a x s = Inr (s\<lparr>task_queue := t\<rparr>)" "kern_ok (s\<lparr>task_queue := t\<rparr>)"
    "alive_in t = alive_in (task_queue s)" "ASID (cblk (s\<lparr>task_queue := t\<rparr>)) = ASID (cblk s)"
    using orphan_visit_ok [OF Cons.prems(1,2), of "fst x" "snd x" fuel a] Cons.prems(3) [of x] by auto
  then show ?case using Cons.IH [of "s\<lparr>task_queue := t\<rparr>"] Cons.prems by auto
qed

text \<open>Up to the scheduler; also the shell may end here.\<close>

lemma exit_up_to_schedule:
  assumes "procs_ok s" "runnable (cblk s)"
  obtains s2 where "pc_kill_syscall fuel c s = pc_schedule c s2" "kern_ok s2" "kill_state s2 \<noteq> 0"
    "alive_in (task_queue s2) = alive_in (task_queue s) - {#ASID (cblk s)#}" "ASID (cblk s) \<notin># alive_in (task_queue s2)"
    "ASID (cblk s) \<noteq> 1 \<Longrightarrow> procs_ok s2"
proof -
  note p = procs_okD [OF assms(1)] and d = kern_okD [OF procs_okD(1) [OF assms(1)]]
  let ?a = "ASID (cblk s)"
  have a: "?a \<in># alive_in (task_queue s)"
    using alive_member [OF d(1,4,5), of ?a] assms(2) by (simp add: cblk_def runnable_def)
  obtain ps where ps: "free_pidmap ?a (pids s) = Inr ps" "used ps = used (pids s) - {?a}" "pids_ok ps"
    using free_pidmap_spec [OF p(2), of ?a] a p(5) by blast
  let ?s = "s\<lparr>pids := ps\<rparr>"
  have k: "kern_ok ?s" "cblk ?s = cblk s" using p(1) by (simp_all add: kern_ok_def cblk_def cpos_def)
  have "unat (fst x) < 8 \<and> unat (snd x) < 16" if "x \<in> set (slots s)" for x
    using slots_all(1) [of s] that by (force simp: slot_index_def)
  then obtain t where t: "rfold (orphan_visit fuel ?a) (slots s) ?s = Inr (?s\<lparr>task_queue := t\<rparr>)" "kern_ok (?s\<lparr>task_queue := t\<rparr>)"
    "alive_in t = alive_in (task_queue s)" "ASID (cblk (?s\<lparr>task_queue := t\<rparr>)) = ?a"
    using orphan_all_ok [OF k(1), of "slots s" fuel ?a] p(3) k(2) by auto
  let ?s1 = "?s\<lparr>task_queue := t\<rparr>" and ?f = "\<lambda>t. t\<lparr>ASID := -1\<rparr>"
  note d1 = kern_okD [OF t(2)]
  let ?t = "tq_upd (curr_queue ?s1) (cpos ?s1) ?f t"
  let ?s2 = "?s1\<lparr>task_queue := ?t\<rparr>"
  have u: "upd_curr ?f ?s1 = Inr ?s2" using upd_curr_ok [OF t(2), of ?f] by simp
  have k2: "kern_ok ?s2" using kern_ok_upd_curr(1) [OF t(2), of ?f] d1(6) by (simp add: block_ok_def)
  have "ASID (task_queue ?s1 ! unat (curr_queue ?s1) ! unat (cpos ?s1)) = ?a" using t(4) by (simp only: cblk_def)
  moreover have "one_alive (-1) = {#}" by (simp add: one_alive_def)
  ultimately have "alive_in ?t + one_alive ?a = alive_in t"
    using alive_upd [OF d1(1,4,5), of ?f] by simp
  then have al: "alive_in ?t = alive_in (task_queue s) - {#?a#}"
    using t(3) assms(2) by (simp add: one_alive_def runnable_def) (metis add_mset_remove_trivial)
  have out: "?a \<notin># alive_in (task_queue s) - {#?a#}"
    using p(4) [of ?a] by (simp add: not_in_iff)
  have sub: "set_mset (alive_in (task_queue s) - {#?a#}) \<subseteq> set_mset (alive_in (task_queue s)) - {?a}"
    using out in_diffD by fastforce
  have ok: "procs_ok ?s2" if "?a \<noteq> 1"
  proof (rule procs_okI [of ?s2 "alive_in (task_queue s)"])
    show "set_mset (alive_in (task_queue ?s2)) \<subseteq> used (pids ?s2)" using sub al ps(2) p(5) by auto
    show "1 \<in># alive_in (task_queue ?s2)" using al p(6) that by (simp add: in_diff_count)
  qed (use k2 ps(3) p(3,4) al in simp_all)
  have "pc_kill_syscall fuel c s = pc_schedule c ?s2"
    using u t(1) ps(1) get_curr_pcb_ok [OF p(1)] by (simp add: pc_kill_syscall_def)
  then show thesis using that [of ?s2] k2 al out ok p(3) by simp
qed

lemma exit_ok:
  assumes "procs_ok s" "runnable (cblk s)" "ASID (cblk s) \<noteq> 1"
  obtains c' s' where "pc_kill_syscall fuel c s = Inr (c', s')" "procs_ok s'" "runnable (cblk s')" "c' = ctx (cblk s')"
    "alive_in (task_queue s') = alive_in (task_queue s) - {#ASID (cblk s)#}"
proof -
  from assms(1,2) obtain s2 where s2: "pc_kill_syscall fuel c s = pc_schedule c s2"
    "alive_in (task_queue s2) = alive_in (task_queue s) - {#ASID (cblk s)#}" "procs_ok s2"
    by (rule exit_up_to_schedule [of s fuel c]) (use assms(3) in blast)
  then have "alive_ok s2" "kill_state s2 \<noteq> 0" by (simp_all add: procs_ok_alive)
  from this(1) obtain c' s' where "pc_schedule c s2 = Inr (c', s')" "alive_ok s'" "kill_state s' = kill_state s2" "runnable (cblk s')"
    "c' = ctx (cblk s')" "alive_in (task_queue s') = alive_in (task_queue s2)" by (rule tick_ok [of s2 c])
  then show thesis using that s2 \<open>kill_state s2 \<noteq> 0\<close> by (simp add: procs_ok_alive)
qed

section \<open>Fork and creation\<close>

lemma alive_ok_more:
  assumes "alive_ok s" "kern_ok s'" "alive_in (task_queue s') = alive_in (task_queue s) + one_alive pid" "pids_ok (pids s')"
    and "used (pids s) \<subseteq> used (pids s')" "pid > 0 \<Longrightarrow> pid \<in> used (pids s') \<and> pid \<notin># alive_in (task_queue s)"
  shows "alive_ok s'"
proof -
  note p = alive_okD [OF assms(1)]
  have "count (alive_in (task_queue s')) a \<le> 1" for a
  proof (cases "a = pid \<and> pid > 0")
    case True
    then show ?thesis using assms(3,6) by (simp add: one_alive_def not_in_iff)
  next
    case False
    then show ?thesis using assms(3) p(3) [of a] by (cases "pid = a") (auto simp: one_alive_def)
  qed
  moreover have "set_mset (alive_in (task_queue s')) \<subseteq> used (pids s')"
    using assms(3,5,6) p(4) by (auto simp: one_alive_def split: if_splits)
  ultimately show ?thesis using assms(2-4) p(5) by (simp add: alive_ok_def)
qed

lemma alloc_fresh:
  assumes "alloc_pidmap ps = Inr (pid, ps')" "pids_ok ps"
  shows "pids_ok ps'" "used ps \<subseteq> used ps'" "pid > 0 \<Longrightarrow> pid \<in> used ps' \<and> pid \<notin> used ps"
  using alloc_pidmap_spec [OF assms(2)] assms by auto

lemma fork_ok:
  assumes "alive_ok s" "do_fork malloc c s = Inr (c', s')"
  shows "alive_ok s'"
proof -
  note p = alive_okD [OF assms(1)]
  obtain pid where f: "kern_ok s'" "alloc_pidmap (pids s) = Inr (pid, pids s')"
    "alive_in (task_queue s') = alive_in (task_queue s) + one_alive pid" using do_fork_effect [OF p(1) assms(2)] by blast
  show ?thesis by (rule alive_ok_more [OF assms(1) f(1,3)]) (use alloc_fresh [OF f(2) p(2)] p(4) in auto)
qed

lemma create_ok:
  assumes "alive_ok s" "pid > 0 \<Longrightarrow> pid \<in> used (pids s) \<and> pid \<notin># alive_in (task_queue s)"
    "pc_create pid func sp g nm prio s = Inr (b, s')"
  shows "alive_ok s'"
proof -
  note p = alive_okD [OF assms(1)]
  have f: "kern_ok s'" "s' = s\<lparr>task_queue := task_queue s'\<rparr>" "alive_in (task_queue s') = alive_in (task_queue s) + one_alive pid"
    using pc_create_effect [OF p(1) assms(3)] by blast+
  have "pids s' = pids s" by (subst f(2)) simp
  then show ?thesis using alive_ok_more [OF assms(1) f(1,3)] assms(2) p(2) by simp
qed

section \<open>Runs\<close>

text \<open>
  The events: the processes go on in time and in their memory, the timer interrupt or the preemption system call, the
  exit system call or an exception that ends the running process, \<^verbatim>\<open>pc_kill\<close> for a number, the fork
  system call, an identifier taken from the map, a process created with a number, and the change of the mode of
  killing. A step has no condition but that the operation returns: a fork is by whatever block counts as the running one, a kill
  takes any number, and the creation any number, as \<^verbatim>\<open>proc_demo_create\<close> passes the position of a block.
\<close>

datatype event = Elapses | Ticks | Exits | Kills int | Forks | Allocates | Creates int | Changes_mode

inductive run_step :: "(u32 \<Rightarrow> 'k \<Rightarrow> (u32 \<times> 'k) res) \<Rightarrow> 'k kern \<Rightarrow> event \<Rightarrow> 'k kern \<Rightarrow> bool" for malloc where
  elapse: "run_step malloc s Elapses (s\<lparr>cp0_count := n, mem := m, heap := h\<rparr>)"
| tick: "pc_schedule c s = Inr (c', s') \<Longrightarrow> run_step malloc s Ticks s'"
| exit: "pc_kill_syscall fuel c s = Inr (c', s') \<Longrightarrow> run_step malloc s Exits s'"
| kill: "pc_kill fuel proc s = Inr (r, s') \<Longrightarrow> run_step malloc s (Kills proc) s'"
| fork: "do_fork malloc c s = Inr (c', s') \<Longrightarrow> run_step malloc s Forks s'"
| allocate: "alloc_pidmap (pids s) = Inr (pid, ps) \<Longrightarrow> run_step malloc s Allocates (s\<lparr>pids := ps\<rparr>)"
| create: "pc_create pid func sp g nm prio s = Inr (b, s') \<Longrightarrow> run_step malloc s (Creates pid) s'"
| change_mode: "run_step malloc s Changes_mode (alt_kill_mode s)"

text \<open>A run whose every event satisfies \<open>P\<close> in its state.\<close>

inductive run :: "(u32 \<Rightarrow> 'k \<Rightarrow> (u32 \<times> 'k) res) \<Rightarrow> ('k kern \<Rightarrow> event \<Rightarrow> bool) \<Rightarrow> 'k kern \<Rightarrow> 'k kern \<Rightarrow> bool" for malloc P s where
  run_start: "run malloc P s s"
| run_more: "run malloc P s t \<Longrightarrow> run_step malloc t ev u \<Longrightarrow> P t ev \<Longrightarrow> run malloc P s u"

text \<open>
  What the code leaves to its callers. An exit is orderly when the block that counts as the running one holds a process other than
  the shell: after a fork in another queue than its own this may be a free block. A kill is orderly for a number
  that is not negative, a creation with an identifier that was taken and that no process holds, or with none;
  exits and kills only in the mode that hands the children to init.
\<close>

fun orderly :: "'k kern \<Rightarrow> event \<Rightarrow> bool" where
  "orderly s Exits \<longleftrightarrow> runnable (cblk s) \<and> ASID (cblk s) \<noteq> 1 \<and> kill_state s \<noteq> 0"
| "orderly s (Kills proc) \<longleftrightarrow> 0 \<le> proc \<and> kill_state s \<noteq> 0"
| "orderly s (Creates pid) \<longleftrightarrow> pid \<le> 0 \<or> (pid \<in> used (pids s) \<and> pid \<notin># alive_in (task_queue s))"
| "orderly s _ \<longleftrightarrow> True"

lemma run_step_keeps:
  assumes "run_step malloc s ev s'" "kern_ok s"
  shows "kern_ok s'"
  using assms
proof (induction rule: run_step.induct)
  case (create pid func sp g nm prio s b s')
  then show ?case using pc_create_effect by blast
next
  case (fork c s c' s')
  then show ?case using do_fork_effect by blast
next
  case (tick c s c' s')
  then show ?case using pc_schedule_keeps by blast
next
  case (exit fuel c s c' s')
  then show ?case using pc_kill_syscall_keeps by blast
next
  case (kill fuel proc s r s')
  then show ?case using pc_kill_keeps by blast
qed (simp_all add: kern_ok_def alt_kill_mode_def)

lemma run_keeps: "run malloc P s s' \<Longrightarrow> kern_ok s \<Longrightarrow> kern_ok s'"
  by (induction rule: run.induct) (auto intro: run_step_keeps)

lemma run_step_ok:
  assumes "run_step malloc s ev s'" "orderly s ev" "alive_ok s"
  shows "alive_ok s'"
  using assms
proof (induction rule: run_step.induct)
  case (elapse s n m h)
  then show ?case by (simp add: alive_ok_def kern_ok_def)
next
  case (tick c s c' s')
  from tick(3) obtain d t where "pc_schedule c s = Inr (d, t)" "alive_ok t" by (rule tick_ok [of s c])
  then show ?case using tick(1) by simp
next
  case (exit fuel c s c' s')
  then have s: "procs_ok s" "runnable (cblk s)" "ASID (cblk s) \<noteq> 1" by (simp_all add: procs_ok_alive)
  then obtain d t where "pc_kill_syscall fuel c s = Inr (d, t)" "procs_ok t" by (rule exit_ok [of s fuel c])
  then show ?case using exit(1) by (simp add: procs_ok_alive)
next
  case (kill fuel proc s r s')
  then have s: "procs_ok s" "0 \<le> proc" by (simp_all add: procs_ok_alive)
  then obtain q t where "pc_kill fuel proc s = Inr (q, t)" "procs_ok t" by (rule kill_ok [of s proc fuel])
  then show ?case using kill(1) by (simp add: procs_ok_alive)
next
  case (fork c s c' s')
  then show ?case using fork_ok by blast
next
  case (allocate s pid ps)
  note p = alive_okD [OF allocate(3)]
  have "alive_ok (s\<lparr>pids := ps\<rparr>)"
    by (rule alive_ok_more [OF allocate(3), of _ 0]) (use p alloc_fresh [OF allocate(1) p(2)] in \<open>simp_all add: one_alive_def\<close>)
  then show ?case .
next
  case (create pid func sp g nm prio s b s')
  then show ?case using create_ok [of s pid func sp g nm prio b s'] by auto
next
  case (change_mode s)
  then show ?case by (simp add: alive_ok_def kern_ok_def alt_kill_mode_def)
qed

lemma run_ok: "run malloc P s s' \<Longrightarrow> \<forall>t ev. P t ev \<longrightarrow> orderly t ev \<Longrightarrow> alive_ok s \<Longrightarrow> alive_ok s'"
  by (induction rule: run.induct) (auto intro: run_step_ok)

text \<open>
  Why an exit needs its condition. In an orderly state, a process that was moved out of the queue of its priority forks. If the block that
  counts as the running one from then on holds a process, the exit of the child ends that process, and the child stays.
\<close>

lemma exit_after_wrong_queue_fork:
  assumes "procs_ok s" "do_fork malloc c s = Inr (c1, s1)" "alloc_pidmap (pids s) = Inr (pid, ps)" "pid > 0"
    and "runnable (cblk s1)" "ASID (cblk s1) \<noteq> pid" "pc_kill_syscall fuel c1 s1 = Inr (c2, s2)"
  shows "pid \<in># alive_in (task_queue s2) \<and> ASID (cblk s1) \<notin># alive_in (task_queue s2)"
proof -
  have a: "alive_ok s" "kill_state s \<noteq> 0" using assms(1) by (simp_all add: procs_ok_alive)
  have f: "kill_state s1 = kill_state s" "alive_in (task_queue s1) = alive_in (task_queue s) + one_alive pid"
    using do_fork_effect [OF alive_okD(1) [OF a(1)] assms(2)] assms(3) by auto
  have "procs_ok s1" using fork_ok [OF a(1) assms(2)] f(1) a(2) by (simp add: procs_ok_alive)
  then obtain t where t: "pc_kill_syscall fuel c1 s1 = pc_schedule c1 t" "kern_ok t"
    "alive_in (task_queue t) = alive_in (task_queue s1) - {#ASID (cblk s1)#}" "ASID (cblk s1) \<notin># alive_in (task_queue t)"
    using assms(5) by (rule exit_up_to_schedule [of s1 fuel c1])
  have "pid \<in># alive_in (task_queue t)" using t(3) f(2) assms(4,6) by (simp add: one_alive_def in_diff_count)
  moreover have "alive_in (task_queue s2) = alive_in (task_queue t)"
    using pc_schedule_spec [OF t(2), of c1] assms(7) t(1) calculation by fastforce
  ultimately show ?thesis using t(4) by simp
qed

text \<open>
  C5. Runs of the process machinery, in any order of timer interrupts, preemptions, exits, kills, forks,
  allocations, creations and changes of the mode, from a good state. Whatever the events are, the tables and the
  current positions stay in shape, and the next timer interrupt loads a runnable process, or searches for ever just when no process
  is alive. If the events are orderly (an exit only by a block that holds a process other than the shell, no kill of a negative
  number, a creation only with an identifier that was taken and that no process holds, exits and kills in the mode
  that hands children to init): no two blocks hold the same identifier, every identifier of a living process is
  marked as used, the shell is alive, and a kill and an exit return and end just the process that was named or was running.
\<close>

theorem runs_keep_processes:
  assumes "procs_ok s" "run malloc P s k"
  shows "kern_ok k
    \<and> (if alive_in (task_queue k) = {#} then pc_schedule c k = Inl Hang
       else \<exists>c' k'. pc_schedule c k = Inr (c', k') \<and> runnable (cblk k') \<and> c' = ctx (cblk k') \<and> alive_in (task_queue k') = alive_in (task_queue k))
    \<and> ((\<forall>t ev. P t ev \<longrightarrow> orderly t ev) \<longrightarrow>
         (\<forall>a. count (alive_in (task_queue k)) a \<le> 1) \<and> set_mset (alive_in (task_queue k)) \<subseteq> used (pids k) \<and> 1 \<in># alive_in (task_queue k)
       \<and> (orderly k (Kills proc) \<longrightarrow> (\<exists>r k'. pc_kill fuel proc k = Inr (r, k')
            \<and> alive_in (task_queue k') = (if proc \<le> 1 then alive_in (task_queue k) else filter_mset (\<lambda>a. a \<noteq> proc) (alive_in (task_queue k)))))
       \<and> (orderly k Exits \<longrightarrow> (\<exists>c' k'. pc_kill_syscall fuel c k = Inr (c', k')
            \<and> alive_in (task_queue k') = alive_in (task_queue k) - {#ASID (cblk k)#})))"
proof (intro conjI impI)
  show k: "kern_ok k" using run_keeps [OF assms(2)] assms(1) by (simp add: procs_ok_def)
  show "if alive_in (task_queue k) = {#} then pc_schedule c k = Inl Hang
       else \<exists>c' k'. pc_schedule c k = Inr (c', k') \<and> runnable (cblk k') \<and> c' = ctx (cblk k') \<and> alive_in (task_queue k') = alive_in (task_queue k)"
    using pc_schedule_hang [OF k, of c] pc_schedule_spec [OF k, of c] by auto
next
  assume "\<forall>t ev. P t ev \<longrightarrow> orderly t ev"
  then have k: "alive_ok k" using run_ok [OF assms(2)] assms(1) by (simp add: procs_ok_alive)
  then show "\<forall>a. count (alive_in (task_queue k)) a \<le> 1" "set_mset (alive_in (task_queue k)) \<subseteq> used (pids k)"
    "1 \<in># alive_in (task_queue k)" by (simp_all add: alive_ok_def)
  show "\<exists>r k'. pc_kill fuel proc k = Inr (r, k')
      \<and> alive_in (task_queue k') = (if proc \<le> 1 then alive_in (task_queue k) else filter_mset (\<lambda>a. a \<noteq> proc) (alive_in (task_queue k)))"
    if "orderly k (Kills proc)"
  proof -
    have "procs_ok k" "0 \<le> proc" using k that by (simp_all add: procs_ok_alive)
    then show ?thesis by (rule kill_ok [of k proc fuel]) blast
  qed
  show "\<exists>c' k'. pc_kill_syscall fuel c k = Inr (c', k') \<and> alive_in (task_queue k') = alive_in (task_queue k) - {#ASID (cblk k)#}"
    if "orderly k Exits"
  proof -
    have "procs_ok k" "runnable (cblk k)" "ASID (cblk k) \<noteq> 1" using k that by (simp_all add: procs_ok_alive)
    then show ?thesis by (rule exit_ok [of k fuel c]) blast
  qed
qed

text \<open>The state after the start: init, the shell and the clock.\<close>

definition demo_run :: "unit kern" where
  "demo_run = demo_kern\<lparr>task_queue := replicate 4 (replicate 16 (demo_block (-1) 0 0))
      @ [demo_queue (demo_block 0 (-1) 4), demo_queue (demo_block 2 0 5), demo_queue (demo_block 1 0 6), replicate 16 (demo_block (-1) 0 0)]\<rparr>"

lemma demo_run_ok: "procs_ok demo_run" "alive_in (task_queue demo_run) = {#1, 2#}"
proof -
  show a: "alive_in (task_queue demo_run) = {#1, 2#}"
    by (simp add: alive_in_def demo_run_def demo_queue_def demo_block_def)
  have "kern_ok demo_run"
    by (auto simp: kern_ok_def tables_ok_def demo_run_def demo_kern_def demo_queue_def demo_block_ok)
  moreover have "pids demo_run = pids demo_kern" "kill_state demo_run \<noteq> 0" by (simp_all add: demo_run_def demo_kern_def)
  ultimately show "procs_ok demo_run" using demo_pids a by (simp add: procs_ok_def)
qed

text \<open>
  The fork of a process astray: process 2, of the queue 4, runs in the queue 6, where the shell has the second block.
  The child's exit ends the shell.
\<close>

definition astray :: "unit kern" where
  "astray = demo_kern\<lparr>curr_queue := 6, task_queue := replicate 4 (replicate 16 (demo_block (-1) 0 0))
      @ [demo_queue (demo_block 0 (-1) 4), demo_queue (demo_block (-1) 0 0),
         [demo_block 2 0 4, demo_block 1 0 6] @ replicate 14 (demo_block (-1) 0 0), replicate 16 (demo_block (-1) 0 0)]\<rparr>"

lemma astray_ok: "procs_ok astray" "cblk astray = demo_block 2 0 4" "task_queue astray ! 6 ! 1 = demo_block 1 0 6"
proof -
  have a: "alive_in (task_queue astray) = {#1, 2#}"
    by (simp add: alive_in_def astray_def demo_queue_def demo_block_def)
  have "kern_ok astray"
    by (auto simp: kern_ok_def tables_ok_def astray_def demo_kern_def demo_queue_def demo_block_ok)
  moreover have "pids astray = pids demo_kern" "kill_state astray \<noteq> 0" by (simp_all add: astray_def demo_kern_def)
  ultimately show "procs_ok astray" using demo_pids a by (simp add: procs_ok_def)
  show "cblk astray = demo_block 2 0 4" "task_queue astray ! 6 ! 1 = demo_block 1 0 6"
    by (simp_all add: cblk_def cpos_def astray_def demo_kern_def nth_append)
qed

lemma astray_exit_ends_shell:
  "\<exists>c1 s1 c2 s2. do_fork demo_malloc demo_ctx astray = Inr (c1, s1) \<and> pc_kill_syscall 0 c1 s1 = Inr (c2, s2)
    \<and> 1 \<notin># alive_in (task_queue s2)"
proof -
  note ok = astray_ok(1) and k = procs_okD(1) [OF astray_ok(1)]
  obtain pid ps where "alloc_pidmap (pids demo_kern) = Inr (pid, ps)" by (rule demo_alloc_pid)
  then have a: "alloc_pidmap (pids astray) = Inr (pid, ps)" by (simp add: astray_def)
  have pr: "priority (cblk astray) = 4" "runnable (cblk astray)" "curr_queue astray = 6" "cpos astray = 0"
    unfolding astray_ok(2) by (simp_all add: demo_block_def runnable_def astray_def cpos_def demo_kern_def)
  have q4: "task_queue astray ! unat (priority (cblk astray)) = demo_queue (demo_block 0 (-1) 4)"
    unfolding pr(1) by (simp add: astray_def demo_kern_def nth_append)
  have c0: "curr_proc astray ! unat (priority (cblk astray)) = 0" unfolding pr(1) by (simp add: astray_def demo_kern_def)
  have "find_slot free_slot (demo_queue (demo_block 0 (-1) 4)) (Suc 15) 0 = Inr (True, 1)"
    unfolding find_slot.simps Let_def by (simp add: rd_def demo_queue_def demo_block_def free_slot_def)
  then have at: "find_slot free_slot (task_queue astray ! unat (priority (cblk astray))) 16 (curr_proc astray ! unat (priority (cblk astray)))
      = Inr (True, 1)" unfolding q4 c0 by simp
  have m: "demo_block (-1) 0 0 \<in> set (task_queue astray ! unat (priority (cblk astray)))" "free_slot (demo_block (-1) 0 0)"
    unfolding q4 by (simp_all add: demo_queue_def free_slot_def demo_block_def)
  have h: "priority (cblk astray) \<noteq> curr_queue astray" "unat (priority (cblk astray)) < 8" using pr(1,3) by simp_all
  have mal: "demo_malloc 8192 (heap astray) = Inr (0x80500000, heap astray)" by (simp add: demo_malloc_def)
  obtain c1 s1 where f: "do_fork demo_malloc demo_ctx astray = Inr (c1, s1)"
    "cpos s1 \<noteq> cpos astray \<longrightarrow> cblk s1 = task_queue astray ! unat (curr_queue astray) ! unat (cpos s1)"
    using do_fork_wrong_queue [of astray _ pid ps demo_malloc _ _ demo_ctx, OF k pr(2) h m a mal] by auto
  have e: "cpos s1 = 1" "kill_state s1 = kill_state astray" using do_fork_effect [OF k f(1)] at by simp_all
  then have b: "cblk s1 = demo_block 1 0 6" using f(2) pr(3,4) astray_ok(3) by simp
  have al: "alive_ok astray" "kill_state astray \<noteq> 0" using ok by (simp_all add: procs_ok_alive)
  have "procs_ok s1" using fork_ok [OF al(1) f(1)] e(2) al(2) by (simp add: procs_ok_alive)
  moreover have "runnable (cblk s1)" unfolding b by (simp add: runnable_def demo_block_def)
  ultimately obtain t where t: "pc_kill_syscall 0 c1 s1 = pc_schedule c1 t" "kern_ok t"
    "alive_in (task_queue t) = alive_in (task_queue s1) - {#ASID (cblk s1)#}" "ASID (cblk s1) \<notin># alive_in (task_queue t)"
    by (rule exit_up_to_schedule [of s1 0 c1])
  have "alive_in (task_queue s1) \<supseteq># {#1, 2#}"
    using do_fork_effect [OF k f(1)] by (auto simp: alive_in_def astray_def demo_queue_def demo_block_def)
  then have "2 \<in># alive_in (task_queue t)" unfolding t(3) b by (simp add: demo_block_def in_diff_count insert_subset_eq_iff)
  then obtain c2 s2 where "pc_schedule c1 t = Inr (c2, s2)" "alive_in (task_queue s2) = alive_in (task_queue t)"
    using pc_schedule_spec [OF t(2), of c1] by fastforce
  then show ?thesis using f(1) t(1,4) b by (auto simp: demo_block_def)
qed

text \<open>The clock is killed; then nothing but the shell is left, and the next interrupt loads it.\<close>

theorem runs_keep_processes_witness:
  "\<exists>k c' k'. run demo_malloc orderly demo_run k \<and> alive_in (task_queue k) = {#1#}
    \<and> pc_schedule demo_ctx k = Inr (c', k') \<and> ASID (cblk k') = 1"
proof -
  from demo_run_ok(1) obtain r k where k: "pc_kill 0 2 demo_run = Inr (r, k)"
    "alive_in (task_queue k) = (if (2 :: int) \<le> 1 then alive_in (task_queue demo_run) else filter_mset (\<lambda>a. a \<noteq> 2) (alive_in (task_queue demo_run)))"
    by (rule kill_ok [of demo_run 2 0]) simp_all
  have "orderly demo_run (Kills 2)" using procs_okD(3) [OF demo_run_ok(1)] by simp
  then have run: "run demo_malloc orderly demo_run k" by (rule run_more [OF run_start run_step.kill [OF k(1)]])
  have a: "alive_in (task_queue k) = {#1#}" using k(2) demo_run_ok(2) by simp
  have ne: "alive_in (task_queue k) \<noteq> {#}" unfolding a by simp
  from runs_keep_processes [OF demo_run_ok(1) run, of demo_ctx 0 0]
  obtain c' k' where s: "pc_schedule demo_ctx k = Inr (c', k')" "runnable (cblk k')" "alive_in (task_queue k') = {#1#}"
    unfolding a by auto
  have "kern_ok k'" using pc_schedule_keeps [OF _ s(1)] run_keeps [OF run] procs_okD(1) [OF demo_run_ok(1)] by blast
  then have d: "tables_ok (task_queue k')" "unat (curr_queue k') < 8" "unat (cpos k') < 16" using kern_okD by blast+
  have "ASID (cblk k') \<in># alive_in (task_queue k')"
    using alive_member [OF d, of "ASID (cblk k')"] s(2) by (simp add: cblk_def runnable_def)
  then have "ASID (cblk k') = 1" using s(3) by simp
  then show ?thesis using run a s(1) by blast
qed

end
