(* ===== verification/KInitThms.thy ===== *)
theory KInitThms
  imports KInit ShellTree PcRuns
begin

text \<open>
  What the last part of the start establishes: the system calls, the scheduler, the first two
  processes and the interrupts. Printing a text without a percent sign, or with one decimal number,
  always returns; then the component lemmas of process control and identifiers are composed.
\<close>

lemma vprintf_plain: "37 \<notin> set fmt \<Longrightarrow> \<exists>r. vprintf_loop fmt ap cnt v = Inr r"
proof (induction fmt arbitrary: v)
  case (Cons c fmt)
  then show ?case by (cases fmt) simp_all
qed simp

lemma vprintf_int:
  assumes "\<And>v. \<exists>r. kernel_putint x 0xfff 0 v = Inr r" "37 \<notin> set u"
  shows "37 \<notin> set t \<Longrightarrow> \<exists>r. vprintf_loop (t @ 37 # 100 # u) [VInt x] cnt v = Inr r"
proof (induction t arbitrary: v)
  case Nil
  obtain c w where w: "kernel_putint x 0xfff 0 v = Inr (c, w)" using assms(1) [of v] by auto
  obtain r where "vprintf_loop u [] (cnt + 1) w = Inr r" using vprintf_plain [OF assms(2)] by blast
  then show ?case using w by (simp add: number_printer_def va_int_def)
next
  case (Cons c t)
  then have "c \<noteq> 37" "\<exists>r. vprintf_loop (t @ 37 # 100 # u) [VInt x] cnt (kernel_putchar (scast c) 0xfff 0 v) = Inr r" by simp_all
  then show ?case by (cases t) simp_all
qed

lemma say_plain: "37 \<notin> set fmt \<Longrightarrow> \<exists>w. say fmt ap v = Inr w"
  using vprintf_plain [of fmt ap 0 v] by (auto simp: say_def kernel_printf_def kernel_vprintf_def)

lemma log_returns:
  assumes "37 \<notin> set fmt" 
  shows "\<exists>w. log cl (Some st) fmt ap v = Inr w"
proof -
  obtain b where b: "get_time (fst cl) (snd cl) (replicate 9 0) 9 = Inr b"
    by (simp add: get_time_def kernel_assert_def)
  let ?t = "VStr (takeWhile (\<lambda>c. c \<noteq> 0) b)"
  obtain v1 where v1: "say (ascii ''   %s '') [?t] (log_tag st v) = Inr v1"
    by (simp add: say_def kernel_printf_def kernel_vprintf_def ascii_def number_printer_def va_str_def)
  obtain r v2 where v2: "kernel_vprintf fmt ap v1 = Inr (r, v2)"
    using vprintf_plain [OF assms, of ap 0 v1] by (auto simp: kernel_vprintf_def)
  obtain w where "say (ascii ''  '' @ nl) [] v2 = Inr w" using say_plain [of "ascii ''  '' @ nl"] by (auto simp: ascii_def nl_def)
  then show ?thesis using b v1 v2 by (simp add: log_def)
qed

lemma klog_returns: "37 \<notin> set (ascii msg) \<Longrightarrow> \<exists>v. klog e st msg s = Inr (s\<lparr>con := v\<rparr>)"
  using log_returns [of "ascii msg" "clock e" st "[]" "con s"] by (auto simp: klog_def)


lemma klog_next: "37 \<notin> set (ascii msg) \<Longrightarrow> \<exists>v. klog e st msg (s\<lparr>con := w, kernel := k\<rparr>) = Inr (s\<lparr>con := v, kernel := k\<rparr>)"
proof -
  assume "37 \<notin> set (ascii msg)"
  then obtain x where "log (clock e) (Some st) (ascii msg) [] w = Inr x" using log_returns by blast
  then show ?thesis by (intro exI [of _ x]) (simp add: klog_def)
qed

lemma print_asid:
  assumes "x \<noteq> 0x80000000" "x \<noteq> 0" "37 \<notin> set (ascii label)"
  shows "\<exists>v. print_line (ascii (''  '' @ label @ '' is %d'') @ nl) [VInt x] s = Inr (s\<lparr>con := v\<rparr>)"
proof -
  let ?t = "ascii (''  '' @ label @ '' is '')"
  have p: "\<exists>r. kernel_putint x 0xfff 0 v = Inr r" for v using kernel_putint_spec(1) [OF assms(1,2)] by simp
  have "ascii (''  '' @ label @ '' is %d'') @ nl = ?t @ 37 # 100 # nl" by (simp add: ascii_def)
  moreover have "37 \<notin> set ?t" "37 \<notin> set nl" using assms(3) by (simp_all add: ascii_def nl_def)
  ultimately obtain r where "vprintf_loop (ascii (''  '' @ label @ '' is %d'') @ nl) [VInt x] 0 (con s) = Inr r"
    using vprintf_int [OF p, of nl ?t 0 "con s"] by auto
  then show ?thesis
    by (cases r) (auto simp: print_line_def say_def kernel_printf_def kernel_vprintf_def intro: exI [of _ "snd r"])
qed

definition process_at :: "'k kern \<Rightarrow> nat \<Rightarrow> int \<Rightarrow> u32 \<Rightarrow> u32 \<Rightarrow> string \<Rightarrow> bool" where
  "process_at k q pid func sp nm \<longleftrightarrow> (\<exists>p<16. let b = task_queue k ! q ! p in ASID b = pid \<and> PPID b = 0 \<and> priority b = of_nat q
     \<and> r_epc (ctx b) = func \<and> r_sp (ctx b) = sp \<and> takeWhile (\<lambda>c. c \<noteq> 0) (name b) = ascii nm)"

lemma c_string_text: "0 \<notin> set (ascii nm) \<Longrightarrow> takeWhile (\<lambda>c. c \<noteq> 0) (c_string nm) = ascii nm"
  by (subst c_string_def, subst takeWhile_append2) (auto simp: ascii_def)

text \<open>One process made by init: the identifier is the one after the last, the stack is the allocated block.\<close>

lemma start_one_spec:
  assumes k: "kern_ok (kernel s)" "ASID (cblk (kernel s)) = 0" "unat prio < 8"
    and slot: "t \<in> set (task_queue (kernel s) ! unat prio)" "free_slot t"
    and pid: "alloc_pidmap (pids (kernel s)) = Inr (pid, pm)" "0 < pid" "pid < 32768"
    and mal: "kmalloc (fuel e) 8192 (heap (kernel s)) = Inr (m, h)"
    and plain: "37 \<notin> set (ascii label)" "37 \<notin> set (ascii msg)" "length nm < 32" "0 \<notin> set (ascii nm)"
  shows "\<exists>s'. start_one e label fn nm prio msg s = Inr s' \<and> s' = s\<lparr>con := con s', kernel := kernel s'\<rparr>
    \<and> kernel s' = (kernel s)\<lparr>task_queue := task_queue (kernel s'), pids := pm, heap := h\<rparr>
    \<and> kern_ok (kernel s') \<and> cblk (kernel s') = cblk (kernel s)
    \<and> alive_in (task_queue (kernel s')) = alive_in (task_queue (kernel s)) + one_alive pid
    \<and> process_at (kernel s') (unat prio) pid (addr_of e fn) (m + 8192) nm
    \<and> (\<forall>i j. task_queue (kernel s') ! i ! j = task_queue (kernel s) ! i ! j
         \<or> i = unat prio \<and> ASID (task_queue (kernel s') ! i ! j) = pid)"
proof -
  let ?k1 = "(kernel s)\<lparr>pids := pm\<rparr>"
  have w: "(word_of_int pid :: u32) \<noteq> 0x80000000" "(word_of_int pid :: u32) \<noteq> 0"
    using pid(2,3) uint_word_of_int_eq [of pid, where 'a = 32] by (auto simp: take_bit_int_eq_self dest: arg_cong [of _ _ uint])
  obtain v1 where v1: "print_line (ascii (''  '' @ label @ '' is %d'') @ nl) [VInt (word_of_int pid)] (s\<lparr>kernel := ?k1\<rparr>)
      = Inr (s\<lparr>kernel := ?k1, con := v1\<rparr>)"
    using print_asid [OF w plain(1), of "s\<lparr>kernel := ?k1\<rparr>"] by auto
  let ?k2 = "(kernel s)\<lparr>pids := pm, heap := h\<rparr>"
  have k2: "kern_ok ?k2" "cblk ?k2 = cblk (kernel s)" using k(1) by (simp_all add: kern_ok_def cblk_def cpos_def)
  obtain k3 and p :: u32 where c: "pc_create pid (addr_of e fn) (m + 8192) (gp e) (c_string nm) prio ?k2 = Inr (False, k3)"
    "unat p < 16" "free_slot (task_queue (kernel s) ! unat prio ! unat p)" "k3 = ?k2\<lparr>task_queue := task_queue k3\<rparr>" "kern_ok k3"
    "cblk k3 = cblk (kernel s)" "\<forall>i j. (i, j) \<noteq> (unat prio, unat p) \<longrightarrow> task_queue k3 ! i ! j = task_queue (kernel s) ! i ! j"
    "let b = task_queue k3 ! unat prio ! unat p in ASID b = pid \<and> PPID b = 0 \<and> priority b = prio
         \<and> r_epc (ctx b) = addr_of e fn \<and> r_sp (ctx b) = m + 8192
         \<and> takeWhile (\<lambda>c. c \<noteq> 0) (name b) = takeWhile (\<lambda>c. c \<noteq> 0) (c_string nm)"
    "alive_in (task_queue k3) = alive_in (task_queue (kernel s)) + one_alive pid"
    using pc_create_spec [of ?k2 prio t "c_string nm" pid "addr_of e fn" "m + 8192" "gp e"] k2 k(2,3) slot plain(3)
    by (auto simp: c_string_ok)
  have k3: "k3 = (kernel s)\<lparr>task_queue := task_queue k3, pids := pm, heap := h\<rparr>" by (subst c(4)) simp
  let ?s3 = "s\<lparr>con := v1, kernel := k3\<rparr>"
  obtain v2 where v2: "klog e LOG_OK msg ?s3 = Inr (?s3\<lparr>con := v2\<rparr>)" using klog_returns [OF plain(2)] by blast
  have "start_one e label fn nm prio msg s = Inr (?s3\<lparr>con := v2\<rparr>)"
    using pid(1) v1 mal c(1) v2 by (simp add: start_one_def alloc_def start_process_def)
  moreover have "process_at k3 (unat prio) pid (addr_of e fn) (m + 8192) nm"
    unfolding process_at_def using c(2,8) plain(4) by (intro exI [of _ "unat p"]) (simp add: Let_def c_string_text)
  moreover have "task_queue k3 ! i ! j = task_queue (kernel s) ! i ! j \<or> i = unat prio \<and> ASID (task_queue k3 ! i ! j) = pid" for i j
    using c(7,8) by (cases "(i, j) = (unat prio, unat p)") (auto simp: Let_def)
  ultimately show ?thesis using c(5,6,9) k3 by (intro exI [of _ "?s3\<lparr>con := v2\<rparr>"]) simp
qed


lemma next_pid:
  assumes "pids_ok p" "last_pid p = n" "used p = {0..n}" "0 \<le> n" "n < 100"
  shows "\<exists>p'. alloc_pidmap p = Inr (n + 1, p') \<and> pids_ok p' \<and> last_pid p' = n + 1 \<and> used p' = {0..n + 1}"
proof -
  have st: "(last_pid p + 1) mod 32768 = n + 1" using assms by simp
  from alloc_pidmap_spec [OF assms(1)] consider
    pid p' where "alloc_pidmap p = Inr (pid, p')" "n + 1 \<le> pid" "pid \<notin> used p" "{n + 1..<pid} \<subseteq> used p"
      "used p' = insert pid (used p)" "last_pid p' = pid" "pids_ok p'"
    | "{n + 1..<32768} \<subseteq> used p"
    unfolding st by blast
  then show ?thesis
  proof cases
    case 1
    have "\<not> n + 1 < pid"
    proof
      assume "n + 1 < pid"
      then have "n + 1 \<in> used p" using 1(4) by auto
      then show False using assms(3) by simp
    qed
    then have "pid = n + 1" using 1(2) by simp
    moreover have "insert (n + 1) {0..n} = {0..n + 1}" using assms(4) by auto
    ultimately show ?thesis using 1 assms(3) by auto
  next
    case 2
    have "n + 1 \<in> {n + 1..<32768}" using assms(5) by simp
    then have "n + 1 \<in> used p" using 2 by blast
    then show ?thesis using assms(3) by simp
  qed
qed

lemma init_syscall_spec:
  assumes "length (exceptions k) = 32" "length (syscalls k) = 256"
  shows "init_syscall k = Inr (k\<lparr>exceptions := (exceptions k)[8 := Some Syscall], syscalls := (syscalls k)[4 := Some Syscall4]\<rparr>)"
  using assms by (simp add: init_syscall_def register_exception_handler_def register_syscall_def)

text \<open>The two processes, from the state that \<^verbatim>\<open>init_pc\<close> leaves.\<close>

lemma create_startup_process_spec:
  assumes k: "kern_ok (kernel s)" "ASID (cblk (kernel s)) = 0" "pids_ok (pids (kernel s))" "last_pid (pids (kernel s)) = 0"
      "used (pids (kernel s)) = {0}"
    and free: "\<forall>q<8. \<forall>p<16. (q, p) \<noteq> (4, 0) \<longrightarrow> free_slot (task_queue (kernel s) ! q ! p)"
    and mal: "kmalloc (fuel e) 8192 (heap (kernel s)) = Inr (a, h)" "kmalloc (fuel e) 8192 h = Inr (b, h')"
  shows "\<exists>s'. create_startup_process e s = Inr s' \<and> s' = s\<lparr>con := con s', kernel := kernel s'\<rparr>
    \<and> kernel s' = (kernel s)\<lparr>task_queue := task_queue (kernel s'), pids := pids (kernel s'), heap := h'\<rparr>
    \<and> alive_in (task_queue (kernel s')) = alive_in (task_queue (kernel s)) + {#1, 2#}
    \<and> kern_ok (kernel s') \<and> cblk (kernel s') = cblk (kernel s) \<and> pids_ok (pids (kernel s')) \<and> used (pids (kernel s')) = {0, 1, 2}
    \<and> process_at (kernel s') 6 1 (addr_of e ''ps'') (a + 8192) ''Shell''
    \<and> process_at (kernel s') 5 2 (addr_of e ''system_time_proc'') (b + 8192) ''time''
    \<and> (\<forall>q<8. \<forall>p<16. (q, p) \<noteq> (4, 0) \<longrightarrow> free_slot (task_queue (kernel s') ! q ! p) \<or> ASID (task_queue (kernel s') ! q ! p) \<in> {1, 2})"
proof -
  let ?s0 = "s\<lparr>con := put_text (ascii ''  create_startup_process_start'' @ nl) 0xfff 0 (con s)\<rparr>"
  obtain p1 where p1: "alloc_pidmap (pids (kernel s)) = Inr (1, p1)" "pids_ok p1" "last_pid p1 = 1" "used p1 = {0..1}"
    using next_pid [OF k(3,4)] k(5) by auto
  obtain p2 where p2: "alloc_pidmap p1 = Inr (2, p2)" "pids_ok p2" "used p2 = {0..2}"
    using next_pid [OF p1(2,3)] p1(4) by auto
  have some_free: "\<exists>t. t \<in> set (task_queue k ! q) \<and> free_slot t" if "kern_ok k" "q < 8" "free_slot (task_queue k ! q ! 0)" for q and k :: "slabs kern"
    using tables_nth [of "task_queue k" "of_nat q"] kern_okD(1) [OF that(1)] that(2,3)
    by (intro exI [of _ "task_queue k ! q ! 0"]) (simp add: unat_of_nat take_bit_nat_eq_self)
  obtain t6 where t6: "t6 \<in> set (task_queue (kernel s) ! 6)" "free_slot t6" using some_free [OF k(1), of 6] free by auto
  have pl: "37 \<notin> set (ascii ''asid1'')" "37 \<notin> set (ascii ''asid2'')" "37 \<notin> set (ascii ''Shell init'')" "37 \<notin> set (ascii ''Timer init'')"
    "0 \<notin> set (ascii ''Shell'')" "0 \<notin> set (ascii ''time'')" by (simp_all add: ascii_def)
  obtain s1 where s1: "start_one e ''asid1'' ''ps'' ''Shell'' 6 ''Shell init'' ?s0 = Inr s1"
    "s1 = ?s0\<lparr>con := con s1, kernel := kernel s1\<rparr>" "kernel s1 = (kernel s)\<lparr>task_queue := task_queue (kernel s1), pids := p1, heap := h\<rparr>"
    "kern_ok (kernel s1)" "cblk (kernel s1) = cblk (kernel s)" "process_at (kernel s1) 6 1 (addr_of e ''ps'') (a + 8192) ''Shell''"
    "\<forall>i j. task_queue (kernel s1) ! i ! j = task_queue (kernel s) ! i ! j \<or> i = 6 \<and> ASID (task_queue (kernel s1) ! i ! j) = 1"
    "alive_in (task_queue (kernel s1)) = alive_in (task_queue (kernel s)) + one_alive 1"
    using start_one_spec [of ?s0 6 t6 1 p1 e a h "''asid1''" "''Shell init''" "''Shell''" "''ps''"] k(1,2) t6 p1(1) mal(1) pl
    by (simp del: split_paired_Ex) blast
  have k1: "pids (kernel s1) = p1" "heap (kernel s1) = h" by (subst s1(3); simp)+
  have "free_slot (task_queue (kernel s1) ! 5 ! 0)" using s1(7) [rule_format, of 5 0] free by simp
  then obtain t5 where t5: "t5 \<in> set (task_queue (kernel s1) ! 5)" "free_slot t5" using some_free [OF s1(4), of 5] by auto
  obtain s2 where s2: "start_one e ''asid2'' ''system_time_proc'' ''time'' 5 ''Timer init'' s1 = Inr s2"
    "s2 = s1\<lparr>con := con s2, kernel := kernel s2\<rparr>" "kernel s2 = (kernel s1)\<lparr>task_queue := task_queue (kernel s2), pids := p2, heap := h'\<rparr>"
    "kern_ok (kernel s2)" "cblk (kernel s2) = cblk (kernel s1)"
    "process_at (kernel s2) 5 2 (addr_of e ''system_time_proc'') (b + 8192) ''time''"
    "\<forall>i j. task_queue (kernel s2) ! i ! j = task_queue (kernel s1) ! i ! j \<or> i = 5 \<and> ASID (task_queue (kernel s2) ! i ! j) = 2"
    "alive_in (task_queue (kernel s2)) = alive_in (task_queue (kernel s1)) + one_alive 2"
    using start_one_spec [of s1 5 t5 2 p2 e b h' "''asid2''" "''Timer init''" "''time''" "''system_time_proc''"] s1(4,5) k(2) t5 p2(1) mal(2) pl k1
    by (simp del: split_paired_Ex) blast
  have "task_queue (kernel s2) ! 6 ! j = task_queue (kernel s1) ! 6 ! j" for j using s2(7) [rule_format, of 6 j] by simp
  then have sh: "process_at (kernel s2) 6 1 (addr_of e ''ps'') (a + 8192) ''Shell''" using s1(6) by (simp add: process_at_def)
  have fr: "free_slot (task_queue (kernel s2) ! q ! p) \<or> ASID (task_queue (kernel s2) ! q ! p) \<in> {1, 2}"
    if "q < 8" "p < 16" "(q, p) \<noteq> (4, 0)" for q p
    using s1(7) [rule_format, of q p] s2(7) [rule_format, of q p] free that by auto
  have kk: "kernel s2 = (kernel s)\<lparr>task_queue := task_queue (kernel s2), pids := p2, heap := h'\<rparr>"
    by (subst s2(3), subst s1(3)) simp
  have pk: "pids (kernel s2) = p2" by (subst s2(3)) simp
  have ss: "s2 = s\<lparr>con := con s2, kernel := kernel s2\<rparr>" by (subst s2(2), subst s1(2)) simp
  have "create_startup_process e s = Inr s2" using s1(1) s2(1) by (simp add: create_startup_process_def print_text_def)
  moreover have "alive_in (task_queue (kernel s2)) = alive_in (task_queue (kernel s)) + {#1, 2#}"
    using s1(8) s2(8) by (simp add: one_alive_def)
  moreover have "{0..2 :: int} = {0, 1, 2}" by auto
  ultimately show ?thesis using ss kk pk s2(4-6) s1(5) sh fr p2(2,3) by (intro exI [of _ s2] conjI) simp_all
qed


text \<open>
  C15. The last part of the start, from cleared process tables and a heap that can give two stacks: it
  returns with the invariant of all runs of the processes established, init current, the shell and the clock created
  behind it with identifiers 1 and 2, their entry points and stacks, every other block free, the
  system calls and the timer registered and interrupts enabled; nothing else but the screen changes.
\<close>

theorem init_processes_establishes:
  assumes "tables_ok (task_queue (kernel s))" "length (curr_proc (kernel s)) = 8" "length (time_slice (kernel s)) = 8"
    "length (bits_map (kernel s)) = 8" "length (syscalls (kernel s)) = 256" "length (interrupts (kernel s)) = 8"
    "length (exceptions (kernel s)) = 32"
    and mal: "kmalloc (fuel e) 8192 (heap (kernel s)) = Inr (a, h)" "kmalloc (fuel e) 8192 h = Inr (b, h')"
  shows "\<exists>s'. init_processes e s = Inr s' \<and> s' = s\<lparr>con := con s', kernel := kernel s'\<rparr> \<and> (let k = kernel s' in
    procs_ok k \<and> alive_in (task_queue k) = {#1, 2#} \<and> ASID (cblk k) = 0 \<and> curr_queue k = 4 \<and> used (pids k) = {0, 1, 2} \<and> heap k = h'
    \<and> process_at k 6 1 (addr_of e ''ps'') (a + 8192) ''Shell''
    \<and> process_at k 5 2 (addr_of e ''system_time_proc'') (b + 8192) ''time''
    \<and> (\<forall>q<8. \<forall>p<16. (q, p) \<noteq> (4, 0) \<longrightarrow> free_slot (task_queue k ! q ! p) \<or> ASID (task_queue k ! q ! p) \<in> {1, 2})
    \<and> exceptions k ! 8 = Some Syscall \<and> syscalls k ! 4 = Some Syscall4 \<and> syscalls k ! 10 = Some Pc_kill_syscall
    \<and> syscalls k ! 11 = Some Pc_preempt_syscall \<and> syscalls k ! 12 = Some Do_fork \<and> interrupts k ! 7 = Some Pc_schedule
    \<and> bit (cp0_status k) 0)"
proof -
  have pl: "37 \<notin> set (ascii ''System Calls.'')" "37 \<notin> set (ascii ''Process Control Module.'')" "37 \<notin> set (ascii ''Enable Interrupts.'')"
    by (simp_all add: ascii_def)
  let ?k1 = "(kernel s)\<lparr>exceptions := (exceptions (kernel s))[8 := Some Syscall], syscalls := (syscalls (kernel s))[4 := Some Syscall4]\<rparr>"
  obtain v1 where v1: "klog e LOG_START ''System Calls.'' s = Inr (s\<lparr>con := v1\<rparr>)" using klog_returns [OF pl(1)] by blast
  have u1: "upd_kernel init_syscall (s\<lparr>con := v1\<rparr>) = Inr (s\<lparr>con := v1, kernel := ?k1\<rparr>)"
    using init_syscall_spec [OF assms(7,5)] by (simp add: upd_kernel_def)
  obtain v2 where v2: "klog e LOG_END ''System Calls.'' (s\<lparr>con := v1, kernel := ?k1\<rparr>) = Inr (s\<lparr>con := v2, kernel := ?k1\<rparr>)"
    using klog_next [OF pl(1)] by blast
  obtain v3 where v3: "klog e LOG_START ''Process Control Module.'' (s\<lparr>con := v2, kernel := ?k1\<rparr>) = Inr (s\<lparr>con := v3, kernel := ?k1\<rparr>)"
    using klog_next [OF pl(2)] by blast
  obtain k2 where k2: "init_pc (pid_start ?k1) = Inr k2" "kern_ok k2" "ASID (cblk k2) = 0" "curr_queue k2 = 4" "pids_ok (pids k2)"
    "used (pids k2) = {0}" "last_pid (pids k2) = 0" "\<forall>q<8. \<forall>p<16. (q, p) \<noteq> (4, 0) \<longrightarrow> free_slot (task_queue k2 ! q ! p)"
    "interrupts k2 = (interrupts (kernel s))[7 := Some Pc_schedule]" "exceptions k2 = exceptions ?k1" "heap k2 = heap (kernel s)"
    "syscalls k2 = (syscalls ?k1)[10 := Some Pc_kill_syscall, 11 := Some Pc_preempt_syscall, 12 := Some Do_fork]"
    "kill_state k2 = 1" "alive_in (task_queue k2) = {#}"
    using init_pc_spec [of "pid_start ?k1" "pids (kernel s)"] assms by (auto simp: pid_start_def)
  let ?s2 = "s\<lparr>con := v3, kernel := k2\<rparr>"
  have u2: "upd_kernel (\<lambda>k. init_pc (pid_start k)) (s\<lparr>con := v3, kernel := ?k1\<rparr>) = Inr ?s2"
    using k2(1) by (simp add: upd_kernel_def)
  obtain s3 where s3: "create_startup_process e ?s2 = Inr s3" "s3 = ?s2\<lparr>con := con s3, kernel := kernel s3\<rparr>"
    "kernel s3 = k2\<lparr>task_queue := task_queue (kernel s3), pids := pids (kernel s3), heap := h'\<rparr>"
    "kern_ok (kernel s3)" "cblk (kernel s3) = cblk k2" "pids_ok (pids (kernel s3))" "used (pids (kernel s3)) = {0, 1, 2}"
    "process_at (kernel s3) 6 1 (addr_of e ''ps'') (a + 8192) ''Shell''"
    "process_at (kernel s3) 5 2 (addr_of e ''system_time_proc'') (b + 8192) ''time''"
    "\<forall>q<8. \<forall>p<16. (q, p) \<noteq> (4, 0) \<longrightarrow> free_slot (task_queue (kernel s3) ! q ! p) \<or> ASID (task_queue (kernel s3) ! q ! p) \<in> {1, 2}"
    "alive_in (task_queue (kernel s3)) = {#1, 2#}"
    using create_startup_process_spec [of ?s2 e a h b h'] k2(2,3,5-8,11,14) mal by auto
  let ?k3 = "init_interrupts (kernel s3)"
  obtain v4 where v4: "klog e LOG_END ''Process Control Module.'' s3 = Inr (s3\<lparr>con := v4\<rparr>)" using klog_returns [OF pl(2)] by blast
  obtain v5 where v5: "klog e LOG_START ''Enable Interrupts.'' (s3\<lparr>con := v4\<rparr>) = Inr (s3\<lparr>con := v5\<rparr>)"
    using klog_returns [OF pl(3), of e LOG_START "s3\<lparr>con := v4\<rparr>"] by auto
  obtain v6 where v6: "klog e LOG_END ''Enable Interrupts.'' (s3\<lparr>con := v5, kernel := ?k3\<rparr>) = Inr (s3\<lparr>con := v6, kernel := ?k3\<rparr>)"
    using klog_next [OF pl(3)] by blast
  let ?s = "s3\<lparr>con := v6, kernel := ?k3\<rparr>"
  have r: "init_processes e s = Inr ?s"
    using v1 u1 v2 v3 u2 s3(1) v4 v5 v6 by (simp add: init_processes_def Let_def)
  have keep: "curr_queue (kernel s3) = 4" "syscalls (kernel s3) = syscalls k2" "interrupts (kernel s3) = interrupts k2"
    "exceptions (kernel s3) = exceptions k2" "heap (kernel s3) = h'"
    "kill_state (kernel s3) = 1"
    using k2(4,13) by (subst s3(3); simp)+
  have k3: "process_at ?k3 = process_at (kernel s3)" "kern_ok ?k3" "cblk ?k3 = cblk k2" "curr_queue ?k3 = curr_queue (kernel s3)"
    "task_queue ?k3 = task_queue (kernel s3)" "pids ?k3 = pids (kernel s3)" "heap ?k3 = heap (kernel s3)"
    "exceptions ?k3 = exceptions (kernel s3)" "syscalls ?k3 = syscalls (kernel s3)" "interrupts ?k3 = interrupts (kernel s3)"
    "bit (cp0_status ?k3) 0"
    using s3(4,5) by (simp_all add: process_at_def [abs_def] kern_ok_def cblk_def cpos_def init_interrupts_def bit_or_iff)
  have ss: "?s = s\<lparr>con := v6, kernel := ?k3\<rparr>" by (subst s3(2)) simp
  have "kill_state ?k3 = 1" using keep(6) by (simp add: init_interrupts_def)
  then have p: "procs_ok ?k3" unfolding procs_ok_def using k3(2,5,6) s3(6,7,11) by auto
  show ?thesis
    unfolding Let_def using r ss k3(1,3-11) p k2(3) s3(7-11) keep(1-5) k2(9,10,12) assms(5-7) by (intro exI [of _ ?s] conjI) simp_all
qed

definition two_stacks :: slabs where
  "two_stacks = demo_heap\<lparr>km := projr (rbind (put_block 2 1 demo_raw) (put_block 4 1))\<rparr>"

lemma two_stacks_kmalloc:
  "rbind (kmalloc 1000 8192 two_stacks) (\<lambda>(a, h). rbind (kmalloc 1000 8192 h) (\<lambda>(b, h'). Inr (a, b))) = Inr (0x80004000, 0x80002000)"
  by (simp add: two_stacks_def demo_raw_def put_block_def add_count_def upd_lists_def rd_def wr_def set_bplevel_def upd_page_def list_add_def
     raw_list_add_def set_nxt_def set_prv_def kmalloc_def cache_at_def demo_heap_def size_kmem_cache_def alloc_pages_def raw_alloc_pages_def
     order_loop.simps halve_loop.simps list_empty_def MAX_BUDDY_ORDER_def lock_buddy_def unlock_buddy_def PAGE_SHIFT_def KERNEL_ENTRY_def Let_def
     unlink_page_def list_del_init_def raw_list_del_def INIT_LIST_HEAD_def lockup_def unlock_def list_del_def poisoned_def)

definition demo_start :: "card sys" where
  "demo_start = demo_sys\<lparr>kernel := demo_kernel\<lparr>task_queue := task_queue demo_kern, curr_proc := replicate 8 0, time_slice := replicate 8 0,
     bits_map := replicate 8 0, syscalls := replicate 256 None, interrupts := replicate 8 None, exceptions := replicate 32 None,
     heap := two_stacks\<rparr>\<rparr>"

theorem init_processes_establishes_witness:
  "\<exists>s'. init_processes demo_sys_env demo_start = Inr s' \<and> procs_ok (kernel s') \<and> used (pids (kernel s')) = {0, 1, 2}
    \<and> process_at (kernel s') 6 1 (addr_of demo_sys_env ''ps'') 0x80006000 ''Shell''"
proof -
  have "tables_ok (task_queue (kernel demo_start))" using kern_okD(1) [OF demo_kern_ok] by (simp add: demo_start_def)
  moreover have "length (curr_proc (kernel demo_start)) = 8" "length (time_slice (kernel demo_start)) = 8"
    "length (bits_map (kernel demo_start)) = 8" "length (syscalls (kernel demo_start)) = 256" "length (interrupts (kernel demo_start)) = 8"
    "length (exceptions (kernel demo_start)) = 32" by (simp_all add: demo_start_def)
  moreover obtain h h' where "kmalloc 1000 8192 two_stacks = Inr (0x80004000, h)" "kmalloc 1000 8192 h = Inr (0x80002000, h')"
    using two_stacks_kmalloc by (auto simp: res_simps)
  moreover have "heap (kernel demo_start) = two_stacks" "fuel demo_sys_env = 1000" by (simp_all add: demo_start_def demo_sys_env_def)
  ultimately show ?thesis using init_processes_establishes [of demo_start demo_sys_env "0x80004000" h "0x80002000" h']
    by (simp add: Let_def) blast
qed

end
