(* ===== verification/Spec2Isabelle.thy ===== *)
theory Spec2Isabelle
  imports BootSegs Lock SlabThms FsCache KString Trap Time Ps2 FatThms FatWrite FatOpen FileTree MyviThms
    FileTreeThms ShellCat Sem KInitThms
begin

text \<open>
  Verification development for the Mini Operating System, a kernel in C for a 32-bit MIPS board.

  \<^bold>\<open>The program.\<close> \<^verbatim>\<open>kernel/init.c\<close> starts the parts in a fixed order. Physical memory is first handed
  out by the boot memory manager (\<^verbatim>\<open>kernel/mm/bootmm.c\<close>), which gives the buddy system
  (\<^verbatim>\<open>kernel/mm/buddy.c\<close>) its array of page descriptors; slab caches (\<^verbatim>\<open>kernel/mm/slab.c\<close>) take pages from
  the buddy system, and \<^verbatim>\<open>kmalloc\<close> serves every later allocation. The SD card (\<^verbatim>\<open>kernel/driver/sd.c\<close>) is
  read through block caches (\<^verbatim>\<open>kernel/fs/fscache\<close>) by the FAT32 file system (\<^verbatim>\<open>kernel/fs/fat\<close>), which is called
  directly or through a table of functions (\<^verbatim>\<open>kernel/fs/vfs\<close>); a tree of names (\<^verbatim>\<open>kernel/fs/tree\<close>) mirrors
  what the shell creates. Processes (\<^verbatim>\<open>kernel/pc\<close>) live in eight queues of sixteen control blocks; traps
  (\<^verbatim>\<open>arch/mips32/exc.c\<close>, \<^verbatim>\<open>intr.c\<close>, \<^verbatim>\<open>kernel/syscall\<close>) reach the scheduler, fork and kill through tables of
  handlers. The shell (\<^verbatim>\<open>usr/ps.c\<close>) reads lines from the keyboard (\<^verbatim>\<open>kernel/driver/ps2.c\<close>), echoes them on the
  text screen (\<^verbatim>\<open>kernel/driver/vga.c\<close>) and runs one of 36 commands, which reach all the other parts.

  \<^bold>\<open>Conventions.\<close> \<open>Prelude\<close> has the types and the result type \<open>'a res\<close>: \<open>Inl Fault\<close> is an access outside an
  array or through a null pointer, \<open>Inl Hang\<close> an endless loop of the code, \<open>Inl OutOfFuel\<close> a bound of the model.
  Integers keep their width (\<open>u8\<close>, \<open>u16\<close>, \<open>u32\<close>), so wrap-around is that of the machine; an array is a list of its
  length, read with \<open>rd\<close> and written with \<open>wr\<close>; a pointer into linked data is an address in a map. What the code
  takes from outside is an argument: the registers of the SD and keyboard controllers, the tick counter, the
  contents of local variables before they are set, the keys typed, the addresses of functions.

  \<^bold>\<open>Memory.\<close>
  \<^item> \<open>DList\<close>: \<^verbatim>\<open>include/zjunix/list.h\<close>, with the locale \<open>list_interface\<close> interpreted on the operations; \<open>KMem\<close> and
    \<open>KString\<close>: \<^verbatim>\<open>utils/utils.c\<close>; \<open>Lock\<close>: \<^verbatim>\<open>kernel/lock/lock.c\<close>.
  \<^item> \<open>BootMM\<close>: \<^verbatim>\<open>bootmm.c\<close>. \<open>BootMap\<close> shows that the search for pages is first fit, \<open>BootSegs\<close> that insertion and
    release change the covered set of addresses by exactly the range, and where release leaves the table.
  \<^item> \<open>Buddy\<close>: \<^verbatim>\<open>buddy.c\<close>. \<open>Tiling\<close> is the geometry of aligned blocks, \<open>BuddyInv\<close> the invariant \<open>binv\<close> that relates
    descriptors, lists and counts to a tiling of the managed frames; \<open>BuddyThms\<close> and \<open>BuddyInit\<close> show what
    allocation, release and initialisation do to it, that every sequence of calls (\<open>buddy_run\<close>) is safe, and
    when initialisation frees a frame that the kernel still uses.
  \<^item> \<open>Slab\<close>: \<^verbatim>\<open>slab.c\<close>. \<open>SlabThms\<close>: the objects handed out from a page (\<open>current_page\<close>) never overlap; what a release does
    to the current page, which depends on the links of its descriptor: to itself (\<open>slab_page\<close>) in a page from the buddy
    system, poisoned in one taken back from the partial list; a new page comes from the buddy system under its invariant.

  \<^bold>\<open>Storage.\<close>
  \<^item> \<open>Sd\<close>: \<^verbatim>\<open>sd.c\<close> over an abstract controller; the locales \<open>block_device\<close> and \<open>range_store\<close> are the contract of a disk and are interpreted
    on a card that answers the register protocol. \<open>FsCache\<close>: \<^verbatim>\<open>fscache.c\<close>; the locale \<open>cached_device\<close> shows
    that the caches refine the disk.
  \<^item> \<open>FatUtils\<close>, \<open>Fat\<close>, \<open>FatPath\<close>, \<open>FatFile\<close>, \<open>FatDir\<close>: \<^verbatim>\<open>fat/utils.c\<close>, \<^verbatim>\<open>fat.c\<close>, \<^verbatim>\<open>dir.c\<close> and \<^verbatim>\<open>usr.c\<close>, as state-passing
    functions that may fail (\<open>None\<close>, the code's error 1) or fault; \<open>FatThms\<close> and \<open>FatPath\<close> have the round trips
    of table entries and of names.
  \<^item> \<open>FatStore\<close>: the contents of the card as seen through the caches, the bytes of a file in the clusters of its
    chain, and the locale \<open>file_device\<close>, a device that reads and writes ranges of sectors, interpreted on the card
    (\<open>card_store\<close>, \<open>card_files\<close>). \<open>FatRead\<close>: \<^verbatim>\<open>fs_read\<close> copies from the bytes of the file; \<open>FatWrite\<close>: \<^verbatim>\<open>fs_write\<close>
    overwrites them inside the clusters that the file has, a seek and a read give them back, and writing the
    data blocks back brings them to the card. Data blocks may be waiting to be written; the block of the
    allocation table is clean, because these operations do not change the table. A write that takes new
    clusters is modelled and has no property. \<open>FatOpen\<close>: opening a short name in the first sector of the root
    directory, closing it, and \<^verbatim>\<open>fs_cat\<close>, which shows its contents (locale \<open>path_device\<close>, interpreted on the
    card as \<open>card_paths\<close>).
  \<^item> \<open>Vfs\<close>: \<^verbatim>\<open>vfs.c\<close>; \<open>FileTree\<close>: \<^verbatim>\<open>tree.c\<close>, with the entries of the root directory in \<open>FileTreeThms\<close>.

  \<^bold>\<open>Processes and traps.\<close>
  \<^item> \<open>Pid\<close>: \<^verbatim>\<open>pid.c\<close>, a bit map that refines a set of identifiers; \<open>Pc\<close>: \<^verbatim>\<open>pc.c\<close>; \<open>PcThms\<close>: the invariant \<open>kern_ok\<close>,
    the choice of the scheduler, that no process is lost, and the results of fork, create and kill. \<open>PcRuns\<close>: the
    step relation \<open>run_step\<close>, labelled with its events: timer, preemption, exit, kill, fork, allocation of an identifier, creation
    and change of the kill mode, without a condition but that the operation returns. Every run keeps \<open>kern_ok\<close>; the
    invariant \<open>alive_ok\<close> (\<open>procs_ok\<close> with the mode that hands children to init) is kept when the events are \<open>orderly\<close>, a
    condition the code leaves to its callers and does not check: \<open>astray_exit_ends_shell\<close> shows what a fork in a wrong queue
    and the exit of the child do without it. The recursive mode of killing is in the runs, and without further properties.
  \<^item> \<open>Trap\<close>: the tables of handlers and \<^verbatim>\<open>init_pc\<close>; \<open>Sem\<close>: \<^verbatim>\<open>sem.c\<close>, a counter with a first-in first-out queue of the
    processes that sleep, each in its own page.

  \<^bold>\<open>Devices and user programs.\<close>
  \<^item> \<open>Vga\<close> and \<open>VgaThms\<close>: \<^verbatim>\<open>vga.c\<close>, whose formatted printing stays on the text rows; \<open>Ps2\<close>: \<^verbatim>\<open>ps2.c\<close>, a ring buffer that
    refines a queue; \<open>Time\<close>: \<^verbatim>\<open>time.c\<close>; \<open>Info\<close>: \<^verbatim>\<open>utils/log.c\<close> and the reports of the parts.
  \<^item> \<open>Myvi\<close> and \<open>MyviThms\<close>: the editor \<^verbatim>\<open>usr/myvi.c\<close>, whose cursor stays in the text.
  \<^item> \<open>Cd\<close>: \<^verbatim>\<open>usr/cd.c\<close> and the operands of \<^verbatim>\<open>usr/ls.c\<close>; \<open>LineEditor\<close>: the line of \<^verbatim>\<open>ps\<close>, in its buffer
    for all characters and on the screen for those that do not move the cursor on their own; \<open>Shell\<close> and \<open>Commands\<close>: the rest of
    \<^verbatim>\<open>ps.c\<close>, \<^verbatim>\<open>ls.c\<close> and \<^verbatim>\<open>exec.c\<close> on the record \<open>sys\<close> of the states of all parts. \<open>ShellThms\<close> gives the operation that
    each line reaches, and composes keys, line, splitting, dispatch and \<^verbatim>\<open>cd\<close>; \<open>ShellTree\<close> composes \<^verbatim>\<open>touch\<close> and \<^verbatim>\<open>mkdir\<close> with the tree and the allocator;
    \<open>ShellCat\<close> follows \<^verbatim>\<open>cat\<close> from the keys typed through the file system, its caches and the card to the screen.
  \<^item> \<open>KInit\<close>: \<^verbatim>\<open>kernel/init.c\<close> on the same record; \<open>KInitThms\<close> shows what its last part establishes,
    among it \<open>procs_ok\<close>, from which the runs of \<open>PcRuns\<close> start.

  \<^bold>\<open>Bounds and fuel.\<close> Loops that count towards a bound are total functions. The slab allocator retries after
  moving a list node, so \<open>slab_alloc\<close> takes fuel; each retry removes a partial page, and the properties hold
  for every amount, including none, in the situations they describe. \<open>pc_kill\<close> recurses over children and takes
  fuel as its depth; the properties of the mode that hands children to init do not use it. A trap handler may
  call a trap handler once, so \<open>run_handler\<close> has depth 2. Loops that wait for a device, follow a chain on the card
  or list a directory are partial functions whose value \<open>None\<close> is no end. The shell's endless loop is its first
  \<open>n\<close> rounds, for every \<open>n\<close>.

  \<^bold>\<open>Not modelled.\<close> The assembly of the boot code, exception entry and TLB (\<^verbatim>\<open>arch/mips32/start.s\<close>, \<^verbatim>\<open>page.c\<close>,
  \<^verbatim>\<open>arch.c\<close>); the declarations of an ext2 file system that has no code; \<^verbatim>\<open>src/mem\<close>, older copies of the memory
  managers that are not in the build; \<^verbatim>\<open>fat/debug.c\<close>, which only prints; the test programs that run as processes
  (\<^verbatim>\<open>test_proc\<close>, \<^verbatim>\<open>test_fork\<close>, \<^verbatim>\<open>test_pidmap\<close>), endless loops on device registers and system calls; the messages that
  \<^verbatim>\<open>init_fs\<close> logs. Interrupts happen between operations: a preemption inside an operation is not modelled, but what
  it does to the shell's processes is an argument of the commands that start one.
\<close>

end
